(* ===== verification/Prelude.thy ===== *)
theory Prelude
  imports Main "HOL-Library.Word" "HOL-Library.Multiset"
begin

text \<open>
  What the components of the development share: the machine integer types, the result type of
  the fallible Rust functions, the big- and little-endian byte encodings that Rust's
  \<open>to_be_bytes\<close>, \<open>from_be_bytes\<close>, \<open>put_u32\<close>, \<open>get_u32\<close> and their kin
  compute, decimal rendering (\<open>usize::to_string\<close>), slice chunking, and the interfaces
  (locales) that a self-delimiting codec and an invariant-preserving machine satisfy.
\<close>

unbundle bit_operations_syntax

named_theorems codec_simps \<open>round-trip and length equations of the byte encodings\<close>
named_theorems wf_intros \<open>introduction rules of the well-formedness invariants\<close>

section \<open>Machine integers and results\<close>

type_synonym u8 = "8 word"
type_synonym u16 = "16 word"
type_synonym u32 = "32 word"
type_synonym u64 = "64 word"

text \<open>A byte slice or a byte vector.\<close>

type_synonym bytes = "u8 list"

text \<open>An \<open>as\<close> cast to a narrower type keeps a value that fits.\<close>

lemma unat_of_nat_small [codec_simps]:
  "n < 2 ^ 8 \<Longrightarrow> unat (of_nat n :: u8) = n"
  "n < 2 ^ 16 \<Longrightarrow> unat (of_nat n :: u16) = n"
  "n < 2 ^ 32 \<Longrightarrow> unat (of_nat n :: u32) = n"
  by (simp_all add: unat_of_nat)

text \<open>A statement about a byte, checked at all 256 of them.\<close>

lemma byte_by_cases: "list_all (\<lambda>k. P (word_of_int k :: u8)) [0..255] \<Longrightarrow> P b"
proof -
  assume "list_all (\<lambda>k. P (word_of_int k :: u8)) [0..255]"
  then have "\<forall>k \<in> {0..255}. P (word_of_int k)" by (simp only: list_all_iff set_upto)
  moreover have "uint b \<in> {0..255}" using uint_lt2p [of b] by simp
  ultimately have "P (word_of_int (uint b) :: u8)" by (rule bspec)
  then show "P b" by simp
qed

text \<open>Unicode scalar values (Rust's \<open>char\<close>), by code point.\<close>

type_synonym uchar = nat

text \<open>A string as its characters; the other view of a string is its UTF-8 bytes.\<close>

type_synonym ustring = "uchar list"

definition ustr :: "string \<Rightarrow> ustring" where
  "ustr s = map of_char s"

text \<open>Rust's \<open>Result\<close>. A panic is the \<open>None\<close> of an enclosing option.\<close>

datatype ('a, 'e) result = Ok 'a | Err 'e

fun bind_result :: "('a, 'e) result \<Rightarrow> ('a \<Rightarrow> ('b, 'e) result) \<Rightarrow> ('b, 'e) result" where
  "bind_result (Ok a) f = f a"
| "bind_result (Err e) f = Err e"

lemma bind_result_eq_Ok [simp]:
  "bind_result r f = Ok b \<longleftrightarrow> (\<exists>a. r = Ok a \<and> f a = Ok b)"
  by (cases r) auto

lemma bind_result_cong [fundef_cong]:
  "r = r' \<Longrightarrow> (\<And>a. r' = Ok a \<Longrightarrow> f a = g a) \<Longrightarrow> bind_result r f = bind_result r' g"
  by (cases r') auto

section \<open>Byte encodings of machine integers\<close>

definition be16 :: "u16 \<Rightarrow> bytes" where
  "be16 w = [ucast (drop_bit 8 w), ucast w]"

definition be32 :: "u32 \<Rightarrow> bytes" where
  "be32 w = be16 (ucast (drop_bit 16 w)) @ be16 (ucast w)"

definition be64 :: "u64 \<Rightarrow> bytes" where
  "be64 w = be32 (ucast (drop_bit 32 w)) @ be32 (ucast w)"

definition of_be16 :: "u8 \<Rightarrow> u8 \<Rightarrow> u16" where
  "of_be16 a b = push_bit 8 (ucast a) OR ucast b"

definition of_be32 :: "u8 \<Rightarrow> u8 \<Rightarrow> u8 \<Rightarrow> u8 \<Rightarrow> u32" where
  "of_be32 a b c d = push_bit 16 (ucast (of_be16 a b)) OR ucast (of_be16 c d)"

definition of_be64 :: "u8 \<Rightarrow> u8 \<Rightarrow> u8 \<Rightarrow> u8 \<Rightarrow> u8 \<Rightarrow> u8 \<Rightarrow> u8 \<Rightarrow> u8 \<Rightarrow> u64" where
  "of_be64 a b c d e f g h =
     push_bit 32 (ucast (of_be32 a b c d)) OR ucast (of_be32 e f g h)"

text \<open>
  The fixed-width reads \<open>get_u16\<close>, \<open>get_u32\<close>, \<open>get_u64\<close> at the front of a buffer
  that is long enough (the callers check the length first).
\<close>

definition get_u16 :: "bytes \<Rightarrow> u16" where
  "get_u16 bs = of_be16 (bs ! 0) (bs ! 1)"

definition get_u32 :: "bytes \<Rightarrow> u32" where
  "get_u32 bs = of_be32 (bs ! 0) (bs ! 1) (bs ! 2) (bs ! 3)"

definition get_u64 :: "bytes \<Rightarrow> u64" where
  "get_u64 bs = of_be64 (bs ! 0) (bs ! 1) (bs ! 2) (bs ! 3) (bs ! 4) (bs ! 5) (bs ! 6) (bs ! 7)"

lemma length_be [codec_simps, simp]:
  "length (be16 v) = 2" "length (be32 w) = 4" "length (be64 x) = 8"
  by (simp_all add: be16_def be32_def be64_def)

lemma bit_u8_less: "bit (b :: u8) n \<Longrightarrow> n < 8"
  and bit_u16_less: "bit (v :: u16) n \<Longrightarrow> n < 16"
  and bit_u32_less: "bit (w :: u32) n \<Longrightarrow> n < 32"
  by (auto dest: bit_imp_le_length)

lemma join_split:
  "push_bit 8 (ucast (ucast (drop_bit 8 v) :: u8)) OR ucast (ucast v :: u8) = (v :: u16)"
  "push_bit 16 (ucast (ucast (drop_bit 16 w) :: u16)) OR ucast (ucast w :: u16) = (w :: u32)"
  "push_bit 32 (ucast (ucast (drop_bit 32 x) :: u32)) OR ucast (ucast x :: u32) = (x :: u64)"
  by (rule bit_word_eqI, auto simp: bit_simps not_less not_le)+

lemma split_join:
  "ucast (drop_bit 8 (push_bit 8 (ucast a) OR ucast b :: u16)) = (a :: u8)"
  "ucast (push_bit 8 (ucast a) OR ucast b :: u16) = (b :: u8)"
  "ucast (drop_bit 16 (push_bit 16 (ucast v) OR ucast w :: u32)) = (v :: u16)"
  "ucast (push_bit 16 (ucast v) OR ucast w :: u32) = (w :: u16)"
  "ucast (drop_bit 32 (push_bit 32 (ucast x) OR ucast y :: u64)) = (x :: u32)"
  "ucast (push_bit 32 (ucast x) OR ucast y :: u64) = (y :: u32)"
  by (rule bit_word_eqI, auto simp: bit_simps dest: bit_u8_less bit_u16_less bit_u32_less)+

lemma get_be16 [codec_simps]: "get_u16 (be16 v @ rest) = v"
  by (simp add: get_u16_def be16_def of_be16_def join_split)

lemma get_be32 [codec_simps]: "get_u32 (be32 w @ rest) = w"
  by (simp add: get_u32_def be32_def be16_def of_be32_def of_be16_def join_split)

lemma get_be64 [codec_simps]: "get_u64 (be64 x @ rest) = x"
  by (simp add: get_u64_def be64_def be32_def be16_def of_be64_def of_be32_def of_be16_def join_split)

lemma be16_of_be16: "be16 (of_be16 a b) = [a, b]"
  unfolding be16_def of_be16_def split_join by (rule refl)

lemma be32_of_be32: "be32 (of_be32 a b c d) = [a, b, c, d]"
  unfolding be32_def of_be32_def split_join be16_of_be16 by simp

lemma be64_of_be64: "be64 (of_be64 a b c d e f g h) = [a, b, c, d, e, f, g, h]"
  unfolding be64_def of_be64_def split_join be32_of_be32 by simp

lemma be16_get [codec_simps]: "2 \<le> length bs \<Longrightarrow> be16 (get_u16 bs) = take 2 bs"
  unfolding get_u16_def be16_of_be16
  by (rule nth_equalityI) (auto simp: numeral_eq_Suc less_Suc_eq)

lemma be32_get [codec_simps]: "4 \<le> length bs \<Longrightarrow> be32 (get_u32 bs) = take 4 bs"
  unfolding get_u32_def be32_of_be32
  by (rule nth_equalityI) (auto simp: numeral_eq_Suc less_Suc_eq)

lemma be64_get [codec_simps]: "8 \<le> length bs \<Longrightarrow> be64 (get_u64 bs) = take 8 bs"
  unfolding get_u64_def be64_of_be64
  by (rule nth_equalityI) (auto simp: numeral_eq_Suc less_Suc_eq)

text \<open>The little-endian encodings \<open>to_le_bytes\<close> and \<open>from_le_bytes\<close>.\<close>

definition le16 :: "u16 \<Rightarrow> bytes" where
  "le16 w = rev (be16 w)"

definition le32 :: "u32 \<Rightarrow> bytes" where
  "le32 w = rev (be32 w)"

definition le64 :: "u64 \<Rightarrow> bytes" where
  "le64 w = rev (be64 w)"

definition get_le16 :: "bytes \<Rightarrow> u16" where
  "get_le16 bs = of_be16 (bs ! 1) (bs ! 0)"

definition get_le32 :: "bytes \<Rightarrow> u32" where
  "get_le32 bs = of_be32 (bs ! 3) (bs ! 2) (bs ! 1) (bs ! 0)"

definition get_le64 :: "bytes \<Rightarrow> u64" where
  "get_le64 bs = of_be64 (bs ! 7) (bs ! 6) (bs ! 5) (bs ! 4) (bs ! 3) (bs ! 2) (bs ! 1) (bs ! 0)"

lemma length_le [codec_simps, simp]:
  "length (le16 v) = 2" "length (le32 w) = 4" "length (le64 x) = 8"
  by (simp_all add: le16_def le32_def le64_def)

lemma get_le [codec_simps]:
  "get_le16 (le16 v @ rest) = v" "get_le32 (le32 w @ rest) = w" "get_le64 (le64 x @ rest) = x"
  by (simp_all add: get_le16_def le16_def get_le32_def le32_def get_le64_def le64_def be16_def
      be32_def be64_def of_be16_def of_be32_def of_be64_def join_split)

section \<open>Decimal rendering\<close>

text \<open>\<open>usize::to_string\<close> as ASCII bytes.\<close>

fun dec_bytes :: "nat \<Rightarrow> bytes" where
  "dec_bytes n = (if n < 10 then [of_nat (48 + n)]
                  else dec_bytes (n div 10) @ [of_nat (48 + n mod 10)])"

declare dec_bytes.simps [simp del]

definition is_ascii_digit :: "u8 \<Rightarrow> bool" where
  "is_ascii_digit b \<longleftrightarrow> 48 \<le> b \<and> b \<le> 57"

definition digit_value :: "u8 \<Rightarrow> nat" where
  "digit_value b = unat (b - 48)"

lemma unat_digit: "d < 10 \<Longrightarrow> unat (of_nat (48 + d) :: u8) = 48 + d"
  by (subst unat_of_nat) simp

lemma is_ascii_digit_of_nat [simp]: "d < 10 \<Longrightarrow> is_ascii_digit (of_nat (48 + d))"
  by (simp add: is_ascii_digit_def word_le_nat_alt unat_digit del: of_nat_add)

lemma digit_value_of_nat [simp]: "d < 10 \<Longrightarrow> digit_value (of_nat (48 + d)) = d"
  by (simp add: digit_value_def unat_of_nat)

lemma dec_bytes_nonempty [simp]: "dec_bytes n \<noteq> []"
  by (subst dec_bytes.simps) simp

lemma dec_bytes_digits: "b \<in> set (dec_bytes n) \<Longrightarrow> is_ascii_digit b"
proof (induction n rule: dec_bytes.induct)
  case (1 n)
  show ?case
  proof (cases "n < 10")
    case True
    with "1.prems" show ?thesis
      by (subst (asm) dec_bytes.simps) (simp del: of_nat_add)
  next
    case False
    have m: "n mod 10 < 10" by simp
    from False "1.prems" have "b \<in> set (dec_bytes (n div 10)) \<or> b = of_nat (48 + n mod 10)"
      by (subst (asm) dec_bytes.simps) (auto simp del: of_nat_add)
    with False "1.IH" m show ?thesis
      by (auto simp del: of_nat_add)
  qed
qed

text \<open>The value of a digit string, most significant digit first.\<close>

fun digits_value :: "nat \<Rightarrow> bytes \<Rightarrow> nat" where
  "digits_value acc [] = acc"
| "digits_value acc (b # bs) = digits_value (acc * 10 + digit_value b) bs"

lemma digits_value_append [simp]:
  "digits_value acc (xs @ ys) = digits_value (digits_value acc xs) ys"
  by (induction xs arbitrary: acc) auto

lemma digits_value_dec_bytes: "digits_value 0 (dec_bytes n) = n"
proof (induction n rule: dec_bytes.induct)
  case (1 n)
  show ?case
  proof (cases "n < 10")
    case True
    then show ?thesis by (subst dec_bytes.simps) (simp del: of_nat_add)
  next
    case False
    have m: "n mod 10 < 10" by simp
    from False "1.IH" m show ?thesis by (subst dec_bytes.simps) (simp del: of_nat_add)
  qed
qed

lemma digits_value_mono: "acc \<le> digits_value acc bs"
proof (induction bs arbitrary: acc)
  case (Cons b bs)
  have "acc \<le> acc * 10 + digit_value b" by simp
  also have "\<dots> \<le> digits_value (acc * 10 + digit_value b) bs" by (rule Cons.IH)
  finally show ?case by simp
qed simp

text \<open>\<open>str::parse\<close> of an unsigned type of \<open>w\<close> bits.\<close>

definition parse_uint :: "nat \<Rightarrow> bytes \<Rightarrow> nat option" where
  "parse_uint w bs =
     (let ds = (case bs of b # c # cs \<Rightarrow> if b = 0x2B then c # cs else bs | _ \<Rightarrow> bs)
      in if ds = [] \<or> \<not> list_all is_ascii_digit ds then None
         else if digits_value 0 ds < 2 ^ w then Some (digits_value 0 ds) else None)"

lemma parse_uint_dec:
  assumes "n < 2 ^ w"
  shows "parse_uint w (dec_bytes n) = Some n"
proof -
  let ?d = "dec_bytes n"
  have digits: "list_all is_ascii_digit ?d" using dec_bytes_digits by (auto simp: list_all_iff)
  moreover have "\<not> is_ascii_digit 0x2B" by (simp add: is_ascii_digit_def)
  ultimately have "(case ?d of b # c # cs \<Rightarrow> if b = 0x2B then c # cs else ?d | _ \<Rightarrow> ?d) = ?d"
    by (auto split: list.split)
  then show ?thesis using digits assms by (simp add: parse_uint_def digits_value_dec_bytes)
qed

section \<open>White space\<close>

text \<open>\<open>char::is_whitespace\<close>, \<open>str::trim\<close> and \<open>str::split_whitespace\<close>.\<close>

definition is_whitespace :: "uchar \<Rightarrow> bool" where
  "is_whitespace c \<longleftrightarrow> 9 \<le> c \<and> c \<le> 13 \<or> c = 0x20 \<or> c = 0x85 \<or> c = 0xA0 \<or> c = 0x1680 \<or>
     0x2000 \<le> c \<and> c \<le> 0x200A \<or> c = 0x2028 \<or> c = 0x2029 \<or> c = 0x202F \<or> c = 0x205F \<or> c = 0x3000"

definition trim :: "ustring \<Rightarrow> ustring" where
  "trim s = rev (dropWhile is_whitespace (rev (dropWhile is_whitespace s)))"

function split_whitespace :: "ustring \<Rightarrow> ustring list" where
  "split_whitespace s =
     (let t = dropWhile is_whitespace s
      in if t = [] then []
         else takeWhile (\<lambda>c. \<not> is_whitespace c) t #
              split_whitespace (dropWhile (\<lambda>c. \<not> is_whitespace c) t))"
  by pat_completeness auto
termination
proof (relation "measure length")
  fix s t :: ustring
  assume t: "t = dropWhile is_whitespace s" "t \<noteq> []"
  then obtain c r where "t = c # r" "\<not> is_whitespace c"
    by (metis hd_dropWhile list.collapse)
  then have "length (dropWhile (\<lambda>c. \<not> is_whitespace c) t) < length t"
    using length_dropWhile_le [of "\<lambda>c. \<not> is_whitespace c" r] by simp
  also have "length t \<le> length s" using t length_dropWhile_le by simp
  finally show "(dropWhile (\<lambda>c. \<not> is_whitespace c) t, s) \<in> measure length" by simp
qed simp

declare split_whitespace.simps [simp del]

section \<open>Slices\<close>

text \<open>\<open>slice.chunks(n)\<close> for \<open>n > 0\<close> (Rust panics on 0, so callers guard it).\<close>

function chunks :: "nat \<Rightarrow> 'a list \<Rightarrow> 'a list list" where
  "chunks n xs = (if n = 0 \<or> xs = [] then [] else take n xs # chunks n (drop n xs))"
  by pat_completeness auto
termination by (relation "measure (\<lambda>(n, xs). length xs)") auto

declare chunks.simps [simp del]

lemma chunks_Nil [simp]: "chunks n [] = []"
  by (subst chunks.simps) simp

lemma chunks_step: "0 < n \<Longrightarrow> xs \<noteq> [] \<Longrightarrow> chunks n xs = take n xs # chunks n (drop n xs)"
  by (subst chunks.simps) simp

lemma concat_chunks [simp]: "0 < n \<Longrightarrow> concat (chunks n xs) = xs"
proof (induction n xs rule: chunks.induct)
  case (1 n xs)
  then show ?case by (cases "xs = []") (simp_all add: chunks_step)
qed

lemma chunks_length_le: "c \<in> set (chunks n xs) \<Longrightarrow> length c \<le> n"
proof (induction n xs rule: chunks.induct)
  case (1 n xs)
  then show ?case by (subst (asm) (2) chunks.simps) (auto split: if_splits)
qed

definition div_ceil :: "nat \<Rightarrow> nat \<Rightarrow> nat" where
  "div_ceil a b = (a + b - 1) div b"

lemma length_chunks: "0 < n \<Longrightarrow> length (chunks n xs) = div_ceil (length xs) n"
proof (induction n xs rule: chunks.induct)
  case (1 n xs)
  show ?case
  proof (cases "xs = []")
    case True
    with "1.prems" show ?thesis by (simp add: div_ceil_def)
  next
    case False
    with 1 have IH: "length (chunks n (drop n xs)) = div_ceil (length xs - n) n" by simp
    have "div_ceil (length xs) n = Suc (div_ceil (length xs - n) n)"
    proof (cases "n \<le> length xs")
      case True
      then have "length xs + n - 1 = n + (length xs - n + n - 1)" using "1.prems" by simp
      then have "(length xs + n - 1) div n = Suc ((length xs - n + n - 1) div n)"
        using "1.prems" by (metis div_add_self1 not_gr_zero Suc_eq_plus1)
      then show ?thesis by (simp add: div_ceil_def)
    next
      case small: False
      have "(length xs + n - 1) div n = 1"
        using small False "1.prems" by (intro div_nat_eqI) (cases xs; simp)+
      with small "1.prems" show ?thesis by (simp add: div_ceil_def)
    qed
    with IH False "1.prems" show ?thesis by (simp add: chunks_step)
  qed
qed

section \<open>Outcomes that may be a panic\<close>

text \<open>\<open>None\<close> is the panic of an index or a slice out of range.\<close>

type_synonym ('a, 'e) presult = "('a, 'e) result option"

definition and_then :: "('a, 'e) presult \<Rightarrow> ('a \<Rightarrow> ('b, 'e) presult) \<Rightarrow> ('b, 'e) presult" where
  "and_then m f = (case m of None \<Rightarrow> None | Some (Err e) \<Rightarrow> Some (Err e) | Some (Ok a) \<Rightarrow> f a)"

lemma and_then_simps [simp]:
  "and_then None f = None"
  "and_then (Some (Err e)) f = Some (Err e)"
  "and_then (Some (Ok a)) f = f a"
  by (simp_all add: and_then_def)

lemma and_then_cong [fundef_cong]:
  "m = m' \<Longrightarrow> (\<And>a. m' = Some (Ok a) \<Longrightarrow> f a = g a) \<Longrightarrow> and_then m f = and_then m' g"
  by (auto simp: and_then_def split: option.splits result.splits)

text \<open>A reader applied to \<open>&p[i..]\<close>, and the wrapping addition of 64 bits.\<close>

definition read_from :: "(bytes \<Rightarrow> ('a, 'e) result) \<Rightarrow> bytes \<Rightarrow> nat \<Rightarrow> ('a, 'e) presult" where
  "read_from r p i = (if i \<le> length p then Some (r (drop i p)) else None)"

definition usize_add :: "nat \<Rightarrow> nat \<Rightarrow> nat" where
  "usize_add a b = (a + b) mod 2 ^ 64"

section \<open>Circular buffers\<close>

text \<open>How many steps forward it is from position \<open>a\<close> to position \<open>b\<close> of a buffer of \<open>n\<close> cells.\<close>

definition cyc_dist :: "nat \<Rightarrow> nat \<Rightarrow> nat \<Rightarrow> nat" where
  "cyc_dist n a b = (if a \<le> b then b - a else b + n - a)"

lemma cyc_dist_less: "a < n \<Longrightarrow> b < n \<Longrightarrow> cyc_dist n a b < n"
  by (auto simp: cyc_dist_def)

lemma cyc_dist_self [simp]: "cyc_dist n a a = 0"
  by (simp add: cyc_dist_def)

lemma cyc_dist_eq_0: "a < n \<Longrightarrow> b < n \<Longrightarrow> cyc_dist n a b = 0 \<longleftrightarrow> a = b"
  by (auto simp: cyc_dist_def)

lemma cyc_dist_next:
  assumes "a < n" "b < n"
  shows "cyc_dist n (Suc a mod n) b = (if a = b then n - 1 else cyc_dist n a b - 1)"
  using assms by (cases "Suc a = n") (auto simp: cyc_dist_def)

lemma cyc_dist_add: "a < n \<Longrightarrow> k < n \<Longrightarrow> cyc_dist n a ((a + k) mod n) = k"
  by (cases "a + k < n") (auto simp: cyc_dist_def mod_if)

lemma add_cyc_dist: "a < n \<Longrightarrow> b < n \<Longrightarrow> (a + cyc_dist n a b) mod n = b"
  by (auto simp: cyc_dist_def mod_if)

lemma cyc_dist_Suc:
  assumes "a < n" "b < n"
  shows "cyc_dist n a (Suc b mod n) = Suc (cyc_dist n a b) mod n"
proof -
  consider "Suc b = n" "a = 0" | "Suc b = n" "0 < a" | "Suc b < n" "a = Suc b" | "Suc b < n" "a \<noteq> Suc b"
    using assms by linarith
  then show ?thesis
  proof cases
    case 1
    then show ?thesis by (simp add: cyc_dist_def)
  next
    case 2
    then have "cyc_dist n a b = n - 1 - a" using assms by (simp add: cyc_dist_def)
    then have "Suc (cyc_dist n a b) = n - a" using 2 assms by simp
    then show ?thesis using 2 by (simp add: cyc_dist_def)
  next
    case 3
    then show ?thesis by (simp add: cyc_dist_def)
  next
    case 4
    then have "cyc_dist n a (Suc b) = Suc (cyc_dist n a b)" "Suc (cyc_dist n a b) < n"
      using assms by (auto simp: cyc_dist_def)
    then show ?thesis using 4 by simp
  qed
qed
section \<open>Interfaces\<close>

text \<open>
  The receive loop \<open>while let Some(x) = dec(&mut buf)\<close> over a buffer. Every decode of the
  codecs below consumes at least one byte, so \<open>length buf\<close> rounds are enough
  (\<open>drain_stream\<close>).
\<close>

fun drain :: "(bytes \<Rightarrow> ('a \<times> bytes) option) \<Rightarrow> nat \<Rightarrow> bytes \<Rightarrow> 'a list \<times> bytes" where
  "drain dec 0 buf = ([], buf)"
| "drain dec (Suc fuel) buf =
     (case dec buf of
        None \<Rightarrow> ([], buf)
      | Some (x, rest) \<Rightarrow> (case drain dec fuel rest of (xs, r) \<Rightarrow> (x # xs, r)))"

text \<open>
  A self-delimiting codec: decoding the front of a buffer that starts with an encoded value
  returns that value and leaves exactly the bytes behind it; a buffer that ends inside an encoded
  value is reported as incomplete. \<open>valid\<close> says which values the encoder is meant for.
\<close>

locale frame_codec =
  fixes enc :: "'a \<Rightarrow> bytes"
    and dec :: "bytes \<Rightarrow> ('a \<times> bytes) option"
    and valid :: "'a \<Rightarrow> bool"
  assumes dec_enc: "valid x \<Longrightarrow> dec (enc x @ rest) = Some (x, rest)"
    and dec_prefix: "valid x \<Longrightarrow> enc x = p @ q \<Longrightarrow> q \<noteq> [] \<Longrightarrow> dec p = None"
    and enc_nonempty: "valid x \<Longrightarrow> enc x \<noteq> []"
begin

lemma drain_stream:
  assumes "\<forall>x \<in> set xs. valid x" and "length xs < fuel"
    and "valid y" "enc y = p @ q" "q \<noteq> []"
  shows "drain dec fuel (concat (map enc xs) @ p) = (xs, p)"
  using assms(1,2)
proof (induction xs arbitrary: fuel)
  case Nil
  then obtain f where "fuel = Suc f" by (cases fuel) auto
  with dec_prefix [OF assms(3-5)] show ?case by simp
next
  case (Cons x xs)
  then obtain f where f: "fuel = Suc f" "length xs < f" by (cases fuel) auto
  from Cons.prems have "dec (enc x @ concat (map enc xs) @ p) = Some (x, concat (map enc xs) @ p)"
    by (intro dec_enc) simp
  moreover from Cons f have "drain dec f (concat (map enc xs) @ p) = (xs, p)" by simp
  ultimately show ?case using f by simp
qed

lemma length_stream:
  "\<forall>x \<in> set xs. valid x \<Longrightarrow> length xs \<le> length (concat (map enc xs))"
proof (induction xs)
  case (Cons x xs)
  then have "1 \<le> length (enc x)"
    using enc_nonempty [of x] by (cases "enc x") auto
  with Cons show ?case by simp
qed simp

text \<open>A whole stream of encoded values, cut anywhere inside the next one.\<close>

lemma drain_all_stream:
  assumes "\<forall>x \<in> set xs. valid x" and "valid y" "enc y = p @ q" "q \<noteq> []"
  shows "drain dec (Suc (length (concat (map enc xs) @ p))) (concat (map enc xs) @ p) = (xs, p)"
  using assms length_stream [OF assms(1)] by (intro drain_stream) auto

lemma enc_inj: "valid x \<Longrightarrow> valid y \<Longrightarrow> enc x = enc y \<Longrightarrow> x = y"
  using dec_enc [of x "[]"] dec_enc [of y "[]"] by simp

end

text \<open>
  A machine whose steps may fail to return (\<open>None\<close>: a panic or an endless loop) but do return,
  and keep the invariant, from every state that satisfies it, on every input its guard admits.
\<close>

fun run_steps :: "('s \<Rightarrow> 'i \<Rightarrow> 's option) \<Rightarrow> 's \<Rightarrow> 'i list \<Rightarrow> 's option" where
  "run_steps step s [] = Some s"
| "run_steps step s (i # is) = Option.bind (step s i) (\<lambda>s'. run_steps step s' is)"

lemma run_steps_append:
  "run_steps step s (xs @ ys) = Option.bind (run_steps step s xs) (\<lambda>s'. run_steps step s' ys)"
  by (induction xs arbitrary: s) (auto split: Option.bind_split)

locale guarded_machine =
  fixes step :: "'s \<Rightarrow> 'i \<Rightarrow> 's option"
    and inv :: "'s \<Rightarrow> bool"
    and guard :: "'s \<Rightarrow> 'i \<Rightarrow> bool"
    and same :: "'s \<Rightarrow> 's \<Rightarrow> bool"
  assumes guarded_step: "inv s \<Longrightarrow> guard s i \<Longrightarrow> \<exists>s'. step s i = Some s' \<and> inv s' \<and> same s s'"
    and guard_same: "same s t \<Longrightarrow> guard s i \<Longrightarrow> guard t i"
    and guarded_refl: "same s s"
    and guarded_trans: "same s t \<Longrightarrow> same t u \<Longrightarrow> same s u"
begin

lemma run_guarded:
  "inv s \<Longrightarrow> \<forall>i \<in> set is. guard s i \<Longrightarrow>
     \<exists>s'. run_steps step s is = Some s' \<and> inv s' \<and> same s s'"
proof (induction "is" arbitrary: s)
  case Nil
  then show ?case by (simp add: guarded_refl)
next
  case (Cons i "is")
  from Cons.prems guarded_step [of s i] obtain t where t: "step s i = Some t" "inv t" "same s t" by auto
  have "\<forall>i \<in> set is. guard t i" using Cons.prems(2) guard_same [OF t(3)] by simp
  from Cons.IH [OF t(2) this] obtain u where "run_steps step t is = Some u" "inv u" "same t u" by blast
  with t show ?case by (auto intro: guarded_trans)
qed

end

text \<open>The same without a guard: every input is admissible.\<close>

locale safe_machine =
  fixes step :: "'s \<Rightarrow> 'i \<Rightarrow> 's option"
    and inv :: "'s \<Rightarrow> bool"
    and same :: "'s \<Rightarrow> 's \<Rightarrow> bool"
  assumes step_safe: "inv s \<Longrightarrow> \<exists>s'. step s i = Some s' \<and> inv s' \<and> same s s'"
    and same_refl: "same s s"
    and same_trans: "same s t \<Longrightarrow> same t u \<Longrightarrow> same s u"

sublocale safe_machine \<subseteq> unguarded: guarded_machine step inv "\<lambda>_ _. True" same
  by unfold_locales (auto intro: step_safe same_refl same_trans)

context safe_machine
begin

lemma run_safe: "inv s \<Longrightarrow> \<exists>s'. run_steps step s is = Some s' \<and> inv s' \<and> same s s'"
  by (rule unguarded.run_guarded) auto

end

end
