(* ===== verification/Buffer_Pool.thy ===== *)
theory Buffer_Pool
  imports Prelude
begin

text \<open>
  The buffer pool of \<open>keeper-pam-webrtc-rs/src/buffer_pool.rs\<close>: a thread-local deque and a
  shared fallback deque of reusable buffers. The model is the view of one thread: its
  \<open>LOCAL_BUFFERS\<close> and the pool's \<open>fallback.buffers\<close>. A \<open>BytesMut\<close> is its bytes and its
  capacity; how far the \<open>bytes\<close> crate grows a buffer that is too small is the parameter
  \<open>grow\<close> (current capacity, needed length). The users of the pool rely on one promise: an
  acquired buffer is empty (locale \<open>empty_pool\<close>).
\<close>

section \<open>State\<close>

record bytes_mut =
  content :: bytes
  capacity :: nat

record buffer_pool_config =
  buffer_size :: nat
  max_pooled :: nat
  resize_on_return :: bool

record buffer_pool =
  local_buffers :: "bytes_mut list"
  fallback_buffers :: "bytes_mut list"
  config :: buffer_pool_config

definition STANDARD_BUFFER_CONFIG :: buffer_pool_config where
  "STANDARD_BUFFER_CONFIG =
     \<lparr>buffer_size = 32 * 1024, max_pooled = 64, resize_on_return = True\<rparr>"

definition default_buffer_pool_config :: buffer_pool_config where
  "default_buffer_pool_config =
     \<lparr>buffer_size = 8 * 1024, max_pooled = 32, resize_on_return = True\<rparr>"

definition with_capacity :: "nat \<Rightarrow> bytes_mut" where
  "with_capacity n = \<lparr>content = [], capacity = n\<rparr>"

definition clear_buf :: "bytes_mut \<Rightarrow> bytes_mut" where
  "clear_buf b = b\<lparr>content := []\<rparr>"

definition put_slice :: "(nat \<Rightarrow> nat \<Rightarrow> nat) \<Rightarrow> bytes_mut \<Rightarrow> bytes \<Rightarrow> bytes_mut" where
  "put_slice grow b xs =
     (let n = length (content b) + length xs
      in \<lparr>content = content b @ xs,
          capacity = (if n \<le> capacity b then capacity b else grow (capacity b) n)\<rparr>)"

section \<open>Operations\<close>

fun warm_up :: "nat \<Rightarrow> buffer_pool \<Rightarrow> buffer_pool" where
  "warm_up 0 p = p"
| "warm_up (Suc n) p =
     (if max_pooled (config p) \<le> length (local_buffers p) then p
      else warm_up n (p\<lparr>local_buffers :=
             local_buffers p @ [with_capacity (buffer_size (config p))]\<rparr>))"

text \<open>\<open>BufferPool::new\<close> on a thread whose local deque holds \<open>locals\<close>.\<close>

definition new_pool :: "bytes_mut list \<Rightarrow> buffer_pool_config \<Rightarrow> buffer_pool" where
  "new_pool locals c =
     warm_up 8 \<lparr>local_buffers = locals, fallback_buffers = [], config = c\<rparr>"

definition acquire_from_fallback :: "buffer_pool \<Rightarrow> bytes_mut \<times> buffer_pool" where
  "acquire_from_fallback p =
     (case fallback_buffers p of
        b # bs \<Rightarrow> (b, p\<lparr>fallback_buffers := bs\<rparr>)
      | [] \<Rightarrow> (with_capacity (buffer_size (config p)), p))"

definition acquire :: "buffer_pool \<Rightarrow> bytes_mut \<times> buffer_pool" where
  "acquire p =
     (case local_buffers p of
        b # bs \<Rightarrow> (b, p\<lparr>local_buffers := bs\<rparr>)
      | [] \<Rightarrow> acquire_from_fallback p)"

definition release :: "bytes_mut \<Rightarrow> buffer_pool \<Rightarrow> buffer_pool" where
  "release b p =
     (let buf = clear_buf b
      in if resize_on_return (config p) \<and> capacity buf > buffer_size (config p) * 2 then p
         else if length (local_buffers p) < max_pooled (config p)
         then p\<lparr>local_buffers := local_buffers p @ [buf]\<rparr>
         else if length (fallback_buffers p) < max_pooled (config p)
         then p\<lparr>fallback_buffers := fallback_buffers p @ [buf]\<rparr>
         else p)"

definition create_bytes ::
  "(nat \<Rightarrow> nat \<Rightarrow> nat) \<Rightarrow> bytes \<Rightarrow> buffer_pool \<Rightarrow> bytes \<times> buffer_pool" where
  "create_bytes grow xs p =
     (if xs = [] then ([], p)
      else (case acquire p of
              (b, p1) \<Rightarrow>
                (let filled = put_slice grow (clear_buf b) xs;
                     result = take (length xs) (content filled);
                     rest = \<lparr>content = drop (length xs) (content filled),
                             capacity = capacity filled - length xs\<rparr>
                 in (result, release rest p1))))"

section \<open>Invariant: pooled buffers are empty and the pool is bounded\<close>

definition pool_inv :: "buffer_pool \<Rightarrow> bool" where
  "pool_inv p \<longleftrightarrow>
     (\<forall>b \<in> set (local_buffers p) \<union> set (fallback_buffers p). content b = []) \<and>
     length (local_buffers p) \<le> max_pooled (config p) \<and>
     length (fallback_buffers p) \<le> max_pooled (config p)"

lemma warm_up_inv [wf_intros]: "pool_inv p \<Longrightarrow> pool_inv (warm_up n p)"
  by (induction n p rule: warm_up.induct) (auto simp: pool_inv_def with_capacity_def)

lemma warm_up_config [simp]: "config (warm_up n p) = config p"
  by (induction n p rule: warm_up.induct) auto

lemma new_pool_inv [wf_intros]:
  "(\<forall>b \<in> set locals. content b = []) \<Longrightarrow> length locals \<le> max_pooled c \<Longrightarrow> pool_inv (new_pool locals c)"
  unfolding new_pool_def by (rule warm_up_inv) (simp add: pool_inv_def)

lemma acquire_inv:
  assumes "pool_inv p" and "acquire p = (b, q)"
  shows "content b = []" and "pool_inv q" and "config q = config p"
  using assms
  by (auto simp: acquire_def acquire_from_fallback_def pool_inv_def with_capacity_def
           split: list.splits)

lemma release_inv [wf_intros]: "pool_inv p \<Longrightarrow> pool_inv (release b p)"
  by (auto simp: release_def pool_inv_def clear_buf_def Let_def)

lemma release_config [simp]: "config (release b p) = config p"
  by (auto simp: release_def Let_def)

lemma create_bytes_inv:
  assumes "pool_inv p"
  shows "fst (create_bytes grow xs p) = xs" and "pool_inv (snd (create_bytes grow xs p))"
proof -
  obtain b q where bq: "acquire p = (b, q)" by (cases "acquire p")
  then have q: "pool_inv q" using acquire_inv [OF assms] by blast
  show "fst (create_bytes grow xs p) = xs"
    using bq by (simp add: create_bytes_def put_slice_def clear_buf_def Let_def)
  show "pool_inv (snd (create_bytes grow xs p))"
    using bq q assms by (simp add: create_bytes_def Let_def release_inv)
qed

section \<open>The interface\<close>

locale empty_pool =
  fixes acq :: "'p \<Rightarrow> bytes_mut \<times> 'p"
    and rel :: "bytes_mut \<Rightarrow> 'p \<Rightarrow> 'p"
    and inv :: "'p \<Rightarrow> bool"
  assumes acq_empty: "inv p \<Longrightarrow> acq p = (b, q) \<Longrightarrow> content b = []"
    and acq_inv: "inv p \<Longrightarrow> acq p = (b, q) \<Longrightarrow> inv q"
    and rel_inv: "inv p \<Longrightarrow> inv (rel b p)"
begin

text \<open>
  Building a message in an acquired buffer without clearing it first yields exactly the bytes
  written, and the buffer can go back to the pool.
\<close>

lemma build_message:
  assumes "inv p" and "acq p = (b, q)"
  shows "content (put_slice grow b xs) = xs" and "inv (rel c q)"
  using acq_empty [OF assms] acq_inv [OF assms] by (simp_all add: put_slice_def Let_def rel_inv)

end

interpretation pool: empty_pool acquire release pool_inv
  by unfold_locales (auto intro: acquire_inv release_inv)

section \<open>Properties\<close>

text \<open>
  Whatever sequence of acquires, releases and copies a thread makes, every pooled
  buffer is empty and neither deque grows beyond \<open>max_pooled\<close>; so \<open>create_bytes\<close> returns exactly
  the bytes it was given and an acquired buffer never carries another frame's bytes.
\<close>

lemma pool_reuse_is_clean:
  assumes "pool_inv p"
  shows "fst (create_bytes grow xs p) = xs \<and> pool_inv (snd (create_bytes grow xs p)) \<and>
         content (fst (acquire p)) = [] \<and> pool_inv (snd (acquire p)) \<and> pool_inv (release b p)"
  using create_bytes_inv [OF assms] pool.acq_empty [OF assms] pool.acq_inv [OF assms]
    pool.rel_inv [OF assms] by (metis prod.collapse)

end
