(* ===== verification/Tube_Protocol.thy ===== *)
theory Tube_Protocol
  imports Buffer_Pool
begin

text \<open>
  The wire format of a tube, \<open>keeper-pam-webrtc-rs/src/tube_protocol.rs\<close>: frames
  \<open>ConnNo(4) TsMs(8) Len(4) Payload[Len] ';'\<close>, the control message codes and the close reasons,
  with the decoding half of the CloseConnection handler of \<open>channel/protocol.rs\<close> and the
  control-frame dispatch of \<open>channel/frame_handling.rs\<close>. The clock is an argument; log output
  and the prefetch and branch hints, which compute nothing, are left out.
\<close>

section \<open>Control messages and close reasons\<close>

datatype control_message =
  Ping | Pong | OpenConnection | CloseConnection | SendEOF | ConnectionOpened
| MetricsRequest | MetricsResponse | MetricsConfig

text \<open>The \<open>repr(u16)\<close> discriminants.\<close>

fun control_code :: "control_message \<Rightarrow> u16" where
  "control_code Ping = 1"
| "control_code Pong = 2"
| "control_code OpenConnection = 101"
| "control_code CloseConnection = 102"
| "control_code SendEOF = 104"
| "control_code ConnectionOpened = 103"
| "control_code MetricsRequest = 301"
| "control_code MetricsResponse = 302"
| "control_code MetricsConfig = 303"

definition control_try_from :: "u16 \<Rightarrow> control_message option" where
  "control_try_from raw =
     (if raw = 1 then Some Ping
      else if raw = 2 then Some Pong
      else if raw = 101 then Some OpenConnection
      else if raw = 102 then Some CloseConnection
      else if raw = 104 then Some SendEOF
      else if raw = 103 then Some ConnectionOpened
      else if raw = 301 then Some MetricsRequest
      else if raw = 302 then Some MetricsResponse
      else if raw = 303 then Some MetricsConfig
      else None)"

datatype close_reason =
  Normal | Error | Timeout | ServerRefuse | Client | Unknown | InvalidInstruction | GuacdRefuse
| ConnectionLost | ConnectionFailed | TunnelClosed | AdminClosed | ErrorRecording | GuacdError
| AIClosed | AddressResolutionFailed | DecryptionFailed | ConfigurationError | ProtocolError
| UpstreamClosed | ProxyError | HandlerError | SecurityThreat

fun reason_code :: "close_reason \<Rightarrow> u16" where
  "reason_code Normal = 0"
| "reason_code Error = 1"
| "reason_code Timeout = 2"
| "reason_code ServerRefuse = 4"
| "reason_code Client = 5"
| "reason_code Unknown = 6"
| "reason_code InvalidInstruction = 7"
| "reason_code GuacdRefuse = 8"
| "reason_code ConnectionLost = 9"
| "reason_code ConnectionFailed = 10"
| "reason_code TunnelClosed = 11"
| "reason_code AdminClosed = 12"
| "reason_code ErrorRecording = 13"
| "reason_code GuacdError = 14"
| "reason_code AIClosed = 15"
| "reason_code AddressResolutionFailed = 16"
| "reason_code DecryptionFailed = 17"
| "reason_code ConfigurationError = 18"
| "reason_code ProtocolError = 19"
| "reason_code UpstreamClosed = 20"
| "reason_code ProxyError = 21"
| "reason_code HandlerError = 22"
| "reason_code SecurityThreat = 23"

definition reason_from_code :: "u16 \<Rightarrow> close_reason" where
  "reason_from_code c =
     (if c = 0 then Normal else if c = 1 then Error else if c = 2 then Timeout
      else if c = 4 then ServerRefuse else if c = 5 then Client else if c = 6 then Unknown
      else if c = 7 then InvalidInstruction else if c = 8 then GuacdRefuse
      else if c = 9 then ConnectionLost else if c = 10 then ConnectionFailed
      else if c = 11 then TunnelClosed else if c = 12 then AdminClosed
      else if c = 13 then ErrorRecording else if c = 14 then GuacdError
      else if c = 15 then AIClosed else if c = 16 then AddressResolutionFailed
      else if c = 17 then DecryptionFailed else if c = 18 then ConfigurationError
      else if c = 19 then ProtocolError else if c = 20 then UpstreamClosed
      else if c = 21 then ProxyError else if c = 22 then HandlerError
      else if c = 23 then SecurityThreat else Unknown)"

definition reason_try_from :: "u16 \<Rightarrow> close_reason option" where
  "reason_try_from c =
     (if c = 0 then Some Normal else if c = 1 then Some Error else if c = 2 then Some Timeout
      else if c = 4 then Some ServerRefuse else if c = 5 then Some Client
      else if c = 6 then Some Unknown else if c = 7 then Some InvalidInstruction
      else if c = 8 then Some GuacdRefuse else if c = 9 then Some ConnectionLost
      else if c = 10 then Some ConnectionFailed else if c = 11 then Some TunnelClosed
      else if c = 12 then Some AdminClosed else if c = 13 then Some ErrorRecording
      else if c = 14 then Some GuacdError else if c = 15 then Some AIClosed
      else if c = 16 then Some AddressResolutionFailed else if c = 17 then Some DecryptionFailed
      else if c = 18 then Some ConfigurationError else if c = 19 then Some ProtocolError
      else if c = 20 then Some UpstreamClosed else if c = 21 then Some ProxyError
      else if c = 0xFFFF then Some Unknown
      else None)"

definition is_critical :: "close_reason \<Rightarrow> bool" where
  "is_critical r \<longleftrightarrow> r \<in> {Error, DecryptionFailed, ConfigurationError, ProtocolError,
     GuacdError, ProxyError, ErrorRecording}"

definition is_retryable :: "close_reason \<Rightarrow> bool" where
  "is_retryable r \<longleftrightarrow> r \<in> {Timeout, ConnectionLost, ConnectionFailed,
     AddressResolutionFailed, ServerRefuse}"

fun to_message :: "close_reason \<Rightarrow> string" where
  "to_message Normal = ''connection closed normally''"
| "to_message Error = ''connection error''"
| "to_message Timeout = ''connection timeout''"
| "to_message ServerRefuse = ''server refused connection''"
| "to_message Client = ''client closed connection''"
| "to_message Unknown = ''unknown error''"
| "to_message InvalidInstruction = ''invalid instruction''"
| "to_message GuacdRefuse = ''guacd refused connection''"
| "to_message ConnectionLost = ''connection lost''"
| "to_message ConnectionFailed = ''connection failed''"
| "to_message TunnelClosed = ''tunnel closed''"
| "to_message AdminClosed = ''administrator closed connection''"
| "to_message ErrorRecording = ''error recording session''"
| "to_message GuacdError = ''guacd protocol error''"
| "to_message AIClosed = ''AI closed connection''"
| "to_message AddressResolutionFailed = ''address resolution failed''"
| "to_message DecryptionFailed = ''decryption failed''"
| "to_message ConfigurationError = ''configuration error''"
| "to_message ProtocolError = ''protocol error''"
| "to_message UpstreamClosed = ''upstream connection closed''"
| "to_message ProxyError = ''database proxy error''"
| "to_message HandlerError = ''protocol handler error''"
| "to_message SecurityThreat = ''security threat detected''"

lemma control_round_trip [codec_simps]: "control_try_from (control_code m) = Some m"
  by (cases m) (simp_all add: control_try_from_def)

lemma reason_round_trip [codec_simps]: "reason_from_code (reason_code r) = r"
  by (cases r) (simp_all add: reason_from_code_def)

section \<open>Frames\<close>

record frame =
  connection_no :: u32
  timestamp_ms :: u64
  payload :: bytes

definition TERMINATOR :: bytes where "TERMINATOR = [0x3B]"

definition HEADER_LEN :: nat where
  \<comment> \<open>\<open>CONN_NO_LEN + TS_LEN + LEN_LEN\<close>\<close>
  "HEADER_LEN = 4 + 8 + 4"

definition new_control_with_pool ::
  "(nat \<Rightarrow> nat \<Rightarrow> nat) \<Rightarrow> u64 \<Rightarrow> control_message \<Rightarrow> bytes \<Rightarrow> buffer_pool \<Rightarrow> frame \<times> buffer_pool" where
  "new_control_with_pool grow now msg dat pool =
     (case acquire pool of
        (b, pool') \<Rightarrow>
          (let buf = put_slice grow (put_slice grow (clear_buf b) (be16 (control_code msg))) dat
           in (\<lparr>connection_no = 0, timestamp_ms = now, payload = content buf\<rparr>, pool')))"

definition new_control_with_buffer :: "u64 \<Rightarrow> control_message \<Rightarrow> bytes \<Rightarrow> frame" where
  "new_control_with_buffer now msg buf =
     \<lparr>connection_no = 0, timestamp_ms = now, payload = be16 (control_code msg) @ buf\<rparr>"

definition new_data_with_pool ::
  "(nat \<Rightarrow> nat \<Rightarrow> nat) \<Rightarrow> u64 \<Rightarrow> u32 \<Rightarrow> bytes \<Rightarrow> buffer_pool \<Rightarrow> frame \<times> buffer_pool" where
  "new_data_with_pool grow now conn_no dat pool =
     (case create_bytes grow dat pool of
        (xs, pool') \<Rightarrow>
          (\<lparr>connection_no = conn_no, timestamp_ms = now, payload = xs\<rparr>, pool'))"

text \<open>
  The bytes \<open>encode_into_buffer\<close> appends to its buffer; \<open>payload.len() as u32\<close> keeps the low 32
  bits of the length.
\<close>

definition encode_frame :: "frame \<Rightarrow> bytes" where
  "encode_frame f =
     be32 (connection_no f) @ be64 (timestamp_ms f) @ be32 (of_nat (length (payload f))) @
     payload f @ TERMINATOR"

definition encode_into_buffer ::
  "(nat \<Rightarrow> nat \<Rightarrow> nat) \<Rightarrow> frame \<Rightarrow> bytes_mut \<Rightarrow> bytes_mut" where
  "encode_into_buffer grow f buf = put_slice grow buf (encode_frame f)"

definition encode_into ::
  "(nat \<Rightarrow> nat \<Rightarrow> nat) \<Rightarrow> frame \<Rightarrow> bytes_mut \<Rightarrow> nat \<times> bytes_mut" where
  "encode_into grow f buf =
     (HEADER_LEN + length (payload f) + length TERMINATOR,
      encode_into_buffer grow f (clear_buf buf))"

definition encode_with_pool ::
  "(nat \<Rightarrow> nat \<Rightarrow> nat) \<Rightarrow> frame \<Rightarrow> buffer_pool \<Rightarrow> bytes \<times> buffer_pool" where
  "encode_with_pool grow f pool =
     (case acquire pool of
        (buf, pool') \<Rightarrow> (content (encode_into_buffer grow f buf), pool'))"

definition encode_data_frame_from_slice ::
  "(nat \<Rightarrow> nat \<Rightarrow> nat) \<Rightarrow> u64 \<Rightarrow> bytes_mut \<Rightarrow> u32 \<Rightarrow> bytes \<Rightarrow> nat \<times> bytes_mut" where
  "encode_data_frame_from_slice grow now target conn_no xs =
     (HEADER_LEN + length xs + length TERMINATOR,
      put_slice grow (clear_buf target)
        (be32 conn_no @ be64 now @ be32 (of_nat (length xs)) @ xs @ TERMINATOR))"

definition verify_terminator_at_position :: "bytes \<Rightarrow> nat \<Rightarrow> bool" where
  "verify_terminator_at_position buf pos \<longleftrightarrow> pos < length buf \<and> buf ! pos = 0x3B"

definition try_parse_frame :: "bytes \<Rightarrow> frame option \<times> bytes" where
  "try_parse_frame buf =
     (if length buf < HEADER_LEN then (None, buf)
      else
        let conn_no = get_u32 buf;
            ts = get_u64 (drop 4 buf);
            len = unat (get_u32 (drop 12 buf));
            total_size = HEADER_LEN + len + length TERMINATOR
        in if length buf < total_size then (None, buf)
           else if \<not> verify_terminator_at_position buf (HEADER_LEN + len)
           then (None, [])
           else (Some \<lparr>connection_no = conn_no, timestamp_ms = ts,
                        payload = take len (drop HEADER_LEN buf)\<rparr>,
                 drop total_size buf))"

text \<open>The receive loop's view of the parser: \<open>None\<close> means no frame came out.\<close>

definition parse_step :: "bytes \<Rightarrow> (frame \<times> bytes) option" where
  "parse_step buf =
     (case try_parse_frame buf of (Some f, rest) \<Rightarrow> Some (f, rest) | (None, _) \<Rightarrow> None)"

definition frame_ok :: "frame \<Rightarrow> bool" where
  "frame_ok f \<longleftrightarrow> length (payload f) < 2 ^ 32"

lemma length_encode_frame [simp]: "length (encode_frame f) = HEADER_LEN + length (payload f) + 1"
  by (simp add: encode_frame_def HEADER_LEN_def TERMINATOR_def)

text \<open>The header fields of a buffer that starts with a frame's header.\<close>

lemma header_fields:
  fixes c :: u32 and t :: u64 and l :: u32 and rest :: bytes
  defines "buf \<equiv> be32 c @ be64 t @ be32 l @ rest"
  shows "get_u32 buf = c" "get_u64 (drop 4 buf) = t" "get_u32 (drop 12 buf) = l"
    "drop 16 buf = rest" "length buf = 16 + length rest"
  unfolding buf_def by (simp_all add: codec_simps)

text \<open>A header that announces a whole body with its terminator in place is one frame.\<close>

lemma try_parse_header:
  assumes "unat l = length body"
  shows "try_parse_frame (be32 c @ be64 t @ be32 l @ body @ 0x3B # rest) =
           (Some \<lparr>connection_no = c, timestamp_ms = t, payload = body\<rparr>, rest)"
proof -
  let ?buf = "be32 c @ be64 t @ be32 l @ body @ 0x3B # rest"
  note h = header_fields [of c t l "body @ 0x3B # rest"]
  have "?buf ! (16 + length body) = 0x3B"
    by (simp add: nth_append)
  moreover have "take (length body) (drop 16 ?buf) = body" using h(4) by simp
  moreover have "drop (16 + length body + 1) ?buf = rest"
    by (simp add: drop_append)
  ultimately show ?thesis
    using h assms
    by (simp add: try_parse_frame_def HEADER_LEN_def TERMINATOR_def verify_terminator_at_position_def
          Let_def del: drop_append)
qed

text \<open>A buffer that ends before the terminator of the announced body is left alone.\<close>

lemma try_parse_short:
  assumes "length buf < HEADER_LEN \<or> length buf < HEADER_LEN + unat (get_u32 (drop 12 buf)) + 1"
  shows "try_parse_frame buf = (None, buf)"
  using assms by (auto simp: try_parse_frame_def TERMINATOR_def Let_def)

lemma try_parse_encode:
  assumes "frame_ok f"
  shows "try_parse_frame (encode_frame f @ rest) = (Some f, rest)"
proof -
  have "unat (of_nat (length (payload f)) :: u32) = length (payload f)"
    using assms by (simp add: frame_ok_def unat_of_nat_small)
  from try_parse_header [OF this, of "connection_no f" "timestamp_ms f" rest]
  show ?thesis by (simp add: encode_frame_def TERMINATOR_def)
qed

lemma try_parse_prefix:
  assumes f: "frame_ok f" and pq: "encode_frame f = p @ q" and "q \<noteq> []"
  shows "try_parse_frame p = (None, p)"
proof (rule try_parse_short)
  let ?l = "of_nat (length (payload f)) :: u32"
  have len: "unat ?l = length (payload f)"
    using f by (simp add: frame_ok_def unat_of_nat_small)
  have lp: "length p < HEADER_LEN + length (payload f) + 1"
    using arg_cong [OF pq, of length] \<open>q \<noteq> []\<close> by (cases q) auto
  show "length p < HEADER_LEN \<or> length p < HEADER_LEN + unat (get_u32 (drop 12 p)) + 1"
  proof (cases "length p < HEADER_LEN")
    case False
    then have "16 \<le> length p" by (simp add: HEADER_LEN_def)
    then have "get_u32 (drop 12 p) = get_u32 (drop 12 (p @ q))"
      by (simp add: get_u32_def nth_append less_diff_conv)
    also have "\<dots> = ?l"
      unfolding pq [symmetric] encode_frame_def by (rule header_fields)
    finally show ?thesis using lp len by simp
  qed simp
qed

text \<open>The converse: what the parser accepts is the encoding of what it returns.\<close>

lemma try_parse_canonical:
  assumes "try_parse_frame buf = (Some g, r)"
  shows "buf = encode_frame g @ r"
proof -
  let ?l = "get_u32 (drop 12 buf)"
  let ?n = "unat ?l"
  have len: "17 + ?n \<le> length buf" and t: "buf ! (16 + ?n) = 0x3B"
    and g: "g = \<lparr>connection_no = get_u32 buf, timestamp_ms = get_u64 (drop 4 buf),
                 payload = take ?n (drop 16 buf)\<rparr>"
    and r: "r = drop (17 + ?n) buf"
    using assms
    by (auto simp: try_parse_frame_def HEADER_LEN_def TERMINATOR_def Let_def
        verify_terminator_at_position_def split: if_splits)
  have lp: "of_nat (length (payload g)) = ?l"
    using len g by simp
  have "buf = take 4 buf @ take 8 (drop 4 buf) @ take 4 (drop 12 buf) @ drop 16 buf"
    using append_take_drop_id [of 4 buf] append_take_drop_id [of 8 "drop 4 buf"]
      append_take_drop_id [of 4 "drop 12 buf"] by simp
  also have "drop 16 buf = take ?n (drop 16 buf) @ buf ! (16 + ?n) # drop (17 + ?n) buf"
    using len id_take_nth_drop [of ?n "drop 16 buf"] by (simp add: nth_drop add.commute)
  finally show ?thesis
    using len t g r lp by (simp add: encode_frame_def TERMINATOR_def codec_simps)
qed

interpretation frames: frame_codec encode_frame parse_step frame_ok
proof
  show "parse_step (encode_frame f @ rest) = Some (f, rest)" if "frame_ok f" for f rest
    using that by (simp add: parse_step_def try_parse_encode)
  show "parse_step p = None" if "frame_ok f" "encode_frame f = p @ q" "q \<noteq> []" for f p q
    using try_parse_prefix [OF that] by (simp add: parse_step_def)
  show "encode_frame f \<noteq> []" for f
    using length_encode_frame [of f] by (metis add_is_0 list.size(3) one_neq_zero)
qed

section \<open>Properties\<close>

text \<open>
  C14 (roundtrip). Every frame whose payload length fits the 32-bit length field is parsed back
  exactly from its encoding, whatever its payload contains (terminator bytes included) and
  whatever bytes follow it; and the parser only ever accepts buffers that begin with the encoding
  of the frame it returns, so the wire format has one reading.
\<close>

theorem frame_roundtrip:
  assumes "frame_ok f"
  shows "try_parse_frame (encode_frame f @ rest) = (Some f, rest) \<and>
         (\<forall>g buf r. try_parse_frame buf = (Some g, r) \<longrightarrow> buf = encode_frame g @ r)"
  using try_parse_encode [OF assms] try_parse_canonical by blast

theorem frame_roundtrip_witness:
  "try_parse_frame (encode_frame \<lparr>connection_no = 42, timestamp_ms = 7, payload = [0x3B, 1, 0x3B]\<rparr>
     @ [9, 9]) = (Some \<lparr>connection_no = 42, timestamp_ms = 7, payload = [0x3B, 1, 0x3B]\<rparr>, [9, 9])"
proof -
  have "frame_ok \<lparr>connection_no = 42, timestamp_ms = 7, payload = [0x3B, 1, 0x3B]\<rparr>"
    by (simp add: frame_ok_def)
  from frame_roundtrip [OF this] show ?thesis by blast
qed

end
