(* ===== verification/Control_Plane.thy ===== *)
theory Control_Plane
  imports Tube_Protocol
begin

text \<open>
  The control plane of a channel as far as closing goes: the dispatch of an incoming frame
  (\<open>channel/frame_handling.rs\<close>), the CloseConnection message that \<open>close_backend\<close>
  (\<open>channel/core.rs\<close>) writes and \<open>handle_close_connection\<close> (\<open>channel/protocol.rs\<close>) reads, and
  that handler's effect on the channel: the exit flag, the stored close reason and the virtual
  connections of the Python handler. The two effects that leave the handler, the notification of
  the Python handler and \<open>internal_close_backend_no_message\<close>, are returned as actions in order.
\<close>

section \<open>Dispatch of incoming frames\<close>

datatype route = ForwardToProtocol u32 bytes | HandleControl frame

definition handle_incoming_frame :: "frame \<Rightarrow> route" where
  "handle_incoming_frame f =
     (if connection_no f = 1 then ForwardToProtocol 1 (payload f)
      else if connection_no f = 0 then HandleControl f
      else ForwardToProtocol (connection_no f) (payload f))"

datatype control_error = MalformedControlFrame | UnknownControlMessage u16 | MessageTooShort

definition CTRL_NO_LEN :: nat where "CTRL_NO_LEN = 2"

text \<open>What \<open>handle_control\<close> hands to \<open>process_control_message\<close>.\<close>

definition decode_control :: "frame \<Rightarrow> (control_message \<times> bytes, control_error) result" where
  "decode_control f =
     (if length (payload f) < CTRL_NO_LEN then Err MalformedControlFrame
      else let code = get_u16 (payload f)
           in case control_try_from code of
                None \<Rightarrow> Err (UnknownControlMessage code)
              | Some cmd \<Rightarrow> Ok (cmd, drop CTRL_NO_LEN (payload f)))"

section \<open>The CloseConnection message\<close>

definition CONN_NO_LEN :: nat where "CONN_NO_LEN = 4"

text \<open>The message data \<open>close_backend\<close> builds: the error text is capped at 1024 bytes.\<close>

definition close_message :: "u32 \<Rightarrow> close_reason \<Rightarrow> bytes option \<Rightarrow> bytes" where
  "close_message conn_no reason error_message =
     be32 conn_no @ [ucast (reason_code reason)] @
     (case error_message of
        None \<Rightarrow> []
      | Some msg \<Rightarrow>
          (let len = min (length msg) 1024
           in be16 (of_nat len) @ take len msg))"

text \<open>
  The decoding half of \<open>handle_close_connection\<close>: target, reason and the bytes of the optional
  error text (which the code only converts lossily to a string and logs).
\<close>

record close_request =
  target_connection_no :: u32
  reason :: close_reason
  error_message :: "bytes option"

definition decode_close :: "bytes \<Rightarrow> (close_request, control_error) result" where
  "decode_close dat =
     (if length dat < CONN_NO_LEN then Err MessageTooShort
      else Ok \<lparr>target_connection_no = get_u32 dat,
               reason = (if length dat > CONN_NO_LEN
                         then reason_from_code (ucast (dat ! CONN_NO_LEN)) else Normal),
               error_message =
                 (if length dat > CONN_NO_LEN + 1 + 2
                  then let msg_len = unat (get_u16 (drop 5 dat))
                       in if length dat \<ge> 7 + msg_len then Some (take msg_len (drop 7 dat)) else None
                  else None)\<rparr>)"

section \<open>The handler's effect on the channel\<close>

datatype active_protocol = Socks5 | Guacd | PortForward | PythonHandler | DatabaseProxy

record channel =
  active_protocol :: active_protocol
  has_python_tx :: bool
  \<comment> \<open>the virtual connections, when \<open>protocol_state\<close> is \<open>PythonHandler\<close>\<close>
  active_connections :: "u32 set option"
  should_exit :: bool
  channel_close_reason :: "close_reason option"

datatype close_action =
  NotifyPythonClosed u32 close_reason
| CloseBackendNoMessage u32 close_reason

text \<open>
  \<open>lock_free\<close> is the outcome of \<open>channel_close_reason.try_lock()\<close>: when the lock is taken the
  reason is not stored, the exit flag still is.
\<close>

definition store_reason :: "bool \<Rightarrow> close_reason \<Rightarrow> channel \<Rightarrow> channel" where
  "store_reason lock_free r ch =
     (if lock_free \<and>
         (case channel_close_reason ch of
            None \<Rightarrow> True
          | Some existing \<Rightarrow> \<not> is_critical existing \<or> is_critical r)
      then ch\<lparr>channel_close_reason := Some r\<rparr> else ch)"

definition handle_close_connection ::
  "bool \<Rightarrow> channel \<Rightarrow> bytes \<Rightarrow> (channel \<times> close_action list, control_error) result" where
  "handle_close_connection lock_free ch dat =
     (case decode_close dat of
        Err e \<Rightarrow> Err e
      | Ok req \<Rightarrow>
          (let n = target_connection_no req; r = reason req
           in if active_protocol ch = PythonHandler
              then
                (let acts = (if has_python_tx ch then [NotifyPythonClosed n r] else []);
                     ch1 = ch\<lparr>active_connections :=
                                map_option (\<lambda>s. s - {n}) (active_connections ch)\<rparr>;
                     ch2 = (if n = 0
                            then (if lock_free
                                  then ch1\<lparr>should_exit := True, channel_close_reason := Some r\<rparr>
                                  else ch1\<lparr>should_exit := True\<rparr>)
                            else ch1)
                 in Ok (ch2, acts))
              else if n = 0
              then Ok (store_reason lock_free r (ch\<lparr>should_exit := True\<rparr>), [])
              else Ok (ch, [CloseBackendNoMessage n r])))"

text \<open>A run of close messages, each with its lock outcome; a failing one changes nothing.\<close>

definition close_step :: "channel \<Rightarrow> bool \<times> bytes \<Rightarrow> channel option" where
  "close_step ch ev =
     (case handle_close_connection (fst ev) ch (snd ev) of Ok (ch', _) \<Rightarrow> Some ch' | Err _ \<Rightarrow> Some ch)"

section \<open>Lemmas\<close>

lemma ucast_reason_code [simp]: "ucast (ucast (reason_code r) :: u8) = reason_code r"
  by (cases r) simp_all

lemma get_close_message:
  "get_u32 (close_message n r m) = n"
  "close_message n r m ! 4 = ucast (reason_code r)"
  "drop 5 (close_message n r m) =
     (case m of None \<Rightarrow> [] | Some msg \<Rightarrow>
        be16 (of_nat (min (length msg) 1024)) @ take (min (length msg) 1024) msg)"
  by (simp_all add: close_message_def codec_simps nth_append Let_def split: option.splits)

lemma length_close_message:
  "length (close_message n r m) =
     5 + (case m of None \<Rightarrow> 0 | Some msg \<Rightarrow> 2 + min (length msg) 1024)"
  by (simp add: close_message_def Let_def split: option.splits)

lemma decode_close_message:
  "decode_close (close_message n r m) =
     Ok \<lparr>target_connection_no = n, reason = r,
         error_message = (case m of None \<Rightarrow> None
                          | Some msg \<Rightarrow> if msg = [] then None else Some (take 1024 msg))\<rparr>"
proof (cases m)
  case None
  then show ?thesis
    using length_close_message [of n r m]
    by (simp add: decode_close_def CONN_NO_LEN_def get_close_message codec_simps)
next
  case (Some msg)
  let ?l = "min (length msg) 1024"
  have u: "unat (of_nat ?l :: u16) = ?l" by (rule unat_of_nat_small) simp
  have d5: "drop 5 (close_message n r m) = be16 (of_nat ?l) @ take ?l msg"
    using Some by (simp add: get_close_message)
  have d7: "drop 7 (close_message n r m) = take ?l msg"
    using arg_cong [OF d5, of "drop 2"] by simp
  have g: "get_u16 (drop 5 (close_message n r m)) = of_nat ?l"
    unfolding d5 by (rule get_be16)
  have t: "take ?l (take ?l msg) = take 1024 msg" by (simp add: min_def)
  show ?thesis
    unfolding decode_close_def g d7 get_close_message(1) u Let_def
    using Some length_close_message [of n r m] t
    by (simp add: CONN_NO_LEN_def get_close_message codec_simps)
qed

text \<open>Once the stored reason is critical, and the protocol is not the Python handler, it stays so.\<close>

definition critical_latched :: "channel \<Rightarrow> bool" where
  "critical_latched ch \<longleftrightarrow> active_protocol ch \<noteq> PythonHandler \<and>
     (\<exists>r. channel_close_reason ch = Some r \<and> is_critical r)"

lemma store_reason_simps [simp]:
  "active_protocol (store_reason l r ch) = active_protocol ch"
  "should_exit (store_reason l r ch) = should_exit ch"
  "active_connections (store_reason l r ch) = active_connections ch"
  by (simp_all add: store_reason_def split: option.splits)

lemma store_reason_latched: "critical_latched ch \<Longrightarrow> critical_latched (store_reason l r ch)"
  by (auto simp: critical_latched_def store_reason_def)

lemma critical_latched_exit [simp]:
  "critical_latched (ch\<lparr>should_exit := b\<rparr>) = critical_latched ch"
  by (simp add: critical_latched_def)

lemma close_step_total: "\<exists>ch'. close_step ch ev = Some ch'"
  by (auto simp: close_step_def split: result.splits)

lemma close_step_latched:
  assumes "critical_latched ch" and "close_step ch ev = Some ch'"
  shows "critical_latched ch'"
proof (cases "decode_close (snd ev)")
  case (Err e)
  with assms show ?thesis by (simp add: close_step_def handle_close_connection_def)
next
  case (Ok req)
  have "active_protocol ch \<noteq> PythonHandler"
    using assms(1) by (simp add: critical_latched_def)
  with Ok assms show ?thesis
    by (auto simp: close_step_def handle_close_connection_def Let_def store_reason_latched
             split: if_splits)
qed

lemma close_step_exit_mono:
  assumes "close_step ch ev = Some ch'" shows "should_exit ch \<longrightarrow> should_exit ch'"
  using assms
  by (auto simp: close_step_def handle_close_connection_def Let_def split: result.splits if_splits)

interpretation closing: safe_machine close_step critical_latched
  "\<lambda>s t. should_exit s \<longrightarrow> should_exit t"
proof
  show "\<exists>s'. close_step s i = Some s' \<and> critical_latched s' \<and> (should_exit s \<longrightarrow> should_exit s')"
    if "critical_latched s" for s i
    using close_step_total [of s i] close_step_latched [OF that] close_step_exit_mono by blast
qed auto

section \<open>Properties\<close>

text \<open>
  The CloseConnection message \<open>close_backend\<close> sends, wrapped in a control
  frame, encoded, and received with anything behind it, is dispatched to the control handler and
  decoded to the same connection and reason, for every reason, and to the first 1024 bytes of a
  nonempty error text.
\<close>

lemma close_message_end_to_end:
  "\<exists>f. try_parse_frame
         (encode_frame (new_control_with_buffer now CloseConnection (close_message n r m)) @ rest) =
         (Some f, rest) \<and>
       handle_incoming_frame f = HandleControl f \<and>
       decode_control f = Ok (CloseConnection, close_message n r m) \<and>
       decode_close (close_message n r m) =
         Ok \<lparr>target_connection_no = n, reason = r,
             error_message = (case m of None \<Rightarrow> None
                              | Some msg \<Rightarrow> if msg = [] then None else Some (take 1024 msg))\<rparr>"
proof -
  let ?f = "new_control_with_buffer now CloseConnection (close_message n r m)"
  have "length (payload ?f) \<le> 7 + 2 + 1024"
    by (auto simp: new_control_with_buffer_def length_close_message split: option.splits)
  then have "frame_ok ?f" by (simp add: frame_ok_def)
  then have "try_parse_frame (encode_frame ?f @ rest) = (Some ?f, rest)"
    by (rule try_parse_encode)
  moreover have "handle_incoming_frame ?f = HandleControl ?f"
    by (simp add: handle_incoming_frame_def new_control_with_buffer_def)
  moreover have "decode_control ?f = Ok (CloseConnection, close_message n r m)"
    using control_round_trip [of CloseConnection]
    by (simp add: decode_control_def new_control_with_buffer_def CTRL_NO_LEN_def get_be16
        del: control_code.simps)
  ultimately show ?thesis using decode_close_message by blast
qed

text \<open>
  Outside the Python handler protocol, a critical close reason is never lost:
  after any sequence of CloseConnection messages, well formed or not and with the reason lock free
  or not, the channel still has a critical reason stored, and a channel that was to exit still is.
\<close>

lemma critical_reason_latched:
  assumes "critical_latched ch"
  shows "\<exists>ch'. run_steps close_step ch msgs = Some ch' \<and>
           (\<exists>r. channel_close_reason ch' = Some r \<and> is_critical r) \<and>
           (should_exit ch \<longrightarrow> should_exit ch')"
  using closing.run_safe [OF assms, of msgs] by (auto simp: critical_latched_def)

text \<open>
  The two decoders of close codes disagree: \<open>from_code\<close> reads every reason back from
  its own code, while \<open>TryFrom<u16>\<close> does so for every reason except \<open>HandlerError\<close> and
  \<open>SecurityThreat\<close>, whose codes it rejects; and \<open>from_code\<close> never fails, mapping every unlisted
  code to \<open>Unknown\<close>.
\<close>

lemma close_codes_decoding:
  "reason_from_code (reason_code r) = r \<and>
   reason_try_from (reason_code r) =
     (if r = HandlerError \<or> r = SecurityThreat then None else Some r) \<and>
   (reason_from_code c = Unknown \<or> reason_code (reason_from_code c) = c)"
proof (intro conjI)
  show "reason_from_code (reason_code r) = r" by (rule reason_round_trip)
  show "reason_try_from (reason_code r) =
     (if r = HandlerError \<or> r = SecurityThreat then None else Some r)"
    by (cases r) (simp_all add: reason_try_from_def)
  show "reason_from_code c = Unknown \<or> reason_code (reason_from_code c) = c"
    by (auto simp: reason_from_code_def)
qed

end
