(* ===== verification/Assembler.thy ===== *)
theory Assembler
  imports Tube_Protocol
begin

text \<open>
  Fragmentation and reassembly of large frames over several data channels,
  \<open>keeper-pam-webrtc-rs/src/channel/assembler.rs\<close>, with the channel's own receive path
  (\<open>process_fragment\<close> and the read arm of \<open>Channel::run\<close> in \<open>channel/core.rs\<close>). Time is a
  natural number of milliseconds, a data channel is its index (0 is the primary one), and sending
  on it is an argument that says which sends succeed. Arithmetic is that of a release build:
  overflow wraps, a division by zero panics (\<open>None\<close>).
\<close>

section \<open>Fragment headers\<close>

definition FRAGMENT_HEADER_SIZE :: nat where "FRAGMENT_HEADER_SIZE = 9"
definition DEFAULT_FRAGMENT_THRESHOLD :: nat where "DEFAULT_FRAGMENT_THRESHOLD = 16 * 1024"
definition DEFAULT_MAX_FRAGMENTS :: u16 where "DEFAULT_MAX_FRAGMENTS = 256"

definition HAS_FRAGMENT_HEADER :: u8 where "HAS_FRAGMENT_HEADER = 0x01"
definition FIRST_FRAGMENT :: u8 where "FIRST_FRAGMENT = 0x02"
definition LAST_FRAGMENT :: u8 where "LAST_FRAGMENT = 0x04"

lemmas flag_defs = HAS_FRAGMENT_HEADER_def FIRST_FRAGMENT_def LAST_FRAGMENT_def

record fragment_header =
  flags :: u8
  seq_id :: u32
  frag_idx :: u16
  total_frags :: u16

definition new_header :: "u32 \<Rightarrow> u16 \<Rightarrow> u16 \<Rightarrow> fragment_header" where
  "new_header seq idx tot =
     (let f0 = HAS_FRAGMENT_HEADER;
          f1 = (if idx = 0 then f0 OR FIRST_FRAGMENT else f0);
          f2 = (if idx = tot - 1 then f1 OR LAST_FRAGMENT else f1)
      in \<lparr>flags = f2, seq_id = seq, frag_idx = idx, total_frags = tot\<rparr>)"

definition encode_header :: "fragment_header \<Rightarrow> bytes" where
  "encode_header h = [flags h] @ be32 (seq_id h) @ be16 (frag_idx h) @ be16 (total_frags h)"

definition decode_header :: "bytes \<Rightarrow> fragment_header option" where
  "decode_header dat =
     (if length dat < FRAGMENT_HEADER_SIZE then None
      else if dat ! 0 AND HAS_FRAGMENT_HEADER = 0 then None
      else Some \<lparr>flags = dat ! 0, seq_id = get_u32 (drop 1 dat),
                 frag_idx = get_u16 (drop 5 dat), total_frags = get_u16 (drop 7 dat)\<rparr>)"

definition is_first :: "fragment_header \<Rightarrow> bool" where
  "is_first h \<longleftrightarrow> flags h AND FIRST_FRAGMENT \<noteq> 0"

definition is_last :: "fragment_header \<Rightarrow> bool" where
  "is_last h \<longleftrightarrow> flags h AND LAST_FRAGMENT \<noteq> 0"

definition has_fragment_header :: "bytes \<Rightarrow> bool" where
  "has_fragment_header dat \<longleftrightarrow> dat \<noteq> [] \<and> dat ! 0 AND HAS_FRAGMENT_HEADER \<noteq> 0"

section \<open>Reassembly buffers\<close>

record fragment_buffer =
  buf_total :: u16
  fragments :: "bytes option list"
  received_count :: u16
  created_at :: nat

definition new_buffer :: "nat \<Rightarrow> u16 \<Rightarrow> fragment_buffer" where
  "new_buffer now tot =
     \<lparr>buf_total = tot, fragments = replicate (unat tot) None, received_count = 0,
      created_at = now\<rparr>"

definition add_fragment :: "fragment_buffer \<Rightarrow> u16 \<Rightarrow> bytes \<Rightarrow> bool \<times> fragment_buffer" where
  "add_fragment b idx dat =
     (if idx \<ge> buf_total b then (False, b)
      else let b' = (if fragments b ! unat idx = None
                     then b\<lparr>fragments := (fragments b)[unat idx := Some dat],
                            received_count := received_count b + 1\<rparr>
                     else b)
           in (received_count b' = buf_total b', b'))"

definition reassemble :: "fragment_buffer \<Rightarrow> bytes option" where
  "reassemble b =
     (if received_count b \<noteq> buf_total b then None
      else Some (concat (List.map_filter id (fragments b))))"

definition is_expired :: "nat \<Rightarrow> nat \<Rightarrow> fragment_buffer \<Rightarrow> bool" where
  "is_expired timeout now b \<longleftrightarrow> now - created_at b > timeout"

section \<open>The receiving side\<close>

type_synonym pending = "u32 \<rightharpoonup> fragment_buffer"

definition entry_or_new :: "nat \<Rightarrow> pending \<Rightarrow> fragment_header \<Rightarrow> fragment_buffer" where
  "entry_or_new now pend h =
     (case pend (seq_id h) of Some b \<Rightarrow> b | None \<Rightarrow> new_buffer now (total_frags h))"

text \<open>\<open>Channel::process_fragment\<close>.\<close>

definition process_fragment :: "nat \<Rightarrow> pending \<Rightarrow> bytes \<Rightarrow> bytes option \<times> pending" where
  "process_fragment now pend dat =
     (case decode_header dat of
        None \<Rightarrow> (None, pend)
      | Some h \<Rightarrow>
          (let pay = drop FRAGMENT_HEADER_SIZE dat
           in case add_fragment (entry_or_new now pend h) (frag_idx h) pay of
                (complete, b) \<Rightarrow>
                  if complete then (reassemble b, pend(seq_id h := None))
                  else (None, pend(seq_id h \<mapsto> b))))"

record assembler_config =
  fragment_threshold :: nat
  max_fragments :: u16
  fragment_timeout :: nat
  max_pending_buffers :: nat

definition default_assembler_config :: assembler_config where
  "default_assembler_config =
     \<lparr>fragment_threshold = DEFAULT_FRAGMENT_THRESHOLD, max_fragments = DEFAULT_MAX_FRAGMENTS,
      fragment_timeout = 30000, max_pending_buffers = 1000\<rparr>"

record assembler =
  overflow_channels :: nat
  next_seq_id :: u32
  channel_round_robin :: nat
  pending_fragments :: pending
  pending_count :: nat
  asm_config :: assembler_config

text \<open>\<open>Assembler::process_incoming\<close>.\<close>

definition process_incoming :: "nat \<Rightarrow> assembler \<Rightarrow> bytes \<Rightarrow> bytes option \<times> assembler" where
  "process_incoming now a dat =
     (if \<not> has_fragment_header dat then (Some dat, a)
      else case decode_header dat of
        None \<Rightarrow> (None, a)
      | Some h \<Rightarrow>
          (let pay = drop FRAGMENT_HEADER_SIZE dat;
               count = (if pending_fragments a (seq_id h) = None
                        then pending_count a + 1 else pending_count a)
           in case add_fragment (entry_or_new now (pending_fragments a) h) (frag_idx h) pay of
                (complete, b) \<Rightarrow>
                  if complete
                  then (reassemble b,
                        a\<lparr>pending_fragments := (pending_fragments a)(seq_id h := None),
                          pending_count := count - 1\<rparr>)
                  else (None,
                        a\<lparr>pending_fragments := (pending_fragments a)(seq_id h \<mapsto> b),
                          pending_count := count\<rparr>)))"

text \<open>
  One tick of the cleanup task: expired buffers leave the map. The task holds the map only, so the
  atomic counter is not adjusted.
\<close>

definition cleanup_tick :: "nat \<Rightarrow> assembler \<Rightarrow> assembler" where
  "cleanup_tick now a =
     a\<lparr>pending_fragments := (\<lambda>s. case pending_fragments a s of
         None \<Rightarrow> None
       | Some b \<Rightarrow> if is_expired (fragment_timeout (asm_config a)) now b then None else Some b)\<rparr>"

record assembler_state =
  st_next_seq_id :: u32
  st_overflow_channel_count :: nat

definition get_state :: "assembler \<Rightarrow> assembler_state" where
  "get_state a = \<lparr>st_next_seq_id = next_seq_id a, st_overflow_channel_count = overflow_channels a\<rparr>"

definition restore_state :: "assembler \<Rightarrow> assembler_state \<Rightarrow> assembler" where
  "restore_state a s = a\<lparr>next_seq_id := st_next_seq_id s\<rparr>"

definition add_overflow_channel :: "assembler \<Rightarrow> assembler" where
  "add_overflow_channel a = a\<lparr>overflow_channels := overflow_channels a + 1\<rparr>"

section \<open>The sending side\<close>

text \<open>\<open>fragment_threshold - FRAGMENT_HEADER_SIZE\<close> in \<open>usize\<close>.\<close>

definition frag_size :: "nat \<Rightarrow> nat" where
  "frag_size threshold =
     (if FRAGMENT_HEADER_SIZE \<le> threshold then threshold - FRAGMENT_HEADER_SIZE
      else 2 ^ 64 - (FRAGMENT_HEADER_SIZE - threshold))"

definition make_fragment :: "u32 \<Rightarrow> u16 \<Rightarrow> nat \<times> bytes \<Rightarrow> bytes" where
  "make_fragment seq tot ic =
     (case ic of (i, chunk) \<Rightarrow> encode_header (new_header seq (of_nat i) tot) @ chunk)"

definition make_fragments :: "u32 \<Rightarrow> u16 \<Rightarrow> bytes list \<Rightarrow> bytes list" where
  "make_fragments seq tot cs = map (make_fragment seq tot) (enumerate 0 cs)"

text \<open>
  \<open>fragment_frame\<close>: the standalone counter is passed and returned. The outer option is a panic
  (\<open>div_ceil\<close> by zero), the inner one the function's own \<open>None\<close>.
\<close>

definition fragment_frame ::
  "u32 \<Rightarrow> bytes \<Rightarrow> nat \<Rightarrow> u16 \<Rightarrow> (bytes list option \<times> u32) option" where
  "fragment_frame seq frm threshold max_frags =
     (if length frm \<le> threshold then Some (None, seq)
      else let size = frag_size threshold
           in if size = 0 then None
              else let num = div_ceil (length frm) size
                   in if num > unat max_frags then Some (None, seq)
                      else Some (Some (make_fragments seq (of_nat num) (chunks size frm)), seq + 1))"

definition should_fragment :: "nat \<Rightarrow> nat \<Rightarrow> bool" where
  "should_fragment len threshold \<longleftrightarrow> len > threshold"

datatype send_error = SendFailed | FrameTooLarge nat nat | FragmentFailed nat nat

text \<open>
  The loop of \<open>send_fragmented\<close>: \<open>ok k\<close> says whether the \<open>k\<close>-th send of this call succeeds. The
  transmissions made are returned with their channel; the fallback of the source for an index past
  the overflow channels is kept although the index is reduced modulo their number.
\<close>

fun send_all :: "(nat \<Rightarrow> bool) \<Rightarrow> nat \<Rightarrow> nat \<Rightarrow> nat \<Rightarrow> nat \<Rightarrow> bytes list \<Rightarrow>
    (unit, send_error) result \<times> (nat \<times> bytes) list \<times> nat" where
  "send_all ok overflow num rr i [] = (Ok (), [], rr)"
| "send_all ok overflow num rr i (f # fs) =
     (let idx = rr mod (1 + overflow);
          chan = (if idx = 0 then 0 else if idx - 1 < overflow then idx else 0);
          rr' = (rr + 1) mod 2 ^ 64
      in if \<not> ok i then (Err (FragmentFailed (i + 1) num), [(chan, f)], rr')
         else case send_all ok overflow num rr' (i + 1) fs of
                (r, sent, rr'') \<Rightarrow> (r, (chan, f) # sent, rr''))"

definition send_fragmented :: "(nat \<Rightarrow> bool) \<Rightarrow> assembler \<Rightarrow> bytes \<Rightarrow>
    ((unit, send_error) result \<times> (nat \<times> bytes) list \<times> assembler) option" where
  "send_fragmented ok a frm =
     (let size = frag_size (fragment_threshold (asm_config a))
      in if size = 0 then None
         else let num = div_ceil (length frm) size
              in if num > unat (max_fragments (asm_config a))
                 then Some (Err (FrameTooLarge (length frm) num), [], a)
                 else case send_all ok (overflow_channels a) num (channel_round_robin a) 0
                             (make_fragments (next_seq_id a) (of_nat num) (chunks size frm)) of
                        (r, sent, rr) \<Rightarrow>
                          Some (r, sent, a\<lparr>next_seq_id := next_seq_id a + 1,
                                           channel_round_robin := rr\<rparr>))"

definition send :: "(nat \<Rightarrow> bool) \<Rightarrow> assembler \<Rightarrow> bytes \<Rightarrow>
    ((unit, send_error) result \<times> (nat \<times> bytes) list \<times> assembler) option" where
  "send ok a frm =
     (if length frm \<le> fragment_threshold (asm_config a)
      then Some (if ok 0 then Ok () else Err SendFailed, [(0, frm)], a)
      else send_fragmented ok a frm)"

section \<open>The channel's read loop\<close>

text \<open>
  \<open>while let Some(frame) = try_parse_frame(&mut buf)\<close>: the frames that come out and the buffer that
  stays. Each round consumes at least the header, so the recursion ends.
\<close>

lemma try_parse_shrinks:
  "try_parse_frame buf = (Some f, rest) \<Longrightarrow> length rest < length buf"
  by (auto dest!: try_parse_canonical)

function parse_frames :: "bytes \<Rightarrow> frame list \<times> bytes" where
  "parse_frames buf =
     (case try_parse_frame buf of
        (Some f, rest) \<Rightarrow> (case parse_frames rest of (fs, r) \<Rightarrow> (f # fs, r))
      | (None, rest) \<Rightarrow> ([], rest))"
  by pat_completeness auto
termination
  by (relation "measure length") (auto dest: try_parse_shrinks [OF sym])

declare parse_frames.simps [simp del]

text \<open>
  One data channel message: \<open>fragmentation\<close> is the tube's capability flag. The reassembled or raw
  bytes go to the end of the buffer; the frames are taken at the top of the next round.
\<close>

record receiver =
  rx_buf :: bytes
  rx_pending :: pending

definition receive_chunk :: "bool \<Rightarrow> nat \<Rightarrow> receiver \<Rightarrow> bytes \<Rightarrow> frame list \<times> receiver" where
  "receive_chunk fragmentation now rx chunk =
     (let rx' = (if fragmentation \<and> has_fragment_header chunk
                 then (case process_fragment now (rx_pending rx) chunk of
                         (Some dat, p) \<Rightarrow> rx\<lparr>rx_buf := rx_buf rx @ dat, rx_pending := p\<rparr>
                       | (None, p) \<Rightarrow> rx\<lparr>rx_pending := p\<rparr>)
                 else rx\<lparr>rx_buf := rx_buf rx @ chunk\<rparr>)
      in case parse_frames (rx_buf rx') of (fs, r) \<Rightarrow> (fs, rx'\<lparr>rx_buf := r\<rparr>))"

section \<open>Header lemmas\<close>

lemma new_header_flag [simp]: "flags (new_header seq idx tot) AND HAS_FRAGMENT_HEADER \<noteq> 0"
  by (simp add: new_header_def flag_defs Let_def)

lemma new_header_fields [simp]:
  "seq_id (new_header seq idx tot) = seq" "frag_idx (new_header seq idx tot) = idx"
  "total_frags (new_header seq idx tot) = tot"
  by (simp_all add: new_header_def Let_def)

lemma length_encode_header [simp]: "length (encode_header h) = FRAGMENT_HEADER_SIZE"
  by (simp add: encode_header_def FRAGMENT_HEADER_SIZE_def)

lemma decode_encode_header [codec_simps]:
  assumes "flags h AND HAS_FRAGMENT_HEADER \<noteq> 0"
  shows "decode_header (encode_header h @ rest) = Some h"
  using assms
  by (simp add: decode_header_def FRAGMENT_HEADER_SIZE_def encode_header_def codec_simps)

lemma has_header_encode [codec_simps]:
  "has_fragment_header (encode_header h @ rest) \<longleftrightarrow> flags h AND HAS_FRAGMENT_HEADER \<noteq> 0"
  by (simp add: has_fragment_header_def encode_header_def)

lemma decode_imp_has_header: "decode_header dat = Some h \<Longrightarrow> has_fragment_header dat"
  by (auto simp: decode_header_def has_fragment_header_def FRAGMENT_HEADER_SIZE_def split: if_splits)

lemma make_fragment_codec [codec_simps]:
  "decode_header (make_fragment seq tot (i, c)) = Some (new_header seq (of_nat i) tot)"
  "has_fragment_header (make_fragment seq tot (i, c))"
  "drop FRAGMENT_HEADER_SIZE (make_fragment seq tot (i, c)) = c"
  by (simp_all add: make_fragment_def codec_simps)

lemma make_fragments_nth [simp]:
  "length (make_fragments seq tot cs) = length cs"
  "i < length cs \<Longrightarrow> make_fragments seq tot cs ! i = make_fragment seq tot (i, cs ! i)"
  by (simp_all add: make_fragments_def nth_enumerate_eq)

section \<open>The state of a reassembly\<close>

text \<open>Buffer \<open>b\<close> has received exactly the fragments with index in \<open>S\<close> of a frame cut into \<open>cs\<close>.\<close>

definition holds :: "bytes list \<Rightarrow> nat set \<Rightarrow> fragment_buffer \<Rightarrow> bool" where
  "holds cs S b \<longleftrightarrow> length cs < 2 ^ 16 \<and> S \<subseteq> {..<length cs} \<and>
     buf_total b = of_nat (length cs) \<and> received_count b = of_nat (card S) \<and>
     fragments b = map (\<lambda>i. if i \<in> S then Some (cs ! i) else None) [0..<length cs]"

lemma holds_new:
  assumes n: "length cs < 2 ^ 16"
  shows "holds cs {} (new_buffer now (of_nat (length cs)))"
proof -
  have "unat (of_nat (length cs) :: u16) = length cs" using n by (rule unat_of_nat_small(2))
  then show ?thesis using n by (simp add: holds_def new_buffer_def map_replicate_const)
qed

lemma of_nat_u16_less_eq:
  "m < 2 ^ 16 \<Longrightarrow> n < 2 ^ 16 \<Longrightarrow> (of_nat m :: u16) \<le> of_nat n \<longleftrightarrow> m \<le> n"
  "m < 2 ^ 16 \<Longrightarrow> n < 2 ^ 16 \<Longrightarrow> (of_nat m :: u16) = of_nat n \<longleftrightarrow> m = n"
  by (simp_all add: word_le_nat_alt unat_of_nat_small word_unat_eq_iff)

lemma holds_complete:
  assumes "holds cs S b"
  shows "received_count b = buf_total b \<longleftrightarrow> S = {..<length cs}"
proof -
  have "card S \<le> length cs" using assms card_mono [of "{..<length cs}" S] by (simp add: holds_def)
  moreover have "card S = length cs \<longleftrightarrow> S = {..<length cs}"
    using assms card_subset_eq [of "{..<length cs}" S] by (auto simp: holds_def)
  ultimately show ?thesis using assms by (simp add: holds_def of_nat_u16_less_eq)
qed

lemma holds_add:
  assumes h: "holds cs S b" and i: "i < length cs" "i \<notin> S"
  obtains b' where "add_fragment b (of_nat i) (cs ! i) = (insert i S = {..<length cs}, b')"
    and "holds cs (insert i S) b'"
proof -
  let ?b = "b\<lparr>fragments := (fragments b)[i := Some (cs ! i)], received_count := received_count b + 1\<rparr>"
  have fin: "finite S" using h finite_subset [of S "{..<length cs}"] by (simp add: holds_def)
  have u: "unat (of_nat i :: u16) = i" using h i by (intro unat_of_nat_small) (simp add: holds_def)
  have lt: "\<not> buf_total b \<le> of_nat i"
    using h i by (simp add: holds_def of_nat_u16_less_eq)
  have none: "fragments b ! i = None" using h i by (simp add: holds_def)
  have hold: "holds cs (insert i S) ?b"
    using h i fin by (auto simp: holds_def nth_list_update intro!: nth_equalityI)
  have "add_fragment b (of_nat i) (cs ! i) = (insert i S = {..<length cs}, ?b)"
    using lt none holds_complete [OF hold] by (simp add: add_fragment_def u)
  then show thesis using hold that by blast
qed

lemma map_filter_Some: "List.map_filter id (map (\<lambda>i. Some (f i)) xs) = map f xs"
  by (induction xs) (simp_all add: List.map_filter_simps)

lemma reassemble_full:
  assumes "holds cs {..<length cs} b"
  shows "reassemble b = Some (concat cs)"
proof -
  have "fragments b = map (\<lambda>i. Some (cs ! i)) [0..<length cs]"
    using assms by (simp add: holds_def)
  then have "List.map_filter id (fragments b) = cs"
    using map_filter_Some [of "\<lambda>i. cs ! i" "[0..<length cs]"] by (simp add: map_nth)
  then show ?thesis using holds_complete [OF assms] by (simp add: reassemble_def)
qed

text \<open>What the pending map knows of sequence id \<open>seq\<close>: nothing yet, or a buffer holding \<open>S\<close>.\<close>

definition collecting :: "bytes list \<Rightarrow> u32 \<Rightarrow> nat set \<Rightarrow> pending \<Rightarrow> bool" where
  "collecting cs seq S pend \<longleftrightarrow>
     (case pend seq of None \<Rightarrow> S = {} | Some b \<Rightarrow> holds cs S b)"

lemma process_next:
  assumes n: "length cs < 2 ^ 16" and c: "collecting cs seq S pend"
    and i: "i < length cs" "i \<notin> S"
  obtains pend' where
    "process_fragment now pend (make_fragment seq (of_nat (length cs)) (i, cs ! i)) =
       (if insert i S = {..<length cs} then Some (concat cs) else None, pend')"
    and "if insert i S = {..<length cs} then pend' seq = None else collecting cs seq (insert i S) pend'"
proof -
  let ?h = "new_header seq (of_nat i) (of_nat (length cs))"
  have before: "holds cs S (entry_or_new now pend ?h)"
    using c holds_new [OF n] by (auto simp: collecting_def entry_or_new_def split: option.splits)
  obtain b' where add: "add_fragment (entry_or_new now pend ?h) (of_nat i) (cs ! i) =
      (insert i S = {..<length cs}, b')" and hb: "holds cs (insert i S) b'"
    by (rule holds_add [OF before i])
  let ?pend' = "if insert i S = {..<length cs} then pend(seq := None) else pend(seq \<mapsto> b')"
  let ?d = "make_fragment seq (of_nat (length cs)) (i, cs ! i)"
  have full: "reassemble b' = Some (concat cs)" if "insert i S = {..<length cs}"
    using hb that by (intro reassemble_full) simp
  have dec: "decode_header ?d = Some ?h" and pay: "drop FRAGMENT_HEADER_SIZE ?d = cs ! i"
    by (simp_all only: make_fragment_codec)
  have "process_fragment now pend ?d =
      (if insert i S = {..<length cs} then Some (concat cs) else None, ?pend')"
    by (cases "insert i S = {..<length cs}")
      (simp_all only: process_fragment_def dec pay option.case Let_def new_header_fields add
        prod.case if_True if_False full simp_thms)
  moreover have "if insert i S = {..<length cs} then ?pend' seq = None
      else collecting cs seq (insert i S) ?pend'"
    using hb by (simp add: collecting_def)
  ultimately show thesis by (rule that)
qed

definition seq_of :: "bytes \<Rightarrow> u32 option" where
  "seq_of dat = map_option seq_id (decode_header dat)"

lemma process_other: "seq_of dat \<noteq> Some seq \<Longrightarrow> snd (process_fragment now pend dat) seq = pend seq"
  by (auto simp: process_fragment_def seq_of_def Let_def split: option.splits prod.splits)

section \<open>Runs over interleaved fragments\<close>

fun run_fragments :: "pending \<Rightarrow> (nat \<times> bytes) list \<Rightarrow> bytes option list \<times> pending" where
  "run_fragments pend [] = ([], pend)"
| "run_fragments pend ((now, dat) # ms) =
     (case process_fragment now pend dat of
        (out, pend') \<Rightarrow> (case run_fragments pend' ms of (outs, p) \<Rightarrow> (out # outs, p)))"

text \<open>The outputs at the positions of the fragments of one sequence id.\<close>

fun outputs_of :: "u32 \<Rightarrow> (nat \<times> bytes) list \<Rightarrow> bytes option list \<Rightarrow> bytes option list" where
  "outputs_of seq ((t, dat) # ms) (out # outs) =
     (if seq_of dat = Some seq then out # outputs_of seq ms outs else outputs_of seq ms outs)"
| "outputs_of seq _ _ = []"

lemma run_others:
  assumes "filter (\<lambda>m. seq_of (snd m) = Some seq) ms = []"
  shows "outputs_of seq ms (fst (run_fragments pend ms)) = [] \<and>
         snd (run_fragments pend ms) seq = pend seq"
  using assms
proof (induction ms arbitrary: pend)
  case (Cons m ms)
  obtain t dat where m: "m = (t, dat)" by (cases m)
  obtain out pend' where p: "process_fragment t pend dat = (out, pend')"
    by (cases "process_fragment t pend dat")
  with Cons.prems m have "pend' seq = pend seq"
    using process_other [of dat seq t pend] by (auto split: if_splits)
  with Cons.IH [of pend'] Cons.prems m p show ?case
    by (simp add: case_prod_beta split: if_splits)
qed simp

lemma run_collect:
  assumes n: "length cs < 2 ^ 16" and "collecting cs seq S pend"
    and "distinct is" "set is = {..<length cs} - S" "is \<noteq> []" "S \<subseteq> {..<length cs}"
    and "filter (\<lambda>d. seq_of d = Some seq) (map snd ms) =
           map (\<lambda>i. make_fragment seq (of_nat (length cs)) (i, cs ! i)) is"
  shows "outputs_of seq ms (fst (run_fragments pend ms)) =
           replicate (length is - 1) None @ [Some (concat cs)] \<and>
         snd (run_fragments pend ms) seq = None"
  using assms(2-)
proof (induction ms arbitrary: pend S "is")
  case (Cons m ms)
  obtain t dat where m: "m = (t, dat)" by (cases m)
  obtain out pend' where p: "process_fragment t pend dat = (out, pend')"
    by (cases "process_fragment t pend dat")
  show ?case
  proof (cases "seq_of dat = Some seq")
    case False
    then have "pend' seq = pend seq" using process_other [OF False, of t pend] p by simp
    then have "collecting cs seq S pend'" using Cons.prems(1) by (simp add: collecting_def)
    with Cons.IH [of S pend' "is"] Cons.prems False m p show ?thesis
      by (simp add: case_prod_beta)
  next
    case True
    from Cons.prems(4) obtain i js where js: "is = i # js" by (cases "is") auto
    with Cons.prems(6) True m have dat: "dat = make_fragment seq (of_nat (length cs)) (i, cs ! i)"
      and rest: "filter (\<lambda>d. seq_of d = Some seq) (map snd ms) =
        map (\<lambda>i. make_fragment seq (of_nat (length cs)) (i, cs ! i)) js"
      by auto
    have i: "i < length cs" "i \<notin> S" using Cons.prems(3) js by auto
    obtain q where q: "process_fragment t pend dat =
         (if insert i S = {..<length cs} then Some (concat cs) else None, q)"
      and qs: "if insert i S = {..<length cs} then q seq = None else collecting cs seq (insert i S) q"
      using process_next [OF n Cons.prems(1) i] unfolding dat by blast
    have sub: "insert i S \<subseteq> {..<length cs}" using i Cons.prems(5) by auto
    have set_js: "set js = {..<length cs} - insert i S" using Cons.prems(2,3) js by auto
    show ?thesis
    proof (cases "js = []")
      case True
      with set_js sub have full: "insert i S = {..<length cs}" by auto
      have "filter (\<lambda>m. seq_of (snd m) = Some seq) ms = []"
        using rest True by (simp add: filter_map o_def)
      from run_others [OF this, of q] full q qs m js True \<open>seq_of dat = Some seq\<close> show ?thesis
        by (simp add: case_prod_beta)
    next
      case False
      with set_js have "insert i S \<noteq> {..<length cs}" by (cases js) auto
      with Cons.IH [of "insert i S" q js] q qs m js set_js sub rest False Cons.prems(2) True
      show ?thesis
        by (cases js) (simp_all add: case_prod_beta)
    qed
  qed
qed simp

section \<open>Cutting a frame\<close>

lemma fragment_frame_Some:
  assumes "fragment_frame seq frm threshold max_frags = Some (Some fs, seq')"
  obtains "threshold < length frm" "0 < frag_size threshold"
    "length (chunks (frag_size threshold) frm) \<le> unat max_frags"
    "fs = make_fragments seq (of_nat (length (chunks (frag_size threshold) frm)))
            (chunks (frag_size threshold) frm)"
    "seq' = seq + 1"
  using assms
  by (auto simp: fragment_frame_def Let_def length_chunks split: if_splits)

lemma length_make_fragment [simp]:
  "length (make_fragment seq tot (i, c)) = FRAGMENT_HEADER_SIZE + length c"
  by (simp add: make_fragment_def)

lemma make_fragments_map:
  "make_fragments seq tot cs = map (\<lambda>i. make_fragment seq tot (i, cs ! i)) [0..<length cs]"
  by (rule nth_equalityI) simp_all

lemma frag_size_eq: "FRAGMENT_HEADER_SIZE \<le> th \<Longrightarrow> frag_size th = th - FRAGMENT_HEADER_SIZE"
  by (simp add: frag_size_def)

lemma make_fragments_le:
  assumes "FRAGMENT_HEADER_SIZE \<le> th" "d \<in> set (make_fragments seq tot (chunks (frag_size th) frm))"
  shows "length d \<le> th"
proof -
  from assms(2) obtain i where i: "i < length (chunks (frag_size th) frm)"
    and d: "d = make_fragment seq tot (i, chunks (frag_size th) frm ! i)"
    by (auto simp: make_fragments_map)
  have "length (chunks (frag_size th) frm ! i) \<le> frag_size th"
    using i by (intro chunks_length_le [of _ _ frm]) simp
  with d show ?thesis using assms(1) by (simp add: frag_size_eq)
qed

lemma two_chunks:
  assumes "0 < n" "n < length xs"
  shows "2 \<le> length (chunks n xs)"
proof -
  have "xs \<noteq> []" "drop n xs \<noteq> []" using assms by auto
  then show ?thesis using assms(1) by (simp add: chunks_step)
qed

lemma seq_of_fragment [simp]: "seq_of (make_fragment seq tot ic) = Some seq"
  by (cases ic) (simp add: seq_of_def codec_simps)

text \<open>A reordering of a mapped list is the map of a reordering.\<close>

lemma mset_eq_map:
  "mset xs = image_mset f M \<Longrightarrow> \<exists>ys. xs = map f ys \<and> mset ys = M"
proof (induction xs arbitrary: M)
  case (Cons x xs)
  then have "image_mset f M = add_mset x (mset xs)" by simp
  then obtain M' a where M: "M = add_mset a M'" "f a = x" "image_mset f M' = mset xs"
    by (auto dest: msed_map_invR)
  from Cons.IH [of M'] M(3) obtain ys where "xs = map f ys" "mset ys = M'" by auto
  with M show ?case by (intro exI [of _ "a # ys"]) simp
qed simp

text \<open>The shared core: fragments of one frame arrive in any order among any other traffic.\<close>

lemma reassembles:
  assumes n: "length cs < 2 ^ 16" "cs \<noteq> []" and fresh: "pend seq = None"
    and arrive: "mset (filter (\<lambda>d. seq_of d = Some seq) (map snd ms)) =
                 mset (make_fragments seq (of_nat (length cs)) cs)"
  shows "outputs_of seq ms (fst (run_fragments pend ms)) =
           replicate (length cs - 1) None @ [Some (concat cs)] \<and>
         snd (run_fragments pend ms) seq = None"
proof -
  let ?f = "\<lambda>i. make_fragment seq (of_nat (length cs)) (i, cs ! i)"
  have "mset (filter (\<lambda>d. seq_of d = Some seq) (map snd ms)) = image_mset ?f (mset [0..<length cs])"
    using arrive by (simp add: make_fragments_map)
  then obtain "is" where f: "filter (\<lambda>d. seq_of d = Some seq) (map snd ms) = map ?f is"
    and m: "mset is = mset [0..<length cs]"
    by (blast dest: mset_eq_map)
  have d: "distinct is" and s: "set is = {..<length cs} - {}" and l: "length is = length cs"
    using mset_eq_imp_distinct_iff [OF m] mset_eq_setD [OF m] mset_eq_length [OF m]
    by (auto simp: atLeast0LessThan)
  have "is \<noteq> []" using l n(2) by auto
  moreover have "collecting cs seq {} pend" using fresh by (simp add: collecting_def)
  ultimately show ?thesis
    using run_collect [OF n(1) _ d s _ _ f, of pend] l by simp
qed

section \<open>From sender to receiver\<close>

lemma send_all_sent:
  "send_all ok overflow num rr i fs = (Ok (), sent, rr') \<Longrightarrow>
     map snd sent = fs \<and> (\<forall>x \<in> set sent. fst x \<le> overflow)"
proof (induction fs arbitrary: rr i sent rr')
  case (Cons f fs)
  obtain r s' q where r: "send_all ok overflow num ((rr + 1) mod 2 ^ 64) (i + 1) fs = (r, s', q)"
    by (cases "send_all ok overflow num ((rr + 1) mod 2 ^ 64) (i + 1) fs")
  have "rr mod (1 + overflow) \<le> overflow" by (simp add: less_Suc_eq_le [symmetric])
  with Cons.prems Cons.IH [of "(rr + 1) mod 2 ^ 64" "i + 1"] r show ?case
    by (auto simp: Let_def split: if_splits)
qed simp

fun receive_all :: "bool \<Rightarrow> receiver \<Rightarrow> (nat \<times> bytes) list \<Rightarrow> frame list \<times> receiver" where
  "receive_all fr rx [] = ([], rx)"
| "receive_all fr rx ((now, c) # ms) =
     (case receive_chunk fr now rx c of
        (fs, rx') \<Rightarrow> (case receive_all fr rx' ms of (gs, rx'') \<Rightarrow> (fs @ gs, rx'')))"

lemma parse_frames_Nil [simp]: "parse_frames [] = ([], [])"
  by (subst parse_frames.simps) (simp add: try_parse_short HEADER_LEN_def)

lemma parse_frames_encode:
  assumes "frame_ok f"
  shows "parse_frames (encode_frame f) = ([f], [])"
proof -
  have "try_parse_frame (encode_frame f) = (Some f, [])"
    using try_parse_encode [OF assms, of "[]"] by simp
  then show ?thesis by (subst parse_frames.simps) simp
qed

lemma length_run_fragments [simp]: "length (fst (run_fragments pend ms)) = length ms"
proof (induction ms arbitrary: pend)
  case (Cons m ms)
  then show ?case by (cases m) (simp add: case_prod_beta)
qed simp

lemma outputs_all:
  "\<forall>m \<in> set ms. seq_of (snd m) = Some seq \<Longrightarrow>
     outputs_of seq ms (fst (run_fragments pend ms)) = fst (run_fragments pend ms)"
proof (induction ms arbitrary: pend)
  case (Cons m ms)
  then show ?case by (cases m) (simp add: case_prod_beta)
qed simp

lemma receive_fragments:
  assumes "\<forall>m \<in> set ms. has_fragment_header (snd m)" and "rx_buf rx = []"
    and "fst (run_fragments (rx_pending rx) ms) = replicate k None @ [Some (encode_frame f)]"
    and f: "frame_ok f"
  shows "receive_all True rx ms = ([f], rx\<lparr>rx_pending := snd (run_fragments (rx_pending rx) ms)\<rparr>)"
  using assms(1-3)
proof (induction ms arbitrary: rx k)
  case (Cons m ms)
  obtain t c where m: "m = (t, c)" by (cases m)
  obtain out q where p: "process_fragment t (rx_pending rx) c = (out, q)"
    by (cases "process_fragment t (rx_pending rx) c")
  have hdr: "has_fragment_header c" using Cons.prems(1) m by simp
  show ?case
  proof (cases k)
    case 0
    with Cons.prems(3) m p have "out = Some (encode_frame f)" "fst (run_fragments q ms) = []"
      by (simp_all add: case_prod_beta)
    then have "out = Some (encode_frame f)" "ms = []"
      using length_run_fragments [of q ms] by simp_all
    with p m hdr Cons.prems(2) show ?thesis
      by (simp add: receive_chunk_def parse_frames_encode [OF f])
  next
    case (Suc k')
    with Cons.prems(3) m p have out: "out = None"
      and rest: "fst (run_fragments q ms) = replicate k' None @ [Some (encode_frame f)]"
      by (simp_all add: case_prod_beta)
    have "receive_all True (rx\<lparr>rx_pending := q\<rparr>) ms =
        ([f], rx\<lparr>rx_pending := q, rx_pending := snd (run_fragments q ms)\<rparr>)"
      using Cons.IH [of "rx\<lparr>rx_pending := q\<rparr>" k'] Cons.prems(1,2) rest by simp
    moreover have same: "rx\<lparr>rx_pending := q, rx_buf := []\<rparr> = rx\<lparr>rx_pending := q\<rparr>"
      using Cons.prems(2) by (cases rx) simp
    ultimately have "receive_all True (rx\<lparr>rx_pending := q, rx_buf := []\<rparr>) ms =
        ([f], rx\<lparr>rx_pending := snd (run_fragments q ms)\<rparr>)"
      unfolding same by simp
    then show ?thesis
      using p m hdr out Cons.prems(2) by (simp add: receive_chunk_def case_prod_beta)
  qed
qed simp

lemma first_byte_of_frame: "encode_frame f ! 0 = ucast (drop_bit 24 (connection_no f))"
proof -
  have "ucast (drop_bit 8 (ucast (drop_bit 16 w) :: u16)) = (ucast (drop_bit 24 w) :: u8)" for w :: u32
    by (rule bit_word_eqI) (auto simp: bit_simps)
  then show ?thesis by (simp add: encode_frame_def be32_def be16_def)
qed

lemma small_connection_no_header:
  assumes "connection_no f < 2 ^ 24"
  shows "\<not> has_fragment_header (encode_frame f)"
proof -
  have lt: "unat (connection_no f) < 2 ^ 24"
    using assms by (simp add: word_less_nat_alt)
  have "unat (drop_bit 24 (connection_no f)) = unat (connection_no f) div 2 ^ 24"
    unfolding unat_drop_bit_eq by (rule drop_bit_eq_div)
  also have "\<dots> = 0" using lt by (rule div_less)
  finally have "drop_bit 24 (connection_no f) = 0" by (simp only: unat_eq_zero)
  then show ?thesis by (simp add: has_fragment_header_def first_byte_of_frame)
qed

section \<open>Properties\<close>

lemma new_header_position:
  assumes "i < n" "n < 2 ^ 16"
  shows "is_first (new_header seq (of_nat i) (of_nat n)) \<longleftrightarrow> i = 0"
    and "is_last (new_header seq (of_nat i) (of_nat n)) \<longleftrightarrow> i = n - 1"
proof -
  have last: "(of_nat n - 1 :: u16) = of_nat (n - 1)" using assms by simp
  have "(of_nat i :: u16) = 0 \<longleftrightarrow> i = 0" "(of_nat i :: u16) = of_nat (n - 1) \<longleftrightarrow> i = n - 1"
    using assms of_nat_u16_less_eq(2) [of i 0] of_nat_u16_less_eq(2) [of i "n - 1"] by simp_all
  then show "is_first (new_header seq (of_nat i) (of_nat n)) \<longleftrightarrow> i = 0"
    and "is_last (new_header seq (of_nat i) (of_nat n)) \<longleftrightarrow> i = n - 1"
    by (simp_all add: is_first_def is_last_def new_header_def Let_def flag_defs last)
qed

lemma concat_payloads:
  "concat (map (drop FRAGMENT_HEADER_SIZE) (make_fragments seq tot cs)) = concat cs"
proof -
  have "map (drop FRAGMENT_HEADER_SIZE) (make_fragments seq tot cs) = cs"
    by (rule nth_equalityI) (simp_all add: make_fragment_codec)
  then show ?thesis by simp
qed

text \<open>
  Cutting a frame that exceeds the threshold gives at least two and at most
  \<open>max_fragments\<close> messages, none longer than the threshold; their payloads in order are the frame;
  each decodes to a header with its own index and the true total, and only the first and the last
  one carry the first and last flags.
\<close>

lemma fragments_bounded:
  assumes "FRAGMENT_HEADER_SIZE < threshold"
    and "fragment_frame seq frm threshold max_frags = Some (Some fs, seq')"
  shows "2 \<le> length fs \<and> length fs \<le> unat max_frags \<and> seq' = seq + 1
    \<and> (\<forall>d \<in> set fs. length d \<le> threshold)
    \<and> concat (map (drop FRAGMENT_HEADER_SIZE) fs) = frm
    \<and> (\<forall>i < length fs. \<exists>h. decode_header (fs ! i) = Some h \<and> seq_id h = seq
          \<and> frag_idx h = of_nat i \<and> total_frags h = of_nat (length fs)
          \<and> (is_first h \<longleftrightarrow> i = 0) \<and> (is_last h \<longleftrightarrow> i = length fs - 1))"
  using assms(2)
proof (rule fragment_frame_Some)
  let ?cs = "chunks (frag_size threshold) frm"
  assume long: "threshold < length frm" and pos: "0 < frag_size threshold"
    and max: "length ?cs \<le> unat max_frags"
    and fs: "fs = make_fragments seq (of_nat (length ?cs)) ?cs" and "seq' = seq + 1"
  have "unat max_frags < 2 ^ 16" using unsigned_less [of max_frags] by simp
  then have n: "length fs < 2 ^ 16" using max fs by simp
  have "2 \<le> length ?cs"
    using assms(1) long pos by (intro two_chunks) (simp_all add: frag_size_eq)
  moreover have "\<forall>d \<in> set fs. length d \<le> threshold"
    using assms(1) make_fragments_le unfolding fs by (meson less_imp_le)
  moreover have "\<exists>h. decode_header (fs ! i) = Some h \<and> seq_id h = seq
      \<and> frag_idx h = of_nat i \<and> total_frags h = of_nat (length fs)
      \<and> (is_first h \<longleftrightarrow> i = 0) \<and> (is_last h \<longleftrightarrow> i = length fs - 1)" if "i < length fs" for i
  proof (intro exI conjI)
    show "decode_header (fs ! i) = Some (new_header seq (of_nat i) (of_nat (length fs)))"
      using that fs by (simp add: make_fragment_codec)
  qed (use that n new_header_position in simp_all)
  ultimately show ?thesis
    using pos max fs \<open>seq' = seq + 1\<close> by (simp add: concat_payloads)
qed

text \<open>
  C11 (refinement). Reassembly is the inverse of fragmentation whatever the network does with the
  order: if the messages that carry a frame's sequence id are a permutation of its fragments, at
  any times and interleaved with any other traffic (fragments of other frames, junk), then all
  but the last of them give nothing, the last one gives the frame, and its buffer is gone.
\<close>

theorem reassembly_any_order:
  assumes "fragment_frame seq frm threshold max_frags = Some (Some fs, seq')"
    and "pend seq = None"
    and "mset (filter (\<lambda>d. seq_of d = Some seq) (map snd ms)) = mset fs"
  shows "outputs_of seq ms (fst (run_fragments pend ms)) =
           replicate (length fs - 1) None @ [Some frm] \<and>
         snd (run_fragments pend ms) seq = None"
  using assms(1)
proof (rule fragment_frame_Some)
  let ?cs = "chunks (frag_size threshold) frm"
  assume pos: "threshold < length frm" "0 < frag_size threshold"
    and max: "length ?cs \<le> unat max_frags"
    and fs: "fs = make_fragments seq (of_nat (length ?cs)) ?cs"
  have "unat max_frags < 2 ^ 16" using unsigned_less [of max_frags] by simp
  then have n: "length ?cs < 2 ^ 16" using max by simp
  have "?cs \<noteq> []" using pos by (cases frm) (simp_all add: chunks_step)
  from reassembles [where cs = ?cs and pend = pend and seq = seq, OF n this assms(2) assms(3) [unfolded fs]] pos fs
  show ?thesis by simp
qed

theorem reassembly_any_order_witness:
  "\<exists>fs seq'. fragment_frame 7 (replicate 30 1) 20 4 = Some (Some fs, seq') \<and>
     outputs_of 7 (map (Pair 0) (rev fs)) (fst (run_fragments Map.empty (map (Pair 0) (rev fs)))) =
       replicate (length fs - 1) None @ [Some (replicate 30 1)]"
proof -
  have f: "fragment_frame 7 (replicate 30 1) 20 4 =
      Some (Some (make_fragments 7 3 (chunks 11 (replicate 30 1))), 8)"
    by (simp add: fragment_frame_def frag_size_def FRAGMENT_HEADER_SIZE_def div_ceil_def)
  let ?fs = "make_fragments 7 3 (chunks 11 (replicate 30 1))"
  have "filter (\<lambda>d. seq_of d = Some 7) (map snd (map (Pair (0::nat)) (rev ?fs))) = rev ?fs"
    by (auto simp: make_fragments_def filter_id_conv o_def)
  then have "mset (filter (\<lambda>d. seq_of d = Some 7) (map snd (map (Pair (0::nat)) (rev ?fs)))) = mset ?fs"
    by (simp only: mset_rev)
  from reassembly_any_order [OF f _ this, of Map.empty] f show ?thesis by auto
qed

text \<open>
  C5 (roundtrip). From the sender's assembler to the receiver's channel loop: when every send
  succeeds, the messages sent, arriving in any order, make the receiver dispatch exactly the frame
  that was sent (fragmented or not), leave nothing in its buffer or its pending map, and only
  channels that exist were used. Connection numbers are below \<open>2^24\<close>: see
  \<open>odd_connection_swallowed\<close>.
\<close>

theorem send_receive_end_to_end:
  assumes "frame_ok f" and "connection_no f < 2 ^ 24"
    and "send ok a (encode_frame f) = Some (Ok (), sent, a')"
    and "mset (map snd ms) = mset (map snd sent)"
    and "rx_buf rx = []" and "rx_pending rx (next_seq_id a) = None"
  shows "fst (receive_all True rx ms) = [f]
    \<and> rx_buf (snd (receive_all True rx ms)) = []
    \<and> rx_pending (snd (receive_all True rx ms)) (next_seq_id a) = None
    \<and> (\<forall>x \<in> set sent. fst x \<le> overflow_channels a)"
proof (cases "length (encode_frame f) \<le> fragment_threshold (asm_config a)")
  case True
  then have sent: "sent = [(0, encode_frame f)]"
    using assms(3) by (simp add: send_def del: length_encode_frame split: if_splits)
  then have "mset (map snd ms) = mset [encode_frame f]" using assms(4) by simp
  then have "map snd ms = [encode_frame f]" by (simp only: mset.simps mset_single_iff)
  then obtain t where "ms = [(t, encode_frame f)]" by (cases ms) auto
  with sent show ?thesis using assms(5,6)
    by (simp add: receive_chunk_def small_connection_no_header [OF assms(2)]
        parse_frames_encode [OF assms(1)])
next
  case False
  let ?size = "frag_size (fragment_threshold (asm_config a))"
  let ?cs = "chunks ?size (encode_frame f)"
  let ?fs = "make_fragments (next_seq_id a) (of_nat (length ?cs)) ?cs"
  obtain rr r s where sa: "send_all ok (overflow_channels a) (length ?cs) (channel_round_robin a) 0 ?fs
      = (r, s, rr)"
    by (cases "send_all ok (overflow_channels a) (length ?cs) (channel_round_robin a) 0 ?fs")
  have pos: "0 < ?size" and max: "length ?cs \<le> unat (max_fragments (asm_config a))"
    and "r = Ok ()" and "s = sent"
    using False assms(3) sa
    by (auto simp: send_def send_fragmented_def Let_def length_chunks [symmetric]
        simp del: length_encode_frame split: if_splits)
  with sa have sent: "map snd sent = ?fs" and chans: "\<forall>x \<in> set sent. fst x \<le> overflow_channels a"
    using send_all_sent by blast+
  have "unat (max_fragments (asm_config a)) < 2 ^ 16"
    using unsigned_less [of "max_fragments (asm_config a)"] by simp
  then have n: "length ?cs < 2 ^ 16" using max by simp
  have ne: "?cs \<noteq> []" using pos by (simp add: chunks_step encode_frame_def be32_def be16_def)
  have m: "mset (map snd ms) = mset ?fs" using assms(4) sent by simp
  have members: "\<exists>ic. snd x = make_fragment (next_seq_id a) (of_nat (length ?cs)) ic"
    if "x \<in> set ms" for x
    using mset_eq_setD [OF m] that by (force simp: make_fragments_def)
  have ids: "\<forall>x \<in> set ms. seq_of (snd x) = Some (next_seq_id a)"
    using members by (metis seq_of_fragment)
  then have "filter (\<lambda>d. seq_of d = Some (next_seq_id a)) (map snd ms) = map snd ms"
    by (auto simp: filter_id_conv)
  with m have "mset (filter (\<lambda>d. seq_of d = Some (next_seq_id a)) (map snd ms)) = mset ?fs"
    by simp
  from reassembles [where cs = ?cs and pend = "rx_pending rx" and seq = "next_seq_id a",
      OF n ne assms(6) this] outputs_all [OF ids] pos
  have run: "fst (run_fragments (rx_pending rx) ms) =
        replicate (length ?cs - 1) None @ [Some (encode_frame f)]"
    and gone: "snd (run_fragments (rx_pending rx) ms) (next_seq_id a) = None"
    by simp_all
  have "\<forall>x \<in> set ms. has_fragment_header (snd x)"
    using members make_fragment_codec(2) by (metis surj_pair)
  from receive_fragments [OF this assms(5) run assms(1)] gone chans assms(5)
  show ?thesis by simp
qed

definition sample_assembler :: assembler where
  "sample_assembler =
     \<lparr>overflow_channels = 1, next_seq_id = 5, channel_round_robin = 0,
      pending_fragments = Map.empty, pending_count = 0,
      asm_config = \<lparr>fragment_threshold = 12, max_fragments = 10, fragment_timeout = 30000,
                    max_pending_buffers = 1000\<rparr>\<rparr>"

lemma send_all_ok:
  "\<exists>sent rr'. send_all (\<lambda>_. True) overflow num rr i fs = (Ok (), sent, rr')"
proof (induction fs arbitrary: rr i)
  case (Cons f fs)
  obtain sent q where
    "send_all (\<lambda>_. True) overflow num ((rr + 1) mod 2 ^ 64) (i + 1) fs = (Ok (), sent, q)"
    using Cons.IH by blast
  then show ?case by (simp add: Let_def)
qed simp

theorem send_receive_end_to_end_witness:
  "\<exists>sent a'. send (\<lambda>_. True) sample_assembler
       (encode_frame \<lparr>connection_no = 1, timestamp_ms = 9, payload = [1, 2, 3]\<rparr>) =
       Some (Ok (), sent, a')
   \<and> fst (receive_all True \<lparr>rx_buf = [], rx_pending = Map.empty\<rparr> (map (\<lambda>x. (0, snd x)) (rev sent)))
       = [\<lparr>connection_no = 1, timestamp_ms = 9, payload = [1, 2, 3]\<rparr>]"
proof -
  let ?f = "\<lparr>connection_no = 1, timestamp_ms = 9, payload = [1, 2, 3]\<rparr>"
  obtain sent rr where "send_all (\<lambda>_. True) (overflow_channels sample_assembler) 7 0 0
      (make_fragments 5 7 (chunks 3 (encode_frame ?f))) = (Ok (), sent, rr)"
    using send_all_ok by blast
  then have s: "\<exists>a'. send (\<lambda>_. True) sample_assembler (encode_frame ?f) = Some (Ok (), sent, a')"
    by (simp add: send_def send_fragmented_def sample_assembler_def frag_size_def
        FRAGMENT_HEADER_SIZE_def HEADER_LEN_def div_ceil_def)
  have ms: "mset (map snd (map (\<lambda>x. (0::nat, snd x)) (rev sent))) = mset (map snd sent)"
    by (simp add: image_mset.compositionality o_def)
  from s obtain a' where a': "send (\<lambda>_. True) sample_assembler (encode_frame ?f) = Some (Ok (), sent, a')"
    by blast
  have "frame_ok ?f" "connection_no ?f < 2 ^ 24" by (simp_all add: frame_ok_def)
  from send_receive_end_to_end [OF this a' ms, of "\<lparr>rx_buf = [], rx_pending = Map.empty\<rparr>"] a'
  show ?thesis by auto
qed

text \<open>
  A frame that is not fragmented is told from a fragment by the lowest bit of its
  first byte, which is the top byte of its connection number: on a tube with fragmentation, a
  frame of a connection whose number has bit 24 set is taken for a fragment of some other frame.
  Nothing is dispatched and nothing stays in the receive buffer (unless the timestamp happens to
  claim a total of one fragment), while a tube without fragmentation dispatches the frame.
\<close>

lemma odd_connection_swallowed:
  assumes "frame_ok f" and "bit (connection_no f) 24" and "rx_buf rx = []"
    and "get_u16 (drop 7 (encode_frame f)) \<noteq> 1"
    and "rx_pending rx (get_u32 (drop 1 (encode_frame f))) = None"
  shows "fst (receive_chunk True now rx (encode_frame f)) = []
    \<and> rx_buf (snd (receive_chunk True now rx (encode_frame f))) = []
    \<and> fst (receive_chunk False now rx (encode_frame f)) = [f]"
proof -
  have "bit (encode_frame f ! 0 AND HAS_FRAGMENT_HEADER) 0"
    using assms(2) by (simp add: first_byte_of_frame HAS_FRAGMENT_HEADER_def bit_simps)
  then have flag: "encode_frame f ! 0 AND HAS_FRAGMENT_HEADER \<noteq> 0" by auto
  have long: "FRAGMENT_HEADER_SIZE \<le> length (encode_frame f)"
    by (simp add: FRAGMENT_HEADER_SIZE_def HEADER_LEN_def)
  from flag long obtain h where h: "decode_header (encode_frame f) = Some h"
    and fields: "seq_id h = get_u32 (drop 1 (encode_frame f))"
      "total_frags h = get_u16 (drop 7 (encode_frame f))"
    by (simp add: decode_header_def)
  have hdr: "has_fragment_header (encode_frame f)" using h by (rule decode_imp_has_header)
  have "fst (add_fragment (new_buffer now (total_frags h)) (frag_idx h) dat) = False" for dat
    using assms(4) fields
    by (simp add: add_fragment_def new_buffer_def Let_def word_less_nat_alt not_le)
  then have "fst (process_fragment now (rx_pending rx) (encode_frame f)) = None"
    using h fields assms(5) by (simp add: process_fragment_def entry_or_new_def case_prod_beta)
  with hdr assms(3) parse_frames_encode [OF assms(1)] show ?thesis
    by (simp add: receive_chunk_def case_prod_beta prod.case_eq_if split: option.splits)
qed

text \<open>How far the atomic counter is from the number of buffers it is meant to count.\<close>

definition count_drift :: "assembler \<Rightarrow> int" where
  "count_drift a = int (pending_count a) - int (card (dom (pending_fragments a)))"

text \<open>
  \<open>process_incoming\<close> keeps the counter in step with the map, whatever arrives,
  but a cleanup tick, which drops the expired buffers of the map alone, leaves it too large by
  their number: \<open>pending_count\<close> only ever grows apart from what it counts.
\<close>

lemma pending_count_drifts:
  assumes "finite (dom (pending_fragments a))" and "0 \<le> count_drift a"
  shows "count_drift (snd (process_incoming now a dat)) = count_drift a
    \<and> finite (dom (pending_fragments (snd (process_incoming now a dat))))
    \<and> count_drift (cleanup_tick now a) = count_drift a + int (card
          {s. \<exists>b. pending_fragments a s = Some b \<and> is_expired (fragment_timeout (asm_config a)) now b})"
proof -
  let ?p = "pending_fragments a"
  let ?E = "{s. \<exists>b. ?p s = Some b \<and> is_expired (fragment_timeout (asm_config a)) now b}"
  have dom': "dom (pending_fragments (cleanup_tick now a)) = dom ?p - ?E"
    by (auto simp: cleanup_tick_def split: option.splits if_splits)
  have sub: "?E \<subseteq> dom ?p" by auto
  have "card (dom ?p - ?E) = card (dom ?p) - card ?E" "card ?E \<le> card (dom ?p)"
    using sub assms(1) by (simp_all add: card_Diff_subset finite_subset card_mono)
  then have "count_drift (cleanup_tick now a) = count_drift a + int (card ?E)"
    unfolding count_drift_def dom' by (simp add: cleanup_tick_def)
  moreover have "finite (dom (pending_fragments (snd (process_incoming now a dat))))"
    using assms(1) by (auto simp: process_incoming_def Let_def split: option.splits prod.splits)
  moreover have "count_drift (snd (process_incoming now a dat)) = count_drift a"
  proof (cases "\<not> has_fragment_header dat \<or> decode_header dat = None")
    case True
    then show ?thesis by (auto simp: process_incoming_def split: option.splits)
  next
    case False
    then obtain h where h: "decode_header dat = Some h" "has_fragment_header dat" by auto
    obtain c b where add: "add_fragment (entry_or_new now ?p h) (frag_idx h)
        (drop FRAGMENT_HEADER_SIZE dat) = (c, b)"
      by (cases "add_fragment (entry_or_new now ?p h) (frag_idx h) (drop FRAGMENT_HEADER_SIZE dat)")
    show ?thesis
    proof (cases "?p (seq_id h) = None")
      case True
      then have "seq_id h \<notin> dom ?p" by auto
      with h add True assms show ?thesis
        by (auto simp: process_incoming_def Let_def count_drift_def)
    next
      case False
      then have m: "seq_id h \<in> dom ?p" by auto
      then have "0 < card (dom ?p)" using assms(1) by (auto simp: card_gt_0_iff)
      moreover have "insert (seq_id h) (dom ?p) = dom ?p" using m by auto
      ultimately show ?thesis using h add False assms m
        by (auto simp: process_incoming_def Let_def count_drift_def card_Diff_singleton)
    qed
  qed
  ultimately show ?thesis by blast
qed

end
