(* ===== verification/Ebcdic.thy ===== *)
theory Ebcdic
  imports Prelude
begin

text \<open>
  The EBCDIC code pages of the 3270 terminal, \<open>guacr-tn3270/src/ebcdic.rs\<close>: the three tables as the
  source lists them (a \<open>char\<close> is its code point), the conversions of single bytes and of strings.
  Each table is shown to be a bijection between the bytes and the Latin-1 characters, so every
  conversion is total in one direction and exact in both.
\<close>

section \<open>Code pages and tables\<close>

datatype code_page = Cp037 | Cp500 | Cp1047

definition EBCDIC_SPACE :: u8 where "EBCDIC_SPACE = 0x40"
definition EBCDIC_NULL :: u8 where "EBCDIC_NULL = 0x00"
definition EBCDIC_SUB :: u8 where "EBCDIC_SUB = 0x3F"

definition EBCDIC_TO_UNICODE_037 :: "uchar list" where
  "EBCDIC_TO_UNICODE_037 =
     [
      0x00, 0x01, 0x02, 0x03, 0x9C, 0x09, 0x86, 0x7F, 0x97, 0x8D, 0x8E, 0x0B, 0x0C, 0x0D, 0x0E, 0x0F,
      0x10, 0x11, 0x12, 0x13, 0x9D, 0x85, 0x08, 0x87, 0x18, 0x19, 0x92, 0x8F, 0x1C, 0x1D, 0x1E, 0x1F,
      0x80, 0x81, 0x82, 0x83, 0x84, 0x0A, 0x17, 0x1B, 0x88, 0x89, 0x8A, 0x8B, 0x8C, 0x05, 0x06, 0x07,
      0x90, 0x91, 0x16, 0x93, 0x94, 0x95, 0x96, 0x04, 0x98, 0x99, 0x9A, 0x9B, 0x14, 0x15, 0x9E, 0x1A,
      0x20, 0xA0, 0xE2, 0xE4, 0xE0, 0xE1, 0xE3, 0xE5, 0xE7, 0xF1, 0xA2, 0x2E, 0x3C, 0x28, 0x2B, 0x7C,
      0x26, 0xE9, 0xEA, 0xEB, 0xE8, 0xED, 0xEE, 0xEF, 0xEC, 0xDF, 0x21, 0x24, 0x2A, 0x29, 0x3B, 0xAC,
      0x2D, 0x2F, 0xC2, 0xC4, 0xC0, 0xC1, 0xC3, 0xC5, 0xC7, 0xD1, 0xA6, 0x2C, 0x25, 0x5F, 0x3E, 0x3F,
      0xF8, 0xC9, 0xCA, 0xCB, 0xC8, 0xCD, 0xCE, 0xCF, 0xCC, 0x60, 0x3A, 0x23, 0x40, 0x27, 0x3D, 0x22,
      0xD8, 0x61, 0x62, 0x63, 0x64, 0x65, 0x66, 0x67, 0x68, 0x69, 0xAB, 0xBB, 0xF0, 0xFD, 0xFE, 0xB1,
      0xB0, 0x6A, 0x6B, 0x6C, 0x6D, 0x6E, 0x6F, 0x70, 0x71, 0x72, 0xAA, 0xBA, 0xE6, 0xB8, 0xC6, 0xA4,
      0xB5, 0x7E, 0x73, 0x74, 0x75, 0x76, 0x77, 0x78, 0x79, 0x7A, 0xA1, 0xBF, 0xD0, 0xDD, 0xDE, 0xAE,
      0x5E, 0xA3, 0xA5, 0xB7, 0xA9, 0xA7, 0xB6, 0xBC, 0xBD, 0xBE, 0x5B, 0x5D, 0xAF, 0xA8, 0xB4, 0xD7,
      0x7B, 0x41, 0x42, 0x43, 0x44, 0x45, 0x46, 0x47, 0x48, 0x49, 0xAD, 0xF4, 0xF6, 0xF2, 0xF3, 0xF5,
      0x7D, 0x4A, 0x4B, 0x4C, 0x4D, 0x4E, 0x4F, 0x50, 0x51, 0x52, 0xB9, 0xFB, 0xFC, 0xF9, 0xFA, 0xFF,
      0x5C, 0xF7, 0x53, 0x54, 0x55, 0x56, 0x57, 0x58, 0x59, 0x5A, 0xB2, 0xD4, 0xD6, 0xD2, 0xD3, 0xD5,
      0x30, 0x31, 0x32, 0x33, 0x34, 0x35, 0x36, 0x37, 0x38, 0x39, 0xB3, 0xDB, 0xDC, 0xD9, 0xDA, 0x9F]"

definition EBCDIC_TO_UNICODE_500 :: "uchar list" where
  "EBCDIC_TO_UNICODE_500 =
     [
      0x00, 0x01, 0x02, 0x03, 0x9C, 0x09, 0x86, 0x7F, 0x97, 0x8D, 0x8E, 0x0B, 0x0C, 0x0D, 0x0E, 0x0F,
      0x10, 0x11, 0x12, 0x13, 0x9D, 0x85, 0x08, 0x87, 0x18, 0x19, 0x92, 0x8F, 0x1C, 0x1D, 0x1E, 0x1F,
      0x80, 0x81, 0x82, 0x83, 0x84, 0x0A, 0x17, 0x1B, 0x88, 0x89, 0x8A, 0x8B, 0x8C, 0x05, 0x06, 0x07,
      0x90, 0x91, 0x16, 0x93, 0x94, 0x95, 0x96, 0x04, 0x98, 0x99, 0x9A, 0x9B, 0x14, 0x15, 0x9E, 0x1A,
      0x20, 0xA0, 0xE2, 0xE4, 0xE0, 0xE1, 0xE3, 0xE5, 0xE7, 0xF1, 0x5B, 0x2E, 0x3C, 0x28, 0x2B, 0x21,
      0x26, 0xE9, 0xEA, 0xEB, 0xE8, 0xED, 0xEE, 0xEF, 0xEC, 0xDF, 0x5D, 0x24, 0x2A, 0x29, 0x3B, 0x5E,
      0x2D, 0x2F, 0xC2, 0xC4, 0xC0, 0xC1, 0xC3, 0xC5, 0xC7, 0xD1, 0xA6, 0x2C, 0x25, 0x5F, 0x3E, 0x3F,
      0xF8, 0xC9, 0xCA, 0xCB, 0xC8, 0xCD, 0xCE, 0xCF, 0xCC, 0x60, 0x3A, 0x23, 0x40, 0x27, 0x3D, 0x22,
      0xD8, 0x61, 0x62, 0x63, 0x64, 0x65, 0x66, 0x67, 0x68, 0x69, 0xAB, 0xBB, 0xF0, 0xFD, 0xFE, 0xB1,
      0xB0, 0x6A, 0x6B, 0x6C, 0x6D, 0x6E, 0x6F, 0x70, 0x71, 0x72, 0xAA, 0xBA, 0xE6, 0xB8, 0xC6, 0xA4,
      0xB5, 0x7E, 0x73, 0x74, 0x75, 0x76, 0x77, 0x78, 0x79, 0x7A, 0xA1, 0xBF, 0xD0, 0xDD, 0xDE, 0xAE,
      0xA2, 0xA3, 0xA5, 0xB7, 0xA9, 0xA7, 0xB6, 0xBC, 0xBD, 0xBE, 0xAC, 0x7C, 0xAF, 0xA8, 0xB4, 0xD7,
      0x7B, 0x41, 0x42, 0x43, 0x44, 0x45, 0x46, 0x47, 0x48, 0x49, 0xAD, 0xF4, 0xF6, 0xF2, 0xF3, 0xF5,
      0x7D, 0x4A, 0x4B, 0x4C, 0x4D, 0x4E, 0x4F, 0x50, 0x51, 0x52, 0xB9, 0xFB, 0xFC, 0xF9, 0xFA, 0xFF,
      0x5C, 0xF7, 0x53, 0x54, 0x55, 0x56, 0x57, 0x58, 0x59, 0x5A, 0xB2, 0xD4, 0xD6, 0xD2, 0xD3, 0xD5,
      0x30, 0x31, 0x32, 0x33, 0x34, 0x35, 0x36, 0x37, 0x38, 0x39, 0xB3, 0xDB, 0xDC, 0xD9, 0xDA, 0x9F]"

definition EBCDIC_TO_UNICODE_1047 :: "uchar list" where
  "EBCDIC_TO_UNICODE_1047 =
     [
      0x00, 0x01, 0x02, 0x03, 0x9C, 0x09, 0x86, 0x7F, 0x97, 0x8D, 0x8E, 0x0B, 0x0C, 0x0D, 0x0E, 0x0F,
      0x10, 0x11, 0x12, 0x13, 0x9D, 0x0A, 0x08, 0x87, 0x18, 0x19, 0x92, 0x8F, 0x1C, 0x1D, 0x1E, 0x1F,
      0x80, 0x81, 0x82, 0x83, 0x84, 0x85, 0x17, 0x1B, 0x88, 0x89, 0x8A, 0x8B, 0x8C, 0x05, 0x06, 0x07,
      0x90, 0x91, 0x16, 0x93, 0x94, 0x95, 0x96, 0x04, 0x98, 0x99, 0x9A, 0x9B, 0x14, 0x15, 0x9E, 0x1A,
      0x20, 0xA0, 0xE2, 0xE4, 0xE0, 0xE1, 0xE3, 0xE5, 0xE7, 0xF1, 0xA2, 0x2E, 0x3C, 0x28, 0x2B, 0x7C,
      0x26, 0xE9, 0xEA, 0xEB, 0xE8, 0xED, 0xEE, 0xEF, 0xEC, 0xDF, 0x21, 0x24, 0x2A, 0x29, 0x3B, 0x5E,
      0x2D, 0x2F, 0xC2, 0xC4, 0xC0, 0xC1, 0xC3, 0xC5, 0xC7, 0xD1, 0xA6, 0x2C, 0x25, 0x5F, 0x3E, 0x3F,
      0xF8, 0xC9, 0xCA, 0xCB, 0xC8, 0xCD, 0xCE, 0xCF, 0xCC, 0x60, 0x3A, 0x23, 0x40, 0x27, 0x3D, 0x22,
      0xD8, 0x61, 0x62, 0x63, 0x64, 0x65, 0x66, 0x67, 0x68, 0x69, 0xAB, 0xBB, 0xF0, 0xFD, 0xFE, 0xB1,
      0xB0, 0x6A, 0x6B, 0x6C, 0x6D, 0x6E, 0x6F, 0x70, 0x71, 0x72, 0xAA, 0xBA, 0xE6, 0xB8, 0xC6, 0xA4,
      0xB5, 0x7E, 0x73, 0x74, 0x75, 0x76, 0x77, 0x78, 0x79, 0x7A, 0xA1, 0xBF, 0xD0, 0x5B, 0xDE, 0xAE,
      0xAC, 0xA3, 0xA5, 0xB7, 0xA9, 0xA7, 0xB6, 0xBC, 0xBD, 0xBE, 0xDD, 0xA8, 0xAF, 0x5D, 0xB4, 0xD7,
      0x7B, 0x41, 0x42, 0x43, 0x44, 0x45, 0x46, 0x47, 0x48, 0x49, 0xAD, 0xF4, 0xF6, 0xF2, 0xF3, 0xF5,
      0x7D, 0x4A, 0x4B, 0x4C, 0x4D, 0x4E, 0x4F, 0x50, 0x51, 0x52, 0xB9, 0xFB, 0xFC, 0xF9, 0xFA, 0xFF,
      0x5C, 0xF7, 0x53, 0x54, 0x55, 0x56, 0x57, 0x58, 0x59, 0x5A, 0xB2, 0xD4, 0xD6, 0xD2, 0xD3, 0xD5,
      0x30, 0x31, 0x32, 0x33, 0x34, 0x35, 0x36, 0x37, 0x38, 0x39, 0xB3, 0xDB, 0xDC, 0xD9, 0xDA, 0x9F]"

fun table_for :: "code_page \<Rightarrow> uchar list" where
  "table_for Cp037 = EBCDIC_TO_UNICODE_037"
| "table_for Cp500 = EBCDIC_TO_UNICODE_500"
| "table_for Cp1047 = EBCDIC_TO_UNICODE_1047"

section \<open>Conversions\<close>

definition ebcdic_to_unicode :: "u8 \<Rightarrow> code_page \<Rightarrow> uchar" where
  "ebcdic_to_unicode byte cp = table_for cp ! unat byte"

text \<open>The scan of \<open>unicode_to_ebcdic\<close>, from index \<open>i\<close> on.\<close>

fun scan_table :: "uchar \<Rightarrow> nat \<Rightarrow> uchar list \<Rightarrow> u8 option" where
  "scan_table ch i [] = None"
| "scan_table ch i (c # cs) = (if c = ch then Some (of_nat i) else scan_table ch (i + 1) cs)"

definition unicode_to_ebcdic :: "uchar \<Rightarrow> code_page \<Rightarrow> u8 option" where
  "unicode_to_ebcdic ch cp = scan_table ch 0 (table_for cp)"

definition decode_string :: "bytes \<Rightarrow> code_page \<Rightarrow> uchar list" where
  "decode_string bs cp = map (\<lambda>b. table_for cp ! unat b) bs"

text \<open>\<open>reverse.entry(ch).or_insert(i)\<close> over the enumerated table.\<close>

fun reverse_map :: "(uchar \<rightharpoonup> u8) \<Rightarrow> nat \<Rightarrow> uchar list \<Rightarrow> (uchar \<rightharpoonup> u8)" where
  "reverse_map m i [] = m"
| "reverse_map m i (c # cs) =
     reverse_map (if m c = None then m(c \<mapsto> of_nat i) else m) (i + 1) cs"

definition encode_string :: "uchar list \<Rightarrow> code_page \<Rightarrow> bytes" where
  "encode_string s cp =
     (let reverse = reverse_map Map.empty 0 (table_for cp)
      in map (\<lambda>ch. case reverse ch of Some b \<Rightarrow> b | None \<Rightarrow> EBCDIC_SUB) s)"

section \<open>What a table must be\<close>

lemma scan_table_None: "ch \<notin> set cs \<Longrightarrow> scan_table ch i cs = None"
  by (induction cs arbitrary: i) auto

lemma scan_table_nth:
  "distinct cs \<Longrightarrow> k < length cs \<Longrightarrow> scan_table (cs ! k) i cs = Some (of_nat (i + k))"
proof (induction cs arbitrary: i k)
  case (Cons c cs)
  show ?case
  proof (cases k)
    case (Suc j)
    with Cons.prems have "cs ! j \<in> set cs" by simp
    with Cons Suc have "c \<noteq> cs ! j" by auto
    with Cons Suc show ?thesis by (simp add: add.commute add.left_commute)
  qed simp
qed simp

lemma reverse_map_scan:
  "reverse_map m i cs ch = (case m ch of Some b \<Rightarrow> Some b | None \<Rightarrow> scan_table ch i cs)"
  by (induction cs arbitrary: m i) (auto split: option.splits)

locale code_table =
  fixes t :: "uchar list"
  assumes len: "length t = 256"
    and dist: "distinct t"
    and range: "set t = {..<256}"
    and sub_char: "t ! 0x3F = 0x1A"
begin

lemma entry_less: "t ! unat (b :: u8) < 256"
proof -
  have "unat b < 256" using unsigned_less [of b] by simp
  then have "t ! unat b \<in> set t" using len by simp
  then show ?thesis unfolding range by simp
qed

lemma scan_entry: "scan_table (t ! unat b) 0 t = Some b"
  using scan_table_nth [OF dist, of "unat b" 0] unsigned_less [of b] len by simp

lemma scan_less:
  assumes "ch < 256"
  shows "\<exists>b. scan_table ch 0 t = Some b \<and> t ! unat b = ch"
proof -
  from assms range have "ch \<in> set t" by simp
  then obtain k where k: "k < 256" "t ! k = ch" using len by (auto simp: in_set_conv_nth)
  then have "unat (of_nat k :: u8) = k" by (intro unat_of_nat_small(1)) simp
  then show ?thesis using scan_table_nth [OF dist, of k 0] k len by auto
qed

lemma scan_range: "scan_table ch 0 t = None \<longleftrightarrow> 256 \<le> ch"
proof (cases "ch < 256")
  case True
  then show ?thesis using scan_less by fastforce
next
  case False
  then have "ch \<notin> set t" using range by simp
  then show ?thesis using False by (simp add: scan_table_None)
qed

end

text \<open>Sorting puts each table into the order of the Latin-1 code points.\<close>

lemma sorted_037: "sort (map int EBCDIC_TO_UNICODE_037) = [0..255]"
  unfolding EBCDIC_TO_UNICODE_037_def list.map of_nat_0 of_nat_1 of_nat_numeral by code_simp

lemma sorted_500: "sort (map int EBCDIC_TO_UNICODE_500) = [0..255]"
  unfolding EBCDIC_TO_UNICODE_500_def list.map of_nat_0 of_nat_1 of_nat_numeral by code_simp

lemma sorted_1047: "sort (map int EBCDIC_TO_UNICODE_1047) = [0..255]"
  unfolding EBCDIC_TO_UNICODE_1047_def list.map of_nat_0 of_nat_1 of_nat_numeral by code_simp

lemma code_table_of_sort:
  assumes s: "sort (map int t) = [0..255]" and "t ! 0x3F = 0x1A"
  shows "code_table t"
proof
  show "length t = 256" using arg_cong [OF s, of length] by simp
  have "distinct (map int t)" using arg_cong [OF s, of distinct] by simp
  then show "distinct t" by (simp add: distinct_map)
  have i: "int ` set t = {0..255}" using arg_cong [OF s, of set] by simp
  show "set t = {..<256}"
  proof (intro set_eqI iffI)
    fix n assume "n \<in> set t"
    then have "int n \<in> {0..255}" using i by blast
    then show "n \<in> {..<256}" by simp
  next
    fix n :: nat assume "n \<in> {..<256}"
    then have "int n \<in> int ` set t" unfolding i by simp
    then show "n \<in> set t" by auto
  qed
qed (rule assms(2))

interpretation cp037: code_table EBCDIC_TO_UNICODE_037
  by (rule code_table_of_sort [OF sorted_037]) (simp add: EBCDIC_TO_UNICODE_037_def)

interpretation cp500: code_table EBCDIC_TO_UNICODE_500
  by (rule code_table_of_sort [OF sorted_500]) (simp add: EBCDIC_TO_UNICODE_500_def)

interpretation cp1047: code_table EBCDIC_TO_UNICODE_1047
  by (rule code_table_of_sort [OF sorted_1047]) (simp add: EBCDIC_TO_UNICODE_1047_def)

lemma code_table_for: "code_table (table_for cp)"
  by (cases cp) (simp_all add: cp037.code_table_axioms cp500.code_table_axioms cp1047.code_table_axioms)

section \<open>Properties\<close>

lemma unicode_of_ebcdic: "unicode_to_ebcdic (ebcdic_to_unicode b cp) cp = Some b"
  by (simp add: unicode_to_ebcdic_def ebcdic_to_unicode_def code_table.scan_entry [OF code_table_for])

lemma ebcdic_of_unicode:
  assumes "unicode_to_ebcdic ch cp = Some b"
  shows "ebcdic_to_unicode b cp = ch"
proof -
  have "ch < 256"
    using assms code_table.scan_range [OF code_table_for, of ch cp]
    by (cases "ch < 256") (simp_all add: unicode_to_ebcdic_def)
  from code_table.scan_less [OF code_table_for this, of cp] assms show ?thesis
    by (auto simp: unicode_to_ebcdic_def ebcdic_to_unicode_def)
qed

lemma encode_string_scan:
  "encode_string s cp = map (\<lambda>ch. case unicode_to_ebcdic ch cp of Some b \<Rightarrow> b | None \<Rightarrow> EBCDIC_SUB) s"
  by (simp add: encode_string_def unicode_to_ebcdic_def reverse_map_scan)

text \<open>
  For every code page the two single-byte conversions are inverse to each other,
  and the characters without a mapping are exactly those beyond Latin-1.
\<close>

lemma ebcdic_bijection:
  "unicode_to_ebcdic (ebcdic_to_unicode b cp) cp = Some b
   \<and> (\<forall>ch c. unicode_to_ebcdic ch cp = Some c \<longleftrightarrow> ebcdic_to_unicode c cp = ch)
   \<and> (\<forall>ch. unicode_to_ebcdic ch cp = None \<longleftrightarrow> 256 \<le> ch)"
proof (intro conjI allI)
  show "unicode_to_ebcdic ch cp = Some c \<longleftrightarrow> ebcdic_to_unicode c cp = ch" for ch c
    using ebcdic_of_unicode unicode_of_ebcdic by metis
  show "unicode_to_ebcdic ch cp = None \<longleftrightarrow> 256 \<le> ch" for ch
    by (simp add: unicode_to_ebcdic_def code_table.scan_range [OF code_table_for])
qed (rule unicode_of_ebcdic)

text \<open>
  The bulk encoder with its reverse map agrees with the scan character by
  character, undoes the bulk decoder, and text that went through it comes back with the characters
  the code page lacks replaced by SUB.
\<close>

lemma encode_string_correct:
  "encode_string s cp = map (\<lambda>ch. case unicode_to_ebcdic ch cp of Some b \<Rightarrow> b | None \<Rightarrow> EBCDIC_SUB) s
   \<and> encode_string (decode_string bs cp) cp = bs
   \<and> decode_string (encode_string s cp) cp = map (\<lambda>ch. if ch < 256 then ch else 0x1A) s"
proof (intro conjI)
  have dec: "table_for cp ! unat b = ebcdic_to_unicode b cp" for b
    by (simp add: ebcdic_to_unicode_def)
  show "encode_string (decode_string bs cp) cp = bs"
    by (simp add: encode_string_scan decode_string_def dec unicode_of_ebcdic o_def)
  have "ebcdic_to_unicode (case unicode_to_ebcdic ch cp of Some b \<Rightarrow> b | None \<Rightarrow> EBCDIC_SUB) cp
      = (if ch < 256 then ch else 0x1A)" for ch
  proof (cases "unicode_to_ebcdic ch cp")
    case None
    then have "256 \<le> ch"
      by (simp add: unicode_to_ebcdic_def code_table.scan_range [OF code_table_for])
    moreover have "table_for cp ! 0x3F = 0x1A" by (rule code_table.sub_char [OF code_table_for])
    ultimately show ?thesis using None by (simp add: ebcdic_to_unicode_def EBCDIC_SUB_def)
  next
    case (Some b)
    then have "ebcdic_to_unicode b cp = ch" by (rule ebcdic_of_unicode)
    moreover have "ebcdic_to_unicode b cp < 256"
      by (simp add: ebcdic_to_unicode_def code_table.entry_less [OF code_table_for])
    ultimately show ?thesis using Some by simp
  qed
  then show "decode_string (encode_string s cp) cp = map (\<lambda>ch. if ch < 256 then ch else 0x1A) s"
    by (simp add: encode_string_scan decode_string_def dec o_def)
qed (rule encode_string_scan)

lemma differences_500:
  "map fst (filter (\<lambda>(i, a, b). a \<noteq> b) (zip [0..255]
     (zip (map int EBCDIC_TO_UNICODE_037) (map int EBCDIC_TO_UNICODE_500)))) =
   [0x4A, 0x4F, 0x5A, 0x5F, 0xB0, 0xBA, 0xBB]"
  unfolding EBCDIC_TO_UNICODE_037_def EBCDIC_TO_UNICODE_500_def list.map
    of_nat_0 of_nat_1 of_nat_numeral by code_simp

lemma differences_1047:
  "map fst (filter (\<lambda>(i, a, b). a \<noteq> b) (zip [0..255]
     (zip (map int EBCDIC_TO_UNICODE_037) (map int EBCDIC_TO_UNICODE_1047)))) =
   [0x15, 0x25, 0x5F, 0xAD, 0xB0, 0xBA, 0xBB, 0xBD]"
  unfolding EBCDIC_TO_UNICODE_037_def EBCDIC_TO_UNICODE_1047_def list.map
    of_nat_0 of_nat_1 of_nat_numeral by code_simp

lemma differences_nth:
  assumes "length t = 256" "length u = 256" "k < 256"
    and "map fst (filter (\<lambda>(i, a, b). a \<noteq> b) (zip [0..255] (zip (map int t) (map int u)))) = ds"
  shows "t ! k \<noteq> u ! k \<longleftrightarrow> int k \<in> set ds"
proof -
  let ?z = "zip [0..255] (zip (map int t) (map int u))"
  have z: "set ?z = {(int j, int (t ! j), int (u ! j)) | j. j < 256}"
  proof (intro set_eqI iffI)
    fix x assume "x \<in> set ?z"
    then show "x \<in> {(int j, int (t ! j), int (u ! j)) | j. j < 256}"
      using assms(1,2) by (auto simp: set_zip)
  next
    fix x assume "x \<in> {(int j, int (t ! j), int (u ! j)) | j. j < 256}"
    then obtain j where j: "x = (int j, int (t ! j), int (u ! j))" "j < 256" by blast
    then have "x = ?z ! j" "j < length ?z" using assms(1,2) by simp_all
    then show "x \<in> set ?z" by (simp only: nth_mem)
  qed
  have "int k \<in> set ds \<longleftrightarrow> (\<exists>a b. (int k, a, b) \<in> set ?z \<and> a \<noteq> b)"
    unfolding assms(4) [symmetric] by force
  also have "\<dots> \<longleftrightarrow> t ! k \<noteq> u ! k" unfolding z using assms(3) by auto
  finally show ?thesis by simp
qed

text \<open>
  The code pages 500 and 1047 differ from 037 at seven and at eight bytes: those
  of brackets, exclamation mark, caret, pipe, cent and not sign (500), and of the newline pair,
  caret, brackets, not sign, Y acute and diaeresis (1047). Braces, tilde and backslash, which the
  comment on the table of 500 lists, are where 037 has them.
\<close>

lemma code_page_differences:
  "(ebcdic_to_unicode b Cp037 \<noteq> ebcdic_to_unicode b Cp500 \<longleftrightarrow>
      b \<in> {0x4A, 0x4F, 0x5A, 0x5F, 0xB0, 0xBA, 0xBB})
   \<and> (ebcdic_to_unicode b Cp037 \<noteq> ebcdic_to_unicode b Cp1047 \<longleftrightarrow>
      b \<in> {0x15, 0x25, 0x5F, 0xAD, 0xB0, 0xBA, 0xBB, 0xBD})"
proof -
  have k: "unat b < 256" using unsigned_less [of b] by simp
  show ?thesis
    using differences_nth [OF cp037.len cp500.len k differences_500]
      differences_nth [OF cp037.len cp1047.len k differences_1047]
    by (simp add: ebcdic_to_unicode_def word_uint_eq_iff)
qed

end
