(* ===== verification/Tn3270_Datastream.thy ===== *)
theory Tn3270_Datastream
  imports Prelude
begin

text \<open>
  The 3270 data stream, \<open>guacr-tn3270/src/datastream.rs\<close>: the one-byte codecs (write command, write
  control character, field attribute, colours, AID), the 12- and 14-bit buffer addresses and the
  parser of a whole host-to-terminal stream. The parser's index \<open>pos\<close> is carried along with the
  bytes from that index on.
\<close>

section \<open>Errors and write commands\<close>

datatype tn3270_error =
    EmptyDataStream
  | UnknownWriteCommand u8
  | UnexpectedEnd nat nat
  | InvalidBufferAddress nat
  | UnknownOrder u8 nat
  | InvalidSfeCount nat

datatype write_command = Write | EraseWrite | EraseWriteAlternate | WriteStructuredField

definition write_command_from_byte :: "u8 \<Rightarrow> (write_command, tn3270_error) result" where
  "write_command_from_byte b =
     (if b = 0x01 \<or> b = 0xF1 then Ok Write
      else if b = 0x05 \<or> b = 0xF5 then Ok EraseWrite
      else if b = 0x0D \<or> b = 0x7E then Ok EraseWriteAlternate
      else if b = 0x11 \<or> b = 0xF3 then Ok WriteStructuredField
      else Err (UnknownWriteCommand b))"

section \<open>Write control character\<close>

record wcc =
  reset_mdt :: bool
  restore_keyboard :: bool
  alarm :: bool

definition wcc_from_byte :: "u8 \<Rightarrow> wcc" where
  "wcc_from_byte b =
     \<lparr>reset_mdt = (b AND 0x40 \<noteq> 0), restore_keyboard = (b AND 0x20 \<noteq> 0), alarm = (b AND 0x02 \<noteq> 0)\<rparr>"

definition wcc_to_byte :: "wcc \<Rightarrow> u8" where
  "wcc_to_byte w =
     (let b0 = 0;
          b1 = (if reset_mdt w then b0 OR 0x40 else b0);
          b2 = (if restore_keyboard w then b1 OR 0x20 else b1)
      in if alarm w then b2 OR 0x02 else b2)"

section \<open>Field attributes\<close>

datatype intensity = Normal | Invisible | Intensified

record field_attribute =
  protected :: bool
  numeric :: bool
  intensity_of :: intensity
  modified :: bool

text \<open>The two intensity bits have four values, so the \<open>unreachable!()\<close> arm is never taken.\<close>

definition attr_from_byte :: "u8 \<Rightarrow> field_attribute" where
  "attr_from_byte b =
     (let bits = drop_bit 2 b AND 0x03
      in \<lparr>protected = (b AND 0x20 \<noteq> 0), numeric = (b AND 0x10 \<noteq> 0),
          intensity_of = (if bits = 0 \<or> bits = 1 then Normal
                          else if bits = 2 then Intensified else Invisible),
          modified = (b AND 0x01 \<noteq> 0)\<rparr>)"

definition attr_to_byte :: "field_attribute \<Rightarrow> u8" where
  "attr_to_byte a =
     (let b0 = 0;
          b1 = (if protected a then b0 OR 0x20 else b0);
          b2 = (if numeric a then b1 OR 0x10 else b1);
          b3 = (case intensity_of a of Normal \<Rightarrow> b2 | Intensified \<Rightarrow> b2 OR 0x08
                | Invisible \<Rightarrow> b2 OR 0x0C)
      in if modified a then b3 OR 0x01 else b3)"

definition is_unprotected :: "field_attribute \<Rightarrow> bool" where
  "is_unprotected a \<longleftrightarrow> \<not> protected a"

definition is_skip :: "field_attribute \<Rightarrow> bool" where
  "is_skip a \<longleftrightarrow> protected a \<and> numeric a"

section \<open>Extended attributes\<close>

datatype highlighting = HlDefault | HlBlink | HlReverseVideo | HlUnderscore | HlIntensified

definition highlighting_from_byte :: "u8 \<Rightarrow> highlighting" where
  "highlighting_from_byte b =
     (if b = 0x00 \<or> b = 0xF0 then HlDefault
      else if b = 0xF1 then HlBlink
      else if b = 0xF2 then HlReverseVideo
      else if b = 0xF4 then HlUnderscore
      else if b = 0xF8 then HlIntensified
      else HlDefault)"

datatype color3270 = CDefault | Blue | Red | Pink | Green | Turquoise | Yellow | White

definition color_from_byte :: "u8 \<Rightarrow> color3270" where
  "color_from_byte b =
     (if b = 0x00 \<or> b = 0xF0 then CDefault
      else if b = 0xF1 then Blue
      else if b = 0xF2 then Red
      else if b = 0xF3 then Pink
      else if b = 0xF4 then Green
      else if b = 0xF5 then Turquoise
      else if b = 0xF6 then Yellow
      else if b = 0xF7 then White
      else CDefault)"

fun color_to_byte :: "color3270 \<Rightarrow> u8" where
  "color_to_byte CDefault = 0x00"
| "color_to_byte Blue = 0xF1"
| "color_to_byte Red = 0xF2"
| "color_to_byte Pink = 0xF3"
| "color_to_byte Green = 0xF4"
| "color_to_byte Turquoise = 0xF5"
| "color_to_byte Yellow = 0xF6"
| "color_to_byte White = 0xF7"

datatype extended_attribute =
    FieldAttr field_attribute
  | Highlight highlighting
  | ForegroundColor color3270
  | BackgroundColor color3270
  | CharacterSet u8
  | UnknownAttr u8 u8

definition from_pair :: "u8 \<Rightarrow> u8 \<Rightarrow> extended_attribute" where
  "from_pair ty v =
     (if ty = 0xC0 then FieldAttr (attr_from_byte v)
      else if ty = 0x41 then Highlight (highlighting_from_byte v)
      else if ty = 0x42 then ForegroundColor (color_from_byte v)
      else if ty = 0x45 then BackgroundColor (color_from_byte v)
      else if ty = 0x43 then CharacterSet v
      else UnknownAttr ty v)"

section \<open>Buffer addresses\<close>

definition decode_buffer_address :: "u8 \<Rightarrow> u8 \<Rightarrow> u16" where
  "decode_buffer_address b1 b2 =
     (if b1 AND 0xC0 = 0 then push_bit 8 (ucast b1 AND 0x3F) OR ucast b2
      else push_bit 6 (ucast b1 AND 0x3F) OR (ucast b2 AND 0x3F))"

definition ADDRESS_TABLE :: "u8 list" where
  "ADDRESS_TABLE =
     [0x40, 0xC1, 0xC2, 0xC3, 0xC4, 0xC5, 0xC6, 0xC7,
      0xC8, 0xC9, 0x4A, 0x4B, 0x4C, 0x4D, 0x4E, 0x4F,
      0x50, 0xD1, 0xD2, 0xD3, 0xD4, 0xD5, 0xD6, 0xD7,
      0xD8, 0xD9, 0x5A, 0x5B, 0x5C, 0x5D, 0x5E, 0x5F,
      0x60, 0x61, 0xE2, 0xE3, 0xE4, 0xE5, 0xE6, 0xE7,
      0xE8, 0xE9, 0x6A, 0x6B, 0x6C, 0x6D, 0x6E, 0x6F,
      0xF0, 0xF1, 0xF2, 0xF3, 0xF4, 0xF5, 0xF6, 0xF7,
      0xF8, 0xF9, 0x7A, 0x7B, 0x7C, 0x7D, 0x7E, 0x7F]"

definition encode_address_byte :: "u8 \<Rightarrow> u8" where
  "encode_address_byte v = ADDRESS_TABLE ! unat (v AND 0x3F)"

definition encode_buffer_address :: "u16 \<Rightarrow> u8 \<times> u8" where
  "encode_buffer_address addr =
     (let high = ucast (drop_bit 6 addr AND 0x3F); low = ucast (addr AND 0x3F)
      in (encode_address_byte high, encode_address_byte low))"

definition encode_buffer_address_14bit :: "u16 \<Rightarrow> u8 \<times> u8" where
  "encode_buffer_address_14bit addr =
     (ucast (drop_bit 8 addr AND 0x3F), ucast (addr AND 0xFF))"

section \<open>Attention identifiers\<close>

datatype aid = AidNone | AidEnter | AidPf u8 | AidPa u8 | AidClear | AidStructuredField

definition PF_AIDS :: "u8 list" where
  "PF_AIDS =
     [0xF1, 0xF2, 0xF3, 0xF4, 0xF5, 0xF6, 0xF7, 0xF8, 0xF9, 0x7A, 0x7B, 0x7C,
      0xC1, 0xC2, 0xC3, 0xC4, 0xC5, 0xC6, 0xC7, 0xC8, 0xC9, 0x4A, 0x4B, 0x4C]"

fun aid_to_byte :: "aid \<Rightarrow> u8" where
  "aid_to_byte AidNone = 0x60"
| "aid_to_byte AidEnter = 0x7D"
| "aid_to_byte AidClear = 0x6D"
| "aid_to_byte (AidPa n) = (if n = 1 then 0x6C else if n = 2 then 0x6E else if n = 3 then 0x6B else 0x6C)"
| "aid_to_byte (AidPf n) = (if 1 \<le> n \<and> n \<le> 24 then PF_AIDS ! unat (n - 1) else PF_AIDS ! 0)"
| "aid_to_byte AidStructuredField = 0x88"

text \<open>The loop over \<open>PF_AIDS\<close>, from index \<open>i\<close> on.\<close>

fun find_pf :: "u8 \<Rightarrow> nat \<Rightarrow> u8 list \<Rightarrow> aid" where
  "find_pf b i [] = AidNone"
| "find_pf b i (a # as) = (if b = a then AidPf (of_nat (i + 1)) else find_pf b (i + 1) as)"

definition aid_from_byte :: "u8 \<Rightarrow> aid" where
  "aid_from_byte b =
     (if b = 0x7D then AidEnter
      else if b = 0x6D then AidClear
      else if b = 0x6C then AidPa 1
      else if b = 0x6E then AidPa 2
      else if b = 0x6B then AidPa 3
      else if b = 0x60 then AidNone
      else if b = 0x88 then AidStructuredField
      else find_pf b 0 PF_AIDS)"

section \<open>Orders and the parser\<close>

datatype order3270 =
    Sba u16
  | Sf field_attribute
  | Sfe "extended_attribute list"
  | Sa extended_attribute
  | Ic
  | Pt
  | Ra u16 u8
  | Eua u16
  | Mf "extended_attribute list"

datatype item3270 = Order order3270 | Character u8

record data_stream =
  command :: write_command
  ds_wcc :: wcc
  orders :: "item3270 list"

definition is_order :: "u8 \<Rightarrow> bool" where
  "is_order b \<longleftrightarrow> b \<in> set [0x11, 0x1D, 0x29, 0x28, 0x13, 0x05, 0x3C, 0x12, 0x2C]"

text \<open>The \<open>count\<close> type-value pairs of SFE and MF.\<close>

fun read_pairs :: "nat \<Rightarrow> bytes \<Rightarrow> extended_attribute list" where
  "read_pairs (Suc n) (ty # v # rest) = from_pair ty v # read_pairs n rest"
| "read_pairs _ _ = []"

text \<open>
  One order: the bytes from its code on give the order and its length, or the error. SFE and MF
  share their operand format.
\<close>

definition read_counted ::
  "(extended_attribute list \<Rightarrow> order3270) \<Rightarrow> nat \<Rightarrow> bytes \<Rightarrow> (order3270 \<times> nat, tn3270_error) result" where
  "read_counted mk pos bs =
     (if length bs \<le> 1 then Err (UnexpectedEnd pos 1)
      else let count = unat (bs ! 1)
           in if count = 0 then Err (InvalidSfeCount pos)
              else if length bs < 2 + count * 2 then Err (UnexpectedEnd pos (count * 2 + 2))
              else Ok (mk (read_pairs count (drop 2 bs)), 2 + count * 2))"

definition read_order :: "nat \<Rightarrow> bytes \<Rightarrow> (order3270 \<times> nat, tn3270_error) result" where
  "read_order pos bs =
     (let b = bs ! 0 in
      if b = 0x11 then
        (if length bs \<le> 2 then Err (UnexpectedEnd pos 2)
         else Ok (Sba (decode_buffer_address (bs ! 1) (bs ! 2)), 3))
      else if b = 0x1D then
        (if length bs \<le> 1 then Err (UnexpectedEnd pos 1)
         else Ok (Sf (attr_from_byte (bs ! 1)), 2))
      else if b = 0x29 then read_counted Sfe pos bs
      else if b = 0x28 then
        (if length bs \<le> 2 then Err (UnexpectedEnd pos 2)
         else Ok (Sa (from_pair (bs ! 1) (bs ! 2)), 3))
      else if b = 0x13 then Ok (Ic, 1)
      else if b = 0x05 then Ok (Pt, 1)
      else if b = 0x3C then
        (if length bs \<le> 3 then Err (UnexpectedEnd pos 3)
         else Ok (Ra (decode_buffer_address (bs ! 1) (bs ! 2)) (bs ! 3), 4))
      else if b = 0x12 then
        (if length bs \<le> 2 then Err (UnexpectedEnd pos 2)
         else Ok (Eua (decode_buffer_address (bs ! 1) (bs ! 2)), 3))
      else if b = 0x2C then read_counted Mf pos bs
      else Err (UnknownOrder b pos))"

lemma read_order_consumes: "read_order pos bs = Ok (ord, k) \<Longrightarrow> 0 < k"
  by (auto simp: read_order_def read_counted_def Let_def split: if_splits)

function parse_items :: "nat \<Rightarrow> bytes \<Rightarrow> (item3270 list, tn3270_error) result" where
  "parse_items pos bs =
     (if bs = [] then Ok []
      else if is_order (bs ! 0) then
        bind_result (read_order pos bs) (\<lambda>(ord, k).
          bind_result (parse_items (pos + k) (drop k bs)) (\<lambda>is. Ok (Order ord # is)))
      else bind_result (parse_items (pos + 1) (drop 1 bs)) (\<lambda>is. Ok (Character (bs ! 0) # is)))"
  by pat_completeness auto
termination
  by (relation "measure (\<lambda>(pos, bs). length bs)") (auto dest: read_order_consumes)

declare parse_items.simps [simp del]

definition parse_data_stream :: "bytes \<Rightarrow> (data_stream, tn3270_error) result" where
  "parse_data_stream dat =
     (if dat = [] then Err EmptyDataStream
      else bind_result (write_command_from_byte (dat ! 0)) (\<lambda>cmd.
        if cmd = WriteStructuredField
        then Ok \<lparr>command = cmd,
                 ds_wcc = \<lparr>reset_mdt = False, restore_keyboard = False, alarm = False\<rparr>,
                 orders = map Character (drop 1 dat)\<rparr>
        else if length dat < 2 then Err (UnexpectedEnd 1 1)
        else bind_result (parse_items 2 (drop 2 dat)) (\<lambda>is.
               Ok \<lparr>command = cmd, ds_wcc = wcc_from_byte (dat ! 1), orders = is\<rparr>)))"

section \<open>Lemmas of the one-byte codecs\<close>

lemma wcc_roundtrip [codec_simps]: "wcc_from_byte (wcc_to_byte w) = w"
  by (cases w) (simp add: wcc_from_byte_def wcc_to_byte_def)

lemma attr_roundtrip [codec_simps]: "attr_from_byte (attr_to_byte a) = a"
  by (cases a; cases "intensity_of a") (auto simp: attr_from_byte_def attr_to_byte_def Let_def)

lemma attr_canonical:
  "attr_to_byte (attr_from_byte b) = (if b AND 0x08 = 0 then b AND 0x31 else b AND 0x3D)"
  by (rule byte_by_cases) code_simp

lemma color_roundtrip [codec_simps]: "color_from_byte (color_to_byte c) = c"
  by (cases c) (simp_all add: color_from_byte_def)

definition aid_valid :: "aid \<Rightarrow> bool" where
  "aid_valid a \<longleftrightarrow> (case a of AidPf n \<Rightarrow> 1 \<le> n \<and> n \<le> 24 | AidPa n \<Rightarrow> 1 \<le> n \<and> n \<le> 3 | _ \<Rightarrow> True)"

lemma aid_byte_range: "aid_valid (aid_from_byte b)"
  by (rule byte_by_cases) code_simp

lemma aid_pf: "1 \<le> n \<Longrightarrow> n \<le> 24 \<Longrightarrow> aid_from_byte (aid_to_byte (AidPf n)) = AidPf n"
proof -
  have "1 \<le> n \<and> n \<le> 24 \<longrightarrow> aid_from_byte (aid_to_byte (AidPf n)) = AidPf n"
    by (rule byte_by_cases) code_simp
  then show "1 \<le> n \<Longrightarrow> n \<le> 24 \<Longrightarrow> aid_from_byte (aid_to_byte (AidPf n)) = AidPf n" by simp
qed

lemma aid_pa: "1 \<le> n \<Longrightarrow> n \<le> 3 \<Longrightarrow> aid_from_byte (aid_to_byte (AidPa n)) = AidPa n"
proof -
  have "1 \<le> n \<and> n \<le> 3 \<longrightarrow> aid_from_byte (aid_to_byte (AidPa n)) = AidPa n"
    by (rule byte_by_cases) code_simp
  then show "1 \<le> n \<Longrightarrow> n \<le> 3 \<Longrightarrow> aid_from_byte (aid_to_byte (AidPa n)) = AidPa n" by simp
qed

lemma aid_roundtrip: "aid_valid a \<Longrightarrow> aid_from_byte (aid_to_byte a) = a"
  using aid_pf aid_pa by (cases a) (auto simp: aid_valid_def aid_from_byte_def)

lemma address_table:
  "list_all (\<lambda>(k, t). t AND 0x3F = word_of_int k \<and> t AND 0xC0 \<noteq> 0) (zip [0..63] ADDRESS_TABLE)"
  by code_simp

lemma address_byte:
  "encode_address_byte v AND 0x3F = v AND 0x3F" "encode_address_byte v AND 0xC0 \<noteq> 0"
proof -
  let ?k = "unat (v AND 0x3F)"
  have "v AND 0x3F \<le> 0x3F" by (rule word_and_le1)
  then have k: "?k < 64" by (simp add: word_le_nat_alt)
  have "length (zip [0..63] ADDRESS_TABLE) = 64" by (simp add: ADDRESS_TABLE_def)
  then have "zip [0..63] ADDRESS_TABLE ! ?k \<in> set (zip [0..63] ADDRESS_TABLE)"
    using k by (intro nth_mem) simp
  moreover have "zip [0..63] ADDRESS_TABLE ! ?k = (int ?k, ADDRESS_TABLE ! ?k)"
  proof -
    have "0 + int ?k \<le> 63" using k by linarith
    from nth_upto [OF this] show ?thesis using k by (simp add: ADDRESS_TABLE_def nth_zip)
  qed
  ultimately show "encode_address_byte v AND 0x3F = v AND 0x3F" "encode_address_byte v AND 0xC0 \<noteq> 0"
    using address_table by (auto simp: list_all_iff encode_address_byte_def)
qed

section \<open>Buffer addresses come back\<close>

lemma masks: "(0x3F :: u16) = mask 6" "(0x3F :: u8) = mask 6" "(0xFF :: u16) = mask 8"
    "(0xFFF :: u16) = mask 12" "(0x3FFF :: u16) = mask 14" "(0xC0 :: u8) = push_bit 6 (mask 2)"
  by (simp_all add: mask_numeral)

lemma ucast_and_u8: "ucast (v :: u8) AND (0x3F :: u16) = ucast (v AND 0x3F)"
  unfolding masks by (rule bit_word_eqI) (auto simp: bit_simps)

lemma decode_encode_12bit: "case encode_buffer_address addr of (b1, b2) \<Rightarrow>
    decode_buffer_address b1 b2 = addr AND 0xFFF"
proof -
  have join: "push_bit 6 (ucast (ucast (drop_bit 6 addr AND 0x3F) AND 0x3F :: u8)) OR
      ucast (ucast (addr AND 0x3F) AND 0x3F :: u8) = addr AND 0xFFF"
    unfolding masks by (rule bit_word_eqI) (auto simp: bit_simps)
  show ?thesis
    by (simp only: encode_buffer_address_def Let_def prod.case decode_buffer_address_def
        address_byte if_False ucast_and_u8 join)
qed

lemma decode_encode_14bit: "case encode_buffer_address_14bit addr of (b1, b2) \<Rightarrow>
    decode_buffer_address b1 b2 = addr AND 0x3FFF"
proof -
  have high: "ucast (drop_bit 8 addr AND 0x3F) AND 0xC0 = (0 :: u8)"
    unfolding masks by (rule bit_word_eqI) (auto simp: bit_simps)
  have join: "push_bit 8 (ucast (ucast (drop_bit 8 addr AND 0x3F) AND 0x3F :: u8)) OR
      ucast (ucast (addr AND 0xFF) :: u8) = addr AND 0x3FFF"
    unfolding masks by (rule bit_word_eqI) (auto simp: bit_simps)
  show ?thesis
    by (simp only: encode_buffer_address_14bit_def prod.case decode_buffer_address_def high
        if_True ucast_and_u8 join simp_thms)
qed

lemma and_mask_id:
  assumes "unat (w :: u16) < 2 ^ n"
  shows "w AND mask n = w"
proof -
  have "unat (take_bit n w) = unat w"
    using assms by (simp only: unsigned_take_bit_eq take_bit_nat_eq_self)
  then show ?thesis by (simp only: take_bit_eq_mask [symmetric] word_unat_eq_iff)
qed

lemma and_mask_less: "addr < 0x1000 \<Longrightarrow> addr AND 0xFFF = (addr :: u16)"
    "addr < 0x4000 \<Longrightarrow> addr AND 0x3FFF = (addr :: u16)"
  unfolding masks by (auto intro!: and_mask_id simp: word_less_nat_alt)

section \<open>The stream a list of items stands for\<close>

text \<open>
  An abstract serialiser, the reference the parser is measured against: operands as the order
  formats prescribe, addresses in 12 bits where they fit and in 14 bits otherwise.
\<close>

fun highlighting_byte :: "highlighting \<Rightarrow> u8" where
  "highlighting_byte HlDefault = 0x00"
| "highlighting_byte HlBlink = 0xF1"
| "highlighting_byte HlReverseVideo = 0xF2"
| "highlighting_byte HlUnderscore = 0xF4"
| "highlighting_byte HlIntensified = 0xF8"

fun ser_pair :: "extended_attribute \<Rightarrow> bytes" where
  "ser_pair (FieldAttr a) = [0xC0, attr_to_byte a]"
| "ser_pair (Highlight h) = [0x41, highlighting_byte h]"
| "ser_pair (ForegroundColor c) = [0x42, color_to_byte c]"
| "ser_pair (BackgroundColor c) = [0x45, color_to_byte c]"
| "ser_pair (CharacterSet v) = [0x43, v]"
| "ser_pair (UnknownAttr ty v) = [ty, v]"

definition ser_addr :: "u16 \<Rightarrow> bytes" where
  "ser_addr a = (case if a < 0x1000 then encode_buffer_address a else encode_buffer_address_14bit a of
                   (b1, b2) \<Rightarrow> [b1, b2])"

definition ser_counted :: "u8 \<Rightarrow> extended_attribute list \<Rightarrow> bytes" where
  "ser_counted code as = [code, of_nat (length as)] @ concat (map ser_pair as)"

fun ser_item :: "item3270 \<Rightarrow> bytes" where
  "ser_item (Character b) = [b]"
| "ser_item (Order (Sba a)) = 0x11 # ser_addr a"
| "ser_item (Order (Sf a)) = [0x1D, attr_to_byte a]"
| "ser_item (Order (Sfe as)) = ser_counted 0x29 as"
| "ser_item (Order (Sa a)) = 0x28 # ser_pair a"
| "ser_item (Order Ic) = [0x13]"
| "ser_item (Order Pt) = [0x05]"
| "ser_item (Order (Ra a c)) = 0x3C # ser_addr a @ [c]"
| "ser_item (Order (Eua a)) = 0x12 # ser_addr a"
| "ser_item (Order (Mf as)) = ser_counted 0x2C as"

definition attr_ok :: "extended_attribute \<Rightarrow> bool" where
  "attr_ok a \<longleftrightarrow> (case a of UnknownAttr ty v \<Rightarrow> ty \<notin> {0xC0, 0x41, 0x42, 0x45, 0x43} | _ \<Rightarrow> True)"

definition attrs_ok :: "extended_attribute list \<Rightarrow> bool" where
  "attrs_ok as \<longleftrightarrow> as \<noteq> [] \<and> length as < 256 \<and> (\<forall>a \<in> set as. attr_ok a)"

fun item_ok :: "item3270 \<Rightarrow> bool" where
  "item_ok (Character b) \<longleftrightarrow> \<not> is_order b"
| "item_ok (Order (Sba a)) \<longleftrightarrow> a < 0x4000"
| "item_ok (Order (Sfe as)) \<longleftrightarrow> attrs_ok as"
| "item_ok (Order (Sa a)) \<longleftrightarrow> attr_ok a"
| "item_ok (Order (Ra a c)) \<longleftrightarrow> a < 0x4000"
| "item_ok (Order (Eua a)) \<longleftrightarrow> a < 0x4000"
| "item_ok (Order (Mf as)) \<longleftrightarrow> attrs_ok as"
| "item_ok _ \<longleftrightarrow> True"

lemma length_ser_pair [simp]: "length (ser_pair a) = 2"
  by (cases a) simp_all

lemma from_ser_pair: "attr_ok a \<Longrightarrow> from_pair (ser_pair a ! 0) (ser_pair a ! Suc 0) = a"
proof (cases a)
  case (Highlight h)
  then show ?thesis by (cases h) (simp_all add: from_pair_def highlighting_from_byte_def)
qed (auto simp: from_pair_def codec_simps attr_ok_def)

lemma length_ser_pairs [simp]: "length (concat (map ser_pair as)) = 2 * length as"
  by (induction as) simp_all

lemma ser_pair_list: "ser_pair a = [ser_pair a ! 0, ser_pair a ! Suc 0]"
  by (cases a) simp_all

lemma read_ser_pairs:
  "\<forall>a \<in> set as. attr_ok a \<Longrightarrow> read_pairs (length as) (concat (map ser_pair as) @ rest) = as"
proof (induction as)
  case (Cons a as)
  then show ?case
    using from_ser_pair [of a] by (simp, subst ser_pair_list, simp)
qed simp

lemma ser_addr_list:
  "a < 0x4000 \<Longrightarrow> ser_addr a = [ser_addr a ! 0, ser_addr a ! Suc 0]"
  "a < 0x4000 \<Longrightarrow> decode_buffer_address (ser_addr a ! 0) (ser_addr a ! Suc 0) = a"
  using decode_encode_12bit [of a] decode_encode_14bit [of a] and_mask_less [of a]
  by (auto simp: ser_addr_def split: prod.splits if_splits)

lemma length_ser_addr [simp]: "length (ser_addr a) = 2"
  by (simp add: ser_addr_def split: prod.splits)

lemma is_order_codes [simp]:
  "is_order 0x11" "is_order 0x1D" "is_order 0x29" "is_order 0x28" "is_order 0x13" "is_order 0x05"
  "is_order 0x3C" "is_order 0x12" "is_order 0x2C"
  by (simp_all add: is_order_def)

lemma read_counted_ser:
  assumes "attrs_ok as"
  shows "read_counted mk pos (ser_counted code as @ rest) = Ok (mk as, 2 + 2 * length as)"
proof -
  have "unat (of_nat (length as) :: u8) = length as"
    using assms by (intro unat_of_nat_small) (simp add: attrs_ok_def)
  then show ?thesis
    using assms read_ser_pairs [of as rest]
    by (simp add: read_counted_def ser_counted_def attrs_ok_def)
qed

lemma read_ser_order:
  assumes "item_ok (Order ord)"
  shows "read_order pos (ser_item (Order ord) @ rest) = Ok (ord, length (ser_item (Order ord)))
    \<and> is_order (hd (ser_item (Order ord))) \<and> ser_item (Order ord) \<noteq> []"
proof (cases ord)
  case (Sba a)
  with assms ser_addr_list [of a] show ?thesis by (simp add: read_order_def nth_append)
next
  case (Eua a)
  with assms ser_addr_list [of a] show ?thesis by (simp add: read_order_def nth_append)
next
  case (Ra a c)
  with assms ser_addr_list [of a] show ?thesis by (simp add: read_order_def nth_append)
next
  case (Sa a)
  with assms from_ser_pair [of a] show ?thesis by (simp add: read_order_def nth_append)
next
  case (Sfe as)
  with assms have "attrs_ok as" by simp
  then show ?thesis unfolding Sfe
    using read_counted_ser [OF \<open>attrs_ok as\<close>, of Sfe pos "0x29" rest]
    by (simp add: read_order_def ser_counted_def)
next
  case (Mf as)
  with assms have "attrs_ok as" by simp
  then show ?thesis unfolding Mf
    using read_counted_ser [OF \<open>attrs_ok as\<close>, of Mf pos "0x2C" rest]
    by (simp add: read_order_def ser_counted_def)
qed (simp_all add: read_order_def codec_simps)

lemma parse_items_order:
  assumes "item_ok (Order ord)"
  shows "parse_items pos (ser_item (Order ord) @ rest) =
    bind_result (parse_items (pos + length (ser_item (Order ord))) rest) (\<lambda>is. Ok (Order ord # is))"
proof -
  note r = read_ser_order [OF assms, of pos rest]
  then have "ser_item (Order ord) @ rest \<noteq> []" "is_order ((ser_item (Order ord) @ rest) ! 0)"
    by (auto simp: nth_append hd_conv_nth)
  with r show ?thesis by (subst parse_items.simps) simp
qed

lemma parse_ser_item:
  assumes "item_ok i"
  shows "parse_items pos (ser_item i @ rest) =
    bind_result (parse_items (pos + length (ser_item i)) rest) (\<lambda>is. Ok (i # is))"
proof (cases i)
  case (Order ord)
  with parse_items_order assms show ?thesis by simp
next
  case (Character b)
  with assms show ?thesis by (simp, subst parse_items.simps) simp
qed

lemma bind_result_assoc: "bind_result (bind_result r f) g = bind_result r (\<lambda>x. bind_result (f x) g)"
  by (cases r) simp_all

lemma parse_ser_items:
  "\<forall>i \<in> set is. item_ok i \<Longrightarrow>
   parse_items pos (concat (map ser_item is) @ rest) =
     bind_result (parse_items (pos + length (concat (map ser_item is))) rest) (\<lambda>js. Ok (is @ js))"
proof (induction "is" arbitrary: pos)
  case Nil
  then show ?case by (cases "parse_items pos rest") simp_all
next
  case (Cons i "is")
  then show ?case
    by (simp add: parse_ser_item bind_result_assoc add.assoc)
qed

lemma parse_items_Nil [simp]: "parse_items pos [] = Ok []"
  by (subst parse_items.simps) simp

lemma parse_items_Err:
  "bs \<noteq> [] \<Longrightarrow> is_order (bs ! 0) \<Longrightarrow> read_order pos bs = Err e \<Longrightarrow> parse_items pos bs = Err e"
  by (subst parse_items.simps) simp

lemma read_truncated:
  assumes ok: "item_ok (Order ord)" and pq: "ser_item (Order ord) = p @ q" and ne: "p \<noteq> []" "q \<noteq> []"
  shows "\<exists>k. read_order pos p = Err (UnexpectedEnd pos k)" "is_order (p ! 0)"
proof -
  have len: "length p < length (ser_item (Order ord))" using pq ne by simp
  have nth: "i < length p \<Longrightarrow> p ! i = ser_item (Order ord) ! i" for i
    unfolding pq by (simp add: nth_append)
  have p0: "p ! 0 = ser_item (Order ord) ! 0" using nth [of 0] ne by simp
  then show "is_order (p ! 0)"
    by (cases ord) (simp_all add: ser_counted_def)
  have counted: "\<exists>k. read_counted mk pos p = Err (UnexpectedEnd pos k)"
    if as: "attrs_ok as" and s: "ser_item (Order ord) = ser_counted code as" for mk code as
  proof (cases "length p \<le> 1")
    case False
    have "unat (of_nat (length as) :: u8) = length as"
      using as by (intro unat_of_nat_small) (simp add: attrs_ok_def)
    moreover have "p ! 1 = of_nat (length as)" using nth [of 1] False s by (simp add: ser_counted_def)
    moreover have "length p < 2 + 2 * length as" using len s by (simp add: ser_counted_def)
    ultimately show ?thesis using False as by (simp add: read_counted_def attrs_ok_def)
  qed (simp add: read_counted_def)
  show "\<exists>k. read_order pos p = Err (UnexpectedEnd pos k)"
  proof (cases ord)
    case (Sfe as)
    with ok have "attrs_ok as" by simp
    from counted [OF this, where code = "0x29" and mk = Sfe] Sfe p0 show ?thesis
      by (simp add: read_order_def ser_counted_def)
  next
    case (Mf as)
    with ok have "attrs_ok as" by simp
    from counted [OF this, where code = "0x2C" and mk = Mf] Mf p0 show ?thesis
      by (simp add: read_order_def ser_counted_def)
  qed (use len p0 ne in \<open>auto simp: read_order_def\<close>)
qed

section \<open>Properties\<close>

text \<open>
  The one-byte codecs lose nothing: write control characters, field attributes,
  colours and valid AIDs survive encoding and decoding, re-encoding a decoded field attribute clears
  the reserved bits (and the pen-detectable variant of normal intensity), and every byte the host
  or the terminal may send decodes to a valid AID.
\<close>

lemma byte_codecs_roundtrip:
  "wcc_from_byte (wcc_to_byte w) = w \<and> attr_from_byte (attr_to_byte a) = a
   \<and> attr_to_byte (attr_from_byte b) = (if b AND 0x08 = 0 then b AND 0x31 else b AND 0x3D)
   \<and> color_from_byte (color_to_byte c) = c
   \<and> (aid_valid k \<longrightarrow> aid_from_byte (aid_to_byte k) = k) \<and> aid_valid (aid_from_byte b)"
  using wcc_roundtrip attr_roundtrip attr_canonical color_roundtrip aid_roundtrip aid_byte_range
  by blast

text \<open>
  Both address encodings decode to the address, reduced to 12 and to 14 bits: an
  address below 4096 (16384) is exact, a larger one is silently truncated. The decoder takes the
  14-bit form exactly when the top two bits of the first byte are clear, although the comment on
  it first says both set.
\<close>

lemma address_roundtrip:
  "(case encode_buffer_address addr of (b1, b2) \<Rightarrow> decode_buffer_address b1 b2) = addr AND 0xFFF
   \<and> (case encode_buffer_address_14bit addr of (b1, b2) \<Rightarrow> decode_buffer_address b1 b2) = addr AND 0x3FFF
   \<and> (addr < 0x1000 \<longrightarrow> addr AND 0xFFF = addr) \<and> (addr < 0x4000 \<longrightarrow> addr AND 0x3FFF = addr)
   \<and> decode_buffer_address 0xC1 0xC1 = 65"
  using decode_encode_12bit [of addr] decode_encode_14bit [of addr] and_mask_less [of addr]
  by (simp add: case_prod_beta decode_buffer_address_def)

text \<open>
  C29 (roundtrip). The parser reads back every well-formed stream: a command byte (standard or SNA)
  other than write structured field, a WCC and the serialised items give exactly these items.
\<close>

theorem parse_serialised:
  assumes "write_command_from_byte c = Ok cmd" and "cmd \<noteq> WriteStructuredField"
    and "\<forall>i \<in> set is. item_ok i"
  shows "parse_data_stream (c # wcc_to_byte w # concat (map ser_item is)) =
           Ok \<lparr>command = cmd, ds_wcc = w, orders = is\<rparr>"
  using assms parse_ser_items [OF assms(3), of 2 "[]"]
  by (simp add: parse_data_stream_def codec_simps numeral_2_eq_2)

theorem parse_serialised_witness:
  "parse_data_stream (0xF5 # wcc_to_byte \<lparr>reset_mdt = False, restore_keyboard = True, alarm = False\<rparr> #
      concat (map ser_item [Order (Sba 80), Order (Sfe [Highlight HlBlink]), Character 0xC1])) =
     Ok \<lparr>command = EraseWrite,
         ds_wcc = \<lparr>reset_mdt = False, restore_keyboard = True, alarm = False\<rparr>,
         orders = [Order (Sba 80), Order (Sfe [Highlight HlBlink]), Character 0xC1]\<rparr>"
  by (rule parse_serialised)
    (simp_all add: write_command_from_byte_def attrs_ok_def attr_ok_def is_order_def)

text \<open>
  A stream cut inside the operands of an order is refused with the offset of that order,
  whatever well-formed items come before: no partial order is ever delivered.
\<close>

lemma truncated_stream_refused:
  assumes "write_command_from_byte c = Ok cmd" and "cmd \<noteq> WriteStructuredField"
    and "\<forall>i \<in> set is. item_ok i" and "item_ok (Order ord)"
    and "ser_item (Order ord) = p @ q" "p \<noteq> []" "q \<noteq> []"
  shows "\<exists>k. parse_data_stream (c # wc # concat (map ser_item is) @ p) =
           Err (UnexpectedEnd (2 + length (concat (map ser_item is))) k)"
proof -
  let ?pos = "2 + length (concat (map ser_item is))"
  from read_truncated(1) [OF assms(4-7), of ?pos] obtain k
    where k: "read_order ?pos p = Err (UnexpectedEnd ?pos k)" by blast
  note o = read_truncated(2) [OF assms(4-7)]
  have "parse_items ?pos p = Err (UnexpectedEnd ?pos k)"
    using assms(6) o k by (rule parse_items_Err)
  then have "parse_items 2 (concat (map ser_item is) @ p) = Err (UnexpectedEnd ?pos k)"
    using parse_ser_items [OF assms(3), of 2 p] by simp
  then show ?thesis using assms(1,2)
    by (auto simp: parse_data_stream_def numeral_2_eq_2)
qed

end
