(* ===== verification/Tn3270_Screen.thy ===== *)
theory Tn3270_Screen
  imports Tn3270_Datastream Ebcdic "HOL-Library.Monad_Syntax"
begin

text \<open>
  The 3270 screen buffer, \<open>guacr-tn3270/src/screen.rs\<close>: cells, fields, the application of a parsed
  data stream, the operator's keys and the read-modified response. Positions are \<open>u16\<close> values held
  as natural numbers, with the reduction written out where the source's arithmetic can wrap. Every
  operation returns an option: \<open>None\<close> is a panic (an index out of range, a remainder by zero) or a
  loop that does not end.
\<close>

section \<open>Cells, fields and the screen\<close>

datatype highlight3270 = HNormal | HBlink | HReverseVideo | HUnderscore | HIntensified

fun highlight_from :: "highlighting \<Rightarrow> highlight3270" where
  "highlight_from HlDefault = HNormal"
| "highlight_from HlBlink = HBlink"
| "highlight_from HlReverseVideo = HReverseVideo"
| "highlight_from HlUnderscore = HUnderscore"
| "highlight_from HlIntensified = HIntensified"

record cell_attribute =
  foreground :: color3270
  background :: color3270
  highlight :: highlight3270
  cell_field :: "field_attribute option"

definition default_cell_attribute :: cell_attribute where
  "default_cell_attribute =
     \<lparr>foreground = CDefault, background = CDefault, highlight = HNormal, cell_field = None\<rparr>"

record cell =
  character :: uchar
  attribute :: cell_attribute

definition default_cell :: cell where
  "default_cell = \<lparr>character = 32, attribute = default_cell_attribute\<rparr>"

record field =
  fld_start :: nat
  fld_end :: nat
  fld_attribute :: field_attribute
  fld_modified :: bool

record screen =
  rows :: nat
  cols :: nat
  buffer :: "cell list"
  cursor_position :: nat
  code_page_of :: code_page
  current_fg :: color3270
  current_bg :: color3270
  current_highlight :: highlight3270

definition new_screen :: "nat \<Rightarrow> nat \<Rightarrow> screen" where
  "new_screen r c =
     \<lparr>rows = r, cols = c, buffer = replicate (r * c) default_cell, cursor_position = 0,
      code_page_of = Cp037, current_fg = CDefault, current_bg = CDefault,
      current_highlight = HNormal\<rparr>"

definition with_code_page :: "nat \<Rightarrow> nat \<Rightarrow> code_page \<Rightarrow> screen" where
  "with_code_page r c cp = (new_screen r c)\<lparr>code_page_of := cp\<rparr>"

text \<open>\<open>self.rows * self.cols\<close> is a product of \<open>u16\<close> values.\<close>

definition size3270 :: "screen \<Rightarrow> nat" where
  "size3270 s = rows s * cols s mod 2 ^ 16"

text \<open>Indexing, the remainder and the cell update that the operations are made of.\<close>

definition cell_at :: "screen \<Rightarrow> nat \<Rightarrow> cell option" where
  "cell_at s pos = (if pos < length (buffer s) then Some (buffer s ! pos) else None)"

definition rem_opt :: "nat \<Rightarrow> nat \<Rightarrow> nat option" where
  "rem_opt a b = (if b = 0 then None else Some (a mod b))"

definition set_cell :: "(cell \<Rightarrow> cell) \<Rightarrow> nat \<Rightarrow> screen \<Rightarrow> screen option" where
  "set_cell f pos s =
     (if pos < length (buffer s) then Some (s\<lparr>buffer := (buffer s)[pos := f (buffer s ! pos)]\<rparr>)
      else None)"

definition cursor_row_col :: "screen \<Rightarrow> (nat \<times> nat) option" where
  "cursor_row_col s =
     (if cols s = 0 then None else Some (cursor_position s div cols s, cursor_position s mod cols s))"

text \<open>The outer option is a panic, the inner one the method's own \<open>None\<close>.\<close>

definition get_cell :: "screen \<Rightarrow> nat \<Rightarrow> nat \<Rightarrow> cell option option" where
  "get_cell s row col =
     (if row < rows s \<and> col < cols s
      then map_option Some (cell_at s (row * cols s + col))
      else Some None)"

definition get_cell_at :: "screen \<Rightarrow> nat \<Rightarrow> cell option" where
  "get_cell_at s pos = rem_opt pos (length (buffer s)) \<bind> cell_at s"

section \<open>Writing\<close>

definition reset_sa_state :: "screen \<Rightarrow> screen" where
  "reset_sa_state s = s\<lparr>current_fg := CDefault, current_bg := CDefault, current_highlight := HNormal\<rparr>"

definition clear_screen :: "screen \<Rightarrow> screen" where
  "clear_screen s =
     reset_sa_state (s\<lparr>buffer := map (\<lambda>_. default_cell) (buffer s), cursor_position := 0\<rparr>)"

definition advance :: "screen \<Rightarrow> screen option" where
  "advance s = do {
     p \<leftarrow> rem_opt ((cursor_position s + 1) mod 2 ^ 16) (size3270 s);
     Some (s\<lparr>cursor_position := p\<rparr>)
   }"

definition paint :: "screen \<Rightarrow> u8 \<Rightarrow> cell \<Rightarrow> cell" where
  "paint s byte c =
     c\<lparr>character := ebcdic_to_unicode byte (code_page_of s),
       attribute := (attribute c)\<lparr>foreground := current_fg s, background := current_bg s,
                                 highlight := current_highlight s\<rparr>\<rparr>"

definition write_char :: "u8 \<Rightarrow> screen \<Rightarrow> screen option" where
  "write_char byte s = set_cell (paint s byte) (cursor_position s) s \<bind> advance"

definition reset_mdt_cell :: "cell \<Rightarrow> cell" where
  "reset_mdt_cell c =
     c\<lparr>attribute := (attribute c)\<lparr>cell_field :=
        map_option (\<lambda>fa. fa\<lparr>modified := False\<rparr>) (cell_field (attribute c))\<rparr>\<rparr>"

definition apply_wcc :: "wcc \<Rightarrow> screen \<Rightarrow> screen" where
  "apply_wcc w s =
     (if reset_mdt w then s\<lparr>buffer := map reset_mdt_cell (buffer s)\<rparr> else s)"

section \<open>Fields\<close>

text \<open>One step back in the circular buffer, \<open>if check == 0 { size - 1 } else { check - 1 }\<close>.\<close>

definition step_back :: "nat \<Rightarrow> nat \<Rightarrow> nat" where
  "step_back n p = (if p = 0 then n - 1 else p - 1)"

fun protected_scan :: "nat \<Rightarrow> screen \<Rightarrow> nat \<Rightarrow> bool option" where
  "protected_scan 0 s check = Some False"
| "protected_scan (Suc n) s check = do {
     c \<leftarrow> cell_at s check;
     case cell_field (attribute c) of
       Some fa \<Rightarrow> Some (protected fa)
     | None \<Rightarrow> protected_scan n s (step_back (size3270 s) check)
   }"

definition is_protected :: "screen \<Rightarrow> nat \<Rightarrow> bool option" where
  "is_protected s pos = protected_scan (size3270 s) s pos"

fun collect_fields :: "screen \<Rightarrow> nat list \<Rightarrow> (nat \<times> field_attribute) list option" where
  "collect_fields s [] = Some []"
| "collect_fields s (i # is) = do {
     c \<leftarrow> cell_at s i;
     r \<leftarrow> collect_fields s is;
     Some (case cell_field (attribute c) of Some fa \<Rightarrow> (i, fa) # r | None \<Rightarrow> r)
   }"

definition make_field :: "nat \<Rightarrow> (nat \<times> field_attribute) list \<Rightarrow> nat \<Rightarrow> field" where
  "make_field n fas idx =
     (case fas ! idx of (start, attr) \<Rightarrow>
        (let next_start = fst (fas ! ((idx + 1) mod length fas))
         in \<lparr>fld_start = start, fld_end = (if next_start = 0 then n - 1 else next_start - 1),
             fld_attribute = attr, fld_modified = modified attr\<rparr>))"

definition get_fields :: "screen \<Rightarrow> field list option" where
  "get_fields s = do {
     fas \<leftarrow> collect_fields s [0..<size3270 s];
     Some (map (make_field (size3270 s) fas) [0..<length fas])
   }"

definition in_field :: "nat \<Rightarrow> field \<Rightarrow> bool" where
  "in_field pos f \<longleftrightarrow>
     (if fld_start f \<le> fld_end f then fld_start f \<le> pos \<and> pos \<le> fld_end f
      else fld_start f \<le> pos \<or> pos \<le> fld_end f)"

definition get_field_at :: "screen \<Rightarrow> nat \<Rightarrow> field option option" where
  "get_field_at s pos = do { fs \<leftarrow> get_fields s; Some (find (in_field pos) fs) }"

text \<open>The bounded scans of the tab keys; \<open>None\<close> of the inner option: no field was found.\<close>

fun tab_scan :: "nat \<Rightarrow> screen \<Rightarrow> nat \<Rightarrow> nat option option" where
  "tab_scan 0 s pos = Some None"
| "tab_scan (Suc n) s pos = do {
     c \<leftarrow> cell_at s pos;
     nxt \<leftarrow> rem_opt ((pos + 1) mod 2 ^ 16) (size3270 s);
     case cell_field (attribute c) of
       Some fa \<Rightarrow> if \<not> protected fa then Some (Some nxt) else tab_scan n s nxt
     | None \<Rightarrow> tab_scan n s nxt
   }"

definition tab_forward :: "screen \<Rightarrow> screen option" where
  "tab_forward s = do {
     p \<leftarrow> rem_opt ((cursor_position s + 1) mod 2 ^ 16) (size3270 s);
     r \<leftarrow> tab_scan (size3270 s) s p;
     Some (case r of Some q \<Rightarrow> s\<lparr>cursor_position := q\<rparr> | None \<Rightarrow> s)
   }"

fun back_scan :: "nat \<Rightarrow> screen \<Rightarrow> nat \<Rightarrow> nat option option" where
  "back_scan 0 s pos = Some None"
| "back_scan (Suc n) s pos = do {
     c \<leftarrow> cell_at s pos;
     case cell_field (attribute c) of
       Some fa \<Rightarrow>
         if \<not> protected fa then do {
           data_start \<leftarrow> rem_opt ((pos + 1) mod 2 ^ 16) (size3270 s);
           if data_start = cursor_position s then back_scan n s (step_back (size3270 s) pos)
           else Some (Some data_start)
         } else back_scan n s (step_back (size3270 s) pos)
     | None \<Rightarrow> back_scan n s (step_back (size3270 s) pos)
   }"

text \<open>\<open>size - 1\<close> of an empty screen wraps; the scan is then empty, so the value is not used.\<close>

definition tab_backward :: "screen \<Rightarrow> screen option" where
  "tab_backward s = do {
     r \<leftarrow> back_scan (size3270 s) s (step_back (size3270 s) (cursor_position s));
     Some (case r of Some q \<Rightarrow> s\<lparr>cursor_position := q\<rparr> | None \<Rightarrow> s)
   }"

section \<open>Orders\<close>

definition start_field_cell :: "field_attribute \<Rightarrow> cell \<Rightarrow> cell" where
  "start_field_cell fa c =
     c\<lparr>character := 32,
       attribute := (attribute c)\<lparr>cell_field := Some fa, foreground := CDefault,
                                 background := CDefault, highlight := HNormal\<rparr>\<rparr>"

text \<open>The extended attributes of SFE: the field attribute is collected, the rest goes to the cell.\<close>

fun sfe_attr :: "extended_attribute \<Rightarrow> cell_attribute \<times> field_attribute \<Rightarrow> cell_attribute \<times> field_attribute" where
  "sfe_attr (FieldAttr a) (ca, fa) = (ca, a)"
| "sfe_attr (ForegroundColor c) (ca, fa) = (ca\<lparr>foreground := c\<rparr>, fa)"
| "sfe_attr (BackgroundColor c) (ca, fa) = (ca\<lparr>background := c\<rparr>, fa)"
| "sfe_attr (Highlight h) (ca, fa) = (ca\<lparr>highlight := highlight_from h\<rparr>, fa)"
| "sfe_attr _ (ca, fa) = (ca, fa)"

definition sfe_cell :: "extended_attribute list \<Rightarrow> cell \<Rightarrow> cell" where
  "sfe_cell eas c =
     (let fa0 = \<lparr>protected = False, numeric = False, intensity_of = Normal, modified = False\<rparr>
      in case fold sfe_attr eas (attribute c, fa0) of
           (ca, fa) \<Rightarrow> c\<lparr>character := 32, attribute := ca\<lparr>cell_field := Some fa\<rparr>\<rparr>)"

fun sa_attr :: "extended_attribute \<Rightarrow> screen \<Rightarrow> screen" where
  "sa_attr (ForegroundColor c) s = s\<lparr>current_fg := c\<rparr>"
| "sa_attr (BackgroundColor c) s = s\<lparr>current_bg := c\<rparr>"
| "sa_attr (Highlight h) s = s\<lparr>current_highlight := highlight_from h\<rparr>"
| "sa_attr _ s = s"

fun mf_attr :: "extended_attribute \<Rightarrow> cell_attribute \<Rightarrow> cell_attribute" where
  "mf_attr (FieldAttr a) ca = ca\<lparr>cell_field := Some a\<rparr>"
| "mf_attr (ForegroundColor c) ca = ca\<lparr>foreground := c\<rparr>"
| "mf_attr (BackgroundColor c) ca = ca\<lparr>background := c\<rparr>"
| "mf_attr (Highlight h) ca = ca\<lparr>highlight := highlight_from h\<rparr>"
| "mf_attr _ ca = ca"

definition mf_cell :: "extended_attribute list \<Rightarrow> cell \<Rightarrow> cell" where
  "mf_cell eas c = c\<lparr>attribute := fold mf_attr eas (attribute c)\<rparr>"

text \<open>
  The two loops run until the cursor meets the target, so nothing bounds them in advance: an endless
  loop is \<open>None\<close>.
\<close>

partial_function (option) repeat_to :: "nat \<Rightarrow> u8 \<Rightarrow> screen \<Rightarrow> screen option" where
  "repeat_to target ch s =
     (if cursor_position s = target then Some s
      else Option.bind (write_char ch s) (\<lambda>s'. repeat_to target ch s'))"

definition blank_char :: "cell \<Rightarrow> cell" where
  "blank_char c = c\<lparr>character := 32\<rparr>"

definition erase_step :: "screen \<Rightarrow> screen option" where
  "erase_step s = do {
     p \<leftarrow> is_protected s (cursor_position s);
     s' \<leftarrow> (if \<not> p then set_cell blank_char (cursor_position s) s else Some s);
     advance s'
   }"

partial_function (option) erase_to :: "nat \<Rightarrow> screen \<Rightarrow> screen option" where
  "erase_to target s =
     (if cursor_position s = target then Some s
      else Option.bind (erase_step s) (\<lambda>s'. erase_to target s'))"

fun apply_order :: "order3270 \<Rightarrow> screen \<Rightarrow> screen option" where
  "apply_order (Sba addr) s = do {
     p \<leftarrow> rem_opt (unat addr) (size3270 s);
     Some (s\<lparr>cursor_position := p\<rparr>)
   }"
| "apply_order (Sf attr) s = set_cell (start_field_cell attr) (cursor_position s) s \<bind> advance"
| "apply_order (Sfe eas) s = set_cell (sfe_cell eas) (cursor_position s) s \<bind> advance"
| "apply_order (Sa ea) s = Some (sa_attr ea s)"
| "apply_order Ic s = Some s"
| "apply_order Pt s = tab_forward s"
| "apply_order (Ra addr ch) s = rem_opt (unat addr) (size3270 s) \<bind> (\<lambda>target. repeat_to target ch s)"
| "apply_order (Eua addr) s = rem_opt (unat addr) (size3270 s) \<bind> (\<lambda>target. erase_to target s)"
| "apply_order (Mf eas) s =
     (if \<exists>ea \<in> set eas. (case ea of CharacterSet _ \<Rightarrow> False | UnknownAttr _ _ \<Rightarrow> False | _ \<Rightarrow> True)
      then set_cell (mf_cell eas) (cursor_position s) s else Some s)"

text \<open>MF indexes the buffer only for the attributes it stores.\<close>

fun apply_item :: "item3270 \<Rightarrow> screen \<Rightarrow> screen option" where
  "apply_item (Order ord) s = apply_order ord s"
| "apply_item (Character byte) s = write_char byte s"

fun apply_items :: "item3270 list \<Rightarrow> screen \<Rightarrow> screen option" where
  "apply_items [] s = Some s"
| "apply_items (i # is) s = Option.bind (apply_item i s) (apply_items is)"

definition apply_data_stream :: "data_stream \<Rightarrow> screen \<Rightarrow> screen option" where
  "apply_data_stream ds s =
     (let s1 = (if command ds = EraseWrite \<or> command ds = EraseWriteAlternate
                then clear_screen s else s);
          s2 = apply_wcc (ds_wcc ds) s1
      in apply_items (orders ds) (reset_sa_state s2))"

section \<open>The operator's side\<close>

definition set_modified_cell :: "cell \<Rightarrow> cell" where
  "set_modified_cell c =
     c\<lparr>attribute := (attribute c)\<lparr>cell_field :=
        map_option (\<lambda>fa. fa\<lparr>modified := True\<rparr>) (cell_field (attribute c))\<rparr>\<rparr>"

definition set_field_modified :: "nat \<Rightarrow> screen \<Rightarrow> screen option" where
  "set_field_modified pos s = set_cell set_modified_cell pos s"

fun mark_scan :: "nat \<Rightarrow> nat \<Rightarrow> screen \<Rightarrow> screen option" where
  "mark_scan 0 check s = Some s"
| "mark_scan (Suc n) check s = do {
     c \<leftarrow> cell_at s check;
     if cell_field (attribute c) \<noteq> None then set_field_modified check s
     else mark_scan n (step_back (size3270 s) check) s
   }"

definition input_char :: "uchar \<Rightarrow> screen \<Rightarrow> (bool \<times> screen) option" where
  "input_char ch s = do {
     p \<leftarrow> is_protected s (cursor_position s);
     if p then Some (False, s)
     else do {
       s1 \<leftarrow> mark_scan (size3270 s) (cursor_position s) s;
       s2 \<leftarrow> set_cell (\<lambda>c. c\<lparr>character := ch\<rparr>) (cursor_position s1) s1;
       s3 \<leftarrow> advance s2;
       Some (True, s3)
     }
   }"

definition ebcdic_of_cell :: "screen \<Rightarrow> cell \<Rightarrow> u8" where
  "ebcdic_of_cell s c =
     (case unicode_to_ebcdic (character c) (code_page_of s) of Some b \<Rightarrow> b | None \<Rightarrow> EBCDIC_SPACE)"

text \<open>The data loop of a modified field; it too stops only at a condition on its position.\<close>

partial_function (option) field_data :: "screen \<Rightarrow> nat \<Rightarrow> nat \<Rightarrow> bytes option" where
  "field_data s data_start pos =
     Option.bind (cell_at s pos) (\<lambda>c.
       if pos \<noteq> data_start \<and> cell_field (attribute c) \<noteq> None then Some []
       else Option.bind (rem_opt (pos + 1) (size3270 s)) (\<lambda>pos'.
         if pos' = data_start then Some [ebcdic_of_cell s c]
         else Option.bind (field_data s data_start pos') (\<lambda>r. Some (ebcdic_of_cell s c # r))))"

definition address_bytes :: "nat \<Rightarrow> bytes" where
  "address_bytes addr = (case encode_buffer_address (of_nat addr) of (b1, b2) \<Rightarrow> [b1, b2])"

fun fields_data :: "screen \<Rightarrow> field list \<Rightarrow> bytes option" where
  "fields_data s [] = Some []"
| "fields_data s (f # fs) =
     (if protected (fld_attribute f) \<or> \<not> fld_modified f then fields_data s fs
      else do {
        data_start \<leftarrow> rem_opt (fld_start f + 1) (size3270 s);
        d \<leftarrow> field_data s data_start data_start;
        r \<leftarrow> fields_data s fs;
        Some ([0x11] @ address_bytes data_start @ d @ r)
      })"

definition read_modified_fields :: "aid \<Rightarrow> screen \<Rightarrow> bytes option" where
  "read_modified_fields a s =
     (let head = [aid_to_byte a] @ address_bytes (cursor_position s)
      in case a of
           AidPa _ \<Rightarrow> Some head
         | AidClear \<Rightarrow> Some head
         | _ \<Rightarrow> do { fs \<leftarrow> get_fields s; d \<leftarrow> fields_data s fs; Some (head @ d) })"

definition get_row_text :: "nat \<Rightarrow> screen \<Rightarrow> uchar list option" where
  "get_row_text row s =
     (if rows s \<le> row then Some []
      else let start = row * cols s; stop = start + cols s
           in if stop > length (buffer s) then None
              else Some (map (\<lambda>c. if cell_field (attribute c) \<noteq> None then 32 else character c)
                             (take (cols s) (drop start (buffer s)))))"

fun join_lines :: "uchar list list \<Rightarrow> uchar list" where
  "join_lines [] = []"
| "join_lines [l] = l"
| "join_lines (l # ls) = l @ [10] @ join_lines ls"

definition get_screen_text :: "screen \<Rightarrow> uchar list option" where
  "get_screen_text s = map_option join_lines (those (map (\<lambda>r. get_row_text r s) [0..<rows s]))"

section \<open>Well-formed screens\<close>

definition screen_wf :: "screen \<Rightarrow> bool" where
  "screen_wf s \<longleftrightarrow> buffer s \<noteq> [] \<and> length (buffer s) < 2 ^ 16
     \<and> rows s * cols s = length (buffer s) \<and> cursor_position s < length (buffer s)"

definition same_shape :: "screen \<Rightarrow> screen \<Rightarrow> bool" where
  "same_shape s t \<longleftrightarrow> rows t = rows s \<and> cols t = cols s \<and> length (buffer t) = length (buffer s)
     \<and> code_page_of t = code_page_of s"

lemma new_screen_wf: "0 < r * c \<Longrightarrow> r * c < 2 ^ 16 \<Longrightarrow> screen_wf (new_screen r c)"
  by (simp add: screen_wf_def new_screen_def)

lemma same_shape_refl [simp]: "same_shape s s"
  by (simp add: same_shape_def)

lemma same_shape_trans: "same_shape s t \<Longrightarrow> same_shape t u \<Longrightarrow> same_shape s u"
  by (simp add: same_shape_def)

lemma wf_size [simp]: "screen_wf s \<Longrightarrow> size3270 s = length (buffer s)"
  by (simp add: screen_wf_def size3270_def)

lemma wf_cursor: "screen_wf s \<Longrightarrow> cursor_position s < length (buffer s)"
  by (simp add: screen_wf_def)

lemma wf_cursor_at: "screen_wf s \<Longrightarrow> p < length (buffer s) \<Longrightarrow> screen_wf (s\<lparr>cursor_position := p\<rparr>)"
  by (simp add: screen_wf_def)

lemma wf_buffer: "screen_wf s \<Longrightarrow> length b = length (buffer s) \<Longrightarrow> screen_wf (s\<lparr>buffer := b\<rparr>)"
  by (auto simp: screen_wf_def)

lemma succ_no_wrap:
  "screen_wf s \<Longrightarrow> p < length (buffer s) \<Longrightarrow> (p + 1) mod 2 ^ 16 = Suc p"
  by (simp add: screen_wf_def)

lemma cell_at_wf [simp]: "p < length (buffer s) \<Longrightarrow> cell_at s p = Some (buffer s ! p)"
  by (simp add: cell_at_def)

lemma advance_wf:
  assumes "screen_wf s"
  shows "advance s = Some (s\<lparr>cursor_position := Suc (cursor_position s) mod length (buffer s)\<rparr>)"
proof -
  have "length (buffer s) \<noteq> 0" using assms by (simp add: screen_wf_def)
  then show ?thesis
    using succ_no_wrap [OF assms wf_cursor [OF assms]] assms
    by (simp add: advance_def rem_opt_def)
qed

lemma wf_next: "screen_wf s \<Longrightarrow> Suc p mod length (buffer s) < length (buffer s)"
  by (simp add: screen_wf_def)

lemma rem_next:
  assumes "screen_wf s" "p < length (buffer s)"
  shows "rem_opt ((p + 1) mod 2 ^ 16) (size3270 s) = Some (Suc p mod length (buffer s))"
proof -
  have "length (buffer s) \<noteq> 0" using assms(2) by linarith
  then show ?thesis
    using succ_no_wrap [OF assms] assms(1) by (simp only: rem_opt_def wf_size if_False)
qed

text \<open>Storing at the cursor and moving on: what SF, SFE and every character do.\<close>

lemma set_advance:
  assumes "screen_wf s"
  shows "set_cell f (cursor_position s) s \<bind> advance =
    Some (s\<lparr>buffer := (buffer s)[cursor_position s := f (buffer s ! cursor_position s)],
            cursor_position := Suc (cursor_position s) mod length (buffer s)\<rparr>)"
proof -
  let ?t = "s\<lparr>buffer := (buffer s)[cursor_position s := f (buffer s ! cursor_position s)]\<rparr>"
  have "screen_wf ?t" using assms by (simp add: wf_buffer)
  from advance_wf [OF this] show ?thesis
    using wf_cursor [OF assms] by (simp add: set_cell_def)
qed

lemma wf_stored:
  "screen_wf s \<Longrightarrow> length b = length (buffer s) \<Longrightarrow> p < length (buffer s) \<Longrightarrow>
     screen_wf (s\<lparr>buffer := b, cursor_position := p\<rparr>)"
  by (auto simp: screen_wf_def)

section \<open>Repeat to address\<close>

text \<open>The cells that a walk from the cursor to \<open>target\<close> passes, changed by \<open>f\<close>.\<close>

definition fill_range :: "(nat \<Rightarrow> cell \<Rightarrow> cell) \<Rightarrow> nat \<Rightarrow> screen \<Rightarrow> screen" where
  "fill_range f target s =
     (let n = length (buffer s)
      in s\<lparr>buffer := map (\<lambda>p. if cyc_dist n (cursor_position s) p < cyc_dist n (cursor_position s) target
                              then f p (buffer s ! p) else buffer s ! p) [0..<n],
           cursor_position := target\<rparr>)"

lemma fill_range_here:
  "cursor_position s = target \<Longrightarrow> fill_range f target s = s"
  by (cases s) (simp add: fill_range_def Let_def map_nth)

lemma fill_range_step:
  assumes "screen_wf s" and t: "target < length (buffer s)" "cursor_position s \<noteq> target"
  shows "fill_range f target (s\<lparr>
      buffer := (buffer s)[cursor_position s := f (cursor_position s) (buffer s ! cursor_position s)],
      cursor_position := Suc (cursor_position s) mod length (buffer s)\<rparr>) = fill_range f target s"
    (is "fill_range f target ?s1 = _")
proof -
  let ?n = "length (buffer s)" and ?c = "cursor_position s"
  have c: "?c < ?n" using assms(1) by (rule wf_cursor)
  have k: "0 < cyc_dist ?n ?c target" using cyc_dist_eq_0 [OF c t(1)] t(2) by simp
  have kn: "cyc_dist ?n ?c target < ?n" using c t(1) by (rule cyc_dist_less)
  have "(if cyc_dist ?n (Suc ?c mod ?n) p < cyc_dist ?n (Suc ?c mod ?n) target
        then f p ((buffer s)[?c := f ?c (buffer s ! ?c)] ! p) else (buffer s)[?c := f ?c (buffer s ! ?c)] ! p)
      = (if cyc_dist ?n ?c p < cyc_dist ?n ?c target then f p (buffer s ! p) else buffer s ! p)"
    if p: "p < ?n" for p
  proof (cases "p = ?c")
    case True
    then show ?thesis using c t k kn by (simp add: cyc_dist_next)
  next
    case False
    then have "0 < cyc_dist ?n ?c p" using cyc_dist_eq_0 [OF c p] by simp
    then have "cyc_dist ?n ?c p - 1 < cyc_dist ?n ?c target - 1 \<longleftrightarrow>
        cyc_dist ?n ?c p < cyc_dist ?n ?c target" using k by linarith
    then show ?thesis using False c t p by (simp add: cyc_dist_next)
  qed
  then show ?thesis by (simp add: fill_range_def Let_def cong: if_cong map_cong)
qed

lemma fill_range_wf:
  "screen_wf s \<Longrightarrow> target < length (buffer s) \<Longrightarrow> screen_wf (fill_range f target s)"
  "same_shape s (fill_range f target s)"
  by (simp_all add: fill_range_def Let_def wf_stored same_shape_def)

text \<open>
  A loop that stores with \<open>f\<close> at the cursor, moves on and stops at the target does end: each round
  is one step of the distance.
\<close>

lemma fill_loop:
  assumes loop: "\<And>s. loop s = (if cursor_position s = target then Some s
                                else Option.bind (body s) loop)"
    and body: "\<And>s. screen_wf s \<Longrightarrow> ok s \<Longrightarrow> body s =
      Some (s\<lparr>buffer := (buffer s)[cursor_position s := f (cursor_position s) (buffer s ! cursor_position s)],
              cursor_position := Suc (cursor_position s) mod length (buffer s)\<rparr>)"
    and keep: "\<And>s. screen_wf s \<Longrightarrow> ok s \<Longrightarrow> ok
      (s\<lparr>buffer := (buffer s)[cursor_position s := f (cursor_position s) (buffer s ! cursor_position s)],
         cursor_position := Suc (cursor_position s) mod length (buffer s)\<rparr>)"
    and "screen_wf s" "ok s" "target < length (buffer s)"
  shows "loop s = Some (fill_range f target s)"
  using assms(4-6)
proof (induction "cyc_dist (length (buffer s)) (cursor_position s) target" arbitrary: s)
  case 0
  then have "cursor_position s = target" using cyc_dist_eq_0 wf_cursor by metis
  then show ?case by (subst loop) (simp add: fill_range_here)
next
  case (Suc k)
  let ?s1 = "s\<lparr>buffer := (buffer s)[cursor_position s := f (cursor_position s) (buffer s ! cursor_position s)],
              cursor_position := Suc (cursor_position s) mod length (buffer s)\<rparr>"
  have c: "cursor_position s < length (buffer s)" using Suc.prems(1) by (rule wf_cursor)
  have ne: "cursor_position s \<noteq> target" using Suc.hyps(2) by auto
  have "loop ?s1 = Some (fill_range f target ?s1)"
  proof (rule Suc.hyps(1))
    show "k = cyc_dist (length (buffer ?s1)) (cursor_position ?s1) target"
      using Suc.hyps(2) ne c Suc.prems(3) by (simp add: cyc_dist_next)
    show "screen_wf ?s1" using Suc.prems(1) by (intro wf_stored wf_next) simp_all
    show "ok ?s1" using Suc.prems(1,2) by (rule keep)
    show "target < length (buffer ?s1)" using Suc.prems(3) by simp
  qed
  then show ?case
    using ne body [OF Suc.prems(1,2)] fill_range_step [OF Suc.prems(1,3) ne]
    by (subst loop) simp
qed

definition same_pen :: "screen \<Rightarrow> screen \<Rightarrow> bool" where
  "same_pen s t \<longleftrightarrow> code_page_of t = code_page_of s \<and> current_fg t = current_fg s
     \<and> current_bg t = current_bg s \<and> current_highlight t = current_highlight s"

lemma paint_same_pen: "same_pen s t \<Longrightarrow> paint t byte = paint s byte"
  by (rule ext) (simp add: paint_def same_pen_def)

lemma repeat_to_fills:
  assumes "screen_wf s" "target < length (buffer s)"
  shows "repeat_to target ch s = Some (fill_range (\<lambda>_. paint s ch) target s)"
proof (rule fill_loop [where ok = "same_pen s" and body = "write_char ch"])
  show "repeat_to target ch t = (if cursor_position t = target then Some t
      else Option.bind (write_char ch t) (repeat_to target ch))" for t
    by (subst repeat_to.simps) simp
  show "write_char ch t = Some (t\<lparr>buffer := (buffer t)[cursor_position t :=
        paint s ch (buffer t ! cursor_position t)],
      cursor_position := Suc (cursor_position t) mod length (buffer t)\<rparr>)"
    if "screen_wf t" "same_pen s t" for t
    using set_advance [OF that(1), of "paint t ch"] paint_same_pen [OF that(2)]
    by (simp add: write_char_def)
qed (use assms in \<open>simp_all add: same_pen_def\<close>)

section \<open>The attribute that governs a position\<close>

fun governor :: "cell list \<Rightarrow> nat \<Rightarrow> nat \<Rightarrow> nat option" where
  "governor b 0 p = None"
| "governor b (Suc k) p =
     (if cell_field (attribute (b ! p)) \<noteq> None then Some p else governor b k (step_back (length b) p))"

definition protected_at :: "cell list \<Rightarrow> nat \<Rightarrow> bool" where
  "protected_at b p =
     (case governor b (length b) p of
        None \<Rightarrow> False | Some g \<Rightarrow> protected (the (cell_field (attribute (b ! g)))))"

lemma step_back_less: "p < n \<Longrightarrow> step_back n p < n"
  by (auto simp: step_back_def)

lemma protected_scan_governor:
  assumes "screen_wf s" "p < length (buffer s)"
  shows "protected_scan k s p = Some (case governor (buffer s) k p of
           None \<Rightarrow> False | Some g \<Rightarrow> protected (the (cell_field (attribute (buffer s ! g)))))"
  using assms(2)
proof (induction k arbitrary: p)
  case (Suc k)
  then show ?case
    using assms(1) step_back_less [of p "length (buffer s)"] by (auto split: option.splits)
qed simp

lemma is_protected_wf:
  "screen_wf s \<Longrightarrow> p < length (buffer s) \<Longrightarrow> is_protected s p = Some (protected_at (buffer s) p)"
  by (simp add: is_protected_def protected_at_def protected_scan_governor)

lemma governor_cong:
  assumes "length b = length b'"
    and "\<And>i. i < length b \<Longrightarrow> cell_field (attribute (b ! i)) = cell_field (attribute (b' ! i))"
    and "p < length b"
  shows "governor b k p = governor b' k p"
  using assms(3)
proof (induction k arbitrary: p)
  case (Suc k)
  then show ?case
    using assms(1,2) step_back_less [of p "length b"] by simp
qed simp

lemma governor_less: "p < length b \<Longrightarrow> governor b k p = Some g \<Longrightarrow>
    g < length b \<and> cell_field (attribute (b ! g)) \<noteq> None"
proof (induction k arbitrary: p)
  case (Suc k)
  then show ?case
    using Suc.IH [of "step_back (length b) p"] step_back_less [of p "length b"]
    by (auto split: if_splits)
qed simp

lemma protected_at_cong:
  assumes "length b = length b'"
    and "\<And>i. i < length b \<Longrightarrow> cell_field (attribute (b ! i)) = cell_field (attribute (b' ! i))"
    and "p < length b"
  shows "protected_at b p = protected_at b' p"
  using governor_cong [OF assms, of "length b"] assms governor_less [OF assms(3), of "length b"]
  by (auto simp: protected_at_def split: option.splits)

definition erased :: "cell list \<Rightarrow> nat \<Rightarrow> cell \<Rightarrow> cell" where
  "erased b p c = (if protected_at b p then c else blank_char c)"

definition same_fields :: "cell list \<Rightarrow> cell list \<Rightarrow> bool" where
  "same_fields b b' \<longleftrightarrow> length b' = length b \<and>
     (\<forall>i < length b. cell_field (attribute (b' ! i)) = cell_field (attribute (b ! i)))"

lemma erased_attribute [simp]: "attribute (erased b p c) = attribute c"
  by (simp add: erased_def blank_char_def)

lemma same_fields_erased:
  "same_fields b b' \<Longrightarrow> p < length b \<Longrightarrow> same_fields b (b'[p := erased b p (b' ! p)])"
  by (auto simp: same_fields_def nth_list_update)

lemma erase_to_fills:
  assumes "screen_wf s" "target < length (buffer s)"
  shows "erase_to target s = Some (fill_range (erased (buffer s)) target s)"
proof (rule fill_loop [where ok = "\<lambda>t. same_fields (buffer s) (buffer t)" and body = erase_step])
  show "erase_to target t = (if cursor_position t = target then Some t
      else Option.bind (erase_step t) (erase_to target))" for t
    by (subst erase_to.simps) simp
next
  fix t assume wf: "screen_wf t" and sf: "same_fields (buffer s) (buffer t)"
  have len: "length (buffer t) = length (buffer s)" using sf by (simp add: same_fields_def)
  have p: "is_protected t (cursor_position t) = Some (protected_at (buffer s) (cursor_position t))"
    using is_protected_wf [OF wf wf_cursor [OF wf]]
      protected_at_cong [of "buffer t" "buffer s" "cursor_position t"] sf wf_cursor [OF wf]
    by (simp add: same_fields_def)
  show "erase_step t = Some (t\<lparr>buffer := (buffer t)[cursor_position t :=
        erased (buffer s) (cursor_position t) (buffer t ! cursor_position t)],
      cursor_position := Suc (cursor_position t) mod length (buffer t)\<rparr>)"
  proof (cases "protected_at (buffer s) (cursor_position t)")
    case True
    have "t\<lparr>buffer := (buffer t)[cursor_position t := buffer t ! cursor_position t]\<rparr> = t" by simp
    with True p advance_wf [OF wf] show ?thesis by (simp add: erase_step_def erased_def)
  next
    case False
    then have e: "erased (buffer s) (cursor_position t) = blank_char"
      by (simp add: erased_def fun_eq_iff)
    show ?thesis using False p set_advance [OF wf, of blank_char]
      by (simp add: erase_step_def e)
  qed
  show "same_fields (buffer s) (buffer (t\<lparr>buffer := (buffer t)[cursor_position t :=
        erased (buffer s) (cursor_position t) (buffer t ! cursor_position t)],
      cursor_position := Suc (cursor_position t) mod length (buffer t)\<rparr>))"
    using same_fields_erased [OF sf, of "cursor_position t"] wf_cursor [OF wf] len by simp
qed (use assms in \<open>simp_all add: same_fields_def\<close>)

section \<open>No operation panics or hangs\<close>

lemma tab_scan_total:
  assumes "screen_wf s" "p < length (buffer s)"
  shows "\<exists>r. tab_scan k s p = Some r \<and> (\<forall>q. r = Some q \<longrightarrow> q < length (buffer s))"
  using assms(2)
proof (induction k arbitrary: p)
  case (Suc k)
  note n = rem_next [OF assms(1) Suc.prems]
  from Suc.IH [of "Suc p mod length (buffer s)"] Suc.prems assms(1) n show ?case
    by (auto split: option.splits simp: wf_next)
qed simp

lemma back_scan_total:
  assumes "screen_wf s" "p < length (buffer s)"
  shows "\<exists>r. back_scan k s p = Some r \<and> (\<forall>q. r = Some q \<longrightarrow> q < length (buffer s))"
  using assms(2)
proof (induction k arbitrary: p)
  case (Suc k)
  note n = rem_next [OF assms(1) Suc.prems]
  from Suc.IH [of "step_back (length (buffer s)) p"] step_back_less [OF Suc.prems] Suc.prems assms(1) n
  show ?case by (auto split: option.splits simp: wf_next)
qed simp

lemma mark_scan_total:
  assumes "screen_wf s" "p < length (buffer s)"
  shows "mark_scan k p s = Some (case governor (buffer s) k p of
           None \<Rightarrow> s | Some g \<Rightarrow> s\<lparr>buffer := (buffer s)[g := set_modified_cell (buffer s ! g)]\<rparr>)"
  using assms(2)
proof (induction k arbitrary: p)
  case (Suc k)
  then show ?case using assms(1) step_back_less [of p "length (buffer s)"]
    by (auto simp: set_field_modified_def set_cell_def split: option.splits)
qed simp

lemma tab_forward_safe:
  assumes "screen_wf s"
  shows "\<exists>q < length (buffer s). tab_forward s = Some (s\<lparr>cursor_position := q\<rparr>)"
proof -
  let ?p = "Suc (cursor_position s) mod length (buffer s)"
  obtain r where r: "tab_scan (length (buffer s)) s ?p = Some r" "\<forall>q. r = Some q \<longrightarrow> q < length (buffer s)"
    using tab_scan_total [OF assms wf_next [OF assms]] by blast
  have "s = s\<lparr>cursor_position := cursor_position s\<rparr>" by simp
  with r rem_next [OF assms wf_cursor [OF assms]] assms wf_cursor [OF assms] show ?thesis
    by (cases r) (auto simp: tab_forward_def)
qed

lemma tab_backward_safe:
  assumes "screen_wf s"
  shows "\<exists>q < length (buffer s). tab_backward s = Some (s\<lparr>cursor_position := q\<rparr>)"
proof -
  let ?p = "step_back (length (buffer s)) (cursor_position s)"
  have "?p < length (buffer s)" using wf_cursor [OF assms] by (rule step_back_less)
  then obtain r where r: "back_scan (length (buffer s)) s ?p = Some r"
      "\<forall>q. r = Some q \<longrightarrow> q < length (buffer s)"
    using back_scan_total [OF assms] by blast
  have "s = s\<lparr>cursor_position := cursor_position s\<rparr>" by simp
  with r assms wf_cursor [OF assms] show ?thesis
    by (cases r) (auto simp: tab_backward_def)
qed

lemma set_cell_wf:
  "screen_wf s \<Longrightarrow> set_cell f (cursor_position s) s =
     Some (s\<lparr>buffer := (buffer s)[cursor_position s := f (buffer s ! cursor_position s)]\<rparr>)"
  by (simp add: set_cell_def wf_cursor)

definition safe_result :: "screen \<Rightarrow> screen option \<Rightarrow> bool" where
  "safe_result s r \<longleftrightarrow> (\<exists>t. r = Some t \<and> screen_wf t \<and> same_shape s t)"

lemma safe_resultI: "r = Some t \<Longrightarrow> screen_wf t \<Longrightarrow> same_shape s t \<Longrightarrow> safe_result s r"
  by (auto simp: safe_result_def)

lemma safe_set_advance:
  "screen_wf s \<Longrightarrow> safe_result s (set_cell f (cursor_position s) s \<bind> advance)"
  by (rule safe_resultI [OF set_advance]) (auto intro!: wf_stored wf_next simp: same_shape_def)

lemma safe_cursor:
  "screen_wf s \<Longrightarrow> p < length (buffer s) \<Longrightarrow> safe_result s (Some (s\<lparr>cursor_position := p\<rparr>))"
  by (auto simp: safe_result_def same_shape_def intro: wf_cursor_at)

lemma address_in_screen:
  "screen_wf s \<Longrightarrow> rem_opt a (size3270 s) = Some (a mod length (buffer s)) \<and>
     a mod length (buffer s) < length (buffer s)"
  by (auto simp: rem_opt_def screen_wf_def size3270_def)

lemma sa_attr_keeps:
  "buffer (sa_attr ea s) = buffer s" "rows (sa_attr ea s) = rows s" "cols (sa_attr ea s) = cols s"
  "cursor_position (sa_attr ea s) = cursor_position s" "code_page_of (sa_attr ea s) = code_page_of s"
  by (cases ea; simp)+

lemma apply_order_safe:
  assumes "screen_wf s"
  shows "safe_result s (apply_order ord s)"
proof (cases ord)
  case (Sba a)
  then show ?thesis using address_in_screen [OF assms, of "unat a"] safe_cursor [OF assms] by simp
next
  case (Sa ea)
  then show ?thesis using assms
    by (auto simp: safe_result_def screen_wf_def same_shape_def sa_attr_keeps)
next
  case Pt
  then show ?thesis using tab_forward_safe [OF assms] safe_cursor [OF assms] by auto
next
  case (Ra a ch)
  then show ?thesis using address_in_screen [OF assms, of "unat a"] assms
    by (auto intro!: safe_resultI [OF repeat_to_fills] fill_range_wf)
next
  case (Eua a)
  then show ?thesis using address_in_screen [OF assms, of "unat a"] assms
    by (auto intro!: safe_resultI [OF erase_to_fills] fill_range_wf)
next
  case (Mf eas)
  have "safe_result s (set_cell f (cursor_position s) s)" for f
    using assms by (intro safe_resultI [OF set_cell_wf]) (simp_all add: wf_buffer same_shape_def)
  with Mf assms show ?thesis by (auto simp: safe_result_def)
next
  case Ic
  then show ?thesis using assms by (auto simp: safe_result_def)
next
  case (Sf a)
  then show ?thesis using safe_set_advance [OF assms] by simp
next
  case (Sfe eas)
  then show ?thesis using safe_set_advance [OF assms] by simp
qed

lemma apply_item_safe: "screen_wf s \<Longrightarrow> safe_result s (apply_item i s)"
  by (cases i) (simp_all add: apply_order_safe write_char_def safe_set_advance)

lemma apply_items_safe: "screen_wf s \<Longrightarrow> safe_result s (apply_items is s)"
proof (induction "is" arbitrary: s)
  case Nil
  then show ?case by (simp add: safe_result_def)
next
  case (Cons i "is")
  from apply_item_safe [OF Cons.prems, of i] obtain t
    where t: "apply_item i s = Some t" "screen_wf t" "same_shape s t"
    by (auto simp: safe_result_def)
  from Cons.IH [OF t(2)] t show ?case
    by (auto simp: safe_result_def intro: same_shape_trans)
qed

lemma clear_screen_wf: "screen_wf s \<Longrightarrow> screen_wf (clear_screen s) \<and> same_shape s (clear_screen s)"
  by (auto simp: screen_wf_def same_shape_def clear_screen_def reset_sa_state_def)

lemma wcc_reset_wf:
  "screen_wf s \<Longrightarrow> screen_wf (reset_sa_state (apply_wcc w s)) \<and>
     same_shape s (reset_sa_state (apply_wcc w s))"
  by (auto simp: screen_wf_def same_shape_def apply_wcc_def reset_sa_state_def)

lemma apply_data_stream_safe:
  assumes "screen_wf s"
  shows "safe_result s (apply_data_stream ds s)"
proof -
  let ?s1 = "if command ds = EraseWrite \<or> command ds = EraseWriteAlternate then clear_screen s else s"
  have 1: "screen_wf ?s1" "same_shape s ?s1" using clear_screen_wf [OF assms] assms by auto
  let ?s2 = "reset_sa_state (apply_wcc (ds_wcc ds) ?s1)"
  have 2: "screen_wf ?s2" "same_shape s ?s2"
    using wcc_reset_wf [OF 1(1)] 1(2) by (auto intro: same_shape_trans)
  from apply_items_safe [OF 2(1), of "orders ds"] 2(2) show ?thesis
    by (auto simp: apply_data_stream_def safe_result_def Let_def intro: same_shape_trans)
qed

text \<open>What typing does, in one equation.\<close>

definition typed :: "uchar \<Rightarrow> screen \<Rightarrow> screen" where
  "typed ch s =
     (let c = cursor_position s; b = buffer s; n = length b;
          b1 = (case governor b n c of None \<Rightarrow> b | Some g \<Rightarrow> b[g := set_modified_cell (b ! g)])
      in s\<lparr>buffer := b1[c := (b1 ! c)\<lparr>character := ch\<rparr>], cursor_position := Suc c mod n\<rparr>)"

lemma input_char_wf:
  assumes "screen_wf s"
  shows "input_char ch s =
    (if protected_at (buffer s) (cursor_position s) then Some (False, s) else Some (True, typed ch s))"
proof (cases "protected_at (buffer s) (cursor_position s)")
  case True
  then show ?thesis using is_protected_wf [OF assms wf_cursor [OF assms]]
    by (simp add: input_char_def)
next
  case False
  let ?b1 = "case governor (buffer s) (length (buffer s)) (cursor_position s) of
      None \<Rightarrow> buffer s | Some g \<Rightarrow> (buffer s)[g := set_modified_cell (buffer s ! g)]"
  have mark: "mark_scan (size3270 s) (cursor_position s) s = Some (s\<lparr>buffer := ?b1\<rparr>)"
    using mark_scan_total [OF assms wf_cursor [OF assms], of "length (buffer s)"] assms
    by (auto split: option.splits)
  have len: "length ?b1 = length (buffer s)" by (simp split: option.splits)
  have wf: "screen_wf (s\<lparr>buffer := ?b1\<rparr>)" using assms len by (rule wf_buffer)
  have "input_char ch s = Option.bind (Option.bind
      (set_cell (\<lambda>c. c\<lparr>character := ch\<rparr>) (cursor_position s) (s\<lparr>buffer := ?b1\<rparr>)) advance)
      (\<lambda>s3. Some (True, s3))"
    using False is_protected_wf [OF assms wf_cursor [OF assms]]
    by (simp add: input_char_def mark)
  also have "\<dots> = Some (True, typed ch s)"
    using set_advance [OF wf, of "\<lambda>c. c\<lparr>character := ch\<rparr>"] len
    by (simp add: typed_def Let_def)
  finally show ?thesis using False by simp
qed

lemma typed_safe: "screen_wf s \<Longrightarrow> screen_wf (typed ch s) \<and> same_shape s (typed ch s)"
  by (auto simp: typed_def Let_def same_shape_def split: option.splits intro!: wf_stored wf_next)

section \<open>The read-modified response\<close>

lemma collect_fields_wf:
  "\<forall>i \<in> set is. i < length (buffer s) \<Longrightarrow>
   collect_fields s is = Some (List.map_filter
     (\<lambda>i. map_option (Pair i) (cell_field (attribute (buffer s ! i)))) is)"
  by (induction "is") (auto simp: List.map_filter_simps split: option.splits)

lemma get_fields_total: "screen_wf s \<Longrightarrow> \<exists>fs. get_fields s = Some fs"
  using collect_fields_wf [of "[0..<length (buffer s)]" s] by (simp add: get_fields_def)

text \<open>The positions from \<open>p\<close> on, at most \<open>k\<close> of them, that come before the next attribute.\<close>

fun walk :: "cell list \<Rightarrow> nat \<Rightarrow> nat \<Rightarrow> nat list" where
  "walk b 0 p = []"
| "walk b (Suc k) p =
     (if cell_field (attribute (b ! p)) \<noteq> None then [] else p # walk b k (Suc p mod length b))"

lemma rem_usize: "screen_wf s \<Longrightarrow> rem_opt (p + 1) (size3270 s) = Some (Suc p mod length (buffer s))"
  by (auto simp: rem_opt_def screen_wf_def size3270_def)

lemma field_data_rest:
  assumes "screen_wf s" "ds < length (buffer s)"
    and "pos < length (buffer s)" "pos \<noteq> ds" "k = length (buffer s) - cyc_dist (length (buffer s)) ds pos"
  shows "field_data s ds pos = Some (map (\<lambda>p. ebcdic_of_cell s (buffer s ! p)) (walk (buffer s) k pos))"
  using assms(3-5)
proof (induction k arbitrary: pos)
  case 0
  with cyc_dist_less [OF assms(2) 0(1)] show ?case by linarith
next
  case (Suc k)
  let ?n = "length (buffer s)" and ?q = "Suc pos mod length (buffer s)"
  have q: "?q < ?n" using assms(1) by (rule wf_next)
  have d: "0 < cyc_dist ?n ds pos" using cyc_dist_eq_0 [OF assms(2) Suc.prems(1)] Suc.prems(2) by simp
  have dq: "cyc_dist ?n ds ?q = (cyc_dist ?n ds pos + 1) mod ?n"
    using cyc_dist_Suc [OF assms(2) Suc.prems(1)] by simp
  note rem = rem_usize [OF assms(1), of pos]
  show ?case
  proof (cases "cell_field (attribute (buffer s ! pos)) = None")
    case False
    then show ?thesis using Suc.prems(1,2) by (subst field_data.simps) simp
  next
    case no: True
    show ?thesis
    proof (cases "?q = ds")
      case True
      then have "(cyc_dist ?n ds pos + 1) mod ?n = 0" using dq by simp
      then have "cyc_dist ?n ds pos + 1 = ?n"
        using cyc_dist_less [OF assms(2) Suc.prems(1)] by (cases "cyc_dist ?n ds pos + 1 = ?n") auto
      then have "k = 0" using Suc.prems(3) by linarith
      with no True rem Suc.prems(1,2) show ?thesis by (subst field_data.simps) simp
    next
      case False
      then have "0 < (cyc_dist ?n ds pos + 1) mod ?n"
        using dq cyc_dist_eq_0 [OF assms(2) q] by simp
      then have "cyc_dist ?n ds ?q = cyc_dist ?n ds pos + 1"
        using dq cyc_dist_less [OF assms(2) Suc.prems(1)]
        by (cases "cyc_dist ?n ds pos + 1 = ?n") auto
      then have "k = ?n - cyc_dist ?n ds ?q" using Suc.prems(3) by linarith
      from Suc.IH [OF q False this] no False rem Suc.prems(1,2) show ?thesis
        by (subst field_data.simps) simp
    qed
  qed
qed

lemma field_data_walk:
  assumes "screen_wf s" "ds < length (buffer s)"
  shows "field_data s ds ds = Some (map (\<lambda>p. ebcdic_of_cell s (buffer s ! p))
           (ds # walk (buffer s) (length (buffer s) - 1) (Suc ds mod length (buffer s))))"
proof -
  let ?n = "length (buffer s)" and ?q = "Suc ds mod length (buffer s)"
  have q: "?q < ?n" using assms(1) by (rule wf_next)
  note rem = rem_usize [OF assms(1), of ds]
  show ?thesis
  proof (cases "?q = ds")
    case True
    then have "?n = 1" using assms(2) by (cases "Suc ds = ?n") auto
    then show ?thesis using True rem assms(2) by (subst field_data.simps) simp
  next
    case False
    have "cyc_dist ?n ds ?q = 1" using False assms(2) by (cases "Suc ds = ?n") (auto simp: cyc_dist_def)
    from field_data_rest [OF assms q False, of "?n - 1"] this False rem assms(2) show ?thesis
      by (subst field_data.simps) simp
  qed
qed

lemma fields_data_total: "screen_wf s \<Longrightarrow> \<exists>d. fields_data s fs = Some d"
proof (induction fs)
  case (Cons f fs)
  then obtain d where d: "fields_data s fs = Some d" by blast
  let ?ds = "Suc (fld_start f) mod length (buffer s)"
  from field_data_walk [OF Cons.prems wf_next [OF Cons.prems], of "fld_start f"] obtain x
    where "field_data s ?ds ?ds = Some x" by blast
  then show ?case using d rem_usize [OF Cons.prems, of "fld_start f"] by simp
qed simp

lemma read_modified_total:
  assumes "screen_wf s"
  shows "\<exists>d. read_modified_fields a s = Some d"
proof -
  from get_fields_total [OF assms] obtain fs where fs: "get_fields s = Some fs" by blast
  from fields_data_total [OF assms] obtain d where d: "fields_data s fs = Some d" by blast
  show ?thesis by (cases a) (simp_all add: read_modified_fields_def fs d)
qed

section \<open>The screen as a machine\<close>

datatype screen_event =
  HostStream data_stream | TypeChar uchar | TabKey | BackTabKey

fun screen_step :: "screen \<Rightarrow> screen_event \<Rightarrow> screen option" where
  "screen_step s (HostStream ds) = apply_data_stream ds s"
| "screen_step s (TypeChar ch) = map_option snd (input_char ch s)"
| "screen_step s TabKey = tab_forward s"
| "screen_step s BackTabKey = tab_backward s"

lemma screen_step_safe:
  assumes "screen_wf s"
  shows "safe_result s (screen_step s e)"
proof (cases e)
  case (HostStream ds)
  then show ?thesis using apply_data_stream_safe [OF assms] by simp
next
  case (TypeChar ch)
  then show ?thesis using input_char_wf [OF assms] typed_safe [OF assms] assms
    by (auto simp: safe_result_def)
next
  case TabKey
  then show ?thesis using tab_forward_safe [OF assms] safe_cursor [OF assms] by auto
next
  case BackTabKey
  then show ?thesis using tab_backward_safe [OF assms] safe_cursor [OF assms] by auto
qed

interpretation terminal: safe_machine screen_step screen_wf same_shape
proof
  show "\<exists>t. screen_step s e = Some t \<and> screen_wf t \<and> same_shape s t" if "screen_wf s" for s e
    using screen_step_safe [OF that] by (simp add: safe_result_def)
qed (auto intro: same_shape_trans)

section \<open>Properties\<close>

text \<open>
  C9 (safety). No session can break the terminal: whatever parsed streams the host sends and
  whatever the operator types, on a screen with at least one and fewer than \<open>2^16\<close> cells every
  operation returns (the unbounded loops of RA and EUA included), every index is in range, the
  dimensions stay, and the read-modified response can be built at the end.
\<close>

theorem terminal_never_panics:
  assumes "0 < r * c" and "r * c < 2 ^ 16"
  shows "\<exists>t. run_steps screen_step (with_code_page r c cp) es = Some t \<and> screen_wf t
    \<and> rows t = r \<and> cols t = c \<and> (\<exists>d. read_modified_fields a t = Some d)"
proof -
  have "screen_wf (with_code_page r c cp)"
    using new_screen_wf [OF assms] by (simp add: with_code_page_def screen_wf_def)
  from terminal.run_safe [OF this, of es] obtain t
    where "run_steps screen_step (with_code_page r c cp) es = Some t" "screen_wf t"
      "same_shape (with_code_page r c cp) t" by blast
  then show ?thesis using read_modified_total [of t a]
    by (auto simp: same_shape_def with_code_page_def new_screen_def)
qed

theorem terminal_never_panics_witness:
  "\<exists>t. run_steps screen_step (with_code_page 24 80 Cp037)
     [HostStream \<lparr>command = EraseWrite, ds_wcc = \<lparr>reset_mdt = True, restore_keyboard = True, alarm = False\<rparr>,
        orders = [Order (Ra 1919 0xC1), Order (Eua 5)]\<rparr>, TypeChar 65, TabKey] = Some t \<and> screen_wf t"
  using terminal_never_panics [of 24 80 Cp037 _ AidEnter] by fastforce

text \<open>
  Repeat to address writes exactly the cells from the cursor up to (not including)
  the target, going round the end of the buffer, with the character and the current attributes,
  and leaves the cursor on the target; all other cells keep their content. The address may be any
  16-bit value.
\<close>

lemma repeat_to_address_spec:
  assumes "screen_wf s" and "target = unat addr mod length (buffer s)"
  shows "\<exists>t. apply_order (Ra addr ch) s = Some t \<and> cursor_position t = target
    \<and> length (buffer t) = length (buffer s)
    \<and> (\<forall>p < length (buffer s). buffer t ! p =
         (if cyc_dist (length (buffer s)) (cursor_position s) p
             < cyc_dist (length (buffer s)) (cursor_position s) target
          then paint s ch (buffer s ! p) else buffer s ! p))"
proof -
  note a = address_in_screen [OF assms(1), of "unat addr"]
  have "apply_order (Ra addr ch) s = Some (fill_range (\<lambda>_. paint s ch) target s)"
    using a repeat_to_fills [OF assms(1), of target ch] assms(2) by simp
  then show ?thesis by (simp add: fill_range_def Let_def)
qed

text \<open>
  Erase unprotected to address blanks the unprotected cells on the way to the target
  and nothing else: protected characters, colours and all field attributes survive, and the fields
  by which a cell counts as protected are those before the order.
\<close>

lemma erase_unprotected_spec:
  assumes "screen_wf s" and "target = unat addr mod length (buffer s)"
  shows "\<exists>t. apply_order (Eua addr) s = Some t \<and> cursor_position t = target
    \<and> (\<forall>p < length (buffer s). attribute (buffer t ! p) = attribute (buffer s ! p)
        \<and> character (buffer t ! p) =
           (if cyc_dist (length (buffer s)) (cursor_position s) p
               < cyc_dist (length (buffer s)) (cursor_position s) target
               \<and> \<not> protected_at (buffer s) p
            then 32 else character (buffer s ! p)))"
proof -
  note a = address_in_screen [OF assms(1), of "unat addr"]
  have "apply_order (Eua addr) s = Some (fill_range (erased (buffer s)) target s)"
    using a erase_to_fills [OF assms(1), of target] assms(2) by simp
  then show ?thesis by (simp add: fill_range_def Let_def erased_def blank_char_def)
qed

lemma governor_self: "0 < k \<Longrightarrow> cell_field (attribute (b ! g)) \<noteq> None \<Longrightarrow> governor b k g = Some g"
  by (cases k) auto

lemma protected_at_governor:
  assumes "p < length b" "governor b (length b) p = Some g"
  shows "protected_at b g = protected_at b p"
proof -
  have "cell_field (attribute (b ! g)) \<noteq> None" "0 < length b"
    using governor_less [OF assms] assms(1) by auto
  then have "governor b (length b) g = Some g" by (intro governor_self)
  with assms(2) show ?thesis by (simp add: protected_at_def)
qed

text \<open>
  C36 (safety). Typing never changes a protected cell: a character for a protected position is
  refused and the screen is as before; an accepted one changes the cell under the cursor and sets
  the modified tag of the field's attribute, both unprotected, and the cursor moves on by one.
\<close>

theorem typing_respects_protection:
  assumes "screen_wf s"
  shows "\<exists>t. input_char ch s = Some (\<not> protected_at (buffer s) (cursor_position s), t)
    \<and> (protected_at (buffer s) (cursor_position s) \<longrightarrow> t = s)
    \<and> (\<forall>p < length (buffer s). protected_at (buffer s) p \<longrightarrow> buffer t ! p = buffer s ! p)
    \<and> (\<not> protected_at (buffer s) (cursor_position s) \<longrightarrow>
         character (buffer t ! cursor_position s) = ch
         \<and> cursor_position t = Suc (cursor_position s) mod length (buffer s)
         \<and> (\<forall>g. governor (buffer s) (length (buffer s)) (cursor_position s) = Some g \<longrightarrow>
              (\<exists>fa. cell_field (attribute (buffer t ! g)) = Some fa \<and> modified fa)))"
proof (cases "protected_at (buffer s) (cursor_position s)")
  case True
  then show ?thesis using input_char_wf [OF assms] by simp
next
  case False
  let ?b = "buffer s" and ?c = "cursor_position s"
  have c: "?c < length ?b" using assms by (rule wf_cursor)
  have keep: "buffer (typed ch s) ! p = ?b ! p" if "p < length ?b" "protected_at ?b p" for p
  proof (cases "governor ?b (length ?b) ?c")
    case None
    with that False c show ?thesis by (auto simp: typed_def Let_def nth_list_update)
  next
    case (Some g)
    have "p \<noteq> g" "p \<noteq> ?c" using protected_at_governor [OF c Some] False that(2) by auto
    with Some show ?thesis by (simp add: typed_def Let_def)
  qed
  have mdt: "\<exists>fa. cell_field (attribute (buffer (typed ch s) ! g)) = Some fa \<and> modified fa"
    if g: "governor ?b (length ?b) ?c = Some g" for g
  proof -
    from governor_less [OF c g] obtain fa where "g < length ?b" "cell_field (attribute (?b ! g)) = Some fa"
      by auto
    with g c show ?thesis
      by (cases "g = ?c") (auto simp: typed_def Let_def set_modified_cell_def)
  qed
  have "character (buffer (typed ch s) ! ?c) = ch"
    using c by (simp add: typed_def Let_def split: option.splits)
  moreover have "cursor_position (typed ch s) = Suc ?c mod length ?b"
    by (simp add: typed_def Let_def)
  ultimately show ?thesis using False input_char_wf [OF assms, of ch] keep mdt by auto
qed

theorem typing_respects_protection_witness:
  "\<exists>t. input_char 66 (new_screen 24 80) = Some (True, t) \<and> character (buffer t ! 0) = 66"
proof -
  have "screen_wf (new_screen 24 80)" by (rule new_screen_wf) simp_all
  moreover have "\<not> protected_at (buffer (new_screen 24 80)) 0"
  proof -
    have "governor (replicate n default_cell) k 0 = None" if "0 < n" for n k
    proof -
      have "governor (replicate n default_cell) k p = None" if "p < n" for p
        using that
        by (induction k arbitrary: p)
          (simp_all add: default_cell_def default_cell_attribute_def step_back_less)
      with \<open>0 < n\<close> show ?thesis by simp
    qed
    then show ?thesis by (simp add: protected_at_def new_screen_def)
  qed
  moreover have "cursor_position (new_screen 24 80) = 0" by (simp add: new_screen_def)
  ultimately show ?thesis using typing_respects_protection [of "new_screen 24 80" 66] by auto
qed

text \<open>An attribute that starts an unprotected field.\<close>

definition opens_field :: "cell list \<Rightarrow> nat \<Rightarrow> bool" where
  "opens_field b p \<longleftrightarrow>
     (case cell_field (attribute (b ! p)) of Some fa \<Rightarrow> \<not> protected fa | None \<Rightarrow> False)"

lemma upt_Suc_map: "[0..<Suc k] = 0 # map Suc [0..<k]"
  by (simp add: upt_conv_Cons map_Suc_upt del: upt_Suc)

lemma tab_scan_first:
  assumes "screen_wf s" "p < length (buffer s)"
  shows "tab_scan k s p = Some (map_option (\<lambda>g. Suc g mod length (buffer s))
    (find (opens_field (buffer s)) (map (\<lambda>j. (p + j) mod length (buffer s)) [0..<k])))"
  using assms(2)
proof (induction k arbitrary: p)
  case (Suc k)
  let ?n = "length (buffer s)"
  note n = rem_next [OF assms(1) Suc.prems]
  have shift: "map (\<lambda>j. (p + j) mod ?n) [0..<Suc k] = p # map (\<lambda>j. (Suc p mod ?n + j) mod ?n) [0..<k]"
    using Suc.prems unfolding upt_Suc_map by (simp add: mod_add_left_eq)
  show ?case
    unfolding shift using Suc.IH [OF wf_next [OF assms(1)], of p] Suc.prems n
    by (auto simp: opens_field_def split: option.splits)
qed simp

text \<open>
  The tab key goes to the cell behind the first attribute, counted from the cell
  after the cursor and going round, that starts an unprotected field; with no such field the
  cursor stays. The cells do not change.
\<close>

lemma tab_forward_spec:
  assumes "screen_wf s"
  shows "tab_forward s = Some (s\<lparr>cursor_position :=
    (case find (opens_field (buffer s))
            (map (\<lambda>j. (Suc (cursor_position s) mod length (buffer s) + j) mod length (buffer s))
                 [0..<length (buffer s)]) of
       None \<Rightarrow> cursor_position s | Some g \<Rightarrow> Suc g mod length (buffer s))\<rparr>)"
  using tab_scan_first [OF assms wf_next [OF assms], of "length (buffer s)" "cursor_position s"]
    rem_next [OF assms wf_cursor [OF assms]] assms
  by (auto simp: tab_forward_def split: option.splits)

text \<open>
  What the read-modified response says of a modified unprotected field: SBA to the
  cell after its attribute, then that cell and the following ones up to the next attribute. The
  first cell is sent without looking whether it is itself an attribute, so a field without data
  cells is answered with the content of the field behind it, protected or not.
\<close>

lemma read_modified_data:
  assumes "screen_wf s" and "\<not> protected (fld_attribute f)" "fld_modified f"
    and "q = Suc (fld_start f) mod length (buffer s)"
  shows "fields_data s [f] = Some ([0x11] @ address_bytes q
      @ map (\<lambda>p. ebcdic_of_cell s (buffer s ! p))
            (q # walk (buffer s) (length (buffer s) - 1) (Suc q mod length (buffer s))))
    \<and> (cell_field (attribute (buffer s ! q)) \<noteq> None
       \<and> cell_field (attribute (buffer s ! (Suc q mod length (buffer s)))) = None \<longrightarrow>
       (\<exists>d. fields_data s [f] = Some ([0x11] @ address_bytes q @ ebcdic_of_cell s (buffer s ! q)
              # ebcdic_of_cell s (buffer s ! (Suc q mod length (buffer s))) # d))
       \<and> governor (buffer s) (length (buffer s)) (Suc q mod length (buffer s)) = Some q)"
proof (intro conjI impI)
  let ?n = "length (buffer s)" and ?r = "Suc q mod length (buffer s)"
  have q: "q < ?n" using wf_next [OF assms(1)] assms(4) by simp
  show d: "fields_data s [f] = Some ([0x11] @ address_bytes q
      @ map (\<lambda>p. ebcdic_of_cell s (buffer s ! p)) (q # walk (buffer s) (?n - 1) ?r))"
    using assms(2-4) field_data_walk [OF assms(1) q] rem_usize [OF assms(1), of "fld_start f"] by simp
  assume a: "cell_field (attribute (buffer s ! q)) \<noteq> None
    \<and> cell_field (attribute (buffer s ! ?r)) = None"
  then have ne: "?r \<noteq> q" by auto
  have "1 < ?n"
  proof (rule ccontr)
    assume "\<not> 1 < ?n"
    then have "?n = 1" using q by simp
    with ne q show False by simp
  qed
  then have "?n = Suc (Suc (?n - 2))" by linarith
  then obtain k where k: "?n = Suc (Suc k)" by blast
  have "walk (buffer s) (?n - 1) ?r = ?r # walk (buffer s) k (Suc ?r mod ?n)"
    using a k by simp
  then show "\<exists>d. fields_data s [f] = Some ([0x11] @ address_bytes q @ ebcdic_of_cell s (buffer s ! q)
              # ebcdic_of_cell s (buffer s ! ?r) # d)"
    using d by simp
  have "step_back ?n ?r = q" using q by (cases "Suc q = ?n") (simp_all add: step_back_def)
  then have "governor (buffer s) (Suc (Suc k)) ?r = Some q"
    using a by (simp add: governor_self)
  then show "governor (buffer s) ?n ?r = Some q" unfolding k .
qed

end
