(* ===== verification/Tn5250_Datastream.thy ===== *)
theory Tn5250_Datastream
  imports Prelude
begin

text \<open>
  The 5250 data stream, \<open>guacr-tn5250/src/datastream.rs\<close>: operation codes, field control words,
  1-based addresses, the record parser with its payload loop, and the response builder. As for the
  3270, the parser's index \<open>pos\<close> is carried along with the bytes from that index on; addresses are
  \<open>u16\<close> values held as natural numbers (they are at most 254).
\<close>

section \<open>Data\<close>

datatype tn5250_error =
    RecordTooShort nat
  | RecordLengthMismatch nat nat
  | UnknownOpCode u8
  | TruncatedOrder u8 nat nat nat
  | InvalidAddress u8 u8
  | UnexpectedEnd5250 nat

definition MIN_RECORD_LEN :: nat where "MIN_RECORD_LEN = 5"

datatype op_code = WriteToDisplay | ClearUnit | ClearFormatTable | WriteToDisplayAlt

definition op_code_from_byte :: "u8 \<Rightarrow> (op_code, tn5250_error) result" where
  "op_code_from_byte b =
     (if b = 0x01 \<or> b = 0x11 then (if b = 0x11 then Ok WriteToDisplayAlt else Ok WriteToDisplay)
      else if b = 0x02 then Ok ClearUnit
      else if b = 0x04 then Ok ClearFormatTable
      else Err (UnknownOpCode b))"

datatype field_shift = ShAlpha | ShAlphaOnly | ShNumeric | ShNumericOnly | ShSignedNumeric | ShKatakana

record field_control_word =
  bypass :: bool
  fcw_modified :: bool
  shift :: field_shift
  mandatory_fill :: bool
  right_adjust_zero :: bool
  right_adjust_blank :: bool
  mandatory_entry :: bool
  auto_enter :: bool
  field_exit_required :: bool
  duplication :: bool
  raw0 :: u8
  raw1 :: u8

definition fcw_from_bytes :: "u8 \<Rightarrow> u8 \<Rightarrow> field_control_word" where
  "fcw_from_bytes b0 b1 =
     (let bits = drop_bit 2 b0 AND 0x07
      in \<lparr>bypass = (b0 AND 0x80 \<noteq> 0),
          fcw_modified = (b0 AND 0x20 \<noteq> 0),
          shift = (if bits = 0 then ShAlpha
                   else if bits = 1 then ShAlphaOnly
                   else if bits = 2 then ShNumeric
                   else if bits = 3 then ShNumericOnly
                   else if bits = 4 then ShKatakana
                   else if bits = 7 then ShSignedNumeric
                   else ShAlpha),
          mandatory_fill = (b1 AND 0x80 \<noteq> 0),
          right_adjust_zero = (b1 AND 0x40 \<noteq> 0),
          right_adjust_blank = (b1 AND 0x20 \<noteq> 0),
          mandatory_entry = (b1 AND 0x10 \<noteq> 0),
          auto_enter = (b0 AND 0x02 \<noteq> 0),
          field_exit_required = (b0 AND 0x01 \<noteq> 0),
          duplication = (b0 AND 0x40 \<noteq> 0),
          raw0 = b0, raw1 = b1\<rparr>)"

definition fcw_to_bytes :: "field_control_word \<Rightarrow> bytes" where
  "fcw_to_bytes w = [raw0 w, raw1 w]"

record soh_data =
  soh_length :: u8
  soh_bytes :: bytes

datatype order5250 =
    OSoh soh_data
  | ORa nat nat u8
  | OEa nat nat
  | OTd bytes
  | OSba nat nat
  | OWea u8 u8
  | OSf field_control_word
  | OIc

datatype item5250 = IOrder order5250 | IChar u8

record record5250 =
  record_type :: u8
  rec_opcode :: op_code
  rec_orders :: "item5250 list"

section \<open>Addresses\<close>

definition decode_address :: "u8 \<Rightarrow> u8 \<Rightarrow> (nat \<times> nat, tn5250_error) result" where
  "decode_address row col =
     (if row = 0 \<or> col = 0 then Err (InvalidAddress row col)
      else Ok (unat row - 1, unat col - 1))"

text \<open>The additions are in \<open>u16\<close>, the casts keep the low byte.\<close>

definition encode_address :: "nat \<Rightarrow> nat \<Rightarrow> u8 \<times> u8" where
  "encode_address row col = (of_nat ((row + 1) mod 2 ^ 16), of_nat ((col + 1) mod 2 ^ 16))"

section \<open>The parser\<close>

text \<open>One byte of length and that many bytes: the operand of SOH and TD.\<close>

definition read_lengthed ::
  "(bytes \<Rightarrow> order5250) \<Rightarrow> u8 \<Rightarrow> nat \<Rightarrow> bytes \<Rightarrow> (order5250 \<times> nat, tn5250_error) result" where
  "read_lengthed mk code pos bs =
     (if length bs \<le> 1 then Err (TruncatedOrder code pos 2 0)
      else let len = unat (bs ! 1)
           in if 2 + len > length bs then Err (TruncatedOrder code pos len (length bs - 2))
              else Ok (mk (take len (drop 2 bs)), 2 + len))"

text \<open>The item at the front of \<open>bs\<close> and the number of bytes it takes.\<close>

definition read_item :: "nat \<Rightarrow> bytes \<Rightarrow> (item5250 \<times> nat, tn5250_error) result" where
  "read_item pos bs =
     (let b = bs ! 0; wrap = (\<lambda>r. bind_result r (\<lambda>(ord, k). Ok (IOrder ord, k))) in
      if b = 0x01 then
        wrap (read_lengthed (\<lambda>d. OSoh \<lparr>soh_length = of_nat (length d), soh_bytes = d\<rparr>) 0x01 pos bs)
      else if b = 0x02 then
        (if length bs \<le> 3 then Err (TruncatedOrder 0x02 pos 4 (length bs))
         else bind_result (decode_address (bs ! 1) (bs ! 2))
                (\<lambda>(row, col). Ok (IOrder (ORa row col (bs ! 3)), 4)))
      else if b = 0x03 then
        (if length bs \<le> 2 then Err (TruncatedOrder 0x03 pos 3 (length bs))
         else bind_result (decode_address (bs ! 1) (bs ! 2))
                (\<lambda>(row, col). Ok (IOrder (OEa row col), 3)))
      else if b = 0x04 then wrap (read_lengthed OTd 0x04 pos bs)
      else if b = 0x10 then
        (if length bs \<le> 2 then Err (TruncatedOrder 0x10 pos 3 (length bs))
         else bind_result (decode_address (bs ! 1) (bs ! 2))
                (\<lambda>(row, col). Ok (IOrder (OSba row col), 3)))
      else if b = 0x11 then
        (if length bs \<le> 2 then Err (TruncatedOrder 0x11 pos 3 (length bs))
         else Ok (IOrder (OWea (bs ! 1) (bs ! 2)), 3))
      else if b = 0x20 then
        (if length bs \<le> 2 then Err (TruncatedOrder 0x20 pos 3 (length bs))
         else Ok (IOrder (OSf (fcw_from_bytes (bs ! 1) (bs ! 2))), 3))
      else if b = 0x29 then Ok (IOrder OIc, 1)
      else Ok (IChar b, 1))"

lemma bind_result_Ok_imp: "bind_result r f = Ok b \<Longrightarrow> \<exists>a. r = Ok a \<and> f a = Ok b"
  by (cases r) auto

lemma read_item_consumes: "read_item pos bs = Ok (i, k) \<Longrightarrow> 0 < k"
  by (auto simp: read_item_def read_lengthed_def Let_def split: if_splits)

function parse_wtd_payload :: "nat \<Rightarrow> bytes \<Rightarrow> (item5250 list, tn5250_error) result" where
  "parse_wtd_payload pos bs =
     (if bs = [] then Ok []
      else bind_result (read_item pos bs) (\<lambda>(i, k).
             bind_result (parse_wtd_payload (pos + k) (drop k bs)) (\<lambda>is. Ok (i # is))))"
  by pat_completeness auto
termination
  by (relation "measure (\<lambda>(pos, bs). length bs)") (auto dest: read_item_consumes)

declare parse_wtd_payload.simps [simp del]

definition parse_5250_record :: "bytes \<Rightarrow> (record5250, tn5250_error) result" where
  "parse_5250_record dat =
     (if length dat < MIN_RECORD_LEN then Err (RecordTooShort (length dat))
      else let record_len = unat (dat ! 0) * 256 + unat (dat ! 1)
           in if record_len > length dat then Err (RecordLengthMismatch record_len (length dat))
              else bind_result (op_code_from_byte (dat ! 4)) (\<lambda>op.
                     bind_result
                       (if op = ClearUnit \<or> op = ClearFormatTable then Ok []
                        else parse_wtd_payload 0
                               (if record_len > MIN_RECORD_LEN
                                then drop MIN_RECORD_LEN (take record_len dat) else []))
                       (\<lambda>items. Ok \<lparr>record_type = dat ! 2, rec_opcode = op, rec_orders = items\<rparr>)))"

section \<open>Responses\<close>

definition build_response_record :: "bytes \<Rightarrow> bytes" where
  "build_response_record payl =
     (let total_len = MIN_RECORD_LEN + length payl
      in [of_nat (total_len div 256), of_nat (total_len mod 256), 0x00, 0x00, 0x00] @ payl)"

definition aid_byte_for_key :: "string \<Rightarrow> u8 option" where
  "aid_byte_for_key key =
     map_of [(''Enter'', 0xF1), (''F1'', 0x31), (''F2'', 0x32), (''F3'', 0x33), (''F4'', 0x34),
             (''F5'', 0x35), (''F6'', 0x36), (''F7'', 0x37), (''F8'', 0x38), (''F9'', 0x39),
             (''F10'', 0x3A), (''F11'', 0x3B), (''F12'', 0x3C), (''F13'', 0xB1), (''F14'', 0xB2),
             (''F15'', 0xB3), (''F16'', 0xB4), (''F17'', 0xB5), (''F18'', 0xB6), (''F19'', 0xB7),
             (''F20'', 0xB8), (''F21'', 0xB9), (''F22'', 0xBA), (''F23'', 0xBB), (''F24'', 0xBC),
             (''PageUp'', 0xF4), (''RollDown'', 0xF4), (''PageDown'', 0xF5), (''RollUp'', 0xF5),
             (''Help'', 0xF3), (''Clear'', 0xBD), (''Print'', 0xF6), (''Attn'', 0xF0),
             (''SysReq'', 0xF0)] key"

section \<open>The record a list of items stands for\<close>

definition ser_address :: "nat \<Rightarrow> nat \<Rightarrow> bytes" where
  "ser_address row col = (case encode_address row col of (r, c) \<Rightarrow> [r, c])"

fun ser_item5250 :: "item5250 \<Rightarrow> bytes" where
  "ser_item5250 (IChar b) = [b]"
| "ser_item5250 (IOrder (OSoh d)) = [0x01, soh_length d] @ soh_bytes d"
| "ser_item5250 (IOrder (ORa r c b)) = 0x02 # ser_address r c @ [b]"
| "ser_item5250 (IOrder (OEa r c)) = 0x03 # ser_address r c"
| "ser_item5250 (IOrder (OTd d)) = [0x04, of_nat (length d)] @ d"
| "ser_item5250 (IOrder (OSba r c)) = 0x10 # ser_address r c"
| "ser_item5250 (IOrder (OWea a b)) = [0x11, a, b]"
| "ser_item5250 (IOrder (OSf w)) = 0x20 # fcw_to_bytes w"
| "ser_item5250 (IOrder OIc) = [0x29]"

definition order_codes5250 :: "u8 list" where
  "order_codes5250 = [0x01, 0x02, 0x03, 0x04, 0x10, 0x11, 0x20, 0x29]"

fun item_ok5250 :: "item5250 \<Rightarrow> bool" where
  "item_ok5250 (IChar b) \<longleftrightarrow> b \<notin> set order_codes5250"
| "item_ok5250 (IOrder (OSoh d)) \<longleftrightarrow> length (soh_bytes d) < 256 \<and> soh_length d = of_nat (length (soh_bytes d))"
| "item_ok5250 (IOrder (ORa r c b)) \<longleftrightarrow> r < 255 \<and> c < 255"
| "item_ok5250 (IOrder (OEa r c)) \<longleftrightarrow> r < 255 \<and> c < 255"
| "item_ok5250 (IOrder (OTd d)) \<longleftrightarrow> length d < 256"
| "item_ok5250 (IOrder (OSba r c)) \<longleftrightarrow> r < 255 \<and> c < 255"
| "item_ok5250 (IOrder (OSf w)) \<longleftrightarrow> w = fcw_from_bytes (raw0 w) (raw1 w)"
| "item_ok5250 _ \<longleftrightarrow> True"

definition ser_record :: "u8 \<Rightarrow> u8 \<Rightarrow> u8 \<Rightarrow> item5250 list \<Rightarrow> bytes" where
  "ser_record ty flags op is =
     (let body = concat (map ser_item5250 is); n = MIN_RECORD_LEN + length body
      in [of_nat (n div 256), of_nat (n mod 256), ty, flags, op] @ body)"

lemma address_byte_ok:
  assumes "x < 255"
  shows "unat (of_nat ((x + 1) mod 2 ^ 16) :: u8) = Suc x"
proof -
  have "(x + 1) mod 2 ^ 16 = Suc x" using assms by simp
  moreover have "unat (of_nat (Suc x) :: u8) = Suc x" using assms by (intro unat_of_nat_small(1)) simp
  ultimately show ?thesis by (simp only:)
qed

lemma decode_ser_address:
  assumes "r < 255" "c < 255"
  shows "decode_address (ser_address r c ! 0) (ser_address r c ! Suc 0) = Ok (r, c)"
proof -
  let ?r = "of_nat ((r + 1) mod 2 ^ 16) :: u8" and ?c = "of_nat ((c + 1) mod 2 ^ 16) :: u8"
  have u: "unat ?r = Suc r" "unat ?c = Suc c" using assms by (simp_all only: address_byte_ok)
  then have "?r \<noteq> 0" "?c \<noteq> 0" by (metis nat.distinct(1) unat_0)+
  with u show ?thesis by (simp add: decode_address_def ser_address_def encode_address_def del: of_nat_Suc of_nat_add)
qed

lemma length_ser_address [simp]: "length (ser_address r c) = 2"
  by (simp add: ser_address_def encode_address_def)

lemma read_lengthed_ser:
  assumes "length d < 256"
  shows "read_lengthed mk code pos (code' # of_nat (length d) # d @ rest) = Ok (mk d, 2 + length d)"
proof -
  have "unat (of_nat (length d) :: u8) = length d" using assms by (intro unat_of_nat_small(1)) simp
  then show ?thesis by (simp add: read_lengthed_def)
qed

lemma read_ser_item:
  assumes "item_ok5250 i"
  shows "read_item pos (ser_item5250 i @ rest) = Ok (i, length (ser_item5250 i))"
proof (cases i)
  case (IChar b)
  with assms show ?thesis by (simp add: read_item_def order_codes5250_def)
next
  case (IOrder ord)
  show ?thesis
  proof (cases ord)
    case (OSoh d)
    with IOrder assms show ?thesis
      using read_lengthed_ser [of "soh_bytes d" _ "0x01" pos "0x01" rest]
      by (cases d) (simp add: read_item_def)
  next
    case (OTd d)
    with IOrder assms show ?thesis
      using read_lengthed_ser [of d OTd "0x04" pos "0x04" rest] by (simp add: read_item_def)
  next
    case (OSf w)
    with IOrder assms show ?thesis by (simp add: read_item_def fcw_to_bytes_def)
  qed (use IOrder assms decode_ser_address in \<open>auto simp: read_item_def nth_append\<close>)
qed

lemma ser_item_nonempty: "ser_item5250 i \<noteq> []"
proof (cases i)
  case (IOrder ord)
  then show ?thesis by (cases ord) simp_all
qed simp

lemma parse_ser_wtd:
  "\<forall>i \<in> set is. item_ok5250 i \<Longrightarrow>
   parse_wtd_payload pos (concat (map ser_item5250 is) @ rest) =
     bind_result (parse_wtd_payload (pos + length (concat (map ser_item5250 is))) rest)
       (\<lambda>js. Ok (is @ js))"
proof (induction "is" arbitrary: pos)
  case Nil
  then show ?case by (cases "parse_wtd_payload pos rest") simp_all
next
  case (Cons i "is")
  let ?s = "ser_item5250 i" and ?t = "concat (map ser_item5250 is) @ rest"
  have "parse_wtd_payload pos (?s @ ?t) =
      bind_result (parse_wtd_payload (pos + length ?s) ?t) (\<lambda>js. Ok (i # js))"
    using Cons.prems read_ser_item [of i pos ?t] ser_item_nonempty [of i]
    by (subst parse_wtd_payload.simps) simp
  then show ?case using Cons.IH [of "pos + length ?s"] Cons.prems
    by (cases "parse_wtd_payload (pos + length ?s + length (concat (map ser_item5250 is))) rest")
      (simp_all add: add.assoc)
qed

lemma parse_wtd_Nil [simp]: "parse_wtd_payload pos [] = Ok []"
  by (subst parse_wtd_payload.simps) simp

lemma header_length:
  assumes "n < 2 ^ 16"
  shows "unat (of_nat (n div 256) :: u8) * 256 + unat (of_nat (n mod 256) :: u8) = n"
proof -
  have "unat (of_nat (n div 256) :: u8) = n div 256" "unat (of_nat (n mod 256) :: u8) = n mod 256"
    using assms by (auto intro!: unat_of_nat_small(1))
  then show ?thesis by simp
qed

lemma read_item_truncated:
  assumes ok: "item_ok5250 (IOrder ord)" and pq: "ser_item5250 (IOrder ord) = p @ q"
    and ne: "p \<noteq> []" "q \<noteq> []"
  shows "\<exists>c n h. read_item pos p = Err (TruncatedOrder c pos n h)"
proof -
  have len: "length p < length (ser_item5250 (IOrder ord))" using pq ne by simp
  have nth: "i < length p \<Longrightarrow> p ! i = ser_item5250 (IOrder ord) ! i" for i
    unfolding pq by (simp add: nth_append)
  have p0: "p ! 0 = ser_item5250 (IOrder ord) ! 0" using nth [of 0] ne by simp
  have lengthed: "\<exists>n h. read_lengthed mk code pos p = Err (TruncatedOrder code pos n h)"
    if d: "length d < 256" "ser_item5250 (IOrder ord) = code' # of_nat (length d) # d" for mk code code' d
  proof (cases "length p \<le> 1")
    case False
    have "unat (of_nat (length d) :: u8) = length d" using d by (intro unat_of_nat_small(1)) simp
    moreover have "p ! 1 = of_nat (length d)" using nth [of 1] False d by simp
    ultimately show ?thesis using False len d by (simp add: read_lengthed_def)
  qed (simp add: read_lengthed_def)
  show ?thesis
  proof (cases ord)
    case (OSoh d)
    with ok have "\<exists>n h. read_lengthed (\<lambda>d. OSoh \<lparr>soh_length = of_nat (length d), soh_bytes = d\<rparr>)
        0x01 pos p = Err (TruncatedOrder 0x01 pos n h)"
      by (intro lengthed [of "soh_bytes d"]) simp_all
    with OSoh p0 show ?thesis by (auto simp: read_item_def)
  next
    case (OTd d)
    with ok have "\<exists>n h. read_lengthed OTd 0x04 pos p = Err (TruncatedOrder 0x04 pos n h)"
      by (intro lengthed [of d]) simp_all
    with OTd p0 show ?thesis by (auto simp: read_item_def)
  qed (use len p0 ne in \<open>auto simp: read_item_def fcw_to_bytes_def\<close>)
qed

section \<open>Properties\<close>

text \<open>
  The record parser reads back every well-formed Write to Display record: record
  type, operation code and items, whatever follows the record in the buffer.
\<close>

lemma record5250_roundtrip:
  assumes "op_code_from_byte op = Ok opc" "opc \<noteq> ClearUnit" "opc \<noteq> ClearFormatTable"
    and "\<forall>i \<in> set is. item_ok5250 i" and "length (ser_record ty fl op is) < 2 ^ 16"
  shows "parse_5250_record (ser_record ty fl op is @ rest) =
           Ok \<lparr>record_type = ty, rec_opcode = opc, rec_orders = is\<rparr>"
proof -
  let ?body = "concat (map ser_item5250 is)" and ?dat = "ser_record ty fl op is @ rest"
  have len: "length (ser_record ty fl op is) = 5 + length ?body"
    by (simp add: ser_record_def Let_def)
  have n: "unat (?dat ! 0) * 256 + unat (?dat ! 1) = 5 + length ?body"
    using header_length [of "5 + length ?body"] assms(5) len
    by (simp add: ser_record_def Let_def MIN_RECORD_LEN_def)
  have pay: "drop 5 (take (5 + length ?body) ?dat) = ?body"
    by (simp add: ser_record_def Let_def drop_take)
  have payl: "(if 5 + length ?body > 5 then drop 5 (take (5 + length ?body) ?dat) else []) = ?body"
    unfolding pay by simp
  have fields: "?dat ! 2 = ty" "?dat ! 4 = op"
    by (simp_all add: ser_record_def Let_def)
  have parse: "parse_wtd_payload 0 ?body = Ok is"
    using parse_ser_wtd [OF assms(4), of 0 "[]"] by simp
  show ?thesis
    unfolding parse_5250_record_def n MIN_RECORD_LEN_def payl fields Let_def
    using len assms(1-3) parse by simp
qed

text \<open>
  A payload cut inside an order is refused with the offset of that order; the items
  before it are not delivered.
\<close>

lemma truncated_record_refused:
  assumes "\<forall>i \<in> set is. item_ok5250 i" and "item_ok5250 (IOrder ord)"
    and "ser_item5250 (IOrder ord) = p @ q" "p \<noteq> []" "q \<noteq> []"
  shows "\<exists>c n h. parse_wtd_payload 0 (concat (map ser_item5250 is) @ p) =
           Err (TruncatedOrder c (length (concat (map ser_item5250 is))) n h)"
proof -
  let ?pos = "length (concat (map ser_item5250 is))"
  from read_item_truncated [OF assms(2-5), of ?pos] obtain c n h
    where "read_item ?pos p = Err (TruncatedOrder c ?pos n h)" by blast
  then have "parse_wtd_payload ?pos p = Err (TruncatedOrder c ?pos n h)"
    using assms(4) by (subst parse_wtd_payload.simps) simp
  then show ?thesis using parse_ser_wtd [OF assms(1), of 0 p] by simp
qed

text \<open>
  A response record announces its own length as long as it is below \<open>2^16\<close>, and
  its length modulo \<open>2^16\<close> beyond, without an error; addresses up to row and column 254
  survive encoding and decoding.
\<close>

lemma response_and_address_bounds:
  "unat (build_response_record payl ! 0) * 256 + unat (build_response_record payl ! 1) =
     length (build_response_record payl) mod 2 ^ 16
   \<and> drop MIN_RECORD_LEN (build_response_record payl) = payl
   \<and> (r < 255 \<and> c < 255 \<longrightarrow> (case encode_address r c of (a, b) \<Rightarrow> decode_address a b) = Ok (r, c))"
proof (intro conjI impI)
  let ?n = "MIN_RECORD_LEN + length payl"
  have "unat (of_nat (?n div 256) :: u8) = ?n div 256 mod 256"
    "unat (of_nat (?n mod 256) :: u8) = ?n mod 256"
    by (simp_all add: unat_of_nat)
  then have "unat (of_nat (?n div 256) :: u8) * 256 + unat (of_nat (?n mod 256) :: u8) =
      ?n div 256 mod 256 * 256 + ?n mod 256" by simp
  also have "\<dots> = ?n mod (256 * 256)" by (simp only: mod_mult2_eq)
  finally show "unat (build_response_record payl ! 0) * 256 + unat (build_response_record payl ! 1) =
     length (build_response_record payl) mod 2 ^ 16"
    by (simp add: build_response_record_def Let_def MIN_RECORD_LEN_def)
  show "drop MIN_RECORD_LEN (build_response_record payl) = payl"
    by (simp add: build_response_record_def Let_def MIN_RECORD_LEN_def)
  assume "r < 255 \<and> c < 255"
  then show "(case encode_address r c of (a, b) \<Rightarrow> decode_address a b) = Ok (r, c)"
    using decode_ser_address [of r c] by (simp add: ser_address_def split: prod.splits)
qed

end
