(* ===== verification/Tn5250_Screen.thy ===== *)
theory Tn5250_Screen
  imports Tn5250_Datastream Ebcdic "HOL-Library.Monad_Syntax"
begin

text \<open>
  The 5250 screen buffer, \<open>guacr-tn5250/src/screen.rs\<close>: the cell grid, the field table and its
  length computation, the application of a parsed record and the operator's keys. Rows and columns
  are \<open>u16\<close>, linear positions \<open>u32\<close>, both held as natural numbers; \<open>None\<close> is a panic or a loop
  that does not end. The terminal's EBCDIC conversion is that of the 3270 crate.
\<close>

section \<open>State\<close>

datatype color5250 = CBlack | CGreen | CWhite | CRed | CBlue | CTurquoise | CYellow | CPink

record cell5250 =
  char5250 :: uchar
  fg5250 :: color5250
  bg5250 :: color5250
  underline :: bool
  field_start :: bool

definition default_cell5250 :: cell5250 where
  "default_cell5250 =
     \<lparr>char5250 = 32, fg5250 = CGreen, bg5250 = CBlack, underline = False, field_start = False\<rparr>"

record field5250 =
  f_row :: nat
  f_col :: nat
  f_length :: nat
  f_control :: field_control_word
  f_modified :: bool

record screen5250 =
  rows5250 :: nat
  cols5250 :: nat
  cells :: "cell5250 list"
  cursor_row :: nat
  cursor_col :: nat
  fields5250 :: "field5250 list"

definition new_screen5250 :: "nat \<Rightarrow> nat \<Rightarrow> screen5250" where
  "new_screen5250 r c =
     \<lparr>rows5250 = r, cols5250 = c, cells = replicate (r * c) default_cell5250,
      cursor_row = 0, cursor_col = 0, fields5250 = []\<rparr>"

section \<open>Positions\<close>

type_synonym position = "nat \<times> nat"

definition offset5250 :: "screen5250 \<Rightarrow> position \<Rightarrow> nat" where
  "offset5250 s p = fst p * cols5250 s + snd p"

text \<open>\<open>linear_pos\<close>, in \<open>u32\<close>: two \<open>u16\<close> factors and a \<open>u16\<close> summand fit.\<close>

definition linear_pos :: "screen5250 \<Rightarrow> nat \<Rightarrow> nat \<Rightarrow> nat" where
  "linear_pos s row col = row * cols5250 s + col"

definition on_screen :: "screen5250 \<Rightarrow> position \<Rightarrow> bool" where
  "on_screen s p \<longleftrightarrow> fst p < rows5250 s \<and> snd p < cols5250 s"

definition advance_pos :: "screen5250 \<Rightarrow> position \<Rightarrow> position" where
  "advance_pos s p =
     (let col = (snd p + 1) mod 2 ^ 16
      in if cols5250 s \<le> col
         then (let row = (fst p + 1) mod 2 ^ 16 in if rows5250 s \<le> row then (0, 0) else (row, 0))
         else (fst p, col))"

definition advance_cursor :: "screen5250 \<Rightarrow> screen5250" where
  "advance_cursor s =
     (case advance_pos s (cursor_row s, cursor_col s) of
        (r, c) \<Rightarrow> s\<lparr>cursor_row := r, cursor_col := c\<rparr>)"

definition cell_opt :: "screen5250 \<Rightarrow> nat \<Rightarrow> cell5250 option" where
  "cell_opt s off = (if off < length (cells s) then Some (cells s ! off) else None)"

definition upd_cell :: "(cell5250 \<Rightarrow> cell5250) \<Rightarrow> nat \<Rightarrow> screen5250 \<Rightarrow> screen5250 option" where
  "upd_cell f off s =
     (if off < length (cells s) then Some (s\<lparr>cells := (cells s)[off := f (cells s ! off)]\<rparr>) else None)"

definition get_cell5250 :: "screen5250 \<Rightarrow> nat \<Rightarrow> nat \<Rightarrow> cell5250 option option" where
  "get_cell5250 s row col =
     (if row < rows5250 s \<and> col < cols5250 s
      then map_option Some (cell_opt s (offset5250 s (row, col))) else Some None)"

section \<open>Clearing\<close>

definition clear5250 :: "screen5250 \<Rightarrow> screen5250" where
  "clear5250 s =
     s\<lparr>cells := map (\<lambda>_. default_cell5250) (cells s), fields5250 := [],
       cursor_row := 0, cursor_col := 0\<rparr>"

definition clear_fields :: "screen5250 \<Rightarrow> screen5250" where
  "clear_fields s =
     s\<lparr>cells := fold (\<lambda>f b. let off = offset5250 s (f_row f, f_col f)
                            in if off < length b then b[off := (b ! off)\<lparr>field_start := False\<rparr>] else b)
                    (fields5250 s) (cells s),
       fields5250 := []\<rparr>"

section \<open>Write to Display\<close>

definition color_from_attribute :: "u8 \<Rightarrow> color5250" where
  "color_from_attribute v =
     (let n = v AND 0x0F in
      if n = 0 then CBlack else if n = 1 then CBlue else if n = 2 then CGreen
      else if n = 3 then CTurquoise else if n = 4 then CRed else if n = 5 then CPink
      else if n = 6 then CYellow else if n = 7 \<or> n = 0x0F then CWhite else CGreen)"

definition apply_extended_attribute :: "nat \<Rightarrow> u8 \<Rightarrow> u8 \<Rightarrow> screen5250 \<Rightarrow> screen5250" where
  "apply_extended_attribute off ty v s =
     (if length (cells s) \<le> off then s
      else let f = (if ty = 0x01 then (\<lambda>c. c\<lparr>fg5250 := color_from_attribute v\<rparr>)
                    else if ty = 0x02 then (\<lambda>c. c\<lparr>bg5250 := color_from_attribute v\<rparr>)
                    else if ty = 0x03 then (\<lambda>c. c\<lparr>underline := (v AND 0x01 \<noteq> 0)\<rparr>)
                    else id)
           in s\<lparr>cells := (cells s)[off := f (cells s ! off)]\<rparr>)"

text \<open>\<open>if write_row < self.rows && write_col < self.cols { buffer[off].character = ch }\<close>.\<close>

definition put_char :: "position \<Rightarrow> uchar \<Rightarrow> screen5250 \<Rightarrow> screen5250 option" where
  "put_char p ch s =
     (if on_screen s p then upd_cell (\<lambda>c. c\<lparr>char5250 := ch\<rparr>) (offset5250 s p) s else Some s)"

text \<open>The loop of RA (and, with a blank, of EA). It ends only at the target.\<close>

partial_function (option) fill_to ::
  "position \<Rightarrow> uchar \<Rightarrow> position \<Rightarrow> screen5250 \<Rightarrow> (position \<times> screen5250) option" where
  "fill_to target ch p s =
     Option.bind (put_char p ch s) (\<lambda>s'.
       if p = target then Some (advance_pos s' p, s')
       else fill_to target ch (advance_pos s' p) s')"

fun put_bytes :: "bytes \<Rightarrow> position \<times> screen5250 \<Rightarrow> (position \<times> screen5250) option" where
  "put_bytes [] (p, s) = Some (p, s)"
| "put_bytes (b # bs) (p, s) =
     Option.bind (put_char p (ebcdic_to_unicode b Cp037) s) (\<lambda>s'. put_bytes bs (advance_pos s' p, s'))"

fun wtd_item :: "item5250 \<Rightarrow> position \<times> screen5250 \<Rightarrow> (position \<times> screen5250) option" where
  "wtd_item (IOrder (OSba r c)) (p, s) = Some ((r, c), s)"
| "wtd_item (IOrder (OSf w)) (p, s) =
     Option.bind
       (if on_screen s p
        then map_option
               (\<lambda>s'. s'\<lparr>fields5250 := fields5250 s' @
                  [\<lparr>f_row = fst p, f_col = snd p, f_length = 0, f_control = w,
                    f_modified = fcw_modified w\<rparr>]\<rparr>)
               (upd_cell (\<lambda>c. c\<lparr>field_start := True, char5250 := 32\<rparr>) (offset5250 s p) s)
        else Some s)
       (\<lambda>s'. Some (advance_pos s' p, s'))"
| "wtd_item (IOrder (ORa r c b)) (p, s) = fill_to (r, c) (ebcdic_to_unicode b Cp037) p s"
| "wtd_item (IOrder (OEa r c)) (p, s) = fill_to (r, c) 32 p s"
| "wtd_item (IOrder (OTd bs)) (p, s) = put_bytes bs (p, s)"
| "wtd_item (IOrder OIc) (p, s) = Some (p, s\<lparr>cursor_row := fst p, cursor_col := snd p\<rparr>)"
| "wtd_item (IOrder (OWea ty v)) (p, s) =
     Some (p, if on_screen s p then apply_extended_attribute (offset5250 s p) ty v s else s)"
| "wtd_item (IOrder (OSoh d)) (p, s) = Some (p, s)"
| "wtd_item (IChar b) (p, s) =
     Option.bind (put_char p (ebcdic_to_unicode b Cp037) s) (\<lambda>s'. Some (advance_pos s' p, s'))"

fun wtd_items :: "item5250 list \<Rightarrow> position \<times> screen5250 \<Rightarrow> (position \<times> screen5250) option" where
  "wtd_items [] ps = Some ps"
| "wtd_items (i # is) ps = Option.bind (wtd_item i ps) (wtd_items is)"

section \<open>Field lengths\<close>

text \<open>The length of field \<open>i\<close>; the remainder by \<open>total_cells\<close> panics on an empty screen.\<close>

definition field_length :: "screen5250 \<Rightarrow> field5250 list \<Rightarrow> nat \<Rightarrow> nat option" where
  "field_length s fs i =
     (let total_cells = rows5250 s * cols5250 s;
          count = length fs;
          start = linear_pos s (f_row (fs ! i)) (f_col (fs ! i))
      in if total_cells = 0 then None
         else let data_start = (start + 1) mod total_cells;
                  stop = (if i + 1 < count
                          then linear_pos s (f_row (fs ! (i + 1))) (f_col (fs ! (i + 1)))
                          else if count > 1 then linear_pos s (f_row (fs ! 0)) (f_col (fs ! 0))
                          else start);
                  len = (if stop > data_start then stop - data_start
                         else if stop = data_start \<and> count = 1 then total_cells - 1
                         else (total_cells - data_start) + stop)
              in Some (len mod 2 ^ 16))"

definition compute_field_lengths :: "screen5250 \<Rightarrow> screen5250 option" where
  "compute_field_lengths s =
     map_option
       (\<lambda>lens. s\<lparr>fields5250 := map2 (\<lambda>f l. f\<lparr>f_length := l\<rparr>) (fields5250 s) lens\<rparr>)
       (those (map (field_length s (fields5250 s)) [0..<length (fields5250 s)]))"

definition apply_wtd :: "item5250 list \<Rightarrow> screen5250 \<Rightarrow> screen5250 option" where
  "apply_wtd is s =
     Option.bind (wtd_items is ((cursor_row s, cursor_col s), s)) (\<lambda>(p, s'). compute_field_lengths s')"

definition apply_record :: "record5250 \<Rightarrow> screen5250 \<Rightarrow> screen5250 option" where
  "apply_record r s =
     (case rec_opcode r of
        ClearUnit \<Rightarrow> Some (clear5250 s)
      | ClearFormatTable \<Rightarrow> Some (clear_fields s)
      | WriteToDisplay \<Rightarrow> apply_wtd (rec_orders r) s
      | WriteToDisplayAlt \<Rightarrow> apply_wtd (rec_orders r) s)"

section \<open>Reading fields\<close>

fun read_cells :: "screen5250 \<Rightarrow> nat \<Rightarrow> position \<Rightarrow> uchar list option" where
  "read_cells s 0 p = Some []"
| "read_cells s (Suc n) p = do {
     c \<leftarrow> cell_opt s (offset5250 s p);
     r \<leftarrow> read_cells s n (advance_pos s p);
     Some (char5250 c # r)
   }"

definition read_field :: "screen5250 \<Rightarrow> nat \<Rightarrow> uchar list option option" where
  "read_field s i =
     (if i < length (fields5250 s)
      then let f = fields5250 s ! i
           in map_option Some (read_cells s (f_length f) (advance_pos s (f_row f, f_col f)))
      else Some None)"

fun modified_fields_from :: "screen5250 \<Rightarrow> nat \<Rightarrow> field5250 list \<Rightarrow> (nat \<times> nat \<times> bytes) list option" where
  "modified_fields_from s i [] = Some []"
| "modified_fields_from s i (f # fs) = do {
     r \<leftarrow> (if f_modified f then read_field s i else Some None);
     rest \<leftarrow> modified_fields_from s (i + 1) fs;
     Some (case r of Some txt \<Rightarrow> (f_row f, f_col f, encode_string txt Cp037) # rest | None \<Rightarrow> rest)
   }"

definition read_modified5250 :: "screen5250 \<Rightarrow> (nat \<times> nat \<times> bytes) list option" where
  "read_modified5250 s = modified_fields_from s 0 (fields5250 s)"

section \<open>The operator's side\<close>

definition cursor_inside :: "screen5250 \<Rightarrow> field5250 \<Rightarrow> bool option" where
  "cursor_inside s f =
     (let total_cells = rows5250 s * cols5250 s;
          cursor_linear = linear_pos s (cursor_row s) (cursor_col s);
          attr_linear = linear_pos s (f_row f) (f_col f)
      in if total_cells = 0 then None
         else let data_start = (attr_linear + 1) mod total_cells;
                  data_end = (data_start + f_length f) mod total_cells
              in Some (if data_start \<le> data_end
                       then data_start \<le> cursor_linear \<and> cursor_linear < data_end
                       else data_start \<le> cursor_linear \<or> cursor_linear < data_end))"

fun find_inside :: "screen5250 \<Rightarrow> nat \<Rightarrow> field5250 list \<Rightarrow> nat option option" where
  "find_inside s i [] = Some None"
| "find_inside s i (f # fs) = do {
     b \<leftarrow> cursor_inside s f;
     if b then Some (Some i) else find_inside s (i + 1) fs
   }"

definition field_index_at_cursor :: "screen5250 \<Rightarrow> nat option option" where
  "field_index_at_cursor s = find_inside s 0 (fields5250 s)"

definition is_ascii_alphabetic :: "uchar \<Rightarrow> bool" where
  "is_ascii_alphabetic ch \<longleftrightarrow> 65 \<le> ch \<and> ch \<le> 90 \<or> 97 \<le> ch \<and> ch \<le> 122"

definition is_digit_char :: "uchar \<Rightarrow> bool" where
  "is_digit_char ch \<longleftrightarrow> 48 \<le> ch \<and> ch \<le> 57"

fun is_valid_for_shift :: "uchar \<Rightarrow> field_shift \<Rightarrow> bool" where
  "is_valid_for_shift ch ShAlpha \<longleftrightarrow> True"
| "is_valid_for_shift ch ShAlphaOnly \<longleftrightarrow> is_ascii_alphabetic ch \<or> ch \<in> set [32, 46, 44, 45, 43]"
| "is_valid_for_shift ch ShNumeric \<longleftrightarrow> is_digit_char ch \<or> ch \<in> set [32, 46, 44, 45, 43, 36, 42]"
| "is_valid_for_shift ch ShNumericOnly \<longleftrightarrow> is_digit_char ch"
| "is_valid_for_shift ch ShSignedNumeric \<longleftrightarrow> is_digit_char ch \<or> ch \<in> set [43, 45]"
| "is_valid_for_shift ch ShKatakana \<longleftrightarrow> True"

definition type_character :: "uchar \<Rightarrow> screen5250 \<Rightarrow> (bool \<times> screen5250) option" where
  "type_character ch s = do {
     r \<leftarrow> field_index_at_cursor s;
     (case r of
        None \<Rightarrow> Some (False, s)
      | Some idx \<Rightarrow>
          (let f = fields5250 s ! idx
           in if bypass (f_control f) then Some (False, s)
              else if \<not> is_valid_for_shift ch (shift (f_control f)) then Some (False, s)
              else do {
                s1 \<leftarrow> upd_cell (\<lambda>c. c\<lparr>char5250 := ch\<rparr>) (offset5250 s (cursor_row s, cursor_col s)) s;
                Some (True, advance_cursor (s1\<lparr>fields5250 := (fields5250 s1)[idx := f\<lparr>f_modified := True\<rparr>]\<rparr>))
              }))
   }"

text \<open>The loops over \<open>offset\<close> of the two tab keys: the first unprotected one of the given indices.\<close>

definition goto_field :: "screen5250 \<Rightarrow> nat list \<Rightarrow> bool \<times> screen5250" where
  "goto_field s idxs =
     (case find (\<lambda>i. \<not> bypass (f_control (fields5250 s ! i))) idxs of
        None \<Rightarrow> (False, s)
      | Some i \<Rightarrow>
          (case advance_pos s (f_row (fields5250 s ! i), f_col (fields5250 s ! i)) of
             (r, c) \<Rightarrow> (True, s\<lparr>cursor_row := r, cursor_col := c\<rparr>)))"

definition tab_forward5250 :: "screen5250 \<Rightarrow> (bool \<times> screen5250) option" where
  "tab_forward5250 s =
     (if fields5250 s = [] then Some (False, s)
      else do {
        cur \<leftarrow> field_index_at_cursor s;
        let start = (case cur of Some i \<Rightarrow> i + 1 | None \<Rightarrow> 0);
        let count = length (fields5250 s);
        Some (goto_field s (map (\<lambda>off. (start + off) mod count) [0..<count]))
      })"

definition tab_backward5250 :: "screen5250 \<Rightarrow> (bool \<times> screen5250) option" where
  "tab_backward5250 s =
     (if fields5250 s = [] then Some (False, s)
      else do {
        cur \<leftarrow> field_index_at_cursor s;
        let start = (case cur of Some i \<Rightarrow> i | None \<Rightarrow> 0);
        let count = length (fields5250 s);
        Some (goto_field s (map (\<lambda>off. (start + count - off) mod count) [1..<count + 1]))
      })"

definition screen_text5250 :: "screen5250 \<Rightarrow> uchar list option" where
  "screen_text5250 s =
     map_option concat (those (map (\<lambda>r.
       map_option (\<lambda>l. (if r > 0 then [10] else []) @ l)
         (those (map (\<lambda>c. map_option char5250 (cell_opt s (offset5250 s (r, c)))) [0..<cols5250 s])))
       [0..<rows5250 s]))"

section \<open>Well-formed screens\<close>

definition wf5250 :: "screen5250 \<Rightarrow> bool" where
  "wf5250 s \<longleftrightarrow> rows5250 s < 2 ^ 16 \<and> cols5250 s < 2 ^ 16
     \<and> length (cells s) = rows5250 s * cols5250 s
     \<and> on_screen s (cursor_row s, cursor_col s)
     \<and> (\<forall>f \<in> set (fields5250 s). on_screen s (f_row f, f_col f))"

definition same_grid :: "screen5250 \<Rightarrow> screen5250 \<Rightarrow> bool" where
  "same_grid s t \<longleftrightarrow> rows5250 t = rows5250 s \<and> cols5250 t = cols5250 s"

lemma same_grid_refl [simp]: "same_grid s s"
  by (simp add: same_grid_def)

lemma same_grid_trans: "same_grid s t \<Longrightarrow> same_grid t u \<Longrightarrow> same_grid s u"
  by (simp add: same_grid_def)

lemma same_grid_on_screen: "same_grid s t \<Longrightarrow> on_screen t = on_screen s"
  by (rule ext) (simp add: same_grid_def on_screen_def)

lemma same_grid_advance: "same_grid s t \<Longrightarrow> advance_pos t = advance_pos s"
  by (rule ext) (simp add: same_grid_def advance_pos_def Let_def cong: if_cong)

lemma same_grid_offset: "same_grid s t \<Longrightarrow> offset5250 t = offset5250 s"
  by (rule ext) (simp add: same_grid_def offset5250_def)

lemma offset_less:
  assumes "on_screen s p"
  shows "offset5250 s p < rows5250 s * cols5250 s"
proof -
  have "offset5250 s p < Suc (fst p) * cols5250 s"
    using assms by (simp add: on_screen_def offset5250_def)
  also have "\<dots> \<le> rows5250 s * cols5250 s"
    using assms by (intro mult_right_mono) (simp_all add: on_screen_def)
  finally show ?thesis .
qed

lemma offset_inj:
  assumes "on_screen s p" "on_screen s q" "offset5250 s p = offset5250 s q"
  shows "p = q"
proof -
  have c: "snd p < cols5250 s" "snd q < cols5250 s" using assms by (simp_all add: on_screen_def)
  then have "offset5250 s p div cols5250 s = fst p" "offset5250 s q div cols5250 s = fst q"
    by (simp_all add: offset5250_def)
  moreover have "offset5250 s p mod cols5250 s = snd p" "offset5250 s q mod cols5250 s = snd q"
    using c by (simp_all add: offset5250_def)
  ultimately show ?thesis using assms(3) by (simp add: prod_eq_iff)
qed

lemma advance_on_screen:
  assumes "wf5250 s" "on_screen s p"
  shows "on_screen s (advance_pos s p)"
    and "offset5250 s (advance_pos s p) = Suc (offset5250 s p) mod (rows5250 s * cols5250 s)"
proof -
  have w: "fst p < rows5250 s" "snd p < cols5250 s" "rows5250 s < 2 ^ 16" "cols5250 s < 2 ^ 16"
    using assms by (simp_all add: wf5250_def on_screen_def)
  then have m: "Suc (snd p) mod 65536 = Suc (snd p)" "Suc (fst p) mod 65536 = Suc (fst p)" by simp_all
  have adv: "advance_pos s p = (if cols5250 s \<le> snd p + 1
      then (if rows5250 s \<le> fst p + 1 then (0, 0) else (fst p + 1, 0)) else (fst p, snd p + 1))"
    by (simp add: advance_pos_def m Let_def)
  show "on_screen s (advance_pos s p)"
    using w by (auto simp: adv on_screen_def)
  consider "snd p + 1 < cols5250 s" | "snd p + 1 = cols5250 s" "fst p + 1 < rows5250 s"
    | "snd p + 1 = cols5250 s" "fst p + 1 = rows5250 s"
    using w by linarith
  then show "offset5250 s (advance_pos s p) = Suc (offset5250 s p) mod (rows5250 s * cols5250 s)"
  proof cases
    case 1
    then have a: "advance_pos s p = (fst p, snd p + 1)" by (simp add: adv)
    have "on_screen s (fst p, snd p + 1)" using 1 w by (simp add: on_screen_def)
    from offset_less [OF this] a show ?thesis by (simp add: offset5250_def)
  next
    case 2
    then have a: "advance_pos s p = (fst p + 1, 0)" by (simp add: adv)
    have "on_screen s (fst p + 1, 0)" using 2 w by (simp add: on_screen_def)
    from offset_less [OF this] a 2 show ?thesis by (simp add: offset5250_def)
  next
    case 3
    then have a: "advance_pos s p = (0, 0)" by (simp add: adv)
    have "Suc (offset5250 s p) = fst p * cols5250 s + cols5250 s"
      using 3 by (simp add: offset5250_def)
    also have "\<dots> = Suc (fst p) * cols5250 s" by simp
    also have "\<dots> = rows5250 s * cols5250 s" using 3 by simp
    finally show ?thesis using a by (simp add: offset5250_def)
  qed
qed

lemma upd_cell_wf:
  assumes "wf5250 s" "on_screen s p"
  shows "upd_cell f (offset5250 s p) s =
    Some (s\<lparr>cells := (cells s)[offset5250 s p := f (cells s ! offset5250 s p)]\<rparr>)"
  using assms offset_less [OF assms(2)] by (simp add: upd_cell_def wf5250_def)

lemma put_char_wf:
  assumes "wf5250 s" "on_screen s p"
  shows "put_char p ch s = Some (s\<lparr>cells :=
    (cells s)[offset5250 s p := (cells s ! offset5250 s p)\<lparr>char5250 := ch\<rparr>]\<rparr>)"
  using upd_cell_wf [OF assms] assms(2) by (simp add: put_char_def)

lemma wf5250_cells: "wf5250 s \<Longrightarrow> length b = length (cells s) \<Longrightarrow> wf5250 (s\<lparr>cells := b\<rparr>)"
  by (simp add: wf5250_def on_screen_def)

lemma same_grid_cells [simp]: "same_grid s (s\<lparr>cells := b\<rparr>)"
  by (simp add: same_grid_def)

section \<open>The fill loop\<close>

definition filled :: "position \<Rightarrow> uchar \<Rightarrow> position \<Rightarrow> screen5250 \<Rightarrow> cell5250 list" where
  "filled target ch p s =
     (let n = length (cells s); a = offset5250 s p; b = offset5250 s target
      in map (\<lambda>i. if cyc_dist n a i \<le> cyc_dist n a b then (cells s ! i)\<lparr>char5250 := ch\<rparr>
                  else cells s ! i) [0..<n])"

lemma length_filled [simp]: "length (filled target ch p s) = length (cells s)"
  by (simp add: filled_def Let_def)

lemma filled_here:
  assumes "offset5250 s p < length (cells s)"
  shows "filled p ch p s =
    (cells s)[offset5250 s p := (cells s ! offset5250 s p)\<lparr>char5250 := ch\<rparr>]"
  by (rule nth_equalityI)
    (use assms cyc_dist_eq_0 in \<open>auto simp: filled_def Let_def nth_list_update\<close>)

lemma filled_step:
  assumes "wf5250 s" "on_screen s p" "on_screen s target" "p \<noteq> target"
  shows "filled target ch (advance_pos s p) (s\<lparr>cells :=
      (cells s)[offset5250 s p := (cells s ! offset5250 s p)\<lparr>char5250 := ch\<rparr>]\<rparr>) = filled target ch p s"
    (is "filled target ch _ ?t = _")
proof (rule nth_equalityI)
  let ?n = "length (cells s)" and ?a = "offset5250 s p" and ?b = "offset5250 s target"
  have n: "?n = rows5250 s * cols5250 s" using assms(1) by (simp add: wf5250_def)
  have a: "?a < ?n" and b: "?b < ?n" using assms(2,3) offset_less n by simp_all
  have ab: "?a \<noteq> ?b" using offset_inj assms(2-4) by blast
  then have d: "0 < cyc_dist ?n ?a ?b" "cyc_dist ?n ?a ?b < ?n"
    using cyc_dist_eq_0 [OF a b] cyc_dist_less [OF a b] by simp_all
  have a': "offset5250 s (advance_pos s p) = Suc ?a mod ?n"
    using advance_on_screen(2) [OF assms(1,2)] n by simp
  have off: "offset5250 ?t = offset5250 s" by (rule same_grid_offset) simp
  fix i assume "i < length (filled target ch (advance_pos s p) ?t)"
  then have i: "i < ?n" by simp
  show "filled target ch (advance_pos s p) ?t ! i = filled target ch p s ! i"
  proof (cases "i = ?a")
    case True
    then show ?thesis using a b d ab by (simp add: filled_def Let_def off a' cyc_dist_next)
  next
    case False
    then have "0 < cyc_dist ?n ?a i" using cyc_dist_eq_0 [OF a i] by simp
    then have "cyc_dist ?n ?a i - 1 \<le> cyc_dist ?n ?a ?b - 1 \<longleftrightarrow> cyc_dist ?n ?a i \<le> cyc_dist ?n ?a ?b"
      using d by linarith
    then show ?thesis using False a b i ab by (simp add: filled_def Let_def off a' cyc_dist_next)
  qed
qed simp

lemma fill_to_fills:
  assumes "wf5250 s" "on_screen s p" "on_screen s target"
  shows "fill_to target ch p s = Some (advance_pos s target, s\<lparr>cells := filled target ch p s\<rparr>)"
  using assms
proof (induction "cyc_dist (length (cells s)) (offset5250 s p) (offset5250 s target)" arbitrary: s p)
  case 0
  have n: "length (cells s) = rows5250 s * cols5250 s" using 0(2) by (simp add: wf5250_def)
  have "offset5250 s p = offset5250 s target"
    using 0 cyc_dist_eq_0 [of "offset5250 s p" "length (cells s)" "offset5250 s target"] offset_less n
    by simp
  then have "p = target" using offset_inj 0(3,4) by blast
  then show ?case
    using put_char_wf [OF 0(2,3)] filled_here [of s p ch] offset_less [OF 0(3)] n
      same_grid_advance [OF same_grid_cells]
    by (subst fill_to.simps) simp
next
  case (Suc k)
  let ?s = "s\<lparr>cells := (cells s)[offset5250 s p := (cells s ! offset5250 s p)\<lparr>char5250 := ch\<rparr>]\<rparr>"
  have n: "length (cells s) = rows5250 s * cols5250 s" using Suc(3) by (simp add: wf5250_def)
  have a: "offset5250 s p < length (cells s)" "offset5250 s target < length (cells s)"
    using offset_less Suc(4,5) n by simp_all
  have ne: "p \<noteq> target" using Suc(2) by auto
  have wf: "wf5250 ?s" using Suc(3) by (simp add: wf5250_cells)
  have grid: "same_grid s ?s" by simp
  have "fill_to target ch (advance_pos s p) ?s =
      Some (advance_pos ?s target, ?s\<lparr>cells := filled target ch (advance_pos s p) ?s\<rparr>)"
  proof (rule Suc.hyps(1) [OF _ wf])
    have "offset5250 s p \<noteq> offset5250 s target" using offset_inj Suc(4,5) ne by blast
    then show "k = cyc_dist (length (cells ?s)) (offset5250 ?s (advance_pos s p)) (offset5250 ?s target)"
      using Suc(2) a advance_on_screen(2) [OF Suc(3,4)] n same_grid_offset [OF grid]
      by (simp add: cyc_dist_next)
    show "on_screen ?s (advance_pos s p)" "on_screen ?s target"
      using advance_on_screen(1) [OF Suc(3,4)] Suc(5) same_grid_on_screen [OF grid] by simp_all
  qed
  then show ?case
    using put_char_wf [OF Suc(3,4)] ne filled_step [OF Suc(3-5) ne, of ch] same_grid_advance [OF grid]
    by (subst fill_to.simps) simp
qed

text \<open>With a target outside the screen the loop has no way to end.\<close>

lemma fill_to_leaves_screen:
  assumes "fill_to target ch p s = Some r" "wf5250 s" "on_screen s p"
  shows "on_screen s target"
proof -
  have "wf5250 s \<longrightarrow> on_screen s p \<longrightarrow> on_screen s target"
  proof (rule fill_to.raw_induct [OF _ assms(1)])
    fix f target ch p s r
    assume IH: "\<And>target ch p s r. f target ch p s = Some r \<Longrightarrow>
        wf5250 s \<longrightarrow> on_screen s p \<longrightarrow> on_screen s target"
      and body: "put_char p ch s \<bind> (\<lambda>s'. if p = target then Some (advance_pos s' p, s')
          else f target ch (advance_pos s' p) s') = Some r"
    show "wf5250 s \<longrightarrow> on_screen s p \<longrightarrow> on_screen s target"
    proof (intro impI)
      assume wf: "wf5250 s" and p: "on_screen s p"
      let ?s = "s\<lparr>cells := (cells s)[offset5250 s p := (cells s ! offset5250 s p)\<lparr>char5250 := ch\<rparr>]\<rparr>"
      have grid: "same_grid s ?s" by simp
      show "on_screen s target"
      proof (cases "p = target")
        case True
        with p show ?thesis by simp
      next
        case False
        with body put_char_wf [OF wf p] have "f target ch (advance_pos ?s p) ?s = Some r" by simp
        from IH [OF this] have "on_screen ?s target"
          using wf p advance_on_screen(1) [OF wf p] same_grid_advance [OF grid]
            same_grid_on_screen [OF grid] by (simp add: wf5250_cells)
        then show ?thesis using same_grid_on_screen [OF grid] by simp
      qed
    qed
  qed
  with assms(2,3) show ?thesis by blast
qed

section \<open>Records within the screen\<close>

fun item_in_range :: "screen5250 \<Rightarrow> item5250 \<Rightarrow> bool" where
  "item_in_range s (IOrder (OSba r c)) \<longleftrightarrow> on_screen s (r, c)"
| "item_in_range s (IOrder (ORa r c b)) \<longleftrightarrow> on_screen s (r, c)"
| "item_in_range s (IOrder (OEa r c)) \<longleftrightarrow> on_screen s (r, c)"
| "item_in_range s _ \<longleftrightarrow> True"

definition good_write :: "screen5250 \<Rightarrow> (position \<times> screen5250) option \<Rightarrow> bool" where
  "good_write s r \<longleftrightarrow> (\<exists>q t. r = Some (q, t) \<and> wf5250 t \<and> same_grid s t \<and> on_screen s q)"

lemma good_writeI:
  "wf5250 t \<Longrightarrow> same_grid s t \<Longrightarrow> on_screen s q \<Longrightarrow> good_write s (Some (q, t))"
  by (simp add: good_write_def)

lemma put_advance_good:
  assumes "wf5250 s" "on_screen s p"
  shows "good_write s (Option.bind (put_char p ch s) (\<lambda>s'. Some (advance_pos s' p, s')))"
  unfolding put_char_wf [OF assms] Option.bind.simps same_grid_advance [OF same_grid_cells]
  by (intro good_writeI wf5250_cells assms advance_on_screen) simp_all

lemma put_bytes_good:
  "wf5250 s \<Longrightarrow> on_screen s p \<Longrightarrow> good_write s (put_bytes bs (p, s))"
proof (induction bs arbitrary: p s)
  case Nil
  then show ?case by (simp add: good_writeI)
next
  case (Cons b bs)
  from put_advance_good [OF Cons.prems, of "ebcdic_to_unicode b Cp037"] obtain t
    where t: "put_char p (ebcdic_to_unicode b Cp037) s = Some t" "wf5250 t" "same_grid s t"
      "on_screen s (advance_pos t p)"
    by (auto simp: good_write_def bind_eq_Some_conv)
  from Cons.IH [OF t(2), of "advance_pos t p"] t show ?case
    by (auto simp: good_write_def same_grid_on_screen intro: same_grid_trans)
qed

lemma extended_attribute_good:
  "wf5250 s \<Longrightarrow> wf5250 (apply_extended_attribute off ty v s) \<and> same_grid s (apply_extended_attribute off ty v s)"
  by (auto simp: apply_extended_attribute_def Let_def wf5250_cells)

lemma wtd_item_good:
  assumes wf: "wf5250 s" and p: "on_screen s p" and i: "item_in_range s i"
  shows "good_write s (wtd_item i (p, s))"
proof (cases i)
  case (IChar b)
  with put_advance_good [OF wf p] show ?thesis by simp
next
  case (IOrder ord)
  show ?thesis
  proof (cases ord)
    case (OSf w)
    let ?s1 = "s\<lparr>cells := (cells s)[offset5250 s p := (\<lambda>c. c\<lparr>field_start := True, char5250 := 32\<rparr>)
        (cells s ! offset5250 s p)]\<rparr>"
    let ?s2 = "?s1\<lparr>fields5250 := fields5250 ?s1 @ [\<lparr>f_row = fst p, f_col = snd p, f_length = 0,
        f_control = w, f_modified = fcw_modified w\<rparr>]\<rparr>"
    have "wtd_item i (p, s) = Some (advance_pos ?s2 p, ?s2)"
      using IOrder OSf p upd_cell_wf [OF wf p, of "\<lambda>c. c\<lparr>field_start := True, char5250 := 32\<rparr>"] by simp
    moreover have "wf5250 ?s2" using wf p by (auto simp: wf5250_def on_screen_def)
    moreover have "same_grid s ?s2" by (simp add: same_grid_def)
    ultimately show ?thesis
      using advance_on_screen(1) [OF wf p] same_grid_advance by (auto simp: good_write_def)
  next
    case (ORa r c b)
    with IOrder i fill_to_fills [OF wf p, of "(r, c)"] advance_on_screen(1) [OF wf, of "(r, c)"] wf
    show ?thesis by (auto intro!: good_writeI wf5250_cells)
  next
    case (OEa r c)
    with IOrder i fill_to_fills [OF wf p, of "(r, c)"] advance_on_screen(1) [OF wf, of "(r, c)"] wf
    show ?thesis by (auto intro!: good_writeI wf5250_cells)
  next
    case (OTd bs)
    with IOrder put_bytes_good [OF wf p] show ?thesis by simp
  next
    case OIc
    with IOrder wf p show ?thesis
      by (auto simp: wf5250_def on_screen_def same_grid_def intro!: good_writeI)
  next
    case (OWea ty v)
    with IOrder wf p extended_attribute_good [OF wf] show ?thesis by (simp add: good_writeI)
  qed (use IOrder wf p i in \<open>simp_all add: good_writeI\<close>)
qed

lemma item_in_range_same: "same_grid s t \<Longrightarrow> item_in_range t i = item_in_range s i"
proof (cases i)
  case (IOrder ord)
  then show "same_grid s t \<Longrightarrow> item_in_range t i = item_in_range s i"
    by (cases ord) (simp_all add: same_grid_on_screen)
qed simp

lemma wtd_items_good:
  "wf5250 s \<Longrightarrow> on_screen s p \<Longrightarrow> \<forall>i \<in> set is. item_in_range s i \<Longrightarrow> good_write s (wtd_items is (p, s))"
proof (induction "is" arbitrary: p s)
  case Nil
  then show ?case by (simp add: good_writeI)
next
  case (Cons i "is")
  from wtd_item_good [OF Cons.prems(1,2), of i] Cons.prems(3) obtain q t
    where t: "wtd_item i (p, s) = Some (q, t)" "wf5250 t" "same_grid s t" "on_screen s q"
    by (auto simp: good_write_def)
  have "good_write t (wtd_items is (q, t))"
    using Cons.IH [OF t(2), of q] Cons.prems(3) t(3,4)
    by (simp add: same_grid_on_screen item_in_range_same)
  then show ?case using t
    by (auto simp: good_write_def same_grid_on_screen intro: same_grid_trans)
qed

lemma those_Some: "those (map (\<lambda>i. Some (f i)) xs) = Some (map f xs)"
  by (induction xs) simp_all

lemma wf5250_total: "wf5250 s \<Longrightarrow> 0 < rows5250 s * cols5250 s"
  by (auto simp: wf5250_def on_screen_def)

lemma compute_field_lengths_good:
  assumes "wf5250 s"
  shows "\<exists>t. compute_field_lengths s = Some t \<and> wf5250 t \<and> same_grid s t"
proof -
  let ?fs = "fields5250 s"
  have "\<exists>l. field_length s ?fs i = Some l" for i
    using wf5250_total [OF assms] by (simp add: field_length_def Let_def)
  then obtain l where l: "field_length s ?fs = (\<lambda>i. Some (l i))" by metis
  let ?new = "map2 (\<lambda>f l. f\<lparr>f_length := l\<rparr>) ?fs (map l [0..<length ?fs])"
  have "compute_field_lengths s = Some (s\<lparr>fields5250 := ?new\<rparr>)"
    by (simp add: compute_field_lengths_def l those_Some)
  moreover have "\<forall>f \<in> set ?new. on_screen s (f_row f, f_col f)"
    using assms by (auto simp: wf5250_def dest: set_zip_leftD)
  then have "wf5250 (s\<lparr>fields5250 := ?new\<rparr>)" using assms by (simp add: wf5250_def on_screen_def)
  ultimately show ?thesis by (auto simp: same_grid_def)
qed

lemma apply_wtd_good:
  assumes "wf5250 s" "\<forall>i \<in> set is. item_in_range s i"
  shows "\<exists>t. apply_wtd is s = Some t \<and> wf5250 t \<and> same_grid s t"
proof -
  have "on_screen s (cursor_row s, cursor_col s)" using assms(1) by (simp add: wf5250_def)
  from wtd_items_good [OF assms(1) this assms(2)] obtain q t
    where t: "wtd_items is ((cursor_row s, cursor_col s), s) = Some (q, t)" "wf5250 t" "same_grid s t"
    by (auto simp: good_write_def)
  from compute_field_lengths_good [OF t(2)] t show ?thesis
    by (auto simp: apply_wtd_def intro: same_grid_trans)
qed

lemma length_fold_upd:
  "length (fold (\<lambda>f b. let off = offset5250 s (f_row f, f_col f)
      in if off < length b then b[off := (b ! off)\<lparr>field_start := False\<rparr>] else b) fs b) = length b"
  by (induction fs arbitrary: b) (simp_all add: Let_def)

lemma apply_record_good:
  assumes "wf5250 s" "\<forall>i \<in> set (rec_orders r). item_in_range s i"
  shows "\<exists>t. apply_record r s = Some t \<and> wf5250 t \<and> same_grid s t"
proof (cases "rec_opcode r")
  case ClearUnit
  then show ?thesis using assms(1)
    by (auto simp: apply_record_def clear5250_def wf5250_def on_screen_def same_grid_def)
next
  case ClearFormatTable
  then show ?thesis using assms(1)
    by (auto simp: apply_record_def clear_fields_def wf5250_def on_screen_def same_grid_def length_fold_upd)
qed (use apply_wtd_good [OF assms] in \<open>simp_all add: apply_record_def\<close>)

section \<open>The operator's keys are safe\<close>

lemma find_inside_good:
  assumes "wf5250 s"
  shows "\<exists>r. find_inside s i fs = Some r \<and> (\<forall>k. r = Some k \<longrightarrow> i \<le> k \<and> k < i + length fs)"
proof (induction fs arbitrary: i)
  case (Cons f fs)
  obtain b where b: "cursor_inside s f = Some b"
    using wf5250_total [OF assms] by (auto simp: cursor_inside_def Let_def)
  from Cons.IH [of "i + 1"] b show ?case by fastforce
qed simp

lemma field_index_good:
  assumes "wf5250 s"
  shows "\<exists>r. field_index_at_cursor s = Some r \<and> (\<forall>k. r = Some k \<longrightarrow> k < length (fields5250 s))"
  using find_inside_good [OF assms, of 0 "fields5250 s"] by (auto simp: field_index_at_cursor_def)

lemma wf5250_set_cursor:
  assumes "wf5250 s" "on_screen s p"
  shows "wf5250 (s\<lparr>cursor_row := fst p, cursor_col := snd p\<rparr>)"
  using assms by (simp add: wf5250_def on_screen_def)

lemma goto_field_good:
  assumes "wf5250 s" "\<forall>i \<in> set idxs. i < length (fields5250 s)"
  shows "wf5250 (snd (goto_field s idxs)) \<and> same_grid s (snd (goto_field s idxs))"
proof (cases "find (\<lambda>i. \<not> bypass (f_control (fields5250 s ! i))) idxs")
  case None
  with assms show ?thesis by (simp add: goto_field_def)
next
  case (Some i)
  then have "i \<in> set idxs" by (auto simp: find_Some_iff)
  then have "fields5250 s ! i \<in> set (fields5250 s)" using assms(2) by simp
  then have "on_screen s (f_row (fields5250 s ! i), f_col (fields5250 s ! i))"
    using assms(1) by (simp add: wf5250_def)
  from wf5250_set_cursor [OF assms(1) advance_on_screen(1) [OF assms(1) this]] Some show ?thesis
    by (simp add: goto_field_def case_prod_beta same_grid_def)
qed

lemma tab_good:
  assumes "wf5250 s"
  shows "\<exists>b t. tab_forward5250 s = Some (b, t) \<and> wf5250 t \<and> same_grid s t"
    and "\<exists>b t. tab_backward5250 s = Some (b, t) \<and> wf5250 t \<and> same_grid s t"
proof -
  obtain r where r: "field_index_at_cursor s = Some r" using field_index_good [OF assms] by blast
  show "\<exists>b t. tab_forward5250 s = Some (b, t) \<and> wf5250 t \<and> same_grid s t"
  proof (cases "fields5250 s = []")
    case False
    then show ?thesis using r
        goto_field_good [OF assms, of "map (\<lambda>off. ((case r of Some i \<Rightarrow> i + 1 | None \<Rightarrow> 0) + off)
          mod length (fields5250 s)) [0..<length (fields5250 s)]"]
      by (auto simp: tab_forward5250_def) (metis prod.collapse)
  qed (use assms in \<open>auto simp: tab_forward5250_def\<close>)
  show "\<exists>b t. tab_backward5250 s = Some (b, t) \<and> wf5250 t \<and> same_grid s t"
  proof (cases "fields5250 s = []")
    case False
    then show ?thesis using r
        goto_field_good [OF assms, of "map (\<lambda>off. ((case r of Some i \<Rightarrow> i | None \<Rightarrow> 0)
          + length (fields5250 s) - off) mod length (fields5250 s)) [1..<length (fields5250 s) + 1]"]
      by (auto simp: tab_backward5250_def simp del: upt_Suc) (metis prod.collapse)
  qed (use assms in \<open>auto simp: tab_backward5250_def\<close>)
qed

definition typed5250 :: "uchar \<Rightarrow> nat \<Rightarrow> screen5250 \<Rightarrow> screen5250" where
  "typed5250 ch idx s =
     (let off = offset5250 s (cursor_row s, cursor_col s)
      in advance_cursor (s\<lparr>cells := (cells s)[off := (cells s ! off)\<lparr>char5250 := ch\<rparr>],
           fields5250 := (fields5250 s)[idx := (fields5250 s ! idx)\<lparr>f_modified := True\<rparr>]\<rparr>))"

lemma type_character_wf:
  assumes "wf5250 s" "field_index_at_cursor s = Some r"
  shows "type_character ch s = Some (case r of
      None \<Rightarrow> (False, s)
    | Some idx \<Rightarrow>
        if bypass (f_control (fields5250 s ! idx))
           \<or> \<not> is_valid_for_shift ch (shift (f_control (fields5250 s ! idx)))
        then (False, s) else (True, typed5250 ch idx s))"
  using assms upd_cell_wf [OF assms(1), of "(cursor_row s, cursor_col s)"]
  by (auto simp: type_character_def typed5250_def Let_def wf5250_def split: option.splits)

lemma typed5250_good:
  assumes "wf5250 s" "idx < length (fields5250 s)"
  shows "wf5250 (typed5250 ch idx s) \<and> same_grid s (typed5250 ch idx s)
    \<and> cells (typed5250 ch idx s) = (cells s)[offset5250 s (cursor_row s, cursor_col s) :=
         (cells s ! offset5250 s (cursor_row s, cursor_col s))\<lparr>char5250 := ch\<rparr>]
    \<and> fields5250 (typed5250 ch idx s) = (fields5250 s)[idx := (fields5250 s ! idx)\<lparr>f_modified := True\<rparr>]
    \<and> (cursor_row (typed5250 ch idx s), cursor_col (typed5250 ch idx s)) =
        advance_pos s (cursor_row s, cursor_col s)"
proof -
  let ?c = "(cursor_row s, cursor_col s)"
  let ?t = "s\<lparr>cells := (cells s)[offset5250 s ?c := (cells s ! offset5250 s ?c)\<lparr>char5250 := ch\<rparr>],
           fields5250 := (fields5250 s)[idx := (fields5250 s ! idx)\<lparr>f_modified := True\<rparr>]\<rparr>"
  have c: "on_screen s ?c" using assms(1) by (simp add: wf5250_def)
  have fld: "fields5250 s ! idx \<in> set (fields5250 s)" using assms(2) by simp
  have "\<forall>f \<in> set (fields5250 ?t). on_screen s (f_row f, f_col f)"
  proof
    fix f assume "f \<in> set (fields5250 ?t)"
    then have "f \<in> insert ((fields5250 s ! idx)\<lparr>f_modified := True\<rparr>) (set (fields5250 s))"
      using set_update_subset_insert by fastforce
    then show "on_screen s (f_row f, f_col f)" using assms(1) fld by (auto simp: wf5250_def)
  qed
  then have wf: "wf5250 ?t" using assms(1) by (simp add: wf5250_def on_screen_def)
  have grid: "same_grid s ?t" by (simp add: same_grid_def)
  have adv: "advance_pos ?t ?c = advance_pos s ?c" using same_grid_advance [OF grid] by simp
  have "on_screen ?t (advance_pos s ?c)"
    using advance_on_screen(1) [OF assms(1) c] same_grid_on_screen [OF grid] by simp
  from wf5250_set_cursor [OF wf this] show ?thesis
    using grid by (simp add: typed5250_def Let_def advance_cursor_def case_prod_beta adv same_grid_def)
qed

section \<open>The screen as a machine\<close>

datatype event5250 = HostRecord record5250 | TypeKey uchar | FieldTab | FieldBackTab

fun step5250 :: "screen5250 \<Rightarrow> event5250 \<Rightarrow> screen5250 option" where
  "step5250 s (HostRecord r) = apply_record r s"
| "step5250 s (TypeKey ch) = map_option snd (type_character ch s)"
| "step5250 s FieldTab = map_option snd (tab_forward5250 s)"
| "step5250 s FieldBackTab = map_option snd (tab_backward5250 s)"

definition admissible :: "screen5250 \<Rightarrow> event5250 \<Rightarrow> bool" where
  "admissible s e = (case e of HostRecord r \<Rightarrow> \<forall>i \<in> set (rec_orders r). item_in_range s i | _ \<Rightarrow> True)"

interpretation display: guarded_machine step5250 wf5250 admissible same_grid
proof
  show "\<exists>t. step5250 s e = Some t \<and> wf5250 t \<and> same_grid s t" if wf: "wf5250 s" and "admissible s e" for s e
  proof (cases e)
    case (HostRecord r)
    with that apply_record_good [OF wf, of r] show ?thesis by (simp add: admissible_def)
  next
    case (TypeKey ch)
    obtain r where r: "field_index_at_cursor s = Some r" "\<forall>k. r = Some k \<longrightarrow> k < length (fields5250 s)"
      using field_index_good [OF wf] by blast
    show ?thesis
    proof (cases r)
      case None
      with TypeKey type_character_wf [OF wf r(1), of ch] wf show ?thesis by simp
    next
      case (Some idx)
      with TypeKey type_character_wf [OF wf r(1), of ch] typed5250_good [OF wf, of idx ch] r(2) wf
      show ?thesis by auto
    qed
  qed (use tab_good [OF wf] in auto)
  show "admissible t e" if "same_grid s t" "admissible s e" for s t e
    using that item_in_range_same [OF that(1)] by (auto simp: admissible_def split: event5250.splits)
qed (auto intro: same_grid_trans)

lemma new_screen5250_wf:
  "0 < r \<Longrightarrow> 0 < c \<Longrightarrow> r < 2 ^ 16 \<Longrightarrow> c < 2 ^ 16 \<Longrightarrow> wf5250 (new_screen5250 r c)"
  by (simp add: wf5250_def new_screen5250_def on_screen_def)

section \<open>Properties\<close>

text \<open>
  C32 (safety). A session whose records address cells of the screen only (SBA, RA and EA; every other
  order and all data are free) never panics and never hangs, whatever the operator types in between:
  the cursor and all fields stay on the screen.
\<close>

theorem display_never_panics:
  assumes "0 < r" "0 < c" "r < 2 ^ 16" "c < 2 ^ 16"
    and "\<forall>e \<in> set es. admissible (new_screen5250 r c) e"
  shows "\<exists>t. run_steps step5250 (new_screen5250 r c) es = Some t \<and> wf5250 t
    \<and> rows5250 t = r \<and> cols5250 t = c"
  using display.run_guarded [OF new_screen5250_wf [OF assms(1-4)] assms(5)]
  by (auto simp: same_grid_def new_screen5250_def)

theorem display_never_panics_witness:
  "\<exists>t. run_steps step5250 (new_screen5250 24 80)
     [HostRecord \<lparr>record_type = 4, rec_opcode = WriteToDisplay,
        rec_orders = [IOrder (OSba 23 70), IOrder (OSf (fcw_from_bytes 0 0)), IOrder (ORa 0 5 0x40), IOrder OIc]\<rparr>,
      TypeKey 65, FieldTab] = Some t \<and> wf5250 t \<and> rows5250 t = 24 \<and> cols5250 t = 80"
  by (rule display_never_panics)
    (simp_all add: admissible_def on_screen_def new_screen5250_def)

text \<open>
  The bound on addresses is necessary: the parser accepts any row and column up to
  254, and a repeat or erase to an address beyond the screen never ends, from any position on it. The
  loop's comment announces a guard that is not there.
\<close>

lemma repeat_beyond_screen_hangs:
  assumes "wf5250 s" "\<not> on_screen s (r, c)" "r < 255" "c < 255"
  shows "(\<exists>rec. parse_5250_record (ser_record 4 0 1 [IOrder (ORa r c b)]) = Ok rec
              \<and> apply_record rec s = None)
    \<and> (\<exists>rec. parse_5250_record (ser_record 4 0 1 [IOrder (OEa r c)]) = Ok rec
              \<and> apply_record rec s = None)"
proof -
  have p: "on_screen s (cursor_row s, cursor_col s)" using assms(1) by (simp add: wf5250_def)
  have hang: "fill_to (r, c) ch (cursor_row s, cursor_col s) s = None" for ch
    using fill_to_leaves_screen [OF _ assms(1) p] assms(2) by (cases "fill_to (r, c) ch (cursor_row s, cursor_col s) s") auto
  have parse: "parse_5250_record (ser_record 4 0 1 [i]) =
      Ok \<lparr>record_type = 4, rec_opcode = WriteToDisplay, rec_orders = [i]\<rparr>"
    if "item_ok5250 i" "length (ser_item5250 i) < 10" for i
  proof -
    have "unat (of_nat (5 + length (ser_item5250 i)) :: u8) = 5 + length (ser_item5250 i)"
      using that(2) by (intro unat_of_nat_small(1)) simp
    moreover have "parse_wtd_payload 0 (ser_item5250 i) = Ok [i]"
      using parse_ser_wtd [of "[i]" 0 "[]"] that(1) by simp
    ultimately show ?thesis using that(2) ser_item_nonempty [of i]
      by (simp add: parse_5250_record_def ser_record_def Let_def MIN_RECORD_LEN_def op_code_from_byte_def
          del: of_nat_add)
  qed
  have run: "apply_record \<lparr>record_type = 4, rec_opcode = WriteToDisplay, rec_orders = [i]\<rparr> s = None"
    if "wtd_item i ((cursor_row s, cursor_col s), s) = None" for i
    using that by (simp add: apply_record_def apply_wtd_def)
  show ?thesis
    using parse [of "IOrder (ORa r c b)"] parse [of "IOrder (OEa r c)"]
      run [of "IOrder (ORa r c b)"] run [of "IOrder (OEa r c)"] hang assms(3,4) by simp
qed

text \<open>
  Repeat to address writes the cells from the current position to the target, the
  target included, going round the end of the screen; no other cell and no attribute changes, and
  writing goes on behind the target.
\<close>

lemma repeat_to_address5250_spec:
  assumes "wf5250 s" "on_screen s p" "on_screen s (r, c)"
  shows "\<exists>t. wtd_item (IOrder (ORa r c b)) (p, s) = Some (advance_pos s (r, c), t)
    \<and> (\<forall>i < length (cells s). cells t ! i =
         (if cyc_dist (length (cells s)) (offset5250 s p) i
             \<le> cyc_dist (length (cells s)) (offset5250 s p) (offset5250 s (r, c))
          then (cells s ! i)\<lparr>char5250 := ebcdic_to_unicode b Cp037\<rparr> else cells s ! i))"
  using fill_to_fills [OF assms] by (simp add: filled_def Let_def)

text \<open>
  Typing: the character is taken only inside a field that is not bypassed and whose
  shift accepts it; then exactly the cell under the cursor changes, exactly that field's modified
  tag is set and the cursor advances. Otherwise nothing changes.
\<close>

lemma typing5250_spec:
  assumes "wf5250 s"
  shows "\<exists>r t. field_index_at_cursor s = Some r
    \<and> type_character ch s = Some ((case r of None \<Rightarrow> False | Some idx \<Rightarrow>
          \<not> bypass (f_control (fields5250 s ! idx))
          \<and> is_valid_for_shift ch (shift (f_control (fields5250 s ! idx)))), t)
    \<and> (t = s \<or> (\<exists>idx. r = Some idx \<and> idx < length (fields5250 s)
          \<and> cells t = (cells s)[offset5250 s (cursor_row s, cursor_col s) :=
               (cells s ! offset5250 s (cursor_row s, cursor_col s))\<lparr>char5250 := ch\<rparr>]
          \<and> fields5250 t = (fields5250 s)[idx := (fields5250 s ! idx)\<lparr>f_modified := True\<rparr>]
          \<and> (cursor_row t, cursor_col t) = advance_pos s (cursor_row s, cursor_col s)))"
proof -
  obtain r where r: "field_index_at_cursor s = Some r" "\<forall>k. r = Some k \<longrightarrow> k < length (fields5250 s)"
    using field_index_good [OF assms] by blast
  show ?thesis
  proof (cases r)
    case None
    with r type_character_wf [OF assms r(1), of ch] show ?thesis by simp
  next
    case (Some idx)
    with r type_character_wf [OF assms r(1), of ch] typed5250_good [OF assms, of idx ch] show ?thesis
      by (cases "bypass (f_control (fields5250 s ! idx))
          \<or> \<not> is_valid_for_shift ch (shift (f_control (fields5250 s ! idx)))") auto
  qed
qed

text \<open>
  A record may leave the cursor off the screen, and then typing panics. On any fresh
  screen, a field at the top left corner (it goes round the whole screen) followed by an Insert
  Cursor at the row below the last one is accepted and applied, and the first character typed
  indexes the buffer out of range.
\<close>

lemma cursor_off_screen_panics:
  assumes "0 < r" "r < 2 ^ 16" "0 < c" "c < 2 ^ 16" "2 \<le> r * c" "r * c < 2 ^ 16"
  shows "\<exists>t. apply_record \<lparr>record_type = 4, rec_opcode = WriteToDisplay,
       rec_orders = [IOrder (OSf (fcw_from_bytes 0 0)), IOrder (OSba r 0), IOrder OIc]\<rparr>
       (new_screen5250 r c) = Some t
     \<and> type_character ch t = None"
proof -
  let ?s = "new_screen5250 r c" and ?w = "fcw_from_bytes 0 0"
  let ?f = "\<lparr>f_row = 0, f_col = 0, f_length = 0, f_control = ?w, f_modified = fcw_modified ?w\<rparr>"
  let ?b = "(cells ?s)[0 := (cells ?s ! 0)\<lparr>field_start := True, char5250 := 32\<rparr>]"
  let ?u = "?s\<lparr>cells := ?b, fields5250 := [?f], cursor_row := r, cursor_col := 0\<rparr>"
  let ?t = "?u\<lparr>fields5250 := [?f\<lparr>f_length := r * c - 1\<rparr>]\<rparr>"
  have wf: "wf5250 ?s" using assms by (intro new_screen5250_wf)
  have o: "on_screen ?s (0, 0)" using assms by (simp add: on_screen_def new_screen5250_def)
  have cur: "cursor_row ?s = 0" "cursor_col ?s = 0" "fields5250 ?s = []" "rows5250 ?s = r" "cols5250 ?s = c"
    by (simp_all add: new_screen5250_def)
  have items: "wtd_items [IOrder (OSf ?w), IOrder (OSba r 0), IOrder OIc] ((0, 0), ?s) = Some ((r, 0), ?u)"
    using upd_cell_wf [OF wf o, of "\<lambda>c. c\<lparr>field_start := True, char5250 := 32\<rparr>"] o cur
    by (simp add: offset5250_def)
  have m: "Suc 0 mod (r * c) = Suc 0" using assms(5) by (intro mod_less) linarith
  have lens: "compute_field_lengths ?u = Some ?t"
    using assms m by (simp add: compute_field_lengths_def field_length_def Let_def linear_pos_def cur)
  have "apply_record \<lparr>record_type = 4, rec_opcode = WriteToDisplay,
       rec_orders = [IOrder (OSf ?w), IOrder (OSba r 0), IOrder OIc]\<rparr> ?s = Some ?t"
    using items lens by (simp add: apply_record_def apply_wtd_def cur)
  moreover have "type_character ch ?t = None"
  proof -
    have "Suc 0 + (r * c - 1) = r * c" using assms(5) by simp
    then have "cursor_inside ?t (?f\<lparr>f_length := r * c - 1\<rparr>) = Some True"
      using assms m by (simp add: cursor_inside_def Let_def linear_pos_def cur)
    then have idx: "field_index_at_cursor ?t = Some (Some 0)"
      by (simp add: field_index_at_cursor_def)
    have "\<not> bypass ?w" "shift ?w = ShAlpha" by (simp_all add: fcw_from_bytes_def Let_def)
    then show ?thesis
      using idx by (simp add: type_character_def upd_cell_def offset5250_def new_screen5250_def)
  qed
  ultimately show ?thesis by blast
qed

text \<open>
  The length of a field is the gap between its attribute and the next field's, but
  when two attributes are adjacent the first field, which has no data cell, gets the length of the
  whole screen instead of 0, and is then read as the whole screen from its successor's attribute on.
\<close>

lemma field_length_spec:
  assumes "wf5250 s" and "i + 1 < length fs"
    and "a = linear_pos s (f_row (fs ! i)) (f_col (fs ! i))"
    and "b = linear_pos s (f_row (fs ! (i + 1))) (f_col (fs ! (i + 1)))"
    and "a < rows5250 s * cols5250 s" "b < rows5250 s * cols5250 s" "a < b"
  shows "field_length s fs i =
    Some ((if b = a + 1 then rows5250 s * cols5250 s else b - a - 1) mod 2 ^ 16)"
proof -
  have m: "Suc a mod (rows5250 s * cols5250 s) = Suc a" using assms(6,7) by simp
  have t: "rows5250 s * cols5250 s \<noteq> 0" using wf5250_total [OF assms(1)] by (simp only: neq0_conv)
  show ?thesis
    using assms(2,6,7) m t assms(3,4) [symmetric]
    by (auto simp: field_length_def Let_def)
qed

end
