(* ===== verification/Utf8.thy ===== *)
theory Utf8
  imports Prelude
begin

text \<open>
  UTF-8 as Rust's standard library has it: the encoding of a scalar value, the validation that
  \<open>str::from_utf8\<close> performs (well-formed byte sequences of the Unicode standard: no overlong forms,
  no surrogates, nothing above U+10FFFF), and \<open>chars().count()\<close>. A \<open>String\<close> or \<open>&str\<close> is its bytes.
\<close>

section \<open>Encoding\<close>

definition is_scalar :: "uchar \<Rightarrow> bool" where
  "is_scalar c \<longleftrightarrow> c < 0xD800 \<or> 0xE000 \<le> c \<and> c < 0x110000"

definition utf8_char :: "uchar \<Rightarrow> bytes" where
  "utf8_char c =
     (if c < 0x80 then [of_nat c]
      else if c < 0x800 then [of_nat (0xC0 + c div 64), of_nat (0x80 + c mod 64)]
      else if c < 0x10000
      then [of_nat (0xE0 + c div 4096), of_nat (0x80 + c div 64 mod 64), of_nat (0x80 + c mod 64)]
      else [of_nat (0xF0 + c div 262144), of_nat (0x80 + c div 4096 mod 64),
            of_nat (0x80 + c div 64 mod 64), of_nat (0x80 + c mod 64)])"

definition utf8 :: "uchar list \<Rightarrow> bytes" where
  "utf8 s = concat (map utf8_char s)"

section \<open>Validation\<close>

definition is_cont :: "u8 \<Rightarrow> bool" where
  "is_cont b \<longleftrightarrow> 0x80 \<le> unat b \<and> unat b < 0xC0"

text \<open>The number of bytes of the valid sequence at the front, if there is one.\<close>

definition valid_front :: "bytes \<Rightarrow> nat option" where
  "valid_front bs =
     (if bs = [] then None
      else let b0 = unat (bs ! 0); b1 = unat (bs ! 1);
               c1 = (1 < length bs \<and> is_cont (bs ! 1));
               c2 = (2 < length bs \<and> is_cont (bs ! 2));
               c3 = (3 < length bs \<and> is_cont (bs ! 3))
           in if b0 < 0x80 then Some 1
              else if 0xC2 \<le> b0 \<and> b0 < 0xE0 then (if c1 then Some 2 else None)
              else if 0xE0 \<le> b0 \<and> b0 < 0xF0
              then (if c1 \<and> c2 \<and> (b0 = 0xE0 \<longrightarrow> 0xA0 \<le> b1) \<and> (b0 = 0xED \<longrightarrow> b1 < 0xA0)
                    then Some 3 else None)
              else if 0xF0 \<le> b0 \<and> b0 < 0xF5
              then (if c1 \<and> c2 \<and> c3 \<and> (b0 = 0xF0 \<longrightarrow> 0x90 \<le> b1) \<and> (b0 = 0xF4 \<longrightarrow> b1 < 0x90)
                    then Some 4 else None)
              else None)"

lemma valid_front_pos: "valid_front bs = Some n \<Longrightarrow> 0 < n"
  by (auto simp: valid_front_def Let_def split: if_splits)

function from_utf8 :: "bytes \<Rightarrow> bool" where
  "from_utf8 bs =
     (if bs = [] then True
      else case valid_front bs of None \<Rightarrow> False | Some n \<Rightarrow> from_utf8 (drop n bs))"
  by pat_completeness auto
termination
  by (relation "measure length") (auto dest: valid_front_pos)

declare from_utf8.simps [simp del]

text \<open>\<open>chars().count()\<close>: the bytes that are not continuation bytes.\<close>

definition char_count :: "bytes \<Rightarrow> nat" where
  "char_count bs = length (filter (\<lambda>b. \<not> is_cont b) bs)"

definition is_ascii :: "bytes \<Rightarrow> bool" where
  "is_ascii bs \<longleftrightarrow> (\<forall>b \<in> set bs. unat b < 0x80)"

text \<open>\<open>UTF8_CHAR_LEN\<close>: the length a lead byte announces, 0 for a byte that cannot lead.\<close>

definition utf8_char_len :: "u8 \<Rightarrow> nat" where
  "utf8_char_len b =
     (if unat b < 0x80 then 1
      else if unat b < 0xC0 then 0
      else if unat b < 0xE0 then 2
      else if unat b < 0xF0 then 3
      else if unat b < 0xF8 then 4
      else 0)"

section \<open>The encoding is valid\<close>

lemma unat_byte: "n < 256 \<Longrightarrow> unat (of_nat n :: u8) = n"
  by (rule unat_of_nat_small(1)) simp

text \<open>The four shapes of an encoded character, with the values of their bytes.\<close>

lemma utf8_char_cases:
  assumes "is_scalar c"
  obtains
    (one) b0 where "utf8_char c = [b0]" "unat b0 = c" "c < 0x80"
  | (two) b0 b1 where "utf8_char c = [b0, b1]" "0xC2 \<le> unat b0" "unat b0 < 0xE0" "is_cont b1"
  | (three) b0 b1 b2 where "utf8_char c = [b0, b1, b2]" "0xE0 \<le> unat b0" "unat b0 < 0xF0"
      "is_cont b1" "is_cont b2" "unat b0 = 0xE0 \<longrightarrow> 0xA0 \<le> unat b1" "unat b0 = 0xED \<longrightarrow> unat b1 < 0xA0"
  | (four) b0 b1 b2 b3 where "utf8_char c = [b0, b1, b2, b3]" "0xF0 \<le> unat b0" "unat b0 < 0xF5"
      "is_cont b1" "is_cont b2" "is_cont b3" "unat b0 = 0xF0 \<longrightarrow> 0x90 \<le> unat b1"
      "unat b0 = 0xF4 \<longrightarrow> unat b1 < 0x90"
proof -
  have cont: "is_cont (of_nat (0x80 + k mod 64))" for k :: nat
  proof -
    have "k mod 64 < 64" by simp
    then show ?thesis unfolding is_cont_def by (subst (1 2) unat_byte) linarith+
  qed
  have m: "k mod 64 < 64" for k :: nat by simp
  consider "c < 0x80" | "0x80 \<le> c" "c < 0x800" | "0x800 \<le> c" "c < 0x10000"
    | "0x10000 \<le> c" "c < 0x110000"
    using assms unfolding is_scalar_def by linarith
  then show thesis
  proof cases
    case 1
    with one [of "of_nat c"] show ?thesis by (simp add: utf8_char_def unat_byte)
  next
    case 2
    then have "unat (of_nat (0xC0 + c div 64) :: u8) = 0xC0 + c div 64"
      by (intro unat_byte) linarith
    with 2 cont [of c] two [of "of_nat (0xC0 + c div 64)" "of_nat (0x80 + c mod 64)"] show ?thesis
      by (simp add: utf8_char_def del: of_nat_add)
  next
    case 3
    have u0: "unat (of_nat (0xE0 + c div 4096) :: u8) = 0xE0 + c div 4096"
      using 3 by (intro unat_byte) linarith
    have u1: "unat (of_nat (0x80 + c div 64 mod 64) :: u8) = 0x80 + c div 64 mod 64"
      using m [of "c div 64"] by (intro unat_byte) linarith
    have lo: "32 \<le> c div 64 mod 64" if "c div 4096 = 0"
    proof -
      have "c div 64 < 64" using that by (simp add: div_eq_0_iff div_less_iff_less_mult)
      moreover have "32 \<le> c div 64" using 3 by linarith
      ultimately show ?thesis by simp
    qed
    have hi: "c div 64 mod 64 < 32" if "c div 4096 = 0xD"
    proof -
      have "c div 64 div 64 = 0xD" using that by (simp add: div_mult2_eq [symmetric])
      moreover have "c div 64 < 0x360" using assms 3 that by (auto simp: is_scalar_def)
      ultimately show ?thesis using div_mult_mod_eq [of "c div 64" 64] by linarith
    qed
    show ?thesis
    proof (rule three)
      show "utf8_char c = [of_nat (0xE0 + c div 4096), of_nat (0x80 + c div 64 mod 64), of_nat (0x80 + c mod 64)]"
        using 3 by (simp add: utf8_char_def)
    qed (use 3 lo hi cont in \<open>simp_all only: u0 u1, (simp | linarith)+\<close>)
  next
    case 4
    have u0: "unat (of_nat (0xF0 + c div 262144) :: u8) = 0xF0 + c div 262144"
      using 4 by (intro unat_byte) linarith
    have u1: "unat (of_nat (0x80 + c div 4096 mod 64) :: u8) = 0x80 + c div 4096 mod 64"
      using m [of "c div 4096"] by (intro unat_byte) linarith
    have d: "c div 4096 div 64 = c div 262144" by (simp add: div_mult2_eq [symmetric])
    have lo: "16 \<le> c div 4096 mod 64" if "c div 262144 = 0"
      using that d 4 div_mult_mod_eq [of "c div 4096" 64] by linarith
    have hi: "c div 4096 mod 64 < 16" if "c div 262144 = 4"
      using that d 4 div_mult_mod_eq [of "c div 4096" 64] by linarith
    show ?thesis
    proof (rule four)
      show "utf8_char c = [of_nat (0xF0 + c div 262144), of_nat (0x80 + c div 4096 mod 64),
          of_nat (0x80 + c div 64 mod 64), of_nat (0x80 + c mod 64)]"
        using 4 by (simp add: utf8_char_def)
    qed (use 4 lo hi cont in \<open>simp_all only: u0 u1, (simp | linarith)+\<close>)
  qed
qed

lemma valid_front_utf8_char:
  assumes "is_scalar c"
  shows "valid_front (utf8_char c @ r) = Some (length (utf8_char c))"
  using assms
proof (cases rule: utf8_char_cases)
  case (one b0)
  then show ?thesis by (simp add: valid_front_def)
next
  case (two b0 b1)
  then show ?thesis by (simp add: valid_front_def)
next
  case (three b0 b1 b2)
  then show ?thesis by (simp add: valid_front_def)
next
  case (four b0 b1 b2 b3)
  then show ?thesis by (simp add: valid_front_def)
qed

lemma char_count_utf8_char: "is_scalar c \<Longrightarrow> char_count (utf8_char c) = 1"
  by (cases c rule: utf8_char_cases) (auto simp: char_count_def is_cont_def)

lemma char_count_append [simp]: "char_count (xs @ ys) = char_count xs + char_count ys"
  by (simp add: char_count_def)

lemma char_count_Nil [simp]: "char_count [] = 0"
  by (simp add: char_count_def)

lemma from_utf8_Nil [simp]: "from_utf8 []"
  by (subst from_utf8.simps) simp

lemma from_utf8_step: "valid_front bs = Some n \<Longrightarrow> from_utf8 bs = from_utf8 (drop n bs)"
  by (subst from_utf8.simps) (auto simp: valid_front_def)

lemma utf8_Cons: "utf8 (c # s) = utf8_char c @ utf8 s"
  by (simp add: utf8_def)

text \<open>A Rust string has a valid encoding, with one non-continuation byte per character.\<close>

lemma from_utf8_utf8: "\<forall>c \<in> set s. is_scalar c \<Longrightarrow> from_utf8 (utf8 s)"
proof (induction s)
  case (Cons c s)
  then show ?case by (simp add: utf8_Cons from_utf8_step [OF valid_front_utf8_char])
qed (simp add: utf8_def)

lemma char_count_utf8: "\<forall>c \<in> set s. is_scalar c \<Longrightarrow> char_count (utf8 s) = length s"
  by (induction s) (auto simp: utf8_Cons char_count_utf8_char, simp add: utf8_def)

section \<open>The shape of a valid string\<close>

lemma valid_front_facts:
  assumes "valid_front bs = Some n"
  shows "n \<le> length bs" "utf8_char_len (bs ! 0) = n" "char_count (take n bs) = 1"
    "n = 1 \<longleftrightarrow> unat (bs ! 0) < 0x80"
proof -
  have take: "take 2 bs = [bs ! 0, bs ! 1]" if "1 < length bs"
    using that by (cases bs; cases "tl bs") (auto simp: numeral_eq_Suc)
  have take3: "take 3 bs = [bs ! 0, bs ! 1, bs ! 2]" if "2 < length bs"
    using that by (intro nth_equalityI) (auto simp: numeral_eq_Suc less_Suc_eq)
  have take4: "take 4 bs = [bs ! 0, bs ! 1, bs ! 2, bs ! 3]" if "3 < length bs"
    using that by (intro nth_equalityI) (auto simp: numeral_eq_Suc less_Suc_eq)
  have take1: "take 1 bs = [bs ! 0]" if "bs \<noteq> []"
    using that by (cases bs) auto
  have ne: "bs \<noteq> []" using assms by (auto simp: valid_front_def)
  consider
    (one) "n = 1" "unat (bs ! 0) < 0x80"
  | (two) "n = 2" "0xC2 \<le> unat (bs ! 0)" "unat (bs ! 0) < 0xE0" "1 < length bs" "is_cont (bs ! 1)"
  | (three) "n = 3" "0xE0 \<le> unat (bs ! 0)" "unat (bs ! 0) < 0xF0" "2 < length bs"
      "is_cont (bs ! 1)" "is_cont (bs ! 2)"
  | (four) "n = 4" "0xF0 \<le> unat (bs ! 0)" "unat (bs ! 0) < 0xF5" "3 < length bs"
      "is_cont (bs ! 1)" "is_cont (bs ! 2)" "is_cont (bs ! 3)"
    using assms by (auto simp: valid_front_def Let_def split: if_splits)
  then have "n \<le> length bs \<and> utf8_char_len (bs ! 0) = n \<and> char_count (take n bs) = 1
      \<and> (n = 1 \<longleftrightarrow> unat (bs ! 0) < 0x80)"
  proof cases
    case one
    moreover have "\<not> is_cont (bs ! 0)" using one by (simp add: is_cont_def)
    moreover have "1 \<le> length bs" using ne by (cases bs) auto
    ultimately show ?thesis using take1 [OF ne] by (simp add: utf8_char_len_def char_count_def)
  next
    case two
    moreover have "\<not> is_cont (bs ! 0)" using two by (simp add: is_cont_def)
    ultimately show ?thesis using take by (simp add: utf8_char_len_def char_count_def)
  next
    case three
    moreover have "\<not> is_cont (bs ! 0)" using three by (simp add: is_cont_def)
    ultimately show ?thesis using take3 by (simp add: utf8_char_len_def char_count_def)
  next
    case four
    moreover have "\<not> is_cont (bs ! 0)" using four by (simp add: is_cont_def)
    ultimately show ?thesis using take4 by (simp add: utf8_char_len_def char_count_def)
  qed
  then show "n \<le> length bs" "utf8_char_len (bs ! 0) = n" "char_count (take n bs) = 1"
    "n = 1 \<longleftrightarrow> unat (bs ! 0) < 0x80" by blast+
qed

text \<open>What follows the first character does not matter to it.\<close>

lemma valid_front_local:
  assumes n: "valid_front bs = Some n" and len: "n \<le> length cs" and nth: "\<And>i. i < n \<Longrightarrow> cs ! i = bs ! i"
  shows "valid_front cs = Some n"
proof -
  have v: "0 < n" "n \<le> length bs" using valid_front_pos [OF n] valid_front_facts(1) [OF n] by auto
  then have ne: "cs \<noteq> []" "bs \<noteq> []" using len by auto
  have 0: "cs ! 0 = bs ! 0" using nth v by simp
  have 1: "cs ! 1 = bs ! 1" if "1 < n" using nth that by simp
  have 2: "cs ! 2 = bs ! 2" if "2 < n" using nth that by simp
  have 3: "cs ! 3 = bs ! 3" if "3 < n" using nth that by simp
  have "n = 1 \<or> n = 2 \<or> n = 3 \<or> n = 4"
    using n by (auto simp: valid_front_def Let_def split: if_splits)
  then show ?thesis
  proof (elim disjE)
    assume "n = 1"
    with n ne 0 show ?thesis by (simp add: valid_front_def Let_def split: if_splits)
  next
    assume "n = 2"
    with n ne 0 1 len show ?thesis by (simp add: valid_front_def Let_def split: if_splits)
  next
    assume "n = 3"
    with n ne 0 1 2 len show ?thesis by (simp add: valid_front_def Let_def split: if_splits)
  next
    assume "n = 4"
    with n ne 0 1 2 3 len show ?thesis by (simp add: valid_front_def Let_def split: if_splits)
  qed
qed

lemma valid_front_append: "valid_front bs = Some n \<Longrightarrow> valid_front (bs @ r) = Some n"
  by (rule valid_front_local) (auto simp: nth_append dest: valid_front_facts(1))

lemma valid_front_take: "valid_front bs = Some n \<Longrightarrow> n \<le> m \<Longrightarrow> valid_front (take m bs) = Some n"
  by (rule valid_front_local) (auto dest: valid_front_facts(1))

lemma from_utf8_one: "valid_front bs = Some n \<Longrightarrow> from_utf8 (take n bs)"
  using from_utf8_step [OF valid_front_take [of bs n n]] by simp

lemma from_utf8_append: "from_utf8 xs \<Longrightarrow> from_utf8 ys \<Longrightarrow> from_utf8 (xs @ ys)"
proof (induction xs rule: from_utf8.induct)
  case (1 xs)
  show ?case
  proof (cases "xs = []")
    case False
    with "1.prems" obtain n where n: "valid_front xs = Some n"
      by (subst (asm) from_utf8.simps) (auto split: option.splits)
    with valid_front_facts [OF n] have "drop n (xs @ ys) = drop n xs @ ys" by simp
    with "1.IH" [OF False n] "1.prems" from_utf8_step [OF n] from_utf8_step [OF valid_front_append [OF n]]
    show ?thesis by simp
  qed (use "1.prems" in simp)
qed

lemma from_utf8_ascii: "is_ascii bs \<Longrightarrow> from_utf8 bs"
proof (induction bs)
  case (Cons b bs)
  then have "valid_front (b # bs) = Some 1" by (simp add: is_ascii_def valid_front_def)
  from from_utf8_step [OF this] Cons show ?case by (simp add: is_ascii_def)
qed simp

lemma char_count_ascii: "is_ascii bs \<Longrightarrow> char_count bs = length bs"
  by (induction bs) (auto simp: is_ascii_def char_count_def is_cont_def)

lemma char_count_le: "char_count bs \<le> length bs"
  by (simp add: char_count_def)

text \<open>Induction over the characters of a valid string.\<close>

lemma from_utf8_char_induct [consumes 1, case_names Nil Char]:
  assumes "from_utf8 bs" and "P []"
    and step: "\<And>bs n. valid_front bs = Some n \<Longrightarrow> from_utf8 (drop n bs) \<Longrightarrow> P (drop n bs) \<Longrightarrow> P bs"
  shows "P bs"
  using assms(1)
proof (induction bs rule: from_utf8.induct)
  case (1 bs)
  show ?case
  proof (cases "bs = []")
    case False
    with "1.prems" obtain n where n: "valid_front bs = Some n"
      by (subst (asm) from_utf8.simps) (auto split: option.splits)
    with "1.prems" have "from_utf8 (drop n bs)" by (simp add: from_utf8_step)
    with "1.IH" [OF False n] n show ?thesis by (auto intro: step)
  qed (use assms(2) in simp)
qed

lemma char_count_front:
  assumes "valid_front bs = Some n"
  shows "char_count bs = Suc (char_count (drop n bs))"
proof -
  have "char_count (take n bs @ drop n bs) = Suc (char_count (drop n bs))"
    using valid_front_facts(3) [OF assms] by (simp only: char_count_append)
  then show ?thesis by simp
qed

lemma char_count_0: "from_utf8 bs \<Longrightarrow> char_count bs = 0 \<Longrightarrow> bs = []"
  by (induction rule: from_utf8_char_induct) (auto dest: char_count_front)

end
