(* ===== verification/Guac_Streaming.thy ===== *)
theory Guac_Streaming
  imports Utf8
begin

text \<open>
  The streaming Guacamole parser, \<open>guacr-protocol/src/streaming.rs\<close>: instructions
  \<open>LENGTH.VALUE,LENGTH.VALUE,...;\<close> whose lengths count Unicode characters, peeked from the front
  of a network buffer, validated without decoding, parsed from a complete content slice, and
  encoded. Slices of the buffer are the bytes they cover. The x86-64 branch is the one modelled.
\<close>

section \<open>Constants, instructions and errors\<close>

definition INST_TERM :: u8 where "INST_TERM = 0x3B"
definition ARG_SEP :: u8 where "ARG_SEP = 0x2C"
definition ELEM_SEP :: u8 where "ELEM_SEP = 0x2E"

text \<open>ASCII literals of the source, as bytes.\<close>

definition ERROR_OPCODE :: bytes where "ERROR_OPCODE = [0x65, 0x72, 0x72, 0x6F, 0x72]"
definition SIZE_OPCODE :: bytes where "SIZE_OPCODE = [0x73, 0x69, 0x7A, 0x65]"
definition DISCONNECT_OPCODE :: bytes where
  "DISCONNECT_OPCODE = [0x64, 0x69, 0x73, 0x63, 0x6F, 0x6E, 0x6E, 0x65, 0x63, 0x74]"
definition sync_opcode :: bytes where "sync_opcode = [0x73, 0x79, 0x6E, 0x63]"
definition sync_instruction :: bytes where
  "sync_instruction = [0x34, 0x2E, 0x73, 0x79, 0x6E, 0x63, 0x3B]"

record owned_instruction =
  opcode :: bytes
  args :: "bytes list"

record peeked_instruction =
  pk_opcode :: bytes
  pk_args :: "bytes list"
  total_length_in_buffer :: nat
  is_error_opcode :: bool

datatype special_opcode = SpError | SpSize | SpDisconnect

fun special_as_str :: "special_opcode \<Rightarrow> bytes" where
  "special_as_str SpError = ERROR_OPCODE"
| "special_as_str SpSize = SIZE_OPCODE"
| "special_as_str SpDisconnect = DISCONNECT_OPCODE"

datatype opcode_action = ActNormal | ActCloseConnection | ActProcessSpecial special_opcode | ActServerSync

text \<open>
  The error messages, with the values they print. A \<open>bytes option\<close> is
  \<open>str::from_utf8(..).unwrap_or("<invalid>")\<close>, \<open>None\<close> for the placeholder.
\<close>

datatype format_issue =
  OpcodeNoDelimiter | ArgNoDelimiter
| OpcodeLengthNotInteger "bytes option" | ArgLengthNotInteger "bytes option"
| InvalidOpcodeLength | InvalidArgLength
| ExpectedTerminator u8 nat "bytes option" "(nat \<times> nat) option"

datatype utf8_issue = InvalidStartByte | InvalidStartByteAt u8 nat | InvalidSequenceAt nat

datatype peek_error = Incomplete | InvalidFormat format_issue | Utf8Error utf8_issue

definition lossy_text :: "bytes \<Rightarrow> bytes option" where
  "lossy_text bs = (if from_utf8 bs then Some bs else None)"

section \<open>Scanning helpers\<close>

fun find_delimiter :: "bytes \<Rightarrow> u8 \<Rightarrow> nat option" where
  "find_delimiter [] d = None"
| "find_delimiter (b # bs) d = (if b = d then Some 0 else map_option Suc (find_delimiter bs d))"

text \<open>The loop of \<open>parse_length\<close>; \<open>None\<close> is \<open>Err(())\<close>.\<close>

fun parse_length_loop :: "nat \<Rightarrow> bytes \<Rightarrow> nat option" where
  "parse_length_loop acc [] = Some acc"
| "parse_length_loop acc (b # bs) =
     (if \<not> is_ascii_digit b then None
      else let acc' = acc * 10 + digit_value b
           in if acc' > 1000000 then None else parse_length_loop acc' bs)"

definition parse_length :: "bytes \<Rightarrow> nat option" where
  "parse_length xs =
     (if xs = [] then None
      else if length xs = 1
      then let b = xs ! 0 in if is_ascii_digit b then Some (digit_value b) else None
      else parse_length_loop 0 xs)"

text \<open>
  \<open>fallback_utf8_extract\<close>: the loop state is \<open>byte_pos\<close> and \<open>chars_found\<close>.
\<close>

function fallback_loop ::
  "bytes \<Rightarrow> nat \<Rightarrow> nat \<Rightarrow> nat \<Rightarrow> (nat \<times> nat, peek_error) result" where
  "fallback_loop xs cc byte_pos chars_found =
     (if byte_pos < length xs \<and> chars_found < cc
      then let n = utf8_char_len (xs ! byte_pos)
           in if n = 0 then Err (Utf8Error InvalidStartByte)
              else if byte_pos + n > length xs then Err Incomplete
              else if n > 1 \<and> \<not> from_utf8 (take n (drop byte_pos xs))
              then Err (Utf8Error (InvalidSequenceAt byte_pos))
              else fallback_loop xs cc (byte_pos + n) (chars_found + 1)
      else Ok (byte_pos, chars_found))"
  by pat_completeness auto
termination by (relation "measure (\<lambda>(xs, cc, b, c). length xs - b)") auto

declare fallback_loop.simps [simp del]

definition fallback_utf8_extract :: "bytes \<Rightarrow> nat \<Rightarrow> (bytes \<times> nat, peek_error) result" where
  "fallback_utf8_extract xs cc =
     bind_result (fallback_loop xs cc 0 0) (\<lambda>(byte_pos, chars_found).
       if chars_found < cc then Err Incomplete else Ok (take byte_pos xs, byte_pos))"

text \<open>The SSE2 loop: whole 16-byte blocks without a high bit.\<close>

function ascii_blocks :: "bytes \<Rightarrow> nat \<Rightarrow> nat" where
  "ascii_blocks xs ascii_end =
     (if ascii_end + 16 \<le> length xs
      then if list_ex (\<lambda>b. b AND 0x80 \<noteq> 0) (take 16 (drop ascii_end xs)) then ascii_end
           else ascii_blocks xs (ascii_end + 16)
      else ascii_end)"
  by pat_completeness auto
termination by (relation "measure (\<lambda>(xs, e). length xs - e)") auto

declare ascii_blocks.simps [simp del]

text \<open>The byte loop behind it.\<close>

function ascii_tail :: "bytes \<Rightarrow> nat \<Rightarrow> nat" where
  "ascii_tail xs ascii_end =
     (if ascii_end < length xs \<and> xs ! ascii_end < 0x80
      then ascii_tail xs (ascii_end + 1) else ascii_end)"
  by pat_completeness auto
termination by (relation "measure (\<lambda>(xs, e). length xs - e)") auto

declare ascii_tail.simps [simp del]

definition simd_extract_utf8_chars :: "bytes \<Rightarrow> nat \<Rightarrow> (bytes \<times> nat, peek_error) result" where
  "simd_extract_utf8_chars xs cc =
     (if xs = [] \<or> cc = 0 then Ok ([], 0)
      else if ascii_tail xs (ascii_blocks xs 0) \<ge> cc then Ok (take cc xs, cc)
      else fallback_utf8_extract xs cc)"

definition extract_utf8_chars :: "bytes \<Rightarrow> nat \<Rightarrow> nat \<Rightarrow> (bytes \<times> nat, peek_error) result" where
  "extract_utf8_chars buf start_pos cc =
     (if cc = 0 then Ok ([], 0)
      else if start_pos \<ge> length buf then Err Incomplete
      else let remaining = drop start_pos buf
           in if cc \<le> length remaining \<and> cc \<le> 64 then simd_extract_utf8_chars remaining cc
              else if cc \<le> length remaining \<and> is_ascii (take cc remaining)
              then Ok (take cc remaining, cc)
              else fallback_utf8_extract remaining cc)"

function skip_loop ::
  "bytes \<Rightarrow> nat \<Rightarrow> nat \<Rightarrow> nat \<Rightarrow> (nat \<times> nat, peek_error) result" where
  "skip_loop xs cc byte_pos chars_found =
     (if byte_pos < length xs \<and> chars_found < cc
      then let b = xs ! byte_pos; n = utf8_char_len b
           in if n = 0 then Err (Utf8Error (InvalidStartByteAt b byte_pos))
              else if byte_pos + n > length xs then Err Incomplete
              else skip_loop xs cc (byte_pos + n) (chars_found + 1)
      else Ok (byte_pos, chars_found))"
  by pat_completeness auto
termination by (relation "measure (\<lambda>(xs, cc, b, c). length xs - b)") auto

declare skip_loop.simps [simp del]

definition skip_utf8_chars :: "bytes \<Rightarrow> nat \<Rightarrow> (nat, peek_error) result" where
  "skip_utf8_chars xs cc =
     bind_result (skip_loop xs cc 0 0) (\<lambda>(byte_pos, chars_found).
       if chars_found < cc then Err Incomplete else Ok byte_pos)"

section \<open>Peeking an instruction\<close>

text \<open>
  The length header of one element at \<open>pos\<close>: its value and the position behind the dot. The
  code writes this block twice, for the opcode and for an argument, with two sets of messages.
\<close>

definition peek_length ::
  "format_issue \<Rightarrow> (bytes option \<Rightarrow> format_issue) \<Rightarrow> bytes \<Rightarrow> nat \<Rightarrow> (nat \<times> nat, peek_error) result" where
  "peek_length no_delim not_int buf pos =
     (case find_delimiter (drop pos buf) ELEM_SEP of
        None \<Rightarrow> (if find_delimiter (drop pos buf) INST_TERM \<noteq> None
                 then Err (InvalidFormat no_delim) else Err Incomplete)
      | Some e \<Rightarrow>
          if pos + e \<ge> length buf then Err Incomplete
          else case parse_length (take e (drop pos buf)) of
                 None \<Rightarrow> Err (InvalidFormat (not_int (lossy_text (take e (drop pos buf)))))
               | Some l \<Rightarrow> Ok (l, pos + e + 1))"

text \<open>A whole element: its value and the position behind it.\<close>

definition peek_element ::
  "format_issue \<Rightarrow> (bytes option \<Rightarrow> format_issue) \<Rightarrow> bytes \<Rightarrow> nat \<Rightarrow> (bytes \<times> nat, peek_error) result" where
  "peek_element no_delim not_int buf pos =
     bind_result (peek_length no_delim not_int buf pos) (\<lambda>(l, pos').
       bind_result (extract_utf8_chars buf pos' l) (\<lambda>(s, k). Ok (s, pos' + k)))"

text \<open>One argument behind its comma.\<close>

definition peek_arg :: "bytes \<Rightarrow> nat \<Rightarrow> (bytes \<times> nat, peek_error) result" where
  "peek_arg buf pos = peek_element ArgNoDelimiter ArgLengthNotInteger buf pos"

lemma peek_length_pos: "peek_length a b buf pos = Ok (l, pos') \<Longrightarrow> pos < pos'"
  by (auto simp: peek_length_def split: option.splits if_splits)

lemma peek_arg_pos: "peek_arg buf pos = Ok (s, pos') \<Longrightarrow> pos < pos'"
  by (auto simp: peek_arg_def peek_element_def dest: peek_length_pos)

function peek_args ::
  "bytes \<Rightarrow> nat \<Rightarrow> bytes list \<Rightarrow> (nat \<times> bytes list, peek_error) result" where
  "peek_args buf pos acc =
     (if pos < length buf \<and> buf ! pos = ARG_SEP
      then if pos + 1 \<ge> length buf then Err Incomplete
           else case peek_arg buf (pos + 1) of
                  Err e \<Rightarrow> Err e
                | Ok (s, pos') \<Rightarrow> peek_args buf pos' (acc @ [s])
      else Ok (pos, acc))"
  by pat_completeness auto
termination
  by (relation "measure (\<lambda>(buf, pos, acc). length buf - pos)") (auto dest!: peek_arg_pos)

declare peek_args.simps [simp del]

text \<open>The body behind the sync fast path.\<close>

definition peek_general :: "bytes \<Rightarrow> (peeked_instruction, peek_error) result" where
  "peek_general buf =
     bind_result (peek_length OpcodeNoDelimiter OpcodeLengthNotInteger buf 0) (\<lambda>(length_op, pos).
     bind_result (if length_op = 0 then Ok ([], 0) else extract_utf8_chars buf pos length_op)
       (\<lambda>(opc, opc_len).
     bind_result (peek_args buf (pos + opc_len) []) (\<lambda>(pos, as).
       if pos = length buf then Err Incomplete
       else if buf ! pos = INST_TERM
       then if length_op = 0 \<and> opc_len = 0 \<and> as = []
            then Ok \<lparr>pk_opcode = [], pk_args = [], total_length_in_buffer = pos + 1,
                      is_error_opcode = False\<rparr>
            else Ok \<lparr>pk_opcode = opc, pk_args = as, total_length_in_buffer = pos + 1,
                      is_error_opcode = (opc = ERROR_OPCODE)\<rparr>
       else Err (InvalidFormat
              (ExpectedTerminator (buf ! pos) pos (lossy_text (take pos buf)) None)))))"

definition peek_instruction :: "bytes \<Rightarrow> (peeked_instruction, peek_error) result" where
  "peek_instruction buf =
     (if buf = [] then Err Incomplete
      else if length buf \<ge> 7 \<and> take 7 buf = sync_instruction
      then Ok \<lparr>pk_opcode = sync_opcode, pk_args = [], total_length_in_buffer = 7,
                is_error_opcode = False\<rparr>
      else peek_general buf)"

section \<open>Parsing a content slice\<close>

text \<open>\<open>str::parse::<usize>\<close>: an optional plus sign and decimal digits that fit 64 bits.\<close>

datatype int_error = IntEmpty | IntInvalidDigit | IntPosOverflow

fun parse_usize_digits :: "nat \<Rightarrow> bytes \<Rightarrow> (nat, int_error) result" where
  "parse_usize_digits acc [] = Ok acc"
| "parse_usize_digits acc (b # bs) =
     (if \<not> is_ascii_digit b then Err IntInvalidDigit
      else let acc' = acc * 10 + digit_value b
           in if acc' \<ge> 2 ^ 64 then Err IntPosOverflow else parse_usize_digits acc' bs)"

definition parse_usize :: "bytes \<Rightarrow> (nat, int_error) result" where
  "parse_usize bs =
     (if bs = [] then Err IntEmpty
      else if bs = [0x2B] \<or> bs = [0x2D] then Err IntInvalidDigit
      else if bs ! 0 = 0x2B then parse_usize_digits 0 (tl bs)
      else parse_usize_digits 0 bs)"

datatype content_issue =
  CtOpcodeNoDelimiter | CtOpcodeNotInteger int_error bytes | CtOpcodeBeyondContent
| CtExpectedSeparator u8 nat | CtDanglingComma
| CtArgNoDelimiter | CtArgNotInteger int_error bytes | CtArgBeyondContent
| CtPeek format_issue

datatype content_utf8_issue = CtLengthUtf8 bytes | CtValueUtf8 utf8_issue

datatype streaming_parser_error = SpInvalidFormat content_issue | SpUtf8Error content_utf8_issue

text \<open>The \<open>map_err\<close> of an extraction.\<close>

fun content_error :: "content_issue \<Rightarrow> peek_error \<Rightarrow> streaming_parser_error" where
  "content_error beyond Incomplete = SpInvalidFormat beyond"
| "content_error beyond (InvalidFormat m) = SpInvalidFormat (CtPeek m)"
| "content_error beyond (Utf8Error m) = SpUtf8Error (CtValueUtf8 m)"

text \<open>One element at \<open>pos\<close>, its value and the position behind it.\<close>

definition content_element ::
  "content_issue \<Rightarrow> (int_error \<Rightarrow> bytes \<Rightarrow> content_issue) \<Rightarrow> content_issue \<Rightarrow> bytes \<Rightarrow> nat \<Rightarrow>
     (bytes \<times> nat, streaming_parser_error) result" where
  "content_element no_delim not_int beyond buf pos =
     (case find_delimiter (drop pos buf) ELEM_SEP of
        None \<Rightarrow> Err (SpInvalidFormat no_delim)
      | Some e \<Rightarrow>
          let text = take e (drop pos buf)
          in if \<not> from_utf8 text then Err (SpUtf8Error (CtLengthUtf8 text))
             else case parse_usize text of
                    Err i \<Rightarrow> Err (SpInvalidFormat (not_int i text))
                  | Ok l \<Rightarrow>
                      (case extract_utf8_chars buf (pos + e + 1) l of
                         Err pe \<Rightarrow> Err (content_error beyond pe)
                       | Ok (s, k) \<Rightarrow> Ok (s, pos + e + 1 + k)))"

lemma content_element_pos: "content_element a b c buf pos = Ok (s, pos') \<Longrightarrow> pos < pos'"
  by (auto simp: content_element_def Let_def split: option.splits if_splits result.splits)

function content_args ::
  "bytes \<Rightarrow> nat \<Rightarrow> bytes list \<Rightarrow> (bytes list, streaming_parser_error) result" where
  "content_args buf pos acc =
     (if pos < length buf
      then if buf ! pos \<noteq> ARG_SEP then Err (SpInvalidFormat (CtExpectedSeparator (buf ! pos) pos))
           else if pos + 1 \<ge> length buf then Err (SpInvalidFormat CtDanglingComma)
           else case content_element CtArgNoDelimiter CtArgNotInteger CtArgBeyondContent buf (pos + 1) of
                  Err e \<Rightarrow> Err e
                | Ok (s, pos') \<Rightarrow> content_args buf pos' (acc @ [s])
      else Ok acc)"
  by pat_completeness auto
termination
  by (relation "measure (\<lambda>(buf, pos, acc). length buf - pos)") (auto dest!: content_element_pos)

declare content_args.simps [simp del]

definition parse_instruction_content ::
  "bytes \<Rightarrow> (owned_instruction, streaming_parser_error) result" where
  "parse_instruction_content content =
     (if content = [] then Ok \<lparr>opcode = [], args = []\<rparr>
      else if content = [0x30, ELEM_SEP] then Ok \<lparr>opcode = [], args = []\<rparr>
      else bind_result
             (content_element CtOpcodeNoDelimiter CtOpcodeNotInteger CtOpcodeBeyondContent content 0)
             (\<lambda>(opc, pos).
           bind_result (content_args content pos []) (\<lambda>as. Ok \<lparr>opcode = opc, args = as\<rparr>)))"

section \<open>Encoding\<close>

definition encode_element :: "bytes \<Rightarrow> bytes" where
  "encode_element s = dec_bytes (char_count s) @ ELEM_SEP # s"

definition encode_args :: "bytes list \<Rightarrow> bytes" where
  "encode_args as = concat (map (\<lambda>a. ARG_SEP # encode_element a) as)"

definition encode_instruction :: "owned_instruction \<Rightarrow> bytes" where
  "encode_instruction i = encode_element (opcode i) @ encode_args (args i) @ [INST_TERM]"

section \<open>Validation without decoding\<close>

text \<open>The action for the opcode bytes at \<open>pos\<close>.\<close>

definition detect_action :: "bytes \<Rightarrow> nat \<Rightarrow> nat \<Rightarrow> opcode_action" where
  "detect_action buf pos opcode_len =
     (if opcode_len > 0 \<and> opcode_len \<le> 10 \<and> pos + opcode_len \<le> length buf
      then let opc = take opcode_len (drop pos buf)
           in if opc = ERROR_OPCODE then ActCloseConnection
              else if opc = DISCONNECT_OPCODE then ActCloseConnection
              else if opc = SIZE_OPCODE then ActProcessSpecial SpSize
              else if opc = sync_opcode then ActServerSync
              else ActNormal
      else ActNormal)"

text \<open>The byte length of a value of \<open>n\<close> characters: ASCII at once, else by lead bytes.\<close>

definition value_byte_len :: "bytes \<Rightarrow> nat \<Rightarrow> nat \<Rightarrow> (nat, peek_error) result" where
  "value_byte_len buf pos n =
     (if pos + n \<le> length buf \<and> is_ascii (take n (drop pos buf)) then Ok n
      else skip_utf8_chars (drop pos buf) n)"

definition validate_length ::
  "format_issue \<Rightarrow> bytes \<Rightarrow> nat \<Rightarrow> (nat \<times> nat, peek_error) result" where
  "validate_length not_int buf pos =
     (case find_delimiter (drop pos buf) ELEM_SEP of
        None \<Rightarrow> Err Incomplete
      | Some e \<Rightarrow>
          if pos + e \<ge> length buf then Err Incomplete
          else case parse_length (take e (drop pos buf)) of
                 None \<Rightarrow> Err (InvalidFormat not_int)
               | Some l \<Rightarrow> Ok (l, pos + e + 1))"

lemma validate_length_pos: "validate_length a buf pos = Ok (l, pos') \<Longrightarrow> pos < pos'"
  by (auto simp: validate_length_def split: option.splits if_splits)

function validate_args :: "bytes \<Rightarrow> nat \<Rightarrow> (nat, peek_error) result" where
  "validate_args buf pos =
     (if pos < length buf \<and> buf ! pos = ARG_SEP
      then if pos + 1 \<ge> length buf then Err Incomplete
           else case validate_length InvalidArgLength buf (pos + 1) of
                  Err e \<Rightarrow> Err e
                | Ok (l, pos') \<Rightarrow>
                    (case value_byte_len buf pos' l of
                       Err e \<Rightarrow> Err e
                     | Ok k \<Rightarrow> validate_args buf (pos' + k))
      else Ok pos)"
  by pat_completeness auto
termination
  by (relation "measure (\<lambda>(buf, pos). length buf - pos)") (auto dest!: validate_length_pos)

declare validate_args.simps [simp del]

text \<open>
  The debugging hint appended to the message: the character and byte counts of what follows the
  first comma, when that holds a character above 127.
\<close>

definition utf8_hint :: "bytes \<Rightarrow> (nat \<times> nat) option" where
  "utf8_hint before =
     (if \<not> from_utf8 before then None
      else case find_delimiter before ARG_SEP of
             None \<Rightarrow> None
           | Some k \<Rightarrow>
               let part = drop (k + 1) before
               in if \<not> is_ascii part \<and> char_count part \<noteq> length part
                  then Some (char_count part, length part) else None)"

definition validate_general :: "bytes \<Rightarrow> (nat \<times> opcode_action, peek_error) result" where
  "validate_general buf =
     bind_result (validate_length InvalidOpcodeLength buf 0) (\<lambda>(opcode_len, pos).
     bind_result (if opcode_len = 0 then Ok 0 else value_byte_len buf pos opcode_len) (\<lambda>opc_len.
     bind_result (validate_args buf (pos + opc_len)) (\<lambda>end_pos.
       if end_pos \<ge> length buf then Err Incomplete
       else if buf ! end_pos \<noteq> INST_TERM
       then Err (InvalidFormat (ExpectedTerminator (buf ! end_pos) end_pos
                   (lossy_text (take end_pos buf)) (utf8_hint (take end_pos buf))))
       else Ok (end_pos + 1, detect_action buf pos opcode_len))))"

definition validate_and_detect_special :: "bytes \<Rightarrow> (nat \<times> opcode_action, peek_error) result" where
  "validate_and_detect_special buf =
     (if buf = [] then Err Incomplete
      else if length buf \<ge> 7 \<and> take 7 buf = sync_instruction then Ok (7, ActServerSync)
      else validate_general buf)"

section \<open>The extraction routines\<close>

lemma utf8_char_len_eq_1: "utf8_char_len b = 1 \<longleftrightarrow> unat b < 0x80"
  by (simp add: utf8_char_len_def)

text \<open>The character at the front, as the loops see it.\<close>

lemma front_at:
  assumes "drop b xs = s @ r" "valid_front s = Some n"
  shows "b < length xs" "utf8_char_len (xs ! b) = n" "0 < n" "b + n \<le> length xs"
    "take n (drop b xs) = take n s" "drop (b + n) xs = drop n s @ r" "1 < n \<longrightarrow> from_utf8 (take n s)"
proof -
  note n = valid_front_facts [OF assms(2)]
  have ne: "s \<noteq> []" using assms(2) by (auto simp: valid_front_def)
  then show b: "b < length xs" using assms(1) by (metis append_is_Nil_conv drop_all leI)
  have "xs ! b = s ! 0" using ne assms(1) b by (metis Cons_nth_drop_Suc append_Cons list.sel(1) list.exhaust nth_Cons_0)
  with n show "utf8_char_len (xs ! b) = n" by simp
  show "0 < n" by (rule valid_front_pos [OF assms(2)])
  have "length xs - b = length s + length r" using arg_cong [OF assms(1), of length] by simp
  with n b show "b + n \<le> length xs" by linarith
  show "take n (drop b xs) = take n s" using assms(1) n by simp
  show "drop (b + n) xs = drop n s @ r"
  proof -
    have "drop n (drop b xs) = drop n s @ r" using n by (simp add: assms(1))
    then show ?thesis by (simp add: add.commute)
  qed
  show "1 < n \<longrightarrow> from_utf8 (take n s)" using from_utf8_one [OF assms(2)] by simp
qed

lemma fallback_loop_valid:
  assumes "from_utf8 s" and "drop b xs = s @ r"
  shows "fallback_loop xs (c + char_count s) b c = Ok (b + length s, c + char_count s)"
  using assms
proof (induction s arbitrary: b c rule: from_utf8_char_induct)
  case Nil
  then show ?case by (subst fallback_loop.simps) simp
next
  case (Char s n)
  note f = front_at [OF Char.prems Char.hyps(1)]
  have "fallback_loop xs (Suc c + char_count (drop n s)) (b + n) (Suc c)
      = Ok (b + n + length (drop n s), Suc c + char_count (drop n s))"
    by (rule Char.IH [OF f(6)])
  moreover have "n \<le> length s" using valid_front_facts(1) [OF Char.hyps(1)] .
  ultimately show ?case
    using f char_count_front [OF Char.hyps(1)]
    by (subst fallback_loop.simps) (simp add: Let_def)
qed

definition short_or_ok :: "nat \<Rightarrow> (nat \<times> nat, peek_error) result \<Rightarrow> bool" where
  "short_or_ok cc r \<longleftrightarrow> r = Err Incomplete \<or> (\<exists>b c. r = Ok (b, c) \<and> c < cc)"

lemma fallback_loop_prefix:
  assumes "from_utf8 s" and "drop b xs @ q = s" and "q \<noteq> []"
  shows "short_or_ok (c + char_count s) (fallback_loop xs (c + char_count s) b c)"
  using assms
proof (induction s arbitrary: b c rule: from_utf8_char_induct)
  case Nil
  then show ?case by simp
next
  case (Char s n)
  have cc: "char_count s = Suc (char_count (drop n s))" by (rule char_count_front [OF Char.hyps(1)])
  note n = valid_front_facts [OF Char.hyps(1)]
  show ?case
  proof (cases "b < length xs")
    case False
    with cc show ?thesis by (subst fallback_loop.simps) (simp add: short_or_ok_def)
  next
    case True
    have "xs ! b = s ! 0"
      using True Char.prems(1) by (metis Cons_nth_drop_Suc append_Cons nth_Cons_0)
    then have len: "utf8_char_len (xs ! b) = n" using n by simp
    show ?thesis
    proof (cases "b + n \<le> length xs")
      case False
      with True len cc valid_front_pos [OF Char.hyps(1)] show ?thesis
        by (subst fallback_loop.simps) (simp add: short_or_ok_def Let_def)
    next
      case le: True
      have "take n (drop b xs @ q) = take n (drop b xs)" using le by simp
      then have tk: "take n (drop b xs) = take n s" using Char.prems(1) by simp
      have dr: "drop (b + n) xs @ q = drop n s"
        using le Char.prems(1) True by (auto simp: drop_append add.commute)
      have "short_or_ok (Suc c + char_count (drop n s))
              (fallback_loop xs (Suc c + char_count (drop n s)) (b + n) (Suc c))"
        by (rule Char.IH [OF dr Char.prems(2)])
      with True len le cc tk valid_front_pos [OF Char.hyps(1)] from_utf8_one [OF Char.hyps(1)]
      show ?thesis by (subst fallback_loop.simps) (simp add: Let_def)
    qed
  qed
qed

text \<open>What the loop accepts is valid UTF-8 of the requested number of characters.\<close>

lemma fallback_loop_sound:
  assumes "fallback_loop xs cc b c = Ok (b', c')" "b \<le> length xs" "c \<le> cc"
  shows "\<exists>s. from_utf8 s \<and> drop b xs = s @ drop b' xs \<and> b' = b + length s \<and> c' = c + char_count s
    \<and> b' \<le> length xs \<and> c' \<le> cc"
  using assms
proof (induction xs cc b c rule: fallback_loop.induct)
  case (1 xs cc b c)
  show ?case
  proof (cases "b < length xs \<and> c < cc")
    case False
    with 1(2-) show ?thesis by (subst (asm) fallback_loop.simps) (auto intro!: exI [of _ "[]"])
  next
    case True
    define n where "n = utf8_char_len (xs ! b)"
    have step: "fallback_loop xs cc b c =
       (if n = 0 then Err (Utf8Error InvalidStartByte)
        else if b + n > length xs then Err Incomplete
        else if n > 1 \<and> \<not> from_utf8 (take n (drop b xs))
        then Err (Utf8Error (InvalidSequenceAt b))
        else fallback_loop xs cc (b + n) (c + 1))"
      using True by (subst fallback_loop.simps) (simp add: Let_def n_def)
    from 1(2) have n: "n \<noteq> 0" "b + n \<le> length xs" "n > 1 \<longrightarrow> from_utf8 (take n (drop b xs))"
      and rec: "fallback_loop xs cc (b + n) (c + 1) = Ok (b', c')"
      unfolding step by (simp_all split: if_splits)
    let ?t = "take n (drop b xs)"
    have hd: "?t ! 0 = xs ! b" "?t \<noteq> []" using n True by auto
    have vf: "valid_front ?t = Some n"
    proof (cases "n = 1")
      case one: True
      then have "unat (xs ! b) < 0x80" using utf8_char_len_eq_1 n_def by metis
      with hd one show ?thesis by (simp add: valid_front_def)
    next
      case False
      with n have "from_utf8 ?t" by simp
      with hd(2) obtain m where m: "valid_front ?t = Some m"
        by (subst (asm) from_utf8.simps) (auto split: option.splits)
      with valid_front_facts(2) [OF m] hd(1) show ?thesis by (simp add: n_def)
    qed
    from 1(1) [OF True n_def n(1)] n rec True obtain s where s: "from_utf8 s"
      "drop (b + n) xs = s @ drop b' xs" "b' = b + n + length s" "c' = c + 1 + char_count s"
      "b' \<le> length xs" "c' \<le> cc" by fastforce
    have len: "length ?t = n" using n by simp
    have "from_utf8 (?t @ s)" using from_utf8_one [OF vf] s len by (intro from_utf8_append) auto
    moreover have "drop b xs = (?t @ s) @ drop b' xs"
      using s(2) by (metis add.commute append.assoc append_take_drop_id drop_drop)
    moreover have "char_count ?t = 1" using valid_front_facts(3) [OF vf] len by simp
    ultimately show ?thesis using s len by (intro exI [of _ "?t @ s"]) simp
  qed
qed

lemma ascii_blocks_inv:
  "\<forall>i < e. unat (xs ! i) < 0x80 \<Longrightarrow> e \<le> length xs \<Longrightarrow>
     (\<forall>i < ascii_blocks xs e. unat (xs ! i) < 0x80) \<and> ascii_blocks xs e \<le> length xs"
proof (induction xs e rule: ascii_blocks.induct)
  case (1 xs e)
  have hi: "unat b < 0x80" if "b AND 0x80 = 0" for b :: u8
  proof -
    have "b AND 0x80 = 0 \<longrightarrow> b < 0x80" by (rule byte_by_cases [of "\<lambda>b. b AND 0x80 = 0 \<longrightarrow> b < 0x80"]) code_simp
    with that have "b < 0x80" by blast
    then show ?thesis by (simp add: word_less_nat_alt)
  qed
  show ?case
  proof (cases "e + 16 \<le> length xs \<and> \<not> list_ex (\<lambda>b. b AND 0x80 \<noteq> 0) (take 16 (drop e xs))")
    case True
    have "unat (xs ! i) < 0x80" if "i < e + 16" for i
    proof (cases "i < e")
      case False
      then have "xs ! i = take 16 (drop e xs) ! (i - e)" "i - e < length (take 16 (drop e xs))"
        using that True by auto
      then have "xs ! i \<in> set (take 16 (drop e xs))" by (metis nth_mem)
      with True have "xs ! i AND 0x80 = 0" by (auto simp: list_ex_iff)
      then show ?thesis by (rule hi)
    qed (use 1 in simp)
    with True 1(1) show ?thesis by (subst (1 2) ascii_blocks.simps) simp
  next
    case False
    then have "ascii_blocks xs e = e" by (subst ascii_blocks.simps) auto
    with 1 show ?thesis by simp
  qed
qed

lemma ascii_tail_inv:
  "\<forall>i < e. unat (xs ! i) < 0x80 \<Longrightarrow> e \<le> length xs \<Longrightarrow>
     (\<forall>i < ascii_tail xs e. unat (xs ! i) < 0x80) \<and> ascii_tail xs e \<le> length xs"
proof (induction xs e rule: ascii_tail.induct)
  case (1 xs e)
  show ?case
  proof (cases "e < length xs \<and> xs ! e < 0x80")
    case True
    then have "unat (xs ! e) < 0x80" by (simp add: word_less_nat_alt)
    then have "\<forall>i < e + 1. unat (xs ! i) < 0x80" using 1(2) by (auto simp: less_Suc_eq)
    with True 1(1) show ?thesis by (subst (1 2) ascii_tail.simps) simp
  next
    case False
    then have "ascii_tail xs e = e" by (subst ascii_tail.simps) auto
    with 1 show ?thesis by simp
  qed
qed

lemma fallback_ascii:
  assumes "is_ascii (take n xs)" "n \<le> length xs"
  shows "fallback_utf8_extract xs n = Ok (take n xs, n)"
proof -
  have "fallback_loop xs (0 + char_count (take n xs)) 0 0 = Ok (0 + length (take n xs), 0 + char_count (take n xs))"
    using assms from_utf8_ascii by (intro fallback_loop_valid [where r = "drop n xs"]) auto
  then show ?thesis using assms by (simp add: fallback_utf8_extract_def char_count_ascii)
qed

text \<open>The vectorised and the ASCII paths compute what the character loop computes.\<close>

lemma simd_eq_fallback:
  assumes "xs \<noteq> []" "cc \<noteq> 0"
  shows "simd_extract_utf8_chars xs cc = fallback_utf8_extract xs cc"
proof (cases "cc \<le> ascii_tail xs (ascii_blocks xs 0)")
  case True
  have "(\<forall>i < ascii_blocks xs 0. unat (xs ! i) < 0x80) \<and> ascii_blocks xs 0 \<le> length xs"
    by (rule ascii_blocks_inv) auto
  then have "(\<forall>i < ascii_tail xs (ascii_blocks xs 0). unat (xs ! i) < 0x80)
      \<and> ascii_tail xs (ascii_blocks xs 0) \<le> length xs"
    by (intro ascii_tail_inv) auto
  with True have "is_ascii (take cc xs)" "cc \<le> length xs"
    by (auto simp: is_ascii_def in_set_conv_nth)
  with True assms show ?thesis by (simp add: simd_extract_utf8_chars_def fallback_ascii)
qed (use assms in \<open>simp add: simd_extract_utf8_chars_def\<close>)

lemma extract_eq_fallback:
  "pos < length buf \<Longrightarrow> extract_utf8_chars buf pos cc = fallback_utf8_extract (drop pos buf) cc"
proof (cases "cc = 0")
  case True
  then show ?thesis
    by (simp add: extract_utf8_chars_def fallback_utf8_extract_def fallback_loop.simps)
next
  case False
  assume "pos < length buf"
  with False show ?thesis
    by (auto simp: extract_utf8_chars_def Let_def simd_eq_fallback fallback_ascii)
qed

section \<open>Elements\<close>

lemma find_delimiter_append [simp]: "d \<notin> set xs \<Longrightarrow> find_delimiter (xs @ d # r) d = Some (length xs)"
  by (induction xs) auto

lemma find_delimiter_None: "find_delimiter xs d = None \<longleftrightarrow> d \<notin> set xs"
  by (induction xs) auto

lemma find_delimiter_Some:
  "find_delimiter xs d = Some k \<Longrightarrow> k < length xs \<and> xs ! k = d"
  by (induction xs arbitrary: k) (auto split: if_splits)

lemma digits_no_separator:
  "ELEM_SEP \<notin> set (dec_bytes n)" "INST_TERM \<notin> set (dec_bytes n)" "ARG_SEP \<notin> set (dec_bytes n)"
proof -
  have "\<not> is_ascii_digit ELEM_SEP" "\<not> is_ascii_digit INST_TERM" "\<not> is_ascii_digit ARG_SEP"
    by (simp_all add: is_ascii_digit_def ELEM_SEP_def INST_TERM_def ARG_SEP_def)
  then show "ELEM_SEP \<notin> set (dec_bytes n)" "INST_TERM \<notin> set (dec_bytes n)" "ARG_SEP \<notin> set (dec_bytes n)"
    using dec_bytes_digits by blast+
qed

lemma parse_length_loop_digits:
  "\<forall>b \<in> set bs. is_ascii_digit b \<Longrightarrow> digits_value acc bs \<le> 1000000 \<Longrightarrow>
     parse_length_loop acc bs = Some (digits_value acc bs)"
proof (induction bs arbitrary: acc)
  case (Cons b bs)
  have "acc * 10 + digit_value b \<le> 1000000"
    using Cons.prems(2) digits_value_mono [of "acc * 10 + digit_value b" bs] by simp
  with Cons show ?case by (simp add: Let_def)
qed simp

lemma parse_length_dec_bytes: "n \<le> 1000000 \<Longrightarrow> parse_length (dec_bytes n) = Some n"
proof (cases "length (dec_bytes n) = 1")
  case True
  then obtain b where b: "dec_bytes n = [b]" by (auto simp: length_Suc_conv)
  then have "is_ascii_digit b" using dec_bytes_digits [of b n] by simp
  moreover have "digit_value b = n" using digits_value_dec_bytes [of n] b by simp
  ultimately show ?thesis using b by (simp add: parse_length_def)
next
  case False
  assume "n \<le> 1000000"
  then have "parse_length_loop 0 (dec_bytes n) = Some n"
    using parse_length_loop_digits [of "dec_bytes n" 0] dec_bytes_digits
    by (auto simp: digits_value_dec_bytes)
  with False show ?thesis by (simp add: parse_length_def)
qed

lemma parse_usize_digits_value:
  "\<forall>b \<in> set bs. is_ascii_digit b \<Longrightarrow> digits_value acc bs < 2 ^ 64 \<Longrightarrow>
     parse_usize_digits acc bs = Ok (digits_value acc bs)"
proof (induction bs arbitrary: acc)
  case (Cons b bs)
  have "acc * 10 + digit_value b < 2 ^ 64"
    using Cons.prems(2) digits_value_mono [of "acc * 10 + digit_value b" bs] by simp
  with Cons show ?case by (simp add: Let_def)
qed simp

lemma parse_usize_dec_bytes: "n < 2 ^ 64 \<Longrightarrow> parse_usize (dec_bytes n) = Ok n"
proof -
  assume n: "n < 2 ^ 64"
  have "\<not> is_ascii_digit 0x2B" "\<not> is_ascii_digit 0x2D" by (simp_all add: is_ascii_digit_def)
  then have "dec_bytes n \<noteq> [0x2B]" "dec_bytes n \<noteq> [0x2D]" "dec_bytes n ! 0 \<noteq> 0x2B"
    using dec_bytes_digits [of _ n] by (metis list.set_intros(1), metis list.set_intros(1),
      metis dec_bytes_nonempty length_greater_0_conv nth_mem)
  moreover have "parse_usize_digits 0 (dec_bytes n) = Ok n"
    using parse_usize_digits_value [of "dec_bytes n" 0] dec_bytes_digits n
    by (auto simp: digits_value_dec_bytes)
  ultimately show ?thesis by (simp add: parse_usize_def)
qed

lemma extract_valid:
  assumes "from_utf8 s" "drop pos buf = s @ r"
  shows "extract_utf8_chars buf pos (char_count s) = Ok (s, length s)"
proof (cases "s = []")
  case True
  then show ?thesis by (simp add: extract_utf8_chars_def)
next
  case False
  then have "pos < length buf" using assms(2) by (metis append_is_Nil_conv drop_all leI)
  moreover have "fallback_loop (s @ r) (0 + char_count s) 0 0 = Ok (0 + length s, 0 + char_count s)"
    using assms(1) by (rule fallback_loop_valid [where r = r]) simp
  ultimately show ?thesis
    using assms by (simp add: extract_eq_fallback fallback_utf8_extract_def)
qed

lemma extract_prefix:
  assumes "from_utf8 s" "drop pos buf @ q = s" "q \<noteq> []"
  shows "extract_utf8_chars buf pos (char_count s) = Err Incomplete"
proof -
  have cc: "char_count s \<noteq> 0" using assms char_count_0 by blast
  show ?thesis
  proof (cases "pos < length buf")
    case True
    have "short_or_ok (0 + char_count s) (fallback_loop (drop pos buf) (0 + char_count s) 0 0)"
      using assms by (intro fallback_loop_prefix [where q = q]) auto
    with True show ?thesis
      by (auto simp: extract_eq_fallback fallback_utf8_extract_def short_or_ok_def)
  qed (use cc in \<open>simp add: extract_utf8_chars_def\<close>)
qed

text \<open>The values the encoder is meant for: strings of at most a million characters.\<close>

definition string_ok :: "bytes \<Rightarrow> bool" where
  "string_ok s \<longleftrightarrow> from_utf8 s \<and> char_count s \<le> 1000000"

lemma peek_length_header:
  assumes "drop pos buf = dec_bytes n @ ELEM_SEP # r" "n \<le> 1000000"
  shows "peek_length a b buf pos = Ok (n, pos + length (dec_bytes n) + 1)"
proof -
  have "pos + length (dec_bytes n) < length buf"
    using arg_cong [OF assms(1), of length] by simp
  with assms show ?thesis
    by (simp add: peek_length_def digits_no_separator parse_length_dec_bytes)
qed

lemma drop_behind: "drop pos buf = x @ y \<Longrightarrow> drop (pos + length x) buf = y"
  by (metis add.commute append_eq_conv_conj drop_drop)

lemma peek_element_valid:
  assumes "drop pos buf = encode_element s @ r" "string_ok s"
  shows "peek_element a b buf pos = Ok (s, pos + length (encode_element s))"
proof -
  have d: "drop pos buf = dec_bytes (char_count s) @ ELEM_SEP # s @ r"
    using assms(1) by (simp add: encode_element_def)
  have "drop (pos + length (dec_bytes (char_count s) @ [ELEM_SEP])) buf = s @ r"
    using d by (intro drop_behind) simp
  with d assms(2) show ?thesis
    by (simp add: peek_element_def peek_length_header extract_valid string_ok_def encode_element_def)
qed

lemma peek_element_prefix:
  assumes "drop pos buf @ q = encode_element s" "q \<noteq> []" "string_ok s"
  shows "peek_element a b buf pos = Err Incomplete"
proof -
  let ?d = "dec_bytes (char_count s)"
  have e: "drop pos buf @ q = ?d @ ELEM_SEP # s" using assms(1) by (simp add: encode_element_def)
  show ?thesis
  proof (cases "length ?d < length (drop pos buf)")
    case False
    then have "drop pos buf = take (length (drop pos buf)) ?d"
      using e by (metis append_eq_append_conv_if not_less_iff_gr_or_eq nat_le_linear order_refl take_all_iff not_less)
    then have "set (drop pos buf) \<subseteq> set ?d" by (metis set_take_subset)
    then have "ELEM_SEP \<notin> set (drop pos buf)" "INST_TERM \<notin> set (drop pos buf)"
      using digits_no_separator by blast+
    then have "peek_length a b buf pos = Err Incomplete"
      by (simp add: peek_length_def find_delimiter_None [THEN iffD2])
    then show ?thesis by (simp add: peek_element_def)
  next
    case True
    then have "take (length ?d) (drop pos buf) = ?d" and dq: "drop (length ?d) (drop pos buf) @ q = ELEM_SEP # s"
      using e unfolding append_eq_append_conv_if by (simp_all split: if_splits)
    then have "drop pos buf = ?d @ drop (length ?d) (drop pos buf)" by (metis append_take_drop_id)
    moreover obtain t where "drop (length ?d) (drop pos buf) = ELEM_SEP # t" "t @ q = s"
      using dq True by (cases "drop (length ?d) (drop pos buf)") auto
    ultimately have t: "drop pos buf = ?d @ ELEM_SEP # t" "t @ q = s" by simp_all
    have "drop (pos + length (?d @ [ELEM_SEP])) buf = t" using t(1) by (intro drop_behind) simp
    with t assms(2,3) show ?thesis
      by (simp add: peek_element_def peek_length_header extract_prefix [where q = q] string_ok_def)
  qed
qed

section \<open>Instructions\<close>

lemma encode_element_nonempty [simp]: "encode_element s \<noteq> []"
  by (simp add: encode_element_def)

lemma encode_args_simps [simp]:
  "encode_args [] = []" "encode_args (a # as) = ARG_SEP # encode_element a @ encode_args as"
  by (simp_all add: encode_args_def)

lemma cut_inside: "p @ q = x @ y \<Longrightarrow> length p < length x \<Longrightarrow> \<exists>q'. p @ q' = x \<and> q' \<noteq> []"
  by (auto simp: append_eq_append_conv2)

lemma cut_behind: "p @ q = x @ y \<Longrightarrow> \<not> length p < length x \<Longrightarrow> \<exists>t. p = x @ t \<and> t @ q = y"
proof (intro exI conjI)
  assume a: "p @ q = x @ y" "\<not> length p < length x"
  then show "p = x @ drop (length x) p"
    by (metis append_eq_append_conv_if append_take_drop_id linorder_not_le nat_less_le)
  with a(1) show "drop (length x) p @ q = y" by (metis append.assoc same_append_eq)
qed

lemma at_pos: "drop pos buf = x # r \<Longrightarrow> pos < length buf \<and> buf ! pos = x \<and> drop (Suc pos) buf = r"
  by (metis Cons_nth_drop_Suc drop_all leI list.inject list.discI)

lemma peek_args_step:
  assumes "drop pos buf = ARG_SEP # r" "r \<noteq> []"
  shows "peek_args buf pos acc =
     (case peek_arg buf (Suc pos) of Err e \<Rightarrow> Err e | Ok (s, pos') \<Rightarrow> peek_args buf pos' (acc @ [s]))"
proof -
  have "Suc pos < length buf" using at_pos [OF assms(1)] assms(2) by (metis drop_all leI)
  with at_pos [OF assms(1)] show ?thesis by (subst peek_args.simps) simp
qed

lemma peek_args_stop: "drop pos buf = [] \<or> hd (drop pos buf) \<noteq> ARG_SEP \<Longrightarrow> peek_args buf pos acc = Ok (pos, acc)"
  by (subst peek_args.simps) (auto simp: hd_drop_conv_nth)

lemma peek_args_valid:
  assumes "drop pos buf = encode_args as @ r" "r = [] \<or> hd r \<noteq> ARG_SEP" "\<forall>a \<in> set as. string_ok a"
  shows "peek_args buf pos acc = Ok (pos + length (encode_args as), acc @ as)"
  using assms
proof (induction as arbitrary: pos acc)
  case Nil
  then show ?case by (simp add: peek_args_stop)
next
  case (Cons a as)
  have h: "drop pos buf = ARG_SEP # encode_element a @ encode_args as @ r" using Cons.prems(1) by simp
  have arg: "peek_arg buf (Suc pos) = Ok (a, Suc pos + length (encode_element a))"
    unfolding peek_arg_def using at_pos [OF h] Cons.prems(3) by (intro peek_element_valid) auto
  have "drop (Suc pos + length (encode_element a)) buf = encode_args as @ r"
    using at_pos [OF h] by (intro drop_behind) simp
  from Cons.IH [OF this Cons.prems(2)] Cons.prems(3)
  have "peek_args buf (Suc pos + length (encode_element a)) (acc @ [a])
      = Ok (Suc pos + length (encode_element a) + length (encode_args as), (acc @ [a]) @ as)" by simp
  then show ?case by (subst peek_args_step [OF h]) (simp_all add: arg)
qed

text \<open>The end of \<open>peek_instruction\<close>, behind the arguments.\<close>

definition peek_finish :: "bytes \<Rightarrow> bytes \<Rightarrow> nat \<Rightarrow> bytes list \<Rightarrow> (peeked_instruction, peek_error) result" where
  "peek_finish buf opc pos as =
     (if pos = length buf then Err Incomplete
      else if buf ! pos = INST_TERM
      then Ok \<lparr>pk_opcode = opc, pk_args = as, total_length_in_buffer = pos + 1,
                is_error_opcode = (opc = ERROR_OPCODE)\<rparr>
      else Err (InvalidFormat
             (ExpectedTerminator (buf ! pos) pos (lossy_text (take pos buf)) None)))"

lemma peek_general_alt:
  "peek_general buf =
     bind_result (peek_element OpcodeNoDelimiter OpcodeLengthNotInteger buf 0) (\<lambda>(opc, pos).
     bind_result (peek_args buf pos []) (\<lambda>(pos, as). peek_finish buf opc pos as))"
proof (cases "peek_length OpcodeNoDelimiter OpcodeLengthNotInteger buf 0")
  case (Ok p)
  obtain l pos where p: "p = (l, pos)" by (cases p)
  have e: "(if l = 0 then Ok ([], 0) else extract_utf8_chars buf pos l) = extract_utf8_chars buf pos l"
    by (simp add: extract_utf8_chars_def)
  show ?thesis
  proof (cases "extract_utf8_chars buf pos l")
    case ex: (Ok t)
    obtain opc k where t: "t = (opc, k)" by (cases t)
    have "opc = []" if "l = 0" using ex t that by (simp add: extract_utf8_chars_def)
    moreover have "[] \<noteq> ERROR_OPCODE" by (simp add: ERROR_OPCODE_def)
    moreover have e': "(if l = 0 then Ok ([], 0) else Ok (opc, k)) = (Ok (opc, k) :: (bytes \<times> nat, peek_error) result)"
      using e unfolding ex t .
    ultimately show ?thesis
      unfolding peek_general_def peek_element_def Ok p bind_result.simps prod.case ex t e' peek_finish_def
      by (cases "peek_args buf (pos + k) []") auto
  qed (simp add: peek_general_def peek_element_def Ok p e)
qed (simp add: peek_general_def peek_element_def)

lemma peek_args_prefix:
  assumes "drop pos buf @ q = encode_args as @ [INST_TERM]" "q \<noteq> []" "pos \<le> length buf"
    "\<forall>a \<in> set as. string_ok a"
  shows "bind_result (peek_args buf pos acc) (\<lambda>(pos, as). peek_finish buf opc pos as) = Err Incomplete"
  using assms
proof (induction as arbitrary: pos acc)
  case Nil
  then have "drop pos buf = []" by (cases "drop pos buf") auto
  moreover from this Nil have "pos = length buf" by simp
  ultimately show ?case by (simp add: peek_args_stop peek_finish_def)
next
  case (Cons a as)
  show ?case
  proof (cases "drop pos buf")
    case Nil
    moreover from this Cons.prems have "pos = length buf" by simp
    ultimately show ?thesis by (simp add: peek_args_stop peek_finish_def)
  next
    case (Cons x t)
    with Cons.prems(1) have x: "x = ARG_SEP" and t: "t @ q = encode_element a @ encode_args as @ [INST_TERM]"
      by simp_all
    note at = at_pos [OF Cons]
    show ?thesis
    proof (cases "length t < length (encode_element a)")
      case True
      then obtain q' where q': "t @ q' = encode_element a" "q' \<noteq> []"
        using cut_inside [OF t] by blast
      show ?thesis
      proof (cases "t = []")
        case True
        then have "Suc pos = length buf" using at by simp
        then show ?thesis using at x by (subst peek_args.simps) simp
      next
        case False
        have "peek_arg buf (Suc pos) = Err Incomplete"
          unfolding peek_arg_def using at q' Cons.prems(4) by (intro peek_element_prefix) auto
        then show ?thesis using Cons x False by (subst peek_args_step) auto
      qed
    next
      case False
      then obtain t' where t': "t = encode_element a @ t'" "t' @ q = encode_args as @ [INST_TERM]"
        using cut_behind [OF t False] by blast
      have ne: "t \<noteq> []" using t' by simp
      have arg: "peek_arg buf (Suc pos) = Ok (a, Suc pos + length (encode_element a))"
        unfolding peek_arg_def using at t' Cons.prems(4) by (intro peek_element_valid) auto
      have d: "drop (Suc pos + length (encode_element a)) buf = t'"
        using at t' by (intro drop_behind) simp
      have "length buf - Suc pos = length (encode_element a) + length t'"
        using at t' by (metis length_append length_drop)
      moreover have "0 < length (encode_element a)" by simp
      ultimately have "Suc pos + length (encode_element a) \<le> length buf" by linarith
      with Cons.IH [of "Suc pos + length (encode_element a)" "acc @ [a]"] d t' Cons.prems(2,4)
      have "bind_result (peek_args buf (Suc pos + length (encode_element a)) (acc @ [a]))
          (\<lambda>(pos, as). peek_finish buf opc pos as) = Err Incomplete" by simp
      then show ?thesis
        using peek_args_step [of pos buf t acc] Cons x ne by (simp add: arg)
    qed
  qed
qed

definition instruction_ok :: "owned_instruction \<Rightarrow> bool" where
  "instruction_ok i \<longleftrightarrow> string_ok (opcode i) \<and> (\<forall>a \<in> set (args i). string_ok a)"

definition peeked_of :: "owned_instruction \<Rightarrow> peeked_instruction" where
  "peeked_of i = \<lparr>pk_opcode = opcode i, pk_args = args i,
     total_length_in_buffer = length (encode_instruction i), is_error_opcode = (opcode i = ERROR_OPCODE)\<rparr>"

lemma peek_general_valid:
  assumes "instruction_ok i"
  shows "peek_general (encode_instruction i @ rest) = Ok (peeked_of i)"
proof -
  let ?buf = "encode_instruction i @ rest"
  let ?n = "length (encode_element (opcode i))"
  have "drop 0 ?buf = encode_element (opcode i) @ encode_args (args i) @ INST_TERM # rest"
    by (simp add: encode_instruction_def)
  from peek_element_valid [OF this] assms
  have op: "peek_element a b ?buf 0 = Ok (opcode i, ?n)" for a b by (simp add: instruction_ok_def)
  have "drop ?n ?buf = encode_args (args i) @ INST_TERM # rest"
    by (simp add: encode_instruction_def)
  from peek_args_valid [OF this, of "[]"] assms
  have as: "peek_args ?buf ?n [] = Ok (?n + length (encode_args (args i)), args i)"
    by (simp add: instruction_ok_def INST_TERM_def ARG_SEP_def)
  have "?buf ! (?n + length (encode_args (args i))) = INST_TERM"
    by (simp add: encode_instruction_def nth_append)
  then show ?thesis
    unfolding peek_general_alt op as
    by (simp add: as peek_finish_def peeked_of_def) (simp add: encode_instruction_def)
qed

lemma sync_encoding: "encode_instruction \<lparr>opcode = sync_opcode, args = []\<rparr> = sync_instruction"
proof -
  have "char_count sync_opcode = 4" by code_simp
  moreover have "dec_bytes 4 = [0x34]" by code_simp
  ultimately show ?thesis
    by (simp add: encode_instruction_def encode_element_def sync_instruction_def sync_opcode_def
        INST_TERM_def ELEM_SEP_def)
qed

text \<open>The fast path computes what the general one does.\<close>

lemma peek_eq_general: "buf \<noteq> [] \<Longrightarrow> peek_instruction buf = peek_general buf"
proof (cases "length buf \<ge> 7 \<and> take 7 buf = sync_instruction")
  case True
  assume "buf \<noteq> []"
  have "is_ascii sync_opcode" by (simp add: is_ascii_def sync_opcode_def)
  then have ok: "instruction_ok \<lparr>opcode = sync_opcode, args = []\<rparr>"
    using char_count_le [of sync_opcode]
    by (simp add: instruction_ok_def string_ok_def from_utf8_ascii) (simp add: sync_opcode_def)
  have "buf = sync_instruction @ drop 7 buf" using True by (metis append_take_drop_id)
  then have "peek_general buf = Ok (peeked_of \<lparr>opcode = sync_opcode, args = []\<rparr>)"
    using peek_general_valid [OF ok, of "drop 7 buf"] by (simp add: sync_encoding)
  also have "\<dots> = peek_instruction buf"
    using True \<open>buf \<noteq> []\<close>
    by (simp add: peek_instruction_def peeked_of_def sync_encoding)
      (simp add: sync_instruction_def sync_opcode_def ERROR_OPCODE_def)
  finally show ?thesis by simp
qed (auto simp: peek_instruction_def)

lemma peek_valid: "instruction_ok i \<Longrightarrow> peek_instruction (encode_instruction i @ rest) = Ok (peeked_of i)"
  by (subst peek_eq_general) (simp_all add: peek_general_valid, simp add: encode_instruction_def)

lemma peek_prefix:
  assumes i: "instruction_ok i" and pq: "encode_instruction i = p @ q" and "q \<noteq> []"
  shows "peek_instruction p = Err Incomplete"
proof (cases "p = []")
  case False
  have e: "p @ q = encode_element (opcode i) @ encode_args (args i) @ [INST_TERM]"
    using pq by (simp add: encode_instruction_def)
  have "peek_general p = Err Incomplete"
  proof (cases "length p < length (encode_element (opcode i))")
    case True
    then obtain q' where "p @ q' = encode_element (opcode i)" "q' \<noteq> []"
      using cut_inside [OF e] by blast
    then have "peek_element a b p 0 = Err Incomplete" for a b
      using i by (intro peek_element_prefix) (auto simp: instruction_ok_def)
    then show ?thesis by (simp add: peek_general_alt)
  next
    case len: False
    then obtain t where t: "p = encode_element (opcode i) @ t" "t @ q = encode_args (args i) @ [INST_TERM]"
      using cut_behind [OF e len] by blast
    have op: "peek_element a b p 0 = Ok (opcode i, length (encode_element (opcode i)))" for a b
      using peek_element_valid [of 0 p "opcode i" t] t i by (simp add: instruction_ok_def)
    have "bind_result (peek_args p (length (encode_element (opcode i))) [])
        (\<lambda>(pos, as). peek_finish p (opcode i) pos as) = Err Incomplete"
      using t i \<open>q \<noteq> []\<close> by (intro peek_args_prefix) (auto simp: instruction_ok_def)
    then show ?thesis by (simp add: peek_general_alt op)
  qed
  with False show ?thesis by (simp add: peek_eq_general)
qed (simp add: peek_instruction_def)

text \<open>The receive loop's view of the parser.\<close>

definition peek_step :: "bytes \<Rightarrow> (owned_instruction \<times> bytes) option" where
  "peek_step buf =
     (case peek_instruction buf of
        Ok pk \<Rightarrow> Some (\<lparr>opcode = pk_opcode pk, args = pk_args pk\<rparr>, drop (total_length_in_buffer pk) buf)
      | Err e \<Rightarrow> None)"

interpretation guac: frame_codec encode_instruction peek_step instruction_ok
proof
  show "peek_step (encode_instruction i @ rest) = Some (i, rest)" if "instruction_ok i" for i rest
    using that by (simp add: peek_step_def peek_valid peeked_of_def)
  show "peek_step p = None" if "instruction_ok i" "encode_instruction i = p @ q" "q \<noteq> []" for i p q
    using peek_prefix [OF that] by (simp add: peek_step_def)
  show "encode_instruction i \<noteq> []" for i
    by (simp add: encode_instruction_def)
qed

section \<open>What the parser accepts\<close>

lemma extract_sound:
  assumes "extract_utf8_chars buf pos n = Ok (s, k)" "pos \<le> length buf"
  shows "from_utf8 s \<and> char_count s = n \<and> k = length s \<and> take k (drop pos buf) = s \<and> pos + k \<le> length buf"
proof (cases "pos < length buf")
  case True
  then have "fallback_utf8_extract (drop pos buf) n = Ok (s, k)"
    using assms by (simp add: extract_eq_fallback)
  then obtain c where "fallback_loop (drop pos buf) n 0 0 = Ok (k, c)" "\<not> c < n" "s = take k (drop pos buf)"
    by (auto simp: fallback_utf8_extract_def split: if_splits)
  moreover from fallback_loop_sound [OF this(1)] obtain t where
    "from_utf8 t" "drop pos buf = t @ drop k (drop pos buf)" "k = length t" "c = char_count t"
    "k \<le> length buf - pos" "c \<le> n" by auto
  moreover from this(2,3) have "take k (drop pos buf) = t" by (metis append_eq_conv_conj)
  ultimately show ?thesis using True by auto
next
  case False
  with assms show ?thesis by (auto simp: extract_utf8_chars_def split: if_splits)
qed

lemma peek_length_bound: "peek_length a b buf pos = Ok (l, pos') \<Longrightarrow> pos' \<le> length buf"
  by (auto simp: peek_length_def split: option.splits if_splits)

lemma peek_element_sound:
  "peek_element a b buf pos = Ok (s, pos') \<Longrightarrow> from_utf8 s \<and> pos' \<le> length buf"
  by (auto simp: peek_element_def dest!: peek_length_bound extract_sound)

lemma peek_args_sound:
  "peek_args buf pos acc = Ok (pos', as) \<Longrightarrow> \<forall>a \<in> set acc. from_utf8 a \<Longrightarrow> pos \<le> length buf \<Longrightarrow>
     (\<forall>a \<in> set as. from_utf8 a) \<and> pos' \<le> length buf"
proof (induction buf pos acc rule: peek_args.induct)
  case (1 buf pos acc)
  show ?case
  proof (cases "pos < length buf \<and> buf ! pos = ARG_SEP")
    case True
    with 1(2) obtain s p where s: "\<not> pos + 1 \<ge> length buf" "peek_arg buf (pos + 1) = Ok (s, p)"
      "peek_args buf p (acc @ [s]) = Ok (pos', as)"
      by (subst (asm) peek_args.simps) (auto split: if_splits result.splits)
    from peek_element_sound [OF s(2) [unfolded peek_arg_def]] 1(3)
    show ?thesis by (intro 1(1) [OF True s(1,2) refl s(3)]) auto
  next
    case False
    with 1 have "Ok (pos, acc) = (Ok (pos', as) :: (nat \<times> bytes list, peek_error) result)"
      by (subst (asm) (2) peek_args.simps) simp
    with 1(3,4) show ?thesis by auto
  qed
qed

lemma peek_sound:
  assumes "peek_instruction buf = Ok pk"
  shows "from_utf8 (pk_opcode pk) \<and> (\<forall>a \<in> set (pk_args pk). from_utf8 a)
     \<and> 0 < total_length_in_buffer pk \<and> total_length_in_buffer pk \<le> length buf
     \<and> buf ! (total_length_in_buffer pk - 1) = INST_TERM
     \<and> is_error_opcode pk = (pk_opcode pk = ERROR_OPCODE)"
proof -
  have "buf \<noteq> []" using assms by (auto simp: peek_instruction_def)
  with assms have "peek_general buf = Ok pk" by (simp add: peek_eq_general)
  then obtain opc p p' as where o: "peek_element OpcodeNoDelimiter OpcodeLengthNotInteger buf 0 = Ok (opc, p)"
    and a: "peek_args buf p [] = Ok (p', as)" and f: "peek_finish buf opc p' as = Ok pk"
    by (auto simp: peek_general_alt)
  note o' = peek_element_sound [OF o]
  note a' = peek_args_sound [OF a]
  show ?thesis using f o' a' by (auto simp: peek_finish_def split: if_splits)
qed

section \<open>Validation agrees with peeking\<close>

lemma skip_of_fallback: "fallback_loop xs cc b c = Ok r \<Longrightarrow> skip_loop xs cc b c = Ok r"
proof (induction xs cc b c rule: fallback_loop.induct)
  case (1 xs cc b c)
  show ?case
  proof (cases "b < length xs \<and> c < cc")
    case True
    define n where "n = utf8_char_len (xs ! b)"
    have step: "fallback_loop xs cc b c =
       (if n = 0 then Err (Utf8Error InvalidStartByte)
        else if b + n > length xs then Err Incomplete
        else if n > 1 \<and> \<not> from_utf8 (take n (drop b xs))
        then Err (Utf8Error (InvalidSequenceAt b))
        else fallback_loop xs cc (b + n) (c + 1))"
      using True by (subst fallback_loop.simps) (simp add: Let_def n_def)
    have skip: "skip_loop xs cc b c =
       (if n = 0 then Err (Utf8Error (InvalidStartByteAt (xs ! b) b))
        else if b + n > length xs then Err Incomplete
        else skip_loop xs cc (b + n) (c + 1))"
      using True by (subst skip_loop.simps) (simp add: Let_def n_def)
    show ?thesis
      using 1(1) [OF True n_def] 1(2) unfolding step skip by (auto split: if_splits)
  next
    case False
    with 1(2) show ?thesis by (subst (asm) fallback_loop.simps, subst skip_loop.simps) auto
  qed
qed

lemma value_byte_len_extract:
  assumes "extract_utf8_chars buf pos n = Ok (s, k)" "pos \<le> length buf"
  shows "value_byte_len buf pos n = Ok k"
proof (cases "n = 0")
  case True
  with assms show ?thesis by (simp add: extract_utf8_chars_def value_byte_len_def is_ascii_def)
next
  case False
  then have "pos < length buf" using assms by (auto simp: extract_utf8_chars_def split: if_splits)
  then have f: "fallback_utf8_extract (drop pos buf) n = Ok (s, k)"
    using assms by (simp add: extract_eq_fallback)
  show ?thesis
  proof (cases "pos + n \<le> length buf \<and> is_ascii (take n (drop pos buf))")
    case True
    then have "fallback_utf8_extract (drop pos buf) n = Ok (take n (drop pos buf), n)"
      by (intro fallback_ascii) auto
    with f True show ?thesis by (simp add: value_byte_len_def)
  next
    case False
    from f obtain c where "fallback_loop (drop pos buf) n 0 0 = Ok (k, c)" "\<not> c < n"
      by (auto simp: fallback_utf8_extract_def split: if_splits)
    with False skip_of_fallback [OF this(1)] show ?thesis
      by (auto simp: value_byte_len_def skip_utf8_chars_def)
  qed
qed

lemma validate_of_peek_length: "peek_length a b buf pos = Ok r \<Longrightarrow> validate_length c buf pos = Ok r"
  by (auto simp: peek_length_def validate_length_def split: option.splits if_splits)

lemma validate_of_peek_args:
  "peek_args buf pos acc = Ok (pos', as) \<Longrightarrow> validate_args buf pos = Ok pos'"
proof (induction buf pos acc rule: peek_args.induct)
  case (1 buf pos acc)
  show ?case
  proof (cases "pos < length buf \<and> buf ! pos = ARG_SEP")
    case True
    with 1(2) obtain s p where s: "\<not> pos + 1 \<ge> length buf" "peek_arg buf (pos + 1) = Ok (s, p)"
      "peek_args buf p (acc @ [s]) = Ok (pos', as)"
      by (subst (asm) peek_args.simps) (auto split: if_splits result.splits)
    from s(2) obtain l p1 k where l: "peek_length ArgNoDelimiter ArgLengthNotInteger buf (pos + 1) = Ok (l, p1)"
      and k: "extract_utf8_chars buf p1 l = Ok (s, k)" and p: "p = p1 + k"
      by (auto simp: peek_arg_def peek_element_def)
    have "value_byte_len buf p1 l = Ok k"
      using value_byte_len_extract [OF k] peek_length_bound [OF l] by simp
    with validate_of_peek_length [OF l, of InvalidArgLength] 1(1) [OF True s(1,2) refl s(3)] True s(1) p
    show ?thesis by (subst validate_args.simps) simp
  next
    case False
    with 1(2) show ?thesis by (subst (asm) peek_args.simps, subst validate_args.simps) auto
  qed
qed

text \<open>The action an opcode calls for.\<close>

definition action_of :: "bytes \<Rightarrow> opcode_action" where
  "action_of opc =
     (if opc = ERROR_OPCODE \<or> opc = DISCONNECT_OPCODE then ActCloseConnection
      else if opc = SIZE_OPCODE then ActProcessSpecial SpSize
      else if opc = sync_opcode then ActServerSync else ActNormal)"

lemma literal_detected:
  assumes ex: "extract_utf8_chars buf pos n = Ok (s, k)" "pos \<le> length buf"
    and lit: "is_ascii t" "t \<noteq> []" "length t \<le> 10"
  shows "(n > 0 \<and> n \<le> 10 \<and> pos + n \<le> length buf \<and> take n (drop pos buf) = t) \<longleftrightarrow> s = t"
proof
  assume l: "n > 0 \<and> n \<le> 10 \<and> pos + n \<le> length buf \<and> take n (drop pos buf) = t"
  then have "n \<le> length (drop pos buf)" by auto
  with l have "fallback_utf8_extract (drop pos buf) n = Ok (t, n)"
    using lit fallback_ascii [of n "drop pos buf"] by simp
  with l ex show "s = t" by (simp add: extract_eq_fallback)
next
  assume "s = t"
  with extract_sound [OF ex] lit show "n > 0 \<and> n \<le> 10 \<and> pos + n \<le> length buf \<and> take n (drop pos buf) = t"
    by (auto simp: char_count_ascii)
qed

lemma detect_action_of:
  assumes "extract_utf8_chars buf pos n = Ok (s, k)" "pos \<le> length buf"
  shows "detect_action buf pos n = action_of s"
proof -
  have lits: "is_ascii ERROR_OPCODE" "is_ascii DISCONNECT_OPCODE" "is_ascii SIZE_OPCODE" "is_ascii sync_opcode"
    by (simp_all add: is_ascii_def ERROR_OPCODE_def DISCONNECT_OPCODE_def SIZE_OPCODE_def sync_opcode_def)
  have lens: "ERROR_OPCODE \<noteq> []" "length ERROR_OPCODE \<le> 10" "DISCONNECT_OPCODE \<noteq> []"
    "length DISCONNECT_OPCODE \<le> 10" "SIZE_OPCODE \<noteq> []" "length SIZE_OPCODE \<le> 10"
    "sync_opcode \<noteq> []" "length sync_opcode \<le> 10"
    by (simp_all add: ERROR_OPCODE_def DISCONNECT_OPCODE_def SIZE_OPCODE_def sync_opcode_def)
  note d = literal_detected [OF assms, OF lits(1) lens(1,2), symmetric]
    literal_detected [OF assms, OF lits(2) lens(3,4), symmetric]
    literal_detected [OF assms, OF lits(3) lens(5,6), symmetric]
    literal_detected [OF assms, OF lits(4) lens(7,8), symmetric]
  show ?thesis
    by (auto simp: detect_action_def action_of_def Let_def d)
qed

lemma validate_of_peek:
  assumes "peek_instruction buf = Ok pk"
  shows "validate_and_detect_special buf = Ok (total_length_in_buffer pk, action_of (pk_opcode pk))"
proof (cases "length buf \<ge> 7 \<and> take 7 buf = sync_instruction")
  case True
  have "action_of sync_opcode = ActServerSync"
    by (simp add: action_of_def ERROR_OPCODE_def DISCONNECT_OPCODE_def SIZE_OPCODE_def sync_opcode_def)
  with True assms show ?thesis
    by (auto simp: peek_instruction_def validate_and_detect_special_def split: if_splits)
next
  case False
  have ne: "buf \<noteq> []" using assms by (auto simp: peek_instruction_def)
  with assms have "peek_general buf = Ok pk" by (simp add: peek_eq_general)
  then obtain l p0 opc k p' as where
    l: "peek_length OpcodeNoDelimiter OpcodeLengthNotInteger buf 0 = Ok (l, p0)"
    and k: "extract_utf8_chars buf p0 l = Ok (opc, k)"
    and a: "peek_args buf (p0 + k) [] = Ok (p', as)" and f: "peek_finish buf opc p' as = Ok pk"
    by (auto simp: peek_general_alt peek_element_def)
  have p0: "p0 \<le> length buf" using peek_length_bound [OF l] .
  have "(if l = 0 then Ok 0 else value_byte_len buf p0 l) = (Ok k :: (nat, peek_error) result)"
    using k value_byte_len_extract [OF k p0] by (auto simp: extract_utf8_chars_def)
  moreover have "p' < length buf" "buf ! p' = INST_TERM" "total_length_in_buffer pk = p' + 1"
    "pk_opcode pk = opc"
    using f peek_args_sound [OF a] extract_sound [OF k p0] by (auto simp: peek_finish_def split: if_splits)
  ultimately have "validate_general buf = Ok (total_length_in_buffer pk, action_of (pk_opcode pk))"
    using validate_of_peek_length [OF l, of InvalidOpcodeLength] validate_of_peek_args [OF a]
      detect_action_of [OF k p0]
    by (simp add: validate_general_def)
  with ne False show ?thesis by (auto simp: validate_and_detect_special_def)
qed

section \<open>The content parser inverts the encoder\<close>

lemma content_element_valid:
  assumes "drop pos buf = encode_element s @ r" "from_utf8 s" "char_count s < 2 ^ 64"
  shows "content_element a b c buf pos = Ok (s, pos + length (encode_element s))"
proof -
  let ?d = "dec_bytes (char_count s)"
  have d: "drop pos buf = ?d @ ELEM_SEP # s @ r"
    using assms(1) by (simp add: encode_element_def)
  have "drop (pos + length (?d @ [ELEM_SEP])) buf = s @ r" using d by (intro drop_behind) simp
  then have "extract_utf8_chars buf (Suc (pos + length ?d)) (char_count s) = Ok (s, length s)"
    using assms(2) by (intro extract_valid) simp_all
  moreover have "is_ascii ?d"
    using dec_bytes_digits [of _ "char_count s"]
    by (fastforce simp: is_ascii_def is_ascii_digit_def word_le_nat_alt)
  ultimately show ?thesis
    using d assms(3)
    by (simp add: content_element_def digits_no_separator parse_usize_dec_bytes from_utf8_ascii
        encode_element_def)
qed

lemma content_args_valid:
  assumes "drop pos buf = encode_args as" "\<forall>a \<in> set as. from_utf8 a \<and> char_count a < 2 ^ 64"
  shows "content_args buf pos acc = Ok (acc @ as)"
  using assms
proof (induction as arbitrary: pos acc)
  case Nil
  then show ?case by (subst content_args.simps) simp
next
  case (Cons a as)
  have h: "drop pos buf = ARG_SEP # encode_element a @ encode_args as" using Cons.prems(1) by simp
  have "Suc pos < length buf"
    using at_pos [OF h] by (metis append_is_Nil_conv drop_all encode_element_nonempty leI)
  moreover have "content_element x y z buf (Suc pos) = Ok (a, Suc pos + length (encode_element a))" for x y z
    using at_pos [OF h] Cons.prems(2) by (intro content_element_valid) auto
  moreover have "drop (Suc pos + length (encode_element a)) buf = encode_args as"
    using at_pos [OF h] by (intro drop_behind) simp
  ultimately show ?case
    using Cons.IH [of "Suc pos + length (encode_element a)" "acc @ [a]"] Cons.prems(2) at_pos [OF h]
    by (subst content_args.simps) simp
qed

definition content_of :: "owned_instruction \<Rightarrow> bytes" where
  "content_of i = encode_element (opcode i) @ encode_args (args i)"

lemma encode_content: "encode_instruction i = content_of i @ [INST_TERM]"
  by (simp add: encode_instruction_def content_of_def)

lemma parse_content_of:
  assumes "\<forall>s \<in> set (opcode i # args i). from_utf8 s \<and> char_count s < 2 ^ 64"
  shows "parse_instruction_content (content_of i) = Ok i"
proof -
  let ?n = "length (encode_element (opcode i))"
  have op: "content_element a b c (content_of i) 0 = Ok (opcode i, ?n)" for a b c
    using content_element_valid [of 0 "content_of i" "opcode i"] assms by (simp add: content_of_def)
  have as: "content_args (content_of i) ?n [] = Ok (args i)"
    using content_args_valid [of ?n "content_of i" "args i"] assms by (simp add: content_of_def)
  have short: "opcode i = [] \<and> args i = []" if "content_of i = [0x30, ELEM_SEP]"
  proof -
    have "length (dec_bytes (char_count (opcode i))) \<ge> 1" by (simp add: Suc_le_eq)
    moreover have "length (content_of i) = 2" using that by simp
    ultimately have "length (opcode i) = 0 \<and> length (encode_args (args i)) = 0"
      unfolding content_of_def encode_element_def length_append list.size by linarith
    then show ?thesis by (cases "args i") simp_all
  qed
  show ?thesis
  proof (cases "content_of i = [0x30, ELEM_SEP]")
    case True
    with short show ?thesis
      by (cases i) (simp add: parse_instruction_content_def)
  next
    case False
    moreover have "content_of i \<noteq> []" by (simp add: content_of_def)
    ultimately show ?thesis by (simp add: parse_instruction_content_def op as)
  qed
qed

section \<open>Properties\<close>

text \<open>
  C13 (roundtrip). Instructions of valid strings with at most a million characters each survive the
  wire: the receive loop over any run of encodings, cut anywhere inside the next one, returns
  exactly those instructions and keeps the partial one in the buffer, multi-byte text included.
\<close>

theorem instruction_stream:
  assumes "\<forall>i \<in> set is. instruction_ok i" and "instruction_ok j" "encode_instruction j = p @ q" "q \<noteq> []"
  shows "drain peek_step (Suc (length (concat (map encode_instruction is) @ p)))
           (concat (map encode_instruction is) @ p) = (is, p)
       \<and> peek_instruction p = Err Incomplete"
  using guac.drain_all_stream [OF assms] peek_prefix [OF assms(2-4)] by blast

theorem instruction_stream_witness:
  "drain peek_step (Suc (length (concat (map encode_instruction
       [\<lparr>opcode = utf8 [0x6E], args = [utf8 [0x65E5, 0x672C], []]\<rparr>]) @ [0x34, ELEM_SEP, 0x73])))
     (concat (map encode_instruction [\<lparr>opcode = utf8 [0x6E], args = [utf8 [0x65E5, 0x672C], []]\<rparr>])
       @ [0x34, ELEM_SEP, 0x73])
   = ([\<lparr>opcode = utf8 [0x6E], args = [utf8 [0x65E5, 0x672C], []]\<rparr>], [0x34, ELEM_SEP, 0x73])
   \<and> peek_instruction [0x34, ELEM_SEP, 0x73] = Err Incomplete"
proof (rule instruction_stream)
  show "\<forall>i \<in> set [\<lparr>opcode = utf8 [0x6E], args = [utf8 [0x65E5, 0x672C], []]\<rparr>]. instruction_ok i"
    by (simp add: instruction_ok_def string_ok_def from_utf8_utf8 char_count_utf8 is_scalar_def)
  have "is_ascii sync_opcode" by (simp add: is_ascii_def sync_opcode_def)
  then show "instruction_ok \<lparr>opcode = sync_opcode, args = []\<rparr>"
    using char_count_le [of sync_opcode]
    by (simp add: instruction_ok_def string_ok_def from_utf8_ascii) (simp add: sync_opcode_def)
  show "encode_instruction \<lparr>opcode = sync_opcode, args = []\<rparr>
      = [0x34, ELEM_SEP, 0x73] @ [0x79, 0x6E, 0x63, INST_TERM]"
    unfolding sync_encoding by (simp add: sync_instruction_def ELEM_SEP_def INST_TERM_def)
qed simp

text \<open>
  C28 (safety). Every slice the parser turns into a string without a check
  (\<open>from_utf8_unchecked\<close>) is valid UTF-8: whatever bytes arrive, a successful extraction covers
  bytes inside the buffer that are valid UTF-8 of exactly the requested number of characters, and a
  successful peek returns valid strings only, ends on the instruction's \<open>;\<close> inside the buffer and
  flags exactly the opcode \<open>error\<close>.
\<close>

theorem unchecked_strings_valid:
  "(pos \<le> length buf \<and> extract_utf8_chars buf pos n = Ok (s, k) \<longrightarrow>
      from_utf8 s \<and> char_count s = n \<and> k = length s \<and> take k (drop pos buf) = s \<and> pos + k \<le> length buf) \<and>
   (peek_instruction buf = Ok pk \<longrightarrow>
      from_utf8 (pk_opcode pk) \<and> (\<forall>a \<in> set (pk_args pk). from_utf8 a)
      \<and> 0 < total_length_in_buffer pk \<and> total_length_in_buffer pk \<le> length buf
      \<and> buf ! (total_length_in_buffer pk - 1) = INST_TERM
      \<and> is_error_opcode pk = (pk_opcode pk = ERROR_OPCODE))"
  using extract_sound peek_sound by blast

theorem unchecked_strings_valid_witness:
  "from_utf8 [0xC3, 0xA9] \<and> char_count [0xC3, 0xA9] = 1"
proof -
  have "extract_utf8_chars [0x31, 0x2E, 0xC3, 0xA9, 0x3B] 2 1 = Ok ([0xC3, 0xA9], 2)" by code_simp
  with unchecked_strings_valid [of 2 "[0x31, 0x2E, 0xC3, 0xA9, 0x3B]" 1 "[0xC3, 0xA9]" 2]
  show ?thesis by simp
qed

text \<open>
  C37 (equivalence). The vectorised extraction and the ASCII shortcut return what the plain
  character loop returns, on every buffer inside the bounds; the \<open>4.sync;\<close> shortcut returns what the
  general parser returns.
\<close>

theorem fast_paths_agree:
  "(pos < length buf \<longrightarrow> extract_utf8_chars buf pos n = fallback_utf8_extract (drop pos buf) n) \<and>
   (buf \<noteq> [] \<longrightarrow> peek_instruction buf = peek_general buf)"
  using extract_eq_fallback peek_eq_general by blast

theorem fast_paths_agree_witness:
  "extract_utf8_chars [0x31, 0x2E, 0xC3, 0xA9, 0x3B] 2 1
     = fallback_utf8_extract (drop 2 [0x31, 0x2E, 0xC3, 0xA9, 0x3B]) 1
   \<and> peek_instruction sync_instruction = peek_general sync_instruction"
  using fast_paths_agree [of 2 "[0x31, 0x2E, 0xC3, 0xA9, 0x3B]" 1]
    fast_paths_agree [of 0 sync_instruction 0]
  by (simp add: sync_instruction_def)

text \<open>
  C31 (refinement). The hot path's validation refines the parser: whenever an instruction parses,
  \<open>validate_and_detect_special\<close> reports the same length and the action its opcode calls for.
\<close>

theorem validation_refines_peek:
  assumes "peek_instruction buf = Ok pk"
  shows "validate_and_detect_special buf = Ok (total_length_in_buffer pk, action_of (pk_opcode pk))"
  by (rule validate_of_peek [OF assms])

theorem validation_refines_peek_witness:
  "validate_and_detect_special (encode_instruction \<lparr>opcode = SIZE_OPCODE, args = [[0x30], [0x39]]\<rparr>)
     = Ok (length (encode_instruction \<lparr>opcode = SIZE_OPCODE, args = [[0x30], [0x39]]\<rparr>),
           ActProcessSpecial SpSize)"
proof -
  let ?i = "\<lparr>opcode = SIZE_OPCODE, args = [[0x30], [0x39]]\<rparr>"
  have "is_ascii SIZE_OPCODE" "is_ascii [0x30]" "is_ascii [0x39]"
    by (simp_all add: is_ascii_def SIZE_OPCODE_def)
  then have "instruction_ok ?i"
    by (simp add: instruction_ok_def string_ok_def from_utf8_ascii char_count_ascii)
      (simp add: SIZE_OPCODE_def)
  from validation_refines_peek [OF peek_valid [OF this, of "[]", simplified]]
  show ?thesis
    by (simp add: peeked_of_def action_of_def)
      (simp add: SIZE_OPCODE_def ERROR_OPCODE_def DISCONNECT_OPCODE_def)
qed

text \<open>
  The content parser, which takes lengths up to the machine's word, returns every
  instruction of valid strings from the bytes the encoder puts before the terminator.
\<close>

lemma content_roundtrip:
  assumes "\<forall>s \<in> set (opcode i # args i). from_utf8 s \<and> char_count s < 2 ^ 64"
  shows "encode_instruction i = content_of i @ [INST_TERM] \<and>
         parse_instruction_content (content_of i) = Ok i"
  using encode_content parse_content_of [OF assms] by blast

text \<open>
  A buffer without a dot makes the two entry points disagree: when it holds an
  instruction terminator, the parser rejects it, while the hot path's validation reports it
  as incomplete, whatever its other bytes are, so the receive loop waits for more data.
\<close>

lemma validation_waits_on_malformed:
  assumes "ELEM_SEP \<notin> set buf" and "INST_TERM \<in> set buf"
  shows "peek_instruction buf = Err (InvalidFormat OpcodeNoDelimiter)
       \<and> validate_and_detect_special buf = Err Incomplete"
proof -
  have ne: "buf \<noteq> []" using assms by auto
  have sync: "take 7 buf \<noteq> sync_instruction"
    using assms(1) set_take_subset [of 7 buf] by (auto simp: sync_instruction_def ELEM_SEP_def)
  have "find_delimiter buf INST_TERM \<noteq> None"
    using assms(2) find_delimiter_None [of buf INST_TERM] by blast
  with ne assms(1) have "peek_instruction buf = Err (InvalidFormat OpcodeNoDelimiter)"
    by (simp add: peek_eq_general peek_general_def peek_length_def find_delimiter_None [THEN iffD2])
  moreover have "validate_and_detect_special buf = Err Incomplete"
    using ne sync assms(1)
    by (simp add: validate_and_detect_special_def validate_general_def validate_length_def
        find_delimiter_None [THEN iffD2])
  ultimately show ?thesis by blast
qed

end
