(* ===== verification/Guacd_Outbound.thy ===== *)
theory Guacd_Outbound
  imports Guac_Streaming Control_Plane
begin

text \<open>
  The backend-to-WebRTC task of a channel's connection, \<open>setup_outbound_task\<close> in
  \<open>keeper-pam-webrtc-rs/src/channel/connections.rs\<close>: bytes read from guacd are cut into
  instructions, batched into data frames and flushed after every read; a sync flushes the batch and
  goes out alone; an error or disconnect instruction, a malformed one and a failing send close the
  connection and switch to drain mode; the end of the backend's stream ends the task. The other
  protocols forward what they read.

  The state is the task's local variables and the channel's close reason. What the environment
  decides is an argument: which calls of \<open>send_with_event_backpressure\<close> succeed (by their number),
  the clock, whether the two \<open>try_lock\<close>s of the close reason succeed, and the \<open>Debug\<close> rendering of a
  peek error. A frame counts as sent when its send returned \<open>Ok\<close>; how the send cuts it into
  fragments is the assembler's business. Log output, buffer reservations, the sleep and the drain of
  the data channel are left out. \<open>None\<close> is a panic.
\<close>

section \<open>State\<close>

record out_env =
  oe_protocol :: active_protocol
  oe_conn_no :: u32
  oe_clock :: "nat \<Rightarrow> u64"
  oe_send_ok :: "nat \<Rightarrow> bool"
  oe_lock_check :: bool
  oe_lock_store :: bool
  oe_debug :: "peek_error \<Rightarrow> bytes"

record outbound =
  main_read_buffer :: bytes
  guacd_batch_buffer :: bytes
  frames_sent :: "frame list"
  send_attempts :: nat
  clean_disconnect_received :: bool
  eof_sent :: bool
  drain_mode :: bool
  task_exited :: bool
  stored_reason :: "close_reason option"
  size_signals :: "bytes list"

definition GUACD_BATCH_SIZE :: nat where "GUACD_BATCH_SIZE = 16 * 1024"
definition LARGE_INSTRUCTION_THRESHOLD :: nat where "LARGE_INSTRUCTION_THRESHOLD = 32 * 1024"

definition initial_outbound :: outbound where
  "initial_outbound =
     \<lparr>main_read_buffer = [], guacd_batch_buffer = [], frames_sent = [], send_attempts = 0,
      clean_disconnect_received = False, eof_sent = False, drain_mode = False, task_exited = False,
      stored_reason = None, size_signals = []\<rparr>"

text \<open>An ASCII literal.\<close>

definition ascii :: "string \<Rightarrow> bytes" where
  "ascii s = map of_char s"

section \<open>Sending\<close>

definition send_frame :: "out_env \<Rightarrow> frame \<Rightarrow> outbound \<Rightarrow> bool \<times> outbound" where
  "send_frame env f st =
     (let k = send_attempts st; st' = st\<lparr>send_attempts := k + 1\<rparr>
      in if oe_send_ok env k then (True, st'\<lparr>frames_sent := frames_sent st @ [f]\<rparr>) else (False, st'))"

definition send_data :: "out_env \<Rightarrow> bytes \<Rightarrow> outbound \<Rightarrow> bool \<times> outbound" where
  "send_data env dat st =
     send_frame env \<lparr>connection_no = oe_conn_no env, timestamp_ms = oe_clock env (send_attempts st),
                     payload = dat\<rparr> st"

definition send_control :: "out_env \<Rightarrow> control_message \<Rightarrow> bytes \<Rightarrow> outbound \<Rightarrow> bool \<times> outbound" where
  "send_control env msg dat st =
     send_frame env (new_control_with_buffer (oe_clock env (send_attempts st)) msg dat) st"

definition python_already_closed :: "out_env \<Rightarrow> outbound \<Rightarrow> bool" where
  "python_already_closed env st \<longleftrightarrow> oe_lock_check env \<and> stored_reason st \<noteq> None"

definition store_close_reason :: "out_env \<Rightarrow> close_reason \<Rightarrow> outbound \<Rightarrow> outbound" where
  "store_close_reason env r st = (if oe_lock_store env then st\<lparr>stored_reason := Some r\<rparr> else st)"

section \<open>One instruction\<close>

text \<open>The message for a close instruction, and whether it is a clean disconnect.\<close>

definition guacd_error_message :: "bytes \<Rightarrow> bytes \<times> bool" where
  "guacd_error_message current_slice =
     (case peek_instruction current_slice of
        Err e \<Rightarrow> (ascii ''Guacd close opcode (parse failed)'', False)
      | Ok i \<Rightarrow>
          if pk_opcode i = DISCONNECT_OPCODE then (ascii ''Guacd disconnect'', True)
          else if pk_opcode i = ERROR_OPCODE
          then (if pk_args i \<noteq> []
                then ascii ''Guacd error: '' @
                     hd (pk_args i) @ concat (map (\<lambda>a. ascii '', '' @ a) (tl (pk_args i)))
                else ascii ''Guacd error'', False)
          else (ascii ''Guacd close: '' @ pk_opcode i, False))"

definition close_instruction :: "out_env \<Rightarrow> bytes \<Rightarrow> nat \<Rightarrow> outbound \<Rightarrow> outbound" where
  "close_instruction env current_slice n st =
     (case guacd_error_message current_slice of
        (msg, disconnect) \<Rightarrow>
          (let st1 = (if disconnect then st\<lparr>clean_disconnect_received := True\<rparr> else st);
               st2 = snd (send_data env (take n current_slice) st1)
           in if python_already_closed env st2 then st2
              else let r = (if clean_disconnect_received st2 then Normal else GuacdError);
                       st3 = snd (send_control env CloseConnection
                               (close_message (oe_conn_no env) r (Some msg)) st2)
                   in store_close_reason env GuacdError st3))"

text \<open>A sync: the batch first, then the sync itself.\<close>

definition sync_instruction_out :: "out_env \<Rightarrow> bytes \<Rightarrow> outbound \<Rightarrow> bool \<times> outbound" where
  "sync_instruction_out env instr st =
     (case (if guacd_batch_buffer st \<noteq> []
            then (case send_data env (guacd_batch_buffer st) st of
                    (ok, st') \<Rightarrow> (ok, if ok then st'\<lparr>guacd_batch_buffer := []\<rparr> else st'))
            else (True, st)) of
        (ok, st1) \<Rightarrow>
          if \<not> ok then (True, st1)
          else case send_data env instr st1 of (ok2, st2) \<Rightarrow> (\<not> ok2, st2))"

text \<open>A size instruction with at least two arguments is re-encoded for the signal system.\<close>

definition size_signal :: "bytes \<Rightarrow> outbound \<Rightarrow> outbound" where
  "size_signal current_slice st =
     (case peek_instruction current_slice of
        Ok i \<Rightarrow> (if length (pk_args i) \<ge> 2
                 then st\<lparr>size_signals := size_signals st @
                          [encode_instruction \<lparr>opcode = pk_opcode i, args = pk_args i\<rparr>]\<rparr>
                 else st)
      | Err e \<Rightarrow> st)"

text \<open>Flushing the batch before something that does not fit: the buffer is cleared either way.\<close>

definition flush_batch :: "out_env \<Rightarrow> outbound \<Rightarrow> bool \<times> outbound" where
  "flush_batch env st =
     (case send_data env (guacd_batch_buffer st) st of
        (ok, st') \<Rightarrow> (ok, st'\<lparr>guacd_batch_buffer := []\<rparr>))"

text \<open>The result is \<open>close_conn_and_break\<close>.\<close>

definition batch_instruction :: "out_env \<Rightarrow> bytes \<Rightarrow> outbound \<Rightarrow> bool \<times> outbound" where
  "batch_instruction env instr st =
     (if length instr \<ge> LARGE_INSTRUCTION_THRESHOLD
      then (case (if guacd_batch_buffer st \<noteq> [] then flush_batch env st else (True, st)) of
              (ok, st1) \<Rightarrow>
                if \<not> ok then (True, st1)
                else case send_data env instr st1 of (ok2, st2) \<Rightarrow> (\<not> ok2, st2))
      else (case (if length (guacd_batch_buffer st) + length instr > GUACD_BATCH_SIZE
                     \<and> guacd_batch_buffer st \<noteq> []
                  then flush_batch env st else (True, st)) of
              (ok, st1) \<Rightarrow>
                if \<not> ok then (True, st1)
                else (False, st1\<lparr>guacd_batch_buffer := guacd_batch_buffer st1 @ instr\<rparr>)))"

definition dispatch_instruction ::
  "out_env \<Rightarrow> bytes \<Rightarrow> nat \<Rightarrow> opcode_action \<Rightarrow> outbound \<Rightarrow> (bool \<times> outbound) option" where
  "dispatch_instruction env current_slice n action st =
     (case action of
        ActCloseConnection \<Rightarrow> Some (True, close_instruction env current_slice n st)
      | ActServerSync \<Rightarrow> Some (sync_instruction_out env (take n current_slice) st)
      | ActProcessSpecial sp \<Rightarrow>
          (case sp of
             SpSize \<Rightarrow> Some (batch_instruction env (take n current_slice) (size_signal current_slice st))
           | SpError \<Rightarrow> None
           | SpDisconnect \<Rightarrow> None)
      | ActNormal \<Rightarrow> Some (batch_instruction env (take n current_slice) st))"

text \<open>The close frame for a parse error; the stored reason is left alone.\<close>

definition parse_error_close :: "out_env \<Rightarrow> peek_error \<Rightarrow> outbound \<Rightarrow> outbound" where
  "parse_error_close env e st =
     snd (send_control env CloseConnection
       (close_message (oe_conn_no env) ProtocolError
          (Some (ascii ''Guacd protocol parsing error: '' @ oe_debug env e))) st)"

section \<open>One read\<close>

lemma validate_bounds:
  assumes "validate_and_detect_special buf = Ok (n, a)"
  shows "0 < n \<and> n \<le> length buf"
  using assms
  by (auto simp: validate_and_detect_special_def validate_general_def not_le split: if_splits)

text \<open>
  The instruction loop over the read buffer from \<open>consumed_offset\<close>: \<open>close_conn_and_break\<close>, the
  final offset and the state.
\<close>

function guacd_loop :: "out_env \<Rightarrow> bytes \<Rightarrow> nat \<Rightarrow> outbound \<Rightarrow> (bool \<times> nat \<times> outbound) option" where
  "guacd_loop env buf off st =
     (if off \<ge> length buf then Some (False, off, st)
      else case validate_and_detect_special (drop off buf) of
             Err Incomplete \<Rightarrow> Some (False, off, st)
           | Err e \<Rightarrow> Some (True, off, parse_error_close env e st)
           | Ok (n, action) \<Rightarrow>
               (case dispatch_instruction env (drop off buf) n action st of
                  None \<Rightarrow> None
                | Some (close, st') \<Rightarrow>
                    if close then Some (True, off, st') else guacd_loop env buf (off + n) st'))"
  by pat_completeness auto
termination
  by (relation "measure (\<lambda>(env, buf, off, st). length buf - off)") (auto dest!: validate_bounds)

declare guacd_loop.simps [simp del]

definition on_guacd_read :: "out_env \<Rightarrow> bytes \<Rightarrow> outbound \<Rightarrow> outbound option" where
  "on_guacd_read env dat st =
     (let st0 = st\<lparr>main_read_buffer := main_read_buffer st @ dat, eof_sent := False\<rparr>
      in if drain_mode st0 then Some (st0\<lparr>main_read_buffer := []\<rparr>)
         else case guacd_loop env (main_read_buffer st0) 0 st0 of
                None \<Rightarrow> None
              | Some (close, consumed, st1) \<Rightarrow>
                  (case (if guacd_batch_buffer st1 \<noteq> [] \<and> \<not> close
                         then (case flush_batch env st1 of (ok, s) \<Rightarrow> (\<not> ok, s))
                         else (close, st1)) of
                     (close2, st2) \<Rightarrow>
                       Some (if close2
                             then st2\<lparr>main_read_buffer := [], guacd_batch_buffer := [], drain_mode := True\<rparr>
                             else if consumed > 0
                             then st2\<lparr>main_read_buffer := drop consumed (main_read_buffer st2)\<rparr>
                             else st2)))"

text \<open>The other protocols: the bytes of the read as one frame; a failing send ends the task.\<close>

definition on_plain_read :: "out_env \<Rightarrow> bytes \<Rightarrow> outbound \<Rightarrow> outbound" where
  "on_plain_read env dat st =
     (let st0 = st\<lparr>eof_sent := False\<rparr>
      in if drain_mode st0 then st0\<lparr>main_read_buffer := []\<rparr>
         else case send_data env dat st0 of
                (ok, st1) \<Rightarrow> if ok then st1 else st1\<lparr>task_exited := True\<rparr>)"

definition on_eof :: "out_env \<Rightarrow> outbound \<Rightarrow> outbound" where
  "on_eof env st =
     (if \<not> eof_sent st
      then if clean_disconnect_received st
           then (snd (send_control env SendEOF (be32 (oe_conn_no env)) st))\<lparr>eof_sent := True\<rparr>
           else if \<not> python_already_closed env st
           then (store_close_reason env ConnectionLost
                  (snd (send_control env CloseConnection
                    (close_message (oe_conn_no env) ConnectionLost
                       (Some (ascii ''Backend connection closed unexpectedly''))) st)))
                \<lparr>task_exited := True\<rparr>
           else st\<lparr>task_exited := True\<rparr>
      else st\<lparr>task_exited := True\<rparr>)"

text \<open>
  What a round of the task's loop can meet. A read delivers at least one byte; \<open>Cancelled\<close> is the
  cancellation token or a data channel found closed while the queue is over its threshold.
\<close>

datatype out_event = ReadData bytes | ReadEof | ReadFailed | ReadTimedOut | Cancelled

definition outbound_step :: "out_env \<Rightarrow> outbound \<Rightarrow> out_event \<Rightarrow> outbound option" where
  "outbound_step env st ev =
     (if task_exited st then Some st
      else case ev of
             ReadData dat \<Rightarrow> (if oe_protocol env = Guacd then on_guacd_read env dat st
                              else Some (on_plain_read env dat st))
           | ReadEof \<Rightarrow> Some (on_eof env st)
           | ReadFailed \<Rightarrow> Some (st\<lparr>task_exited := True\<rparr>)
           | ReadTimedOut \<Rightarrow> Some st
           | Cancelled \<Rightarrow> Some (st\<lparr>task_exited := True\<rparr>))"

section \<open>Data flow\<close>

text \<open>The data bytes that left so far, with those waiting in the batch behind them.\<close>

definition forwarded :: "outbound \<Rightarrow> bytes" where
  "forwarded st = concat (map payload (frames_sent st))"

definition flow :: "outbound \<Rightarrow> bytes" where
  "flow st = forwarded st @ guacd_batch_buffer st"

text \<open>What sends and the bookkeeping around them leave alone.\<close>

definition same_mode :: "outbound \<Rightarrow> outbound \<Rightarrow> bool" where
  "same_mode s t \<longleftrightarrow> main_read_buffer t = main_read_buffer s \<and> drain_mode t = drain_mode s
     \<and> task_exited t = task_exited s"

lemma same_mode_refl [simp]: "same_mode s s"
  by (simp add: same_mode_def)

lemma same_mode_trans: "same_mode s t \<Longrightarrow> same_mode t u \<Longrightarrow> same_mode s u"
  by (simp add: same_mode_def)

lemma send_data_cases:
  obtains (sent) "send_data env dat st =
      (True, st\<lparr>send_attempts := send_attempts st + 1, frames_sent := frames_sent st @
         [\<lparr>connection_no = oe_conn_no env, timestamp_ms = oe_clock env (send_attempts st), payload = dat\<rparr>]\<rparr>)"
  | (failed) "send_data env dat st = (False, st\<lparr>send_attempts := send_attempts st + 1\<rparr>)"
  by (cases "oe_send_ok env (send_attempts st)") (auto simp: send_data_def send_frame_def Let_def)

lemma send_data_flow:
  assumes "send_data env dat st = (ok, st')"
  shows "same_mode st st'" "guacd_batch_buffer st' = guacd_batch_buffer st"
    "ok \<Longrightarrow> forwarded st' = forwarded st @ dat"
  using assms
  by (cases rule: send_data_cases [of env dat st]; auto simp: same_mode_def forwarded_def)+

lemma flush_batch_flow:
  assumes "flush_batch env st = (ok, st')"
  shows "same_mode st st'" "guacd_batch_buffer st' = []" "ok \<Longrightarrow> flow st' = flow st"
proof -
  obtain o2 s2 where s: "send_data env (guacd_batch_buffer st) st = (o2, s2)" by force
  then have "ok = o2" "st' = s2\<lparr>guacd_batch_buffer := []\<rparr>"
    using assms by (simp_all add: flush_batch_def)
  with send_data_flow [OF s] show "same_mode st st'" "guacd_batch_buffer st' = []" "ok \<Longrightarrow> flow st' = flow st"
    by (simp_all add: same_mode_def flow_def forwarded_def)
qed

lemma sync_flow:
  assumes "sync_instruction_out env instr st = (close, st')"
  shows "same_mode st st' \<and> (\<not> close \<longrightarrow> flow st' = flow st @ instr)"
proof -
  obtain ok st1 where 1: "(if guacd_batch_buffer st \<noteq> []
            then (case send_data env (guacd_batch_buffer st) st of
                    (ok, st') \<Rightarrow> (ok, if ok then st'\<lparr>guacd_batch_buffer := []\<rparr> else st'))
            else (True, st)) = (ok, st1)" by force
  have one: "same_mode st st1 \<and> (ok \<longrightarrow> flow st1 = flow st \<and> guacd_batch_buffer st1 = [])"
  proof (cases "guacd_batch_buffer st = []")
    case True
    with 1 show ?thesis by simp
  next
    case False
    obtain o2 s2 where s: "send_data env (guacd_batch_buffer st) st = (o2, s2)" by force
    with 1 False have "ok = o2" "st1 = (if o2 then s2\<lparr>guacd_batch_buffer := []\<rparr> else s2)" by auto
    with send_data_flow [OF s] show ?thesis by (auto simp: same_mode_def flow_def forwarded_def)
  qed
  show ?thesis
  proof (cases ok)
    case False
    with assms 1 one show ?thesis by (simp add: sync_instruction_out_def)
  next
    case True
    obtain o2 s2 where s: "send_data env instr st1 = (o2, s2)" by force
    with assms 1 True have "close = (\<not> o2)" "st' = s2" by (simp_all add: sync_instruction_out_def)
    with send_data_flow [OF s] one True show ?thesis
      by (auto simp: flow_def intro: same_mode_trans)
  qed
qed

lemma batch_flow:
  assumes "batch_instruction env instr st = (close, st')"
  shows "same_mode st st' \<and> (\<not> close \<longrightarrow> flow st' = flow st @ instr)"
proof (cases "length instr \<ge> LARGE_INSTRUCTION_THRESHOLD")
  case True
  obtain ok st1 where 1: "(if guacd_batch_buffer st \<noteq> [] then flush_batch env st else (True, st)) = (ok, st1)"
    by force
  then have one: "same_mode st st1 \<and> (ok \<longrightarrow> flow st1 = flow st) \<and> guacd_batch_buffer st1 = []"
    using flush_batch_flow [of env st ok st1] by (auto split: if_splits)
  show ?thesis
  proof (cases ok)
    case False
    with assms 1 one True show ?thesis by (simp add: batch_instruction_def)
  next
    case ok: True
    obtain o2 s2 where s: "send_data env instr st1 = (o2, s2)" by force
    with assms 1 ok True have "close = (\<not> o2)" "st' = s2" by (simp_all add: batch_instruction_def)
    with send_data_flow [OF s] one ok show ?thesis
      by (auto simp: flow_def intro: same_mode_trans)
  qed
next
  case False
  obtain ok st1 where 1: "(if length (guacd_batch_buffer st) + length instr > GUACD_BATCH_SIZE
                     \<and> guacd_batch_buffer st \<noteq> []
                  then flush_batch env st else (True, st)) = (ok, st1)"
    by force
  then have one: "same_mode st st1 \<and> (ok \<longrightarrow> flow st1 = flow st)"
    using flush_batch_flow [of env st ok st1] by (auto split: if_splits)
  with assms 1 False show ?thesis
    by (auto simp: batch_instruction_def flow_def forwarded_def same_mode_def split: if_splits)
qed

lemma size_signal_same [simp]:
  "same_mode st (size_signal buf st)" "flow (size_signal buf st) = flow st"
  "guacd_batch_buffer (size_signal buf st) = guacd_batch_buffer st"
  "frames_sent (size_signal buf st) = frames_sent st"
  by (auto simp: size_signal_def same_mode_def flow_def forwarded_def split: result.splits)

lemma send_data_same: "same_mode st (snd (send_data env dat st))"
  using send_data_flow(1) [of env dat st] by (metis prod.collapse)

lemma send_control_same: "same_mode st (snd (send_control env msg dat st))"
  by (simp add: send_control_def send_frame_def same_mode_def Let_def)

lemma store_close_reason_same: "same_mode st (store_close_reason env r st)"
  by (simp add: store_close_reason_def same_mode_def)

lemma close_instruction_same: "same_mode st (close_instruction env buf n st)"
proof -
  have d: "same_mode st (st\<lparr>clean_disconnect_received := True\<rparr>)" by (simp add: same_mode_def)
  show ?thesis
    by (auto simp: close_instruction_def Let_def split: prod.splits
        intro!: same_mode_trans [OF _ store_close_reason_same] same_mode_trans [OF _ send_control_same]
          same_mode_trans [OF _ send_data_same] d)
qed

lemma dispatch_flow:
  assumes "dispatch_instruction env buf n action st = Some (close, st')"
  shows "same_mode st st' \<and> (\<not> close \<longrightarrow> flow st' = flow st @ take n buf)"
proof (cases action)
  case ActNormal
  with assms batch_flow [of env "take n buf" st] show ?thesis
    by (simp add: dispatch_instruction_def)
next
  case (ActProcessSpecial sp)
  with assms have "batch_instruction env (take n buf) (size_signal buf st) = (close, st')"
    by (simp add: dispatch_instruction_def split: special_opcode.splits)
  from batch_flow [OF this] show ?thesis
    by (auto intro: same_mode_trans [OF size_signal_same(1)])
next
  case ActCloseConnection
  with assms close_instruction_same [of st env buf n] show ?thesis
    by (auto simp: dispatch_instruction_def)
qed (use assms sync_flow [of env "take n buf" st] in \<open>auto simp: dispatch_instruction_def\<close>)

text \<open>The loop never meets the unreachable special opcodes.\<close>

lemma validated_action:
  assumes "validate_and_detect_special buf = Ok (n, a)"
  shows "a \<in> {ActNormal, ActCloseConnection, ActServerSync, ActProcessSpecial SpSize}"
  using assms
  by (auto simp: validate_and_detect_special_def validate_general_def detect_action_def Let_def
      split: if_splits)

lemma guacd_loop_flow:
  "off \<le> length buf \<Longrightarrow>
     \<exists>close off' st'. guacd_loop env buf off st = Some (close, off', st') \<and> same_mode st st' \<and>
       (\<not> close \<longrightarrow> off \<le> off' \<and> off' \<le> length buf \<and>
         flow st' = flow st @ take (off' - off) (drop off buf))"
proof (induction env buf off st rule: guacd_loop.induct)
  case (1 env buf off st)
  show ?case
  proof (cases "off \<ge> length buf")
    case True
    with 1 show ?thesis by (subst guacd_loop.simps) auto
  next
    case lt: False
    show ?thesis
    proof (cases "validate_and_detect_special (drop off buf)")
      case (Err e)
      have "same_mode st (parse_error_close env e st)"
        unfolding parse_error_close_def by (rule send_control_same)
      with Err lt show ?thesis
        by (subst guacd_loop.simps) (cases e; auto)
    next
      case (Ok r)
      obtain n action where r: "r = (n, action)" by (cases r)
      note ok = Ok [unfolded r]
      note n = validate_bounds [OF ok]
      from validated_action [OF ok]
      have "\<exists>r. dispatch_instruction env (drop off buf) n action st = Some r"
        by (auto simp: dispatch_instruction_def)
      then obtain close st1 where d: "dispatch_instruction env (drop off buf) n action st = Some (close, st1)"
        by auto
      show ?thesis
      proof (cases close)
        case True
        with lt ok d dispatch_flow [OF d] show ?thesis by (subst guacd_loop.simps) auto
      next
        case False
        have le: "off + n \<le> length buf" using n lt by auto
        from "1.IH" [OF lt ok refl d refl False le] obtain close' off' st' where
          rec: "guacd_loop env buf (off + n) st1 = Some (close', off', st')" "same_mode st1 st'"
            "\<not> close' \<longrightarrow> off + n \<le> off' \<and> off' \<le> length buf \<and>
               flow st' = flow st1 @ take (off' - (off + n)) (drop (off + n) buf)"
          by auto
        have step: "guacd_loop env buf off st = Some (close', off', st')"
          using lt ok d False rec(1) by (subst guacd_loop.simps) simp
        have "take (off' - off) (drop off buf) =
            take n (drop off buf) @ take (off' - (off + n)) (drop (off + n) buf)" if "off + n \<le> off'"
          using that take_add [of n "off' - (off + n)" "drop off buf"] by (simp add: add.commute)
        with dispatch_flow [OF d] False rec(2,3) step show ?thesis
          by (auto intro: same_mode_trans)
      qed
    qed
  qed
qed

lemma on_guacd_read_flow:
  assumes "\<not> drain_mode st" "guacd_batch_buffer st = []"
  shows "\<exists>st'. on_guacd_read env dat st = Some st' \<and> guacd_batch_buffer st' = []
    \<and> task_exited st' = task_exited st
    \<and> (\<not> drain_mode st' \<longrightarrow>
         forwarded st' @ main_read_buffer st' = forwarded st @ main_read_buffer st @ dat)"
proof -
  let ?buf = "main_read_buffer st @ dat"
  let ?st0 = "st\<lparr>main_read_buffer := ?buf, eof_sent := False\<rparr>"
  obtain close off' st1 where l: "guacd_loop env ?buf 0 ?st0 = Some (close, off', st1)"
    and m1: "same_mode ?st0 st1"
    and f: "\<not> close \<longrightarrow> off' \<le> length ?buf \<and> flow st1 = flow ?st0 @ take off' ?buf"
    using guacd_loop_flow [of 0 ?buf env ?st0] by auto
  obtain close2 st2 where 2: "(if guacd_batch_buffer st1 \<noteq> [] \<and> \<not> close
      then (case flush_batch env st1 of (ok, s) \<Rightarrow> (\<not> ok, s)) else (close, st1)) = (close2, st2)" by force
  have two: "same_mode ?st0 st2 \<and> (\<not> close2 \<longrightarrow> \<not> close \<and> forwarded st2 = flow st1 \<and> guacd_batch_buffer st2 = [])"
  proof (cases "guacd_batch_buffer st1 \<noteq> [] \<and> \<not> close")
    case True
    obtain ok s where fb: "flush_batch env st1 = (ok, s)" by force
    with 2 True have "close2 = (\<not> ok)" "st2 = s" by simp_all
    with flush_batch_flow [OF fb] m1 True show ?thesis
      by (auto simp: flow_def intro: same_mode_trans)
  next
    case False
    with 2 have "close2 = close" "st2 = st1" by (simp_all split: if_splits)
    with m1 False show ?thesis by (auto simp: flow_def)
  qed
  have fl: "flow ?st0 = forwarded st" using assms(2) by (simp add: flow_def forwarded_def)
  have res: "on_guacd_read env dat st = Some (if close2
      then st2\<lparr>main_read_buffer := [], guacd_batch_buffer := [], drain_mode := True\<rparr>
      else if off' > 0 then st2\<lparr>main_read_buffer := drop off' (main_read_buffer st2)\<rparr> else st2)"
    using assms(1) l 2 by (simp add: on_guacd_read_def)
  show ?thesis
  proof (cases close2)
    case True
    with res two show ?thesis by (simp add: same_mode_def)
  next
    case False
    with two f fl have fw: "forwarded st2 = forwarded st @ take off' ?buf" by simp
    have all: "forwarded st2 @ drop off' ?buf = forwarded st @ ?buf"
      unfolding fw by (simp only: append_assoc append_take_drop_id)
    have "main_read_buffer st2 = ?buf" using two by (simp add: same_mode_def)
    moreover have "forwarded (st2\<lparr>main_read_buffer := x\<rparr>) = forwarded st2" for x
      by (simp add: forwarded_def)
    ultimately show ?thesis
      using res False two all
      by (cases "off' > 0") (simp_all add: same_mode_def del: take_append drop_append)
  qed
qed

text \<open>Only a close instruction touches the clean-disconnect flag.\<close>

lemma send_data_clean [simp]:
  "clean_disconnect_received (snd (send_data env dat st)) = clean_disconnect_received st"
  by (simp add: send_data_def send_frame_def Let_def)

lemma flush_batch_clean [simp]:
  "clean_disconnect_received (snd (flush_batch env st)) = clean_disconnect_received st"
  using send_data_clean [of env "guacd_batch_buffer st" st] by (simp add: flush_batch_def case_prod_beta)

lemma sync_clean [simp]:
  "clean_disconnect_received (snd (sync_instruction_out env instr st)) = clean_disconnect_received st"
  by (simp add: sync_instruction_out_def case_prod_beta)

lemma batch_clean [simp]:
  "clean_disconnect_received (snd (batch_instruction env instr st)) = clean_disconnect_received st"
  by (simp add: batch_instruction_def case_prod_beta)

lemma size_signal_clean [simp]:
  "clean_disconnect_received (size_signal buf st) = clean_disconnect_received st"
  by (simp add: size_signal_def split: result.splits)

lemma dispatch_clean:
  assumes "dispatch_instruction env buf n action st = Some (False, st')"
  shows "clean_disconnect_received st' = clean_disconnect_received st"
  using assms
  by (auto simp: dispatch_instruction_def split: opcode_action.splits special_opcode.splits
      dest!: arg_cong [of _ "(False, st')" snd])

lemma guacd_loop_clean:
  "guacd_loop env buf off st = Some (False, off', st') \<Longrightarrow>
     clean_disconnect_received st' = clean_disconnect_received st"
proof (induction env buf off st rule: guacd_loop.induct)
  case (1 env buf off st)
  show ?case
  proof (cases "off \<ge> length buf")
    case True
    with 1 show ?thesis by (subst (asm) (2) guacd_loop.simps) simp
  next
    case lt: False
    show ?thesis
    proof (cases "validate_and_detect_special (drop off buf)")
      case (Err e)
      with 1(2) lt show ?thesis by (subst (asm) guacd_loop.simps) (cases e; simp)
    next
      case (Ok r)
      obtain n action where r: "r = (n, action)" by (cases r)
      with 1(2) lt Ok obtain st1 where d: "dispatch_instruction env (drop off buf) n action st = Some (False, st1)"
        and rec: "guacd_loop env buf (off + n) st1 = Some (False, off', st')"
        by (subst (asm) guacd_loop.simps) (auto split: option.splits if_splits)
      have nf: "\<not> False" by simp
      from "1.IH" [OF lt Ok r [symmetric] d refl nf rec] dispatch_clean [OF d] show ?thesis by simp
    qed
  qed
qed

text \<open>
  The invariant of the task: between reads the batch is empty, a clean disconnect implies drain
  mode, and in normal mode what was forwarded and what still waits in the read buffer are the
  input so far.
\<close>

definition task_inv :: "bytes \<Rightarrow> outbound \<Rightarrow> bool" where
  "task_inv input st \<longleftrightarrow> guacd_batch_buffer st = [] \<and>
     (clean_disconnect_received st \<longrightarrow> drain_mode st) \<and>
     (\<not> drain_mode st \<longrightarrow> \<not> task_exited st \<longrightarrow> forwarded st @ main_read_buffer st = input)"

fun input_of :: "out_event list \<Rightarrow> bytes" where
  "input_of [] = []"
| "input_of (ReadData dat # evs) = dat @ input_of evs"
| "input_of (_ # evs) = input_of evs"

lemma on_guacd_read_inv:
  assumes "task_inv input st" "\<not> task_exited st"
  shows "\<exists>st'. on_guacd_read env dat st = Some st' \<and> task_inv (input @ dat) st'"
proof (cases "drain_mode st")
  case True
  with assms show ?thesis by (simp add: on_guacd_read_def task_inv_def)
next
  case False
  with assms have b: "guacd_batch_buffer st = []" and i: "forwarded st @ main_read_buffer st = input"
    and c: "\<not> clean_disconnect_received st" by (simp_all add: task_inv_def)
  from on_guacd_read_flow [OF False b, of env dat] obtain st' where
    r: "on_guacd_read env dat st = Some st'" and b': "guacd_batch_buffer st' = []"
    and f: "\<not> drain_mode st' \<longrightarrow>
         forwarded st' @ main_read_buffer st' = forwarded st @ main_read_buffer st @ dat"
    by blast
  have "\<not> clean_disconnect_received st'" if nd: "\<not> drain_mode st'"
  proof -
    let ?buf = "main_read_buffer st @ dat"
    let ?st0 = "st\<lparr>main_read_buffer := ?buf, eof_sent := False\<rparr>"
    obtain close off' st1 where l: "guacd_loop env ?buf 0 ?st0 = Some (close, off', st1)"
      using guacd_loop_flow [of 0 ?buf env ?st0] by auto
    have "\<not> close" using r nd False l by (auto simp: on_guacd_read_def)
    with l have "\<not> clean_disconnect_received st1" using guacd_loop_clean [of env ?buf 0 ?st0] c by simp
    with r nd False l \<open>\<not> close\<close> flush_batch_clean [of env st1] show ?thesis
      by (auto simp: on_guacd_read_def case_prod_beta split: if_splits)
  qed
  with r b' f i show ?thesis by (auto simp: task_inv_def)
qed

lemma outbound_step_inv:
  assumes "oe_protocol env = Guacd" "task_inv input st"
  shows "\<exists>st'. outbound_step env st ev = Some st' \<and> task_inv (input @ input_of [ev]) st'"
proof (cases "task_exited st")
  case True
  with assms show ?thesis by (auto simp: outbound_step_def task_inv_def)
next
  case False
  show ?thesis
  proof (cases ev)
    case (ReadData dat)
    with False assms on_guacd_read_inv [OF assms(2) False] show ?thesis by (simp add: outbound_step_def)
  next
    case ReadEof
    with False assms(2) show ?thesis
      by (auto simp: outbound_step_def on_eof_def task_inv_def send_control_def send_frame_def
          store_close_reason_def Let_def)
  qed (use False assms(2) in \<open>auto simp: outbound_step_def task_inv_def\<close>)
qed

lemma outbound_run_inv:
  assumes "oe_protocol env = Guacd"
  shows "task_inv input st \<Longrightarrow>
     \<exists>st'. run_steps (outbound_step env) st evs = Some st' \<and> task_inv (input @ input_of evs) st'"
proof (induction evs arbitrary: input st)
  case (Cons ev evs)
  from outbound_step_inv [OF assms Cons.prems, of ev] obtain st1 where
    s: "outbound_step env st ev = Some st1" "task_inv (input @ input_of [ev]) st1" by blast
  have "input_of (ev # evs) = input_of [ev] @ input_of evs" by (cases ev) auto
  with Cons.IH [OF s(2)] s(1) show ?case by simp
qed simp

section \<open>Closing\<close>

text \<open>Only control frames are sent in drain mode, and drain mode is not left.\<close>

definition only_control_since :: "outbound \<Rightarrow> outbound \<Rightarrow> bool" where
  "only_control_since s t \<longleftrightarrow>
     (\<exists>fs. frames_sent t = frames_sent s @ fs \<and> (\<forall>f \<in> set fs. connection_no f = 0))"

lemma only_control_refl: "only_control_since s s"
  by (simp add: only_control_since_def)

lemma only_control_trans: "only_control_since s t \<Longrightarrow> only_control_since t u \<Longrightarrow> only_control_since s u"
  by (fastforce simp: only_control_since_def)

lemma drain_step:
  assumes "drain_mode st"
  shows "\<exists>st'. outbound_step env st ev = Some st' \<and> drain_mode st' \<and> only_control_since st st'"
  using assms
  by (cases ev)
    (auto simp: outbound_step_def on_guacd_read_def on_plain_read_def on_eof_def send_control_def
      send_frame_def store_close_reason_def new_control_with_buffer_def only_control_since_def Let_def)

interpretation draining: safe_machine "outbound_step env" drain_mode only_control_since
  by unfold_locales (auto intro: drain_step only_control_refl only_control_trans)

lemma eof_step: "\<exists>st'. outbound_step env st ReadEof = Some st' \<and> (task_exited st' \<or> eof_sent st')"
  by (auto simp: outbound_step_def on_eof_def)

lemma eof_after_eof:
  "eof_sent st \<Longrightarrow> \<exists>st'. outbound_step env st ReadEof = Some st' \<and> task_exited st'"
  by (auto simp: outbound_step_def on_eof_def)

lemma dispatch_valid:
  assumes "instruction_ok i"
  shows "validate_and_detect_special (encode_instruction i @ rest) =
           Ok (length (encode_instruction i), action_of (opcode i))"
  using validate_of_peek [OF peek_valid [OF assms, of rest]] by (simp add: peeked_of_def)

text \<open>Instructions that fit the batch are only collected until the close instruction comes.\<close>

lemma guacd_loop_batches:
  assumes "\<forall>i \<in> set is. instruction_ok i \<and> action_of (opcode i) = ActNormal"
    and "length (guacd_batch_buffer st @ concat (map encode_instruction is)) \<le> GUACD_BATCH_SIZE"
    and "drop off buf = concat (map encode_instruction is) @ rest"
  shows "guacd_loop env buf off st =
           guacd_loop env buf (off + length (concat (map encode_instruction is)))
             (st\<lparr>guacd_batch_buffer := guacd_batch_buffer st @ concat (map encode_instruction is)\<rparr>)"
  using assms
proof (induction "is" arbitrary: off st)
  case Nil
  then show ?case by simp
next
  case (Cons i "is")
  let ?e = "encode_instruction i"
  let ?st1 = "st\<lparr>guacd_batch_buffer := guacd_batch_buffer st @ ?e\<rparr>"
  have d: "drop off buf = ?e @ concat (map encode_instruction is) @ rest" using Cons.prems(3) by simp
  have ne: "?e \<noteq> []" by (simp add: encode_instruction_def)
  then have off: "\<not> off \<ge> length buf" using d by auto
  have v: "validate_and_detect_special (drop off buf) = Ok (length ?e, ActNormal)"
    using Cons.prems(1) unfolding d by (simp add: dispatch_valid)
  have "batch_instruction env ?e st = (False, ?st1)"
    using Cons.prems(2) by (simp add: batch_instruction_def GUACD_BATCH_SIZE_def LARGE_INSTRUCTION_THRESHOLD_def)
  then have disp: "dispatch_instruction env (drop off buf) (length ?e) ActNormal st = Some (False, ?st1)"
    by (simp add: dispatch_instruction_def d)
  have "guacd_loop env buf off st = guacd_loop env buf (off + length ?e) ?st1"
    by (subst guacd_loop.simps) (simp add: off v disp)
  also have "\<dots> = guacd_loop env buf (off + length ?e + length (concat (map encode_instruction is)))
      (?st1\<lparr>guacd_batch_buffer := guacd_batch_buffer ?st1 @ concat (map encode_instruction is)\<rparr>)"
    using Cons.prems drop_behind [OF d] by (intro Cons.IH) auto
  finally show ?case by (simp add: add.assoc)
qed

lemma close_instruction_frames:
  fixes rest
  assumes "instruction_ok j" "opcode j = ERROR_OPCODE \<or> opcode j = DISCONNECT_OPCODE"
    and "\<forall>k. oe_send_ok env k" "stored_reason st = None" "\<not> clean_disconnect_received st"
  defines "buf \<equiv> encode_instruction j @ rest"
  shows "map payload (frames_sent (close_instruction env buf (length (encode_instruction j)) st)) =
      map payload (frames_sent st) @ [encode_instruction j,
        be16 (control_code CloseConnection) @
        close_message (oe_conn_no env) (if opcode j = DISCONNECT_OPCODE then Normal else GuacdError)
          (Some (fst (guacd_error_message buf)))]"
    "stored_reason (close_instruction env buf (length (encode_instruction j)) st) =
       (if oe_lock_store env then Some GuacdError else None)"
proof -
  have "peek_instruction buf = Ok (peeked_of j)" unfolding buf_def by (rule peek_valid [OF assms(1)])
  then have "snd (guacd_error_message buf) \<longleftrightarrow> opcode j = DISCONNECT_OPCODE"
    using assms(2) by (auto simp: guacd_error_message_def peeked_of_def)
  moreover have "take (length (encode_instruction j)) buf = encode_instruction j"
    by (simp add: buf_def)
  ultimately show "map payload (frames_sent (close_instruction env buf (length (encode_instruction j)) st)) =
      map payload (frames_sent st) @ [encode_instruction j,
        be16 (control_code CloseConnection) @
        close_message (oe_conn_no env) (if opcode j = DISCONNECT_OPCODE then Normal else GuacdError)
          (Some (fst (guacd_error_message buf)))]"
    "stored_reason (close_instruction env buf (length (encode_instruction j)) st) =
       (if oe_lock_store env then Some GuacdError else None)"
    using assms(3-5)
    by (simp_all add: close_instruction_def case_prod_beta Let_def send_data_def send_control_def
        send_frame_def python_already_closed_def store_close_reason_def new_control_with_buffer_def)
qed

section \<open>Properties\<close>

text \<open>
  C6 (safety). The task for guacd never panics and, as long as it neither gave up nor ended, it
  loses, repeats and reorders nothing, whatever sends fail and however the backend's bytes are cut
  into reads: the payloads of the frames sent, in order, followed by the incomplete instruction in
  the read buffer, are exactly the bytes read, and no batch is left waiting between reads.
\<close>

theorem outbound_stream_preserved:
  assumes "oe_protocol env = Guacd"
  shows "\<exists>st. run_steps (outbound_step env) initial_outbound evs = Some st \<and>
           guacd_batch_buffer st = [] \<and>
           (\<not> drain_mode st \<and> \<not> task_exited st \<longrightarrow>
              concat (map payload (frames_sent st)) @ main_read_buffer st = input_of evs)"
proof -
  have "task_inv [] initial_outbound"
    by (simp add: task_inv_def initial_outbound_def forwarded_def)
  from outbound_run_inv [OF assms this, of evs] show ?thesis
    by (auto simp: task_inv_def forwarded_def)
qed

theorem outbound_stream_preserved_witness:
  "\<exists>st. run_steps (outbound_step \<lparr>oe_protocol = Guacd, oe_conn_no = 7, oe_clock = (\<lambda>_. 0),
            oe_send_ok = (\<lambda>_. True), oe_lock_check = True, oe_lock_store = True, oe_debug = (\<lambda>_. [])\<rparr>)
          initial_outbound [ReadData (sync_instruction @ [0x34, 0x2E]), ReadTimedOut, ReadData [0x73]] = Some st
      \<and> guacd_batch_buffer st = []"
  using outbound_stream_preserved
    [of "\<lparr>oe_protocol = Guacd, oe_conn_no = 7, oe_clock = (\<lambda>_. 0),
            oe_send_ok = (\<lambda>_. True), oe_lock_check = True, oe_lock_store = True, oe_debug = (\<lambda>_. [])\<rparr>"
      "[ReadData (sync_instruction @ [0x34, 0x2E]), ReadTimedOut, ReadData [0x73]]"]
  by (simp del: run_steps.simps) blast

text \<open>
  A close instruction overtakes and discards the batch: when one read delivers ordinary
  instructions that fit the batch and then an error or disconnect instruction, only the close
  instruction and the close message are sent, never the instructions before it; and for a clean
  disconnect the message says \<open>Normal\<close> while the reason stored for the channel is \<open>GuacdError\<close>.
\<close>

lemma close_discards_batch:
  assumes "oe_protocol env = Guacd" "\<forall>k. oe_send_ok env k"
    and "\<not> drain_mode st" "\<not> task_exited st" "main_read_buffer st = []" "guacd_batch_buffer st = []"
    and "stored_reason st = None" "\<not> clean_disconnect_received st"
    and "\<forall>i \<in> set is. instruction_ok i \<and> action_of (opcode i) = ActNormal"
    and "length (concat (map encode_instruction is)) \<le> GUACD_BATCH_SIZE"
    and "instruction_ok j" "opcode j = ERROR_OPCODE \<or> opcode j = DISCONNECT_OPCODE"
  shows "\<exists>st'. outbound_step env st
             (ReadData (concat (map encode_instruction is) @ encode_instruction j @ rest)) = Some st' \<and>
           map payload (frames_sent st') = map payload (frames_sent st) @
             [encode_instruction j,
              be16 (control_code CloseConnection) @
              close_message (oe_conn_no env) (if opcode j = DISCONNECT_OPCODE then Normal else GuacdError)
                (Some (fst (guacd_error_message (encode_instruction j @ rest))))] \<and>
           stored_reason st' = (if oe_lock_store env then Some GuacdError else None) \<and>
           drain_mode st' \<and> guacd_batch_buffer st' = []"
proof -
  let ?pre = "concat (map encode_instruction is)"
  let ?dat = "?pre @ encode_instruction j @ rest"
  let ?st0 = "st\<lparr>main_read_buffer := ?dat, eof_sent := False\<rparr>"
  let ?st1 = "?st0\<lparr>guacd_batch_buffer := ?pre\<rparr>"
  let ?close = "close_instruction env (encode_instruction j @ rest) (length (encode_instruction j)) ?st1"
  have "guacd_loop env ?dat 0 ?st0 = guacd_loop env ?dat (length ?pre) ?st1"
    using guacd_loop_batches [OF assms(9), of ?st0 0 ?dat "encode_instruction j @ rest" env] assms(6,10)
    by simp
  also have "\<dots> = Some (True, length ?pre, ?close)"
  proof -
    have "action_of (opcode j) = ActCloseConnection" using assms(12) by (auto simp: action_of_def)
    then have "validate_and_detect_special (drop (length ?pre) ?dat)
        = Ok (length (encode_instruction j), ActCloseConnection)"
      using dispatch_valid [OF assms(11), of rest] by simp
    moreover have "encode_instruction j \<noteq> []" by (simp add: encode_instruction_def)
    ultimately show ?thesis by (subst guacd_loop.simps) (simp add: dispatch_instruction_def)
  qed
  finally have l: "guacd_loop env ?dat 0 ?st0 = Some (True, length ?pre, ?close)" .
  have "outbound_step env st (ReadData ?dat) =
      Some (?close\<lparr>main_read_buffer := [], guacd_batch_buffer := [], drain_mode := True\<rparr>)"
    using assms(1,3-6) l by (simp add: outbound_step_def on_guacd_read_def)
  then show ?thesis
    using close_instruction_frames [OF assms(11,12,2), of ?st1 rest] assms(7,8) by simp
qed

text \<open>
  A malformed instruction is reported twice with two reasons: the read that meets it sends
  a \<open>ProtocolError\<close> close and stores no reason, so the end of the backend's stream sends a second
  close, \<open>ConnectionLost\<close>, and that is the reason stored for the channel.
\<close>

lemma malformed_closed_twice:
  assumes "oe_protocol env = Guacd" "\<forall>k. oe_send_ok env k" "oe_lock_store env"
    and "validate_and_detect_special dat = Err e" "e \<noteq> Incomplete" "dat \<noteq> []"
  shows "\<exists>st. run_steps (outbound_step env) initial_outbound [ReadData dat, ReadEof] = Some st \<and>
           map payload (frames_sent st) =
             [be16 (control_code CloseConnection) @ close_message (oe_conn_no env) ProtocolError
                (Some (ascii ''Guacd protocol parsing error: '' @ oe_debug env e)),
              be16 (control_code CloseConnection) @ close_message (oe_conn_no env) ConnectionLost
                (Some (ascii ''Backend connection closed unexpectedly''))] \<and>
           stored_reason st = Some ConnectionLost \<and> task_exited st"
proof -
  let ?st0 = "initial_outbound\<lparr>main_read_buffer := dat, eof_sent := False\<rparr>"
  have "guacd_loop env dat 0 ?st0 = Some (True, 0, parse_error_close env e ?st0)"
    using assms(4-6) by (subst guacd_loop.simps) (cases e; simp)
  then have "outbound_step env initial_outbound (ReadData dat) =
      Some ((parse_error_close env e ?st0)\<lparr>main_read_buffer := [], guacd_batch_buffer := [], drain_mode := True\<rparr>)"
    using assms(1) by (simp add: outbound_step_def on_guacd_read_def initial_outbound_def)
  then show ?thesis
    using assms(2,3)
    by (simp add: outbound_step_def on_eof_def parse_error_close_def send_control_def send_frame_def
        store_close_reason_def python_already_closed_def initial_outbound_def new_control_with_buffer_def
        Let_def)
qed

text \<open>
  C39 (liveness). Closing is final and ends: from drain mode, whatever the backend still sends and
  however the rounds go, the task only ever sends control frames and stays in drain mode; and from
  any state two ends of the backend's stream, with any other rounds before them, end the task.
\<close>

theorem closing_is_final:
  "(drain_mode st \<longrightarrow>
      (\<exists>st'. run_steps (outbound_step env) st evs = Some st' \<and> drain_mode st' \<and>
         (\<exists>fs. frames_sent st' = frames_sent st @ fs \<and> (\<forall>f \<in> set fs. connection_no f = 0)))) \<and>
   (\<exists>st'. run_steps (outbound_step env) st [ReadEof, ReadEof] = Some st' \<and> task_exited st')"
proof (intro conjI impI)
  assume "drain_mode st"
  from draining.run_safe [OF this, of env evs] show "\<exists>st'. run_steps (outbound_step env) st evs = Some st' \<and>
      drain_mode st' \<and> (\<exists>fs. frames_sent st' = frames_sent st @ fs \<and> (\<forall>f \<in> set fs. connection_no f = 0))"
    by (simp add: only_control_since_def)
next
  obtain s where s: "outbound_step env st ReadEof = Some s" "task_exited s \<or> eof_sent s"
    using eof_step by blast
  then show "\<exists>st'. run_steps (outbound_step env) st [ReadEof, ReadEof] = Some st' \<and> task_exited st'"
    using eof_after_eof [of s env] by (auto simp: outbound_step_def [of env s])
qed

theorem closing_is_final_witness:
  "\<exists>st'. run_steps (outbound_step \<lparr>oe_protocol = Guacd, oe_conn_no = 7, oe_clock = (\<lambda>_. 0),
            oe_send_ok = (\<lambda>_. True), oe_lock_check = True, oe_lock_store = True, oe_debug = (\<lambda>_. [])\<rparr>)
          (initial_outbound\<lparr>drain_mode := True\<rparr>) [ReadData sync_instruction, ReadEof] = Some st' \<and> drain_mode st'"
  using closing_is_final [of "initial_outbound\<lparr>drain_mode := True\<rparr>"
      "\<lparr>oe_protocol = Guacd, oe_conn_no = 7, oe_clock = (\<lambda>_. 0),
            oe_send_ok = (\<lambda>_. True), oe_lock_check = True, oe_lock_store = True, oe_debug = (\<lambda>_. [])\<rparr>"
      "[ReadData sync_instruction, ReadEof]"]
  by (simp del: run_steps.simps) blast

end
