(* ===== verification/Circuit_Breaker.thy ===== *)
theory Circuit_Breaker
  imports Prelude
begin

text \<open>
  The circuit breaker of \<open>keeper-pam-webrtc-rs/src/webrtc_circuit_breaker.rs\<close>: the three states behind
  the mutex, the admission half and the recording half of \<open>execute\<close>, the typed failures, the reset
  and the counters. Between the halves runs the operation, so calls interleave: the steps of the whole
  are an inductive relation over the breaker and the number of operations in flight. An operation
  whose future is dropped leaves the flight without a record.

  Instants are numbers of milliseconds and \<open>elapsed\<close> saturates. The 32-bit counters of the states are
  kept at their width; the metrics are plain numbers. \<open>timeout_multiplier\<close> is left out: the code
  computes the adjusted timeout only for the log message.
\<close>

section \<open>State\<close>

record circuit_config =
  failure_threshold :: u32
  open_timeout :: nat
  success_threshold :: u32
  max_half_open_requests :: u32
  max_request_timeout :: nat
  error_specific_thresholds :: "string \<rightharpoonup> u32"

definition default_circuit_config :: circuit_config where
  "default_circuit_config =
     \<lparr>failure_threshold = 5, open_timeout = 30000, success_threshold = 3, max_half_open_requests = 3,
      max_request_timeout = 10000,
      error_specific_thresholds =
        [''IceConnectionFailed'' \<mapsto> 8, ''TurnServerConnectionFailed'' \<mapsto> 5,
         ''AuthenticationFailed'' \<mapsto> 2, ''DataChannelFailed'' \<mapsto> 4, ''SignalingFailed'' \<mapsto> 3]\<rparr>"

datatype circuit_state =
  Closed (failure_count: u32) (last_failure: "nat option")
    (error_type_failures: "string \<rightharpoonup> u32") (last_error_type: "string option")
| Open (opened_at: nat) (last_attempt: "nat option") (open_trigger: string)
| HalfOpen (test_started: nat) (test_count: u32) (success_count: u32) (half_trigger: string)

record breaker =
  circuit :: circuit_state
  total_requests :: nat
  successful_requests :: nat
  failed_requests :: nat
  circuit_opens :: nat
  circuit_closes :: nat
  timeouts :: nat
  error_type_counts :: "string \<rightharpoonup> nat"
  error_type_triggered_opens :: "string \<rightharpoonup> nat"

definition fresh_closed :: circuit_state where
  "fresh_closed = Closed 0 None Map.empty None"

definition new_breaker :: breaker where
  "new_breaker =
     \<lparr>circuit = fresh_closed, total_requests = 0, successful_requests = 0, failed_requests = 0,
      circuit_opens = 0, circuit_closes = 0, timeouts = 0, error_type_counts = Map.empty,
      error_type_triggered_opens = Map.empty\<rparr>"

datatype circuit_error = CircuitOpen | CircuitTimeout | OperationFailed | TooManyTestRequests

section \<open>Operations\<close>

text \<open>The \<open>entry(k).and_modify(+1).or_insert(1)\<close> of the metrics.\<close>

definition bump :: "string \<Rightarrow> (string \<rightharpoonup> nat) \<Rightarrow> (string \<rightharpoonup> nat)" where
  "bump k m = m(k \<mapsto> (case m k of Some c \<Rightarrow> c + 1 | None \<Rightarrow> 1))"

text \<open>The first half of \<open>execute\<close>: whether the operation may run.\<close>

definition admit :: "circuit_config \<Rightarrow> nat \<Rightarrow> breaker \<Rightarrow> (unit, circuit_error) result \<times> breaker" where
  "admit cfg now b0 =
     (let b = b0\<lparr>total_requests := total_requests b0 + 1\<rparr>
      in case circuit b of
           Closed fc lf ef le \<Rightarrow> (Ok (), b)
         | Open opened la trigger \<Rightarrow>
             if now - opened \<ge> open_timeout cfg
             then (Ok (), b\<lparr>circuit := HalfOpen now 0 0 trigger\<rparr>)
             else (Err CircuitOpen, b)
         | HalfOpen started tests succ trigger \<Rightarrow>
             if tests \<ge> max_half_open_requests cfg then (Err TooManyTestRequests, b)
             else (Ok (), b\<lparr>circuit := HalfOpen started (tests + 1) succ trigger\<rparr>))"

definition record_success :: "circuit_config \<Rightarrow> breaker \<Rightarrow> breaker" where
  "record_success cfg b0 =
     (let b = b0\<lparr>successful_requests := successful_requests b0 + 1\<rparr>
      in case circuit b of
           Closed fc lf ef le \<Rightarrow> b\<lparr>circuit := Closed 0 lf Map.empty None\<rparr>
         | HalfOpen started tests succ trigger \<Rightarrow>
             if succ + 1 \<ge> success_threshold cfg
             then b\<lparr>circuit := fresh_closed, circuit_closes := circuit_closes b + 1\<rparr>
             else b\<lparr>circuit := HalfOpen started tests (succ + 1) trigger\<rparr>
         | Open opened la trigger \<Rightarrow> b)"

definition threshold_for :: "circuit_config \<Rightarrow> string \<Rightarrow> u32" where
  "threshold_for cfg et =
     (case error_specific_thresholds cfg et of Some t \<Rightarrow> t | None \<Rightarrow> failure_threshold cfg)"

definition open_circuit :: "nat \<Rightarrow> string \<Rightarrow> breaker \<Rightarrow> breaker" where
  "open_circuit now trigger b =
     b\<lparr>circuit := Open now None trigger, circuit_opens := circuit_opens b + 1,
       error_type_triggered_opens := bump trigger (error_type_triggered_opens b)\<rparr>"

definition record_failure_with_type :: "circuit_config \<Rightarrow> nat \<Rightarrow> string \<Rightarrow> breaker \<Rightarrow> breaker" where
  "record_failure_with_type cfg now et b0 =
     (let b = b0\<lparr>failed_requests := failed_requests b0 + 1,
                 error_type_counts := bump et (error_type_counts b0)\<rparr>
      in case circuit b of
           Closed fc lf ef le \<Rightarrow>
             (let specific = (case ef et of Some c \<Rightarrow> c | None \<Rightarrow> 0) + 1;
                  b1 = b\<lparr>circuit := Closed (fc + 1) (Some now) (ef(et \<mapsto> specific)) (Some et)\<rparr>
              in if specific \<ge> threshold_for cfg et \<or> fc + 1 \<ge> failure_threshold cfg
                 then open_circuit now et b1 else b1)
         | HalfOpen started tests succ trigger \<Rightarrow> open_circuit now trigger b
         | Open opened la trigger \<Rightarrow> b)"

definition record_failure :: "circuit_config \<Rightarrow> nat \<Rightarrow> breaker \<Rightarrow> breaker" where
  "record_failure cfg now b = record_failure_with_type cfg now ''Unknown'' b"

definition record_timeout :: "circuit_config \<Rightarrow> nat \<Rightarrow> breaker \<Rightarrow> breaker" where
  "record_timeout cfg now b = record_failure cfg now (b\<lparr>timeouts := timeouts b + 1\<rparr>)"

definition force_reset :: "breaker \<Rightarrow> breaker" where
  "force_reset b = b\<lparr>circuit := fresh_closed\<rparr>"

definition breaker_is_healthy :: "breaker \<Rightarrow> bool" where
  "breaker_is_healthy b \<longleftrightarrow> (case circuit b of Closed _ _ _ _ \<Rightarrow> True | _ \<Rightarrow> False)"

text \<open>The second half of \<open>execute\<close>, by how the operation ended.\<close>

datatype outcome = Succeeded | Failed | TimedOut

fun conclude :: "circuit_config \<Rightarrow> nat \<Rightarrow> outcome \<Rightarrow> breaker \<Rightarrow> (unit, circuit_error) result \<times> breaker" where
  "conclude cfg now Succeeded b = (Ok (), record_success cfg b)"
| "conclude cfg now Failed b = (Err OperationFailed, record_failure cfg now b)"
| "conclude cfg now TimedOut b = (Err CircuitTimeout, record_timeout cfg now b)"

text \<open>\<open>execute\<close> with nothing else running: it starts at \<open>now\<close> and its operation ends at \<open>later\<close>.\<close>

definition execute :: "circuit_config \<Rightarrow> nat \<times> nat \<times> outcome \<Rightarrow> breaker \<Rightarrow>
    (unit, circuit_error) result \<times> breaker" where
  "execute cfg call b =
     (case call of (now, later, out) \<Rightarrow>
        (case admit cfg now b of
           (Ok _, b1) \<Rightarrow> conclude cfg later out b1
         | (Err e, b1) \<Rightarrow> (Err e, b1)))"

fun run_calls :: "circuit_config \<Rightarrow> (nat \<times> nat \<times> outcome) list \<Rightarrow> breaker \<Rightarrow> breaker" where
  "run_calls cfg [] b = b"
| "run_calls cfg (c # cs) b = run_calls cfg cs (snd (execute cfg c b))"

section \<open>Interleaved calls\<close>

inductive breaker_step :: "circuit_config \<Rightarrow> breaker \<times> nat \<Rightarrow> breaker \<times> nat \<Rightarrow> bool"
  for cfg :: circuit_config where
  begin_call: "admit cfg now b = (Ok (), b') \<Longrightarrow> breaker_step cfg (b, n) (b', Suc n)"
| reject_call: "admit cfg now b = (Err e, b') \<Longrightarrow> breaker_step cfg (b, n) (b', n)"
| end_call: "conclude cfg now out b = (r, b') \<Longrightarrow> breaker_step cfg (b, Suc n) (b', n)"
| drop_call: "breaker_step cfg (b, Suc n) (b, n)"
| typed_failure: "breaker_step cfg (b, n) (record_failure_with_type cfg now et b, n)"
| reset: "breaker_step cfg (b, n) (force_reset b, n)"

inductive_simps breaker_step_from: "breaker_step cfg (b, n) t"

abbreviation breaker_run :: "circuit_config \<Rightarrow> breaker \<times> nat \<Rightarrow> breaker \<times> nat \<Rightarrow> bool" where
  "breaker_run cfg \<equiv> (breaker_step cfg)\<^sup>*\<^sup>*"

section \<open>The invariant\<close>

definition config_ok :: "circuit_config \<Rightarrow> bool" where
  "config_ok cfg \<longleftrightarrow> 0 < failure_threshold cfg \<and> 0 < success_threshold cfg \<and>
     (\<forall>et t. error_specific_thresholds cfg et = Some t \<longrightarrow> 0 < t)"

text \<open>No counter has reached the limit that would have changed the state.\<close>

fun circuit_inv :: "circuit_config \<Rightarrow> circuit_state \<Rightarrow> bool" where
  "circuit_inv cfg (Closed fc lf ef le) \<longleftrightarrow> fc < failure_threshold cfg \<and>
     (\<forall>et c. ef et = Some c \<longrightarrow> c < threshold_for cfg et)"
| "circuit_inv cfg (Open opened la trigger) \<longleftrightarrow> True"
| "circuit_inv cfg (HalfOpen started tests succ trigger) \<longleftrightarrow>
     tests \<le> max_half_open_requests cfg \<and> succ < success_threshold cfg"

lemma fresh_closed_inv: "config_ok cfg \<Longrightarrow> circuit_inv cfg fresh_closed"
  by (simp add: fresh_closed_def config_ok_def)

lemma threshold_pos: "config_ok cfg \<Longrightarrow> 0 < threshold_for cfg et"
  by (auto simp: config_ok_def threshold_for_def split: option.split)

lemma admit_inv:
  assumes "config_ok cfg" "circuit_inv cfg (circuit b)" "admit cfg now b = (r, b')"
  shows "circuit_inv cfg (circuit b')"
  using assms
  by (cases "circuit b")
    (auto simp: admit_def Let_def config_ok_def not_le inc_le split: if_splits)

lemma record_success_inv:
  assumes "config_ok cfg" "circuit_inv cfg (circuit b)"
  shows "circuit_inv cfg (circuit (record_success cfg b))"
  using assms
  by (cases "circuit b")
    (auto simp: record_success_def Let_def fresh_closed_inv not_le, simp add: config_ok_def)

lemma record_failure_inv:
  assumes "config_ok cfg" "circuit_inv cfg (circuit b)"
  shows "circuit_inv cfg (circuit (record_failure_with_type cfg now et b))"
  using assms
  by (cases "circuit b")
    (auto simp: record_failure_with_type_def open_circuit_def Let_def not_le)

lemma conclude_inv:
  assumes "config_ok cfg" "circuit_inv cfg (circuit b)" "conclude cfg now out b = (r, b')"
  shows "circuit_inv cfg (circuit b')"
proof -
  have t: "circuit_inv cfg (circuit (b\<lparr>timeouts := k\<rparr>))" for k using assms(2) by simp
  show ?thesis
    using assms record_success_inv [OF assms(1,2)] record_failure_inv [OF assms(1,2)]
      record_failure_inv [OF assms(1) t]
    by (cases out) (auto simp: record_failure_def record_timeout_def)
qed

lemma breaker_step_inv:
  assumes "breaker_step cfg s t" "config_ok cfg" "circuit_inv cfg (circuit (fst s))"
  shows "circuit_inv cfg (circuit (fst t))"
  using assms
  by (cases rule: breaker_step.cases)
    (auto intro: admit_inv conclude_inv record_failure_inv simp: force_reset_def fresh_closed_inv)

lemma breaker_run_inv:
  assumes "breaker_run cfg s t" "config_ok cfg" "circuit_inv cfg (circuit (fst s))"
  shows "circuit_inv cfg (circuit (fst t))"
  using assms by (induction rule: rtranclp_induct) (auto intro: breaker_step_inv)

section \<open>Tripping\<close>

lemma unat_u32: "unat (x :: u32) < 4294967296"
  using unsigned_less [of x, where ?'a = nat] by simp

lemma unat_inc: "(x :: u32) < y \<Longrightarrow> unat (x + 1) = Suc (unat x)"
  using unat_u32 [of y] by (subst unat_add_lem [THEN iffD1]) (simp_all add: word_less_nat_alt)

lemma circuit_total [simp]:
  "circuit (b\<lparr>total_requests := k\<rparr>) = circuit b" "circuit (b\<lparr>timeouts := k\<rparr>) = circuit b"
  by simp_all

text \<open>A failing call on a closed circuit whose only failures so far were untyped ones of \<open>execute\<close>.\<close>

definition failed_calls :: "nat \<Rightarrow> circuit_state \<Rightarrow> bool" where
  "failed_calls k c \<longleftrightarrow> (\<exists>lf le. c = Closed (of_nat k) lf
     (if k = 0 then Map.empty else [''Unknown'' \<mapsto> of_nat k]) le)"

lemma failing_call:
  assumes "failed_calls k (circuit b)" "Suc k \<le> unat (failure_threshold cfg)"
    and "error_specific_thresholds cfg ''Unknown'' = None" "out \<noteq> Succeeded"
  shows "if Suc k = unat (failure_threshold cfg)
         then circuit (snd (execute cfg (now, later, out) b)) = Open later None ''Unknown''
         else failed_calls (Suc k) (circuit (snd (execute cfg (now, later, out) b)))"
proof -
  have lt: "Suc k < 2 ^ 32"
    using assms(2) unat_u32 [of "failure_threshold cfg"] by simp
  then have u: "unat (of_nat k + 1 :: u32) = Suc k"
    using unat_of_nat_small(3) [of "Suc k"] by (simp add: add.commute)
  have le: "failure_threshold cfg \<le> of_nat k + 1 \<longleftrightarrow> Suc k = unat (failure_threshold cfg)"
    using assms(2) u by (auto simp: word_le_nat_alt)
  have th: "threshold_for cfg ''Unknown'' = failure_threshold cfg"
    using assms(3) by (simp add: threshold_for_def)
  show ?thesis
    using assms(1,4) le th
    by (cases out; cases "k = 0")
      (auto simp: failed_calls_def execute_def admit_def record_failure_def record_timeout_def
        record_failure_with_type_def open_circuit_def Let_def add.commute)
qed

lemma failing_calls:
  assumes "error_specific_thresholds cfg ''Unknown'' = None"
    and "\<forall>(now, later, out) \<in> set cs. out \<noteq> Succeeded"
  shows "failed_calls k (circuit b) \<Longrightarrow> k + length cs < unat (failure_threshold cfg) \<Longrightarrow>
           failed_calls (k + length cs) (circuit (run_calls cfg cs b))"
  using assms(2)
proof (induction cs arbitrary: b k)
  case (Cons c cs)
  obtain now later out where c: "c = (now, later, out)" by (cases c)
  have "failed_calls (Suc k) (circuit (snd (execute cfg c b)))"
    using failing_call [OF Cons.prems(1), of cfg out now later] Cons.prems(2,3) assms(1) c by simp
  from Cons.IH [OF this] Cons.prems(2,3) show ?case by simp
qed simp

lemma run_calls_append: "run_calls cfg (cs @ ds) b = run_calls cfg ds (run_calls cfg cs b)"
  by (induction cs arbitrary: b) auto

section \<open>Half open\<close>

text \<open>The admissions of a row of calls none of which has ended yet.\<close>

fun admissions :: "circuit_config \<Rightarrow> nat list \<Rightarrow> breaker \<Rightarrow> bool list" where
  "admissions cfg [] b = []"
| "admissions cfg (t # ts) b =
     (case admit cfg t b of (r, b') \<Rightarrow> (r = Ok ()) # admissions cfg ts b')"

lemma half_open_admissions:
  assumes "circuit b = HalfOpen started tests succ trigger" "tests \<le> max_half_open_requests cfg"
  shows "length (filter (\<lambda>a. a) (admissions cfg ts b)) =
           min (length ts) (unat (max_half_open_requests cfg) - unat tests)"
  using assms
proof (induction ts arbitrary: b tests)
  case (Cons t ts)
  show ?case
  proof (cases "tests = max_half_open_requests cfg")
    case True
    with Cons show ?thesis by (simp add: admit_def)
  next
    case False
    with Cons.prems(2) have lt: "tests < max_half_open_requests cfg" by simp
    then have u: "unat (tests + 1) = Suc (unat tests)"
      by (rule unat_inc)
    let ?b = "b\<lparr>total_requests := total_requests b + 1,
                circuit := HalfOpen started (tests + 1) succ trigger\<rparr>"
    have a: "admit cfg t b = (Ok (), ?b)" using Cons.prems(1) lt by (simp add: admit_def Let_def)
    have "length (filter (\<lambda>a. a) (admissions cfg ts ?b)) =
        min (length ts) (unat (max_half_open_requests cfg) - unat (tests + 1))"
      using lt by (intro Cons.IH) (simp_all add: inc_le)
    moreover have "unat tests < unat (max_half_open_requests cfg)" using lt by (simp add: word_less_nat_alt)
    ultimately show ?thesis using a u by simp
  qed
qed simp

text \<open>A half-open circuit whose tests are used up rejects every call.\<close>

lemma used_up_rejects:
  assumes "circuit b = HalfOpen started tests succ trigger" "max_half_open_requests cfg \<le> tests"
  shows "fst (execute cfg c b) = Err TooManyTestRequests \<and> circuit (snd (execute cfg c b)) = circuit b"
  using assms by (cases c) (simp add: execute_def admit_def)

lemma used_up_forever:
  assumes "max_half_open_requests cfg \<le> tests"
  shows "circuit b = HalfOpen started tests succ trigger \<Longrightarrow> circuit (run_calls cfg cs b) = circuit b"
proof (induction cs arbitrary: b)
  case (Cons c cs)
  from used_up_rejects [OF Cons.prems assms, of c]
  have e: "circuit (snd (execute cfg c b)) = circuit b" by blast
  with Cons.prems Cons.IH [of "snd (execute cfg c b)"] show ?case by simp
qed simp

lemma begin_tests:
  assumes "circuit b = HalfOpen started tests succ trigger" "unat tests + k \<le> unat (max_half_open_requests cfg)"
  shows "\<exists>b'. breaker_run cfg (b, n) (b', n + k) \<and> circuit b' = HalfOpen started (tests + of_nat k) succ trigger"
  using assms(2)
proof (induction k)
  case 0
  then show ?case using assms(1) by auto
next
  case (Suc k)
  then obtain b' where r: "breaker_run cfg (b, n) (b', n + k)"
    and c: "circuit b' = HalfOpen started (tests + of_nat k) succ trigger" by auto
  have "unat (tests + of_nat k) = unat tests + k"
    using Suc.prems unat_u32 [of "max_half_open_requests cfg"]
    by (subst unat_add_lem [THEN iffD1]) (simp_all add: unat_of_nat_small)
  with Suc.prems have lt: "\<not> max_half_open_requests cfg \<le> tests + of_nat k"
    by (simp add: word_le_nat_alt)
  let ?b = "b'\<lparr>total_requests := total_requests b' + 1,
               circuit := HalfOpen started (tests + of_nat k + 1) succ trigger\<rparr>"
  have "admit cfg 0 b' = (Ok (), ?b)" using c lt by (simp add: admit_def Let_def)
  then have "breaker_step cfg (b', n + k) (?b, Suc (n + k))" by (rule breaker_step.begin_call)
  with r have "breaker_run cfg (b, n) (?b, n + Suc k)" by simp
  then show ?case by (intro exI [of _ ?b]) (simp add: add.assoc add.commute)
qed

lemma drop_all: "breaker_run cfg (b, n) (b, 0)"
proof (induction n)
  case (Suc n)
  have "breaker_step cfg (b, Suc n) (b, n)" by (rule breaker_step.drop_call)
  with Suc show ?case by (rule converse_rtranclp_into_rtranclp [rotated])
qed simp

section \<open>Recovery\<close>

lemma successful_test:
  assumes "circuit b = HalfOpen started tests succ trigger"
    and "tests < max_half_open_requests cfg"
  shows "circuit (snd (execute cfg (now, later, Succeeded) b)) =
      (if success_threshold cfg \<le> succ + 1 then fresh_closed else HalfOpen started (tests + 1) (succ + 1) trigger)
    \<and> circuit_closes (snd (execute cfg (now, later, Succeeded) b)) =
      circuit_closes b + (if success_threshold cfg \<le> succ + 1 then 1 else 0)"
  using assms by (simp add: execute_def admit_def record_success_def not_le [symmetric])

lemma successful_tests:
  assumes "circuit b = HalfOpen started tests succ trigger"
    and "\<forall>(now, later, out) \<in> set cs. out = Succeeded" "cs \<noteq> []"
    and "unat succ + length cs = unat (success_threshold cfg)"
    and "unat tests + length cs \<le> unat (max_half_open_requests cfg)"
  shows "circuit (run_calls cfg cs b) = fresh_closed \<and>
         circuit_closes (run_calls cfg cs b) = circuit_closes b + 1"
  using assms
proof (induction cs arbitrary: b tests succ)
  case (Cons c cs)
  obtain now later where c: "c = (now, later, Succeeded)" using Cons.prems(2) by (cases c) auto
  have lt: "tests < max_half_open_requests cfg"
    using Cons.prems(5) by (simp add: word_less_nat_alt)
  have "succ < success_threshold cfg" using Cons.prems(4) by (simp add: word_less_nat_alt)
  then have us: "unat (succ + 1) = Suc (unat succ)"
    by (rule unat_inc)
  have ut: "unat (tests + 1) = Suc (unat tests)"
    using lt by (rule unat_inc)
  have le: "success_threshold cfg \<le> succ + 1 \<longleftrightarrow> cs = []"
    using Cons.prems(4) us by (cases cs) (auto simp: word_le_nat_alt)
  note st = successful_test [OF Cons.prems(1) lt, of now later]
  show ?case
  proof (cases "cs = []")
    case True
    with st le c show ?thesis by simp
  next
    case False
    with Cons.IH [of "snd (execute cfg c b)" "tests + 1" "succ + 1"] st le c Cons.prems us ut
    show ?thesis by simp
  qed
qed simp

section \<open>Properties\<close>

text \<open>
  C30 (invariant). Whatever calls run concurrently, end in any order, time out, are dropped or fail
  from outside, no counter of the breaker ever reaches the limit at which it must have changed state:
  a closed circuit has fewer failures than the threshold, in total and of every type, and a half-open
  one at most the admitted number of tests and fewer successes than it needs. So the 32-bit counters
  never wrap.
\<close>

theorem counters_below_limits:
  assumes "config_ok cfg" and "breaker_run cfg (new_breaker, 0) (b, n)"
  shows "case circuit b of
           Closed fc lf ef le \<Rightarrow> fc < failure_threshold cfg \<and>
             (\<forall>et c. ef et = Some c \<longrightarrow> c < threshold_for cfg et)
         | Open opened la trigger \<Rightarrow> True
         | HalfOpen started tests succ trigger \<Rightarrow>
             tests \<le> max_half_open_requests cfg \<and> succ < success_threshold cfg"
proof -
  have "circuit_inv cfg (circuit new_breaker)"
    using fresh_closed_inv [OF assms(1)] by (simp add: new_breaker_def)
  with breaker_run_inv [OF assms(2,1)] have "circuit_inv cfg (circuit b)" by simp
  then show ?thesis by (cases "circuit b") simp_all
qed

theorem counters_below_limits_witness:
  "failure_count (circuit (record_failure_with_type default_circuit_config 9 ''SignalingFailed'' new_breaker)) < 5"
proof -
  have ok: "config_ok default_circuit_config"
    by (auto simp: config_ok_def default_circuit_config_def split: if_splits)
  have "breaker_run default_circuit_config (new_breaker, 0)
      (record_failure_with_type default_circuit_config 9 ''SignalingFailed'' new_breaker, 0)"
    by (rule r_into_rtranclp) (rule breaker_step.typed_failure)
  from counters_below_limits [OF ok this] show ?thesis
    by (simp add: record_failure_with_type_def new_breaker_def fresh_closed_def open_circuit_def
        threshold_for_def default_circuit_config_def Let_def word_le_nat_alt word_less_nat_alt)
qed

text \<open>
  Calls through \<open>execute\<close> that keep failing (with an error or by timing out) leave the
  circuit closed until the configured number is reached and open it at exactly that call, with the
  trigger \<open>Unknown\<close>: \<open>execute\<close> never reports an error type, so the thresholds per error type play no
  part. An open circuit runs nothing and stays as it is until its timeout has passed, which is the
  configured one whatever the trigger.
\<close>

lemma trips_at_threshold:
  assumes "error_specific_thresholds cfg ''Unknown'' = None"
    and "\<forall>(now, later, out) \<in> set (cs @ [(now', later', out')]). out \<noteq> Succeeded"
    and "length cs + 1 = unat (failure_threshold cfg)"
  shows "breaker_is_healthy (run_calls cfg cs new_breaker) \<and>
         circuit (run_calls cfg (cs @ [(now', later', out')]) new_breaker) = Open later' None ''Unknown'' \<and>
         (\<forall>(b :: breaker) since la tr now later out. circuit b = Open since la tr \<longrightarrow> now - since < open_timeout cfg \<longrightarrow>
            fst (execute cfg (now, later, out) b) = Err CircuitOpen \<and>
            circuit (snd (execute cfg (now, later, out) b)) = circuit b)"
proof (intro conjI allI impI)
  have "failed_calls 0 (circuit new_breaker)"
    by (simp add: failed_calls_def new_breaker_def fresh_closed_def)
  with failing_calls [OF assms(1), of cs 0 new_breaker] assms(2,3)
  have f: "failed_calls (length cs) (circuit (run_calls cfg cs new_breaker))" by simp
  then show "breaker_is_healthy (run_calls cfg cs new_breaker)"
    by (auto simp: failed_calls_def breaker_is_healthy_def)
  show "circuit (run_calls cfg (cs @ [(now', later', out')]) new_breaker) = Open later' None ''Unknown''"
    using failing_call [OF f, of cfg out' now' later'] assms by (simp add: run_calls_append)
next
  fix b :: breaker and since la tr now later out
  assume "circuit b = Open since la tr" "now - since < open_timeout cfg"
  then show "fst (execute cfg (now, later, out) b) = Err CircuitOpen"
    and "circuit (snd (execute cfg (now, later, out) b)) = circuit b"
    by (simp_all add: execute_def admit_def)
qed

text \<open>
  Recovery: once the timeout of an open circuit has passed, as many successful calls as
  the success threshold close it, provided the half-open state admits them (its limit, and the call
  that made it half open, which is not counted).
\<close>

lemma recovers_after_timeout:
  assumes "circuit b = Open since la tr" "open_timeout cfg \<le> now - since"
    and "length cs + 1 = unat (success_threshold cfg)" "length cs \<le> unat (max_half_open_requests cfg)"
    and "\<forall>(now, later, out) \<in> set cs. out = Succeeded"
  shows "circuit (run_calls cfg ((now, later, Succeeded) # cs) b) = fresh_closed \<and>
         circuit_closes (run_calls cfg ((now, later, Succeeded) # cs) b) = circuit_closes b + 1"
proof -
  let ?b = "snd (execute cfg (now, later, Succeeded) b)"
  have first: "circuit ?b = (if success_threshold cfg \<le> 1 then fresh_closed else HalfOpen now 0 1 tr) \<and>
      circuit_closes ?b = circuit_closes b + (if success_threshold cfg \<le> 1 then 1 else 0)"
    using assms(1,2) by (simp add: execute_def admit_def record_success_def)
  show ?thesis
  proof (cases "cs = []")
    case True
    with assms(3) have "success_threshold cfg = 1" by (simp add: word_unat_eq_iff)
    with first True show ?thesis by simp
  next
    case False
    with assms(3) have "\<not> success_threshold cfg \<le> 1" by (cases cs) (simp_all add: word_le_nat_alt)
    with first successful_tests [of ?b now 0 1 tr cs cfg] False assms(3-5) show ?thesis by simp
  qed
qed

text \<open>
  The half-open state admits one test more than \<open>max_half_open_requests\<close> (the call that
  leaves the open state is not counted), and it has no way out but the end of its tests: if those
  operations are dropped before they end, every later call is rejected, at whatever time it comes.
\<close>

lemma half_open_lockout:
  assumes "circuit b = Open since la tr" and "open_timeout cfg \<le> now - since"
  shows "length (filter (\<lambda>a. a) (admissions cfg (now # ts) b)) =
           min (length ts + 1) (unat (max_half_open_requests cfg) + 1) \<and>
         (\<exists>b'. breaker_run cfg (b, 0) (b', 0) \<and>
            (\<forall>cs. circuit (run_calls cfg cs b') = circuit b' \<and>
               (\<forall>c. fst (execute cfg c (run_calls cfg cs b')) = Err TooManyTestRequests)))"
proof
  let ?b = "b\<lparr>total_requests := total_requests b + 1, circuit := HalfOpen now 0 0 tr\<rparr>"
  have a: "admit cfg now b = (Ok (), ?b)" using assms(1,2) by (simp add: admit_def)
  have "length (filter (\<lambda>a. a) (admissions cfg ts ?b)) = min (length ts) (unat (max_half_open_requests cfg) - unat (0 :: u32))"
    by (rule half_open_admissions) simp_all
  with a show "length (filter (\<lambda>a. a) (admissions cfg (now # ts) b)) =
      min (length ts + 1) (unat (max_half_open_requests cfg) + 1)" by simp
  have "breaker_step cfg (b, 0) (?b, Suc 0)" by (rule breaker_step.begin_call [OF a])
  moreover obtain b' where "breaker_run cfg (?b, Suc 0) (b', Suc 0 + unat (max_half_open_requests cfg))"
    and c: "circuit b' = HalfOpen now (0 + of_nat (unat (max_half_open_requests cfg))) 0 tr"
    using begin_tests [of ?b now 0 0 tr "unat (max_half_open_requests cfg)" cfg "Suc 0"] by auto
  ultimately have "breaker_run cfg (b, 0) (b', 0)"
    by (meson converse_rtranclp_into_rtranclp drop_all rtranclp_trans)
  moreover have c': "circuit b' = HalfOpen now (max_half_open_requests cfg) 0 tr" using c by simp
  have "circuit (run_calls cfg cs b') = circuit b' \<and>
      (\<forall>c. fst (execute cfg c (run_calls cfg cs b')) = Err TooManyTestRequests)" for cs
    using used_up_forever [OF order_refl c', of cs] used_up_rejects [of "run_calls cfg cs b'"] c' by simp
  ultimately show "\<exists>b'. breaker_run cfg (b, 0) (b', 0) \<and>
      (\<forall>cs. circuit (run_calls cfg cs b') = circuit b' \<and>
         (\<forall>c. fst (execute cfg c (run_calls cfg cs b')) = Err TooManyTestRequests))" by blast
qed

end
