(* ===== verification/Connection_Tracker.thy ===== *)
theory Connection_Tracker
  imports Prelude
begin

text \<open>
  The connection tracker of \<open>keeperdb-proxy/src/server/connection_tracker.rs\<close>: connections grouped in
  tunnels, each target claimed by one session, the application-name lock and its timeout, the release
  paths and the clean-up of stale claims.

  A \<open>String\<close> is its characters, an \<open>Instant\<close> a number of milliseconds, a \<open>Uuid\<close> a number. Each operation
  that takes a lock once is one function; \<open>try_register_for_target_with_app\<close> releases its lock between
  the claim of the target and the registration in the tunnel, so its phases are functions of their
  own. The grace period reaches only log messages and is left out, as are the getters that count
  entries and the task around the clean-up.
\<close>

section \<open>Strings\<close>

fun find_sub :: "ustring \<Rightarrow> ustring \<Rightarrow> nat option" where
  "find_sub pat [] = (if pat = [] then Some 0 else None)"
| "find_sub pat (c # cs) =
     (if take (length pat) (c # cs) = pat then Some 0 else map_option Suc (find_sub pat cs))"

fun join_space :: "ustring list \<Rightarrow> ustring" where
  "join_space [] = []"
| "join_space [w] = w"
| "join_space (w # ws) = w @ 0x20 # join_space ws"

definition normalize_application_name :: "ustring \<Rightarrow> ustring" where
  "normalize_application_name app_name =
     (let name = trim app_name
      in case find_sub (ustr '' - DB:'') name of
           Some idx \<Rightarrow> trim (take idx name)
         | None \<Rightarrow>
        (case find_sub (ustr '' - CONN:'') name of
           Some idx \<Rightarrow> trim (take idx name)
         | None \<Rightarrow>
        (case find_sub (ustr '' - '') name of
           Some idx \<Rightarrow> trim (take idx name)
         | None \<Rightarrow>
             let words = split_whitespace name
             in if length words > 1 \<and> (case last words of [] \<Rightarrow> False | c # _ \<Rightarrow> 48 \<le> c \<and> c \<le> 57)
                then join_space (butlast words) else name)))"

section \<open>State\<close>

type_synonym uuid = nat

record tunnel_state =
  first_connection_time :: nat
  tunnel_sessions :: "uuid set"
  tunnel_app :: "ustring option"

record target_session =
  session_uid :: ustring
  target_app :: "ustring option"
  last_disconnect :: "nat option"

record tracker =
  tunnels :: "ustring \<rightharpoonup> tunnel_state"
  active_sessions :: "ustring \<rightharpoonup> target_session"

definition new_tracker :: tracker where
  "new_tracker = \<lparr>tunnels = Map.empty, active_sessions = Map.empty\<rparr>"

definition from_record_uid :: "ustring \<Rightarrow> ustring" where
  "from_record_uid uid = ustr ''record:'' @ uid"

text \<open>\<open>rsplit_once(':')\<close>, keeping the part before.\<close>

definition before_last_colon :: "ustring \<Rightarrow> ustring" where
  "before_last_colon s =
     (if 0x3A \<in> set s then rev (tl (dropWhile (\<lambda>c. c \<noteq> 0x3A) (rev s))) else s)"

definition from_connection :: "ustring \<Rightarrow> ustring \<Rightarrow> u16 \<Rightarrow> ustring" where
  "from_connection client_addr host port =
     ustr ''conn:'' @ before_last_colon client_addr @ ustr ''->'' @ host @ ustr '':'' @
       map unat (dec_bytes (unat port))"

definition target_id :: "ustring \<Rightarrow> u16 \<Rightarrow> ustring" where
  "target_id host port = host @ ustr '':'' @ map unat (dec_bytes (unat port))"

datatype tracker_error = TooManyConnections | LimitExceeded nat | AnotherSessionActive ustring

record connection_guard =
  g_tunnel :: ustring
  g_session :: uuid
  g_target :: "ustring option"
  g_uid :: "ustring option"

definition DEFAULT_APPLICATION_LOCK_TIMEOUT :: nat where "DEFAULT_APPLICATION_LOCK_TIMEOUT = 5000"
definition STALE_SESSION_THRESHOLD :: nat where "STALE_SESSION_THRESHOLD = 300000"

section \<open>Tunnel states\<close>

definition with_application_name :: "nat \<Rightarrow> uuid \<Rightarrow> ustring option \<Rightarrow> tunnel_state" where
  "with_application_name now sid app =
     \<lparr>first_connection_time = now, tunnel_sessions = {sid},
      tunnel_app = map_option normalize_application_name app\<rparr>"

definition add_session :: "uuid \<Rightarrow> tunnel_state \<Rightarrow> tunnel_state" where
  "add_session sid st = st\<lparr>tunnel_sessions := insert sid (tunnel_sessions st)\<rparr>"

definition remove_session :: "uuid \<Rightarrow> tunnel_state \<Rightarrow> bool \<times> tunnel_state" where
  "remove_session sid st =
     (let s = tunnel_sessions st - {sid} in (s = {}, st\<lparr>tunnel_sessions := s\<rparr>))"

definition connection_count :: "tunnel_state \<Rightarrow> nat" where
  "connection_count st = card (tunnel_sessions st)"

section \<open>Registration\<close>

text \<open>The application lock: a stored name must be provided and match.\<close>

fun app_rejected :: "ustring option \<Rightarrow> ustring option \<Rightarrow> bool" where
  "app_rejected (Some expected) (Some provided) \<longleftrightarrow> provided \<noteq> expected"
| "app_rejected (Some expected) None \<longleftrightarrow> True"
| "app_rejected None provided \<longleftrightarrow> False"

definition try_register_with_limits_and_app ::
  "nat \<Rightarrow> ustring \<Rightarrow> uuid \<Rightarrow> nat option \<Rightarrow> ustring option \<Rightarrow> tracker \<Rightarrow>
     (connection_guard, tracker_error) result \<times> tracker" where
  "try_register_with_limits_and_app now tid sid max_connections app tr =
     (let g = \<lparr>g_tunnel = tid, g_session = sid, g_target = None, g_uid = None\<rparr>
      in case tunnels tr tid of
           Some st \<Rightarrow>
             if app_rejected (tunnel_app st) (map_option normalize_application_name app)
             then (Err TooManyConnections, tr)
             else if (case max_connections of Some m \<Rightarrow> connection_count st \<ge> m | None \<Rightarrow> False)
             then (Err (LimitExceeded (the max_connections)), tr)
             else (Ok g, tr\<lparr>tunnels := (tunnels tr)(tid \<mapsto> add_session sid st)\<rparr>)
         | None \<Rightarrow> (Ok g, tr\<lparr>tunnels := (tunnels tr)(tid \<mapsto> with_application_name now sid app)\<rparr>))"

definition try_register_with_limits ::
  "nat \<Rightarrow> ustring \<Rightarrow> uuid \<Rightarrow> nat option \<Rightarrow> tracker \<Rightarrow>
     (connection_guard, tracker_error) result \<times> tracker" where
  "try_register_with_limits now tid sid max_connections tr =
     try_register_with_limits_and_app now tid sid max_connections None tr"

definition try_register ::
  "nat \<Rightarrow> ustring \<Rightarrow> uuid \<Rightarrow> tracker \<Rightarrow> (connection_guard, tracker_error) result \<times> tracker" where
  "try_register now tid sid tr = try_register_with_limits now tid sid (Some 1) tr"

text \<open>Whether the session that holds the claim is gone.\<close>

definition previous_session_gone :: "tracker \<Rightarrow> target_session \<Rightarrow> bool" where
  "previous_session_gone tr ts =
     (if last_disconnect ts \<noteq> None then True
      else case tunnels tr (from_record_uid (session_uid ts)) of
             Some st \<Rightarrow> tunnel_sessions st = {}
           | None \<Rightarrow> True)"

text \<open>The first phase: check or claim the target.\<close>

definition claim_target ::
  "nat \<Rightarrow> ustring \<Rightarrow> ustring \<Rightarrow> ustring option \<Rightarrow> nat option \<Rightarrow> tracker \<Rightarrow>
     (unit, tracker_error) result \<times> tracker" where
  "claim_target now target uid app lock_timeout tr =
     (let norm = map_option normalize_application_name app;
          store = (\<lambda>ts. tr\<lparr>active_sessions := (active_sessions tr)(target \<mapsto> ts)\<rparr>)
      in case active_sessions tr target of
           None \<Rightarrow> (Ok (), store \<lparr>session_uid = uid, target_app = norm, last_disconnect = None\<rparr>)
         | Some ts0 \<Rightarrow>
             if session_uid ts0 \<noteq> uid \<and> \<not> previous_session_gone tr ts0
             then (Err (AnotherSessionActive target), tr)
             else let ts = (if session_uid ts0 \<noteq> uid
                            then \<lparr>session_uid = uid, target_app = norm, last_disconnect = None\<rparr>
                            else ts0);
                      timeout = (case lock_timeout of Some t \<Rightarrow> t | None \<Rightarrow> DEFAULT_APPLICATION_LOCK_TIMEOUT);
                      expired = (case last_disconnect ts of Some t \<Rightarrow> now - t > timeout | None \<Rightarrow> False)
                  in if \<not> expired \<and> app_rejected (target_app ts) norm
                     then (Err TooManyConnections, store ts)
                     else if expired
                     then (Ok (), store (ts\<lparr>target_app := norm, last_disconnect := None\<rparr>))
                     else if norm \<noteq> None then (Ok (), store (ts\<lparr>last_disconnect := None\<rparr>))
                     else (Ok (), store ts))"

text \<open>The third phase, after a failed registration.\<close>

definition unclaim_target :: "ustring \<Rightarrow> ustring \<Rightarrow> ustring \<Rightarrow> tracker \<Rightarrow> tracker" where
  "unclaim_target target uid tid tr =
     (if tunnels tr tid \<noteq> None then tr
      else case active_sessions tr target of
             Some ts \<Rightarrow>
               if session_uid ts = uid
               then tr\<lparr>active_sessions := (active_sessions tr)(target := None)\<rparr> else tr
           | None \<Rightarrow> tr)"

definition try_register_for_target_with_app ::
  "nat \<Rightarrow> ustring \<Rightarrow> ustring \<Rightarrow> ustring \<Rightarrow> uuid \<Rightarrow> nat option \<Rightarrow> ustring option \<Rightarrow> nat option \<Rightarrow> tracker \<Rightarrow>
     (connection_guard, tracker_error) result \<times> tracker" where
  "try_register_for_target_with_app now target uid tid sid max_connections app lock_timeout tr =
     (case claim_target now target uid app lock_timeout tr of
        (Err e, tr1) \<Rightarrow> (Err e, tr1)
      | (Ok _, tr1) \<Rightarrow>
          (case try_register_with_limits_and_app now tid sid max_connections app tr1 of
             (Err e, tr2) \<Rightarrow> (Err e, unclaim_target target uid tid tr2)
           | (Ok g, tr2) \<Rightarrow> (Ok (g\<lparr>g_target := Some target, g_uid := Some uid\<rparr>), tr2)))"

section \<open>Release and clean-up\<close>

text \<open>The common first half: whether the tunnel was removed, and the tracker.\<close>

definition leave_tunnel :: "ustring \<Rightarrow> uuid \<Rightarrow> tracker \<Rightarrow> bool \<times> tracker" where
  "leave_tunnel tid sid tr =
     (case tunnels tr tid of
        None \<Rightarrow> (False, tr)
      | Some st \<Rightarrow>
          (case remove_session sid st of
             (now_empty, st') \<Rightarrow>
               if now_empty then (True, tr\<lparr>tunnels := (tunnels tr)(tid := None)\<rparr>)
               else (False, tr\<lparr>tunnels := (tunnels tr)(tid \<mapsto> st')\<rparr>)))"

definition release_session :: "ustring \<Rightarrow> uuid \<Rightarrow> tracker \<Rightarrow> tracker" where
  "release_session tid sid tr = snd (leave_tunnel tid sid tr)"

definition mark_disconnected :: "nat \<Rightarrow> ustring \<Rightarrow> ustring \<Rightarrow> tracker \<Rightarrow> tracker" where
  "mark_disconnected now target uid tr =
     (case active_sessions tr target of
        Some ts \<Rightarrow>
          if session_uid ts = uid
          then tr\<lparr>active_sessions := (active_sessions tr)(target \<mapsto> ts\<lparr>last_disconnect := Some now\<rparr>)\<rparr>
          else tr
      | None \<Rightarrow> tr)"

definition release_session_for_target ::
  "nat \<Rightarrow> ustring \<Rightarrow> uuid \<Rightarrow> ustring \<Rightarrow> ustring \<Rightarrow> tracker \<Rightarrow> tracker" where
  "release_session_for_target now tid sid target uid tr =
     (case leave_tunnel tid sid tr of
        (now_empty, tr1) \<Rightarrow> if now_empty then mark_disconnected now target uid tr1 else tr1)"

definition release_tunnel :: "ustring \<Rightarrow> tracker \<Rightarrow> tracker" where
  "release_tunnel tid tr = tr\<lparr>tunnels := (tunnels tr)(tid := None)\<rparr>"

definition force_release_tunnel :: "nat \<Rightarrow> ustring \<Rightarrow> tracker \<Rightarrow> tracker" where
  "force_release_tunnel now uid tr =
     \<lparr>tunnels = (tunnels tr)(from_record_uid uid := None),
      active_sessions = (\<lambda>t. map_option (\<lambda>ts. if session_uid ts = uid \<and> last_disconnect ts = None
                                               then ts\<lparr>last_disconnect := Some now\<rparr> else ts)
                              (active_sessions tr t))\<rparr>"

text \<open>\<open>release_async\<close> and \<open>release_spawn\<close> of the guard.\<close>

definition release_guard :: "nat \<Rightarrow> connection_guard \<Rightarrow> tracker \<Rightarrow> tracker" where
  "release_guard now g tr =
     (case (g_target g, g_uid g) of
        (Some target, Some uid) \<Rightarrow> release_session_for_target now (g_tunnel g) (g_session g) target uid tr
      | _ \<Rightarrow> release_session (g_tunnel g) (g_session g) tr)"

definition cleanup_stale_sessions :: "nat \<Rightarrow> nat option \<Rightarrow> tracker \<Rightarrow> tracker" where
  "cleanup_stale_sessions now threshold tr =
     (let th = (case threshold of Some t \<Rightarrow> t | None \<Rightarrow> STALE_SESSION_THRESHOLD)
      in tr\<lparr>active_sessions := (\<lambda>t. case active_sessions tr t of
              None \<Rightarrow> None
            | Some ts \<Rightarrow> (case last_disconnect ts of
                            None \<Rightarrow> Some ts
                          | Some d \<Rightarrow> if now - d \<le> th then Some ts else None))\<rparr>)"

definition is_connected :: "ustring \<Rightarrow> tracker \<Rightarrow> bool" where
  "is_connected tid tr \<longleftrightarrow> tunnels tr tid \<noteq> None"

definition tunnel_connection_count :: "ustring \<Rightarrow> tracker \<Rightarrow> nat" where
  "tunnel_connection_count tid tr =
     (case tunnels tr tid of Some st \<Rightarrow> connection_count st | None \<Rightarrow> 0)"

section \<open>The connection limit\<close>

text \<open>The calls the server makes, as data, and a run of them.\<close>

datatype tracker_op =
    Register nat ustring uuid "nat option" "ustring option"
  | RegisterForTarget nat ustring ustring ustring uuid "nat option" "ustring option" "nat option"
  | ReleaseGuard nat connection_guard
  | ReleaseTunnel ustring
  | ForceRelease nat ustring
  | Cleanup nat "nat option"

fun tracker_step :: "tracker_op \<Rightarrow> tracker \<Rightarrow> tracker" where
  "tracker_step (Register now tid sid m app) tr =
     snd (try_register_with_limits_and_app now tid sid m app tr)"
| "tracker_step (RegisterForTarget now target uid tid sid m app timeout) tr =
     snd (try_register_for_target_with_app now target uid tid sid m app timeout tr)"
| "tracker_step (ReleaseGuard now g) tr = release_guard now g tr"
| "tracker_step (ReleaseTunnel tid) tr = release_tunnel tid tr"
| "tracker_step (ForceRelease now uid) tr = force_release_tunnel now uid tr"
| "tracker_step (Cleanup now th) tr = cleanup_stale_sessions now th tr"

text \<open>Every registration in the tunnel passes a limit of at most \<open>m\<close>.\<close>

fun limited_to :: "ustring \<Rightarrow> nat \<Rightarrow> tracker_op \<Rightarrow> bool" where
  "limited_to tid m (Register _ t _ lim _) \<longleftrightarrow> t = tid \<longrightarrow> lim \<noteq> None \<and> the lim \<le> m"
| "limited_to tid m (RegisterForTarget _ _ _ t _ lim _ _) \<longleftrightarrow> t = tid \<longrightarrow> lim \<noteq> None \<and> the lim \<le> m"
| "limited_to tid m _ \<longleftrightarrow> True"

lemma claim_target_tunnels [simp]: "tunnels (snd (claim_target now t u app lt tr)) = tunnels tr"
  by (auto simp: claim_target_def Let_def split: option.splits)

lemma unclaim_target_tunnels [simp]: "tunnels (unclaim_target t u tid tr) = tunnels tr"
  by (auto simp: unclaim_target_def split: option.splits)

lemma mark_disconnected_tunnels [simp]: "tunnels (mark_disconnected now t u tr) = tunnels tr"
  by (auto simp: mark_disconnected_def split: option.splits)

lemma count_add_session: "connection_count (add_session s st) \<le> Suc (connection_count st)"
  by (cases "finite (tunnel_sessions st)") (simp_all add: connection_count_def add_session_def card_insert_if)

lemma count_remove_session: "connection_count (snd (remove_session s st)) \<le> connection_count st"
  by (simp add: connection_count_def remove_session_def Let_def card_Diff1_le)

lemma register_limit:
  assumes "t = tid \<longrightarrow> lim \<noteq> None \<and> the lim \<le> m"
    and "tunnel_connection_count tid tr \<le> max 1 m"
  shows "tunnel_connection_count tid (snd (try_register_with_limits_and_app now t s lim app tr)) \<le> max 1 m"
  using assms count_add_session [of s "the (tunnels tr tid)"]
  by (auto simp: try_register_with_limits_and_app_def tunnel_connection_count_def Let_def
      with_application_name_def connection_count_def split: option.splits)

lemma leave_tunnel_limit: "tunnel_connection_count tid (snd (leave_tunnel t s tr)) \<le> tunnel_connection_count tid tr"
  using count_remove_session [of s "the (tunnels tr tid)"]
  by (auto simp: leave_tunnel_def tunnel_connection_count_def split: option.splits prod.splits)

lemma count_of_tunnels: "tunnels tr = tunnels tr' \<Longrightarrow> tunnel_connection_count t tr = tunnel_connection_count t tr'"
  by (simp add: tunnel_connection_count_def)

lemma release_guard_limit:
  "tunnel_connection_count tid (release_guard now g tr) \<le> tunnel_connection_count tid tr"
proof -
  have "tunnels (release_guard now g tr) = tunnels (snd (leave_tunnel (g_tunnel g) (g_session g) tr))"
    by (auto simp: release_guard_def release_session_for_target_def release_session_def
        split: option.splits prod.splits)
  from count_of_tunnels [OF this] show ?thesis by (simp add: leave_tunnel_limit)
qed

lemma register_for_target_tunnels:
  "tunnels (snd (try_register_for_target_with_app now t u tid s m app lt tr)) =
     (case claim_target now t u app lt tr of
        (Err e, tr1) \<Rightarrow> tunnels tr
      | (Ok _, tr1) \<Rightarrow> tunnels (snd (try_register_with_limits_and_app now tid s m app tr1)))"
proof -
  obtain r tr1 where c: "claim_target now t u app lt tr = (r, tr1)" by fastforce
  have "tunnels tr1 = tunnels tr" using claim_target_tunnels [of now t u app lt tr] c by simp
  then show ?thesis
    by (auto simp: try_register_for_target_with_app_def c split: prod.splits result.splits)
qed

lemma tracker_step_limit:
  assumes "limited_to tid m op" and "tunnel_connection_count tid tr \<le> max 1 m"
  shows "tunnel_connection_count tid (tracker_step op tr) \<le> max 1 m"
proof (cases op)
  case (Register now t s lim app)
  then show ?thesis using assms register_limit by simp
next
  case (RegisterForTarget now t u tid' s lim app lt)
  obtain r tr1 where c: "claim_target now t u app lt tr = (r, tr1)" by fastforce
  have same: "tunnels tr1 = tunnels tr" using claim_target_tunnels [of now t u app lt tr] c by simp
  have "tunnel_connection_count tid (tracker_step op tr) =
      tunnel_connection_count tid (case r of Err e \<Rightarrow> tr
        | Ok _ \<Rightarrow> snd (try_register_with_limits_and_app now tid' s lim app tr1))"
    by (rule count_of_tunnels) (simp add: RegisterForTarget register_for_target_tunnels c split: result.split)
  then show ?thesis
    using assms register_limit [of tid' tid lim m tr1 now s app] RegisterForTarget count_of_tunnels [OF same, of tid]
    by (auto split: result.splits)
next
  case (ReleaseGuard now g)
  then show ?thesis using assms(2) release_guard_limit [of tid now g tr] by simp
qed (use assms(2) in \<open>auto simp: tunnel_connection_count_def release_tunnel_def force_release_tunnel_def
    cleanup_stale_sessions_def Let_def\<close>)

text \<open>
  Whatever the server calls, in any order: when every registration in a tunnel passes a
  limit of at most \<open>m\<close>, the tunnel never holds more than \<open>m\<close> connections, or one when \<open>m\<close> is 0 (the
  first connection of a tunnel is not checked against the limit).\<close>

lemma connection_limit_respected:
  assumes "\<forall>op \<in> set ops. limited_to tid m op"
  shows "tunnel_connection_count tid (fold tracker_step ops new_tracker) \<le> max 1 m"
proof -
  have "tunnel_connection_count tid (fold tracker_step ops tr) \<le> max 1 m"
    if "tunnel_connection_count tid tr \<le> max 1 m" for tr
    using assms that by (induction ops arbitrary: tr) (simp_all add: tracker_step_limit [unfolded One_nat_def])
  then show ?thesis by (simp add: new_tracker_def tunnel_connection_count_def)
qed

section \<open>One session per target\<close>

text \<open>
  A run of the server as seen by one target registration after the other: the tracker with the
  connections that are up, each a target, the session's uid and the connection's own id. A connection
  is registered in the tunnel of its record uid, under a fresh id and with an application name; it
  ends when its guard is released, or when the transport of its session dies, after which its guard
  is released late. Registrations outside any target use the tunnels of \<open>from_connection\<close>.
\<close>

type_synonym live = "(ustring \<times> ustring \<times> uuid) set"

inductive session_step :: "tracker \<times> live \<Rightarrow> tracker \<times> live \<Rightarrow> bool" where
  registered:
    "\<lbrakk>try_register_for_target_with_app now t u (from_record_uid u) s m (Some app) lt tr = (Ok g, tr');
      s \<notin> (snd \<circ> snd) ` L\<rbrakk> \<Longrightarrow> session_step (tr, L) (tr', insert (t, u, s) L)"
| refused:
    "try_register_for_target_with_app now t u (from_record_uid u) s m (Some app) lt tr = (Err e, tr')
      \<Longrightarrow> session_step (tr, L) (tr', L)"
| released:
    "(t, u, s) \<in> L \<Longrightarrow>
      session_step (tr, L) (release_session_for_target now (from_record_uid u) s t u tr, L - {(t, u, s)})"
| released_late:
    "s \<notin> (snd \<circ> snd) ` L \<Longrightarrow>
      session_step (tr, L) (release_session_for_target now (from_record_uid u) s t u tr, L)"
| transport_died:
    "session_step (tr, L) (force_release_tunnel now u tr, {l \<in> L. fst (snd l) \<noteq> u})"
| cleaned:
    "session_step (tr, L) (cleanup_stale_sessions now th tr, L)"
| plain_registered:
    "session_step (tr, L) (snd (try_register_with_limits now (from_connection a h p) s m tr), L)"
| plain_released:
    "session_step (tr, L) (release_session (from_connection a h p) s tr, L)"

inductive_cases session_stepE: "session_step (tr, L) c"

text \<open>The connection is in its session's tunnel and its session holds the target.\<close>

definition session_up :: "tracker \<Rightarrow> ustring \<times> ustring \<times> uuid \<Rightarrow> bool" where
  "session_up tr = (\<lambda>(t, u, s).
     (\<exists>st. tunnels tr (from_record_uid u) = Some st \<and> s \<in> tunnel_sessions st) \<and>
     (\<exists>e. active_sessions tr t = Some e \<and> session_uid e = u \<and> last_disconnect e = None))"

definition session_inv :: "tracker \<times> live \<Rightarrow> bool" where
  "session_inv = (\<lambda>(tr, L). (\<forall>l \<in> L. session_up tr l) \<and> inj_on (snd \<circ> snd) L)"

lemma from_record_uid_inj [simp]: "from_record_uid u = from_record_uid v \<longleftrightarrow> u = v"
  by (simp add: from_record_uid_def)

lemma from_connection_other [simp]: "from_connection a h p \<noteq> from_record_uid u"
  by (simp add: from_record_uid_def from_connection_def ustr_def)

text \<open>A call leaves a connection up.\<close>

definition keeps_session :: "tracker \<Rightarrow> tracker \<Rightarrow> ustring \<times> ustring \<times> uuid \<Rightarrow> bool" where
  "keeps_session tr tr' l \<longleftrightarrow> session_up tr l \<longrightarrow> session_up tr' l"

lemmas keeps_defs = keeps_session_def session_up_def

lemma keeps_session_trans: "keeps_session a b l \<Longrightarrow> keeps_session b c l \<Longrightarrow> keeps_session a c l"
  by (simp add: keeps_session_def)

lemma session_inv_keeps:
  assumes "session_inv (tr, L)" and "L' \<subseteq> L" and "\<And>l. l \<in> L' \<Longrightarrow> keeps_session tr tr' l"
  shows "session_inv (tr', L')"
  using assms by (auto simp: session_inv_def keeps_session_def intro: inj_on_subset)

lemma cleanup_keeps: "keeps_session tr (cleanup_stale_sessions now th tr) l"
  by (auto simp: keeps_defs cleanup_stale_sessions_def Let_def split: option.splits)

lemma force_keeps: "fst (snd l) \<noteq> u \<Longrightarrow> keeps_session tr (force_release_tunnel now u tr) l"
  by (auto simp: keeps_defs force_release_tunnel_def split: option.splits)

lemma register_keeps: "keeps_session tr (snd (try_register_with_limits_and_app now tid s m app tr)) l"
  by (auto simp: keeps_defs try_register_with_limits_and_app_def add_session_def Let_def
      split: option.splits)

lemma leave_tunnel_keeps:
  "tid \<noteq> from_record_uid (fst (snd l)) \<or> s \<noteq> snd (snd l) \<Longrightarrow> keeps_session tr (snd (leave_tunnel tid s tr)) l"
  by (cases l) (fastforce simp: keeps_defs leave_tunnel_def remove_session_def Let_def split: option.splits)

lemma leave_tunnel_empty: "leave_tunnel tid s tr = (True, tr') \<Longrightarrow> tunnels tr' tid = None"
  by (auto simp: leave_tunnel_def split: option.splits prod.splits if_splits)

lemma mark_keeps:
  "tunnels tr (from_record_uid u) = None \<Longrightarrow> keeps_session tr (mark_disconnected now t u tr) l"
  by (auto simp: keeps_defs mark_disconnected_def split: option.splits)

lemma release_for_target_keeps:
  assumes "s \<noteq> snd (snd l)"
  shows "keeps_session tr (release_session_for_target now (from_record_uid u) s t u tr) l"
proof -
  obtain gone tr1 where l: "leave_tunnel (from_record_uid u) s tr = (gone, tr1)" by fastforce
  have "keeps_session tr tr1 l" using leave_tunnel_keeps [of "from_record_uid u" l s tr] assms l by simp
  then show ?thesis
    using keeps_session_trans mark_keeps [OF leave_tunnel_empty] l
    by (cases gone) (auto simp: release_session_for_target_def)
qed

text \<open>A claim that succeeds leaves the connections of the target to the session that has them.\<close>

lemma claim_target_keeps:
  "claim_target now t u (Some app) lt tr = (r, tr1) \<Longrightarrow> keeps_session tr tr1 l"
  by (auto simp: keeps_defs claim_target_def previous_session_gone_def Let_def
      split: option.splits if_splits)

lemma claim_target_claims:
  assumes "claim_target now t u (Some app) lt tr = (Ok x, tr1)"
  shows "\<exists>e. active_sessions tr1 t = Some e \<and> session_uid e = u \<and> last_disconnect e = None"
  using assms by (auto simp: claim_target_def Let_def split: option.splits if_splits)

lemma register_into_tunnel:
  assumes "try_register_with_limits_and_app now tid s m app tr = (Ok g, tr1)"
  shows "(\<exists>st. tunnels tr1 tid = Some st \<and> s \<in> tunnel_sessions st) \<and> active_sessions tr1 = active_sessions tr"
  using assms
  by (auto simp: try_register_with_limits_and_app_def add_session_def with_application_name_def Let_def
      split: option.splits if_splits)

lemma register_refused:
  assumes "try_register_with_limits_and_app now tid s m app tr = (Err e, tr1)"
  shows "tr1 = tr \<and> tunnels tr tid \<noteq> None"
  using assms
  by (auto simp: try_register_with_limits_and_app_def Let_def split: option.splits if_splits)

lemma register_for_target_Ok:
  assumes "try_register_for_target_with_app now t u tid s m app lt tr = (Ok g, tr')"
  obtains tr1 g' where "claim_target now t u app lt tr = (Ok (), tr1)"
    and "try_register_with_limits_and_app now tid s m app tr1 = (Ok g', tr')"
  using assms by (auto simp: try_register_for_target_with_app_def split: prod.splits result.splits)

text \<open>When the registration is refused the tunnel is there, so the claim is never taken back.\<close>

lemma register_for_target_Err:
  assumes "try_register_for_target_with_app now t u tid s m app lt tr = (Err e, tr')"
  shows "\<exists>r. claim_target now t u app lt tr = (r, tr')"
  using assms
  by (auto simp: try_register_for_target_with_app_def unclaim_target_def dest: register_refused
      split: prod.splits result.splits)

lemma session_step_inv:
  assumes "session_step c c'" and "session_inv c"
  shows "session_inv c'"
  using assms
proof (cases rule: session_step.cases)
  case (registered now t u s m app lt tr g tr' L)
  from registered(3) obtain tr1 g' where c: "claim_target now t u (Some app) lt tr = (Ok (), tr1)"
    and r: "try_register_with_limits_and_app now (from_record_uid u) s m (Some app) tr1 = (Ok g', tr')"
    by (rule register_for_target_Ok)
  have "keeps_session tr tr' l" for l
    using keeps_session_trans [OF claim_target_keeps [OF c, of l] register_keeps [of tr1 now "from_record_uid u" s m "Some app" l]]
    by (simp add: r)
  then have "session_inv (tr', L)" using session_inv_keeps [of tr L L tr'] assms(2) registered(1) by simp
  then show ?thesis
    using registered(2,4) claim_target_claims [OF c] register_into_tunnel [OF r]
    by (auto simp: session_inv_def session_up_def)
next
  case (refused now t u s m app lt tr e tr' L)
  then obtain r where "claim_target now t u (Some app) lt tr = (r, tr')"
    using register_for_target_Err by blast
  then show ?thesis using refused assms(2) session_inv_keeps [of tr L L tr'] claim_target_keeps by auto
next
  case (released t u s L tr now)
  have "s \<noteq> snd (snd l)" if "l \<in> L - {(t, u, s)}" for l
    using assms(2) released(1,3) that by (force simp: session_inv_def inj_on_def)
  then show ?thesis
    using released assms(2) session_inv_keeps [of tr L "L - {(t, u, s)}"] release_for_target_keeps by auto
next
  case (released_late s L tr now u t)
  then have "s \<noteq> snd (snd l)" if "l \<in> L" for l using that by force
  then show ?thesis
    using released_late assms(2) session_inv_keeps [of tr L L] release_for_target_keeps by auto
next
  case (transport_died tr L now u)
  then show ?thesis
    using assms(2) session_inv_keeps [of tr L "{l \<in> L. fst (snd l) \<noteq> u}"] force_keeps by auto
next
  case (cleaned tr L now th)
  then show ?thesis using assms(2) session_inv_keeps [of tr L L] cleanup_keeps by auto
next
  case (plain_registered tr L now a h p s m)
  then show ?thesis
    using assms(2) session_inv_keeps [of tr L L] register_keeps by (auto simp: try_register_with_limits_def)
next
  case (plain_released tr L a h p s)
  then show ?thesis
    using assms(2) session_inv_keeps [of tr L L] leave_tunnel_keeps by (auto simp: release_session_def)
qed



text \<open>
  Without an application name the claim of the target is not renewed: a session that
  disconnects and connects again within the lock timeout is up, and yet another session takes the
  target over, at any later time, so that two sessions are connected to it.\<close>

lemma reconnect_loses_target:
  assumes "u \<noteq> v" and "t2 - t1 \<le> DEFAULT_APPLICATION_LOCK_TIMEOUT"
  shows "let reg = (\<lambda>now uid s. try_register_for_target_with_app now t uid (from_record_uid uid) s None None None);
      tr1 = snd (reg t0 u 1 new_tracker);
      tr2 = release_session_for_target t1 (from_record_uid u) 1 t u tr1;
      tr3 = snd (reg t2 u 2 tr2);
      tr4 = snd (reg t3 v 3 tr3)
    in (\<exists>g. fst (reg t2 u 2 tr2) = Ok g) \<and> (\<exists>g. fst (reg t3 v 3 tr3) = Ok g) \<and>
       is_connected (from_record_uid u) tr4 \<and> is_connected (from_record_uid v) tr4"
proof -
  let ?reg = "\<lambda>now uid s. try_register_for_target_with_app now t uid (from_record_uid uid) s None None None"
  note defs = try_register_for_target_with_app_def claim_target_def try_register_with_limits_and_app_def
    new_tracker_def with_application_name_def is_connected_def previous_session_gone_def
  let ?tr1 = "\<lparr>tunnels = [from_record_uid u \<mapsto> with_application_name t0 1 None],
      active_sessions = [t \<mapsto> \<lparr>session_uid = u, target_app = None, last_disconnect = None\<rparr>]\<rparr>"
  let ?tr2 = "\<lparr>tunnels = Map.empty,
      active_sessions = [t \<mapsto> \<lparr>session_uid = u, target_app = None, last_disconnect = Some t1\<rparr>]\<rparr>"
  have 1: "snd (?reg t0 u 1 new_tracker) = ?tr1" by (simp add: defs)
  have 2: "release_session_for_target t1 (from_record_uid u) 1 t u ?tr1 = ?tr2"
    by (simp add: release_session_for_target_def leave_tunnel_def remove_session_def mark_disconnected_def
        with_application_name_def)
  have 3: "?reg t2 u 2 ?tr2 =
      (Ok \<lparr>g_tunnel = from_record_uid u, g_session = 2, g_target = Some t, g_uid = Some u\<rparr>,
       \<lparr>tunnels = [from_record_uid u \<mapsto> with_application_name t2 2 None],
        active_sessions = [t \<mapsto> \<lparr>session_uid = u, target_app = None, last_disconnect = Some t1\<rparr>]\<rparr>)"
    using assms(2) by (simp add: defs)
  show ?thesis unfolding Let_def 1 2 3 using assms(1) by (simp add: defs)
qed

text \<open>
  The claim of a target and the registration in the tunnel are two critical sections:
  when another session's claim comes between them, both sessions register, on one target that was
  free, whatever their application names.\<close>

lemma claim_race_admits_two:
  assumes "u \<noteq> v" and "active_sessions tr t = None"
    and "tunnels tr (from_record_uid u) = None" and "tunnels tr (from_record_uid v) = None"
  shows "let (r1, tr1) = claim_target n1 t u app1 lt1 tr;
      (r2, tr2) = claim_target n2 t v app2 lt2 tr1;
      (r3, tr3) = try_register_with_limits_and_app n3 (from_record_uid u) s1 m1 app1 tr2;
      (r4, tr4) = try_register_with_limits_and_app n4 (from_record_uid v) s2 m2 app2 tr3
    in r1 = Ok () \<and> r2 = Ok () \<and> (\<exists>g. r3 = Ok g) \<and> (\<exists>g. r4 = Ok g) \<and>
       is_connected (from_record_uid u) tr4 \<and> is_connected (from_record_uid v) tr4"
proof -
  have accepts: "\<not> app_rejected x x" for x by (cases x) simp_all
  let ?tr1 = "tr\<lparr>active_sessions := (active_sessions tr)(t \<mapsto>
      \<lparr>session_uid = u, target_app = map_option normalize_application_name app1, last_disconnect = None\<rparr>)\<rparr>"
  have 1: "claim_target n1 t u app1 lt1 tr = (Ok (), ?tr1)"
    using assms(2) by (simp add: claim_target_def)
  obtain tr2 where 2: "claim_target n2 t v app2 lt2 ?tr1 = (Ok (), tr2)"
    using assms(1,3) by (cases app2) (simp_all add: claim_target_def previous_session_gone_def accepts)
  have "tunnels tr2 = tunnels tr" using claim_target_tunnels [of n2 t v app2 lt2 ?tr1] by (simp add: 2)
  with assms(1,3,4) show ?thesis
    by (simp add: 1 2 try_register_with_limits_and_app_def is_connected_def)
qed

end
