(* ===== verification/Socks5.thy ===== *)
theory Socks5
  imports Utf8 Control_Plane
begin

text \<open>
  SOCKS5: the server side handshake of the crate \<open>pam-socks5\<close> (\<open>handshake.rs\<close>), the OpenConnection
  payload that carries its result over the tube (\<open>payload.rs\<close>), and the two tunnel protocols of
  \<open>keeper-pam-webrtc-rs/src/channel/tunnel_protocol.rs\<close> that use them.

  A stream is what the client still sends, what the server wrote, and whether writes succeed; a read
  at the end of the input fails, as \<open>read_exact\<close> does. An operation is a function from a stream to a
  result and a stream. A string is its UTF-8 bytes.
\<close>

section \<open>Streams\<close>

record stream =
  unread :: bytes
  written :: bytes
  writable :: bool

datatype socks_error =
  UnexpectedEof | WriteFailed | InvalidVersion u8 | NoSupportedMethod | UnsupportedCommand u8
| UnsupportedAddressType u8 | InvalidUtf8 | MissingHostLength | PayloadTooShort

type_synonym 'a io = "stream \<Rightarrow> ('a, socks_error) result \<times> stream"

definition return_io :: "'a \<Rightarrow> 'a io" where
  "return_io a = (\<lambda>s. (Ok a, s))"

definition fail_io :: "socks_error \<Rightarrow> 'a io" where
  "fail_io e = (\<lambda>s. (Err e, s))"

definition bind_io :: "'a io \<Rightarrow> ('a \<Rightarrow> 'b io) \<Rightarrow> 'b io" where
  "bind_io m f = (\<lambda>s. case m s of (Ok a, s') \<Rightarrow> f a s' | (Err e, s') \<Rightarrow> (Err e, s'))"

definition read_exact :: "nat \<Rightarrow> bytes io" where
  "read_exact n =
     (\<lambda>s. if length (unread s) < n then (Err UnexpectedEof, s\<lparr>unread := []\<rparr>)
          else (Ok (take n (unread s)), s\<lparr>unread := drop n (unread s)\<rparr>))"

definition write_all :: "bytes \<Rightarrow> unit io" where
  "write_all bs =
     (\<lambda>s. if writable s then (Ok (), s\<lparr>written := written s @ bs\<rparr>) else (Err WriteFailed, s))"

section \<open>The handshake\<close>

definition SOCKS5_VERSION :: u8 where "SOCKS5_VERSION = 0x05"
definition SOCKS5_AUTH_METHOD_NONE :: u8 where "SOCKS5_AUTH_METHOD_NONE = 0x00"
definition SOCKS5_AUTH_FAILED :: u8 where "SOCKS5_AUTH_FAILED = 0xFF"
definition SOCKS5_CMD_CONNECT :: u8 where "SOCKS5_CMD_CONNECT = 0x01"
definition SOCKS5_ADDR_TYPE_IPV4 :: u8 where "SOCKS5_ADDR_TYPE_IPV4 = 0x01"
definition SOCKS5_ATYP_DOMAIN :: u8 where "SOCKS5_ATYP_DOMAIN = 0x03"
definition SOCKS5_ATYP_IPV6 :: u8 where "SOCKS5_ATYP_IPV6 = 0x04"
definition SOCKS5_FAIL :: u8 where "SOCKS5_FAIL = 0x01"

lemmas socks_consts =
  SOCKS5_VERSION_def SOCKS5_AUTH_METHOD_NONE_def SOCKS5_AUTH_FAILED_def SOCKS5_CMD_CONNECT_def
  SOCKS5_ADDR_TYPE_IPV4_def SOCKS5_ATYP_DOMAIN_def SOCKS5_ATYP_IPV6_def SOCKS5_FAIL_def

definition SOCKS5_SUCCESS_RESPONSE :: bytes where
  "SOCKS5_SUCCESS_RESPONSE = [0x05, 0x00, 0x00, 0x01, 0x00, 0x00, 0x00, 0x00, 0x00, 0x00]"

datatype socks5_address = IPv4 (as_str: bytes) | Domain (as_str: bytes) | IPv6 (as_str: bytes)

datatype socks5_command = Connect

definition negotiate_auth :: "unit io" where
  "negotiate_auth =
     bind_io (read_exact 2) (\<lambda>buf.
     if buf ! 0 \<noteq> SOCKS5_VERSION
     then bind_io (write_all [SOCKS5_VERSION, SOCKS5_AUTH_FAILED]) (\<lambda>_. fail_io (InvalidVersion (buf ! 0)))
     else bind_io (read_exact (unat (buf ! 1))) (\<lambda>methods.
          let selected = (if SOCKS5_AUTH_METHOD_NONE \<in> set methods
                          then SOCKS5_AUTH_METHOD_NONE else SOCKS5_AUTH_FAILED)
          in bind_io (write_all [SOCKS5_VERSION, selected]) (\<lambda>_.
             if selected = SOCKS5_AUTH_FAILED then fail_io NoSupportedMethod else return_io ())))"

definition error_response :: "u8 \<Rightarrow> bytes" where
  "error_response code = [SOCKS5_VERSION, code, 0, SOCKS5_ADDR_TYPE_IPV4, 0, 0, 0, 0, 0, 0]"

definition send_error_reply :: "u8 \<Rightarrow> unit io" where
  "send_error_reply code = write_all (error_response code)"

definition send_success :: "unit io" where
  "send_success = write_all SOCKS5_SUCCESS_RESPONSE"

text \<open>The formats of addresses: decimal octets, and \<open>{:x}\<close> of 16-bit groups.\<close>

fun join_sep :: "u8 \<Rightarrow> bytes list \<Rightarrow> bytes" where
  "join_sep c [] = []"
| "join_sep c [x] = x"
| "join_sep c (x # xs) = x @ c # join_sep c xs"

definition hex_digit :: "nat \<Rightarrow> u8" where
  "hex_digit n = of_nat (if n < 10 then 48 + n else 87 + n)"

fun hex_bytes :: "nat \<Rightarrow> bytes" where
  "hex_bytes n = (if n < 16 then [hex_digit n] else hex_bytes (n div 16) @ [hex_digit (n mod 16)])"

declare hex_bytes.simps [simp del]

definition format_ipv4 :: "bytes \<Rightarrow> bytes" where
  "format_ipv4 addr = join_sep 0x2E (map (dec_bytes \<circ> unat) addr)"

fun groups16 :: "bytes \<Rightarrow> u16 list" where
  "groups16 (a # b # r) = (push_bit 8 (ucast a) OR ucast b) # groups16 r"
| "groups16 r = []"

definition format_ipv6 :: "bytes \<Rightarrow> bytes" where
  "format_ipv6 addr = join_sep 0x3A (map (hex_bytes \<circ> unat) (groups16 addr))"

definition read_address :: "u8 \<Rightarrow> socks5_address io" where
  "read_address addr_type =
     (if addr_type = SOCKS5_ADDR_TYPE_IPV4
      then bind_io (read_exact 4) (\<lambda>addr. return_io (IPv4 (format_ipv4 addr)))
      else if addr_type = SOCKS5_ATYP_DOMAIN
      then bind_io (read_exact 1) (\<lambda>len.
           bind_io (read_exact (unat (len ! 0))) (\<lambda>domain.
           if from_utf8 domain then return_io (Domain domain) else fail_io InvalidUtf8))
      else if addr_type = SOCKS5_ATYP_IPV6
      then bind_io (read_exact 16) (\<lambda>addr. return_io (IPv6 (format_ipv6 addr)))
      else bind_io (send_error_reply 0x08) (\<lambda>_. fail_io (UnsupportedAddressType addr_type)))"

definition read_request :: "(socks5_command \<times> socks5_address \<times> u16) io" where
  "read_request =
     bind_io (read_exact 4) (\<lambda>buf.
     if buf ! 0 \<noteq> SOCKS5_VERSION
     then bind_io (send_error_reply SOCKS5_FAIL) (\<lambda>_. fail_io (InvalidVersion (buf ! 0)))
     else if buf ! 1 \<noteq> SOCKS5_CMD_CONNECT
     then bind_io (send_error_reply 0x07) (\<lambda>_. fail_io (UnsupportedCommand (buf ! 1)))
     else bind_io (read_address (buf ! 3)) (\<lambda>address.
          bind_io (read_exact 2) (\<lambda>port. return_io (Connect, address, get_u16 port))))"

definition handshake :: "(socks5_address \<times> u16) io" where
  "handshake =
     bind_io negotiate_auth (\<lambda>_. bind_io read_request (\<lambda>(command, address, port). return_io (address, port)))"

text \<open>A failed read is not an error here; failed writes are.\<close>

definition reject_non_localhost :: "unit io" where
  "reject_non_localhost =
     (\<lambda>s. case read_exact 2 s of
            (Err e, s') \<Rightarrow> (Ok (), s')
          | (Ok buf, s') \<Rightarrow>
              (if buf ! 0 = SOCKS5_VERSION then write_all [SOCKS5_VERSION, SOCKS5_AUTH_FAILED] s'
               else send_error_reply SOCKS5_FAIL s'))"

section \<open>The OpenConnection payload\<close>

record socks5_target =
  target_host :: bytes
  target_port :: u16

definition encode_open_connection_payload :: "u32 \<Rightarrow> socks5_target \<Rightarrow> bytes" where
  "encode_open_connection_payload conn_no t =
     be32 conn_no @ be32 (of_nat (length (target_host t))) @ target_host t @ be16 (target_port t)"

definition decode_open_connection_payload :: "bytes \<Rightarrow> (socks5_target, socks_error) result" where
  "decode_open_connection_payload dat =
     (if length dat < 4 then Err MissingHostLength
      else let host_len = unat (get_u32 dat); rest = drop 4 dat
           in if length rest < host_len + 2 then Err PayloadTooShort
              else if \<not> from_utf8 (take host_len rest) then Err InvalidUtf8
              else Ok \<lparr>target_host = take host_len rest, target_port = get_u16 (drop host_len rest)\<rparr>)"

section \<open>The tunnel protocols\<close>

datatype tunnel_protocol = Socks5Tunnel | PortForwardTunnel bytes u16

text \<open>The payload of the OpenConnection message that the server side sends.\<close>

fun server_handshake :: "tunnel_protocol \<Rightarrow> u32 \<Rightarrow> bytes io" where
  "server_handshake Socks5Tunnel conn_no =
     bind_io handshake (\<lambda>(address, port).
       return_io (be32 conn_no @ be32 (of_nat (length (as_str address))) @ as_str address @ be16 port))"
| "server_handshake (PortForwardTunnel h p) conn_no = return_io (be32 conn_no)"

fun parse_open_connection :: "tunnel_protocol \<Rightarrow> bytes \<Rightarrow> (socks5_target, socks_error) result" where
  "parse_open_connection Socks5Tunnel dat = decode_open_connection_payload dat"
| "parse_open_connection (PortForwardTunnel h p) dat = Ok \<lparr>target_host = h, target_port = p\<rparr>"

fun deferred_response :: "tunnel_protocol \<Rightarrow> bytes option" where
  "deferred_response Socks5Tunnel = Some SOCKS5_SUCCESS_RESPONSE"
| "deferred_response (PortForwardTunnel h p) = None"

section \<open>Lemmas\<close>

lemmas io_defs = bind_io_def return_io_def fail_io_def read_exact_def write_all_def

text \<open>Reading what is there.\<close>

lemma read_exact_append:
  "length xs = n \<Longrightarrow> read_exact n (s\<lparr>unread := xs @ r\<rparr>) = (Ok xs, s\<lparr>unread := r\<rparr>)"
  by (simp add: read_exact_def)

lemma bind_read:
  "length xs = n \<Longrightarrow> bind_io (read_exact n) f (s\<lparr>unread := xs @ r\<rparr>) = f xs (s\<lparr>unread := r\<rparr>)"
  by (simp add: bind_io_def read_exact_append)

text \<open>What a client sends: its greeting, and a request for an address.\<close>

datatype destination = ToIPv4 bytes | ToDomain bytes | ToIPv6 bytes

fun destination_ok :: "destination \<Rightarrow> bool" where
  "destination_ok (ToIPv4 a) \<longleftrightarrow> length a = 4"
| "destination_ok (ToDomain d) \<longleftrightarrow> length d < 256 \<and> from_utf8 d"
| "destination_ok (ToIPv6 a) \<longleftrightarrow> length a = 16"

fun destination_bytes :: "destination \<Rightarrow> bytes" where
  "destination_bytes (ToIPv4 a) = SOCKS5_ADDR_TYPE_IPV4 # a"
| "destination_bytes (ToDomain d) = SOCKS5_ATYP_DOMAIN # of_nat (length d) # d"
| "destination_bytes (ToIPv6 a) = SOCKS5_ATYP_IPV6 # a"

fun destination_text :: "destination \<Rightarrow> bytes" where
  "destination_text (ToIPv4 a) = format_ipv4 a"
| "destination_text (ToDomain d) = d"
| "destination_text (ToIPv6 a) = format_ipv6 a"

definition client_stream :: "bytes \<Rightarrow> destination \<Rightarrow> u16 \<Rightarrow> bytes" where
  "client_stream methods d port =
     SOCKS5_VERSION # of_nat (length methods) # methods @
     [SOCKS5_VERSION, SOCKS5_CMD_CONNECT, 0] @ destination_bytes d @ be16 port"

text \<open>Address texts are ASCII and short.\<close>

lemma is_ascii_append [simp]: "is_ascii (xs @ ys) \<longleftrightarrow> is_ascii xs \<and> is_ascii ys"
  by (auto simp: is_ascii_def)

lemma is_ascii_Nil [simp]: "is_ascii []"
  by (simp add: is_ascii_def)

lemma is_ascii_Cons [simp]: "is_ascii (x # xs) \<longleftrightarrow> unat x < 128 \<and> is_ascii xs"
  by (simp add: is_ascii_def)

lemma unat_small_byte: "n < 256 \<Longrightarrow> unat (of_nat n :: u8) = n"
  by (rule unat_of_nat_small) simp

lemma dec_bytes_text: "is_ascii (dec_bytes n) \<and> length (dec_bytes n) \<le> Suc n"
proof (induction n rule: dec_bytes.induct)
  case (1 n)
  have small: "unat (of_nat (48 + k) :: u8) = 48 + k" if "k < 10" for k
    using that by (intro unat_small_byte) simp
  show ?case
  proof (cases "n < 10")
    case True
    then show ?thesis by (subst (1 2) dec_bytes.simps) (simp add: small del: of_nat_add)
  next
    case False
    then have "Suc (n div 10) \<le> n" "n mod 10 < 10" by simp_all
    with False 1 show ?thesis
      by (subst (1 2) dec_bytes.simps) (simp add: small del: of_nat_add)
  qed
qed

lemma hex_bytes_text: "is_ascii (hex_bytes n) \<and> length (hex_bytes n) \<le> Suc n"
proof (induction n rule: hex_bytes.induct)
  case (1 n)
  have digit: "unat (hex_digit k) < 128" if "k < 16" for k
    unfolding hex_digit_def using that by (subst unat_small_byte) auto
  show ?case
  proof (cases "n < 16")
    case True
    then show ?thesis by (subst (1 2) hex_bytes.simps) (simp add: digit)
  next
    case False
    then have "Suc (n div 16) \<le> n" "n mod 16 < 16" by simp_all
    with False 1 show ?thesis by (subst (1 2) hex_bytes.simps) (simp add: digit)
  qed
qed

lemma join_sep_text:
  "\<forall>x \<in> set xs. is_ascii x \<and> length x \<le> k \<Longrightarrow> unat c < 128 \<Longrightarrow>
     is_ascii (join_sep c xs) \<and> length (join_sep c xs) \<le> Suc k * length xs"
  by (induction c xs rule: join_sep.induct) auto

lemma length_groups16: "length (groups16 a) = length a div 2"
  by (induction a rule: groups16.induct) auto

lemma destination_text_ok:
  assumes "destination_ok d"
  shows "from_utf8 (destination_text d)" "length (destination_text d) < 2 ^ 32"
proof -
  have b: "unat x < 256" for x :: u8 using unsigned_less [of x] by simp
  have w: "unat x < 65536" for x :: u16 using unsigned_less [of x] by simp
  have d: "is_ascii (dec_bytes (unat x)) \<and> length (dec_bytes (unat x)) \<le> 256" for x :: u8
    using dec_bytes_text [of "unat x"] b [of x] by linarith
  have h: "is_ascii (hex_bytes (unat x)) \<and> length (hex_bytes (unat x)) \<le> 65536" for x :: u16
    using hex_bytes_text [of "unat x"] w [of x] by linarith
  have 4: "is_ascii (format_ipv4 a) \<and> length (format_ipv4 a) \<le> 257 * length a" for a
    using join_sep_text [of "map (dec_bytes \<circ> unat) a" 256 "0x2E"] d by (simp add: format_ipv4_def)
  have 6: "is_ascii (format_ipv6 a) \<and> length (format_ipv6 a) \<le> 65537 * (length a div 2)" for a
    using join_sep_text [of "map (hex_bytes \<circ> unat) (groups16 a)" 65536 "0x3A"] h
    by (simp add: format_ipv6_def length_groups16)
  show "from_utf8 (destination_text d)"
    using assms 4 6 by (cases d) (auto intro: from_utf8_ascii)
  show "length (destination_text d) < 2 ^ 32"
  proof (cases d)
    case (ToIPv4 a)
    then show ?thesis using assms 4 [of a] by simp
  next
    case (ToIPv6 a)
    then show ?thesis using assms 6 [of a] by simp
  qed (use assms in simp)
qed

lemma decode_encode_payload:
  assumes "from_utf8 h" and "length h < 2 ^ 32"
  shows "decode_open_connection_payload (be32 (of_nat (length h)) @ h @ be16 p @ rest) =
    Ok \<lparr>target_host = h, target_port = p\<rparr>"
proof -
  have u: "unat (of_nat (length h) :: u32) = length h" by (rule unat_of_nat_small(3)) (rule assms(2))
  show ?thesis
    unfolding decode_open_connection_payload_def
    using assms(1) by (simp add: codec_simps u Let_def get_be32 get_be16)
qed

lemma negotiate_auth_client:
  assumes "length methods < 256" and "writable s"
  shows "negotiate_auth (s\<lparr>unread := SOCKS5_VERSION # of_nat (length methods) # methods @ r\<rparr>) =
    (if 0 \<in> set methods
     then (Ok (), s\<lparr>unread := r, written := written s @ [5, 0]\<rparr>)
     else (Err NoSupportedMethod, s\<lparr>unread := r, written := written s @ [5, 0xFF]\<rparr>))"
proof -
  have "unat (of_nat (length methods) :: u8) = length methods" using assms(1) by (rule unat_small_byte)
  then show ?thesis
    using assms(2)
    by (simp add: negotiate_auth_def io_defs socks_consts Let_def)
qed

lemma read_address_client:
  assumes "destination_ok d"
  shows "\<exists>a. as_str a = destination_text d \<and>
    read_address (hd (destination_bytes d)) (s\<lparr>unread := tl (destination_bytes d) @ r\<rparr>) = (Ok a, s\<lparr>unread := r\<rparr>)"
proof (cases d)
  case (ToDomain n)
  with assms have "unat (of_nat (length n) :: u8) = length n" by (simp add: unat_small_byte)
  with ToDomain assms show ?thesis by (simp add: read_address_def io_defs socks_consts)
qed (use assms in \<open>simp_all add: read_address_def io_defs socks_consts\<close>)

lemma read_request_client:
  assumes "destination_ok d"
  shows "\<exists>a. as_str a = destination_text d \<and>
    read_request (s\<lparr>unread := [SOCKS5_VERSION, SOCKS5_CMD_CONNECT, 0] @ destination_bytes d @ be16 port @ r\<rparr>) =
      (Ok (Connect, a, port), s\<lparr>unread := r\<rparr>)"
proof -
  obtain a where a: "as_str a = destination_text d"
    "read_address (hd (destination_bytes d)) (s\<lparr>unread := tl (destination_bytes d) @ be16 port @ r\<rparr>) =
      (Ok a, s\<lparr>unread := be16 port @ r\<rparr>)"
    using read_address_client [OF assms, where s = s and r = "be16 port @ r"] by auto
  have c: "destination_bytes d = hd (destination_bytes d) # tl (destination_bytes d)" by (cases d) simp_all
  let ?b = "[SOCKS5_VERSION, SOCKS5_CMD_CONNECT, 0, hd (destination_bytes d)]"
  have e: "[SOCKS5_VERSION, SOCKS5_CMD_CONNECT, 0] @ destination_bytes d @ be16 port @ r =
      ?b @ tl (destination_bytes d) @ be16 port @ r"
    by (subst c) simp
  have "read_request (s\<lparr>unread := ?b @ tl (destination_bytes d) @ be16 port @ r\<rparr>) = (Ok (Connect, a, port), s\<lparr>unread := r\<rparr>)"
    unfolding read_request_def
    by (subst bind_read, simp)
       (simp add: bind_io_def a(2) read_exact_append codec_simps get_be16 [of port "[]", simplified] return_io_def)
  then show ?thesis unfolding e using a(1) by blast
qed

section \<open>What the server answers\<close>

text \<open>The bytes written for an outcome of the handshake.\<close>

fun answer_for :: "(socks5_address \<times> u16, socks_error) result \<Rightarrow> bytes set" where
  "answer_for (Ok _) = {[5, 0]}"
| "answer_for (Err (InvalidVersion v)) = {[5, 0xFF], [5, 0] @ error_response 1}"
| "answer_for (Err NoSupportedMethod) = {[5, 0xFF]}"
| "answer_for (Err (UnsupportedCommand c)) = {[5, 0] @ error_response 7}"
| "answer_for (Err (UnsupportedAddressType t)) = {[5, 0] @ error_response 8}"
| "answer_for (Err e) = {[], [5, 0]}"

lemma negotiate_answers:
  assumes "negotiate_auth s = (r, s')"
  shows "\<exists>w. written s' = written s @ w \<and>
    (case r of Ok _ \<Rightarrow> w = [5, 0] | Err e \<Rightarrow> (e = UnexpectedEof \<or> e = WriteFailed) \<and> w = [] \<or>
       (e = NoSupportedMethod \<or> (\<exists>v. e = InvalidVersion v \<and> v \<noteq> 5)) \<and> w = [5, 0xFF])"
proof -
  let ?r = "drop 2 (unread s)" and ?n = "unat (unread s ! 1)"
  consider "length (unread s) < 2" | "2 \<le> length (unread s)" "unread s ! 0 \<noteq> 5"
    | "2 \<le> length (unread s)" "unread s ! 0 = 5" "length ?r < ?n"
    | "2 \<le> length (unread s)" "unread s ! 0 = 5" "?n \<le> length ?r" "0 \<in> set (take ?n ?r)"
    | "2 \<le> length (unread s)" "unread s ! 0 = 5" "?n \<le> length ?r" "0 \<notin> set (take ?n ?r)"
    by linarith
  then show ?thesis
    by cases (use assms in \<open>cases "writable s"; fastforce simp: negotiate_auth_def io_defs socks_consts\<close>)+
qed

lemma read_address_answers:
  assumes "read_address t s = (r, s')"
  shows "\<exists>w. written s' = written s @ w \<and>
    (case r of Ok _ \<Rightarrow> w = [] | Err e \<Rightarrow> (e = UnexpectedEof \<or> e = WriteFailed \<or> e = InvalidUtf8) \<and> w = [] \<or>
       e = UnsupportedAddressType t \<and> w = error_response 8)"
  using assms
  by (auto simp: read_address_def io_defs send_error_reply_def split: if_splits result.splits prod.splits)

lemma read_request_answers:
  assumes "read_request s = (r, s')"
  shows "\<exists>w. written s' = written s @ w \<and>
    (case r of Ok _ \<Rightarrow> w = []
     | Err e \<Rightarrow> (e = UnexpectedEof \<or> e = WriteFailed \<or> e = InvalidUtf8) \<and> w = [] \<or>
         (\<exists>v. e = InvalidVersion v) \<and> w = error_response 1 \<or>
         (\<exists>c. e = UnsupportedCommand c) \<and> w = error_response 7 \<or>
         (\<exists>t. e = UnsupportedAddressType t) \<and> w = error_response 8)"
proof (cases "length (unread s) < 4")
  case True
  with assms show ?thesis by (auto simp: read_request_def io_defs)
next
  case False
  let ?b = "take 4 (unread s)" and ?s = "s\<lparr>unread := drop 4 (unread s)\<rparr>"
  show ?thesis
  proof (cases "?b ! 0 \<noteq> SOCKS5_VERSION \<or> ?b ! 1 \<noteq> SOCKS5_CMD_CONNECT")
    case True
    with False assms show ?thesis
      by (auto simp: read_request_def io_defs send_error_reply_def SOCKS5_FAIL_def split: if_splits)
  next
    case ok: False
    obtain a s1 where a: "read_address (?b ! 3) ?s = (a, s1)" by force
    have "(r, s') = (case a of Err e \<Rightarrow> (Err e, s1)
       | Ok addr \<Rightarrow> bind_io (read_exact 2) (\<lambda>p. return_io (Connect, addr, get_u16 p)) s1)"
      using assms ok False a by (cases a) (simp_all add: read_request_def bind_io_def read_exact_def)
    then show ?thesis
      using read_address_answers [OF a] by (auto simp: io_defs split: result.splits if_splits)
  qed
qed



text \<open>
  Whatever the client sends, the handshake answers as its outcome says: the confirmed
  method alone when it succeeds, one refusal with the code of the failure otherwise; only an end of
  input, a failed write and a domain that is not UTF-8 leave the client without a refusal.\<close>

lemma handshake_answers:
  "let (r, s') = handshake s in \<exists>w \<in> answer_for r. written s' = written s @ w"
proof -
  obtain r1 s1 where n: "negotiate_auth s = (r1, s1)" by force
  obtain r2 s2 where q: "read_request s1 = (r2, s2)" by force
  have "handshake s = (case r1 of Err e \<Rightarrow> (Err e, s1)
      | Ok _ \<Rightarrow> (case r2 of Err e \<Rightarrow> (Err e, s2) | Ok (c, a, p) \<Rightarrow> (Ok (a, p), s2)))"
    by (simp add: handshake_def bind_io_def n q return_io_def split: result.split prod.split)
  with negotiate_answers [OF n] read_request_answers [OF q] show ?thesis
    by (cases r1; cases r2) auto
qed

end
