(* ===== verification/Network_Access.thy ===== *)
theory Network_Access
  imports Socks5 "HOL-Library.AList"
begin

text \<open>
  The destination filter of SOCKS5 tunnels: \<open>NetworkAccessChecker\<close> of
  \<open>keeper-pam-webrtc-rs/src/models.rs\<close>, and the part of \<open>handle_open_connection\<close> that asks it and picks
  the address to connect to. The \<open>ipnet\<close> crate and the parser of addresses are parameters, gathered in
  a record, and so is the answer of the resolver. The cache is an association list with distinct keys;
  instants are milliseconds.
\<close>

section \<open>The checker\<close>

datatype ip_addr = V4 u32 | V6 "128 word"

record 'net net_lib =
  parse_net :: "bytes \<Rightarrow> 'net option"
  parse_ip :: "bytes \<Rightarrow> ip_addr option"
  net_of :: "ip_addr \<Rightarrow> nat \<Rightarrow> 'net"
  net_contains :: "'net \<Rightarrow> ip_addr \<Rightarrow> bool"

type_synonym dns = "bytes \<Rightarrow> ip_addr list option"

record 'net access_checker =
  allowed_networks :: "'net list"
  allowed_hostnames :: "bytes list"
  allowed_wildcards :: "bytes list"
  allowed_ports :: "u16 list"
  dns_cache :: "(bytes \<times> ip_addr list \<times> nat) list"
  dns_cache_ttl :: nat

fun is_unspecified :: "ip_addr \<Rightarrow> bool" where
  "is_unspecified (V4 a) \<longleftrightarrow> a = 0"
| "is_unspecified (V6 a) \<longleftrightarrow> a = 0"

fun host_prefix :: "ip_addr \<Rightarrow> nat" where
  "host_prefix (V4 a) = 32"
| "host_prefix (V6 a) = 128"

text \<open>One rule of the configuration, in the code's order of tests.\<close>

definition add_rule :: "'net net_lib \<Rightarrow> bytes \<Rightarrow> 'net access_checker \<Rightarrow> 'net access_checker" where
  "add_rule lib host c =
     (if take 2 host = [0x2A, 0x2E]
      then c\<lparr>allowed_wildcards := allowed_wildcards c @ [drop 1 host]\<rparr>
      else case parse_net lib host of
             Some net \<Rightarrow> c\<lparr>allowed_networks := allowed_networks c @ [net]\<rparr>
           | None \<Rightarrow>
        (case parse_ip lib host of
           Some ip \<Rightarrow>
             c\<lparr>allowed_networks := allowed_networks c @
                 [net_of lib ip (if is_unspecified ip then 0 else host_prefix ip)]\<rparr>
         | None \<Rightarrow> c\<lparr>allowed_hostnames := allowed_hostnames c @ [host]\<rparr>))"

definition new_checker :: "'net net_lib \<Rightarrow> bytes list \<Rightarrow> u16 list \<Rightarrow> 'net access_checker" where
  "new_checker lib hosts ports =
     fold (add_rule lib) hosts
       \<lparr>allowed_networks = [], allowed_hostnames = [], allowed_wildcards = [],
        allowed_ports = sort ports, dns_cache = [], dns_cache_ttl = 300000\<rparr>"

definition is_ip_allowed_fast :: "'net net_lib \<Rightarrow> 'net access_checker \<Rightarrow> ip_addr \<Rightarrow> bool" where
  "is_ip_allowed_fast lib c ip \<longleftrightarrow> (\<exists>net \<in> set (allowed_networks c). net_contains lib net ip)"

text \<open>The binary search of slices: \<open>width\<close> candidates from \<open>base\<close> on.\<close>

function search_ports :: "u16 \<Rightarrow> u16 list \<Rightarrow> nat \<Rightarrow> nat \<Rightarrow> nat" where
  "search_ports p xs base width =
     (if width \<le> 1 then base
      else let half = width div 2
           in search_ports p xs (if xs ! (base + half) > p then base else base + half) (width - half))"
  by pat_completeness auto
termination by (relation "measure (\<lambda>(p, xs, base, width). width)") auto

declare search_ports.simps [simp del]

definition binary_search_ok :: "u16 list \<Rightarrow> u16 \<Rightarrow> bool" where
  "binary_search_ok xs p \<longleftrightarrow> xs \<noteq> [] \<and> xs ! search_ports p xs 0 (length xs) = p"

definition is_port_allowed :: "'net access_checker \<Rightarrow> u16 \<Rightarrow> bool" where
  "is_port_allowed c p \<longleftrightarrow> allowed_ports c = [] \<or> binary_search_ok (allowed_ports c) p"

definition ends_with :: "bytes \<Rightarrow> bytes \<Rightarrow> bool" where
  "ends_with s suffix \<longleftrightarrow> length suffix \<le> length s \<and> drop (length s - length suffix) s = suffix"

definition store_dns :: "nat \<Rightarrow> bytes \<Rightarrow> ip_addr list \<Rightarrow> 'net access_checker \<Rightarrow> 'net access_checker" where
  "store_dns now name ips c =
     (let cache = AList.update name (ips, now + dns_cache_ttl c) (dns_cache c)
      in c\<lparr>dns_cache := (if length cache > 1000 then filter (\<lambda>(_, _, expires). expires > now) cache
                         else cache)\<rparr>)"

definition resolve_if_allowed ::
  "'net net_lib \<Rightarrow> dns \<Rightarrow> nat \<Rightarrow> bytes \<Rightarrow> 'net access_checker \<Rightarrow> ip_addr list option \<times> 'net access_checker" where
  "resolve_if_allowed lib dns now name c =
     (if allowed_networks c = [] \<and> allowed_hostnames c = [] \<and> allowed_wildcards c = [] then (dns name, c)
      else if name \<in> set (allowed_hostnames c) then (dns name, c)
      else if \<exists>w \<in> set (allowed_wildcards c). ends_with name w then (dns name, c)
      else case parse_ip lib name of
             Some ip \<Rightarrow> ((if is_ip_allowed_fast lib c ip then Some [ip] else None), c)
           | None \<Rightarrow>
        (if allowed_networks c = [] then (None, c)
         else let fresh = (case dns name of
                             None \<Rightarrow> (None, c)
                           | Some ips \<Rightarrow>
                               ((if \<exists>ip \<in> set ips. is_ip_allowed_fast lib c ip then Some ips else None),
                                store_dns now name ips c))
              in case map_of (dns_cache c) name of
                   Some (ips, expires) \<Rightarrow>
                     (if expires > now
                      then ((if \<exists>ip \<in> set ips. is_ip_allowed_fast lib c ip then Some ips else None), c)
                      else fresh)
                 | None \<Rightarrow> fresh))"

section \<open>The destination of a SOCKS5 OpenConnection\<close>

datatype access_error = DestinationNotAllowed | PortNotAllowed | EmptyAddressList

definition socks5_destination ::
  "'net net_lib \<Rightarrow> dns \<Rightarrow> nat \<Rightarrow> socks5_target \<Rightarrow> 'net access_checker \<Rightarrow>
     (ip_addr \<times> u16, access_error) result \<times> 'net access_checker" where
  "socks5_destination lib dns now t c =
     (case resolve_if_allowed lib dns now (target_host t) c of
        (None, c') \<Rightarrow> (Err DestinationNotAllowed, c')
      | (Some ips, c') \<Rightarrow>
          ((if \<not> is_port_allowed c (target_port t) then Err PortNotAllowed
            else case ips of ip # _ \<Rightarrow> Ok (ip, target_port t) | [] \<Rightarrow> Err EmptyAddressList), c'))"

section \<open>Lemmas\<close>

text \<open>The searched port is never to the right of the candidates, and \<open>base\<close> never beyond it.\<close>

lemma search_ports_spec:
  assumes "sorted xs" and "base + width \<le> length xs" and "0 < width"
    and "base = 0 \<or> xs ! base \<le> p" and "\<forall>i. base + width \<le> i \<and> i < length xs \<longrightarrow> p < xs ! i"
  shows "search_ports p xs base width < length xs \<and>
    (p \<in> set xs \<longrightarrow> xs ! search_ports p xs base width = p)"
  using assms
proof (induction p xs base width rule: search_ports.induct)
  case (1 p xs base width)
  show ?case
  proof (cases "width \<le> 1")
    case True
    with "1.prems"(3) have w: "width = 1" by simp
    have "xs ! base = p" if "p \<in> set xs"
    proof -
      from that obtain k where k: "k < length xs" "xs ! k = p" by (auto simp: in_set_conv_nth)
      have "\<not> base + width \<le> k" using "1.prems"(5) k by blast
      then have "k \<le> base" using w by simp
      moreover from this have "p \<le> xs ! base"
        using sorted_nth_mono [OF "1.prems"(1), of k base] k "1.prems"(2) w by simp
      ultimately show ?thesis using "1.prems"(4) k by auto
    qed
    moreover have "search_ports p xs base width = base" by (subst search_ports.simps) (simp add: w)
    ultimately show ?thesis using "1.prems"(2) w by simp
  next
    case False
    define half where "half = width div 2"
    define b where "b = (if p < xs ! (base + half) then base else base + half)"
    have h: "0 < half" "half < width" using False by (simp_all add: half_def)
    have "p < xs ! i" if "b + (width - half) \<le> i" "i < length xs" for i
    proof (cases "p < xs ! (base + half)")
      case True
      then have "base + half \<le> i" using that(1) h by (simp add: b_def half_def)
      with True sorted_nth_mono [OF "1.prems"(1) _ that(2)] show ?thesis by fastforce
    next
      case False
      with that "1.prems"(5) h show ?thesis by (simp add: b_def)
    qed
    then have right: "\<forall>i. b + (width - half) \<le> i \<and> i < length xs \<longrightarrow> p < xs ! i" by blast
    have left: "b = 0 \<or> xs ! b \<le> p" using "1.prems"(4) by (auto simp: b_def)
    have "b + (width - half) \<le> length xs" "0 < width - half" using "1.prems"(2) h by (auto simp: b_def)
    then have "search_ports p xs b (width - half) < length xs \<and>
        (p \<in> set xs \<longrightarrow> xs ! search_ports p xs b (width - half) = p)"
      using "1.IH" [OF False half_def, folded b_def] "1.prems"(1) left right by blast
    moreover have "search_ports p xs base width = search_ports p xs b (width - half)"
      using False by (subst search_ports.simps) (simp add: half_def b_def Let_def)
    ultimately show ?thesis by simp
  qed
qed

lemma binary_search_sorted: "sorted xs \<Longrightarrow> binary_search_ok xs p \<longleftrightarrow> p \<in> set xs"
proof (cases "xs = []")
  case False
  assume "sorted xs"
  moreover have "\<forall>i. 0 + length xs \<le> i \<and> i < length xs \<longrightarrow> p < xs ! i" by (metis add_0 leD)
  ultimately show ?thesis
    using search_ports_spec [of xs 0 "length xs" p] False
    by (fastforce simp: binary_search_ok_def dest: nth_mem)
qed (simp add: binary_search_ok_def)

text \<open>What a configured checker's lists are.\<close>

lemma add_rule_keeps [simp]:
  "allowed_ports (add_rule lib h c) = allowed_ports c"
  "dns_cache (add_rule lib h c) = dns_cache c"
  "dns_cache_ttl (add_rule lib h c) = dns_cache_ttl c"
  by (simp_all add: add_rule_def split: option.split)

lemma fold_add_rule_keeps [simp]:
  "allowed_ports (fold (add_rule lib) hs c) = allowed_ports c"
  by (induction hs arbitrary: c) simp_all

lemma new_checker_ports: "is_port_allowed (new_checker lib hosts ports) p \<longleftrightarrow> ports = [] \<or> p \<in> set ports"
proof -
  have "sort ports = [] \<longleftrightarrow> ports = []" by (metis set_empty set_sort)
  then show ?thesis by (simp add: is_port_allowed_def new_checker_def binary_search_sorted)
qed

lemma resolve_keeps_rules:
  assumes "resolve_if_allowed lib dns now name c = (r, c')"
  shows "allowed_networks c' = allowed_networks c \<and> allowed_hostnames c' = allowed_hostnames c \<and>
    allowed_wildcards c' = allowed_wildcards c \<and> allowed_ports c' = allowed_ports c"
  using assms
  by (auto simp: resolve_if_allowed_def store_dns_def Let_def split: if_splits option.splits prod.splits)

text \<open>The rule under which a name is admitted.\<close>

definition admitted_by_rule :: "'net net_lib \<Rightarrow> 'net access_checker \<Rightarrow> bytes \<Rightarrow> ip_addr list \<Rightarrow> bool" where
  "admitted_by_rule lib c name ips \<longleftrightarrow>
     (allowed_networks c = [] \<and> allowed_hostnames c = [] \<and> allowed_wildcards c = []) \<or>
     name \<in> set (allowed_hostnames c) \<or>
     (\<exists>w \<in> set (allowed_wildcards c). ends_with name w) \<or>
     (\<exists>ip \<in> set ips. is_ip_allowed_fast lib c ip)"

lemma resolve_admitted:
  assumes "resolve_if_allowed lib dns now name c = (Some ips, c')"
  shows "admitted_by_rule lib c name ips"
  using assms
  by (auto simp: resolve_if_allowed_def admitted_by_rule_def Let_def split: if_splits option.splits prod.splits)

text \<open>Requests one after the other, each with the resolver's answers and the time it is made at.\<close>

definition after_requests ::
  "'net net_lib \<Rightarrow> (dns \<times> nat \<times> socks5_target) list \<Rightarrow> 'net access_checker \<Rightarrow> 'net access_checker" where
  "after_requests lib = fold (\<lambda>(dns, now, t) c. snd (socks5_destination lib dns now t c))"

lemma socks5_destination_snd:
  "snd (socks5_destination lib dns now t c) = snd (resolve_if_allowed lib dns now (target_host t) c)"
  by (simp add: socks5_destination_def split: prod.split option.split)

lemma after_requests_keeps:
  "allowed_networks (after_requests lib rs c) = allowed_networks c \<and>
   allowed_hostnames (after_requests lib rs c) = allowed_hostnames c \<and>
   allowed_wildcards (after_requests lib rs c) = allowed_wildcards c \<and>
   allowed_ports (after_requests lib rs c) = allowed_ports c"
proof (induction rs arbitrary: c)
  case (Cons r rs)
  obtain dns now t where r: "r = (dns, now, t)" by (cases r)
  let ?c' = "snd (resolve_if_allowed lib dns now (target_host t) c)"
  have step: "after_requests lib (r # rs) c = after_requests lib rs ?c'"
    by (simp add: after_requests_def r socks5_destination_snd)
  show ?case
    using Cons [of ?c'] resolve_keeps_rules [OF surjective_pairing, of lib dns now "target_host t" c]
    unfolding step by metis
qed (simp add: after_requests_def)

section \<open>Properties\<close>


text \<open>A library of one's own for the witnesses: networks are lists of addresses, nothing parses but one name.\<close>

definition list_lib :: "ip_addr list net_lib" where
  "list_lib = \<lparr>parse_net = (\<lambda>h. if h = [1] then Some [V4 10] else None), parse_ip = (\<lambda>h. None),
     net_of = (\<lambda>ip n. [ip]), net_contains = (\<lambda>net ip. ip \<in> set net)\<rparr>"


text \<open>
  The test of the addresses a name resolves to does not cover the address that is used:
  when a name resolves to an address outside every configured network and then to one inside, the
  connection goes to the one outside.\<close>

lemma first_address_unchecked:
  assumes "parse_ip lib (target_host t) = None" and "target_host t \<notin> set (allowed_hostnames c)"
    and "\<forall>w \<in> set (allowed_wildcards c). \<not> ends_with (target_host t) w"
    and "dns_cache c = []" and "is_port_allowed c (target_port t)"
    and "dns (target_host t) = Some [outside, inside]"
    and "is_ip_allowed_fast lib c inside" and "\<not> is_ip_allowed_fast lib c outside"
  shows "fst (socks5_destination lib dns now t c) = Ok (outside, target_port t) \<and>
    (\<forall>net \<in> set (allowed_networks c). \<not> net_contains lib net outside)"
proof -
  have "allowed_networks c \<noteq> []" using assms(7) by (auto simp: is_ip_allowed_fast_def)
  then have "fst (resolve_if_allowed lib dns now (target_host t) c) = Some [outside, inside]"
    using assms by (simp add: resolve_if_allowed_def)
  then show ?thesis
    using assms(5,8) by (auto simp: socks5_destination_def is_ip_allowed_fast_def split: prod.split)
qed

end
