(* ===== verification/Channel_Control.thy ===== *)
theory Channel_Control
  imports Network_Access Guac_Streaming
begin

text \<open>
  The control plane of a channel: the map of connections with their life cycle, every handler of
  \<open>process_control_message\<close> (\<open>channel/protocol.rs\<close>), the closing paths, the keep-alive and the exit
  signals of the run loop (\<open>channel/core.rs\<close>, \<open>channel/utils.rs\<close>), the data path of
  \<open>channel/frame_handling.rs\<close> and \<open>open_backend\<close> (\<open>channel/connections.rs\<close>).

  A handler is a function on the channel. What happens outside is an argument: the answers of the
  resolver, the TCP connect and the backend's handshake, the decryption of a ConnectAs payload, the
  built-in protocol handlers, the metrics collector and the texts of errors. Frames sent over WebRTC
  and messages to the Python handler are recorded in order; so are the connections that were shut
  down, with all they had queued. A handler is one step: what other tasks do while it sleeps is put
  before or after it. Delayed removals carry the millisecond they are due at.
\<close>

section \<open>State\<close>

datatype connection_message = Data bytes | Eof

definition CONN_STATE_ACTIVE :: u8 where "CONN_STATE_ACTIVE = 0"
definition CONN_STATE_CLOSING :: u8 where "CONN_STATE_CLOSING = 1"
definition CONN_STATE_CLOSED :: u8 where "CONN_STATE_CLOSED = 2"

lemmas conn_state_defs = CONN_STATE_ACTIVE_def CONN_STATE_CLOSING_def CONN_STATE_CLOSED_def

record conn =
  conn_state :: u8
  backend_alive :: bool
  backend_queue :: "connection_message list"
  read_cancelled :: bool
  generation :: u64

text \<open>A built-in handler: whether it still receives, and what it was sent.\<close>

record handler =
  handler_alive :: bool
  handler_queue :: "bytes list"

datatype wire = ControlFrame control_message bytes | DataFrame u32 bytes

datatype python_message =
  PyConnectionOpened u32 | PyData u32 bytes | PyConnectionClosed u32 close_reason

record connect_as_settings =
  allow_supply_user :: bool
  allow_supply_host :: bool
  gateway_private_key :: "bytes option"

record 'net control =
  base :: channel
  server_mode :: bool
  server_running :: bool
  conns :: "u32 \<rightharpoonup> conn"
  conn_generations :: "u32 \<Rightarrow> u64"
  handler_senders :: "u32 \<rightharpoonup> handler"
  primary_guacd_conn_no :: "u32 option"
  ping_attempt :: u32
  is_connected :: bool
  channel_ping_sent_time :: "u64 option"
  tunnel_protocol :: "tunnel_protocol option"
  network_checker :: "'net access_checker option"
  connect_as :: connect_as_settings
  guacd_host :: "bytes option"
  guacd_port :: "u16 option"
  guacd_params :: "string \<rightharpoonup> bytes"
  has_builtin_handlers :: bool
  \<comment> \<open>the target, when \<open>protocol_state\<close> is \<open>PortForward\<close>\<close>
  forward_target :: "(bytes option \<times> u16 option) option"
  proxy_host :: "bytes option"
  proxy_port :: "u16 option"
  python_alive :: bool
  python_inbox :: "python_message list"
  webrtc_open :: bool
  sent :: "wire list"
  removals :: "(nat \<times> u32) list"
  shut_down :: "(u32 \<times> conn) list"

datatype channel_error =
  TooShort | Malformed | UnknownControl u16 | SendFailed | ConnectAsFailed | ConnectAsTooShort
| HandlerNotStarted | PayloadInvalid socks_error | PortDenied | BackendDead u32 | HandlerClosed u32
| PythonClosed | PythonMissing | PingTimeout

type_synonym 'net step = "'net control \<Rightarrow> (unit, channel_error) result \<times> 'net control"

text \<open>Why a backend was not opened; \<open>error_text\<close> is the text of the reason.\<close>

datatype open_error =
  HostNotResolved | LookupFailed bytes | TargetNotConfigured | WrongProtocolState
| ConnectFailed bytes | HandshakeFailed bytes | HandshakeTimedOut
| DestinationDenied | NoAddresses | CheckerMissing | ProtocolMissing | NotSupportedHere

record connect_as_user =
  ca_username :: "bytes option"
  ca_password :: "bytes option"
  ca_private_key :: "bytes option"
  ca_private_key_passphrase :: "bytes option"
  ca_passphrase :: "bytes option"
  ca_domain :: "bytes option"
  ca_connect_database :: "bytes option"
  ca_distinguished_name :: "bytes option"

record connect_as_payload =
  ca_user :: "connect_as_user option"
  ca_host :: "bytes option"
  ca_port :: "u16 option"

text \<open>What the world answers while an OpenConnection is handled.\<close>

record 'net open_env =
  lib :: "'net net_lib"
  dns_answers :: dns
  lookup_host :: "bytes \<Rightarrow> u16 \<Rightarrow> ((ip_addr \<times> u16) list, bytes) result"
  tcp_connect :: "ip_addr \<times> u16 \<Rightarrow> (unit, bytes) result"
  \<comment> \<open>the handshake with guacd or the database proxy; \<open>None\<close> when it timed out\<close>
  backend_handshake :: "(unit, bytes) result option"
  decrypt_connect_as :: "bytes \<Rightarrow> bytes \<Rightarrow> bytes \<Rightarrow> bytes \<Rightarrow> connect_as_payload option"
  builtin_starts :: bool
  error_text :: "open_error \<Rightarrow> bytes"
  reuse_text :: "u32 \<Rightarrow> u8 \<Rightarrow> bytes"
  aggregated_metrics :: bytes
  live_stats :: "u32 \<Rightarrow> bytes option"
  system_stats :: bytes

section \<open>Sending\<close>

definition send_wire :: "wire \<Rightarrow> 'net control \<Rightarrow> bool \<times> 'net control" where
  "send_wire w c = (if webrtc_open c then (True, c\<lparr>sent := sent c @ [w]\<rparr>) else (False, c))"

definition send_control_message :: "u64 \<Rightarrow> control_message \<Rightarrow> bytes \<Rightarrow> 'net step" where
  "send_control_message now msg dat c =
     (let c1 = (if msg = Ping \<and> (length dat \<ge> 4 \<and> get_u32 dat = 0 \<or> dat = [])
                then c\<lparr>channel_ping_sent_time := Some now\<rparr> else c)
      in case send_wire (ControlFrame msg dat) c1 of
           (ok, c2) \<Rightarrow> ((if ok then Ok () else Err SendFailed), c2))"

definition notify_python :: "python_message \<Rightarrow> 'net control \<Rightarrow> bool \<times> 'net control" where
  "notify_python msg c =
     (if python_alive c then (True, c\<lparr>python_inbox := python_inbox c @ [msg]\<rparr>) else (False, c))"

text \<open>\<open>data_tx.send\<close> of a connection, which fails once its task is gone.\<close>

definition queue_backend :: "u32 \<Rightarrow> connection_message \<Rightarrow> 'net control \<Rightarrow> bool \<times> 'net control" where
  "queue_backend n msg c =
     (case conns c n of
        Some k \<Rightarrow>
          (if backend_alive k
           then (True, c\<lparr>conns := (conns c)(n \<mapsto> k\<lparr>backend_queue := backend_queue k @ [msg]\<rparr>)\<rparr>)
           else (False, c))
      | None \<Rightarrow> (False, c))"

section \<open>Closing\<close>

definition mark_closing :: "u32 \<Rightarrow> 'net control \<Rightarrow> 'net control" where
  "mark_closing n c =
     (case conns c n of
        Some k \<Rightarrow> c\<lparr>conns := (conns c)(n \<mapsto> k\<lparr>conn_state := CONN_STATE_CLOSING\<rparr>)\<rparr>
      | None \<Rightarrow> c)"

definition cancel_read :: "u32 \<Rightarrow> 'net control \<Rightarrow> 'net control" where
  "cancel_read n c =
     (case conns c n of
        Some k \<Rightarrow> c\<lparr>conns := (conns c)(n \<mapsto> k\<lparr>read_cancelled := True\<rparr>)\<rparr>
      | None \<Rightarrow> c)"

text \<open>Removal from the map and \<open>graceful_shutdown\<close>.\<close>

definition remove_conn :: "u32 \<Rightarrow> 'net control \<Rightarrow> 'net control" where
  "remove_conn n c =
     (case conns c n of
        Some k \<Rightarrow> c\<lparr>conns := (conns c)(n := None), shut_down := shut_down c @ [(n, k)]\<rparr>
      | None \<Rightarrow> c)"

definition REMOVAL_DELAY :: nat where "REMOVAL_DELAY = 500"

definition schedule_removal :: "nat \<Rightarrow> u32 \<Rightarrow> 'net control \<Rightarrow> 'net control" where
  "schedule_removal now n c = c\<lparr>removals := removals c @ [(now + REMOVAL_DELAY, n)]\<rparr>"

text \<open>The removals that are due, in the order they were scheduled in.\<close>

definition fire_removals :: "nat \<Rightarrow> 'net control \<Rightarrow> 'net control" where
  "fire_removals now c =
     fold remove_conn (map snd (filter (\<lambda>(due, _). due \<le> now) (removals c)))
       (c\<lparr>removals := filter (\<lambda>(due, _). now < due) (removals c)\<rparr>)"

definition stop_server :: "'net control \<Rightarrow> 'net control" where
  "stop_server c = c\<lparr>server_running := False\<rparr>"

definition internal_handle_connection_close :: "u32 \<Rightarrow> close_reason \<Rightarrow> 'net control \<Rightarrow> 'net control" where
  "internal_handle_connection_close n r c =
     (let c1 = (if server_mode c \<and> (n = 0 \<or> r = UpstreamClosed \<or> r = Error) \<and> server_running c
                then stop_server c else c);
          c2 = (if active_protocol (base c1) = Guacd \<and> primary_guacd_conn_no c1 = Some n
                then c1\<lparr>primary_guacd_conn_no := None\<rparr> else c1)
      in c2\<lparr>handler_senders := (handler_senders c2)(n := None)\<rparr>)"

definition log_instruction :: "close_reason \<Rightarrow> bytes" where
  "log_instruction r =
     encode_instruction \<lparr>opcode = map of_char ''log'', args = [map of_char (to_message r)]\<rparr>"

definition disconnect_instruction :: bytes where
  "disconnect_instruction = encode_instruction \<lparr>opcode = map of_char ''disconnect'', args = []\<rparr>"

text \<open>The log and disconnect instructions, to guacd with an end of file behind them and to the client.\<close>

definition send_guacd_disconnect_message :: "u32 \<Rightarrow> close_reason \<Rightarrow> bool \<Rightarrow> 'net control \<Rightarrow> 'net control" where
  "send_guacd_disconnect_message n r is_primary c =
     (if active_protocol (base c) \<noteq> Guacd \<or> \<not> is_primary then c
      else let c1 = snd (queue_backend n (Data (log_instruction r)) c);
               c2 = snd (queue_backend n (Data disconnect_instruction) c1);
               c3 = snd (queue_backend n Eof c2);
               c4 = snd (send_wire (DataFrame n (log_instruction r)) c3)
           in snd (send_wire (DataFrame n disconnect_instruction) c4))"

definition exit_if_control :: "u32 \<Rightarrow> 'net control \<Rightarrow> 'net control" where
  "exit_if_control n c = (if n = 0 then c\<lparr>base := (base c)\<lparr>should_exit := True\<rparr>\<rparr> else c)"

definition is_primary_guacd :: "u32 \<Rightarrow> 'net control \<Rightarrow> bool" where
  "is_primary_guacd n c \<longleftrightarrow> active_protocol (base c) = Guacd \<and> primary_guacd_conn_no c = Some n"

definition removal_delayed :: "u32 \<Rightarrow> close_reason \<Rightarrow> bool" where
  "removal_delayed n r \<longleftrightarrow> n \<noteq> 0 \<and> r \<noteq> Normal"

definition close_backend ::
  "nat \<Rightarrow> u32 \<Rightarrow> close_reason \<Rightarrow> bytes option \<Rightarrow> 'net control \<Rightarrow> 'net control" where
  "close_backend now n r msg c =
     (let c1 = internal_handle_connection_close n r (mark_closing n c);
          c2 = snd (send_control_message (of_nat now) CloseConnection (close_message n r msg) c1);
          c3 = (if \<not> removal_delayed n r
                then let c' = send_guacd_disconnect_message n r (is_primary_guacd n c2) c2
                     in remove_conn n (if active_protocol (base c') = Guacd then c' else cancel_read n c')
                else schedule_removal now n (cancel_read n c2))
      in exit_if_control n c3)"

definition internal_close_backend_no_message :: "nat \<Rightarrow> u32 \<Rightarrow> close_reason \<Rightarrow> 'net control \<Rightarrow> 'net control" where
  "internal_close_backend_no_message now n r c =
     (let primary = is_primary_guacd n c;
          c1 = mark_closing n c;
          c2 = (if \<not> removal_delayed n r \<and> primary then send_guacd_disconnect_message n r primary c1 else c1);
          c3 = internal_handle_connection_close n r c2;
          c4 = (if \<not> removal_delayed n r then remove_conn n c3
                else schedule_removal now n (cancel_read n c3))
      in exit_if_control n c4)"

section \<open>Opening a connection\<close>

definition CONNECT_AS_DETAILS_LEN_FIELD_BYTES :: nat where "CONNECT_AS_DETAILS_LEN_FIELD_BYTES = 4"
definition CONNECT_AS_PUBLIC_KEY_BYTES :: nat where "CONNECT_AS_PUBLIC_KEY_BYTES = 65"
definition CONNECT_AS_NONCE_BYTES :: nat where "CONNECT_AS_NONCE_BYTES = 12"

lemmas connect_as_consts =
  CONNECT_AS_DETAILS_LEN_FIELD_BYTES_def CONNECT_AS_PUBLIC_KEY_BYTES_def CONNECT_AS_NONCE_BYTES_def

definition set_param :: "string \<Rightarrow> bytes option \<Rightarrow> (string \<rightharpoonup> bytes) \<Rightarrow> (string \<rightharpoonup> bytes)" where
  "set_param k v m = (case v of Some x \<Rightarrow> m(k \<mapsto> x) | None \<Rightarrow> m)"

text \<open>The inserts in the code's order: a passphrase overrides that of the private key.\<close>

definition apply_user :: "connect_as_user \<Rightarrow> (string \<rightharpoonup> bytes) \<Rightarrow> (string \<rightharpoonup> bytes)" where
  "apply_user u m =
     set_param ''distinguishedname'' (ca_distinguished_name u)
       (set_param ''connectdatabase'' (ca_connect_database u)
         (set_param ''domain'' (ca_domain u)
           (set_param ''passphrase'' (ca_passphrase u)
             (set_param ''passphrase'' (ca_private_key_passphrase u)
               (set_param ''privatekey'' (ca_private_key u)
                 (set_param ''password'' (ca_password u)
                   (set_param ''username'' (ca_username u) m)))))))"

definition or_else :: "'a option \<Rightarrow> 'a option \<Rightarrow> 'a option" where
  "or_else a b = (case a of Some x \<Rightarrow> Some x | None \<Rightarrow> b)"

text \<open>
  The ConnectAs block: the effective guacd host and port, and the channel with the parameters the
  payload supplies. \<open>rest\<close> is what follows the connection number.
\<close>

definition connect_as_step ::
  "'net open_env \<Rightarrow> bytes \<Rightarrow> 'net control \<Rightarrow>
     (bytes option \<times> u16 option, channel_error) result \<times> 'net control" where
  "connect_as_step env rest c =
     (let cfg = connect_as c; keep = (Ok (guacd_host c, guacd_port c), c)
      in if \<not> (active_protocol (base c) = Guacd \<and> (allow_supply_user cfg \<or> allow_supply_host cfg)) then keep
         else case gateway_private_key cfg of
                None \<Rightarrow> keep
              | Some pem \<Rightarrow>
           (if length rest \<ge> CONNECT_AS_DETAILS_LEN_FIELD_BYTES
            then let payload_len = unat (get_u32 rest); rest1 = drop 4 rest;
                     required = CONNECT_AS_PUBLIC_KEY_BYTES + CONNECT_AS_NONCE_BYTES + payload_len
                 in if length rest1 \<ge> required
                    then let block = take required rest1
                         in case decrypt_connect_as env pem
                                   (take CONNECT_AS_PUBLIC_KEY_BYTES block)
                                   (take CONNECT_AS_NONCE_BYTES (drop CONNECT_AS_PUBLIC_KEY_BYTES block))
                                   (drop (CONNECT_AS_PUBLIC_KEY_BYTES + CONNECT_AS_NONCE_BYTES) block) of
                              None \<Rightarrow> (Err ConnectAsFailed, c)
                            | Some p \<Rightarrow>
                                (let c1 = (case ca_user p of
                                             Some u \<Rightarrow> c\<lparr>guacd_params := apply_user u (guacd_params c)\<rparr>
                                           | None \<Rightarrow> c)
                                 in if allow_supply_host cfg
                                    then (Ok (or_else (ca_host p) (guacd_host c), or_else (ca_port p) (guacd_port c)), c1)
                                    else (Ok (guacd_host c, guacd_port c), c1))
                    else (Err ConnectAsTooShort, c)
            else if rest \<noteq> [] then (Err ConnectAsTooShort, c) else keep))"

definition register_conn :: "u32 \<Rightarrow> 'net control \<Rightarrow> 'net control" where
  "register_conn n c =
     (let k = \<lparr>conn_state = CONN_STATE_ACTIVE, backend_alive = True, backend_queue = [],
               read_cancelled = False, generation = conn_generations c n\<rparr>
      in c\<lparr>conn_generations := (conn_generations c)(n := conn_generations c n + 1),
           conns := (conns c)(n \<mapsto> k)\<rparr>)"

text \<open>The handshake of \<open>setup_outbound_task\<close> reports its own failure to the peer.\<close>

definition setup_outbound_task ::
  "'net open_env \<Rightarrow> nat \<Rightarrow> u32 \<Rightarrow> active_protocol \<Rightarrow> 'net control \<Rightarrow> (unit, open_error) result \<times> 'net control" where
  "setup_outbound_task env now n proto c =
     (if proto = Guacd \<or> proto = DatabaseProxy
      then let report = (\<lambda>e. (Err e,
                 snd (send_wire (ControlFrame CloseConnection
                       (close_message n (if proto = Guacd then GuacdError else ProxyError) (Some (error_text env e)))) c)))
           in case backend_handshake env of
                Some (Ok _) \<Rightarrow> (Ok (), register_conn n c)
              | Some (Err t) \<Rightarrow> report (HandshakeFailed t)
              | None \<Rightarrow> report HandshakeTimedOut
      else (Ok (), register_conn n c))"

definition open_backend ::
  "'net open_env \<Rightarrow> nat \<Rightarrow> u32 \<Rightarrow> ip_addr \<times> u16 \<Rightarrow> active_protocol \<Rightarrow> 'net control \<Rightarrow>
     (unit, open_error) result \<times> 'net control" where
  "open_backend env now n addr proto c =
     (if conns c n \<noteq> None then (Ok (), c)
      else let c1 = (if proto = Guacd \<and> primary_guacd_conn_no c = None
                     then c\<lparr>primary_guacd_conn_no := Some n\<rparr> else c)
           in case tcp_connect env addr of
                Err t \<Rightarrow> (Err (ConnectFailed t), c1)
              | Ok _ \<Rightarrow> setup_outbound_task env now n proto c1)"

text \<open>Look the host up and open the first address.\<close>

definition open_host ::
  "'net open_env \<Rightarrow> nat \<Rightarrow> u32 \<Rightarrow> bytes option \<Rightarrow> u16 option \<Rightarrow> active_protocol \<Rightarrow> 'net control \<Rightarrow>
     (unit, open_error) result \<times> 'net control" where
  "open_host env now n host port proto c =
     (case (host, port) of
        (Some h, Some p) \<Rightarrow>
          (case lookup_host env h p of
             Err t \<Rightarrow> (Err (LookupFailed t), c)
           | Ok [] \<Rightarrow> (Err HostNotResolved, c)
           | Ok (a # _) \<Rightarrow> open_backend env now n a proto c)
      | _ \<Rightarrow> (Err TargetNotConfigured, c))"

text \<open>
  The protocol's way of opening. \<open>Inl\<close> is an error that leaves the handler without an answer to the
  peer, \<open>Inr\<close> the \<open>open_result\<close> that is reported.
\<close>

definition open_by_protocol ::
  "'net open_env \<Rightarrow> nat \<Rightarrow> u32 \<Rightarrow> bytes \<Rightarrow> bytes option \<Rightarrow> u16 option \<Rightarrow> 'net control \<Rightarrow>
     (channel_error + (unit, open_error) result) \<times> 'net control" where
  "open_by_protocol env now n rest host port c =
     (case active_protocol (base c) of
        Guacd \<Rightarrow> map_prod Inr id (open_host env now n host port Guacd c)
      | PortForward \<Rightarrow>
          (case forward_target c of
             None \<Rightarrow> (Inr (Err WrongProtocolState), c)
           | Some (h, p) \<Rightarrow> map_prod Inr id (open_host env now n h p PortForward c))
      | Socks5 \<Rightarrow>
          (case network_checker c of
             Some checker \<Rightarrow>
               (if server_mode c then (Inr (Err NotSupportedHere), c)
                else case tunnel_protocol c of
                       None \<Rightarrow> (Inr (Err ProtocolMissing), c)
                     | Some tp \<Rightarrow>
                  (case parse_open_connection tp rest of
                     Err e \<Rightarrow> (Inl (PayloadInvalid e), c)
                   | Ok t \<Rightarrow>
                       (case socks5_destination (lib env) (dns_answers env) now t checker of
                          (r, checker') \<Rightarrow>
                            (let c1 = c\<lparr>network_checker := Some checker'\<rparr>
                             in case r of
                                  Err DestinationNotAllowed \<Rightarrow> (Inr (Err DestinationDenied), c1)
                                | Err PortNotAllowed \<Rightarrow> (Inl PortDenied, c1)
                                | Err EmptyAddressList \<Rightarrow> (Inr (Err NoAddresses), c1)
                                | Ok a \<Rightarrow> map_prod Inr id (open_backend env now n a Socks5 c1)))))
           | None \<Rightarrow> (Inr (Err NotSupportedHere), c))
      | PythonHandler \<Rightarrow>
          (Inr (Ok ()),
           (if has_python_tx (base c) then snd (notify_python (PyConnectionOpened n) c) else c))
      | DatabaseProxy \<Rightarrow> map_prod Inr id (open_host env now n (proxy_host c) (proxy_port c) DatabaseProxy c))"

definition opened :: "u64 \<Rightarrow> u32 \<Rightarrow> 'net step" where
  "opened now n c = send_control_message now ConnectionOpened (be32 n) c"

definition refused :: "u64 \<Rightarrow> u32 \<Rightarrow> bytes option \<Rightarrow> 'net step" where
  "refused now n text c = send_control_message now CloseConnection (close_message n ConnectionFailed text) c"

text \<open>The answer to a connection number that is in the map.\<close>

definition answer_existing :: "'net open_env \<Rightarrow> nat \<Rightarrow> u32 \<Rightarrow> u8 \<Rightarrow> 'net step" where
  "answer_existing env now n st c =
     (if st = CONN_STATE_ACTIVE then opened (of_nat now) n c
      else if st = CONN_STATE_CLOSING \<or> st = CONN_STATE_CLOSED
      then (Ok (), snd (refused (of_nat now) n (Some (reuse_text env n st)) c))
      else (Ok (), c))"

text \<open>The built-in protocol handlers; a handler has no entry in the map of connections.\<close>

definition uses_builtin :: "'net control \<Rightarrow> bool" where
  "uses_builtin c \<longleftrightarrow> active_protocol (base c) = Guacd \<and>
     guacd_params c ''use_guacr'' = Some (map of_char ''true'') \<and> has_builtin_handlers c"

definition open_builtin :: "'net open_env \<Rightarrow> nat \<Rightarrow> u32 \<Rightarrow> 'net step" where
  "open_builtin env now n c =
     (if builtin_starts env
      then opened (of_nat now) n
             (c\<lparr>handler_senders := (handler_senders c)(n \<mapsto> \<lparr>handler_alive = True, handler_queue = []\<rparr>)\<rparr>)
      else case refused (of_nat now) n None c of
             (Ok _, c') \<Rightarrow> (Err HandlerNotStarted, c')
           | (Err e, c') \<Rightarrow> (Err e, c'))"

definition handle_open_connection :: "'net open_env \<Rightarrow> nat \<Rightarrow> bytes \<Rightarrow> 'net step" where
  "handle_open_connection env now dat c =
     (if length dat < CONN_NO_LEN then (Err TooShort, c)
      else let n = get_u32 dat; rest = drop 4 dat
           in case connect_as_step env rest c of
                (Err e, c1) \<Rightarrow> (Err e, c1)
              | (Ok (host, port), c1) \<Rightarrow>
                  (if server_mode c1 \<and> active_protocol (base c1) = PortForward
                   then opened (of_nat now) n c1
                   else case conns c1 n of
                          Some k \<Rightarrow> answer_existing env now n (conn_state k) c1
                        | None \<Rightarrow>
                     (if uses_builtin c1 then open_builtin env now n c1
                      else case open_by_protocol env now n rest host port c1 of
                             (Inl e, c2) \<Rightarrow> (Err e, c2)
                           | (Inr (Err e), c2) \<Rightarrow> (Ok (), snd (refused (of_nat now) n (Some (error_text env e)) c2))
                           | (Inr (Ok _), c2) \<Rightarrow> (Ok (), snd (opened (of_nat now) n c2)))))"

section \<open>The other control messages\<close>

definition handle_ping :: "nat \<Rightarrow> bytes \<Rightarrow> 'net step" where
  "handle_ping now dat c =
     (if length dat < CONN_NO_LEN then send_control_message (of_nat now) Pong [0, 0, 0, 0] c
      else let n = get_u32 dat
           in if n \<noteq> 0 \<and> conns c n = None then (Ok (), c)
              else send_control_message (of_nat now) Pong (be32 n @ drop CONN_NO_LEN dat) c)"

definition handle_pong :: "bytes \<Rightarrow> 'net step" where
  "handle_pong dat c = (Ok (), c\<lparr>ping_attempt := 0\<rparr>)"

definition handle_send_eof :: "bytes \<Rightarrow> 'net step" where
  "handle_send_eof dat c =
     (if length dat < CONN_NO_LEN then (Err TooShort, c)
      else (Ok (), snd (queue_backend (get_u32 dat) Eof c)))"

text \<open>A virtual connection of the Python handler; the set is kept when the state is the handler's.\<close>

definition add_virtual :: "u32 \<Rightarrow> 'net control \<Rightarrow> 'net control" where
  "add_virtual n c = c\<lparr>base := (base c)\<lparr>active_connections := map_option (insert n) (active_connections (base c))\<rparr>\<rparr>"

definition remove_virtual :: "u32 \<Rightarrow> 'net control \<Rightarrow> 'net control" where
  "remove_virtual n c =
     c\<lparr>base := (base c)\<lparr>active_connections := map_option (\<lambda>s. s - {n}) (active_connections (base c))\<rparr>\<rparr>"

definition is_virtual :: "u32 \<Rightarrow> 'net control \<Rightarrow> bool" where
  "is_virtual n c = (case active_connections (base c) of Some s \<Rightarrow> n \<in> s | None \<Rightarrow> False)"

definition handle_connection_opened :: "bytes \<Rightarrow> 'net step" where
  "handle_connection_opened dat c =
     (if length dat < CONN_NO_LEN then (Err TooShort, c)
      else let n = get_u32 dat
           in if active_protocol (base c) = PythonHandler
              then (if is_virtual n c then (Ok (), c)
                    else let c1 = add_virtual n c
                         in if \<not> has_python_tx (base c) then (Err PythonMissing, c1)
                            else case notify_python (PyConnectionOpened n) c1 of
                                   (True, c2) \<Rightarrow> (Ok (), c2)
                                 | (False, c2) \<Rightarrow> (Err PythonClosed, remove_virtual n c2))
              else if \<not> server_mode c \<or> conns c n = None then (Ok (), c)
              else (Ok (), case tunnel_protocol c of
                             None \<Rightarrow> c
                           | Some tp \<Rightarrow>
                               (case deferred_response tp of
                                  None \<Rightarrow> c
                                | Some resp \<Rightarrow> snd (queue_backend n (Data resp) c))))"

definition metrics_response :: "'net open_env \<Rightarrow> bytes \<Rightarrow> bytes" where
  "metrics_response env dat =
     (let t = (case dat of [] \<Rightarrow> 0 | b # _ \<Rightarrow> b)
      in if t = 0 then aggregated_metrics env
         else if t = 1
         then (if length dat \<ge> 5
               then (case live_stats env (get_u32 (drop 1 dat)) of Some s \<Rightarrow> s | None \<Rightarrow> map of_char ''null'')
               else map of_char ''null'')
         else if t = 2 then system_stats env
         else map of_char ''error: unknown request type'')"

definition handle_metrics_request :: "'net open_env \<Rightarrow> nat \<Rightarrow> bytes \<Rightarrow> 'net step" where
  "handle_metrics_request env now dat c =
     send_control_message (of_nat now) MetricsResponse (metrics_response env dat) c"

text \<open>The close handler of \<open>Control_Plane\<close>, with the actions it asks for carried out.\<close>

fun perform_close :: "nat \<Rightarrow> close_action \<Rightarrow> 'net control \<Rightarrow> 'net control" where
  "perform_close now (NotifyPythonClosed n r) c = snd (notify_python (PyConnectionClosed n r) c)"
| "perform_close now (CloseBackendNoMessage n r) c = internal_close_backend_no_message now n r c"

definition close_connection :: "nat \<Rightarrow> bool \<Rightarrow> bytes \<Rightarrow> 'net step" where
  "close_connection now lock_free dat c =
     (case handle_close_connection lock_free (base c) dat of
        Err e \<Rightarrow> (Err TooShort, c)
      | Ok (ch, acts) \<Rightarrow> (Ok (), fold (perform_close now) acts (c\<lparr>base := ch\<rparr>)))"

definition process_control_message ::
  "'net open_env \<Rightarrow> nat \<Rightarrow> bool \<Rightarrow> control_message \<Rightarrow> bytes \<Rightarrow> 'net step" where
  "process_control_message env now lock_free msg dat c =
     (case msg of
        CloseConnection \<Rightarrow> close_connection now lock_free dat c
      | OpenConnection \<Rightarrow> handle_open_connection env now dat c
      | Ping \<Rightarrow> handle_ping now dat c
      | Pong \<Rightarrow> handle_pong dat c
      | SendEOF \<Rightarrow> handle_send_eof dat c
      | ConnectionOpened \<Rightarrow> handle_connection_opened dat c
      | MetricsRequest \<Rightarrow> handle_metrics_request env now dat c
      | MetricsResponse \<Rightarrow> (Ok (), c)
      | MetricsConfig \<Rightarrow> (Ok (), c))"

section \<open>Data\<close>

definition forward_to_python_handler :: "u32 \<Rightarrow> bytes \<Rightarrow> 'net step" where
  "forward_to_python_handler n dat c =
     (let c1 = (if is_virtual n c then c
                else let c' = add_virtual n c
                     in if has_python_tx (base c) then snd (notify_python (PyConnectionOpened n) c') else c')
      in if \<not> has_python_tx (base c1) then (Err PythonMissing, c1)
         else case notify_python (PyData n dat) c1 of
                (True, c2) \<Rightarrow> (Ok (), c2) | (False, c2) \<Rightarrow> (Err PythonClosed, c2))"

definition backend_dead_text :: bytes where
  "backend_dead_text = map of_char ''Backend task is dead''"

definition forward_to_protocol :: "nat \<Rightarrow> u32 \<Rightarrow> bytes \<Rightarrow> 'net step" where
  "forward_to_protocol now n dat c =
     (if active_protocol (base c) = PythonHandler then forward_to_python_handler n dat c
      else case handler_senders c n of
             Some h \<Rightarrow>
               (if handler_alive h
                then (Ok (), c\<lparr>handler_senders := (handler_senders c)
                        (n \<mapsto> h\<lparr>handler_queue := handler_queue h @ [dat]\<rparr>)\<rparr>)
                else (Err (HandlerClosed n), c\<lparr>handler_senders := (handler_senders c)(n := None)\<rparr>))
           | None \<Rightarrow>
               (if conns c n = None then (Ok (), c)
                else case queue_backend n (Data dat) c of
                       (True, c1) \<Rightarrow> (Ok (), c1)
                     | (False, c1) \<Rightarrow>
                         (Err (BackendDead n), close_backend now n ConnectionLost (Some backend_dead_text) c1)))"

definition handle_control :: "'net open_env \<Rightarrow> nat \<Rightarrow> bool \<Rightarrow> frame \<Rightarrow> 'net step" where
  "handle_control env now lock_free f c =
     (case decode_control f of
        Err (UnknownControlMessage code) \<Rightarrow> (Err (UnknownControl code), c)
      | Err _ \<Rightarrow> (Err Malformed, c)
      | Ok (msg, dat) \<Rightarrow> process_control_message env now lock_free msg dat c)"

definition receive_frame :: "'net open_env \<Rightarrow> nat \<Rightarrow> bool \<Rightarrow> frame \<Rightarrow> 'net step" where
  "receive_frame env now lock_free f c =
     (case handle_incoming_frame f of
        ForwardToProtocol n dat \<Rightarrow> forward_to_protocol now n dat c
      | HandleControl f' \<Rightarrow> handle_control env now lock_free f' c)"

section \<open>The run loop's other arms\<close>

text \<open>A connection accepted by the local server.\<close>

definition register_server_connection :: "u32 \<Rightarrow> 'net control \<Rightarrow> 'net control" where
  "register_server_connection n c = register_conn n c"

text \<open>
  A backend task has ended. Only the primary guacd connection counts: guacd is told, the connection
  removed and the loop left (\<open>True\<close>).
\<close>

definition connection_closed_signal :: "u32 \<Rightarrow> 'net control \<Rightarrow> bool \<times> 'net control" where
  "connection_closed_signal n c =
     (if is_primary_guacd n c
      then let c1 = c\<lparr>base := (base c)\<lparr>should_exit := True\<rparr>\<rparr>;
               c2 = snd (queue_backend n (Data disconnect_instruction) c1);
               c3 = snd (queue_backend n Eof c2)
           in (True, remove_conn n c3)
      else (False, c))"

text \<open>The keep-alive: the payload of the ping is a length and a time stamp.\<close>

definition ping_payload :: "u64 \<Rightarrow> bytes" where
  "ping_payload now = be32 (of_nat (length (be64 now))) @ be64 now"

definition handle_ping_timeout :: "nat \<Rightarrow> 'net step" where
  "handle_ping_timeout now c =
     (let c1 = c\<lparr>ping_attempt := ping_attempt c + 1\<rparr>
      in if ping_attempt c1 > 10
         then (Err PingTimeout, close_backend now 0 Timeout (Some (map of_char ''Too many ping timeouts'')) c1)
         else if is_connected c1
         then (case send_wire (ControlFrame Ping (ping_payload (of_nat now))) c1 of
                 (ok, c2) \<Rightarrow> ((if ok then Ok () else Err SendFailed), c2))
         else (Ok (), c1))"

text \<open>The end of the loop; \<open>order\<close> is the order in which the map yields its keys.\<close>

definition cleanup_all_connections :: "nat \<Rightarrow> u32 list \<Rightarrow> 'net control \<Rightarrow> 'net control" where
  "cleanup_all_connections now order c =
     (let c1 = (if server_mode c \<and> server_running c then stop_server c else c);
          c2 = c1\<lparr>handler_senders := Map.empty\<rparr>
      in fold (\<lambda>n. close_backend now n Normal None) (filter (\<lambda>n. n \<noteq> 0) order) c2)"

section \<open>What handlers leave of the connections\<close>

named_theorems shrinking \<open>calls that only remove connections and let them go on to closing\<close>

definition same_conn :: "conn \<Rightarrow> conn \<Rightarrow> bool" where
  "same_conn k k' \<longleftrightarrow> generation k' = generation k \<and>
     (conn_state k' = conn_state k \<or> conn_state k' = CONN_STATE_CLOSING)"

definition shrinks :: "'net control \<Rightarrow> 'net control \<Rightarrow> bool" where
  "shrinks c c' \<longleftrightarrow> conn_generations c' = conn_generations c \<and>
     (\<forall>n k'. conns c' n = Some k' \<longrightarrow> (\<exists>k. conns c n = Some k \<and> same_conn k k'))"

lemma shrinks_refl [simp, intro]: "shrinks c c"
  by (auto simp: shrinks_def same_conn_def)

lemma same_conn_trans: "same_conn a b \<Longrightarrow> same_conn b d \<Longrightarrow> same_conn a d"
  by (auto simp: same_conn_def)

lemma shrinks_trans [trans]: "shrinks a b \<Longrightarrow> shrinks b c \<Longrightarrow> shrinks a c"
  unfolding shrinks_def by (metis same_conn_trans)

lemma shrinks_same_conns: "conns c' = conns c \<Longrightarrow> conn_generations c' = conn_generations c \<Longrightarrow> shrinks c c'"
  by (auto simp: shrinks_def same_conn_def)

lemma send_wire_conns [simp]:
  "conns (snd (send_wire w c)) = conns c" "conn_generations (snd (send_wire w c)) = conn_generations c"
  "base (snd (send_wire w c)) = base c" "removals (snd (send_wire w c)) = removals c"
  "handler_senders (snd (send_wire w c)) = handler_senders c"
  by (simp_all add: send_wire_def)

lemma send_control_message_conns [simp]:
  "conns (snd (send_control_message now m d c)) = conns c"
  "conn_generations (snd (send_control_message now m d c)) = conn_generations c"
  "base (snd (send_control_message now m d c)) = base c"
  "removals (snd (send_control_message now m d c)) = removals c"
  "handler_senders (snd (send_control_message now m d c)) = handler_senders c"
  by (simp_all add: send_control_message_def send_wire_def Let_def)

lemma notify_python_conns [simp]:
  "conns (snd (notify_python m c)) = conns c" "conn_generations (snd (notify_python m c)) = conn_generations c"
  "base (snd (notify_python m c)) = base c"
  by (simp_all add: notify_python_def)

lemma send_wire_shrinks [shrinking]: "shrinks c (snd (send_wire w c))"
  by (rule shrinks_same_conns) simp_all

lemma send_control_message_shrinks [shrinking]: "shrinks c (snd (send_control_message now m d c))"
  by (rule shrinks_same_conns) simp_all

lemma notify_python_shrinks [shrinking]: "shrinks c (snd (notify_python m c))"
  by (rule shrinks_same_conns) simp_all

lemma queue_backend_shrinks [shrinking]: "shrinks c (snd (queue_backend n m c))"
  by (auto simp: shrinks_def queue_backend_def same_conn_def split: option.splits)

lemma mark_closing_shrinks [shrinking]: "shrinks c (mark_closing n c)"
  by (auto simp: shrinks_def mark_closing_def same_conn_def split: option.splits)

lemma cancel_read_shrinks [shrinking]: "shrinks c (cancel_read n c)"
  by (auto simp: shrinks_def cancel_read_def same_conn_def split: option.splits)

lemma remove_conn_shrinks [shrinking]: "shrinks c (remove_conn n c)"
  by (auto simp: shrinks_def remove_conn_def same_conn_def split: option.splits)

lemma schedule_removal_shrinks [shrinking]: "shrinks c (schedule_removal now n c)"
  by (rule shrinks_same_conns) (simp_all add: schedule_removal_def)

lemma fold_remove_shrinks: "shrinks c (fold remove_conn ns c)"
  by (induction ns arbitrary: c) (auto intro: shrinks_trans remove_conn_shrinks)

lemma fire_removals_shrinks [shrinking]: "shrinks c (fire_removals now c)"
proof -
  let ?c = "c\<lparr>removals := filter (\<lambda>(due, _). now < due) (removals c)\<rparr>"
  have "shrinks c ?c" by (rule shrinks_same_conns) simp_all
  then show ?thesis unfolding fire_removals_def using fold_remove_shrinks by (rule shrinks_trans)
qed

lemma internal_close_state_shrinks [shrinking]: "shrinks c (internal_handle_connection_close n r c)"
  by (rule shrinks_same_conns) (simp_all add: internal_handle_connection_close_def stop_server_def Let_def)

lemma exit_if_control_shrinks [shrinking]: "shrinks c (exit_if_control n c)"
  by (rule shrinks_same_conns) (simp_all add: exit_if_control_def)

lemma shrinks_if: "shrinks c x \<Longrightarrow> shrinks c y \<Longrightarrow> shrinks c (if b then x else y)"
  by simp

text \<open>The same facts behind what went before, to be applied from the outermost call inwards.\<close>

lemmas shrinks_after = shrinks_if shrinking [THEN shrinks_trans [rotated]]

lemma guacd_disconnect_shrinks: "shrinks c (send_guacd_disconnect_message n r p c)"
  unfolding send_guacd_disconnect_message_def Let_def by (intro shrinks_after shrinks_refl)

lemmas shrinks_behind = shrinks_after guacd_disconnect_shrinks [THEN shrinks_trans [rotated]]

lemma close_backend_shrinks: "shrinks c (close_backend now n r m c)"
  unfolding close_backend_def Let_def by (intro shrinks_behind shrinks_refl)

lemma close_no_message_shrinks: "shrinks c (internal_close_backend_no_message now n r c)"
  unfolding internal_close_backend_no_message_def Let_def by (intro shrinks_behind shrinks_refl)

section \<open>Opening and the map of connections\<close>

text \<open>The map and the generation counters are those of the first state, or one more connection is in.\<close>

definition same_map :: "'net control \<Rightarrow> 'net control \<Rightarrow> bool" where
  "same_map c c' \<longleftrightarrow> conns c' = conns c \<and> conn_generations c' = conn_generations c"

definition opens :: "u32 \<Rightarrow> 'net control \<Rightarrow> 'net control \<Rightarrow> bool" where
  "opens n c c' \<longleftrightarrow> same_map c c' \<or> conns c n = None \<and> same_map (register_conn n c) c'"

lemma same_map_refl [simp]: "same_map c c"
  by (simp add: same_map_def)

lemma same_map_opens: "same_map c c' \<Longrightarrow> opens n c c'"
  by (simp add: opens_def)

lemma opens_same: "opens n c c' \<Longrightarrow> same_map c' c'' \<Longrightarrow> opens n c c''"
  by (auto simp: opens_def same_map_def)

lemma register_same_map: "same_map c c' \<Longrightarrow> same_map (register_conn n c) (register_conn n c')"
  by (simp add: same_map_def register_conn_def Let_def)

lemma same_opens: "same_map c c' \<Longrightarrow> opens n c' c'' \<Longrightarrow> opens n c c''"
  using register_same_map [of c c' n] by (auto simp: opens_def same_map_def)

lemma send_same_map [simp]:
  "same_map c (snd (send_wire w c))" "same_map c (snd (send_control_message now m d c))"
  "same_map c (snd (notify_python p c))"
  by (simp_all add: same_map_def)

lemma connect_as_same_map: "same_map c (snd (connect_as_step env rest c))"
  by (auto simp: connect_as_step_def same_map_def Let_def split: option.splits)

lemma setup_opens: "conns c n = None \<Longrightarrow> opens n c (snd (setup_outbound_task env now n proto c))"
  by (auto simp: setup_outbound_task_def opens_def Let_def split: option.splits result.splits)

lemma open_backend_opens: "opens n c (snd (open_backend env now n addr proto c))"
proof -
  let ?c = "if proto = Guacd \<and> primary_guacd_conn_no c = None then c\<lparr>primary_guacd_conn_no := Some n\<rparr> else c"
  have m: "same_map c ?c" by (simp add: same_map_def)
  show ?thesis
  proof (cases "conns c n")
    case None
    then have "opens n ?c (snd (setup_outbound_task env now n proto ?c))" by (intro setup_opens) simp
    with m None show ?thesis
      by (auto simp: open_backend_def Let_def same_map_opens intro: same_opens split: result.splits)
  qed (simp add: open_backend_def same_map_opens)
qed

lemma open_host_opens: "opens n c (snd (open_host env now n host port proto c))"
  by (auto simp: open_host_def same_map_opens open_backend_opens split: option.splits result.splits list.splits)

lemma open_by_protocol_opens: "opens n c (snd (open_by_protocol env now n rest host port c))"
proof (cases "active_protocol (base c)")
  case Socks5
  have a: "opens n c (snd (open_backend env now n a Socks5 (c\<lparr>network_checker := x\<rparr>)))" for a x
    by (rule same_opens [OF _ open_backend_opens]) (simp add: same_map_def)
  show ?thesis
    using a by (auto simp: open_by_protocol_def Socks5 Let_def opens_def same_map_def
        split: option.splits result.splits prod.splits access_error.splits)
qed (auto simp: open_by_protocol_def open_host_opens same_map_opens split: option.splits)

lemma send_control_eq: "send_control_message now m d c = (r, c') \<Longrightarrow> same_map c c'"
  using send_same_map(2) [of c now m d] by simp

lemma open_builtin_same_map: "same_map c (snd (open_builtin env now n c))"
proof (cases "builtin_starts env")
  case False
  then show ?thesis
    by (auto simp: open_builtin_def refused_def dest: send_control_eq split: result.splits prod.splits)
qed (simp add: open_builtin_def opened_def same_map_def)

lemma opened_same_map [simp]: "same_map c (snd (opened now n c))" "same_map c (snd (refused now n t c))"
  by (simp_all add: opened_def refused_def)

lemma answer_existing_same_map: "same_map c (snd (answer_existing env now n st c))"
  by (simp add: answer_existing_def)

lemma handle_open_opens: "opens (get_u32 dat) c (snd (handle_open_connection env now dat c))"
proof (cases "length dat < CONN_NO_LEN")
  case False
  let ?n = "get_u32 dat" and ?rest = "drop 4 dat"
  obtain r c1 where ca: "connect_as_step env ?rest c = (r, c1)" by force
  then have m: "same_map c c1" using connect_as_same_map [of c env ?rest] by simp
  show ?thesis
  proof (cases r)
    case (Ok hp)
    obtain host port where hp: "hp = (host, port)" by force
    obtain o' c2 where op: "open_by_protocol env now ?n ?rest host port c1 = (o', c2)" by force
    have "opens ?n c1 c2" using open_by_protocol_opens [of ?n c1 env now ?rest host port] op by simp
    then have "opens ?n c1 (snd (handle_open_connection env now dat c))"
      using False ca Ok hp op open_builtin_same_map [of c1 env now ?n]
      by (auto simp: handle_open_connection_def same_map_opens answer_existing_same_map Let_def
          split: option.split sum.split result.split intro: opens_same)
    with m show ?thesis by (rule same_opens)
  qed (use False ca m in \<open>simp add: handle_open_connection_def same_map_opens\<close>)
qed (simp add: handle_open_connection_def same_map_opens)

lemma close_connection_shrinks: "shrinks c (snd (close_connection now l dat c))"
proof -
  have act: "shrinks c (perform_close now a c)" for a and c :: "'a control"
    by (cases a) (simp_all add: shrinking close_no_message_shrinks)
  have acts: "shrinks c (fold (perform_close now) as c)" for as and c :: "'a control"
    by (induction as arbitrary: c) (auto intro: shrinks_trans act)
  have "shrinks c (c\<lparr>base := ch\<rparr>)" for ch by (rule shrinks_same_conns) simp_all
  then show ?thesis
    unfolding close_connection_def by (auto split: result.split intro: shrinks_trans [OF _ acts])
qed

lemma same_map_shrinks: "same_map c c' \<Longrightarrow> shrinks c c'"
  by (auto simp: same_map_def intro: shrinks_same_conns)

lemma handle_send_eof_shrinks: "shrinks c (snd (handle_send_eof dat c))"
  by (simp add: handle_send_eof_def shrinking)

lemma handle_ping_same_map: "same_map c (snd (handle_ping now dat c))"
  by (simp add: handle_ping_def Let_def)

lemma handle_connection_opened_shrinks: "shrinks c (snd (handle_connection_opened dat c))"
proof -
  have py: "same_map c (snd (case notify_python p (add_virtual n c) of
      (True, c2) \<Rightarrow> (Ok (), c2) | (False, c2) \<Rightarrow> (Err PythonClosed, remove_virtual n c2)))" for n p
    by (simp add: notify_python_def add_virtual_def remove_virtual_def same_map_def)
  have "same_map c (add_virtual n c)" for n by (simp add: add_virtual_def same_map_def)
  then show ?thesis
    using py by (auto simp: handle_connection_opened_def Let_def shrinking
        split: option.split intro: same_map_shrinks)
qed

lemma forward_to_python_same_map: "same_map c (snd (forward_to_python_handler n dat c))"
  by (simp add: forward_to_python_handler_def add_virtual_def notify_python_def same_map_def Let_def)

lemma forward_to_protocol_shrinks: "shrinks c (snd (forward_to_protocol now n dat c))"
proof -
  obtain ok c1 where q: "queue_backend n (Data dat) c = (ok, c1)" by force
  then have "shrinks c c1" using queue_backend_shrinks [of c n "Data dat"] by simp
  then have "shrinks c (snd (case (ok, c1) of (True, c1) \<Rightarrow> (Ok (), c1)
      | (False, c1) \<Rightarrow> (Err (BackendDead n), close_backend now n ConnectionLost (Some backend_dead_text) c1)))"
    using close_backend_shrinks shrinks_trans by (cases ok) fastforce+
  moreover have "shrinks c (c\<lparr>handler_senders := hs\<rparr>)" for hs by (rule shrinks_same_conns) simp_all
  moreover have "shrinks c (snd (forward_to_python_handler n dat c))"
    by (intro same_map_shrinks forward_to_python_same_map)
  ultimately show ?thesis by (auto simp: forward_to_protocol_def q split: option.split)
qed

text \<open>A frame either leaves the map, or shrinks it, or adds a connection under a free number.\<close>

lemma receive_frame_map:
  "shrinks c (snd (receive_frame env now l f c)) \<or> (\<exists>n. opens n c (snd (receive_frame env now l f c)))"
proof (cases "handle_incoming_frame f")
  case (ForwardToProtocol n dat)
  then show ?thesis by (simp add: receive_frame_def forward_to_protocol_shrinks)
next
  case (HandleControl f')
  show ?thesis
  proof (cases "decode_control f'")
    case (Err e)
    then show ?thesis
      by (cases e) (simp_all add: receive_frame_def HandleControl handle_control_def)
  next
    case (Ok md)
    obtain msg dat where md: "md = (msg, dat)" by force
    have e: "receive_frame env now l f c = process_control_message env now l msg dat c"
      by (simp add: receive_frame_def HandleControl handle_control_def Ok md)
    have "shrinks c (snd (handle_pong dat c))" by (rule shrinks_same_conns) (simp_all add: handle_pong_def)
    then show ?thesis
      unfolding e process_control_message_def
      using handle_open_opens [of dat c env now] same_map_shrinks [OF handle_ping_same_map [of c now dat]]
      by (cases msg) (auto simp: close_connection_shrinks handle_send_eof_shrinks
          handle_connection_opened_shrinks handle_metrics_request_def shrinking)
  qed
qed

section \<open>Runs\<close>

text \<open>What happens to a channel, each at its time.\<close>

datatype 'net channel_event =
  FrameIn "'net open_env" bool frame
| TimersElapse
| BackendDies u32
| BackendSignals u32
| PingTick
| WebrtcCloses
| PythonDies
| HandlerDies u32

definition kill_backend :: "u32 \<Rightarrow> 'net control \<Rightarrow> 'net control" where
  "kill_backend n c =
     (case conns c n of Some k \<Rightarrow> c\<lparr>conns := (conns c)(n \<mapsto> k\<lparr>backend_alive := False\<rparr>)\<rparr> | None \<Rightarrow> c)"

fun channel_step :: "nat \<times> 'net channel_event \<Rightarrow> 'net control \<Rightarrow> 'net control" where
  "channel_step (now, FrameIn env l f) c = snd (receive_frame env now l f c)"
| "channel_step (now, TimersElapse) c = fire_removals now c"
| "channel_step (now, BackendDies n) c = kill_backend n c"
| "channel_step (now, BackendSignals n) c = snd (connection_closed_signal n c)"
| "channel_step (now, PingTick) c = snd (handle_ping_timeout now c)"
| "channel_step (now, WebrtcCloses) c = c\<lparr>webrtc_open := False\<rparr>"
| "channel_step (now, PythonDies) c = c\<lparr>python_alive := False\<rparr>"
| "channel_step (now, HandlerDies n) c =
     c\<lparr>handler_senders := (case handler_senders c n of
        Some h \<Rightarrow> (handler_senders c)(n \<mapsto> h\<lparr>handler_alive := False\<rparr>) | None \<Rightarrow> handler_senders c)\<rparr>"

lemma channel_step_map: "shrinks c (channel_step e c) \<or> (\<exists>n. opens n c (channel_step e c))"
proof -
  obtain now ev where e: "e = (now, ev)" by force
  have tick: "shrinks c (c\<lparr>ping_attempt := a\<rparr>)" for a by (rule shrinks_same_conns) simp_all
  show ?thesis unfolding e
  proof (cases ev)
    case (FrameIn env l f)
    then show "shrinks c (channel_step (now, ev) c) \<or> (\<exists>n. opens n c (channel_step (now, ev) c))"
      using receive_frame_map by simp
  next
    case (BackendSignals n)
    have "shrinks c (c\<lparr>base := b\<rparr>)" for b by (rule shrinks_same_conns) simp_all
    then have "shrinks c (snd (connection_closed_signal n c))"
      unfolding connection_closed_signal_def Let_def
      by (auto intro!: shrinks_trans [OF _ remove_conn_shrinks] shrinks_trans [OF _ queue_backend_shrinks])
    then show "shrinks c (channel_step (now, ev) c) \<or> (\<exists>n. opens n c (channel_step (now, ev) c))"
      by (simp add: BackendSignals)
  next
    case TimersElapse
    then show "shrinks c (channel_step (now, ev) c) \<or> (\<exists>n. opens n c (channel_step (now, ev) c))"
      by (simp add: shrinking)
  next
    case PingTick
    have "shrinks c (snd (handle_ping_timeout now c))"
      using tick by (auto simp: handle_ping_timeout_def Let_def case_prod_beta
          intro: shrinks_trans [OF _ close_backend_shrinks] shrinks_trans [OF _ send_wire_shrinks])
    then show "shrinks c (channel_step (now, ev) c) \<or> (\<exists>n. opens n c (channel_step (now, ev) c))"
      by (simp add: PingTick)
  qed (auto simp: shrinking kill_backend_def shrinks_def same_conn_def split: option.splits)
qed

text \<open>The map of a reachable channel: a life cycle of two states, and the generation last handed out.\<close>

definition life_cycle :: "'net control \<Rightarrow> bool" where
  "life_cycle c \<longleftrightarrow> (\<forall>n k. conns c n = Some k \<longrightarrow>
     conn_state k \<in> {CONN_STATE_ACTIVE, CONN_STATE_CLOSING} \<and> conn_generations c n = generation k + 1)"

lemma shrinks_life_cycle: "shrinks c c' \<Longrightarrow> life_cycle c \<Longrightarrow> life_cycle c'"
  unfolding life_cycle_def shrinks_def same_conn_def by fastforce

lemma opens_life_cycle: "opens n c c' \<Longrightarrow> life_cycle c \<Longrightarrow> life_cycle c'"
proof -
  assume o: "opens n c c'" and l: "life_cycle c"
  have same: "life_cycle a \<Longrightarrow> same_map a b \<Longrightarrow> life_cycle b" for a b :: "'a control"
    by (simp add: life_cycle_def same_map_def)
  have "life_cycle (register_conn n c)" if "conns c n = None"
    using l by (simp add: life_cycle_def register_conn_def Let_def)
  with o same l show "life_cycle c'" unfolding opens_def by blast
qed

lemma channel_step_life_cycle: "life_cycle c \<Longrightarrow> life_cycle (channel_step e c)"
  using channel_step_map [of c e] shrinks_life_cycle opens_life_cycle by blast

lemma run_life_cycle: "life_cycle c \<Longrightarrow> life_cycle (fold channel_step es c)"
  by (induction es arbitrary: c) (simp_all add: channel_step_life_cycle)

section \<open>What opening sends\<close>

text \<open>A CloseConnection for the number, with a text.\<close>

definition is_report :: "u32 \<Rightarrow> wire \<Rightarrow> bool" where
  "is_report n w \<longleftrightarrow> (\<exists>r t. w = ControlFrame CloseConnection (close_message n r (Some t)))"

lemma is_report_close [simp]: "is_report n (ControlFrame CloseConnection (close_message n r (Some t)))"
  unfolding is_report_def by blast

text \<open>What an attempt sends before it is reported, and when it counts as done.\<close>

definition opening_sends :: "u32 \<Rightarrow> 'net control \<Rightarrow> (unit, open_error) result \<Rightarrow> 'net control \<Rightarrow> bool" where
  "opening_sends n c r c2 \<longleftrightarrow> webrtc_open c2 = webrtc_open c \<and> base c2 = base c \<and>
     (case r of
        Ok _ \<Rightarrow> sent c2 = sent c \<and> (\<exists>k. conns c2 n = Some k \<and> conn_state k = CONN_STATE_ACTIVE)
      | Err _ \<Rightarrow> sent c2 = sent c \<or>
          (\<exists>w. is_report n w \<and> sent c2 = sent c @ [w]))"

lemma opening_sends_Err [simp]: "opening_sends n c (Err e) c"
  by (simp add: opening_sends_def)

lemma setup_sends:
  "setup_outbound_task env now n proto c = (r, c2) \<Longrightarrow> opening_sends n c r c2"
  by (auto simp: setup_outbound_task_def opening_sends_def register_conn_def send_wire_def Let_def
      split: if_splits option.splits result.splits)

lemma open_backend_sends:
  assumes "open_backend env now n addr proto c = (r, c2)" and "conns c n = None"
  shows "opening_sends n c r c2"
  using assms setup_sends [of env now n proto _ r c2]
  by (fastforce simp: open_backend_def opening_sends_def Let_def split: result.splits if_splits)

lemma open_host_sends:
  assumes "open_host env now n host port proto c = (r, c2)" and "conns c n = None"
  shows "opening_sends n c r c2"
  using assms open_backend_sends [of env now n _ proto c r c2]
  by (auto simp: open_host_def opening_sends_def split: option.splits result.splits list.splits)

lemma open_by_protocol_sends:
  assumes "open_by_protocol env now n rest host port c = (Inr r, c2)" and "conns c n = None"
    and "active_protocol (base c) \<noteq> PythonHandler"
  shows "opening_sends n c r c2"
proof (cases "active_protocol (base c)")
  case Socks5
  have "opening_sends n c r c2" if "open_backend env now n a Socks5 (c\<lparr>network_checker := x\<rparr>) = (r, c2)" for a x
    using open_backend_sends [OF that] assms(2) by (simp add: opening_sends_def split: result.splits)
  then show ?thesis
    using assms Socks5
    by (auto simp: open_by_protocol_def Let_def opening_sends_def map_prod_def
        split: option.splits result.splits prod.splits access_error.splits if_splits)
qed (use assms open_host_sends in \<open>auto simp: open_by_protocol_def map_prod_def
    split: option.splits prod.splits\<close>)

lemma connect_as_keeps:
  assumes "connect_as_step env rest c = (r, c1)"
  shows "webrtc_open c1 = webrtc_open c \<and> sent c1 = sent c \<and> base c1 = base c \<and> conns c1 = conns c \<and>
    server_mode c1 = server_mode c \<and> handler_senders c1 = handler_senders c"
  using assms by (auto simp: connect_as_step_def Let_def split: option.splits if_splits)

lemma send_control_open [simp]:
  "webrtc_open c \<Longrightarrow> m \<noteq> Ping \<Longrightarrow>
     send_control_message now m d c = (Ok (), c\<lparr>sent := sent c @ [ControlFrame m d]\<rparr>)"
  by (simp add: send_control_message_def send_wire_def)

section \<open>Properties\<close>



text \<open>When the peer is right to think of the connection as open.\<close>

definition is_open :: "u32 \<Rightarrow> 'net control \<Rightarrow> bool" where
  "is_open n c \<longleftrightarrow> (\<exists>k. conns c n = Some k \<and> conn_state k = CONN_STATE_ACTIVE) \<or> handler_senders c n \<noteq> None \<or>
     active_protocol (base c) = PythonHandler \<or> active_protocol (base c) = PortForward \<and> server_mode c"

definition is_refusal :: "u32 \<Rightarrow> wire \<Rightarrow> bool" where
  "is_refusal n w \<longleftrightarrow> (\<exists>t. w = ControlFrame CloseConnection (close_message n ConnectionFailed (Some t)))"

lemma is_refusal_close [simp]:
  "is_refusal n (ControlFrame CloseConnection (close_message n ConnectionFailed (Some t)))"
  unfolding is_refusal_def by blast

definition answered :: "u32 \<Rightarrow> 'net control \<Rightarrow> 'net control \<Rightarrow> bool" where
  "answered n c c' \<longleftrightarrow> (\<exists>before reply. sent c' = sent c @ before @ [reply] \<and>
     (reply = ControlFrame ConnectionOpened (be32 n) \<and> before = [] \<and> is_open n c' \<or>
      is_refusal n reply \<and> length before \<le> 1 \<and> list_all (is_report n) before))"

lemma answered_opened: "sent c' = sent c @ [ControlFrame ConnectionOpened (be32 n)] \<Longrightarrow> is_open n c' \<Longrightarrow> answered n c c'"
  unfolding answered_def by fastforce

lemma answered_refused: "sent c' = sent c @ [w] \<Longrightarrow> is_refusal n w \<Longrightarrow> answered n c c'"
  unfolding answered_def by (rule exI [of _ "[]"]) simp

lemma answered_reported: "sent c' = sent c @ [v, w] \<Longrightarrow> is_report n v \<Longrightarrow> is_refusal n w \<Longrightarrow> answered n c c'"
  unfolding answered_def by (rule exI [of _ "[v]"]) simp

lemmas answered_intros = answered_opened answered_refused answered_reported


section \<open>Closing and keep-alive\<close>

fun is_control_frame :: "wire \<Rightarrow> bool" where
  "is_control_frame (ControlFrame m d) \<longleftrightarrow> True"
| "is_control_frame (DataFrame n d) \<longleftrightarrow> False"

definition quiet :: "'net control \<Rightarrow> 'net control \<Rightarrow> bool" where
  "quiet c c' \<longleftrightarrow> filter is_control_frame (sent c') = filter is_control_frame (sent c)"

lemma quiet_same [simp]: "sent c' = sent c \<Longrightarrow> quiet c c'"
  by (simp add: quiet_def)

lemma quiet_trans: "quiet a b \<Longrightarrow> quiet b c \<Longrightarrow> quiet a c"
  by (simp add: quiet_def)

lemma sent_simps [simp]:
  "sent (snd (queue_backend n m c)) = sent c" "sent (mark_closing n c) = sent c"
  "sent (cancel_read n c) = sent c" "sent (remove_conn n c) = sent c"
  "sent (schedule_removal now n c) = sent c" "sent (internal_handle_connection_close n r c) = sent c"
  "sent (exit_if_control n c) = sent c" "sent (snd (notify_python p c)) = sent c"
  by (auto simp: queue_backend_def mark_closing_def cancel_read_def remove_conn_def schedule_removal_def
      internal_handle_connection_close_def stop_server_def exit_if_control_def notify_python_def Let_def
      split: option.splits)

lemma fold_remove_sent [simp]: "sent (fold remove_conn ns c) = sent c"
  by (induction ns arbitrary: c) simp_all

lemma fire_removals_sent [simp]: "sent (fire_removals now c) = sent c"
  by (simp add: fire_removals_def)

lemma guacd_disconnect_quiet: "quiet c (send_guacd_disconnect_message n r p c)"
  by (simp add: send_guacd_disconnect_message_def quiet_def send_wire_def Let_def)

lemma close_no_message_quiet: "quiet c (internal_close_backend_no_message now n r c)"
  using guacd_disconnect_quiet [of "mark_closing n c" n r True]
  by (simp add: internal_close_backend_no_message_def quiet_def Let_def)

text \<open>
  A CloseConnection never provokes a control message: whatever its content, handling it
  sends no control frame, so two channels cannot keep closing a connection at each other.\<close>

lemma close_is_not_echoed:
  "filter is_control_frame (sent (snd (close_connection now lock_free dat c))) = filter is_control_frame (sent c)"
proof -
  have act: "quiet c (perform_close now a c)" for a and c :: "'a control"
    by (cases a) (simp_all add: close_no_message_quiet)
  have acts: "quiet c (fold (perform_close now) as c)" for as and c :: "'a control"
    by (induction as arbitrary: c) (auto intro: quiet_trans act)
  have "quiet c (snd (close_connection now lock_free dat c))"
    unfolding close_connection_def by (auto split: result.split intro: quiet_trans [OF _ acts])
  then show ?thesis by (simp add: quiet_def)
qed

text \<open>
  The closing path that sends a message never tells guacd or its client to disconnect: the primary
  connection is forgotten before it is asked for. The path without a message does tell them.\<close>

lemma close_backend_sends_no_disconnect:
  "filter (\<lambda>w. \<not> is_control_frame w) (sent (close_backend now n r m c)) = filter (\<lambda>w. \<not> is_control_frame w) (sent c)"
proof -
  have not_primary: "\<not> is_primary_guacd n (internal_handle_connection_close n r c)" for c :: "'a control"
    by (simp add: is_primary_guacd_def internal_handle_connection_close_def stop_server_def Let_def)
  have "is_primary_guacd n (snd (send_control_message t CloseConnection d c)) = is_primary_guacd n c" for t d and c :: "'a control"
    by (simp add: is_primary_guacd_def send_control_message_def send_wire_def Let_def)
  then show ?thesis
    using not_primary
    by (simp add: close_backend_def send_guacd_disconnect_message_def send_control_message_def send_wire_def Let_def)
qed

lemma internal_close_keeps [simp]:
  "conns (internal_handle_connection_close n r c) = conns c"
  "shut_down (internal_handle_connection_close n r c) = shut_down c"
  by (simp_all add: internal_handle_connection_close_def stop_server_def Let_def)

lemma remove_conn_logs: "conns c n = Some k \<Longrightarrow> shut_down (remove_conn n c) = shut_down c @ [(n, k)]"
  by (simp add: remove_conn_def)

lemma close_no_message_disconnects:
  assumes "is_primary_guacd n c" and "conns c n = Some k" and "backend_alive k" and "webrtc_open c"
  shows "\<exists>k'. shut_down (internal_close_backend_no_message now n Normal c) = shut_down c @ [(n, k')] \<and>
    backend_queue k' = backend_queue k @ [Data (log_instruction Normal), Data disconnect_instruction, Eof] \<and>
    sent (internal_close_backend_no_message now n Normal c) =
      sent c @ [DataFrame n (log_instruction Normal), DataFrame n disconnect_instruction]"
proof -
  let ?k = "k\<lparr>conn_state := CONN_STATE_CLOSING,
      backend_queue := backend_queue k @ [Data (log_instruction Normal), Data disconnect_instruction, Eof]\<rparr>"
  let ?c = "c\<lparr>conns := (conns c)(n \<mapsto> ?k),
      sent := sent c @ [DataFrame n (log_instruction Normal), DataFrame n disconnect_instruction]\<rparr>"
  have "mark_closing n c = c\<lparr>conns := (conns c)(n \<mapsto> k\<lparr>conn_state := CONN_STATE_CLOSING\<rparr>)\<rparr>"
    using assms(2) by (simp add: mark_closing_def)
  then have d: "send_guacd_disconnect_message n Normal True (mark_closing n c) = ?c"
    using assms(1,3,4) by (simp add: send_guacd_disconnect_message_def is_primary_guacd_def queue_backend_def
        send_wire_def Let_def)
  have "internal_close_backend_no_message now n Normal c =
      exit_if_control n (remove_conn n (internal_handle_connection_close n Normal ?c))"
    using assms(1) d by (simp add: internal_close_backend_no_message_def removal_delayed_def Let_def)
  moreover have "shut_down (exit_if_control n x) = shut_down x" for x :: "'a control"
    by (simp add: exit_if_control_def)
  ultimately show ?thesis
    using remove_conn_logs [of "internal_handle_connection_close n Normal ?c" n ?k] by simp
qed

text \<open>
  A closing path forgets its removal timer: a backend that died is closed by each data
  frame that still arrives, each time with a removal due half a second later; when the first removal
  has run and the peer opens the number again, the second removal takes the new connection out of
  the map. Nothing is sent, so the peer goes on using a connection that it was told is open.\<close>

lemma stale_removal_hits_new_connection:
  assumes "conns c n = Some k" and "\<not> backend_alive k" and "n \<noteq> 0" and "removals c = []"
    and "active_protocol (base c) = PortForward" and "\<not> server_mode c" and "handler_senders c n = None"
    and "webrtc_open c" and "forward_target c = Some (Some h, Some p)"
    and "lookup_host env h p = Ok (a # more_addrs)" and "tcp_connect env a = Ok ()"
  shows "let c1 = snd (forward_to_protocol t n d1 c);
      c2 = snd (forward_to_protocol (t + 100) n d2 c1);
      c3 = fire_removals (t + 500) c2;
      c4 = snd (handle_open_connection env (t + 550) (be32 n) c3);
      c5 = fire_removals (t + 600) c4
    in last (sent c4) = ControlFrame ConnectionOpened (be32 n) \<and>
       (\<exists>k4. conns c4 n = Some k4 \<and> conn_state k4 = CONN_STATE_ACTIVE \<and> backend_alive k4) \<and>
       conns c5 n = None \<and> sent c5 = sent c4"
proof -
  have dead: "snd (forward_to_protocol s n d c) = close_backend s n ConnectionLost (Some backend_dead_text) c"
    if "conns c n = Some k" "\<not> backend_alive k" "active_protocol (base c) = PortForward" "handler_senders c n = None"
    for s d k and c :: "'a control"
    using that by (simp add: forward_to_protocol_def queue_backend_def)
  have close: "close_backend s n ConnectionLost m c =
      c\<lparr>conns := (conns c)(n \<mapsto> k\<lparr>conn_state := CONN_STATE_CLOSING, read_cancelled := True\<rparr>),
        handler_senders := (handler_senders c)(n := None),
        sent := sent c @ [ControlFrame CloseConnection (close_message n ConnectionLost m)],
        removals := removals c @ [(s + 500, n)]\<rparr>"
    if "conns c n = Some k" "active_protocol (base c) = PortForward" "\<not> server_mode c" "webrtc_open c"
    for s m k and c :: "'a control"
    using that assms(3)
    by (simp add: close_backend_def removal_delayed_def internal_handle_connection_close_def mark_closing_def
        cancel_read_def schedule_removal_def REMOVAL_DELAY_def exit_if_control_def Let_def)
  let ?m = "ControlFrame CloseConnection (close_message n ConnectionLost (Some backend_dead_text))"
  let ?k = "k\<lparr>conn_state := CONN_STATE_CLOSING, read_cancelled := True\<rparr>"
  let ?c1 = "c\<lparr>conns := (conns c)(n \<mapsto> ?k), handler_senders := (handler_senders c)(n := None),
      sent := sent c @ [?m], removals := [(t + 500, n)]\<rparr>"
  let ?c2 = "?c1\<lparr>sent := sent c @ [?m, ?m], removals := [(t + 500, n), (t + 600, n)]\<rparr>"
  let ?c3 = "?c2\<lparr>conns := (conns c)(n := None), shut_down := shut_down c @ [(n, ?k)], removals := [(t + 600, n)]\<rparr>"
  have 1: "snd (forward_to_protocol t n d1 c) = ?c1"
    using dead [OF assms(1,2,5,7)] close [OF assms(1,5,6,8)] assms(4) by simp
  have 2: "snd (forward_to_protocol (t + 100) n d2 ?c1) = ?c2"
    using dead [of ?c1 ?k "t + 100" d2] close [of ?c1 ?k "t + 100"] assms(2,5,6,8) by simp
  have 3: "fire_removals (t + 500) ?c2 = ?c3"
    by (simp add: fire_removals_def remove_conn_def)
  have o: "snd (handle_open_connection env (t + 550) (be32 n) ?c3) =
      (register_conn n ?c3)\<lparr>sent := sent ?c3 @ [ControlFrame ConnectionOpened (be32 n)]\<rparr>"
    using assms(5,6,8-11)
    by (simp add: handle_open_connection_def CONN_NO_LEN_def codec_simps get_be32 [of n "[]", simplified]
        connect_as_step_def uses_builtin_def open_by_protocol_def open_host_def open_backend_def
        setup_outbound_task_def opened_def register_conn_def Let_def)
  show ?thesis
    unfolding Let_def 1 2 3 o
    by (simp add: register_conn_def fire_removals_def remove_conn_def Let_def)
qed

text \<open>
  The payload of the keep-alive ping starts with its length, which the peer reads as
  connection number 8: a peer without such a connection answers nothing and changes nothing. Eleven
  silent periods later the channel closes itself, whatever the peer did with the pings.\<close>

lemma keep_alive_unanswered:
  assumes "conns peer 8 = None" and "ping_attempt c = 0" and "length ts = 11"
  shows "handle_ping now (ping_payload t) peer = (Ok (), peer) \<and>
    should_exit (base (fold (\<lambda>t c. snd (handle_ping_timeout t c)) ts c))"
proof
  have "get_u32 (ping_payload t) = 8" and "length (ping_payload t) = 12"
    by (simp_all add: ping_payload_def codec_simps get_be32)
  then show "handle_ping now (ping_payload t) peer = (Ok (), peer)"
    using assms(1) by (simp add: handle_ping_def CONN_NO_LEN_def)
  have tick: "ping_attempt (snd (handle_ping_timeout t c)) = ping_attempt c + 1"
    if "\<not> ping_attempt c + 1 > 10" for t and c :: "'b control"
    using that by (simp add: handle_ping_timeout_def send_wire_def Let_def)
  have ticks: "ping_attempt (fold (\<lambda>t c. snd (handle_ping_timeout t c)) ts c) = of_nat (a + length ts)"
    if "ping_attempt c = of_nat a" "a + length ts \<le> 10" for ts a and c :: "'b control"
    using that
  proof (induction ts arbitrary: a c)
    case (Cons t ts)
    have "unat (of_nat (Suc a) :: u32) = Suc a" using Cons.prems(2) by (intro unat_of_nat_small) simp
    moreover have e: "ping_attempt c + 1 = of_nat (Suc a)" using Cons.prems(1) by (simp add: ac_simps)
    moreover have "unat (10 :: u32) = 10" by simp
    ultimately have "unat (ping_attempt c + 1) \<le> unat (10 :: u32)" using Cons.prems(2) by (simp only: e) simp
    then have "\<not> ping_attempt c + 1 > 10" by (simp only: word_less_nat_alt not_less)
    then have "ping_attempt (snd (handle_ping_timeout t c)) = of_nat (Suc a)"
      using tick [of c t] Cons.prems(1) by simp
    from Cons.IH [OF this] Cons.prems(2) show ?case by simp
  qed simp
  obtain ts' t' where ts: "ts = ts' @ [t']" "length ts' = 10"
    using assms(3) by (cases ts rule: rev_cases) simp_all
  let ?c = "fold (\<lambda>t c. snd (handle_ping_timeout t c)) ts' c"
  have "ping_attempt ?c = 10" using ticks [of c 0 ts'] assms(2) ts(2) by simp
  then have "snd (handle_ping_timeout t' ?c) =
      close_backend t' 0 Timeout (Some (map of_char ''Too many ping timeouts'')) (?c\<lparr>ping_attempt := 11\<rparr>)"
    by (simp add: handle_ping_timeout_def)
  moreover have "should_exit (base (close_backend s 0 r m x))" for s r m and x :: "'b control"
    by (simp add: close_backend_def exit_if_control_def Let_def)
  ultimately show "should_exit (base (fold (\<lambda>t c. snd (handle_ping_timeout t c)) ts c))"
    by (simp add: ts(1))
qed

text \<open>
  A guacd connection that could not be opened stays the primary one: the next connection
  opens, but its end is not taken as the end of the session, as it is when nothing failed before.\<close>

lemma failed_open_stays_primary:
  assumes "active_protocol (base c) = Guacd" and "\<not> uses_builtin c" and "primary_guacd_conn_no c = None"
    and "gateway_private_key (connect_as c) = None" and "conns c = Map.empty" and "n \<noteq> m"
    and "guacd_host c = Some h" and "guacd_port c = Some p"
    and "lookup_host env1 h p = Ok [a1]" and "tcp_connect env1 a1 = Err e"
    and "lookup_host env2 h p = Ok [a2]" and "tcp_connect env2 a2 = Ok ()" and "backend_handshake env2 = Some (Ok ())"
  shows "let c1 = snd (handle_open_connection env1 t (be32 n) c);
      c2 = snd (handle_open_connection env2 t' (be32 m) c1);
      c3 = snd (handle_open_connection env2 t' (be32 m) c)
    in (\<exists>k. conns c2 m = Some k \<and> conn_state k = CONN_STATE_ACTIVE) \<and>
       fst (connection_closed_signal m c2) = False \<and> fst (connection_closed_signal m c3) = True"
proof -
  note open_defs = handle_open_connection_def CONN_NO_LEN_def codec_simps get_be32 [of _ "[]", simplified]
    connect_as_step_def open_by_protocol_def open_host_def open_backend_def Let_def
  let ?c1 = "snd (send_control_message (of_nat t) CloseConnection
      (close_message n ConnectionFailed (Some (error_text env1 (ConnectFailed e))))
      (c\<lparr>primary_guacd_conn_no := Some n\<rparr>))"
  have 1: "snd (handle_open_connection env1 t (be32 n) c) = ?c1"
    using assms(1-10) by (simp add: open_defs refused_def)
  have keep: "base ?c1 = base c" "uses_builtin ?c1 = uses_builtin c" "primary_guacd_conn_no ?c1 = Some n"
    "connect_as ?c1 = connect_as c" "conns ?c1 = Map.empty" "guacd_host ?c1 = Some h" "guacd_port ?c1 = Some p"
    using assms(5,7,8) by (simp_all add: send_control_message_def send_wire_def uses_builtin_def Let_def)
  have succ: "snd (handle_open_connection env2 t' (be32 m) x) = snd (opened (of_nat t') m
      (register_conn m (if primary_guacd_conn_no x = None then x\<lparr>primary_guacd_conn_no := Some m\<rparr> else x)))"
    if "base x = base c" "\<not> uses_builtin x" "connect_as x = connect_as c" "conns x = Map.empty"
      "guacd_host x = Some h" "guacd_port x = Some p" for x
    using that assms(1,4,11-13) by (simp add: open_defs setup_outbound_task_def)
  have prim: "is_primary_guacd m (snd (opened u m (register_conn m x))) \<longleftrightarrow>
      active_protocol (base x) = Guacd \<and> primary_guacd_conn_no x = Some m" for u and x :: "'a control"
    by (simp add: is_primary_guacd_def opened_def register_conn_def send_control_message_def send_wire_def Let_def)
  have act: "\<exists>k. conns (snd (opened u m (register_conn m x))) m = Some k \<and> conn_state k = CONN_STATE_ACTIVE"
    for u and x :: "'a control"
    by (simp add: opened_def register_conn_def Let_def)
  show ?thesis
    unfolding Let_def 1
    using succ [of ?c1] succ [of c] keep assms(1-8) prim act
    by (simp add: connection_closed_signal_def Let_def)
qed

section \<open>Witnesses\<close>

text \<open>A channel without connections, and a world in which everything succeeds.\<close>

definition idle_channel :: "active_protocol \<Rightarrow> unit control" where
  "idle_channel proto =
     \<lparr>base = \<lparr>active_protocol = proto, has_python_tx = False, active_connections = None,
              should_exit = False, channel_close_reason = None\<rparr>,
      server_mode = False, server_running = False, conns = Map.empty, conn_generations = (\<lambda>n. 0),
      handler_senders = Map.empty, primary_guacd_conn_no = None, ping_attempt = 0, is_connected = True,
      channel_ping_sent_time = None, tunnel_protocol = None, network_checker = None,
      connect_as = \<lparr>allow_supply_user = False, allow_supply_host = False, gateway_private_key = None\<rparr>,
      guacd_host = Some [1], guacd_port = Some 4822, guacd_params = Map.empty, has_builtin_handlers = False,
      forward_target = Some (Some [2], Some 22), proxy_host = None, proxy_port = None, python_alive = False,
      python_inbox = [], webrtc_open = True, sent = [], removals = [], shut_down = []\<rparr>"

definition easy_env :: "(unit, bytes) result \<Rightarrow> unit open_env" where
  "easy_env tcp =
     \<lparr>lib = \<lparr>parse_net = (\<lambda>h. None), parse_ip = (\<lambda>h. None), net_of = (\<lambda>ip n. ()), net_contains = (\<lambda>net ip. True)\<rparr>,
      dns_answers = (\<lambda>h. None), lookup_host = (\<lambda>h p. Ok [(V4 9, p)]), tcp_connect = (\<lambda>a. tcp),
      backend_handshake = Some (Ok ()), decrypt_connect_as = (\<lambda>pem pk nonce d. None), builtin_starts = False,
      error_text = (\<lambda>e. []), reuse_text = (\<lambda>n s. []), aggregated_metrics = [], live_stats = (\<lambda>n. None),
      system_stats = []\<rparr>"

definition dead_conn :: conn where
  "dead_conn = \<lparr>conn_state = CONN_STATE_ACTIVE, backend_alive = False, backend_queue = [],
     read_cancelled = False, generation = 0\<rparr>"

lemmas example_defs = idle_channel_def easy_env_def dead_conn_def

text \<open>OpenConnection for number 5 on the idle channel.\<close>

lemma idle_open:
  "handle_open_connection (easy_env (Ok ())) 0 (be32 5) (idle_channel PortForward) =
     (Ok (), (register_conn 5 (idle_channel PortForward))\<lparr>sent := [ControlFrame ConnectionOpened (be32 5)]\<rparr>)"
  by (simp add: handle_open_connection_def CONN_NO_LEN_def codec_simps get_be32 [of 5 "[]", simplified]
      connect_as_step_def uses_builtin_def open_by_protocol_def open_host_def open_backend_def
      setup_outbound_task_def opened_def register_conn_def example_defs Let_def)

definition open_frame :: frame where
  "open_frame = \<lparr>connection_no = 0, timestamp_ms = 0, payload = be16 (control_code OpenConnection) @ be32 5\<rparr>"

lemma idle_open_frame:
  "channel_step (0, FrameIn (easy_env (Ok ())) True open_frame) (idle_channel PortForward) =
     (register_conn 5 (idle_channel PortForward))\<lparr>sent := [ControlFrame ConnectionOpened (be32 5)]\<rparr>"
  using idle_open control_round_trip [of OpenConnection]
  by (simp add: receive_frame_def handle_incoming_frame_def handle_control_def decode_control_def CTRL_NO_LEN_def
      open_frame_def get_be16 process_control_message_def del: control_code.simps)




end
