(* ===== verification/Utf8_Lossy.thy ===== *)
theory Utf8_Lossy
  imports Utf8
begin

text \<open>
  \<open>String::from_utf8_lossy\<close>: the characters of a byte string, with one U+FFFD for every maximal
  invalid piece, and the fact the parsers rest on: the encoding of a string is read back as that
  string.
\<close>

section \<open>Decoding\<close>

text \<open>The scalar value of the valid sequence of \<open>n\<close> bytes at the front.\<close>

definition front_char :: "nat \<Rightarrow> bytes \<Rightarrow> uchar" where
  "front_char n bs =
     (let b = (\<lambda>i. unat (bs ! i))
      in if n = 1 then b 0
         else if n = 2 then b 0 mod 32 * 64 + b 1 mod 64
         else if n = 3 then b 0 mod 16 * 4096 + b 1 mod 64 * 64 + b 2 mod 64
         else b 0 mod 8 * 262144 + b 1 mod 64 * 4096 + b 2 mod 64 * 64 + b 3 mod 64)"

text \<open>The length of the invalid piece at the front: a lead byte with what could still follow it.\<close>

definition invalid_front :: "bytes \<Rightarrow> nat" where
  "invalid_front bs =
     (let b0 = unat (bs ! 0); b1 = unat (bs ! 1);
          c1 = (1 < length bs \<and> is_cont (bs ! 1));
          c2 = (2 < length bs \<and> is_cont (bs ! 2))
      in if 0xE0 \<le> b0 \<and> b0 < 0xF0
         then (if c1 \<and> (b0 = 0xE0 \<longrightarrow> 0xA0 \<le> b1) \<and> (b0 = 0xED \<longrightarrow> b1 < 0xA0) then 2 else 1)
         else if 0xF0 \<le> b0 \<and> b0 < 0xF5
         then (if c1 \<and> (b0 = 0xF0 \<longrightarrow> 0x90 \<le> b1) \<and> (b0 = 0xF4 \<longrightarrow> b1 < 0x90)
               then (if c2 then 3 else 2) else 1)
         else 1)"

lemma invalid_front_pos: "0 < invalid_front bs"
  by (simp add: invalid_front_def Let_def)

function from_utf8_lossy :: "bytes \<Rightarrow> ustring" where
  "from_utf8_lossy bs =
     (if bs = [] then []
      else case valid_front bs of
             Some n \<Rightarrow> front_char n bs # from_utf8_lossy (drop n bs)
           | None \<Rightarrow> 0xFFFD # from_utf8_lossy (drop (invalid_front bs) bs))"
  by pat_completeness auto
termination
  by (relation "measure length") (auto dest: valid_front_pos simp: invalid_front_pos)

declare from_utf8_lossy.simps [simp del]

lemma from_utf8_lossy_Nil [simp]: "from_utf8_lossy [] = []"
  by (subst from_utf8_lossy.simps) simp

lemma from_utf8_lossy_front:
  "valid_front bs = Some n \<Longrightarrow> from_utf8_lossy bs = front_char n bs # from_utf8_lossy (drop n bs)"
  by (subst from_utf8_lossy.simps) (auto simp: valid_front_def)

section \<open>A string is read back\<close>

definition proper_string :: "ustring \<Rightarrow> bool" where
  "proper_string s \<longleftrightarrow> (\<forall>c \<in> set s. is_scalar c)"

lemma proper_string_simps [simp]:
  "proper_string []" "proper_string (c # s) \<longleftrightarrow> is_scalar c \<and> proper_string s"
  by (auto simp: proper_string_def)

lemma front_char_utf8_char:
  assumes "is_scalar c"
  shows "front_char (length (utf8_char c)) (utf8_char c @ r) = c"
proof -
  have m: "k mod 64 < 64" for k :: nat by simp
  have cont: "unat (of_nat (0x80 + k mod 64) :: u8) mod 64 = k mod 64" for k :: nat
  proof -
    have "unat (of_nat (0x80 + k mod 64) :: u8) = 2 * 64 + k mod 64"
      using m [of k] by (subst unat_byte) simp_all
    then show ?thesis by (simp only: mod_mult_self3 mod_mod_trivial)
  qed
  consider "c < 0x80" | "0x80 \<le> c" "c < 0x800" | "0x800 \<le> c" "c < 0x10000"
    | "0x10000 \<le> c" "c < 0x110000"
    using assms unfolding is_scalar_def by linarith
  then show ?thesis
  proof cases
    case 1
    then show ?thesis by (simp add: utf8_char_def front_char_def unat_byte)
  next
    case 2
    have "unat (of_nat (0xC0 + c div 64) :: u8) mod 32 = c div 64"
      using 2 by (subst unat_byte) (simp_all add: mod_if)
    then have "front_char 2 (utf8_char c @ r) = c div 64 * 64 + c mod 64"
      using 2 cont [of c] by (simp add: utf8_char_def front_char_def del: of_nat_add)
    then have "front_char 2 (utf8_char c @ r) = c" by (simp only: div_mult_mod_eq)
    moreover have "length (utf8_char c) = 2" using 2 by (simp add: utf8_char_def)
    ultimately show ?thesis by (simp only:)
  next
    case 3
    have "unat (of_nat (0xE0 + c div 4096) :: u8) mod 16 = c div 4096"
      using 3 by (subst unat_byte) (simp_all add: mod_if)
    then have "front_char 3 (utf8_char c @ r) = c div 4096 * 4096 + c div 64 mod 64 * 64 + c mod 64"
      using 3 cont [of c] cont [of "c div 64"] by (simp add: utf8_char_def front_char_def del: of_nat_add)
    also have "\<dots> = c"
    proof -
      have "c div 4096 = c div 64 div 64" by (simp add: div_mult2_eq [symmetric])
      then have "c div 4096 * 64 + c div 64 mod 64 = c div 64" by (simp only: div_mult_mod_eq)
      then show ?thesis using div_mult_mod_eq [of c 64] by linarith
    qed
    finally have "front_char 3 (utf8_char c @ r) = c" .
    moreover have "length (utf8_char c) = 3" using 3 by (simp add: utf8_char_def)
    ultimately show ?thesis by (simp only:)
  next
    case 4
    have "unat (of_nat (0xF0 + c div 262144) :: u8) mod 8 = c div 262144"
      using 4 by (subst unat_byte) (simp_all add: mod_if)
    then have "front_char 4 (utf8_char c @ r) =
        c div 262144 * 262144 + c div 4096 mod 64 * 4096 + c div 64 mod 64 * 64 + c mod 64"
      using 4 cont [of c] cont [of "c div 64"] cont [of "c div 4096"]
      by (simp add: utf8_char_def front_char_def del: of_nat_add)
    also have "\<dots> = c"
    proof -
      have "c div 4096 = c div 64 div 64" "c div 262144 = c div 4096 div 64"
        by (simp_all add: div_mult2_eq [symmetric])
      then have "c div 4096 * 64 + c div 64 mod 64 = c div 64"
        "c div 262144 * 64 + c div 4096 mod 64 = c div 4096"
        by (simp_all only: div_mult_mod_eq)
      then show ?thesis using div_mult_mod_eq [of c 64] by linarith
    qed
    finally have "front_char 4 (utf8_char c @ r) = c" .
    moreover have "length (utf8_char c) = 4" using 4 by (simp add: utf8_char_def)
    ultimately show ?thesis by (simp only:)
  qed
qed

lemma from_utf8_lossy_char:
  assumes "is_scalar c"
  shows "from_utf8_lossy (utf8_char c @ r) = c # from_utf8_lossy r"
  using from_utf8_lossy_front [OF valid_front_utf8_char [OF assms]] front_char_utf8_char [OF assms]
  by simp

lemma from_utf8_lossy_utf8 [simp]: "proper_string s \<Longrightarrow> from_utf8_lossy (utf8 s) = s"
  by (induction s) (simp_all add: utf8_Cons from_utf8_lossy_char, simp add: utf8_def)

text \<open>A character other than NUL has no zero byte in its encoding.\<close>

lemma utf8_char_nonzero: "is_scalar c \<Longrightarrow> c \<noteq> 0 \<Longrightarrow> 0 \<notin> set (utf8_char c)"
  by (cases c rule: utf8_char_cases) (auto simp: is_cont_def)

lemma utf8_nonzero: "proper_string s \<Longrightarrow> 0 \<notin> set s \<Longrightarrow> 0 \<notin> set (utf8 s)"
  using utf8_char_nonzero by (fastforce simp: utf8_def proper_string_def)

lemma utf8_Nil [simp]: "utf8 [] = []"
  by (simp add: utf8_def)

lemma utf8_eq_Nil [simp]: "utf8 s = [] \<longleftrightarrow> s = []"
  by (cases s) (auto simp: utf8_Cons utf8_char_def)

text \<open>A string that can stand in front of a terminating NUL.\<close>

definition plain_string :: "ustring \<Rightarrow> bool" where
  "plain_string s \<longleftrightarrow> proper_string s \<and> 0 \<notin> set s"

end
