(* ===== verification/Mysql_Protocol.thy ===== *)
theory Mysql_Protocol
  imports Utf8_Lossy
begin

text \<open>
  The MySQL wire protocol of the database proxy, \<open>keeperdb-proxy/src/protocol/mysql/packets.rs\<close> and
  \<open>parser.rs\<close>: the packet frame, the handshake packets with their connection attributes, OK and ERR
  packets, the client fingerprint and the command classes.

  A parser indexes and slices its payload where the code does: a \<open>presult\<close> is an option whose \<open>None\<close> is
  the panic of an index or a slice out of range. A \<open>usize\<close> is 64 bits wide and its additions wrap.
  Strings are characters; log output and error texts are left out.
\<close>

section \<open>Errors, indices and slices\<close>

datatype mysql_error =
  UnexpectedEof | EmptyHandshake | UnsupportedProtocolVersion u8 | MissingNullTerminator
| NotEnoughBytes | EmptyLenenc | InvalidLenencMarker | InvalidOkHeader u8 | InvalidErrHeader u8

definition byte_at :: "bytes \<Rightarrow> nat \<Rightarrow> (u8, mysql_error) presult" where
  "byte_at p i = (if i < length p then Some (Ok (p ! i)) else None)"

text \<open>\<open>&p[a..b]\<close>.\<close>

definition slice :: "bytes \<Rightarrow> nat \<Rightarrow> nat \<Rightarrow> (bytes, mysql_error) presult" where
  "slice p a b = (if a \<le> b \<and> b \<le> length p then Some (Ok (take (b - a) (drop a p))) else None)"

section \<open>Packets\<close>

record packet_header =
  payload_length :: u32
  sequence_id :: u8

text \<open>\<open>MAX_PAYLOAD_LENGTH\<close>.\<close>

definition MAX_PAYLOAD_LENGTH :: u32 where "MAX_PAYLOAD_LENGTH = 0xFFFFFF"

text \<open>\<open>read_packet\<close>: \<open>None\<close> when the stream ends inside the packet.\<close>

definition read_packet :: "bytes \<Rightarrow> ((packet_header \<times> bytes) \<times> bytes) option" where
  "read_packet bs =
     (if length bs < 4 then None
      else let len = of_be32 0 (bs ! 2) (bs ! 1) (bs ! 0);
               body = drop 4 bs
           in if length body < unat len then None
              else Some ((\<lparr>payload_length = len, sequence_id = bs ! 3\<rparr>, take (unat len) body),
                         drop (unat len) body))"

text \<open>What \<open>write_packet\<close> writes.\<close>

definition write_packet :: "u8 \<Rightarrow> bytes \<Rightarrow> bytes" where
  "write_packet seq payload =
     (let len = of_nat (length payload) :: u32
      in [ucast (len AND 0xFF), ucast (drop_bit 8 len AND 0xFF), ucast (drop_bit 16 len AND 0xFF), seq]
         @ payload)"

section \<open>Capabilities and commands\<close>

definition CLIENT_LONG_PASSWORD :: u32 where "CLIENT_LONG_PASSWORD = 0x00000001"
definition CLIENT_FOUND_ROWS :: u32 where "CLIENT_FOUND_ROWS = 0x00000002"
definition CLIENT_LONG_FLAG :: u32 where "CLIENT_LONG_FLAG = 0x00000004"
definition CLIENT_CONNECT_WITH_DB :: u32 where "CLIENT_CONNECT_WITH_DB = 0x00000008"
definition CLIENT_PROTOCOL_41 :: u32 where "CLIENT_PROTOCOL_41 = 0x00000200"
definition CLIENT_SSL :: u32 where "CLIENT_SSL = 0x00000800"
definition CLIENT_TRANSACTIONS :: u32 where "CLIENT_TRANSACTIONS = 0x00002000"
definition CLIENT_SECURE_CONNECTION :: u32 where "CLIENT_SECURE_CONNECTION = 0x00008000"
definition CLIENT_MULTI_STATEMENTS :: u32 where "CLIENT_MULTI_STATEMENTS = 0x00010000"
definition CLIENT_MULTI_RESULTS :: u32 where "CLIENT_MULTI_RESULTS = 0x00020000"
definition CLIENT_PS_MULTI_RESULTS :: u32 where "CLIENT_PS_MULTI_RESULTS = 0x00040000"
definition CLIENT_PLUGIN_AUTH :: u32 where "CLIENT_PLUGIN_AUTH = 0x00080000"
definition CLIENT_CONNECT_ATTRS :: u32 where "CLIENT_CONNECT_ATTRS = 0x00100000"
definition CLIENT_PLUGIN_AUTH_LENENC_CLIENT_DATA :: u32 where
  "CLIENT_PLUGIN_AUTH_LENENC_CLIENT_DATA = 0x00200000"

lemmas capability_bits =
  CLIENT_LONG_PASSWORD_def CLIENT_FOUND_ROWS_def CLIENT_LONG_FLAG_def CLIENT_CONNECT_WITH_DB_def
  CLIENT_PROTOCOL_41_def CLIENT_SSL_def CLIENT_TRANSACTIONS_def CLIENT_SECURE_CONNECTION_def
  CLIENT_MULTI_STATEMENTS_def CLIENT_MULTI_RESULTS_def CLIENT_PS_MULTI_RESULTS_def
  CLIENT_PLUGIN_AUTH_def CLIENT_CONNECT_ATTRS_def CLIENT_PLUGIN_AUTH_LENENC_CLIENT_DATA_def

definition DEFAULT_SERVER_CAPABILITIES :: u32 where
  "DEFAULT_SERVER_CAPABILITIES =
     CLIENT_LONG_PASSWORD OR CLIENT_FOUND_ROWS OR CLIENT_LONG_FLAG OR CLIENT_CONNECT_WITH_DB OR
     CLIENT_PROTOCOL_41 OR CLIENT_TRANSACTIONS OR CLIENT_SECURE_CONNECTION OR CLIENT_MULTI_STATEMENTS OR
     CLIENT_MULTI_RESULTS OR CLIENT_PS_MULTI_RESULTS OR CLIENT_PLUGIN_AUTH OR CLIENT_CONNECT_ATTRS"

definition has_cap :: "u32 \<Rightarrow> u32 \<Rightarrow> bool" where
  "has_cap caps flag \<longleftrightarrow> caps AND flag \<noteq> 0"

definition COM_QUIT :: u8 where "COM_QUIT = 0x01"
definition COM_INIT_DB :: u8 where "COM_INIT_DB = 0x02"
definition COM_QUERY :: u8 where "COM_QUERY = 0x03"
definition COM_FIELD_LIST :: u8 where "COM_FIELD_LIST = 0x04"
definition COM_STATISTICS :: u8 where "COM_STATISTICS = 0x09"
definition COM_PING :: u8 where "COM_PING = 0x0e"
definition COM_STMT_PREPARE :: u8 where "COM_STMT_PREPARE = 0x16"
definition COM_STMT_EXECUTE :: u8 where "COM_STMT_EXECUTE = 0x17"
definition COM_STMT_CLOSE :: u8 where "COM_STMT_CLOSE = 0x19"
definition COM_STMT_FETCH :: u8 where "COM_STMT_FETCH = 0x1c"
definition COM_RESET_CONNECTION :: u8 where "COM_RESET_CONNECTION = 0x1f"

lemmas com_codes =
  COM_QUIT_def COM_INIT_DB_def COM_QUERY_def COM_FIELD_LIST_def COM_STATISTICS_def COM_PING_def
  COM_STMT_PREPARE_def COM_STMT_EXECUTE_def COM_STMT_CLOSE_def COM_STMT_FETCH_def
  COM_RESET_CONNECTION_def

definition is_query_command :: "u8 \<Rightarrow> bool" where
  "is_query_command cmd \<longleftrightarrow>
     cmd \<in> {COM_QUERY, COM_STMT_EXECUTE, COM_STMT_PREPARE, COM_INIT_DB, COM_FIELD_LIST, COM_STMT_FETCH}"

definition is_admin_command :: "u8 \<Rightarrow> bool" where
  "is_admin_command cmd \<longleftrightarrow>
     cmd \<in> {COM_QUIT, COM_PING, COM_STATISTICS, COM_RESET_CONNECTION, COM_STMT_CLOSE}"

section \<open>Readers and writers of fields\<close>

definition read_null_terminated_string :: "bytes \<Rightarrow> (ustring \<times> nat, mysql_error) result" where
  "read_null_terminated_string dat =
     (if 0 \<notin> set dat then Err MissingNullTerminator
      else let s = takeWhile (\<lambda>b. b \<noteq> 0) dat in Ok (from_utf8_lossy s, length s + 1))"

definition read_u16_le :: "bytes \<Rightarrow> (u16, mysql_error) result" where
  "read_u16_le dat = (if length dat < 2 then Err NotEnoughBytes else Ok (get_le16 dat))"

definition read_u32_le :: "bytes \<Rightarrow> (u32, mysql_error) result" where
  "read_u32_le dat = (if length dat < 4 then Err NotEnoughBytes else Ok (get_le32 dat))"

definition read_length_encoded_int :: "bytes \<Rightarrow> (u64 \<times> nat, mysql_error) result" where
  "read_length_encoded_int dat =
     (if dat = [] then Err EmptyLenenc
      else let m = dat ! 0; r = drop 1 dat
           in if m = 0xFB then Ok (0, 1)
              else if m = 0xFC
              then (if length dat < 3 then Err NotEnoughBytes else Ok (ucast (get_le16 r), 3))
              else if m = 0xFD
              then (if length dat < 4 then Err NotEnoughBytes
                    else Ok (ucast (of_be32 0 (r ! 2) (r ! 1) (r ! 0)), 4))
              else if m = 0xFE
              then (if length dat < 9 then Err NotEnoughBytes else Ok (get_le64 r, 9))
              else if m = 0xFF then Err InvalidLenencMarker
              else Ok (ucast m, 1))"

definition write_length_encoded_int :: "u64 \<Rightarrow> bytes" where
  "write_length_encoded_int value =
     (if value < 251 then [ucast value]
      else if value < 65536 then 0xFC # le16 (ucast value)
      else if value < 16777216
      then [0xFD, ucast (value AND 0xFF), ucast (drop_bit 8 value AND 0xFF),
            ucast (drop_bit 16 value AND 0xFF)]
      else 0xFE # le64 value)"

section \<open>The server's handshake\<close>

record handshake_v10 =
  protocol_version :: u8
  server_version :: ustring
  server_connection_id :: u32
  auth_plugin_data_part_1 :: bytes
  capability_flags_lower :: u16
  character_set :: u8
  status_flags :: u16
  capability_flags_upper :: u16
  auth_plugin_data_length :: u8
  reserved :: bytes
  auth_plugin_data_part_2 :: bytes
  server_plugin_name :: ustring

definition default_handshake_v10 :: handshake_v10 where
  "default_handshake_v10 =
     \<lparr>protocol_version = 10, server_version = ustr ''5.7.0-keeperdb-proxy'', server_connection_id = 1,
      auth_plugin_data_part_1 = replicate 8 0, capability_flags_lower = 0, character_set = 0x21,
      status_flags = 2, capability_flags_upper = 0, auth_plugin_data_length = 21,
      reserved = replicate 10 0, auth_plugin_data_part_2 = replicate 12 0,
      server_plugin_name = ustr ''mysql_native_password''\<rparr>"

definition get_scramble :: "handshake_v10 \<Rightarrow> bytes" where
  "get_scramble h = auth_plugin_data_part_1 h @ take 12 (auth_plugin_data_part_2 h)"

definition combine_flags :: "u16 \<Rightarrow> u16 \<Rightarrow> u32" where
  "combine_flags upper lower = push_bit 16 (ucast upper) OR ucast lower"

definition server_capability_flags :: "handshake_v10 \<Rightarrow> u32" where
  "server_capability_flags h = combine_flags (capability_flags_upper h) (capability_flags_lower h)"

definition set_capability_flags :: "u32 \<Rightarrow> handshake_v10 \<Rightarrow> handshake_v10" where
  "set_capability_flags flags h =
     h\<lparr>capability_flags_lower := ucast (flags AND 0xFFFF),
       capability_flags_upper := ucast (drop_bit 16 flags AND 0xFFFF)\<rparr>"

text \<open>The second part of the scramble: its length, and the trailing null that is dropped.\<close>

definition part2_len :: "u8 \<Rightarrow> nat" where
  "part2_len n = (if 8 < n then unat (n - 8) else 13)"

definition drop_trailing_null :: "bytes \<Rightarrow> bytes" where
  "drop_trailing_null d = (if d \<noteq> [] \<and> last d = 0 then butlast d else d)"

text \<open>The fields behind the lower capability flags; an old server leaves them out.\<close>

definition parse_handshake_tail :: "bytes \<Rightarrow> nat \<Rightarrow> handshake_v10 \<Rightarrow> (handshake_v10, mysql_error) presult" where
  "parse_handshake_tail payload c0 h =
     (if \<not> c0 < length payload then Some (Ok h)
      else and_then (byte_at payload c0) (\<lambda>cs.
           and_then (read_from read_u16_le payload (c0 + 1)) (\<lambda>status.
           and_then (read_from read_u16_le payload (c0 + 3)) (\<lambda>upper.
           and_then (byte_at payload (c0 + 5)) (\<lambda>adl.
           let c1 = c0 + 6;
               full = (c1 + 10 \<le> length payload);
               res = (if full then take 10 (drop c1 payload) else reserved h);
               c2 = (if full then c1 + 10 else c1);
               caps = combine_flags upper (capability_flags_lower h);
               actual = (if has_cap caps CLIENT_SECURE_CONNECTION
                         then min (part2_len adl) (length payload - c2) else 0);
               part2 = (if has_cap caps CLIENT_SECURE_CONNECTION
                        then drop_trailing_null (take actual (drop c2 payload)) else []);
               c3 = c2 + actual;
               h' = h\<lparr>character_set := cs, status_flags := status, capability_flags_upper := upper,
                      auth_plugin_data_length := adl, reserved := res, auth_plugin_data_part_2 := part2\<rparr>
           in if has_cap caps CLIENT_PLUGIN_AUTH \<and> c3 < length payload
              then and_then (read_from read_null_terminated_string payload c3) (\<lambda>(name, n).
                   Some (Ok (h'\<lparr>server_plugin_name := name\<rparr>)))
              else Some (Ok h'))))))"

definition parse_handshake_v10 :: "bytes \<Rightarrow> (handshake_v10, mysql_error) presult" where
  "parse_handshake_v10 payload =
     (if payload = [] then Some (Err EmptyHandshake)
      else if payload ! 0 \<noteq> 10 then Some (Err (UnsupportedProtocolVersion (payload ! 0)))
      else and_then (read_from read_null_terminated_string payload 1) (\<lambda>(version, n).
           let c1 = 1 + n
           in and_then (read_from read_u32_le payload c1) (\<lambda>cid.
              and_then (slice payload (c1 + 4) (c1 + 4 + 8)) (\<lambda>part1.
              and_then (read_from read_u16_le payload (c1 + 13)) (\<lambda>lower.
              parse_handshake_tail payload (c1 + 15)
                \<lparr>protocol_version = payload ! 0, server_version = version, server_connection_id = cid,
                 auth_plugin_data_part_1 = part1, capability_flags_lower = lower, character_set = 0x21,
                 status_flags = 0, capability_flags_upper = 0, auth_plugin_data_length = 0,
                 reserved = replicate 10 0, auth_plugin_data_part_2 = [], server_plugin_name = []\<rparr>)))))"

definition build_handshake_v10 :: "handshake_v10 \<Rightarrow> bytes" where
  "build_handshake_v10 h =
     [protocol_version h] @ utf8 (server_version h) @ [0] @ le32 (server_connection_id h) @
     auth_plugin_data_part_1 h @ [0] @ le16 (capability_flags_lower h) @ [character_set h] @
     le16 (status_flags h) @ le16 (capability_flags_upper h) @ [auth_plugin_data_length h] @
     reserved h @ auth_plugin_data_part_2 h @ [0] @ utf8 (server_plugin_name h) @ [0]"

section \<open>The client's response\<close>

type_synonym attrs = "(ustring \<times> ustring) list"

record handshake_response41 =
  capability_flags :: u32
  max_packet_size :: u32
  client_character_set :: u8
  client_reserved :: bytes
  username :: ustring
  auth_response :: bytes
  database :: "ustring option"
  auth_plugin_name :: "ustring option"
  connect_attrs :: "attrs option"

definition default_handshake_response41 :: handshake_response41 where
  "default_handshake_response41 =
     \<lparr>capability_flags = 0, max_packet_size = 0x00FFFFFF, client_character_set = 0x21,
      client_reserved = replicate 23 0, username = [], auth_response = [], database = None,
      auth_plugin_name = None, connect_attrs = None\<rparr>"

text \<open>The connection attributes: length-encoded keys and values up to \<open>end_pos\<close>.\<close>

lemma read_length_encoded_int_pos:
  assumes "read_length_encoded_int d = Ok (v, n)"
  shows "0 < n" "n \<le> length d"
  using assms by (auto simp: read_length_encoded_int_def Let_def Suc_le_eq split: if_splits)

lemma read_from_lenenc_pos: "read_from read_length_encoded_int d i = Some (Ok (v, n)) \<Longrightarrow> 0 < n"
  by (auto simp: read_from_def dest: read_length_encoded_int_pos split: if_splits)

lemma slice_bounds: "slice p a b = Some (Ok d) \<Longrightarrow> a \<le> b \<and> b \<le> length p"
  by (auto simp: slice_def split: if_splits)

function parse_attrs_loop :: "bytes \<Rightarrow> nat \<Rightarrow> nat \<Rightarrow> attrs \<Rightarrow> (attrs, mysql_error) presult" where
  "parse_attrs_loop dat end_pos cursor attrs =
     (if \<not> cursor < end_pos then Some (Ok attrs)
      else and_then (read_from read_length_encoded_int dat cursor) (\<lambda>(key_len, kn).
           let k = cursor + kn; k_end = usize_add k (unat key_len)
           in if k_end > end_pos then Some (Ok attrs)
              else and_then (slice dat k k_end) (\<lambda>key.
                   and_then (read_from read_length_encoded_int dat k_end) (\<lambda>(val_len, vn).
                   let v = k_end + vn; v_end = usize_add v (unat val_len)
                   in if v_end > end_pos then Some (Ok attrs)
                      else and_then (slice dat v v_end) (\<lambda>val.
                           parse_attrs_loop dat end_pos v_end
                             (attrs @ [(from_utf8_lossy key, from_utf8_lossy val)]))))))"
  by pat_completeness auto
termination
  by (relation "measure (\<lambda>(dat, end_pos, cursor, attrs). end_pos - cursor)")
    (auto dest!: read_from_lenenc_pos slice_bounds)

declare parse_attrs_loop.simps [simp del]

definition parse_connect_attrs :: "bytes \<Rightarrow> (attrs, mysql_error) presult" where
  "parse_connect_attrs dat =
     (if dat = [] then Some (Ok [])
      else and_then (read_from read_length_encoded_int dat 0) (\<lambda>(total_len, n).
           if total_len = 0 then Some (Ok [])
           else let end_pos = usize_add n (unat total_len)
                in if end_pos > length dat then Some (Ok [])
                   else parse_attrs_loop dat end_pos n []))"

text \<open>The auth response in its three encodings, with the cursor behind it.\<close>

definition read_auth_response :: "u32 \<Rightarrow> bytes \<Rightarrow> nat \<Rightarrow> (bytes \<times> nat, mysql_error) presult" where
  "read_auth_response caps payload c =
     (if has_cap caps CLIENT_PLUGIN_AUTH_LENENC_CLIENT_DATA
      then and_then (read_from read_length_encoded_int payload c) (\<lambda>(len, n).
           let a = c + n; b = usize_add a (unat len)
           in and_then (slice payload a b) (\<lambda>dat. Some (Ok (dat, b))))
      else if has_cap caps CLIENT_SECURE_CONNECTION
      then and_then (byte_at payload c) (\<lambda>len.
           let a = c + 1; b = a + unat len
           in and_then (slice payload a b) (\<lambda>dat. Some (Ok (dat, b))))
      else and_then (read_from read_null_terminated_string payload c) (\<lambda>(str, n).
           Some (Ok (utf8 str, c + n))))"

text \<open>A null-terminated string that is there if its capability is set and bytes remain.\<close>

definition read_optional_string ::
  "u32 \<Rightarrow> u32 \<Rightarrow> bytes \<Rightarrow> nat \<Rightarrow> (ustring option \<times> nat, mysql_error) presult" where
  "read_optional_string caps flag payload c =
     (if has_cap caps flag \<and> c < length payload
      then and_then (read_from read_null_terminated_string payload c) (\<lambda>(str, n).
           Some (Ok (Some str, c + n)))
      else Some (Ok (None, c)))"

definition read_attrs :: "u32 \<Rightarrow> bytes \<Rightarrow> nat \<Rightarrow> (attrs option, mysql_error) presult" where
  "read_attrs caps payload c =
     (if has_cap caps CLIENT_CONNECT_ATTRS \<and> c < length payload
      then (case parse_connect_attrs (drop c payload) of
              None \<Rightarrow> None
            | Some (Ok attrs) \<Rightarrow> Some (Ok (Some attrs))
            | Some (Err e) \<Rightarrow> Some (Ok None))
      else Some (Ok None))"

definition parse_handshake_response41 :: "bytes \<Rightarrow> (handshake_response41, mysql_error) presult" where
  "parse_handshake_response41 payload =
     and_then (read_from read_u32_le payload 0) (\<lambda>caps.
     and_then (read_from read_u32_le payload 4) (\<lambda>max_packet.
     and_then (byte_at payload 8) (\<lambda>cs.
     and_then (slice payload 9 32) (\<lambda>res.
     and_then (read_from read_null_terminated_string payload 32) (\<lambda>(user, n).
     and_then (read_auth_response caps payload (32 + n)) (\<lambda>(auth, c1).
     and_then (read_optional_string caps CLIENT_CONNECT_WITH_DB payload c1) (\<lambda>(db, c2).
     and_then (read_optional_string caps CLIENT_PLUGIN_AUTH payload c2) (\<lambda>(plugin, c3).
     and_then (read_attrs caps payload c3) (\<lambda>attrs.
     Some (Ok \<lparr>capability_flags = caps, max_packet_size = max_packet, client_character_set = cs,
               client_reserved = res, username = user, auth_response = auth, database = db,
               auth_plugin_name = plugin, connect_attrs = attrs\<rparr>))))))))))"

definition write_auth_response :: "u32 \<Rightarrow> bytes \<Rightarrow> bytes" where
  "write_auth_response caps auth =
     (if has_cap caps CLIENT_PLUGIN_AUTH_LENENC_CLIENT_DATA
      then write_length_encoded_int (of_nat (length auth)) @ auth
      else if has_cap caps CLIENT_SECURE_CONNECTION
      then of_nat (length auth) # auth
      else auth @ [0])"

definition write_optional_string :: "u32 \<Rightarrow> u32 \<Rightarrow> ustring option \<Rightarrow> bytes" where
  "write_optional_string caps flag str =
     (case str of
        Some s \<Rightarrow> if has_cap caps flag then utf8 s @ [0] else []
      | None \<Rightarrow> [])"

definition build_handshake_response41 :: "handshake_response41 \<Rightarrow> bytes" where
  "build_handshake_response41 r =
     le32 (capability_flags r) @ le32 (max_packet_size r) @ [client_character_set r] @
     client_reserved r @ utf8 (username r) @ [0] @
     write_auth_response (capability_flags r) (auth_response r) @
     write_optional_string (capability_flags r) CLIENT_CONNECT_WITH_DB (database r) @
     write_optional_string (capability_flags r) CLIENT_PLUGIN_AUTH (auth_plugin_name r)"

section \<open>The fingerprint of a client\<close>

definition find_attr :: "string \<Rightarrow> attrs \<Rightarrow> ustring option" where
  "find_attr key attrs = map_option snd (find (\<lambda>kv. fst kv = ustr key) attrs)"

definition program_name :: "handshake_response41 \<Rightarrow> ustring option" where
  "program_name r =
     (case connect_attrs r of
        None \<Rightarrow> None
      | Some attrs \<Rightarrow> (case find_attr ''program_name'' attrs of
                        Some v \<Rightarrow> Some v
                      | None \<Rightarrow> find_attr ''_client_name'' attrs))"

text \<open>The first of several keys that has a value.\<close>

fun first_attr :: "string list \<Rightarrow> attrs \<Rightarrow> ustring option" where
  "first_attr [] attrs = None"
| "first_attr (k # ks) attrs =
     (case find_attr k attrs of Some v \<Rightarrow> Some v | None \<Rightarrow> first_attr ks attrs)"

fun join_colon :: "ustring list \<Rightarrow> ustring" where
  "join_colon [] = []"
| "join_colon [p] = p"
| "join_colon (p # ps) = p @ 0x3A # join_colon ps"

definition opt_list :: "'a option \<Rightarrow> 'a list" where
  "opt_list x = (case x of Some a \<Rightarrow> [a] | None \<Rightarrow> [])"

definition client_fingerprint :: "handshake_response41 \<Rightarrow> ustring option" where
  "client_fingerprint r =
     (case connect_attrs r of
        None \<Rightarrow> None
      | Some attrs \<Rightarrow>
          let parts = opt_list (program_name r) @
                map (\<lambda>v. 0x76 # v) (opt_list (first_attr [''_client_version'', ''_connector_version''] attrs)) @
                opt_list (first_attr [''_platform'', ''_os''] attrs) @
                opt_list (find_attr ''_runtime_vendor'' attrs)
          in if parts = [] then None else Some (join_colon parts))"

section \<open>OK and ERR packets\<close>

record ok_packet =
  ok_header :: u8
  affected_rows :: u64
  last_insert_id :: u64
  ok_status_flags :: u16
  warnings :: u16
  info :: ustring

record err_packet =
  err_header :: u8
  error_code :: u16
  sql_state_marker :: uchar
  sql_state :: bytes
  error_message :: ustring

definition parse_ok_packet :: "bytes \<Rightarrow> u32 \<Rightarrow> (ok_packet, mysql_error) presult" where
  "parse_ok_packet payload caps =
     and_then (byte_at payload 0) (\<lambda>h.
     if h \<noteq> 0x00 \<and> h \<noteq> 0xFE then Some (Err (InvalidOkHeader h))
     else and_then (read_from read_length_encoded_int payload 1) (\<lambda>(rows, n1).
          and_then (read_from read_length_encoded_int payload (1 + n1)) (\<lambda>(iid, n2).
          let c = 1 + n1 + n2;
              finish = (\<lambda>status warns c'. Some (Ok
                \<lparr>ok_header = h, affected_rows = rows, last_insert_id = iid, ok_status_flags = status,
                 warnings = warns, info = (if c' < length payload then from_utf8_lossy (drop c' payload)
                                           else [])\<rparr>))
          in if has_cap caps CLIENT_PROTOCOL_41
             then and_then (read_from read_u16_le payload c) (\<lambda>status.
                  and_then (read_from read_u16_le payload (c + 2)) (\<lambda>warns.
                  finish status warns (c + 4)))
             else finish 0 0 c)))"

definition HY000 :: bytes where "HY000 = map (\<lambda>c. of_nat (of_char c)) ''HY000''"

definition parse_err_packet :: "bytes \<Rightarrow> u32 \<Rightarrow> (err_packet, mysql_error) presult" where
  "parse_err_packet payload caps =
     and_then (byte_at payload 0) (\<lambda>h.
     if h \<noteq> 0xFF then Some (Err (InvalidErrHeader h))
     else and_then (read_from read_u16_le payload 1) (\<lambda>code.
          let finish = (\<lambda>marker state c. and_then (slice payload c (max c (length payload))) (\<lambda>msg. Some (Ok
                \<lparr>err_header = h, error_code = code, sql_state_marker = marker, sql_state = state,
                 error_message = from_utf8_lossy msg\<rparr>)))
          in if has_cap caps CLIENT_PROTOCOL_41
             then and_then (byte_at payload 3) (\<lambda>marker.
                  and_then (slice payload 4 9) (\<lambda>state.
                  finish (unat marker) state 9))
             else finish 0x23 HY000 3))"

definition is_ok_packet :: "bytes \<Rightarrow> bool" where
  "is_ok_packet payload \<longleftrightarrow> payload \<noteq> [] \<and> (payload ! 0 = 0x00 \<or> payload ! 0 = 0xFE)"

definition is_err_packet :: "bytes \<Rightarrow> bool" where
  "is_err_packet payload \<longleftrightarrow> payload \<noteq> [] \<and> payload ! 0 = 0xFF"

definition is_eof_packet :: "bytes \<Rightarrow> bool" where
  "is_eof_packet payload \<longleftrightarrow> payload \<noteq> [] \<and> payload ! 0 = 0xFE \<and> length payload < 9"

definition build_ok_packet :: "ok_packet \<Rightarrow> u32 \<Rightarrow> bytes" where
  "build_ok_packet ok caps =
     [ok_header ok] @ write_length_encoded_int (affected_rows ok) @
     write_length_encoded_int (last_insert_id ok) @
     (if has_cap caps CLIENT_PROTOCOL_41 then le16 (ok_status_flags ok) @ le16 (warnings ok) else []) @
     utf8 (info ok)"

definition build_err_packet :: "err_packet \<Rightarrow> u32 \<Rightarrow> bytes" where
  "build_err_packet err caps =
     [err_header err] @ le16 (error_code err) @
     (if has_cap caps CLIENT_PROTOCOL_41 then of_nat (sql_state_marker err) # sql_state err else []) @
     utf8 (error_message err)"

definition new_err_packet :: "u16 \<Rightarrow> ustring \<Rightarrow> err_packet" where
  "new_err_packet code msg =
     \<lparr>err_header = 0xFF, error_code = code, sql_state_marker = 0x23, sql_state = HY000,
      error_message = msg\<rparr>"

section \<open>Reading what was written\<close>

lemma read_from_append: "i = length pre \<Longrightarrow> read_from r (pre @ q) i = Some (r q)"
  by (simp add: read_from_def)

lemma byte_at_append: "i = length pre \<Longrightarrow> byte_at (pre @ b # q) i = Some (Ok b)"
  by (simp add: byte_at_def)

lemma slice_append:
  "a = length pre \<Longrightarrow> b = a + length d \<Longrightarrow> slice (pre @ d @ q) a b = Some (Ok d)"
  by (simp add: slice_def)

lemma read_null_terminated_utf8:
  assumes "proper_string s" "0 \<notin> set s"
  shows "read_null_terminated_string (utf8 s @ 0 # q) = Ok (s, length (utf8 s) + 1)"
proof -
  have "takeWhile (\<lambda>b. b \<noteq> 0) (utf8 s @ 0 # q) = utf8 s"
    using utf8_nonzero [OF assms] by (subst takeWhile_append2) auto
  then show ?thesis using assms(1) by (simp add: read_null_terminated_string_def)
qed

lemma read_le:
  "read_u16_le (le16 v @ q) = Ok v" "read_u32_le (le32 w @ q) = Ok w"
  by (simp_all add: read_u16_le_def read_u32_le_def get_le)

lemma and_FF: "(x :: u32) AND 0xFF = take_bit 8 x" "(y :: u64) AND 0xFF = take_bit 8 y"
  by (simp_all add: take_bit_eq_mask mask_eq_exp_minus_1)

lemma ucast_take_8: "ucast (take_bit 8 (x :: u32)) = (ucast x :: u8)" "ucast (take_bit 8 (y :: u64)) = (ucast y :: u8)"
  by (rule bit_word_eqI, simp add: bit_simps)+

lemma join_le24:
  "of_be32 0 (ucast (drop_bit 16 len AND 0xFF)) (ucast (drop_bit 8 len AND 0xFF)) (ucast (len AND 0xFF)) =
     take_bit 24 (len :: u32)"
  unfolding and_FF ucast_take_8 of_be32_def of_be16_def
proof (rule bit_word_eqI)
  fix n
  show "bit (push_bit 16 (ucast (push_bit 8 (ucast (0::u8)) OR ucast (ucast (drop_bit 16 len) :: u8) :: u16)) OR
       ucast (push_bit 8 (ucast (ucast (drop_bit 8 len) :: u8)) OR ucast (ucast len :: u8) :: u16) :: u32) n \<longleftrightarrow> bit (take_bit 24 len) n"
    by (cases "n < 8"; cases "n < 16"; cases "n < 24") (auto simp: bit_simps)
qed

lemma join_le24_64:
  "ucast (of_be32 0 (ucast (drop_bit 16 len AND 0xFF)) (ucast (drop_bit 8 len AND 0xFF)) (ucast (len AND 0xFF))) =
     take_bit 24 (len :: u64)"
  unfolding and_FF ucast_take_8 of_be32_def of_be16_def
proof (rule bit_word_eqI)
  fix n
  show "bit (ucast (push_bit 16 (ucast (push_bit 8 (ucast (0::u8)) OR ucast (ucast (drop_bit 16 len) :: u8) :: u16)) OR
       ucast (push_bit 8 (ucast (ucast (drop_bit 8 len) :: u8)) OR ucast (ucast len :: u8) :: u16) :: u32) :: u64) n \<longleftrightarrow> bit (take_bit 24 len) n"
    by (cases "n < 8"; cases "n < 16"; cases "n < 24") (auto simp: bit_simps)
qed

lemma unat_take_24:
  "unat (take_bit 24 (of_nat (length payload) :: u32)) = length payload mod 2 ^ 24"
proof -
  have "unat (take_bit 24 (of_nat (length payload) :: u32)) = take_bit 24 (unat (of_nat (length payload) :: u32))"
    by (rule unsigned_take_bit_eq)
  also have "\<dots> = take_bit 24 (take_bit 32 (length payload))"
    by (simp add: unsigned_of_nat)
  also have "\<dots> = take_bit 24 (length payload)" by (simp add: take_bit_take_bit)
  finally show ?thesis by (simp only: take_bit_eq_mod)
qed


lemma small_u64:
  assumes "unat (v :: u64) < 2 ^ n"
  shows "take_bit n v = v"
  using assms by (simp add: word_unat_eq_iff unsigned_take_bit_eq take_bit_nat_eq_self)

lemma ucast_small:
  assumes "(v :: u64) < 65536"
  shows "ucast (ucast v :: u16) = v" "v < 251 \<Longrightarrow> ucast (ucast v :: u8) = v"
    "v < 251 \<Longrightarrow> (ucast v :: u8) < 251"
  using assms small_u64 [of v 16] small_u64 [of v 8]
  by (auto simp: word_less_nat_alt word_unat_eq_iff unsigned_ucast_eq take_bit_nat_eq_self)

definition wire_length :: "bytes \<Rightarrow> nat" where
  "wire_length payload = length payload mod 2 ^ 24"

lemma unat_wire_length:
  "unat (take_bit 24 (of_nat (length payload) :: u32)) = wire_length payload"
  unfolding wire_length_def by (rule unat_take_24)

lemma wire_length_le: "wire_length payload \<le> length payload"
  by (simp add: wire_length_def)

lemma read_write_packet:
  "read_packet (write_packet seq payload @ rest) =
     Some ((\<lparr>payload_length = of_nat (wire_length payload), sequence_id = seq\<rparr>,
            take (wire_length payload) payload), drop (wire_length payload) payload @ rest)"
proof -
  let ?w = "take_bit 24 (of_nat (length payload) :: u32)"
  have w: "?w = of_nat (wire_length payload)" unfolding unat_wire_length [symmetric] by simp
  have "read_packet (write_packet seq payload @ rest) =
      (if length (payload @ rest) < unat ?w then None
       else Some ((\<lparr>payload_length = ?w, sequence_id = seq\<rparr>, take (unat ?w) (payload @ rest)),
                  drop (unat ?w) (payload @ rest)))"
    unfolding read_packet_def write_packet_def Let_def
    by (simp add: join_le24)
  then show ?thesis
    using wire_length_le [of payload] unfolding unat_wire_length unfolding w by simp
qed

lemma read_length_encoded_write:
  "read_length_encoded_int (write_length_encoded_int v @ q) = Ok (v, length (write_length_encoded_int v))"
proof -
  consider "v < 251" | "251 \<le> v" "v < 65536" | "65536 \<le> v" "v < 16777216" | "16777216 \<le> v"
    by (metis not_less)
  then show ?thesis
  proof cases
    case 1
    then have v: "v < 65536" by (rule less_trans) simp
    have "(ucast v :: u8) \<notin> {0xFB, 0xFC, 0xFD, 0xFE, 0xFF}" using ucast_small(3) [OF v 1] by auto
    with 1 ucast_small(2) [OF v 1] show ?thesis
      by (simp add: read_length_encoded_int_def write_length_encoded_int_def)
  next
    case 2
    then have "\<not> v < 251" by simp
    with 2 ucast_small(1) [of v] show ?thesis
      by (simp add: read_length_encoded_int_def write_length_encoded_int_def get_le)
  next
    case 3
    then have v: "\<not> v < 251" "\<not> v < 65536" "unat v < 2 ^ 24"
      by (auto simp: word_less_nat_alt word_le_nat_alt)
    from 3 v(1,2) join_le24_64 [of v] small_u64 [OF v(3)] show ?thesis
      by (simp add: read_length_encoded_int_def write_length_encoded_int_def)
  next
    case 4
    then have "\<not> v < 251" "\<not> v < 65536" "\<not> v < 16777216"
      by (auto simp: word_less_nat_alt word_le_nat_alt)
    then show ?thesis
      by (simp add: read_length_encoded_int_def write_length_encoded_int_def get_le)
  qed
qed

text \<open>The auth response in the three encodings; the last one holds text only.\<close>

definition auth_ok :: "u32 \<Rightarrow> bytes \<Rightarrow> bool" where
  "auth_ok caps auth \<longleftrightarrow>
     has_cap caps CLIENT_PLUGIN_AUTH_LENENC_CLIENT_DATA \<or>
     (if has_cap caps CLIENT_SECURE_CONNECTION then length auth < 256
      else 0 \<notin> set auth \<and> utf8 (from_utf8_lossy auth) = auth)"

lemma unat_of_nat_u64: "n < 2 ^ 64 \<Longrightarrow> unat (of_nat n :: u64) = n"
  by (simp add: unat_of_nat)

lemma read_auth_response_write:
  assumes "auth_ok caps auth" and c: "c = length pre"
    and len: "length pre + length (write_auth_response caps auth) < 2 ^ 64"
  shows "read_auth_response caps (pre @ write_auth_response caps auth @ q) c =
    Some (Ok (auth, c + length (write_auth_response caps auth)))"
proof (cases "has_cap caps CLIENT_PLUGIN_AUTH_LENENC_CLIENT_DATA")
  case True
  let ?n = "write_length_encoded_int (of_nat (length auth))"
  from True len have small: "length auth < 2 ^ 64" "length pre + length ?n + length auth < 2 ^ 64"
    by (simp_all add: write_auth_response_def)
  have "read_from read_length_encoded_int (pre @ ?n @ auth @ q) c = Some (Ok (of_nat (length auth), length ?n))"
    using c by (simp add: read_from_append read_length_encoded_write)
  moreover have "slice (pre @ ?n @ auth @ q) (c + length ?n) (c + length ?n + length auth) = Some (Ok auth)"
    using slice_append [of "c + length ?n" "pre @ ?n" _ auth q] c by simp
  ultimately show ?thesis
    using True small c
    by (simp add: read_auth_response_def write_auth_response_def usize_add_def unat_of_nat_u64 Let_def
        add.assoc)
next
  case nolen: False
  show ?thesis
  proof (cases "has_cap caps CLIENT_SECURE_CONNECTION")
    case True
    with nolen assms(1) have "unat (of_nat (length auth) :: u8) = length auth"
      by (simp add: auth_ok_def unat_of_nat_small)
    moreover have "slice (pre @ (of_nat (length auth) # auth) @ q) (c + 1) (c + 1 + length auth) =
        Some (Ok auth)"
      using slice_append [of "c + 1" "pre @ [of_nat (length auth)]" _ auth q] c by simp
    ultimately show ?thesis
      using True nolen c
      by (simp add: read_auth_response_def write_auth_response_def byte_at_append)
  next
    case False
    with nolen assms(1) have a: "0 \<notin> set auth" "utf8 (from_utf8_lossy auth) = auth"
      by (simp_all add: auth_ok_def)
    have "takeWhile (\<lambda>b. b \<noteq> 0) (auth @ 0 # q) = auth"
      using a(1) by (subst takeWhile_append2) auto
    then have "read_null_terminated_string (auth @ 0 # q) = Ok (from_utf8_lossy auth, length auth + 1)"
      by (simp add: read_null_terminated_string_def)
    with False nolen a(2) c show ?thesis
      by (simp add: read_auth_response_def write_auth_response_def read_from_append)
  qed
qed

lemma read_optional_string_write:
  assumes "(str \<noteq> None) = has_cap caps flag" "\<And>s. str = Some s \<Longrightarrow> plain_string s" "c = length pre"
  shows "read_optional_string caps flag (pre @ write_optional_string caps flag str @ q) c =
    Some (Ok (str, c + length (write_optional_string caps flag str)))"
proof (cases str)
  case None
  with assms(1) show ?thesis by (simp add: read_optional_string_def write_optional_string_def)
next
  case (Some s)
  with assms(2) have "read_null_terminated_string (utf8 s @ 0 # q) = Ok (s, length (utf8 s) + 1)"
    by (simp add: read_null_terminated_utf8 plain_string_def)
  with Some assms(1,3) show ?thesis
    by (simp add: read_optional_string_def write_optional_string_def read_from_append)
qed

text \<open>The connection attributes as a client writes them.\<close>

definition ser_string :: "ustring \<Rightarrow> bytes" where
  "ser_string s = write_length_encoded_int (of_nat (length (utf8 s))) @ utf8 s"

definition ser_pairs :: "attrs \<Rightarrow> bytes" where
  "ser_pairs as = concat (map (\<lambda>(k, v). ser_string k @ ser_string v) as)"

definition ser_attrs :: "attrs \<Rightarrow> bytes" where
  "ser_attrs as = write_length_encoded_int (of_nat (length (ser_pairs as))) @ ser_pairs as"

lemma read_ser_string:
  assumes "c = length pre" "length pre + length (ser_string s) < 2 ^ 64"
  shows "read_from read_length_encoded_int (pre @ ser_string s @ q) c =
      Some (Ok (of_nat (length (utf8 s)), length (ser_string s) - length (utf8 s)))"
    "usize_add (c + (length (ser_string s) - length (utf8 s))) (unat (of_nat (length (utf8 s)) :: u64)) =
      c + length (ser_string s)"
    "slice (pre @ ser_string s @ q) (c + (length (ser_string s) - length (utf8 s))) (c + length (ser_string s)) =
      Some (Ok (utf8 s))"
  using assms slice_append [of "c + (length (ser_string s) - length (utf8 s))"
      "pre @ write_length_encoded_int (of_nat (length (utf8 s)))" _ "utf8 s" q]
  by (simp_all add: ser_string_def read_from_append read_length_encoded_write usize_add_def
      unat_of_nat_u64 add.assoc)

lemma parse_attrs_loop_ser:
  assumes "\<forall>(k, v) \<in> set as. proper_string k \<and> proper_string v"
    and "c = length pre" "e = c + length (ser_pairs as)" "e < 2 ^ 64"
  shows "parse_attrs_loop (pre @ ser_pairs as @ q) e c acc = Some (Ok (acc @ as))"
  using assms
proof (induction as arbitrary: pre c acc)
  case Nil
  then show ?case by (subst parse_attrs_loop.simps) (simp add: ser_pairs_def)
next
  case (Cons kv as)
  obtain k v where kv: "kv = (k, v)" by (cases kv)
  let ?s = "pre @ ser_string k @ ser_string v @ ser_pairs as @ q"
  let ?c1 = "c + length (ser_string k)" and ?c2 = "c + length (ser_string k) + length (ser_string v)"
  have pairs: "ser_pairs (kv # as) = ser_string k @ ser_string v @ ser_pairs as"
    by (simp add: ser_pairs_def kv)
  with Cons.prems have e: "e = ?c2 + length (ser_pairs as)" "e < 2 ^ 64" by simp_all
  have pos: "0 < length (ser_string k)"
    by (simp add: ser_string_def write_length_encoded_int_def)
  from Cons.prems e have "length pre + length (ser_string k) < 2 ^ 64"
    "length (pre @ ser_string k) + length (ser_string v) < 2 ^ 64" by simp_all
  note k = read_ser_string [OF Cons.prems(2) this(1)]
    and v = read_ser_string [OF _ this(2), of ?c1]
  have "parse_attrs_loop ?s e ?c2 (acc @ [(k, v)]) = Some (Ok ((acc @ [(k, v)]) @ as))"
    using Cons.IH [of ?c2 "pre @ ser_string k @ ser_string v" "acc @ [(k, v)]"] Cons.prems(1,2,4) e(1) by simp
  with k v e pos Cons.prems kv show ?case
    unfolding pairs by (subst parse_attrs_loop.simps) (simp add: Let_def)
qed

lemma parse_connect_attrs_ser:
  assumes "\<forall>(k, v) \<in> set as. proper_string k \<and> proper_string v" and len: "length (ser_attrs as) < 2 ^ 64"
  shows "parse_connect_attrs (ser_attrs as) = Some (Ok as)"
proof -
  let ?n = "write_length_encoded_int (of_nat (length (ser_pairs as)))"
  have n: "?n \<noteq> []" by (simp add: write_length_encoded_int_def)
  then have ne: "ser_attrs as \<noteq> []" by (simp add: ser_attrs_def)
  have l: "length ?n + length (ser_pairs as) < 2 ^ 64" using len by (simp add: ser_attrs_def)
  have r: "read_from read_length_encoded_int (ser_attrs as) 0 = Some (Ok (of_nat (length (ser_pairs as)), length ?n))"
    by (simp add: read_from_def ser_attrs_def read_length_encoded_write)
  show ?thesis
  proof (cases "as = []")
    case True
    with ne r show ?thesis by (simp add: parse_connect_attrs_def ser_pairs_def)
  next
    case False
    have "0 < length (ser_string (fst (hd as)))" by (simp add: ser_string_def write_length_encoded_int_def)
    with False have "0 < length (ser_pairs as)" by (cases as) (auto simp: ser_pairs_def split: prod.splits)
    then have "(of_nat (length (ser_pairs as)) :: u64) \<noteq> 0"
      using unat_of_nat_u64 [of "length (ser_pairs as)"] l by auto
    with n ne r l parse_attrs_loop_ser [OF assms(1), of "length ?n" ?n _ "[]" "[]"] show ?thesis
      by (simp add: parse_connect_attrs_def usize_add_def unat_of_nat_u64 ser_attrs_def)
  qed
qed

section \<open>Round trips of the handshake\<close>

text \<open>What a response must be for its capabilities to announce exactly the fields it has.\<close>

definition response_ok :: "handshake_response41 \<Rightarrow> bool" where
  "response_ok r \<longleftrightarrow>
     length (client_reserved r) = 23 \<and> plain_string (username r) \<and>
     auth_ok (capability_flags r) (auth_response r) \<and>
     (database r \<noteq> None) = has_cap (capability_flags r) CLIENT_CONNECT_WITH_DB \<and>
     (\<forall>s. database r = Some s \<longrightarrow> plain_string s) \<and>
     (auth_plugin_name r \<noteq> None) = has_cap (capability_flags r) CLIENT_PLUGIN_AUTH \<and>
     (\<forall>s. auth_plugin_name r = Some s \<longrightarrow> plain_string s) \<and>
     (connect_attrs r \<noteq> None) = has_cap (capability_flags r) CLIENT_CONNECT_ATTRS \<and>
     (\<forall>as. connect_attrs r = Some as \<longrightarrow> (\<forall>(k, v) \<in> set as. proper_string k \<and> proper_string v))"

text \<open>The payload of a client that sends its attributes behind the fields the code can write.\<close>

definition ser_response :: "handshake_response41 \<Rightarrow> bytes" where
  "ser_response r =
     build_handshake_response41 r @ (case connect_attrs r of Some as \<Rightarrow> ser_attrs as | None \<Rightarrow> [])"

lemma read_attrs_ser:
  assumes "(as \<noteq> None) = has_cap caps CLIENT_CONNECT_ATTRS"
    "\<And>a. as = Some a \<Longrightarrow> (\<forall>(k, v) \<in> set a. proper_string k \<and> proper_string v)"
    "c = length pre" "length pre + length (case as of Some a \<Rightarrow> ser_attrs a | None \<Rightarrow> []) < 2 ^ 64"
  shows "read_attrs caps (pre @ (case as of Some a \<Rightarrow> ser_attrs a | None \<Rightarrow> [])) c = Some (Ok as)"
proof (cases as)
  case None
  with assms(1) show ?thesis by (simp add: read_attrs_def)
next
  case (Some a)
  have "ser_attrs a \<noteq> []" by (simp add: ser_attrs_def write_length_encoded_int_def)
  with Some assms parse_connect_attrs_ser [of a] show ?thesis by (simp add: read_attrs_def)
qed

lemma response_head:
  assumes "length res = 23"
  shows "read_from read_u32_le (le32 caps @ le32 mp @ [cs] @ res @ q) 0 = Some (Ok caps)"
    "read_from read_u32_le (le32 caps @ le32 mp @ [cs] @ res @ q) 4 = Some (Ok mp)"
    "byte_at (le32 caps @ le32 mp @ [cs] @ res @ q) 8 = Some (Ok cs)"
    "slice (le32 caps @ le32 mp @ [cs] @ res @ q) 9 32 = Some (Ok res)"
    "read_from r (le32 caps @ le32 mp @ [cs] @ res @ q) 32 = Some (r q)"
proof -
  show "read_from read_u32_le (le32 caps @ le32 mp @ [cs] @ res @ q) 0 = Some (Ok caps)"
    by (simp add: read_from_def read_le)
  show "read_from read_u32_le (le32 caps @ le32 mp @ [cs] @ res @ q) 4 = Some (Ok mp)"
    by (simp add: read_from_append read_le)
  show "byte_at (le32 caps @ le32 mp @ [cs] @ res @ q) 8 = Some (Ok cs)"
    using byte_at_append [of 8 "le32 caps @ le32 mp" cs "res @ q"] by simp
  show "slice (le32 caps @ le32 mp @ [cs] @ res @ q) 9 32 = Some (Ok res)"
    using assms slice_append [of 9 "le32 caps @ le32 mp @ [cs]" 32 res q] by simp
  show "read_from r (le32 caps @ le32 mp @ [cs] @ res @ q) 32 = Some (r q)"
    using assms read_from_append [of 32 "le32 caps @ le32 mp @ [cs] @ res" r q] by simp
qed

lemma parse_ser_response:
  assumes ok: "response_ok r" and len: "length (ser_response r) < 2 ^ 64"
  shows "parse_handshake_response41 (ser_response r) = Some (Ok r)"
proof -
  let ?caps = "capability_flags r"
  let ?H = "le32 ?caps @ le32 (max_packet_size r) @ [client_character_set r] @ client_reserved r"
  let ?U = "utf8 (username r) @ [0]"
  let ?A = "write_auth_response ?caps (auth_response r)"
  let ?D = "write_optional_string ?caps CLIENT_CONNECT_WITH_DB (database r)"
  let ?P = "write_optional_string ?caps CLIENT_PLUGIN_AUTH (auth_plugin_name r)"
  let ?T = "case connect_attrs r of Some as \<Rightarrow> ser_attrs as | None \<Rightarrow> []"
  let ?c = "32 + length ?U"
  have ser: "ser_response r = ?H @ ?U @ ?A @ ?D @ ?P @ ?T"
    by (simp add: ser_response_def build_handshake_response41_def)
  have H: "length (client_reserved r) = 23" using ok by (simp add: response_ok_def)
  have user: "read_null_terminated_string (?U @ ?A @ ?D @ ?P @ ?T) = Ok (username r, length ?U)"
    using ok by (simp add: response_ok_def plain_string_def read_null_terminated_utf8)
  have auth: "read_auth_response ?caps (ser_response r) ?c = Some (Ok (auth_response r, ?c + length ?A))"
    using ok len H read_auth_response_write [of ?caps "auth_response r" ?c "?H @ ?U" "?D @ ?P @ ?T"]
    by (simp add: ser response_ok_def)
  have db: "read_optional_string ?caps CLIENT_CONNECT_WITH_DB (ser_response r) (?c + length ?A) =
      Some (Ok (database r, ?c + length ?A + length ?D))"
    using ok H read_optional_string_write [of "database r" ?caps CLIENT_CONNECT_WITH_DB
        "?c + length ?A" "?H @ ?U @ ?A" "?P @ ?T"] by (simp add: ser response_ok_def)
  have plugin: "read_optional_string ?caps CLIENT_PLUGIN_AUTH (ser_response r) (?c + length ?A + length ?D) =
      Some (Ok (auth_plugin_name r, ?c + length ?A + length ?D + length ?P))"
    using ok H read_optional_string_write [of "auth_plugin_name r" ?caps CLIENT_PLUGIN_AUTH
        "?c + length ?A + length ?D" "?H @ ?U @ ?A @ ?D" ?T] by (simp add: ser response_ok_def)
  have attrs: "read_attrs ?caps (ser_response r) (?c + length ?A + length ?D + length ?P) =
      Some (Ok (connect_attrs r))"
    using ok len H read_attrs_ser [of "connect_attrs r" ?caps "?c + length ?A + length ?D + length ?P"
        "?H @ ?U @ ?A @ ?D @ ?P"] by (simp add: ser response_ok_def)
  have head: "read_from read_u32_le (ser_response r) 0 = Some (Ok ?caps)"
    "read_from read_u32_le (ser_response r) 4 = Some (Ok (max_packet_size r))"
    "byte_at (ser_response r) 8 = Some (Ok (client_character_set r))"
    "slice (ser_response r) 9 32 = Some (Ok (client_reserved r))"
    "read_from read_null_terminated_string (ser_response r) 32 = Some (Ok (username r, length ?U))"
    unfolding ser append_assoc by (simp_all only: response_head [OF H] user [unfolded append_assoc])
  show ?thesis
    unfolding parse_handshake_response41_def
    by (simp only: head and_then_simps prod.case auth db plugin attrs) simp
qed

text \<open>
  C27 (roundtrip). The proxy reads back every handshake response a client writes, in all three
  encodings of the auth response, with the database, the plugin name and the connection attributes
  its capability flags announce: nothing of the client's identity is lost or invented.
\<close>

theorem handshake_response_roundtrip:
  assumes "response_ok r" and "length (ser_response r) < 2 ^ 64"
  shows "parse_handshake_response41 (ser_response r) = Some (Ok r)"
  using assms by (rule parse_ser_response)

definition sample_response :: handshake_response41 where
  "sample_response =
     default_handshake_response41\<lparr>
       capability_flags := CLIENT_PROTOCOL_41 OR CLIENT_SECURE_CONNECTION OR CLIENT_PLUGIN_AUTH OR
         CLIENT_CONNECT_WITH_DB OR CLIENT_CONNECT_ATTRS,
       username := [0x61], auth_response := [1, 2, 3], database := Some [0x64],
       auth_plugin_name := Some [0x70], connect_attrs := Some [([0x6F], [0x6D])]\<rparr>"

lemma sample_caps:
  "has_cap (capability_flags sample_response) CLIENT_CONNECT_WITH_DB"
  "has_cap (capability_flags sample_response) CLIENT_PLUGIN_AUTH"
  "has_cap (capability_flags sample_response) CLIENT_CONNECT_ATTRS"
  "has_cap (capability_flags sample_response) CLIENT_SECURE_CONNECTION"
  by (simp_all add: sample_response_def has_cap_def capability_bits)

lemma sample_response_ok: "response_ok sample_response"
  unfolding response_ok_def
  by (simp add: sample_caps, simp add: sample_response_def default_handshake_response41_def
      plain_string_def is_scalar_def auth_ok_def has_cap_def capability_bits)

theorem handshake_response_roundtrip_witness:
  "parse_handshake_response41 (ser_response sample_response) = Some (Ok sample_response) \<and>
   database sample_response = Some [0x64]"
proof -
  have "length (ser_response sample_response) < 2 ^ 64"
    by (simp add: ser_response_def build_handshake_response41_def write_auth_response_def
        write_optional_string_def sample_response_def default_handshake_response41_def ser_attrs_def
        ser_pairs_def ser_string_def write_length_encoded_int_def utf8_def utf8_char_def)
  with handshake_response_roundtrip [OF sample_response_ok] show ?thesis
    by (simp add: sample_response_def)
qed

text \<open>What the server's handshake must be: the second part of the scramble is always read.\<close>

definition handshake_ok :: "handshake_v10 \<Rightarrow> bool" where
  "handshake_ok h \<longleftrightarrow>
     protocol_version h = 10 \<and> plain_string (server_version h) \<and> length (auth_plugin_data_part_1 h) = 8 \<and>
     length (reserved h) = 10 \<and> has_cap (server_capability_flags h) CLIENT_SECURE_CONNECTION \<and>
     length (auth_plugin_data_part_2 h) + 1 = part2_len (auth_plugin_data_length h) \<and>
     (if has_cap (server_capability_flags h) CLIENT_PLUGIN_AUTH then plain_string (server_plugin_name h)
      else server_plugin_name h = [])"

lemma parse_handshake_tail_built:
  assumes ok: "handshake_ok h" and lower: "capability_flags_lower g = capability_flags_lower h"
    and name: "server_plugin_name g = []"
    and part2: "auth_plugin_data_part_2 g = []" and c: "c = length pre"
    and p: "p = pre @ [character_set h] @ le16 (status_flags h) @ le16 (capability_flags_upper h) @
      [auth_plugin_data_length h] @ reserved h @ auth_plugin_data_part_2 h @ [0] @
      utf8 (server_plugin_name h) @ [0]"
  shows "parse_handshake_tail p c g =
    Some (Ok (g\<lparr>character_set := character_set h, status_flags := status_flags h,
      capability_flags_upper := capability_flags_upper h,
      auth_plugin_data_length := auth_plugin_data_length h, reserved := reserved h,
      auth_plugin_data_part_2 := auth_plugin_data_part_2 h, server_plugin_name := server_plugin_name h\<rparr>))"
proof -
  let ?tail = "auth_plugin_data_part_2 h @ [0] @ utf8 (server_plugin_name h) @ [0]"
  let ?n = "length (auth_plugin_data_part_2 h) + 1"
  let ?caps = "combine_flags (capability_flags_upper h) (capability_flags_lower h)"
  have r: "length (reserved h) = 10" and l2: "part2_len (auth_plugin_data_length h) = ?n"
    and secure: "has_cap ?caps CLIENT_SECURE_CONNECTION"
    using ok by (simp_all add: handshake_ok_def server_capability_flags_def)
  have read: "byte_at p c = Some (Ok (character_set h))"
    "read_from read_u16_le p (c + 1) = Some (Ok (status_flags h))"
    "read_from read_u16_le p (c + 3) = Some (Ok (capability_flags_upper h))"
    "byte_at p (c + 5) = Some (Ok (auth_plugin_data_length h))"
    using c read_from_append [of "c + 1" "pre @ [character_set h]" read_u16_le]
      read_from_append [of "c + 3" "pre @ [character_set h] @ le16 (status_flags h)" read_u16_le]
      byte_at_append [of "c + 5" "pre @ [character_set h] @ le16 (status_flags h) @ le16 (capability_flags_upper h)"]
    by (simp_all add: p byte_at_append read_le)
  have res: "c < length p" "c + 6 + 10 \<le> length p" "take 10 (drop (c + 6) p) = reserved h"
    using c r by (simp_all add: p)
  have rest: "drop (c + 6 + 10) p = ?tail" using c r by (simp add: p)
  then have len: "length p - (c + 6 + 10) = length ?tail" by (metis length_drop)
  have part: "drop_trailing_null (take ?n (drop (c + 6 + 10) p)) = auth_plugin_data_part_2 h"
    "min ?n (length p - (c + 6 + 10)) = ?n"
    unfolding rest len by (simp_all add: drop_trailing_null_def)
  have more: "c + 6 + 10 + ?n < length p" using len by simp
  have name_read: "read_from read_null_terminated_string p (c + 6 + 10 + ?n) =
      Some (read_null_terminated_string (utf8 (server_plugin_name h) @ [0]))"
  proof -
    have "drop (c + 6 + 10 + ?n) p = drop ?n (drop (c + 6 + 10) p)" by (simp only: drop_drop add.commute)
    also have "\<dots> = utf8 (server_plugin_name h) @ [0]" unfolding rest by simp
    finally show ?thesis using more by (simp add: read_from_def)
  qed
  have named: "read_null_terminated_string (utf8 (server_plugin_name h) @ [0]) =
      Ok (server_plugin_name h, length (utf8 (server_plugin_name h)) + 1)"
    if "has_cap ?caps CLIENT_PLUGIN_AUTH"
    using that ok by (simp add: handshake_ok_def server_capability_flags_def plain_string_def
        read_null_terminated_utf8)
  have unnamed: "server_plugin_name h = []" if "\<not> has_cap ?caps CLIENT_PLUGIN_AUTH"
    using that ok by (simp add: handshake_ok_def server_capability_flags_def)
  show ?thesis
    unfolding parse_handshake_tail_def Let_def
    by (cases "has_cap ?caps CLIENT_PLUGIN_AUTH")
      (simp_all only: read res part more name_read named l2 lower secure and_then_simps prod.case
        if_True if_False not_True_eq_False simp_thms, simp_all add: name unnamed)
qed

text \<open>
  The handshake the proxy builds is read back field by field by the parser it uses
  for the real server, whenever the second part of the scramble has the announced length: version,
  scramble, capabilities, status and plugin name all survive.
\<close>

lemma handshake_v10_roundtrip:
  assumes ok: "handshake_ok h"
  shows "parse_handshake_v10 (build_handshake_v10 h) = Some (Ok h)"
proof -
  let ?V = "10 # utf8 (server_version h) @ [0]"
  let ?I = "le32 (server_connection_id h)"
  let ?S = "auth_plugin_data_part_1 h"
  let ?L = "le16 (capability_flags_lower h)"
  let ?T = "[character_set h] @ le16 (status_flags h) @ le16 (capability_flags_upper h) @
    [auth_plugin_data_length h] @ reserved h @ auth_plugin_data_part_2 h @ [0] @
    utf8 (server_plugin_name h) @ [0]"
  define p where "p = build_handshake_v10 h"
  let ?c = "1 + (length (utf8 (server_version h)) + 1)"
  have p: "p = ?V @ ?I @ ?S @ [0] @ ?L @ ?T" and s: "length ?S = 8" and v: "plain_string (server_version h)"
    using ok by (simp_all add: p_def build_handshake_v10_def handshake_ok_def)
  have "p ! 0 = 10" "p \<noteq> []" by (simp_all add: p)
  moreover have "read_from read_null_terminated_string p 1 =
      Some (Ok (server_version h, length (utf8 (server_version h)) + 1))"
    using v read_from_append [of 1 "[10]" read_null_terminated_string]
    by (simp add: p plain_string_def read_null_terminated_utf8)
  moreover have "read_from read_u32_le p ?c = Some (Ok (server_connection_id h))"
    unfolding p by (subst read_from_append) (simp_all add: read_le)
  moreover have "slice p (?c + 4) (?c + 4 + 8) = Some (Ok ?S)"
    using slice_append [of "?c + 4" "?V @ ?I" "?c + 4 + 8" ?S "[0] @ ?L @ ?T"] s by (simp add: p)
  moreover have "read_from read_u16_le p (?c + 13) = Some (Ok (capability_flags_lower h))"
    using read_from_append [of "?c + 13" "?V @ ?I @ ?S @ [0]" read_u16_le "?L @ ?T"] s
    by (simp add: p read_le)
  moreover have "parse_handshake_tail p (?c + 15)
      \<lparr>protocol_version = 10, server_version = server_version h, server_connection_id = server_connection_id h,
       auth_plugin_data_part_1 = ?S, capability_flags_lower = capability_flags_lower h, character_set = 0x21,
       status_flags = 0, capability_flags_upper = 0, auth_plugin_data_length = 0,
       reserved = replicate 10 0, auth_plugin_data_part_2 = [], server_plugin_name = []\<rparr> = Some (Ok h)"
    using ok s by (subst parse_handshake_tail_built [where h = h and pre = "?V @ ?I @ ?S @ [0] @ ?L"])
      (simp_all add: p handshake_ok_def)
  ultimately show ?thesis
    unfolding p_def [symmetric] parse_handshake_v10_def
    by (simp only: and_then_simps prod.case Let_def if_False simp_thms)
qed

section \<open>The packet frame\<close>

text \<open>A packet as its sequence number and payload; the header repeats the payload's length.\<close>

definition enc_packet :: "u8 \<times> bytes \<Rightarrow> bytes" where
  "enc_packet p = write_packet (fst p) (snd p)"

definition dec_packet :: "bytes \<Rightarrow> ((u8 \<times> bytes) \<times> bytes) option" where
  "dec_packet bs = map_option (\<lambda>((h, payload), rest). ((sequence_id h, payload), rest)) (read_packet bs)"

definition packet_ok :: "u8 \<times> bytes \<Rightarrow> bool" where
  "packet_ok p \<longleftrightarrow> length (snd p) < 2 ^ 24"

lemma dec_enc_packet:
  "dec_packet (enc_packet (seq, payload) @ rest) =
     Some ((seq, take (wire_length payload) payload), drop (wire_length payload) payload @ rest)"
  by (simp add: dec_packet_def enc_packet_def read_write_packet)

lemma read_packet_needs:
  assumes "read_packet bs = Some ((h, payload), rest)"
  shows "length bs = 4 + length payload + length rest"
  using assms by (auto simp: read_packet_def Let_def split: if_splits)

lemma read_packet_append:
  assumes "read_packet bs = Some (hp, rest)"
  shows "read_packet (bs @ q) = Some (hp, rest @ q)"
  using assms by (auto simp: read_packet_def Let_def nth_append not_less split: if_splits)

interpretation mysql: frame_codec enc_packet dec_packet packet_ok
proof unfold_locales
  show "dec_packet (enc_packet x @ rest) = Some (x, rest)" if "packet_ok x" for x rest
  proof (cases x)
    case (Pair seq payload)
    with that show ?thesis by (simp add: dec_enc_packet packet_ok_def wire_length_def)
  qed
  show "dec_packet p = None" if x: "packet_ok x" and pq: "enc_packet x = p @ q" and q: "q \<noteq> []" for x p q
  proof (rule ccontr)
    assume "dec_packet p \<noteq> None"
    then obtain h payload rest where r: "read_packet p = Some ((h, payload), rest)"
      by (auto simp: dec_packet_def)
    then have "read_packet (enc_packet x) = Some ((h, payload), rest @ q)"
      by (simp add: pq read_packet_append)
    moreover have "\<exists>hp. read_packet (enc_packet x) = Some (hp, [])"
      using x read_write_packet [of "fst x" "snd x" "[]"]
      by (auto simp: enc_packet_def packet_ok_def wire_length_def)
    ultimately show False using q by auto
  qed
  show "enc_packet x \<noteq> []" if "packet_ok x" for x
    by (simp add: enc_packet_def write_packet_def Let_def)
qed

text \<open>
  A stream of packets of less than 16 MiB, cut anywhere inside the next one, is read
  back exactly and the partial packet is left for the next read; a payload of 16 MiB or more is
  written under its length modulo 16 MiB, so that its tail is read as further packets.
\<close>

lemma packet_stream:
  assumes "\<forall>p \<in> set ps. packet_ok p" and "packet_ok x" and "enc_packet x = front @ back" and "back \<noteq> []"
  shows "drain dec_packet (Suc (length (concat (map enc_packet ps) @ front))) (concat (map enc_packet ps) @ front) =
      (ps, front) \<and>
    dec_packet (enc_packet (seq, payload) @ rest) =
      Some ((seq, take (length payload mod 2 ^ 24) payload), drop (length payload mod 2 ^ 24) payload @ rest)"
  using mysql.drain_all_stream [OF assms] dec_enc_packet by (simp_all add: wire_length_def)

section \<open>Payloads that panic the parser\<close>

text \<open>
  The parser of the login packet indexes before it checks: a payload of 8 to 31 bytes,
  sent before any authentication, panics the connection's task.
\<close>

lemma short_login_panics:
  assumes "8 \<le> length p" and "length p < 32"
  shows "parse_handshake_response41 p = None"
proof -
  have "read_from read_u32_le p 0 = Some (Ok (get_le32 p))"
    "read_from read_u32_le p 4 = Some (Ok (get_le32 (drop 4 p)))"
    using assms by (simp_all add: read_from_def read_u32_le_def)
  moreover have "(slice p 9 32 :: (bytes, mysql_error) presult) = None" using assms by (simp add: slice_def)
  ultimately show ?thesis
    by (simp add: parse_handshake_response41_def byte_at_def)
qed

section \<open>Error packets\<close>

lemma parse_err_built:
  assumes "err_header e = 0xFF" "sql_state_marker e < 256" "length (sql_state e) = 5" "proper_string (error_message e)"
    "has_cap caps CLIENT_PROTOCOL_41"
  shows "parse_err_packet (build_err_packet e caps) caps = Some (Ok e)"
proof -
  define p where "p = build_err_packet e caps"
  have p: "p = [0xFF] @ le16 (error_code e) @ [of_nat (sql_state_marker e)] @ sql_state e @ utf8 (error_message e)"
    using assms by (simp add: p_def build_err_packet_def)
  have m: "unat (of_nat (sql_state_marker e) :: u8) = sql_state_marker e"
    using assms(2) by (simp add: unat_of_nat_small)
  have "byte_at p 0 = Some (Ok 0xFF)" by (simp add: p byte_at_def)
  moreover have "read_from read_u16_le p 1 = Some (Ok (error_code e))"
    unfolding p by (subst read_from_append) (simp_all add: read_le)
  moreover have "byte_at p 3 = Some (Ok (of_nat (sql_state_marker e)))"
    using byte_at_append [of 3 "[0xFF] @ le16 (error_code e)"] by (simp add: p)
  moreover have "slice p 4 9 = Some (Ok (sql_state e))"
    using slice_append [of 4 "[0xFF] @ le16 (error_code e) @ [of_nat (sql_state_marker e)]" 9 "sql_state e"]
      assms(3) by (simp add: p)
  moreover have "slice p 9 (max 9 (length p)) = Some (Ok (utf8 (error_message e)))"
    using slice_append [of 9 "[0xFF] @ le16 (error_code e) @ [of_nat (sql_state_marker e)] @ sql_state e"
        "max 9 (length p)" "utf8 (error_message e)" "[]"] assms(3) by (simp add: p)
  ultimately show ?thesis
    using assms unfolding p_def [symmetric] parse_err_packet_def by (simp add: m)
qed

end
