(* ===== verification/Session_Relay.thy ===== *)
theory Session_Relay
  imports Mysql_Protocol
begin

text \<open>
  The relay of an authenticated database connection: \<open>SessionConfig\<close> (\<open>keeperdb-proxy/src/auth/session.rs\<close>),
  the session manager with its query limit, its disconnect channel and its duration timer
  (\<open>server/session/manager.rs\<close>), the plain copy loop and the managed relay loop
  (\<open>server/session/relay.rs\<close>).

  The managed loop is a function of the event its \<open>select!\<close> picks: what was read and whether the write
  of it succeeded is part of the event, and time passes in events of their own. Durations are
  milliseconds; the end of a loop is the recorded reason. Query logging observes the bytes and is left
  out, and so is the warning flag of the query limit, which only reaches a log message.
\<close>

section \<open>Session configuration\<close>

record session_config =
  max_duration :: "nat option"
  idle_timeout :: "nat option"
  max_queries :: "u64 option"
  max_connections_per_session :: "u32 option"
  connection_grace_period :: "nat option"
  require_token :: bool
  application_lock_timeout :: "nat option"

definition unlimited :: session_config where
  "unlimited = \<lparr>max_duration = None, idle_timeout = None, max_queries = None,
     max_connections_per_session = None, connection_grace_period = None, require_token = False,
     application_lock_timeout = None\<rparr>"

definition effective_max_connections :: "session_config \<Rightarrow> u32 option" where
  "effective_max_connections c =
     (case max_connections_per_session c of Some m \<Rightarrow> if m > 0 then Some m else None | None \<Rightarrow> None)"

section \<open>Reasons of a disconnect\<close>

datatype disconnect_reason =
  MaxDuration nat | IdleTimeout nat | MaxQueries u64 | ClientDisconnect | ServerDisconnect
| IoError bytes | ConnectionLimitExceeded | TokenInvalid bytes

fun mysql_error_code :: "disconnect_reason \<Rightarrow> u16 option" where
  "mysql_error_code (MaxDuration d) = Some 1317"
| "mysql_error_code (IdleTimeout d) = Some 1317"
| "mysql_error_code (MaxQueries n) = Some 1317"
| "mysql_error_code ConnectionLimitExceeded = Some 1040"
| "mysql_error_code (TokenInvalid e) = Some 1045"
| "mysql_error_code ClientDisconnect = None"
| "mysql_error_code ServerDisconnect = None"
| "mysql_error_code (IoError e) = None"

definition ascii :: "string \<Rightarrow> bytes" where
  "ascii s = map of_char s"

text \<open>The \<open>Debug\<close> format of a duration of whole milliseconds: seconds with a trimmed fraction.\<close>

definition three_digits :: "nat \<Rightarrow> bytes" where
  "three_digits r = map (\<lambda>d. of_nat (48 + d)) [r div 100, r div 10 mod 10, r mod 10]"

definition trim_zeros :: "bytes \<Rightarrow> bytes" where
  "trim_zeros ds = rev (dropWhile (\<lambda>b. b = 48) (rev ds))"

definition debug_duration :: "nat \<Rightarrow> bytes" where
  "debug_duration ms =
     (if ms \<ge> 1000
      then dec_bytes (ms div 1000) @
           (if ms mod 1000 = 0 then [] else 0x2E # trim_zeros (three_digits (ms mod 1000))) @ ascii ''s''
      else if ms > 0 then dec_bytes ms @ ascii ''ms'' else ascii ''0ns'')"

fun message :: "disconnect_reason \<Rightarrow> bytes" where
  "message (MaxDuration d) = ascii ''Session max duration ('' @ debug_duration d @ ascii '') reached''"
| "message (IdleTimeout d) = ascii ''Session idle timeout ('' @ debug_duration d @ ascii '') reached''"
| "message (MaxQueries n) = ascii ''Session query limit ('' @ dec_bytes (unat n) @ ascii '') reached''"
| "message ClientDisconnect = ascii ''Client disconnected''"
| "message ServerDisconnect = ascii ''Database server disconnected''"
| "message (IoError e) = ascii ''I/O error: '' @ e"
| "message ConnectionLimitExceeded = ascii ''Connection limit exceeded for this session''"
| "message (TokenInvalid e) = ascii ''Invalid connection token: '' @ e"

section \<open>The session manager\<close>

text \<open>
  The disconnect channel is one-shot: \<open>disconnect_tx\<close> says whether the manager still holds its sender,
  \<open>timer\<close> the duration of the running timer task and whether that task holds it, \<open>sent\<close> the value sent.
\<close>

record manager =
  config :: session_config
  query_count :: u64
  disconnect_tx :: bool
  disconnect_rx :: bool
  timer :: "(nat \<times> bool) option"
  sent :: "disconnect_reason option"

definition new_manager :: "session_config \<Rightarrow> manager" where
  "new_manager c = \<lparr>config = c, query_count = 0, disconnect_tx = True, disconnect_rx = True,
     timer = None, sent = None\<rparr>"

definition start_timers :: "manager \<Rightarrow> manager" where
  "start_timers m =
     (case max_duration (config m) of
        Some d \<Rightarrow> m\<lparr>timer := Some (d, disconnect_tx m), disconnect_tx := False\<rparr>
      | None \<Rightarrow> m)"

text \<open>The timer task after its two sleeps, which last the duration in all.\<close>

definition timer_fires :: "manager \<Rightarrow> manager" where
  "timer_fires m =
     (case timer m of
        Some (d, holds_tx) \<Rightarrow> (if holds_tx then m\<lparr>sent := Some (MaxDuration d), timer := None\<rparr>
                               else m\<lparr>timer := None\<rparr>)
      | None \<Rightarrow> m)"

definition get_idle_timeout :: "manager \<Rightarrow> nat option" where
  "get_idle_timeout m = idle_timeout (config m)"

definition increment_query_count :: "manager \<Rightarrow> (u64, disconnect_reason) result \<times> manager" where
  "increment_query_count m =
     (let count = query_count m + 1; m' = m\<lparr>query_count := count\<rparr>
      in case max_queries (config m) of
           Some limit \<Rightarrow> (if count \<ge> limit then (Err (MaxQueries count), m') else (Ok count, m'))
         | None \<Rightarrow> (Ok count, m'))"

definition take_disconnect_rx :: "manager \<Rightarrow> bool \<times> manager" where
  "take_disconnect_rx m = (disconnect_rx m, m\<lparr>disconnect_rx := False\<rparr>)"

definition trigger_disconnect :: "disconnect_reason \<Rightarrow> manager \<Rightarrow> manager" where
  "trigger_disconnect reason m =
     (if disconnect_tx m then m\<lparr>sent := Some reason, disconnect_tx := False\<rparr> else m)"

definition shutdown :: "manager \<Rightarrow> manager" where
  "shutdown m = m\<lparr>timer := None, disconnect_tx := False\<rparr>"

section \<open>The copy loop of a plain session\<close>

text \<open>A write, or how many bytes went out before it failed, with the text of the error.\<close>

datatype write_result = Written | WriteFailed nat bytes

definition out :: "write_result \<Rightarrow> bytes \<Rightarrow> bytes" where
  "out w d = (case w of Written \<Rightarrow> d | WriteFailed n e \<Rightarrow> take n d)"

datatype copy_event = Chunk bytes write_result | CopyEof | CopyFailed bytes | CopyQuiet nat

record copy_state =
  copied :: bytes
  copy_waited :: nat
  copy_end :: "(unit, bytes) result option"

definition copy_step :: "nat \<Rightarrow> copy_event \<Rightarrow> copy_state \<Rightarrow> copy_state" where
  "copy_step idle ev s =
     (if copy_end s \<noteq> None then s
      else case ev of
        Chunk d w \<Rightarrow>
          (let s' = s\<lparr>copied := copied s @ out w d, copy_waited := 0\<rparr>
           in case w of Written \<Rightarrow> s' | WriteFailed n e \<Rightarrow> s'\<lparr>copy_end := Some (Err e)\<rparr>)
      | CopyEof \<Rightarrow> s\<lparr>copy_end := Some (Ok ())\<rparr>
      | CopyFailed e \<Rightarrow> s\<lparr>copy_end := Some (Err e)\<rparr>
      | CopyQuiet t \<Rightarrow>
          (let s' = s\<lparr>copy_waited := copy_waited s + t\<rparr>
           in if idle \<noteq> 0 \<and> idle \<le> copy_waited s'
              then s'\<lparr>copy_end := Some (Err (ascii ''Idle timeout after '' @ debug_duration idle))\<rparr>
              else s'))"

section \<open>The managed relay loop\<close>

datatype relay_event =
  TimerFires | Signal
| ClientRead bytes write_result | ClientEof | ClientFailed bytes
| ServerRead bytes write_result | ServerEof | ServerFailed bytes
| Quiet nat

record relay =
  mgr :: manager
  has_rx :: bool
  to_server :: bytes
  to_client :: bytes
  waited :: nat
  ended :: "disconnect_reason option"

text \<open>\<open>ManagedSession::relay\<close>: the idle timeout and the state the loop starts in.\<close>

definition relay_idle :: "nat \<Rightarrow> manager \<Rightarrow> nat" where
  "relay_idle default_idle m = (case get_idle_timeout m of Some t \<Rightarrow> t | None \<Rightarrow> default_idle)"

definition start_relay :: "manager \<Rightarrow> relay" where
  "start_relay m = \<lparr>mgr = snd (take_disconnect_rx m), has_rx = fst (take_disconnect_rx m), to_server = [], to_client = [], waited = 0,
     ended = None\<rparr>"

definition send_err_packet :: "u16 \<Rightarrow> bytes \<Rightarrow> bytes" where
  "send_err_packet code msg = write_packet 1 (0xFF # le16 code @ 0x23 # HY000 @ msg)"

text \<open>
  The end of the loop, with the ERR packet that a forced disconnect sends first. The code ignores
  whether that last write succeeds; here it does.
\<close>

definition final_packet :: "disconnect_reason \<Rightarrow> bytes" where
  "final_packet reason =
     (case mysql_error_code reason of Some code \<Rightarrow> send_err_packet code (message reason) | None \<Rightarrow> [])"

definition force_end :: "disconnect_reason \<Rightarrow> relay \<Rightarrow> relay" where
  "force_end reason r = r\<lparr>to_client := to_client r @ final_packet reason, ended := Some reason\<rparr>"

definition chunk_command :: "bytes \<Rightarrow> u8 option" where
  "chunk_command d = (if length d \<ge> 5 then Some (d ! 4) else None)"

text \<open>The command of a chunk is counted before the chunk is forwarded.\<close>

definition count_chunk :: "bytes \<Rightarrow> manager \<Rightarrow> disconnect_reason option \<times> manager" where
  "count_chunk d m =
     (case chunk_command d of
        Some cmd \<Rightarrow>
          (if is_query_command cmd
           then (case increment_query_count m of
                   (Err reason, m') \<Rightarrow> (Some reason, m')
                 | (Ok _, m') \<Rightarrow> (None, m'))
           else (None, m))
      | None \<Rightarrow> (None, m))"

definition client_chunk :: "bytes \<Rightarrow> write_result \<Rightarrow> relay \<Rightarrow> relay" where
  "client_chunk d w r =
     (if chunk_command d = Some COM_QUIT
      then r\<lparr>to_server := to_server r @ out w d, ended := Some ClientDisconnect\<rparr>
      else case count_chunk d (mgr r) of
             (pending, m') \<Rightarrow>
               (let r' = r\<lparr>mgr := m', to_server := to_server r @ out w d\<rparr>
                in case w of
                     WriteFailed n e \<Rightarrow> r'\<lparr>ended := Some (IoError e)\<rparr>
                   | Written \<Rightarrow> (case pending of Some reason \<Rightarrow> force_end reason r' | None \<Rightarrow> r')))"

definition relay_step :: "nat \<Rightarrow> relay_event \<Rightarrow> relay \<Rightarrow> relay" where
  "relay_step idle ev r =
     (if ended r \<noteq> None then r
      else case ev of
        TimerFires \<Rightarrow> r\<lparr>mgr := timer_fires (mgr r)\<rparr>
      | Signal \<Rightarrow>
          (if has_rx r then (case sent (mgr r) of Some reason \<Rightarrow> force_end reason r | None \<Rightarrow> r) else r)
      | ClientRead d w \<Rightarrow> client_chunk d w (r\<lparr>waited := 0\<rparr>)
      | ClientEof \<Rightarrow> r\<lparr>ended := Some ClientDisconnect\<rparr>
      | ClientFailed e \<Rightarrow> r\<lparr>ended := Some (IoError e)\<rparr>
      | ServerRead d w \<Rightarrow>
          (let r' = r\<lparr>to_client := to_client r @ out w d, waited := 0\<rparr>
           in case w of WriteFailed n e \<Rightarrow> r'\<lparr>ended := Some (IoError e)\<rparr> | Written \<Rightarrow> r')
      | ServerEof \<Rightarrow> r\<lparr>ended := Some ServerDisconnect\<rparr>
      | ServerFailed e \<Rightarrow> r\<lparr>ended := Some (IoError e)\<rparr>
      | Quiet t \<Rightarrow>
          (let r' = r\<lparr>waited := waited r + t\<rparr>
           in if idle \<le> waited r' then force_end (IdleTimeout idle) r' else r'))"

definition relay_run :: "nat \<Rightarrow> relay_event list \<Rightarrow> relay \<Rightarrow> relay" where
  "relay_run idle evs r = fold (relay_step idle) evs r"

text \<open>The events a run gets to see, up to the one that ends it.\<close>

fun processed :: "nat \<Rightarrow> relay_event list \<Rightarrow> relay \<Rightarrow> relay_event list" where
  "processed idle [] r = []"
| "processed idle (ev # evs) r =
     (if ended r \<noteq> None then [] else ev # processed idle evs (relay_step idle ev r))"

section \<open>Lemmas\<close>

lemma relay_run_simps [simp]:
  "relay_run idle [] r = r"
  "relay_run idle (ev # evs) r = relay_run idle evs (relay_step idle ev r)"
  by (simp_all add: relay_run_def)

lemma relay_step_ended [simp]: "ended r \<noteq> None \<Longrightarrow> relay_step idle ev r = r"
  by (simp add: relay_step_def)

lemma relay_run_ended [simp]: "ended r \<noteq> None \<Longrightarrow> relay_run idle evs r = r"
  by (induction evs) simp_all

lemma processed_ended [simp]: "ended r \<noteq> None \<Longrightarrow> processed idle evs r = []"
  by (cases evs) simp_all

text \<open>An invariant that relates a state to the events it has processed.\<close>

lemma processed_induct:
  assumes "P [] r"
    and "\<And>ps s ev. P ps s \<Longrightarrow> ended s = None \<Longrightarrow> ev \<in> set evs \<Longrightarrow> P (ps @ [ev]) (relay_step idle ev s)"
  shows "P (processed idle evs r) (relay_run idle evs r)"
proof -
  have "P (ps @ processed idle evs s) (relay_run idle evs s)"
    if "P ps s" "\<And>qs t ev. P qs t \<Longrightarrow> ended t = None \<Longrightarrow> ev \<in> set evs \<Longrightarrow> P (qs @ [ev]) (relay_step idle ev t)"
    for ps s
    using that
  proof (induction evs arbitrary: ps s)
    case (Cons ev evs)
    show ?case
    proof (cases "ended s")
      case None
      have "P (ps @ [ev]) (relay_step idle ev s)" using Cons.prems None by simp
      then have "P ((ps @ [ev]) @ processed idle evs (relay_step idle ev s)) (relay_run idle evs (relay_step idle ev s))"
        by (rule Cons.IH) (rule Cons.prems(2); simp)
      with None show ?thesis by simp
    qed (use Cons.prems in simp)
  qed simp
  from this [of "[]" r, OF assms(1)] assms(2) show ?thesis by simp
qed

fun client_data :: "relay_event \<Rightarrow> bytes" where
  "client_data (ClientRead d w) = d"
| "client_data _ = []"

fun server_data :: "relay_event \<Rightarrow> bytes" where
  "server_data (ServerRead d w) = d"
| "server_data _ = []"

fun write_ok :: "relay_event \<Rightarrow> bool" where
  "write_ok (ClientRead d w) \<longleftrightarrow> w = Written"
| "write_ok (ServerRead d w) \<longleftrightarrow> w = Written"
| "write_ok _ \<longleftrightarrow> True"

definition end_packet :: "relay \<Rightarrow> bytes" where
  "end_packet r = (case ended r of Some reason \<Rightarrow> final_packet reason | None \<Rightarrow> [])"

lemma final_packet_silent [simp]:
  "final_packet ClientDisconnect = []" "final_packet ServerDisconnect = []" "final_packet (IoError e) = []"
  by (simp_all add: final_packet_def)

lemma out_Written [simp]: "out Written d = d"
  by (simp add: out_def)

lemma relay_step_bytes:
  assumes "ended r = None" "write_ok ev"
  shows "to_server (relay_step idle ev r) = to_server r @ client_data ev \<and>
    to_client (relay_step idle ev r) = to_client r @ server_data ev @ end_packet (relay_step idle ev r)"
  using assms
  by (cases ev) (auto simp: relay_step_def client_chunk_def force_end_def end_packet_def Let_def
      split: option.splits prod.splits)

text \<open>
  C15 (safety). The managed relay is transparent: while its writes succeed, the server gets exactly
  the bytes the client sent and the client exactly the bytes the server sent, in order, whatever the
  sequence of reads, timers and signals, with one ERR packet behind them if the session is ended by
  force.
\<close>

theorem relay_transparent:
  assumes "\<forall>ev \<in> set evs. write_ok ev"
  shows "to_server (relay_run idle evs (start_relay m)) =
      concat (map client_data (processed idle evs (start_relay m))) \<and>
    to_client (relay_run idle evs (start_relay m)) =
      concat (map server_data (processed idle evs (start_relay m))) @
      end_packet (relay_run idle evs (start_relay m))"
proof (rule processed_induct [where P = "\<lambda>ps r. to_server r = concat (map client_data ps) \<and>
    to_client r = concat (map server_data ps) @ end_packet r"])
  show "to_server (start_relay m) = concat (map client_data []) \<and>
      to_client (start_relay m) = concat (map server_data []) @ end_packet (start_relay m)"
    by (simp add: start_relay_def end_packet_def)
  fix ps s ev
  assume "to_server s = concat (map client_data ps) \<and> to_client s = concat (map server_data ps) @ end_packet s"
    and "ended s = None" "ev \<in> set evs"
  with relay_step_bytes [of s ev idle] assms
  show "to_server (relay_step idle ev s) = concat (map client_data (ps @ [ev])) \<and>
      to_client (relay_step idle ev s) = concat (map server_data (ps @ [ev])) @ end_packet (relay_step idle ev s)"
    by (simp add: end_packet_def)
qed

text \<open>The chunks that count against the limit.\<close>

fun is_counted :: "relay_event \<Rightarrow> bool" where
  "is_counted (ClientRead d w) \<longleftrightarrow>
     (case chunk_command d of Some cmd \<Rightarrow> is_query_command cmd | None \<Rightarrow> False)"
| "is_counted _ \<longleftrightarrow> False"

definition counted :: "relay_event list \<Rightarrow> nat" where
  "counted ps = length (filter is_counted ps)"

lemma timer_fires_keeps [simp]:
  "query_count (timer_fires m) = query_count m" "config (timer_fires m) = config m"
  by (auto simp: timer_fires_def split: option.splits prod.splits)

lemma count_chunk_query:
  assumes "chunk_command d = Some cmd" "is_query_command cmd" "max_queries (config m) = Some limit"
  shows "count_chunk d m =
    (if query_count m + 1 \<ge> limit then Some (MaxQueries (query_count m + 1)) else None,
     m\<lparr>query_count := query_count m + 1\<rparr>)"
  using assms by (simp add: count_chunk_def increment_query_count_def Let_def)

text \<open>How a limited manager stands after \<open>n\<close> counted chunks.\<close>

definition limit_inv :: "u64 \<Rightarrow> nat \<Rightarrow> relay \<Rightarrow> bool" where
  "limit_inv limit n r \<longleftrightarrow>
     max_queries (config (mgr r)) = Some limit \<and> unat (query_count (mgr r)) = n \<and> n \<le> max 1 (unat limit) \<and>
     (n = max 1 (unat limit) \<longrightarrow> (\<exists>e. ended r = Some (IoError e)) \<or> ended r = Some (MaxQueries (of_nat n)))"

lemma limit_inv_step:
  assumes inv: "limit_inv limit n r" and running: "ended r = None"
  shows "limit_inv limit (n + (if is_counted ev then 1 else 0)) (relay_step idle ev r)"
proof (cases "is_counted ev")
  case False
  from inv running have "n < max 1 (unat limit)" by (auto simp: limit_inv_def)
  with False inv running show ?thesis
    by (cases ev) (auto simp: limit_inv_def relay_step_def client_chunk_def count_chunk_def force_end_def Let_def
        split: option.splits prod.splits write_result.splits if_splits)
next
  case True
  then obtain d w cmd where ev: "ev = ClientRead d w" and cmd: "chunk_command d = Some cmd" "is_query_command cmd"
    by (cases ev) (auto split: option.splits)
  let ?m = "mgr r"
  from inv running have lim: "max_queries (config ?m) = Some limit" and n: "unat (query_count ?m) = n"
    and less: "n < max 1 (unat limit)" by (auto simp: limit_inv_def)
  have "unat limit < 2 ^ LENGTH(64)" by (rule unsigned_less)
  with less have "Suc n < 2 ^ 64" by (auto simp: max_def split: if_splits)
  then have n1: "unat (query_count ?m + 1) = Suc n"
    using n by (simp add: unat_word_ariths)
  have "of_nat (unat (query_count ?m + 1)) = query_count ?m + 1" by simp
  then have q1: "query_count ?m + 1 = of_nat (Suc n)" unfolding n1 by (rule sym)
  have hit: "query_count ?m + 1 \<ge> limit \<longleftrightarrow> Suc n = max 1 (unat limit)"
    using less by (auto simp: word_le_nat_alt n1 max_def)
  have noquit: "cmd \<noteq> COM_QUIT" using cmd(2) by (auto simp: is_query_command_def com_codes)
  show ?thesis
    using True running noquit lim less hit n1
    by (auto simp: limit_inv_def ev relay_step_def client_chunk_def cmd count_chunk_query [OF cmd lim]
        force_end_def q1 Let_def split: write_result.splits)
qed

text \<open>
  A session with a query limit forwards at most that many counted chunks (one, if the
  limit is 0), and the chunk that reaches the limit ends it; the 64-bit counter never wraps.
\<close>

lemma query_limit_respected:
  assumes "max_queries (config m) = Some limit" and "query_count m = 0"
  shows "counted (processed idle evs (start_relay m)) \<le> max 1 (unat limit) \<and>
    (counted (processed idle evs (start_relay m)) = max 1 (unat limit) \<longrightarrow>
       ended (relay_run idle evs (start_relay m)) \<noteq> None) \<and>
    unat (query_count (mgr (relay_run idle evs (start_relay m)))) = counted (processed idle evs (start_relay m))"
proof -
  have "limit_inv limit (counted (processed idle evs (start_relay m))) (relay_run idle evs (start_relay m))"
  proof (rule processed_induct [where P = "\<lambda>ps r. limit_inv limit (counted ps) r"])
    show "limit_inv limit (counted []) (start_relay m)"
      using assms by (simp add: limit_inv_def start_relay_def take_disconnect_rx_def counted_def)
    show "limit_inv limit (counted (ps @ [ev])) (relay_step idle ev s)"
      if "limit_inv limit (counted ps) s" "ended s = None" for ps s ev
      using limit_inv_step [OF that, of ev idle] by (simp add: counted_def split: if_splits)
  qed
  then show ?thesis by (auto simp: limit_inv_def)
qed

theorem relay_transparent_witness:
  "to_server (relay_run 9 [ClientRead [1, 2] Written, ServerRead [3] Written, Quiet 9, ClientRead [4] Written]
     (start_relay (new_manager unlimited))) = [1, 2]"
  using relay_transparent [of "[ClientRead [1, 2] Written, ServerRead [3] Written, Quiet 9, ClientRead [4] Written]"
      9 "new_manager unlimited"]
  by (simp add: relay_step_def client_chunk_def count_chunk_def chunk_command_def force_end_def start_relay_def
      take_disconnect_rx_def new_manager_def Let_def)

section \<open>Behaviour at the limits\<close>

text \<open>
  The query that reaches the limit is forwarded and the session ended at once: the server
  runs it, the client gets an ERR packet in its place, so a limit of \<open>n\<close> answers \<open>n - 1\<close> queries.
\<close>

lemma last_query_unanswered:
  assumes "ended r = None" and "max_queries (config (mgr r)) = Some limit"
    and "query_count (mgr r) + 1 = limit" and "chunk_command d = Some cmd" and "is_query_command cmd"
  shows "to_server (relay_run idle (ClientRead d Written # evs) r) = to_server r @ d \<and>
    to_client (relay_run idle (ClientRead d Written # evs) r) =
      to_client r @ send_err_packet 1317 (message (MaxQueries limit)) \<and>
    ended (relay_run idle (ClientRead d Written # evs) r) = Some (MaxQueries limit)"
proof -
  have "cmd \<noteq> COM_QUIT" using assms(5) by (auto simp: is_query_command_def com_codes)
  then have "relay_step idle (ClientRead d Written) r =
      force_end (MaxQueries limit)
        (r\<lparr>waited := 0, mgr := (mgr r)\<lparr>query_count := limit\<rparr>, to_server := to_server r @ d\<rparr>)"
    using assms by (simp add: relay_step_def client_chunk_def count_chunk_query Let_def)
  then show ?thesis by (simp add: force_end_def final_packet_def)
qed

text \<open>
  The command byte is looked for in every chunk, not only in the first one of a packet:
  when a query arrives in several reads and the fifth byte of a later read is 0x01, the relay takes it
  for COM_QUIT, ends the session and never forwards the rest of the query.
\<close>

lemma continuation_ends_session:
  assumes packet: "write_packet 0 (COM_QUERY # sql) = a @ b @ c"
    and a: "5 \<le> length a" and b: "5 \<le> length b" "b ! 4 = COM_QUIT"
    and m: "max_queries (config m) = None"
  shows "to_server (relay_run idle (map (\<lambda>d. ClientRead d Written) [a, b, c]) (start_relay m)) = a @ b \<and>
    ended (relay_run idle (map (\<lambda>d. ClientRead d Written) [a, b, c]) (start_relay m)) = Some ClientDisconnect"
proof -
  have "a ! 4 = (a @ b @ c) ! 4" using a by (simp add: nth_append)
  also have "\<dots> = COM_QUERY" unfolding packet [symmetric] by (simp add: write_packet_def Let_def)
  finally have cmd: "chunk_command a = Some COM_QUERY" using a by (simp add: chunk_command_def)
  have "is_query_command COM_QUERY" "COM_QUERY \<noteq> COM_QUIT" by (simp_all add: is_query_command_def com_codes)
  with cmd m b show ?thesis
    by (simp add: start_relay_def take_disconnect_rx_def relay_step_def client_chunk_def count_chunk_def
        increment_query_count_def Let_def chunk_command_def [of b])
qed

text \<open>
  An idle timeout of 0 means none to a plain session, whose copy loop then never times
  out, but ends a managed session before the client has sent anything.
\<close>

lemma zero_idle_timeout:
  assumes "get_idle_timeout m = None"
  shows "ended (relay_run (relay_idle 0 m) [Quiet 0] (start_relay m)) = Some (IdleTimeout 0) \<and>
    copy_end (fold (copy_step 0) (map CopyQuiet ts) \<lparr>copied = [], copy_waited = 0, copy_end = None\<rparr>) = None"
proof -
  have "copy_end (fold (copy_step 0) (map CopyQuiet ts) s) = None" if "copy_end s = None" for s
    using that by (induction ts arbitrary: s) (simp_all add: copy_step_def Let_def)
  with assms show ?thesis
    by (simp add: relay_idle_def start_relay_def relay_step_def force_end_def)
qed

end
