(* ===== verification/Proxy_Handler.thy ===== *)
theory Proxy_Handler
  imports Session_Relay Connection_Tracker
begin

text \<open>
  What the connection handlers of the database proxy (\<open>keeperdb-proxy/src/server/handlers\<close>) share: the two
  peers, the auth provider, and the registration of the connection before success is reported.

  A handler is a function on the state: what both peers still send, what the proxy wrote to each, whether
  its writes succeed, and the connection tracker. Its result is a value, an error or - \<open>None\<close> - a panic.
  The auth provider's answers, the connect, the TLS handshakes (which replace a peer's remaining bytes by
  the plain text), the clock and the texts of errors are parameters. The locale \<open>reporting\<close> states what a
  handler promises of its refusal and its report; its lemma is that a session is registered or not at all.
\<close>

section \<open>Parameters and state\<close>

datatype 'e proxy_error =
  Eof | WriteError | TimedOut | ConnectFailed | ProtocolError 'e | UnsupportedSsl | TlsFailed
| ConfigError | TokenError | InvalidToken ustring | TokenExpired | CredentialRetrieval | NoPassword
| ServerRejected ustring | SessionLimit tracker_error | UnexpectedAuthPacket u8

record credentials =
  cred_username :: ustring
  cred_password :: "ustring option"

record proxy_env =
  connects :: bool
  client_addr :: ustring
  target_host :: ustring
  target_port :: u16
  target_database :: "ustring option"
  tls_accept :: "bytes option option"
  client_stalls :: bool
  get_session_config :: "session_config option"
  get_auth :: "credentials option"
  has_tracker :: bool
  session_id :: uuid
  env_session_uid :: "ustring option"
  logs_queries :: bool
  time_now :: nat
  limit_text :: "tracker_error \<Rightarrow> ustring"

record peers =
  client_in :: bytes
  client_out :: bytes
  client_ok :: bool
  server_in :: bytes
  server_out :: bytes
  server_ok :: bool
  conn_tracker :: tracker

section \<open>Handlers\<close>

type_synonym ('s, 'e, 'a) handler = "'s \<Rightarrow> ('a, 'e proxy_error) result option \<times> 's"

definition return_h :: "'a \<Rightarrow> ('s, 'e, 'a) handler" where
  "return_h a = (\<lambda>s. (Some (Ok a), s))"

definition fail_h :: "'e proxy_error \<Rightarrow> ('s, 'e, 'a) handler" where
  "fail_h e = (\<lambda>s. (Some (Err e), s))"

definition bind_h :: "('s, 'e, 'a) handler \<Rightarrow> ('a \<Rightarrow> ('s, 'e, 'b) handler) \<Rightarrow> ('s, 'e, 'b) handler" where
  "bind_h m f = (\<lambda>s. case m s of
     (Some (Ok a), s') \<Rightarrow> f a s'
   | (Some (Err e), s') \<Rightarrow> (Some (Err e), s')
   | (None, s') \<Rightarrow> (None, s'))"

definition parsed :: "('a, 'e) presult \<Rightarrow> ('s, 'e, 'a) handler" where
  "parsed p = (\<lambda>s. (case p of
     None \<Rightarrow> None | Some (Ok a) \<Rightarrow> Some (Ok a) | Some (Err e) \<Rightarrow> Some (Err (ProtocolError e)), s))"

definition put_client :: "bytes \<Rightarrow> ('z peers_scheme, 'e, unit) handler" where
  "put_client bs = (\<lambda>s.
     if client_ok s then (Some (Ok ()), s\<lparr>client_out := client_out s @ bs\<rparr>) else (Some (Err WriteError), s))"

definition put_server :: "bytes \<Rightarrow> ('z peers_scheme, 'e, unit) handler" where
  "put_server bs = (\<lambda>s.
     if server_ok s then (Some (Ok ()), s\<lparr>server_out := server_out s @ bs\<rparr>) else (Some (Err WriteError), s))"

text \<open>The TLS handshake on the client's stream; what follows is the plain text inside it.\<close>

definition accept_tls :: "bytes option \<Rightarrow> ('z peers_scheme, 'e, unit) handler" where
  "accept_tls plain = (\<lambda>s. case plain of
     None \<Rightarrow> (Some (Err TlsFailed), s)
   | Some p \<Rightarrow> (Some (Ok ()), s\<lparr>client_in := p\<rparr>))"

section \<open>Registration\<close>

definition register_connection ::
  "'x proxy_env_scheme \<Rightarrow> session_config \<Rightarrow> ustring \<Rightarrow> ustring option \<Rightarrow>
     (tracker_error \<Rightarrow> ('z peers_scheme, 'e, unit) handler) \<Rightarrow>
     ('z peers_scheme, 'e, connection_guard option) handler" where
  "register_connection env cfg tid app refuse = (\<lambda>s.
     (let limit = map_option unat (effective_max_connections cfg)
      in if (env_session_uid env = None \<and> limit = None) \<or> \<not> has_tracker env then (Some (Ok None), s)
         else let registered =
                (case env_session_uid env of
                   Some uid \<Rightarrow> try_register_for_target_with_app (time_now env)
                     (target_id (target_host env) (target_port env)) uid tid (session_id env) limit app
                     (application_lock_timeout cfg) (conn_tracker s)
                 | None \<Rightarrow> try_register_with_limits_and_app (time_now env) tid (session_id env) limit app
                     (conn_tracker s))
              in case registered of
                   (Ok g, tr) \<Rightarrow> (Some (Ok (Some g)), s\<lparr>conn_tracker := tr\<rparr>)
                 | (Err e, tr) \<Rightarrow>
                     bind_h (refuse e) (\<lambda>_. fail_h (SessionLimit e)) (s\<lparr>conn_tracker := tr\<rparr>)))"

text \<open>The report of success; a report that fails releases the guard.\<close>

definition releasing ::
  "'x proxy_env_scheme \<Rightarrow> connection_guard option \<Rightarrow> ('z peers_scheme, 'e, unit) handler \<Rightarrow>
     ('z peers_scheme, 'e, unit) handler" where
  "releasing env g report = (\<lambda>s. case report s of
     (Some (Err e), s') \<Rightarrow>
       (Some (Err e), case g of
          Some g \<Rightarrow> s'\<lparr>conn_tracker := release_guard (time_now env) g (conn_tracker s')\<rparr> | None \<Rightarrow> s')
   | r \<Rightarrow> r)"

definition register_and_report ::
  "'x proxy_env_scheme \<Rightarrow> session_config \<Rightarrow> ustring \<Rightarrow> ustring option \<Rightarrow>
     (tracker_error \<Rightarrow> ('z peers_scheme, 'e, unit) handler) \<Rightarrow> ('z peers_scheme, 'e, unit) handler \<Rightarrow>
     ('z peers_scheme, 'e, connection_guard option) handler" where
  "register_and_report env cfg tid app refuse report =
     bind_h (register_connection env cfg tid app refuse) (\<lambda>g.
     bind_h (releasing env g report) (\<lambda>_. return_h g))"

text \<open>A session ready for its relay: its guard, its manager, and which relay it gets.\<close>

record proxy_session =
  session_guard :: "connection_guard option"
  session_manager :: manager
  managed :: bool

definition ready_session ::
  "'x proxy_env_scheme \<Rightarrow> session_config \<Rightarrow> connection_guard option \<Rightarrow> proxy_session" where
  "ready_session env cfg g =
     \<lparr>session_guard = g, session_manager = start_timers (new_manager cfg),
      managed = (max_duration cfg \<noteq> None \<or> idle_timeout cfg \<noteq> None \<or> max_queries cfg \<noteq> None \<or> logs_queries env)\<rparr>"

section \<open>What a handler leaves alone\<close>

definition keeps :: "('s \<Rightarrow> 'b) \<Rightarrow> ('s, 'e, 'a) handler \<Rightarrow> bool" where
  "keeps f m \<longleftrightarrow> (\<forall>s. f (snd (m s)) = f s)"

named_theorems keeping

lemma keeps_bind [keeping]: "keeps f m \<Longrightarrow> (\<And>a. keeps f (k a)) \<Longrightarrow> keeps f (bind_h m k)"
  by (auto simp: keeps_def bind_h_def split: prod.split option.split result.split) (metis snd_conv)+

lemma keeps_pure [keeping, simp]:
  "keeps f (return_h a)" "keeps f (fail_h e)" "keeps f (parsed p)"
  by (simp_all add: keeps_def return_h_def fail_h_def parsed_def)

lemma keeps_put [keeping, simp]:
  "keeps server_out (put_client b)" "keeps conn_tracker (put_client b)" "keeps conn_tracker (put_server b)"
  "keeps server_out (accept_tls t)" "keeps conn_tracker (accept_tls t)"
  by (auto simp: keeps_def put_client_def put_server_def accept_tls_def split: option.split)

lemma keeps_result: "keeps f m \<Longrightarrow> m s = (r, s') \<Longrightarrow> f s' = f s"
  by (metis keeps_def snd_conv)

lemma bind_h_Ok: "m s = (Some (Ok a), s') \<Longrightarrow> bind_h m k s = k a s'"
  by (simp add: bind_h_def)

lemma bind_h_keeps: "(\<And>a. keeps f (k a)) \<Longrightarrow> f (snd (bind_h m k s)) = f (snd (m s))"
  by (auto simp: bind_h_def keeps_def split: prod.split option.split result.split)

lemma keeps_releasing:
  "keeps server_out report \<Longrightarrow> keeps server_out (releasing env g report)"
  by (auto simp: keeps_def releasing_def split: option.split result.split prod.split) (metis snd_conv)+

lemma keeps_register:
  fixes refuse :: "tracker_error \<Rightarrow> ('z peers_scheme, 'e, unit) handler"
  assumes "\<And>e. keeps server_out (refuse e)"
  shows "keeps server_out (register_connection env cfg tid app refuse)"
proof -
  have *: "keeps server_out (bind_h (refuse e) (\<lambda>_. fail_h x :: ('z peers_scheme, 'e, connection_guard option) handler))"
    for e x by (intro keeps_bind assms keeps_pure)
  show ?thesis
    using * by (simp add: keeps_def register_connection_def Let_def split: result.split prod.split)
qed

lemma keeps_register_and_report [keeping]:
  assumes "\<And>e. keeps server_out (refuse e)" and "keeps server_out report"
  shows "keeps server_out (register_and_report env cfg tid app refuse report)"
  unfolding register_and_report_def
  using assms by (intro keeps_bind keeps_register keeps_releasing) simp_all

section \<open>Sessions in the tracker\<close>

definition in_tunnel :: "ustring \<Rightarrow> uuid \<Rightarrow> tracker \<Rightarrow> bool" where
  "in_tunnel tid sid tr \<longleftrightarrow> (case tunnels tr tid of Some st \<Rightarrow> sid \<in> tunnel_sessions st | None \<Rightarrow> False)"

definition has_session :: "uuid \<Rightarrow> tracker \<Rightarrow> bool" where
  "has_session sid tr \<longleftrightarrow> (\<exists>tid. in_tunnel tid sid tr)"

definition registered :: "'x proxy_env_scheme \<Rightarrow> connection_guard option \<Rightarrow> tracker \<Rightarrow> bool" where
  "registered env g tr \<longleftrightarrow>
     (case g of
        Some g \<Rightarrow> g_session g = session_id env \<and> in_tunnel (g_tunnel g) (session_id env) tr \<and>
          (\<forall>t. t \<noteq> g_tunnel g \<longrightarrow> \<not> in_tunnel t (session_id env) tr)
      | None \<Rightarrow> \<not> has_session (session_id env) tr \<and> (env_session_uid env = None \<or> \<not> has_tracker env))"

lemma register_Ok:
  assumes "try_register_with_limits_and_app now tid sid m app tr = (Ok g, tr')"
  shows "g_tunnel g = tid \<and> g_session g = sid \<and> in_tunnel tid sid tr' \<and>
    (\<forall>t. t \<noteq> tid \<longrightarrow> tunnels tr' t = tunnels tr t)"
  using assms
  by (auto simp: try_register_with_limits_and_app_def in_tunnel_def add_session_def with_application_name_def
      Let_def split: option.splits if_splits)

lemma register_Err:
  "try_register_with_limits_and_app now tid sid m app tr = (Err e, tr') \<Longrightarrow> tr' = tr"
  by (auto simp: try_register_with_limits_and_app_def Let_def split: option.splits if_splits)

lemma register_for_target_outcome:
  assumes "try_register_for_target_with_app now t u tid sid m app lt tr = (r, tr')"
  shows "case r of
      Ok g \<Rightarrow> g_tunnel g = tid \<and> g_session g = sid \<and> in_tunnel tid sid tr' \<and>
        (\<forall>t. t \<noteq> tid \<longrightarrow> tunnels tr' t = tunnels tr t)
    | Err e \<Rightarrow> tunnels tr' = tunnels tr"
proof -
  obtain c tr1 where c: "claim_target now t u app lt tr = (c, tr1)" by fastforce
  have same: "tunnels tr1 = tunnels tr" using claim_target_tunnels [of now t u app lt tr] c by simp
  show ?thesis
  proof (cases "try_register_with_limits_and_app now tid sid m app tr1")
    case (Pair q tr2)
    then show ?thesis
      using assms same register_Ok [of now tid sid m app tr1] register_Err [of now tid sid m app tr1]
      by (cases q; cases c) (auto simp: try_register_for_target_with_app_def c)
  qed
qed

lemma release_guard_in_tunnel:
  "in_tunnel t sid (release_guard now g tr) \<longleftrightarrow> in_tunnel t sid tr \<and> \<not> (t = g_tunnel g \<and> sid = g_session g)"
proof -
  have "tunnels (release_guard now g tr) = tunnels (snd (leave_tunnel (g_tunnel g) (g_session g) tr))"
    by (auto simp: release_guard_def release_session_for_target_def release_session_def
        split: option.splits prod.splits)
  then show ?thesis
    by (auto simp: in_tunnel_def leave_tunnel_def remove_session_def Let_def split: option.splits if_splits)
qed

lemma has_session_cong: "tunnels tr' = tunnels tr \<Longrightarrow> has_session sid tr' = has_session sid tr"
  by (simp add: has_session_def in_tunnel_def)

lemma registered_new:
  assumes "\<not> has_session (session_id env) tr" and "g_tunnel g = tid \<and> g_session g = session_id env \<and>
    in_tunnel tid (session_id env) tr' \<and> (\<forall>t. t \<noteq> tid \<longrightarrow> tunnels tr' t = tunnels tr t)"
  shows "registered env (Some g) tr'"
  using assms by (auto simp: registered_def has_session_def in_tunnel_def)

text \<open>What holds after a handler's success, and after its failure or panic.\<close>

definition handler_spec ::
  "('s \<Rightarrow> bool) \<Rightarrow> ('s, 'e, 'a) handler \<Rightarrow> ('a \<Rightarrow> 's \<Rightarrow> bool) \<Rightarrow> ('s \<Rightarrow> bool) \<Rightarrow> bool" where
  "handler_spec P m Q F \<longleftrightarrow>
     (\<forall>s. P s \<longrightarrow> (case m s of (Some (Ok a), s') \<Rightarrow> Q a s' | (Some (Err _), s') \<Rightarrow> F s' | (None, s') \<Rightarrow> F s'))"

lemma spec_bind:
  "handler_spec P m Q F \<Longrightarrow> (\<And>a. handler_spec (Q a) (k a) R F) \<Longrightarrow> handler_spec P (bind_h m k) R F"
  by (fastforce simp: handler_spec_def bind_h_def split: prod.splits option.splits result.splits)

lemma spec_keeps:
  assumes "keeps conn_tracker m"
  shows "handler_spec (\<lambda>s. G (conn_tracker s)) m (\<lambda>_ s. G (conn_tracker s)) (\<lambda>s. G (conn_tracker s))"
  using keeps_result [OF assms]
  by (auto simp: handler_spec_def split: prod.splits option.splits result.splits)

lemma spec_weaken:
  assumes "handler_spec P m Q F" and "\<And>a s. Q a s \<Longrightarrow> Q' a s" and "\<And>s. P' s \<Longrightarrow> P s"
  shows "handler_spec P' m Q' F"
  using assms by (fastforce simp: handler_spec_def split: prod.splits option.splits result.splits)

section \<open>A session is registered, or nothing is\<close>

text \<open>
  What a handler promises: neither its refusal nor its report touches the tracker, the report does not
  panic, and what holds after a successful one.\<close>

locale reporting =
  fixes refuse :: "tracker_error \<Rightarrow> ('z peers_scheme, 'e, unit) handler"
    and report :: "('z peers_scheme, 'e, unit) handler"
    and reported :: "'z peers_scheme \<Rightarrow> bool"
  assumes refuse_keeps: "keeps conn_tracker (refuse e)"
    and report_keeps: "keeps conn_tracker report"
    and report_returns: "fst (report s) \<noteq> None"
    and report_done: "report s = (Some (Ok ()), s') \<Longrightarrow> reported s'"
begin

lemma register_spec:
  "handler_spec (\<lambda>s. \<not> has_session (session_id env) (conn_tracker s))
     (register_connection env cfg tid app refuse)
     (\<lambda>g s. registered env g (conn_tracker s)) (\<lambda>s. \<not> has_session (session_id env) (conn_tracker s))"
  unfolding handler_spec_def
proof (intro allI impI)
  fix s :: "'z peers_scheme"
  let ?Q = "\<lambda>y :: (connection_guard option, 'e proxy_error) result option \<times> 'z peers_scheme. case y of
        (Some (Ok g), s') \<Rightarrow> registered env g (conn_tracker s')
      | (Some (Err _), s') \<Rightarrow> \<not> has_session (session_id env) (conn_tracker s')
      | (None, s') \<Rightarrow> \<not> has_session (session_id env) (conn_tracker s')"
  assume fresh: "\<not> has_session (session_id env) (conn_tracker s)"
  let ?lim = "map_option unat (effective_max_connections cfg)"
  obtain x tr' where x: "(case env_session_uid env of
        Some uid \<Rightarrow> try_register_for_target_with_app (time_now env) (target_id (target_host env) (target_port env))
          uid tid (session_id env) ?lim app (application_lock_timeout cfg) (conn_tracker s)
      | None \<Rightarrow> try_register_with_limits_and_app (time_now env) tid (session_id env) ?lim app
          (conn_tracker s)) = (x, tr')" by fastforce
  have out: "case x of
      Ok g \<Rightarrow> registered env (Some g) tr' | Err e \<Rightarrow> \<not> has_session (session_id env) tr'"
  proof (cases "env_session_uid env")
    case None
    then show ?thesis
      using x fresh by (cases x) (auto dest: register_Ok register_Err intro: registered_new)
  next
    case (Some uid)
    with x have "try_register_for_target_with_app (time_now env) (target_id (target_host env) (target_port env))
          uid tid (session_id env) ?lim app (application_lock_timeout cfg) (conn_tracker s) = (x, tr')" by simp
    note outcome = register_for_target_outcome [OF this]
    show ?thesis
    proof (cases x)
      case (Ok g)
      with outcome registered_new [OF fresh, of g tid tr'] show ?thesis by simp
    next
      case (Err e)
      with outcome fresh has_session_cong [of tr' "conn_tracker s"] show ?thesis by simp
    qed
  qed
  have refused: "?Q (bind_h (refuse e) (\<lambda>_. fail_h y) t)" if "\<not> has_session (session_id env) (conn_tracker t)"
    for e y t
    using that keeps_result [OF refuse_keeps, of e t]
    by (auto simp: bind_h_def fail_h_def split: prod.split option.split result.split)
  have "?Q (if env_session_uid env = None \<and> ?lim = None \<or> \<not> has_tracker env then (Some (Ok None), s)
      else case (x, tr') of
        (Ok g, tr) \<Rightarrow> (Some (Ok (Some g)), s\<lparr>conn_tracker := tr\<rparr>)
      | (Err e, tr) \<Rightarrow> bind_h (refuse e) (\<lambda>_. fail_h (SessionLimit e)) (s\<lparr>conn_tracker := tr\<rparr>))"
  proof (cases "env_session_uid env = None \<and> ?lim = None \<or> \<not> has_tracker env")
    case True
    then show ?thesis using fresh by (auto simp: registered_def)
  next
    case False
    then show ?thesis using out refused by (cases x) (simp_all only: if_False prod.case result.case option.case, simp_all)
  qed
  then show "?Q (register_connection env cfg tid app refuse s)"
    unfolding register_connection_def Let_def x .
qed

lemma released_spec:
  "handler_spec (\<lambda>s. registered env g (conn_tracker s)) (releasing env g report)
     (\<lambda>_ s. registered env g (conn_tracker s) \<and> reported s)
     (\<lambda>s. \<not> has_session (session_id env) (conn_tracker s))"
  unfolding handler_spec_def
proof (intro allI impI)
  fix s :: "'z peers_scheme"
  assume reg: "registered env g (conn_tracker s)"
  obtain r s' where r: "report s = (Some r, s')" using report_returns [of s] by (metis option.exhaust prod.collapse)
  have same: "conn_tracker s' = conn_tracker s" using keeps_result [OF report_keeps r] .
  have gone: "\<not> has_session (session_id env) (release_guard t q tr)" if "registered env (Some q) tr" for t q tr
    using that by (auto simp: registered_def has_session_def release_guard_in_tunnel)
  have none: "\<not> has_session (session_id env) tr" if "registered env None tr" for tr
    using that by (simp add: registered_def)
  show "case releasing env g report s of
      (Some (Ok u), s') \<Rightarrow> registered env g (conn_tracker s') \<and> reported s'
    | (Some (Err _), s') \<Rightarrow> \<not> has_session (session_id env) (conn_tracker s')
    | (None, s') \<Rightarrow> \<not> has_session (session_id env) (conn_tracker s')"
    using reg r same report_done [of s s'] gone none
    by (cases r; cases g) (simp_all add: releasing_def)
qed

lemma established_or_nothing:
  "handler_spec (\<lambda>s. \<not> has_session (session_id env) (conn_tracker s))
     (register_and_report env cfg tid app refuse report)
     (\<lambda>g s. registered env g (conn_tracker s) \<and> reported s)
     (\<lambda>s. \<not> has_session (session_id env) (conn_tracker s))"
  unfolding register_and_report_def
  by (intro spec_bind [OF register_spec] spec_bind [OF released_spec]) (simp add: handler_spec_def return_h_def)

end

end
