(* ===== verification/Mysql_Handler.thy ===== *)
theory Mysql_Handler
  imports Proxy_Handler
begin

text \<open>
  The MySQL connection handler of the database proxy, \<open>keeperdb-proxy/src/server/handlers/mysql.rs\<close> with
  the authentication methods of \<open>protocol/mysql/auth.rs\<close>: the proxy greets the client in the server's
  name, takes the client's login, logs in to the server with the injected credentials, answers the
  server's authentication rounds, registers the connection and reports success.

  Hashes and signature and the token validation are parameters beside those of \<open>Proxy_Handler\<close>; the client's
  last sequence number is added to the state. The handler's \<open>state\<close> field is never read and is left out.
\<close>

section \<open>Authentication methods\<close>

record crypto =
  sha1 :: "bytes \<Rightarrow> bytes"
  sha256 :: "bytes \<Rightarrow> bytes"
  sha512 :: "bytes \<Rightarrow> bytes"
  ed25519_sign :: "bytes \<Rightarrow> bytes \<Rightarrow> bytes"

definition xor_bytes :: "bytes \<Rightarrow> bytes \<Rightarrow> bytes" where
  "xor_bytes xs ys = map (\<lambda>(a, b). a XOR b) (zip xs ys)"

definition compute_auth_response :: "crypto \<Rightarrow> ustring \<Rightarrow> bytes \<Rightarrow> bytes" where
  "compute_auth_response cr password scramble =
     (if password = [] then []
      else let stage1 = sha1 cr (utf8 password);
               stage2 = sha1 cr stage1;
               stage3 = sha1 cr (scramble @ stage2)
           in xor_bytes stage1 stage3)"

text \<open>The server's side of the native method; the proxy itself does not call it.\<close>

definition verify_auth_response :: "crypto \<Rightarrow> bytes \<Rightarrow> bytes \<Rightarrow> bytes \<Rightarrow> bool" where
  "verify_auth_response cr response scramble stored =
     (if length response \<noteq> 20 \<or> length scramble \<noteq> 20 \<or> length stored \<noteq> 20 then False
      else let stage3 = sha1 cr (scramble @ stored);
               recovered = xor_bytes response stage3
           in sha1 cr recovered = stored)"

definition compute_caching_sha2_response :: "crypto \<Rightarrow> ustring \<Rightarrow> bytes \<Rightarrow> bytes" where
  "compute_caching_sha2_response cr password scramble =
     (if password = [] then []
      else let stage1 = sha256 cr (utf8 password);
               stage2 = sha256 cr stage1;
               scramble_hash = sha256 cr (stage2 @ scramble)
           in xor_bytes stage1 scramble_hash)"

definition clamp :: "bytes \<Rightarrow> bytes" where
  "clamp s = s[0 := s ! 0 AND 248, 31 := (s ! 31 AND 63) OR 64]"

definition compute_ed25519_response :: "crypto \<Rightarrow> ustring \<Rightarrow> bytes \<Rightarrow> bytes" where
  "compute_ed25519_response cr password nonce =
     (if password = [] then []
      else ed25519_sign cr (clamp (take 32 (sha512 cr (utf8 password)))) nonce)"

definition compute_auth_for_plugin :: "crypto \<Rightarrow> ustring \<Rightarrow> ustring \<Rightarrow> bytes \<Rightarrow> bytes" where
  "compute_auth_for_plugin cr plugin password scramble =
     (if plugin = ustr ''mysql_native_password'' then compute_auth_response cr password scramble
      else if plugin = ustr ''caching_sha2_password'' then compute_caching_sha2_response cr password scramble
      else if plugin = ustr ''client_ed25519'' then compute_ed25519_response cr password scramble
      else compute_auth_response cr password scramble)"

section \<open>Parameters and state\<close>

record token_validation =
  token_valid :: bool
  token_error :: "ustring option"
  token_expired :: bool
  record_uid :: "ustring option"

record mysql_env = proxy_env +
  crypt :: crypto
  client_scramble :: bytes
  connection_id :: u32
  validate_token :: "ustring \<Rightarrow> token_validation option"

record mysql_conn = peers +
  client_auth_seq_id :: u8

type_synonym 'a mysql_handler = "(mysql_conn, mysql_error, 'a) handler"

definition write_client :: "u8 \<Rightarrow> bytes \<Rightarrow> unit mysql_handler" where
  "write_client seq payload = put_client (write_packet seq payload)"

definition write_server :: "u8 \<Rightarrow> bytes \<Rightarrow> unit mysql_handler" where
  "write_server seq payload = put_server (write_packet seq payload)"

definition read_server :: "(packet_header \<times> bytes) mysql_handler" where
  "read_server = (\<lambda>s. case read_packet (server_in s) of
     None \<Rightarrow> (Some (Err Eof), s\<lparr>server_in := []\<rparr>)
   | Some (p, rest) \<Rightarrow> (Some (Ok p), s\<lparr>server_in := rest\<rparr>))"

text \<open>A read from the client is under a timeout.\<close>

definition read_client :: "mysql_env \<Rightarrow> (packet_header \<times> bytes) mysql_handler" where
  "read_client env = (\<lambda>s. case read_packet (client_in s) of
     None \<Rightarrow> (Some (Err (if client_stalls env then TimedOut else Eof)), s\<lparr>client_in := []\<rparr>)
   | Some (p, rest) \<Rightarrow> (Some (Ok p), s\<lparr>client_in := rest\<rparr>))"

definition send_client_error :: "u16 \<Rightarrow> ustring \<Rightarrow> unit mysql_handler" where
  "send_client_error code msg =
     write_client 2 (build_err_packet (new_err_packet code msg) CLIENT_PROTOCOL_41)"

section \<open>The client's side of the handshake\<close>

text \<open>The capabilities the proxy offers: those the server shares, TLS and connection attributes.\<close>

definition offered_capabilities :: "bool \<Rightarrow> u32 \<Rightarrow> u32" where
  "offered_capabilities tls server_caps =
     (let our_caps = DEFAULT_SERVER_CAPABILITIES OR (if tls then CLIENT_SSL else 0);
          final_caps = (our_caps AND server_caps) OR (if tls then CLIENT_SSL else 0)
      in final_caps OR CLIENT_CONNECT_ATTRS)"

definition client_handshake :: "mysql_env \<Rightarrow> handshake_v10 \<Rightarrow> handshake_v10" where
  "client_handshake env server =
     (let h = default_handshake_v10\<lparr>
            server_connection_id := connection_id env, server_version := server_version server,
            character_set := character_set server, status_flags := status_flags server,
            auth_plugin_data_part_1 := take 8 (client_scramble env),
            auth_plugin_data_part_2 := drop 8 (client_scramble env)\<rparr>
      in (set_capability_flags (offered_capabilities (tls_accept env \<noteq> None) (server_capability_flags server)) h)
           \<lparr>auth_plugin_data_length := 21, server_plugin_name := server_plugin_name server\<rparr>)"

definition send_client_handshake :: "mysql_env \<Rightarrow> handshake_v10 \<Rightarrow> unit mysql_handler" where
  "send_client_handshake env server = write_client 0 (build_handshake_v10 (client_handshake env server))"

definition store_seq :: "u8 \<Rightarrow> unit mysql_handler" where
  "store_seq seq = (\<lambda>s. (Some (Ok ()), s\<lparr>client_auth_seq_id := seq\<rparr>))"

definition parse_client_auth :: "packet_header \<times> bytes \<Rightarrow> handshake_response41 mysql_handler" where
  "parse_client_auth p =
     bind_h (store_seq (sequence_id (fst p))) (\<lambda>_. parsed (parse_handshake_response41 (snd p)))"

definition receive_client_auth :: "mysql_env \<Rightarrow> handshake_response41 mysql_handler" where
  "receive_client_auth env =
     bind_h (read_client env) (\<lambda>p.
     if length (snd p) = 32 \<and> has_cap (get_le32 (snd p)) CLIENT_SSL
     then (case tls_accept env of
             Some plain \<Rightarrow>
               bind_h (accept_tls plain) (\<lambda>_. bind_h (read_client env) parse_client_auth)
           | None \<Rightarrow>
               bind_h (send_client_error 1045 (ustr ''SSL connections not supported by this proxy'')) (\<lambda>_.
               fail_h UnsupportedSsl))
     else parse_client_auth p)"

section \<open>The server's side\<close>

text \<open>Token validation, from the auth response; the result is the record the token belongs to.\<close>

definition check_token ::
  "mysql_env \<Rightarrow> session_config \<Rightarrow> handshake_response41 \<Rightarrow> ustring option mysql_handler" where
  "check_token env cfg r =
     (if \<not> require_token cfg then return_h None
      else case validate_token env (from_utf8_lossy (auth_response r)) of
             None \<Rightarrow> fail_h TokenError
           | Some v \<Rightarrow>
               if \<not> token_valid v
               then let msg = (case token_error v of Some e \<Rightarrow> e | None \<Rightarrow> ustr ''Invalid token'')
                    in bind_h (send_client_error 1045 (ustr ''Access denied: '' @ msg)) (\<lambda>_.
                       fail_h (InvalidToken msg))
               else if token_expired v
               then bind_h (send_client_error 1045 (ustr ''Access denied: Token has expired'')) (\<lambda>_.
                    fail_h TokenExpired)
               else return_h (record_uid v))"

text \<open>The login the proxy sends in the client's place.\<close>

definition server_plugin :: "handshake_v10 \<Rightarrow> ustring" where
  "server_plugin h =
     (if server_plugin_name h = [] then ustr ''mysql_native_password'' else server_plugin_name h)"

definition login_capabilities :: "ustring option \<Rightarrow> u32 \<Rightarrow> u32" where
  "login_capabilities db shared =
     CLIENT_PROTOCOL_41 OR CLIENT_SECURE_CONNECTION OR CLIENT_PLUGIN_AUTH OR
     (if db \<noteq> None then CLIENT_CONNECT_WITH_DB else 0) OR
     (if has_cap shared CLIENT_LONG_PASSWORD then CLIENT_LONG_PASSWORD else 0) OR
     (if has_cap shared CLIENT_TRANSACTIONS then CLIENT_TRANSACTIONS else 0) OR
     (if has_cap shared CLIENT_MULTI_RESULTS then CLIENT_MULTI_RESULTS else 0)"

definition server_login ::
  "mysql_env \<Rightarrow> handshake_v10 \<Rightarrow> ustring \<Rightarrow> ustring \<Rightarrow> handshake_response41 \<Rightarrow> handshake_response41" where
  "server_login env server user password r =
     (let db = (case target_database env of Some d \<Rightarrow> Some d | None \<Rightarrow> database r)
      in default_handshake_response41\<lparr>
           capability_flags := login_capabilities db (capability_flags r AND server_capability_flags server),
           max_packet_size := 0x00FFFFFF, client_character_set := 0x21, username := user,
           auth_response := compute_auth_for_plugin (crypt env) (server_plugin server) password
             (get_scramble server),
           database := db, auth_plugin_name := Some (server_plugin server)\<rparr>)"

definition AUTH_SWITCH_REQUEST :: u8 where "AUTH_SWITCH_REQUEST = 0xFE"
definition AUTH_MORE_DATA :: u8 where "AUTH_MORE_DATA = 0x01"
definition CACHING_SHA2_FAST_AUTH_SUCCESS :: u8 where "CACHING_SHA2_FAST_AUTH_SUCCESS = 0x03"
definition CACHING_SHA2_FULL_AUTH_REQUIRED :: u8 where "CACHING_SHA2_FULL_AUTH_REQUIRED = 0x04"

lemmas auth_codes =
  AUTH_SWITCH_REQUEST_def AUTH_MORE_DATA_def CACHING_SHA2_FAST_AUTH_SUCCESS_def
  CACHING_SHA2_FULL_AUTH_REQUIRED_def

definition switch_response :: "crypto \<Rightarrow> ustring \<Rightarrow> bytes \<Rightarrow> bytes" where
  "switch_response cr password payload =
     (let rest = drop 1 payload;
          plugin_end = (if 0 \<in> set rest then length (takeWhile (\<lambda>b. b \<noteq> 0) rest) else length payload - 1);
          plugin_name = from_utf8_lossy (take plugin_end rest);
          plugin_data = (if 1 + plugin_end + 1 < length payload then drop (1 + plugin_end + 1) payload else [])
      in compute_auth_for_plugin cr plugin_name password (drop_trailing_null plugin_data))"

text \<open>What a packet of the authentication rounds asks for; \<open>None\<close> is a panic.\<close>

datatype auth_verdict =
  Rejected ustring | Malformed mysql_error | Reply bytes | Accepted | Wait | Unexpected u8

text \<open>The multi-round data of \<open>caching_sha2_password\<close>, and everything unknown.\<close>

definition judge_more_data :: "ustring \<Rightarrow> bytes \<Rightarrow> auth_verdict" where
  "judge_more_data password payload =
     (if payload ! 0 = AUTH_MORE_DATA \<and> length payload > 1 \<and> payload ! 1 = CACHING_SHA2_FAST_AUTH_SUCCESS
      then Wait
      else if payload ! 0 = AUTH_MORE_DATA \<and> length payload > 1 \<and> payload ! 1 = CACHING_SHA2_FULL_AUTH_REQUIRED
      then Reply (utf8 password @ [0])
      else Unexpected (payload ! 0))"

definition judge :: "crypto \<Rightarrow> ustring \<Rightarrow> bytes \<Rightarrow> auth_verdict option" where
  "judge cr password payload =
     (if is_err_packet payload
      then (case parse_err_packet payload CLIENT_PROTOCOL_41 of
              None \<Rightarrow> None
            | Some (Err e) \<Rightarrow> Some (Malformed e)
            | Some (Ok err) \<Rightarrow> Some (Rejected (error_message err)))
      else if payload = [] then None
      else if payload ! 0 = AUTH_SWITCH_REQUEST \<and> length payload > 1
      then Some (Reply (switch_response cr password payload))
      else if is_ok_packet payload then Some Accepted
      else Some (judge_more_data password payload))"

text \<open>The rounds up to the server's OK packet, which is the result.\<close>

function auth_loop :: "crypto \<Rightarrow> ustring \<Rightarrow> u8 \<Rightarrow> bytes mysql_handler" where
  "auth_loop cr password seq s =
     (case read_packet (server_in s) of
        None \<Rightarrow> (Some (Err Eof), s\<lparr>server_in := []\<rparr>)
      | Some ((h, payload), rest) \<Rightarrow>
          let s1 = s\<lparr>server_in := rest\<rparr>
          in case judge cr password payload of
               None \<Rightarrow> (None, s1)
             | Some (Rejected msg) \<Rightarrow>
                 bind_h (write_client seq payload) (\<lambda>_. fail_h (ServerRejected msg)) s1
             | Some (Malformed e) \<Rightarrow> (Some (Err (ProtocolError e)), s1)
             | Some (Reply r) \<Rightarrow>
                 if server_ok s1
                 then auth_loop cr password (sequence_id h + 1 + 1)
                        (s1\<lparr>server_out := server_out s1 @ write_packet (sequence_id h + 1) r\<rparr>)
                 else (Some (Err WriteError), s1)
             | Some Accepted \<Rightarrow> (Some (Ok payload), s1)
             | Some Wait \<Rightarrow> auth_loop cr password seq s1
             | Some (Unexpected b) \<Rightarrow> (Some (Err (UnexpectedAuthPacket b)), s1))"
  by pat_completeness auto
termination
  by (relation "measure (\<lambda>(cr, password, seq, s). length (server_in s))")
    (auto dest!: read_packet_needs)

declare auth_loop.simps [simp del]

section \<open>Registration and the end of the handshake\<close>

definition connection_tunnel :: "mysql_env \<Rightarrow> ustring option \<Rightarrow> ustring" where
  "connection_tunnel env rec =
     (case env_session_uid env of
        Some uid \<Rightarrow> from_record_uid uid
      | None \<Rightarrow> (case rec of
                  Some uid \<Rightarrow> from_record_uid uid
                | None \<Rightarrow> from_connection (client_addr env) (target_host env) (target_port env)))"

definition refuse_connection :: "mysql_env \<Rightarrow> tracker_error \<Rightarrow> unit mysql_handler" where
  "refuse_connection env e = send_client_error 1040 (limit_text env e)"

text \<open>The OK packet is passed on under the client's next sequence number.\<close>

definition report_ok :: "bytes \<Rightarrow> unit mysql_handler" where
  "report_ok payload = (\<lambda>s. write_client (client_auth_seq_id s + 1) payload s)"

definition log_in ::
  "mysql_env \<Rightarrow> handshake_v10 \<Rightarrow> credentials \<Rightarrow> handshake_response41 \<Rightarrow> bytes mysql_handler" where
  "log_in env server creds r =
     (case cred_password creds of
        None \<Rightarrow> fail_h NoPassword
      | Some password \<Rightarrow>
          bind_h (write_server 1 (build_handshake_response41
                   (server_login env server (cred_username creds) password r))) (\<lambda>_.
          auth_loop (crypt env) password 2))"

definition complete_server_auth ::
  "mysql_env \<Rightarrow> handshake_v10 \<Rightarrow> handshake_response41 \<Rightarrow> proxy_session mysql_handler" where
  "complete_server_auth env server r =
     (case get_session_config env of
        None \<Rightarrow> fail_h ConfigError
      | Some cfg \<Rightarrow>
          bind_h (check_token env cfg r) (\<lambda>rec.
          case get_auth env of
            None \<Rightarrow> fail_h CredentialRetrieval
          | Some creds \<Rightarrow>
              bind_h (log_in env server creds r) (\<lambda>ok.
              bind_h (register_and_report env cfg (connection_tunnel env rec) (client_fingerprint r)
                        (refuse_connection env) (report_ok ok)) (\<lambda>g.
              return_h (ready_session env cfg g)))))"

definition handle :: "mysql_env \<Rightarrow> proxy_session mysql_handler" where
  "handle env =
     (if \<not> connects env then fail_h ConnectFailed
      else bind_h read_server (\<lambda>p.
           bind_h (parsed (parse_handshake_v10 (snd p))) (\<lambda>server.
           bind_h (send_client_handshake env server) (\<lambda>_.
           bind_h (receive_client_auth env) (\<lambda>r.
           complete_server_auth env server r)))))"

section \<open>What the steps leave alone\<close>

lemma keeps_io [keeping, simp]:
  "keeps server_out (write_client n p)" "keeps conn_tracker (write_client n p)"
  "keeps conn_tracker (write_server n p)" "keeps conn_tracker read_server"
  "keeps server_out (read_client env)" "keeps conn_tracker (read_client env)"
  "keeps server_out read_server" "keeps server_out (store_seq n)" "keeps conn_tracker (store_seq n)"
  "keeps server_out (send_client_error c msg)" "keeps conn_tracker (send_client_error c msg)"
  by (auto simp: keeps_def write_client_def write_server_def read_server_def read_client_def store_seq_def
      send_client_error_def put_client_def put_server_def split: option.split prod.split)

lemma keeps_client_auth [keeping]:
  "keeps server_out (receive_client_auth env)" "keeps conn_tracker (receive_client_auth env)"
  by (auto simp: receive_client_auth_def parse_client_auth_def intro!: keeping split: option.split)

lemma keeps_handshake [keeping]:
  "keeps server_out (send_client_handshake env h)" "keeps conn_tracker (send_client_handshake env h)"
  by (simp_all add: send_client_handshake_def)

lemma keeps_check_token [keeping]:
  "keeps server_out (check_token env cfg r)" "keeps conn_tracker (check_token env cfg r)"
  by (auto simp: check_token_def Let_def intro!: keeping split: option.split)

lemma auth_loop_tracker: "conn_tracker (snd (auth_loop cr pw seq s)) = conn_tracker s"
proof (induction cr pw seq s rule: auth_loop.induct)
  case (1 cr pw seq s)
  have "conn_tracker (snd (bind_h (write_client n p) (\<lambda>_. fail_h e :: bytes mysql_handler) t)) = conn_tracker t"
    for n p e and t :: mysql_conn
    by (simp add: bind_h_def write_client_def put_client_def fail_h_def)
  with 1 show ?case
    by (subst auth_loop.simps) (auto simp: Let_def split: option.split auth_verdict.split prod.split)
qed

lemma keeps_log_in [keeping]: "keeps conn_tracker (log_in env h creds r)"
proof -
  have "keeps conn_tracker (auth_loop cr pw n)" for cr pw n by (simp add: keeps_def auth_loop_tracker)
  then show ?thesis by (auto simp: log_in_def intro!: keeping split: option.split)
qed

lemma keeps_finish [keeping]:
  "keeps server_out (refuse_connection env e)" "keeps conn_tracker (refuse_connection env e)"
  "keeps server_out (report_ok p)" "keeps conn_tracker (report_ok p)"
  by (simp_all add: refuse_connection_def)
    (simp_all add: keeps_def report_ok_def write_client_def put_client_def)

lemma complete_server_out:
  assumes "get_session_config env = Some cfg" and "check_token env cfg r s = (Some (Ok u), s)"
    and "get_auth env = Some creds"
  shows "server_out (snd (complete_server_auth env server r s)) = server_out (snd (log_in env server creds r s))"
proof -
  have "complete_server_auth env server r s =
      bind_h (log_in env server creds r) (\<lambda>ok.
      bind_h (register_and_report env cfg (connection_tunnel env u) (client_fingerprint r)
        (refuse_connection env) (report_ok ok)) (\<lambda>g. return_h (ready_session env cfg g))) s"
    using assms by (simp add: complete_server_auth_def bind_h_Ok)
  then show ?thesis by (simp add: bind_h_keeps keeping)
qed

section \<open>The credentials are the proxy's\<close>

text \<open>
  C1 (safety). The server learns nothing of the client's identity: two clients that pass the token
  check and agree in capability flags and database - whatever user name, password, plugin and attributes
  they send - make the proxy write the same bytes to the server, through all authentication rounds.
\<close>

theorem credentials_injected:
  assumes "get_session_config env = Some cfg"
    and "check_token env cfg r s = (Some (Ok u), s)" and "check_token env cfg r' s = (Some (Ok u'), s)"
    and "capability_flags r = capability_flags r'" and "database r = database r'"
  shows "server_out (snd (complete_server_auth env server r s)) =
    server_out (snd (complete_server_auth env server r' s))"
proof (cases "get_auth env")
  case None
  with assms show ?thesis by (simp add: complete_server_auth_def bind_h_Ok fail_h_def)
next
  case (Some creds)
  have "server_login env server user pw r = server_login env server user pw r'" for user pw
    using assms(4,5) by (simp add: server_login_def Let_def split: option.split)
  then have "log_in env server creds r = log_in env server creds r'"
    by (simp add: log_in_def split: option.split)
  then show ?thesis
    using complete_server_out [OF assms(1,2) Some] complete_server_out [OF assms(1,3) Some] by simp
qed

text \<open>
  C19 (safety). Where a token is required, a client without a valid one gets no further than the proxy:
  the login fails, nothing is written to the server and nothing is registered, whatever the provider's
  credentials are.
\<close>

theorem token_gates_server:
  assumes "get_session_config env = Some cfg" and "require_token cfg"
    and "\<forall>v. validate_token env (from_utf8_lossy (auth_response r)) = Some v \<longrightarrow> \<not> token_valid v \<or> token_expired v"
  shows "\<exists>e s'. complete_server_auth env server r s = (Some (Err e), s') \<and>
    server_out s' = server_out s \<and> conn_tracker s' = conn_tracker s"
proof -
  have *: "bind_h (send_client_error c msg) (\<lambda>_. fail_h e :: ustring option mysql_handler) t =
      (Some (Err (if client_ok t then e else WriteError)), snd (send_client_error c msg t))" for c msg e t
    by (simp add: bind_h_def send_client_error_def write_client_def put_client_def fail_h_def)
  have "\<exists>e. fst (check_token env cfg r s) = Some (Err e)"
    using assms(2,3) by (auto simp: check_token_def Let_def * split: option.split) (simp add: fail_h_def)
  then obtain e where "fst (check_token env cfg r s) = Some (Err e)" by blast
  then obtain s' where c: "check_token env cfg r s = (Some (Err e), s')" by (metis prod.collapse)
  then show ?thesis
    using assms(1) keeps_result [OF keeps_check_token(1) c] keeps_result [OF keeps_check_token(2) c]
    by (simp add: complete_server_auth_def bind_h_def)
qed

section \<open>The login the server reads\<close>

lemma login_caps:
  "has_cap (login_capabilities db x) CLIENT_CONNECT_WITH_DB \<longleftrightarrow> db \<noteq> None"
  "has_cap (login_capabilities db x) CLIENT_PLUGIN_AUTH"
  "\<not> has_cap (login_capabilities db x) CLIENT_CONNECT_ATTRS"
  "\<not> has_cap (login_capabilities db x) CLIENT_PLUGIN_AUTH_LENENC_CLIENT_DATA"
  "has_cap (login_capabilities db x) CLIENT_SECURE_CONNECTION"
  by (simp_all add: login_capabilities_def has_cap_def capability_bits)

lemma auth_loop_extends: "\<exists>replies. server_out (snd (auth_loop cr pw seq s)) = server_out s @ replies"
proof (induction cr pw seq s rule: auth_loop.induct)
  case (1 cr pw seq s)
  have "server_out (snd (bind_h (write_client n p) (\<lambda>_. fail_h e :: bytes mysql_handler) t)) = server_out t"
    for n p e and t :: mysql_conn
    by (simp add: bind_h_def write_client_def put_client_def fail_h_def)
  with 1 show ?case
    by (subst auth_loop.simps) (fastforce simp: Let_def split: option.split auth_verdict.split prod.split)
qed

lemma log_in_out:
  assumes "cred_password creds = Some pw" and "server_ok s"
  shows "log_in env server creds r s = auth_loop (crypt env) pw 2 (s\<lparr>server_out := server_out s @
    write_packet 1 (build_handshake_response41 (server_login env server (cred_username creds) pw r))\<rparr>)"
  using assms by (simp add: log_in_def write_server_def put_server_def bind_h_def)

lemma server_login_fields:
  fixes r :: handshake_response41 and env :: mysql_env
  defines "db \<equiv> (case target_database env of Some d \<Rightarrow> Some d | None \<Rightarrow> database r)"
  shows "username (server_login env server user pw r) = user"
    "capability_flags (server_login env server user pw r) =
       login_capabilities db (capability_flags r AND server_capability_flags server)"
    "auth_response (server_login env server user pw r) =
       compute_auth_for_plugin (crypt env) (server_plugin server) pw (get_scramble server)"
    "database (server_login env server user pw r) = db"
    "auth_plugin_name (server_login env server user pw r) = Some (server_plugin server)"
    "connect_attrs (server_login env server user pw r) = None"
    "client_reserved (server_login env server user pw r) = replicate 23 0"
  by (simp_all add: server_login_def db_def Let_def default_handshake_response41_def)

text \<open>
  What the server reads from an established proxy is, as its first packet, a login
  that parses back to the injected one: the provider's user name, the answer to the server's own
  scramble under the server's plugin, the configured database or else the client's, no attributes, and
  capability flags that announce exactly these fields.
\<close>

lemma injected_login_readable:
  assumes login: "login = server_login env server (cred_username creds) pw r"
    and "get_session_config env = Some cfg" and "check_token env cfg r s = (Some (Ok u), s)"
    and "get_auth env = Some creds" and "cred_password creds = Some pw"
    and "server_ok s" and "server_out s = []"
    and "plain_string (cred_username creds)" and "plain_string (server_plugin server)"
    and "\<forall>d. database login = Some d \<longrightarrow> plain_string d" and "length (auth_response login) < 256"
    and "length (build_handshake_response41 login) < 2 ^ 24"
  shows "\<exists>h payload rest.
    read_packet (server_out (snd (complete_server_auth env server r s))) = Some ((h, payload), rest) \<and>
    sequence_id h = 1 \<and> parse_handshake_response41 payload = Some (Ok login)"
proof -
  obtain replies where out: "server_out (snd (complete_server_auth env server r s)) =
      write_packet 1 (build_handshake_response41 login) @ replies"
    using auth_loop_extends [of "crypt env" pw 2 "s\<lparr>server_out := write_packet 1 (build_handshake_response41 login)\<rparr>"]
      assms(5-7) by (auto simp: complete_server_out [OF assms(2-4)] log_in_out login)
  have "response_ok login"
    using assms(8-11)
    by (auto simp: response_ok_def login server_login_fields login_caps auth_ok_def split: option.splits)
  moreover have ser: "ser_response login = build_handshake_response41 login"
    by (simp add: ser_response_def login server_login_fields)
  ultimately have "parse_handshake_response41 (build_handshake_response41 login) = Some (Ok login)"
    using assms(12) parse_ser_response [of login] by simp
  then show ?thesis
    using assms(12) by (simp add: out read_write_packet wire_length_def)
qed

section \<open>The authentication rounds\<close>

text \<open>
  The native method: whatever the password and the scramble, the response the proxy
  computes passes the server's check against the stored double hash.
\<close>

lemma native_auth_verified:
  assumes "\<forall>x. length (sha1 cr x) = 20" and "length scramble = 20" and "password \<noteq> []"
  shows "verify_auth_response cr (compute_auth_response cr password scramble) scramble
    (sha1 cr (sha1 cr (utf8 password)))"
proof -
  have "xor_bytes (xor_bytes xs ys) ys = xs" if "length xs = length ys" for xs ys
    using that unfolding xor_bytes_def
    by (induction xs ys rule: list_induct2) (simp_all add: xor.assoc)
  then show ?thesis
    using assms by (simp add: verify_auth_response_def compute_auth_response_def Let_def)
      (simp add: xor_bytes_def)
qed

text \<open>
  A server that asks for full authentication gets the injected password in clear: the
  proxy's link to the server is plain TCP, and the branch does not ask.
\<close>

lemma password_sent_in_clear:
  assumes "get_session_config env = Some cfg" and "check_token env cfg r s = (Some (Ok u), s)"
    and "get_auth env = Some creds" and "cred_password creds = Some pw" and "server_ok s"
    and "server_in s = write_packet seq [AUTH_MORE_DATA, CACHING_SHA2_FULL_AUTH_REQUIRED]"
  shows "\<exists>login. server_out (snd (complete_server_auth env server r s)) =
    server_out s @ login @ write_packet (seq + 1) (utf8 pw @ [0])"
proof -
  have "judge (crypt env) pw [AUTH_MORE_DATA, CACHING_SHA2_FULL_AUTH_REQUIRED] = Some (Reply (utf8 pw @ [0]))"
    by (simp add: judge_def judge_more_data_def auth_codes is_err_packet_def is_ok_packet_def)
  moreover have "read_packet (write_packet seq [AUTH_MORE_DATA, CACHING_SHA2_FULL_AUTH_REQUIRED]) =
      Some ((\<lparr>payload_length = 2, sequence_id = seq\<rparr>, [AUTH_MORE_DATA, CACHING_SHA2_FULL_AUTH_REQUIRED]), [])"
    using read_write_packet [of seq "[AUTH_MORE_DATA, CACHING_SHA2_FULL_AUTH_REQUIRED]" "[]"]
    by (simp add: wire_length_def)
  moreover have "read_packet [] = None" by (simp add: read_packet_def)
  ultimately show ?thesis
    using assms(5,6) unfolding complete_server_out [OF assms(1-3)] log_in_out [OF assms(4,5)]
    by (subst auth_loop.simps, simp, subst auth_loop.simps, simp)
qed

section \<open>A session is registered, or nothing is\<close>

lemma auth_loop_Ok:
  "auth_loop cr pw seq s = (Some (Ok p), s') \<Longrightarrow> judge cr pw p = Some Accepted"
proof (induction cr pw seq s rule: auth_loop.induct)
  case (1 cr pw seq s)
  have *: "bind_h (write_client n q) (\<lambda>_. fail_h e :: bytes mysql_handler) t \<noteq> (Some (Ok p), s')"
    for n q e and t :: mysql_conn
    by (simp add: bind_h_def write_client_def put_client_def fail_h_def)
  obtain h payload rest where r: "read_packet (server_in s) = Some ((h, payload), rest)"
    using "1.prems" [unfolded auth_loop.simps [of cr pw seq s]] by (auto split: option.splits)
  obtain v where v: "judge cr pw payload = Some v"
    using "1.prems" [unfolded auth_loop.simps [of cr pw seq s]] by (auto simp: r Let_def split: option.splits)
  show ?case
    using "1.prems" [unfolded auth_loop.simps [of cr pw seq s]] "1.IH" [OF r refl refl refl v] v
    by (cases v) (auto simp: r v Let_def * split: if_splits)
qed

lemma accepted_packet: "judge cr pw p = Some Accepted \<Longrightarrow> p ! 0 = 0 \<or> p = [0xFE]"
  by (auto simp: judge_def judge_more_data_def auth_codes is_ok_packet_def split: if_splits option.splits result.splits)
    (cases p; simp)

lemma auth_loop_spec:
  "handler_spec (\<lambda>s. G (conn_tracker s)) (auth_loop cr pw n)
     (\<lambda>p s. G (conn_tracker s) \<and> (p ! 0 = 0 \<or> p = [0xFE])) (\<lambda>s. G (conn_tracker s))"
  unfolding handler_spec_def
proof (intro allI impI)
  fix s :: mysql_conn assume G: "G (conn_tracker s)"
  obtain x s' where x: "auth_loop cr pw n s = (x, s')" by fastforce
  then have "G (conn_tracker s')" using G auth_loop_tracker [of cr pw n s] by simp
  with x auth_loop_Ok accepted_packet
  show "case auth_loop cr pw n s of
      (Some (Ok p), s') \<Rightarrow> G (conn_tracker s') \<and> (p ! 0 = 0 \<or> p = [0xFE])
    | (Some (Err _), s') \<Rightarrow> G (conn_tracker s') | (None, s') \<Rightarrow> G (conn_tracker s')"
    by (auto split: option.split result.split) (metis)+
qed

lemma log_in_spec:
  "handler_spec (\<lambda>s. G (conn_tracker s)) (log_in env server creds r)
     (\<lambda>p s. G (conn_tracker s) \<and> (p ! 0 = 0 \<or> p = [0xFE])) (\<lambda>s. G (conn_tracker s))"
proof (cases "cred_password creds")
  case (Some pw)
  have "keeps conn_tracker (write_server n p)" for n p by simp
  then show ?thesis
    unfolding log_in_def Some option.case by (rule spec_bind [OF spec_keeps auth_loop_spec])
qed (simp add: log_in_def handler_spec_def fail_h_def)

text \<open>The handler's refusal and report keep what \<open>reporting\<close> asks.\<close>

definition ok_sent :: "bytes \<Rightarrow> mysql_conn \<Rightarrow> bool" where
  "ok_sent p s \<longleftrightarrow> (\<exists>out. client_out s = out @ write_packet (client_auth_seq_id s + 1) p)"

interpretation ok_report: reporting "refuse_connection env" "report_ok p" "ok_sent p"
  for env :: mysql_env and p :: bytes
  by unfold_locales
    (auto simp: keeping, auto simp: report_ok_def write_client_def put_client_def ok_sent_def split: if_splits)

definition established :: "mysql_env \<Rightarrow> proxy_session \<Rightarrow> mysql_conn \<Rightarrow> bool" where
  "established env sess s \<longleftrightarrow> registered env (session_guard sess) (conn_tracker s) \<and>
     (\<exists>p. ok_sent p s \<and> (p ! 0 = 0 \<or> p = [0xFE]))"

lemma handle_spec:
  "handler_spec (\<lambda>s. \<not> has_session (session_id env) (conn_tracker s)) (handle env) (established env)
     (\<lambda>s. \<not> has_session (session_id env) (conn_tracker s))"
proof -
  let ?F = "\<lambda>s. \<not> has_session (session_id env) (conn_tracker s)"
  have tail: "handler_spec (\<lambda>s. ?F s \<and> (p ! 0 = 0 \<or> p = [0xFE]))
      (bind_h (register_and_report env cfg tid app (refuse_connection env) (report_ok p)) (\<lambda>g.
       return_h (ready_session env cfg g))) (established env) ?F" for p cfg tid app
  proof (cases "p ! 0 = 0 \<or> p = [0xFE]")
    case True
    have "handler_spec ?F (bind_h (register_and_report env cfg tid app (refuse_connection env) (report_ok p))
       (\<lambda>g. return_h (ready_session env cfg g))) (established env) ?F"
      by (rule spec_bind [OF ok_report.established_or_nothing])
        (use True in \<open>auto simp: handler_spec_def return_h_def ready_session_def established_def\<close>)
    then show ?thesis by (rule spec_weaken) simp_all
  qed (simp add: handler_spec_def)
  note pure = spec_keeps [where G = "\<lambda>tr. \<not> has_session (session_id env) tr"]
  have fails: "handler_spec ?F (fail_h e :: proxy_session mysql_handler) (established env) ?F" for e
    by (simp add: handler_spec_def fail_h_def)
  have complete: "handler_spec ?F (complete_server_auth env server r) (established env) ?F" for server r
  proof (cases "get_session_config env")
    case (Some cfg)
    show ?thesis
    proof (cases "get_auth env")
      case None
      show ?thesis
        unfolding complete_server_auth_def Some None option.case
        by (intro spec_bind [OF pure] fails keeping)
    next
      case (Some creds)
      show ?thesis
        unfolding complete_server_auth_def Some \<open>get_session_config env = Some cfg\<close> option.case
        by (intro spec_bind [OF pure [OF keeps_check_token(2)]] spec_bind [OF log_in_spec] tail)
    qed
  qed (simp add: complete_server_auth_def fails)
  show ?thesis
    unfolding handle_def
    using fails complete
    by (auto intro!: spec_bind [OF pure] simp: keeping)
qed


section \<open>A sample connection\<close>

definition sample_crypto :: crypto where
  "sample_crypto = \<lparr>sha1 = (\<lambda>x. take 20 (x @ replicate 20 7)), sha256 = (\<lambda>x. take 32 (x @ replicate 32 7)),
     sha512 = (\<lambda>x. take 64 (x @ replicate 64 7)), ed25519_sign = (\<lambda>k m. take 64 (m @ k @ replicate 64 7))\<rparr>"

definition sample_env :: mysql_env where
  "sample_env = \<lparr>connects = True, client_addr = [0x61], target_host = [0x62], target_port = 3306,
     target_database = None, tls_accept = None, client_stalls = False, get_session_config = Some unlimited,
     get_auth = Some \<lparr>cred_username = [0x75], cred_password = Some [0x70]\<rparr>, has_tracker = True,
     session_id = 1, env_session_uid = Some [0x67], logs_queries = False, time_now = 0,
     limit_text = (\<lambda>_. []), crypt = sample_crypto, client_scramble = replicate 20 5, connection_id = 1,
     validate_token = (\<lambda>_. Some \<lparr>token_valid = False, token_error = None, token_expired = False, record_uid = None\<rparr>)\<rparr>"

definition sample_conn :: "bytes \<Rightarrow> mysql_conn" where
  "sample_conn input = \<lparr>client_in = [], client_out = [], client_ok = True, server_in = input, server_out = [],
     server_ok = True, conn_tracker = new_tracker, client_auth_seq_id = 1\<rparr>"

text \<open>A server that greets and accepts, and a client that logs in.\<close>

definition sample_login :: mysql_conn where
  "sample_login = (sample_conn (write_packet 0 (build_handshake_v10 default_handshake_v10) @ write_packet 2 [0, 0, 0]))
     \<lparr>client_in := write_packet 1 (build_handshake_response41 sample_response)\<rparr>"

lemma sample_token: "check_token sample_env unlimited r s = (Some (Ok None), s)"
  by (simp add: check_token_def unlimited_def return_h_def)

theorem credentials_injected_witness:
  "server_out (snd (complete_server_auth sample_env default_handshake_v10 default_handshake_response41 (sample_conn []))) =
   server_out (snd (complete_server_auth sample_env default_handshake_v10
     (default_handshake_response41\<lparr>username := [0x6D]\<rparr>) (sample_conn [])))"
  by (rule credentials_injected [OF _ sample_token sample_token]) (simp_all add: sample_env_def)

theorem token_gates_server_witness:
  "\<exists>e s'. complete_server_auth (sample_env\<lparr>get_session_config := Some (unlimited\<lparr>require_token := True\<rparr>)\<rparr>)
     default_handshake_v10 default_handshake_response41 (sample_conn []) = (Some (Err e), s') \<and>
     server_out s' = server_out (sample_conn []) \<and> conn_tracker s' = conn_tracker (sample_conn [])"
  by (rule token_gates_server [of _ "unlimited\<lparr>require_token := True\<rparr>"]) (simp_all add: sample_env_def)


end
