(* ===== verification/Postgres_Protocol.thy ===== *)
theory Postgres_Protocol
  imports Utf8_Lossy
begin

text \<open>
  The PostgreSQL wire protocol of the database proxy, \<open>keeperdb-proxy/src/protocol/postgres/codec.rs\<close>,
  \<open>messages.rs\<close> and \<open>constants.rs\<close>: the startup message and its two special requests, the framed
  messages, the payload parsers and builders, and the client fingerprint.

  A read from the stream gives the value and the rest of the stream; a parser of a payload is a
  \<open>presult\<close>, whose \<open>None\<close> is the panic of a slice. A \<open>HashMap\<close> is a map; where the code writes one out,
  the order of its entries is that of a list. Helpers that no other code calls are left out.
\<close>

section \<open>Constants\<close>

definition char_byte :: "char \<Rightarrow> u8" where
  "char_byte c = of_nat (of_char c)"

definition PROTOCOL_VERSION_3_0 :: u32 where "PROTOCOL_VERSION_3_0 = 196608"
definition SSL_REQUEST_CODE :: u32 where "SSL_REQUEST_CODE = 80877103"
definition CANCEL_REQUEST_CODE :: u32 where "CANCEL_REQUEST_CODE = 80877102"
definition MAX_MESSAGE_SIZE :: u32 where "MAX_MESSAGE_SIZE = 100 * 1024 * 1024"
definition MIN_MESSAGE_LENGTH :: u32 where "MIN_MESSAGE_LENGTH = 4"

lemmas pg_sizes =
  PROTOCOL_VERSION_3_0_def SSL_REQUEST_CODE_def CANCEL_REQUEST_CODE_def MAX_MESSAGE_SIZE_def
  MIN_MESSAGE_LENGTH_def

definition MSG_PASSWORD :: u8 where "MSG_PASSWORD = char_byte CHR ''p''"
definition MSG_QUERY :: u8 where "MSG_QUERY = char_byte CHR ''Q''"
definition MSG_AUTH_REQUEST :: u8 where "MSG_AUTH_REQUEST = char_byte CHR ''R''"
definition MSG_BACKEND_KEY_DATA :: u8 where "MSG_BACKEND_KEY_DATA = char_byte CHR ''K''"
definition MSG_PARAMETER_STATUS :: u8 where "MSG_PARAMETER_STATUS = char_byte CHR ''S''"
definition MSG_READY_FOR_QUERY :: u8 where "MSG_READY_FOR_QUERY = char_byte CHR ''Z''"
definition MSG_ERROR_RESPONSE :: u8 where "MSG_ERROR_RESPONSE = char_byte CHR ''E''"
definition MSG_NOTICE_RESPONSE :: u8 where "MSG_NOTICE_RESPONSE = char_byte CHR ''N''"

lemmas msg_codes =
  char_byte_def MSG_PASSWORD_def MSG_QUERY_def MSG_AUTH_REQUEST_def MSG_BACKEND_KEY_DATA_def
  MSG_PARAMETER_STATUS_def MSG_READY_FOR_QUERY_def MSG_ERROR_RESPONSE_def MSG_NOTICE_RESPONSE_def

definition AUTH_OK :: u32 where "AUTH_OK = 0"
definition AUTH_KERBEROS_V5 :: u32 where "AUTH_KERBEROS_V5 = 2"
definition AUTH_CLEARTEXT_PASSWORD :: u32 where "AUTH_CLEARTEXT_PASSWORD = 3"
definition AUTH_MD5_PASSWORD :: u32 where "AUTH_MD5_PASSWORD = 5"
definition AUTH_SCM_CREDENTIAL :: u32 where "AUTH_SCM_CREDENTIAL = 6"
definition AUTH_GSS :: u32 where "AUTH_GSS = 7"
definition AUTH_GSS_CONTINUE :: u32 where "AUTH_GSS_CONTINUE = 8"
definition AUTH_SSPI :: u32 where "AUTH_SSPI = 9"
definition AUTH_SASL :: u32 where "AUTH_SASL = 10"
definition AUTH_SASL_CONTINUE :: u32 where "AUTH_SASL_CONTINUE = 11"
definition AUTH_SASL_FINAL :: u32 where "AUTH_SASL_FINAL = 12"

lemmas auth_types =
  AUTH_OK_def AUTH_KERBEROS_V5_def AUTH_CLEARTEXT_PASSWORD_def AUTH_MD5_PASSWORD_def
  AUTH_SCM_CREDENTIAL_def AUTH_GSS_def AUTH_GSS_CONTINUE_def AUTH_SSPI_def AUTH_SASL_def
  AUTH_SASL_CONTINUE_def AUTH_SASL_FINAL_def

definition ERROR_FIELD_SEVERITY :: u8 where "ERROR_FIELD_SEVERITY = char_byte CHR ''S''"
definition ERROR_FIELD_CODE :: u8 where "ERROR_FIELD_CODE = char_byte CHR ''C''"
definition ERROR_FIELD_MESSAGE :: u8 where "ERROR_FIELD_MESSAGE = char_byte CHR ''M''"

section \<open>Messages\<close>

type_synonym params = "ustring \<rightharpoonup> ustring"

record startup_message =
  protocol_version :: u32
  parameters :: params

definition new_startup :: "ustring \<Rightarrow> startup_message" where
  "new_startup user = \<lparr>protocol_version = PROTOCOL_VERSION_3_0, parameters = [ustr ''user'' \<mapsto> user]\<rparr>"

definition startup_with_database :: "ustring \<Rightarrow> ustring \<Rightarrow> startup_message" where
  "startup_with_database user db =
     (let msg = new_startup user in msg\<lparr>parameters := (parameters msg)(ustr ''database'' \<mapsto> db)\<rparr>)"

definition startup_user :: "startup_message \<Rightarrow> ustring option" where
  "startup_user msg = parameters msg (ustr ''user'')"

definition startup_database :: "startup_message \<Rightarrow> ustring option" where
  "startup_database msg = parameters msg (ustr ''database'')"

definition startup_application_name :: "startup_message \<Rightarrow> ustring option" where
  "startup_application_name msg = parameters msg (ustr ''application_name'')"

fun joined :: "ustring list \<Rightarrow> ustring" where
  "joined [] = []"
| "joined [p] = p"
| "joined (p # ps) = p @ ustr '':'' @ joined ps"

definition fingerprint_part :: "string \<Rightarrow> ustring option \<Rightarrow> ustring list" where
  "fingerprint_part label v = (case v of Some x \<Rightarrow> [ustr label @ x] | None \<Rightarrow> [])"

definition pg_client_fingerprint :: "startup_message \<Rightarrow> ustring option" where
  "pg_client_fingerprint msg =
     (case startup_application_name msg of
        Some (c # cs) \<Rightarrow> Some (c # cs)
      | _ \<Rightarrow>
          let get = (\<lambda>k. parameters msg (ustr k));
              parts = fingerprint_part ''enc:'' (get ''client_encoding'') @
                (if get ''options'' = Some [] then [] else fingerprint_part ''opts:'' (get ''options'')) @
                fingerprint_part ''date:'' (get ''DateStyle'') @ fingerprint_part ''tz:'' (get ''TimeZone'') @
                fingerprint_part ''fdig:'' (get ''extra_float_digits'')
          in if parts = [] then None else Some (joined parts))"

record cancel_request =
  process_id :: u32
  secret_key :: u32

datatype startup_type = Startup startup_message | SSLRequest | CancelRequest cancel_request

datatype authentication_message =
  AuthOk | KerberosV5 | CleartextPassword | Md5Password bytes | ScmCredential | Gss | GssContinue bytes
| Sspi | Sasl "ustring list" | SaslContinue bytes | SaslFinal bytes

fun requires_password :: "authentication_message \<Rightarrow> bool" where
  "requires_password CleartextPassword = True"
| "requires_password (Md5Password salt) = True"
| "requires_password (Sasl ms) = True"
| "requires_password _ = False"

datatype transaction_status = Idle | InTransaction | Failed

definition status_from_byte :: "u8 \<Rightarrow> transaction_status option" where
  "status_from_byte b =
     (if b = char_byte CHR ''I'' then Some Idle
      else if b = char_byte CHR ''T'' then Some InTransaction
      else if b = char_byte CHR ''E'' then Some Failed else None)"

fun status_to_byte :: "transaction_status \<Rightarrow> u8" where
  "status_to_byte Idle = char_byte CHR ''I''"
| "status_to_byte InTransaction = char_byte CHR ''T''"
| "status_to_byte Failed = char_byte CHR ''E''"

type_synonym error_fields = "u8 \<rightharpoonup> ustring"

definition error_notice :: "ustring \<Rightarrow> ustring \<Rightarrow> ustring \<Rightarrow> error_fields" where
  "error_notice severity code msg =
     [ERROR_FIELD_SEVERITY \<mapsto> severity, ERROR_FIELD_CODE \<mapsto> code, ERROR_FIELD_MESSAGE \<mapsto> msg]"

definition notice_message :: "error_fields \<Rightarrow> ustring option" where
  "notice_message e = e ERROR_FIELD_MESSAGE"

definition notice_is_error :: "error_fields \<Rightarrow> bool" where
  "notice_is_error e \<longleftrightarrow>
     e ERROR_FIELD_SEVERITY \<in> {Some (ustr ''ERROR''), Some (ustr ''FATAL''), Some (ustr ''PANIC'')}"

record field_description =
  field_name :: ustring
  table_oid :: u32
  column_id :: u16
  type_oid :: u32
  type_size :: u16
  type_modifier :: u32
  format :: u16

section \<open>Reading from the stream\<close>

datatype pg_error =
  EndOfStream | MissingNull | InvalidUtf8 | StartupTooShort u32 | StartupTooLarge u32
| UnsupportedVersion u32 | MissingValue | InvalidLength u32 | MessageTooLarge u32
| MessageTooShort | MissingSalt | UnknownAuthType u32 | InvalidStatus u8 | Truncated
| UnexpectedStartup | CancelUnsupported | UnexpectedSslAnswer u8 | UnexpectedSasl | UnsupportedAuth u32
| NoScramSha256 | ExpectedAuth | PgScram | AuthIncomplete | ServerSetup ustring

definition read_bytes :: "nat \<Rightarrow> bytes \<Rightarrow> (bytes \<times> bytes, pg_error) result" where
  "read_bytes n bs = (if length bs < n then Err EndOfStream else Ok (take n bs, drop n bs))"

definition read_u32_be :: "bytes \<Rightarrow> (u32 \<times> bytes, pg_error) result" where
  "read_u32_be bs = bind_result (read_bytes 4 bs) (\<lambda>(b, rest). Ok (get_u32 b, rest))"

definition str_from_utf8 :: "bytes \<Rightarrow> (ustring, pg_error) result" where
  "str_from_utf8 bs = (if from_utf8 bs then Ok (from_utf8_lossy bs) else Err InvalidUtf8)"

definition read_cstring_from_buf :: "bytes \<Rightarrow> nat \<Rightarrow> (ustring \<times> nat, pg_error) presult" where
  "read_cstring_from_buf buf offset =
     read_from (\<lambda>d. if 0 \<notin> set d then Err MissingNull
                    else let s = takeWhile (\<lambda>b. b \<noteq> 0) d
                         in bind_result (str_from_utf8 s) (\<lambda>str. Ok (str, length s + 1))) buf offset"

lemma read_cstring_pos: "read_cstring_from_buf buf i = Some (Ok (s, n)) \<Longrightarrow> 0 < n"
  by (auto simp: read_cstring_from_buf_def read_from_def Let_def split: if_splits)

lemma read_cstring_bound: "read_cstring_from_buf buf i = Some (Ok (s, n)) \<Longrightarrow> i + n \<le> length buf"
proof -
  assume "read_cstring_from_buf buf i = Some (Ok (s, n))"
  then have z: "0 \<in> set (drop i buf)" and n: "n = Suc (length (takeWhile (\<lambda>b. b \<noteq> 0) (drop i buf)))"
    by (auto simp: read_cstring_from_buf_def read_from_def Let_def split: if_splits)
  have "0 \<in> set d \<Longrightarrow> length (takeWhile (\<lambda>b. b \<noteq> 0) d) < length d" for d :: bytes by (induction d) auto
  from this [OF z] have "length (takeWhile (\<lambda>b. b \<noteq> 0) (drop i buf)) < length (drop i buf)" .
  then show ?thesis using n by simp
qed

text \<open>The parameters of a startup message: pairs up to an empty key.\<close>

function params_loop :: "bytes \<Rightarrow> nat \<Rightarrow> params \<Rightarrow> (params, pg_error) presult" where
  "params_loop buf offset ps =
     (if offset < length buf
      then and_then (read_cstring_from_buf buf offset) (\<lambda>(key, n).
           if key = [] then Some (Ok ps)
           else if offset + n \<ge> length buf then Some (Err MissingValue)
           else and_then (read_cstring_from_buf buf (offset + n)) (\<lambda>(val, m).
                params_loop buf (offset + n + m) (ps(key \<mapsto> val))))
      else Some (Ok ps))"
  by pat_completeness auto
termination
  by (relation "measure (\<lambda>(buf, offset, ps). length buf - offset)") (auto dest: read_cstring_pos)

declare params_loop.simps [simp del]

definition read_startup_message :: "bytes \<Rightarrow> (startup_type \<times> bytes, pg_error) presult" where
  "read_startup_message bs =
     and_then (Some (read_u32_be bs)) (\<lambda>(len, r1).
     if len < 8 then Some (Err (StartupTooShort len))
     else if len > MAX_MESSAGE_SIZE then Some (Err (StartupTooLarge len))
     else and_then (Some (read_u32_be r1)) (\<lambda>(code, r2).
     if code = SSL_REQUEST_CODE then Some (Ok (SSLRequest, r2))
     else if code = CANCEL_REQUEST_CODE
     then and_then (Some (read_u32_be r2)) (\<lambda>(pid, r3).
          and_then (Some (read_u32_be r3)) (\<lambda>(key, r4).
          Some (Ok (CancelRequest \<lparr>process_id = pid, secret_key = key\<rparr>, r4))))
     else if code \<noteq> PROTOCOL_VERSION_3_0 then Some (Err (UnsupportedVersion code))
     else and_then (Some (read_bytes (unat (len - 8)) r2)) (\<lambda>(buf, r3).
          and_then (params_loop buf 0 Map.empty) (\<lambda>ps.
          Some (Ok (Startup \<lparr>protocol_version = code, parameters = ps\<rparr>, r3))))))"

definition read_message :: "bytes \<Rightarrow> ((u8 \<times> bytes) \<times> bytes, pg_error) result" where
  "read_message bs =
     bind_result (read_bytes 1 bs) (\<lambda>(t, r1).
     bind_result (read_u32_be r1) (\<lambda>(len, r2).
     if len < MIN_MESSAGE_LENGTH then Err (InvalidLength len)
     else if len > MAX_MESSAGE_SIZE then Err (MessageTooLarge len)
     else bind_result (read_bytes (unat (len - 4)) r2) (\<lambda>(payload, r3).
          Ok ((hd t, payload), r3))))"

section \<open>Writing to the stream\<close>

definition write_message :: "u8 \<Rightarrow> bytes \<Rightarrow> bytes" where
  "write_message t payload = [t] @ be32 (of_nat (length payload + 4)) @ payload"

definition cstring :: "ustring \<Rightarrow> bytes" where
  "cstring s = utf8 s @ [0]"

text \<open>The entries in the order in which the map yields them.\<close>

definition write_startup_message :: "u32 \<Rightarrow> (ustring \<times> ustring) list \<Rightarrow> bytes" where
  "write_startup_message version ps =
     (let content = be32 version @ concat (map (\<lambda>(k, v). cstring k @ cstring v) ps) @ [0]
      in be32 (of_nat (length content + 4)) @ content)"

definition write_ssl_request :: bytes where
  "write_ssl_request = be32 8 @ be32 SSL_REQUEST_CODE"

section \<open>Parsing payloads\<close>

text \<open>The mechanisms of a SASL request: strings up to an empty one.\<close>

function mechanisms_loop :: "bytes \<Rightarrow> nat \<Rightarrow> ustring list \<Rightarrow> (ustring list, pg_error) presult" where
  "mechanisms_loop payload offset ms =
     (if offset < length payload
      then and_then (read_cstring_from_buf payload offset) (\<lambda>(m, n).
           if m = [] then Some (Ok ms) else mechanisms_loop payload (offset + n) (ms @ [m]))
      else Some (Ok ms))"
  by pat_completeness auto
termination
  by (relation "measure (\<lambda>(buf, offset, ms). length buf - offset)") (auto dest: read_cstring_pos)

declare mechanisms_loop.simps [simp del]

definition parse_authentication :: "bytes \<Rightarrow> (authentication_message, pg_error) presult" where
  "parse_authentication payload =
     (if length payload < 4 then Some (Err MessageTooShort)
      else let t = get_u32 payload; dat = drop 4 payload
           in if t = AUTH_OK then Some (Ok AuthOk)
              else if t = AUTH_KERBEROS_V5 then Some (Ok KerberosV5)
              else if t = AUTH_CLEARTEXT_PASSWORD then Some (Ok CleartextPassword)
              else if t = AUTH_MD5_PASSWORD
              then (if length payload < 8 then Some (Err MissingSalt) else Some (Ok (Md5Password (take 4 dat))))
              else if t = AUTH_SCM_CREDENTIAL then Some (Ok ScmCredential)
              else if t = AUTH_GSS then Some (Ok Gss)
              else if t = AUTH_GSS_CONTINUE then Some (Ok (GssContinue dat))
              else if t = AUTH_SSPI then Some (Ok Sspi)
              else if t = AUTH_SASL
              then and_then (mechanisms_loop payload 4 []) (\<lambda>ms. Some (Ok (Sasl ms)))
              else if t = AUTH_SASL_CONTINUE then Some (Ok (SaslContinue dat))
              else if t = AUTH_SASL_FINAL then Some (Ok (SaslFinal dat))
              else Some (Err (UnknownAuthType t)))"

function notice_loop :: "bytes \<Rightarrow> nat \<Rightarrow> error_fields \<Rightarrow> (error_fields, pg_error) presult" where
  "notice_loop payload offset flds =
     (if offset < length payload
      then if payload ! offset = 0 then Some (Ok flds)
           else and_then (read_cstring_from_buf payload (offset + 1)) (\<lambda>(v, n).
                notice_loop payload (offset + 1 + n) (flds(payload ! offset \<mapsto> v)))
      else Some (Ok flds))"
  by pat_completeness auto
termination
  by (relation "measure (\<lambda>(buf, offset, flds). length buf - offset)") auto

declare notice_loop.simps [simp del]

definition parse_error_notice :: "bytes \<Rightarrow> (error_fields, pg_error) presult" where
  "parse_error_notice payload = notice_loop payload 0 Map.empty"

definition parse_parameter_status :: "bytes \<Rightarrow> (ustring \<times> ustring, pg_error) presult" where
  "parse_parameter_status payload =
     and_then (read_cstring_from_buf payload 0) (\<lambda>(name, n).
     and_then (read_cstring_from_buf payload n) (\<lambda>(v, _). Some (Ok (name, v))))"

definition parse_backend_key_data :: "bytes \<Rightarrow> (cancel_request, pg_error) presult" where
  "parse_backend_key_data payload =
     (if length payload < 8 then Some (Err MessageTooShort)
      else Some (Ok \<lparr>process_id = get_u32 payload, secret_key = get_u32 (drop 4 payload)\<rparr>))"

definition parse_ready_for_query :: "bytes \<Rightarrow> (transaction_status, pg_error) presult" where
  "parse_ready_for_query payload =
     (if payload = [] then Some (Err MessageTooShort)
      else case status_from_byte (payload ! 0) of
             Some st \<Rightarrow> Some (Ok st) | None \<Rightarrow> Some (Err (InvalidStatus (payload ! 0))))"

fun fields_loop ::
  "bytes \<Rightarrow> nat \<Rightarrow> nat \<Rightarrow> field_description list \<Rightarrow> (field_description list, pg_error) presult" where
  "fields_loop payload 0 offset fs = Some (Ok fs)"
| "fields_loop payload (Suc k) offset fs =
     and_then (read_cstring_from_buf payload offset) (\<lambda>(name, n).
     let c = offset + n
     in if c + 18 > length payload then Some (Err Truncated)
        else fields_loop payload k (c + 18) (fs @
          [\<lparr>field_name = name, table_oid = get_u32 (drop c payload), column_id = get_u16 (drop (c + 4) payload),
            type_oid = get_u32 (drop (c + 6) payload), type_size = get_u16 (drop (c + 10) payload),
            type_modifier = get_u32 (drop (c + 12) payload), format = get_u16 (drop (c + 16) payload)\<rparr>]))"

definition parse_row_description :: "bytes \<Rightarrow> (field_description list, pg_error) presult" where
  "parse_row_description payload =
     (if length payload < 2 then Some (Err MessageTooShort)
      else fields_loop payload (unat (get_u16 payload)) 2 [])"

text \<open>
  The values of a row. The length is an \<open>i32\<close> cast to \<open>usize\<close>, so a negative one is a number just
  below \<open>2 ^ 64\<close>, and its sum with the offset wraps.\<close>

fun values_loop ::
  "bytes \<Rightarrow> nat \<Rightarrow> nat \<Rightarrow> bytes option list \<Rightarrow> (bytes option list, pg_error) presult" where
  "values_loop payload 0 offset vs = Some (Ok vs)"
| "values_loop payload (Suc k) offset vs =
     (if offset + 4 > length payload then Some (Err Truncated)
      else let len = get_u32 (drop offset payload); c = offset + 4
           in if len = - 1 then values_loop payload k c (vs @ [None])
              else let stop = usize_add c (unat (scast len :: u64))
                   in if stop > length payload then Some (Err Truncated)
                      else if stop < c then None
                      else values_loop payload k stop (vs @ [Some (take (stop - c) (drop c payload))]))"

definition parse_data_row :: "bytes \<Rightarrow> (bytes option list, pg_error) presult" where
  "parse_data_row payload =
     (if length payload < 2 then Some (Err MessageTooShort)
      else values_loop payload (unat (get_u16 payload)) 2 [])"

definition parse_command_complete :: "bytes \<Rightarrow> (ustring, pg_error) presult" where
  "parse_command_complete payload =
     and_then (read_cstring_from_buf payload 0) (\<lambda>(tag, _). Some (Ok tag))"

section \<open>Building payloads\<close>

definition build_password_message :: "ustring \<Rightarrow> bytes" where
  "build_password_message password = cstring password"

definition build_sasl_initial_response :: "ustring \<Rightarrow> bytes \<Rightarrow> bytes" where
  "build_sasl_initial_response mechanism dat =
     cstring mechanism @ (if dat = [] then be32 (- 1) else be32 (of_nat (length dat)) @ dat)"

definition build_error_response :: "(u8 \<times> ustring) list \<Rightarrow> bytes" where
  "build_error_response flds = concat (map (\<lambda>(t, v). [t] @ cstring v) flds) @ [0]"

definition build_query :: "ustring \<Rightarrow> bytes" where
  "build_query query = cstring query"

definition build_ready_for_query :: "transaction_status \<Rightarrow> bytes" where
  "build_ready_for_query st = [status_to_byte st]"

section \<open>Reading what was written\<close>

lemma read_cstring_written:
  assumes "plain_string s" and "i = length pre"
  shows "read_cstring_from_buf (pre @ cstring s @ q) i = Some (Ok (s, length (cstring s)))"
proof -
  have "0 \<notin> set (utf8 s)" using assms by (simp add: plain_string_def utf8_nonzero)
  then have "takeWhile (\<lambda>b. b \<noteq> 0) (utf8 s @ 0 # q) = utf8 s" by (auto simp: takeWhile_tail takeWhile_eq_all_conv)
  moreover have "from_utf8 (utf8 s)" "from_utf8_lossy (utf8 s) = s"
    using assms by (simp_all add: plain_string_def proper_string_def from_utf8_utf8)
  ultimately show ?thesis
    using assms(2) by (simp add: read_cstring_from_buf_def read_from_def cstring_def str_from_utf8_def)
qed

lemma length_cstring: "length (cstring s) = length (utf8 s) + 1"
  by (simp add: cstring_def)

definition write_params :: "(ustring \<times> ustring) list \<Rightarrow> bytes" where
  "write_params ps = concat (map (\<lambda>(k, v). cstring k @ cstring v) ps)"

definition params_ok :: "(ustring \<times> ustring) list \<Rightarrow> bool" where
  "params_ok ps \<longleftrightarrow> (\<forall>(k, v) \<in> set ps. k \<noteq> [] \<and> plain_string k \<and> plain_string v)"

lemma params_loop_written:
  assumes "params_ok ps" and "i = length pre"
  shows "params_loop (pre @ write_params ps @ [0]) i m = Some (Ok (m ++ map_of (rev ps)))"
  using assms
proof (induction ps arbitrary: pre i m)
  case Nil
  have "read_cstring_from_buf (pre @ cstring [] @ []) i = Some (Ok ([], length (cstring [])))"
    using Nil.prems by (intro read_cstring_written) (simp_all add: plain_string_def)
  then show ?case
    using Nil.prems by (subst params_loop.simps) (simp add: write_params_def cstring_def)
next
  case (Cons kv ps)
  obtain k v where kv: "kv = (k, v)" by fastforce
  let ?rest = "write_params ps @ [0]"
  let ?buf = "pre @ cstring k @ cstring v @ ?rest"
  have ok: "k \<noteq> []" "plain_string k" "plain_string v" "params_ok ps"
    using Cons.prems by (auto simp: kv params_ok_def)
  have key: "read_cstring_from_buf ?buf i = Some (Ok (k, length (cstring k)))"
    using ok Cons.prems by (intro read_cstring_written) simp_all
  have val: "read_cstring_from_buf ?buf (i + length (cstring k)) = Some (Ok (v, length (cstring v)))"
    using read_cstring_written [OF ok(3), of "i + length (cstring k)" "pre @ cstring k" ?rest] Cons.prems
    by simp
  have rest: "params_loop ?buf (i + length (cstring k) + length (cstring v)) (m(k \<mapsto> v)) =
      Some (Ok (m(k \<mapsto> v) ++ map_of (rev ps)))"
    using Cons.IH [OF ok(4), of "i + length (cstring k) + length (cstring v)" "pre @ cstring k @ cstring v" "m(k \<mapsto> v)"]
      Cons.prems by (simp del: fun_upd_apply)
  have "i < length ?buf" "\<not> length ?buf \<le> i + length (cstring k)"
    using Cons.prems by (simp_all add: length_cstring)
  then have "params_loop ?buf i m = Some (Ok (m(k \<mapsto> v) ++ map_of (rev ps)))"
    using ok(1) by (subst params_loop.simps) (simp only: key val rest and_then_simps prod.case if_True if_False)
  then show ?case by (simp add: kv write_params_def map_of_append map_add_assoc)
qed

lemma read_bytes_append [simp]: "n = length xs \<Longrightarrow> read_bytes n (xs @ ys) = Ok (xs, ys)"
  by (simp add: read_bytes_def)

lemma read_u32_be_append [simp]: "read_u32_be (be32 w @ ys) = Ok (w, ys)"
  using get_be32 [of w "[]"] by (simp add: read_u32_be_def)

lemma of_nat_below_max:
  assumes "n \<le> 104857600"
  shows "unat (of_nat n :: u32) = n" "\<not> MAX_MESSAGE_SIZE < of_nat n"
proof -
  show u: "unat (of_nat n :: u32) = n" using assms by (simp add: unat_of_nat_small)
  then show "\<not> MAX_MESSAGE_SIZE < of_nat n" using assms by (simp add: word_less_nat_alt pg_sizes)
qed

lemma read_startup_framed:
  assumes "\<not> N < 8" and "\<not> MAX_MESSAGE_SIZE < N" and "unat (N - 8) = length body"
    and "params_loop body 0 Map.empty = Some (Ok ps)"
  shows "read_startup_message (be32 N @ be32 PROTOCOL_VERSION_3_0 @ body @ rest) =
    Some (Ok (Startup \<lparr>protocol_version = PROTOCOL_VERSION_3_0, parameters = ps\<rparr>, rest))"
proof -
  have "PROTOCOL_VERSION_3_0 \<noteq> SSL_REQUEST_CODE" "PROTOCOL_VERSION_3_0 \<noteq> CANCEL_REQUEST_CODE"
    by (simp_all add: pg_sizes)
  then show ?thesis using assms by (simp add: read_startup_message_def)
qed

text \<open>
  The proxy reads back the startup message it writes: the same parameters, whatever
  the order in which the map yields them, and the stream is left at the next message.
\<close>

lemma startup_roundtrip:
  assumes "params_ok ps" and "distinct (map fst ps)"
    and "length (write_startup_message PROTOCOL_VERSION_3_0 ps) \<le> 104857600"
  shows "read_startup_message (write_startup_message PROTOCOL_VERSION_3_0 ps @ rest) =
    Some (Ok (Startup \<lparr>protocol_version = PROTOCOL_VERSION_3_0, parameters = map_of ps\<rparr>, rest))"
proof -
  let ?body = "write_params ps @ [0]"
  let ?n = "length ?body + 8"
  have w: "write_startup_message PROTOCOL_VERSION_3_0 ps = be32 (of_nat ?n) @ be32 PROTOCOL_VERSION_3_0 @ ?body"
    by (simp add: write_startup_message_def write_params_def Let_def)
  have n: "?n \<le> 104857600" using assms(3) by (simp add: w)
  note size = of_nat_below_max [OF n]
  have low: "\<not> of_nat ?n < (8 :: u32)" using size(1) by (simp add: word_less_nat_alt)
  have body: "unat (of_nat ?n - 8 :: u32) = length ?body"
    using unat_sub [of 8 "of_nat ?n :: u32"] low unfolding size(1) by (simp add: not_less)
  have "map_of (rev ps) k = Some v \<longleftrightarrow> map_of ps k = Some v" for k v
    using assms(2) map_of_eq_Some_iff [of ps k v] map_of_eq_Some_iff [of "rev ps" k v] by (simp flip: rev_map)
  then have "map_of (rev ps) = map_of ps" by (intro ext) (metis not_Some_eq)
  then have "params_loop ?body 0 Map.empty = Some (Ok (map_of ps))"
    using params_loop_written [OF assms(1), of 0 "[]" Map.empty] by simp
  from read_startup_framed [OF low size(2) body this] show ?thesis by (simp add: w)
qed

section \<open>The stream of messages\<close>

definition enc_message :: "u8 \<times> bytes \<Rightarrow> bytes" where
  "enc_message m = write_message (fst m) (snd m)"

definition dec_message :: "bytes \<Rightarrow> ((u8 \<times> bytes) \<times> bytes) option" where
  "dec_message bs = (case read_message bs of Ok r \<Rightarrow> Some r | Err e \<Rightarrow> None)"

definition message_ok :: "u8 \<times> bytes \<Rightarrow> bool" where
  "message_ok m \<longleftrightarrow> length (snd m) + 4 \<le> 104857600"

lemma read_write_message:
  assumes "length p + 4 \<le> 104857600"
  shows "read_message (write_message t p @ rest) = Ok ((t, p), rest)"
proof -
  let ?N = "of_nat (length p + 4) :: u32"
  note size = of_nat_below_max [OF assms]
  have low: "\<not> ?N < MIN_MESSAGE_LENGTH" using size(1) by (simp add: word_less_nat_alt pg_sizes)
  have "unat (?N - 4) = length p"
    using unat_sub [of 4 ?N] low unfolding size(1) by (simp add: not_less pg_sizes)
  moreover have "read_bytes 1 (t # xs) = Ok ([t], xs)" for xs by (simp add: read_bytes_def)
  ultimately show ?thesis
    using size(2) low by (simp add: read_message_def write_message_def)
qed

lemma get_u32_take: "get_u32 (take 4 xs) = get_u32 xs"
  by (simp add: get_u32_def)

lemma read_message_Cons:
  "read_message (t # xs) =
     (if length xs < 4 then Err EndOfStream
      else if get_u32 xs < MIN_MESSAGE_LENGTH then Err (InvalidLength (get_u32 xs))
      else if get_u32 xs > MAX_MESSAGE_SIZE then Err (MessageTooLarge (get_u32 xs))
      else if length xs - 4 < unat (get_u32 xs - 4) then Err EndOfStream
      else Ok ((t, take (unat (get_u32 xs - 4)) (drop 4 xs)), drop (unat (get_u32 xs - 4)) (drop 4 xs)))"
  by (simp add: read_message_def read_u32_be_def read_bytes_def get_u32_take)

lemma read_message_Nil: "read_message [] = Err EndOfStream"
  by (simp add: read_message_def read_bytes_def)

lemma read_message_more: "read_message bs = Ok (m, r) \<Longrightarrow> read_message (bs @ q) = Ok (m, r @ q)"
proof (cases bs)
  case (Cons t xs)
  assume m: "read_message bs = Ok (m, r)"
  then have "4 \<le> length xs" by (auto simp: Cons read_message_Cons split: if_splits)
  then have "get_u32 (xs @ q) = get_u32 xs" by (auto simp: get_u32_def nth_append)
  with m show ?thesis by (auto simp: Cons read_message_Cons split: if_splits)
qed (simp add: read_message_Nil)

lemma read_message_shrinks: "read_message bs = Ok (m, r) \<Longrightarrow> length r < length bs"
  by (cases bs) (auto simp: read_message_Nil read_message_Cons split: if_splits)

interpretation pgsql: frame_codec enc_message dec_message message_ok
proof unfold_locales
  show "dec_message (enc_message x @ rest) = Some (x, rest)" if "message_ok x" for x rest
    using that by (cases x) (simp add: dec_message_def enc_message_def message_ok_def read_write_message)
  show "dec_message p = None" if x: "message_ok x" and pq: "enc_message x = p @ q" and q: "q \<noteq> []" for x p q
  proof (rule ccontr)
    assume "dec_message p \<noteq> None"
    then obtain m r where "read_message p = Ok (m, r)" by (auto simp: dec_message_def split: result.splits)
    from read_message_more [OF this, of q] have "read_message (enc_message x @ []) = Ok (m, r @ q)" by (simp add: pq)
    moreover have "read_message (enc_message x @ []) = Ok (x, [])"
      using x read_write_message [of "snd x" "fst x" "[]"] by (simp add: enc_message_def message_ok_def)
    ultimately show False using q by simp
  qed
  show "enc_message x \<noteq> []" if "message_ok x" for x by (simp add: enc_message_def write_message_def)
qed

lemma message_stream:
  assumes "\<forall>m \<in> set ms. message_ok m" and "message_ok x" and "enc_message x = front @ back" and "back \<noteq> []"
  shows "drain dec_message (Suc (length (concat (map enc_message ms) @ front))) (concat (map enc_message ms) @ front) =
    (ms, front)"
  using pgsql.drain_all_stream [OF assms] .

section \<open>Panics of the payload parsers\<close>

lemma read_cstring_total: "i \<le> length p \<Longrightarrow> \<exists>r. read_cstring_from_buf p i = Some r"
  by (simp add: read_cstring_from_buf_def read_from_def)

lemma params_loop_total: "params_loop p i m \<noteq> None"
proof (induction p i m rule: params_loop.induct)
  case (1 p i m)
  show ?case
  proof (cases "i < length p")
    case True
    then obtain r where r: "read_cstring_from_buf p i = Some r" using read_cstring_total [of i p] by auto
    show ?thesis
    proof (cases r)
      case (Ok kn)
      then obtain k n where k: "read_cstring_from_buf p i = Some (Ok (k, n))" using r by (cases kn) auto
      obtain r' where r': "i + n \<le> length p" "read_cstring_from_buf p (i + n) = Some r'"
        using read_cstring_bound [OF k] read_cstring_total [of "i + n" p] by auto
      then show ?thesis
        using 1 [OF True k refl] True k
        by (subst params_loop.simps) (cases r'; auto simp del: fun_upd_apply)
    qed (use True r in \<open>subst params_loop.simps; simp\<close>)
  qed (subst params_loop.simps; simp)
qed

lemma mechanisms_loop_total: "mechanisms_loop p i ms \<noteq> None"
proof (induction p i ms rule: mechanisms_loop.induct)
  case (1 p i ms)
  show ?case
  proof (cases "i < length p")
    case True
    then obtain r where r: "read_cstring_from_buf p i = Some r" using read_cstring_total [of i p] by auto
    then show ?thesis
      using 1 True by (subst mechanisms_loop.simps) (cases r; auto simp del: fun_upd_apply)
  qed (subst mechanisms_loop.simps; simp)
qed

lemma notice_loop_total: "notice_loop p i m \<noteq> None"
proof (induction p i m rule: notice_loop.induct)
  case (1 p i m)
  show ?case
  proof (cases "i < length p")
    case True
    then obtain r where r: "read_cstring_from_buf p (i + 1) = Some r" using read_cstring_total [of "i + 1" p] by auto
    then show ?thesis
      using 1 True by (subst notice_loop.simps) (cases r; auto simp del: fun_upd_apply)
  qed (subst notice_loop.simps; simp)
qed

lemma fields_loop_total: "i \<le> length p \<Longrightarrow> fields_loop p k i fs \<noteq> None"
proof (induction k arbitrary: i fs)
  case (Suc k)
  then obtain r where r: "read_cstring_from_buf p i = Some r" using read_cstring_total [of i p] by auto
  with Suc show ?case by (cases r) (auto simp: Let_def)
qed simp

text \<open>
  Whatever bytes a peer sends, reading a startup message and parsing the payloads of
  authentication requests, errors, parameters, keys, statuses, row descriptions and command tags never
  indexes out of range; every malformed payload is an error value.
\<close>

lemma pg_parsers_never_panic:
  "read_startup_message p \<noteq> None \<and> parse_authentication p \<noteq> None \<and> parse_error_notice p \<noteq> None \<and>
   parse_parameter_status p \<noteq> None \<and> parse_backend_key_data p \<noteq> None \<and> parse_ready_for_query p \<noteq> None \<and>
   parse_row_description p \<noteq> None \<and> parse_command_complete p \<noteq> None"
proof (intro conjI)
  have loops [simp]: "params_loop q i m = None \<longleftrightarrow> False" "mechanisms_loop q i ms = None \<longleftrightarrow> False" for q i m ms
    using params_loop_total mechanisms_loop_total by simp_all
  show "read_startup_message p \<noteq> None"
    by (auto simp: read_startup_message_def and_then_def split: result.split option.split)
  show "parse_authentication p \<noteq> None"
    by (auto simp: parse_authentication_def Let_def and_then_def split: result.split option.split)
  show "parse_error_notice p \<noteq> None"
    unfolding parse_error_notice_def by (rule notice_loop_total)
  show "parse_parameter_status p \<noteq> None"
  proof -
    obtain r where r: "read_cstring_from_buf p 0 = Some r" using read_cstring_total [of 0 p] by auto
    show ?thesis
    proof (cases r)
      case (Ok kn)
      then obtain k n where k: "read_cstring_from_buf p 0 = Some (Ok (k, n))" using r by (cases kn) auto
      obtain r' where "read_cstring_from_buf p n = Some r'"
        using read_cstring_bound [OF k] read_cstring_total [of n p] by auto
      with k show ?thesis by (cases r') (auto simp: parse_parameter_status_def)
    qed (simp add: parse_parameter_status_def r)
  qed
  show "parse_backend_key_data p \<noteq> None" by (simp add: parse_backend_key_data_def)
  show "parse_ready_for_query p \<noteq> None" by (simp add: parse_ready_for_query_def split: option.split)
  show "parse_row_description p \<noteq> None"
    by (simp add: parse_row_description_def fields_loop_total del: not_None_eq)
  show "parse_command_complete p \<noteq> None"
    using read_cstring_total [of 0 p] by (auto simp: parse_command_complete_def and_then_def split: result.split)
qed

text \<open>The parser of data rows does: a negative length other than -1 ends the slice before it starts.\<close>

lemma negative_length_panics:
  assumes "n \<noteq> 0" and "2 \<le> k" and "k \<le> 6"
  shows "parse_data_row (be16 n @ be32 (- of_nat k) @ rest) = None"
proof -
  have n: "get_u16 (be16 n @ q) = n" for q by (rule get_be16)
  obtain c where c: "unat n = Suc c" using assms(1) by (metis not0_implies_Suc unat_eq_zero)
  have k: "k \<in> {2, 3, 4, 5, 6}" using assms by auto
  have wrapped: "unat (scast (- of_nat k :: u32) :: u64) = 2 ^ 64 - k" "- of_nat k \<noteq> (- 1 :: u32)"
    using k by auto
  then have "usize_add 6 (unat (scast (- of_nat k :: u32) :: u64)) = 6 - k"
    using k unfolding wrapped by (auto simp: usize_add_def)
  then show ?thesis
    unfolding parse_data_row_def n c using wrapped(2) k by (auto simp: get_be32 Let_def)
qed

end
