(* ===== verification/Postgres_Auth.thy ===== *)
theory Postgres_Auth
  imports Postgres_Protocol
begin

text \<open>
  PostgreSQL authentication, \<open>keeperdb-proxy/src/protocol/postgres/auth.rs\<close>: the MD5 password and the
  SCRAM-SHA-256 client as a state machine with its messages.

  The hash functions, HMAC, PBKDF2 and base64 are parameters. A \<open>str\<close> is its UTF-8 bytes. The nonce is drawn
  by the caller; zeroisation and the constant time of the comparison are left out.
\<close>

section \<open>MD5\<close>

record pg_crypto =
  md5 :: "bytes \<Rightarrow> bytes"
  hash256 :: "bytes \<Rightarrow> bytes"
  hmac256 :: "bytes \<Rightarrow> bytes \<Rightarrow> bytes"
  pbkdf2 :: "bytes \<Rightarrow> bytes \<Rightarrow> u32 \<Rightarrow> bytes"
  b64_encode :: "bytes \<Rightarrow> bytes"
  b64_decode :: "bytes \<Rightarrow> bytes option"

definition lit :: "string \<Rightarrow> bytes" where
  "lit s = map char_byte s"

definition nibble_char :: "nat \<Rightarrow> u8" where
  "nibble_char d = (if d < 10 then of_nat (48 + d) else of_nat (87 + d))"

definition hex_encode :: "bytes \<Rightarrow> bytes" where
  "hex_encode bs = concat (map (\<lambda>b. [nibble_char (unat b div 16), nibble_char (unat b mod 16)]) bs)"

definition compute_md5_password :: "pg_crypto \<Rightarrow> bytes \<Rightarrow> bytes \<Rightarrow> bytes \<Rightarrow> bytes" where
  "compute_md5_password cr user password salt =
     (let stage1_hex = hex_encode (md5 cr (password @ user));
          stage2 = md5 cr (stage1_hex @ salt)
      in lit ''md5'' @ hex_encode stage2)"

section \<open>SCRAM\<close>

datatype scram_state =
  ScramInitial
| WaitingForServerFirst bytes
| WaitingForServerFinal bytes bytes
| ScramComplete
| ScramFailed

record scram_client =
  scram_username :: bytes
  scram_password :: bytes
  client_nonce :: bytes
  scram_state :: scram_state

datatype scram_error =
  UnexpectedState | ScramUtf8 | SaltBase64 | IterationCount | MissingField | NonceMismatch
| ServerError bytes | FinalFormat | SignatureBase64 | SignatureMismatch

definition new_scram :: "bytes \<Rightarrow> bytes \<Rightarrow> bytes \<Rightarrow> scram_client" where
  "new_scram user password nonce =
     \<lparr>scram_username = user, scram_password = password, client_nonce = nonce, scram_state = ScramInitial\<rparr>"

definition saslprep :: "bytes \<Rightarrow> bytes" where
  "saslprep s = s"

definition client_first_message :: "scram_client \<Rightarrow> bytes \<times> scram_client" where
  "client_first_message c =
     (let bare = lit ''n='' @ saslprep (scram_username c) @ lit '',r='' @ client_nonce c
      in (lit ''n,,'' @ bare, c\<lparr>scram_state := WaitingForServerFirst bare\<rparr>))"

text \<open>\<open>str::split\<close> at an ASCII character, \<open>str::strip_prefix\<close> and \<open>str::parse::<u32>\<close>.\<close>

fun split_byte :: "u8 \<Rightarrow> bytes \<Rightarrow> bytes list" where
  "split_byte sep [] = [[]]"
| "split_byte sep (b # bs) =
     (if b = sep then [] # split_byte sep bs
      else case split_byte sep bs of p # ps \<Rightarrow> (b # p) # ps | [] \<Rightarrow> [[b]])"

definition strip_prefix :: "bytes \<Rightarrow> bytes \<Rightarrow> bytes option" where
  "strip_prefix p s = (if take (length p) s = p then Some (drop (length p) s) else None)"

definition parse_u32 :: "bytes \<Rightarrow> u32 option" where
  "parse_u32 bs =
     (let ds = (case bs of b # c # cs \<Rightarrow> if b = 0x2B then c # cs else bs | _ \<Rightarrow> bs)
      in if ds = [] \<or> \<not> list_all is_ascii_digit ds then None
         else if digits_value 0 ds < 2 ^ 32 then Some (of_nat (digits_value 0 ds)) else None)"

text \<open>The fields of the server's first message; a later field of a name replaces an earlier one.\<close>

type_synonym server_fields = "bytes option \<times> bytes option \<times> u32 option"

definition first_field :: "pg_crypto \<Rightarrow> bytes \<Rightarrow> server_fields \<Rightarrow> (server_fields, scram_error) result" where
  "first_field cr part acc =
     (case acc of (nonce, salt, iterations) \<Rightarrow>
        (case strip_prefix (lit ''r='') part of
           Some v \<Rightarrow> Ok (Some v, salt, iterations)
         | None \<Rightarrow>
        (case strip_prefix (lit ''s='') part of
           Some v \<Rightarrow> (case b64_decode cr v of Some d \<Rightarrow> Ok (nonce, Some d, iterations) | None \<Rightarrow> Err SaltBase64)
         | None \<Rightarrow>
        (case strip_prefix (lit ''i='') part of
           Some v \<Rightarrow> (case parse_u32 v of Some n \<Rightarrow> Ok (nonce, salt, Some n) | None \<Rightarrow> Err IterationCount)
         | None \<Rightarrow> Ok acc))))"

fun first_fields :: "pg_crypto \<Rightarrow> bytes list \<Rightarrow> server_fields \<Rightarrow> (server_fields, scram_error) result" where
  "first_fields cr [] acc = Ok acc"
| "first_fields cr (p # ps) acc = bind_result (first_field cr p acc) (first_fields cr ps)"

definition parse_server_first :: "pg_crypto \<Rightarrow> bytes \<Rightarrow> (bytes \<times> bytes \<times> u32, scram_error) result" where
  "parse_server_first cr msg =
     bind_result (first_fields cr (split_byte 0x2C msg) (None, None, None)) (\<lambda>acc.
     case acc of (Some n, Some s, Some i) \<Rightarrow> Ok (n, s, i) | _ \<Rightarrow> Err MissingField)"

definition xor_zip :: "bytes \<Rightarrow> bytes \<Rightarrow> bytes" where
  "xor_zip xs ys = map (\<lambda>(a, b). a XOR b) (zip xs ys)"

definition compute_client_proof :: "pg_crypto \<Rightarrow> bytes \<Rightarrow> bytes \<Rightarrow> bytes" where
  "compute_client_proof cr salted auth_message =
     (let client_key = hmac256 cr salted (lit ''Client Key'');
          stored_key = hash256 cr client_key;
          client_signature = hmac256 cr stored_key auth_message
      in xor_zip client_key client_signature)"

definition compute_server_signature :: "pg_crypto \<Rightarrow> bytes \<Rightarrow> bytes \<Rightarrow> bytes" where
  "compute_server_signature cr salted auth_message =
     (let server_key = hmac256 cr salted (lit ''Server Key'')
      in hmac256 cr server_key auth_message)"

definition client_final_without_proof :: "pg_crypto \<Rightarrow> bytes \<Rightarrow> bytes" where
  "client_final_without_proof cr server_nonce =
     lit ''c='' @ b64_encode cr (lit ''n,,'') @ lit '',r='' @ server_nonce"

definition auth_message :: "bytes \<Rightarrow> bytes \<Rightarrow> bytes \<Rightarrow> bytes" where
  "auth_message first_bare server_first without_proof =
     first_bare @ lit '','' @ server_first @ lit '','' @ without_proof"

definition process_server_first ::
  "pg_crypto \<Rightarrow> bytes \<Rightarrow> scram_client \<Rightarrow> (bytes, scram_error) result \<times> scram_client" where
  "process_server_first cr server_first c =
     (case scram_state c of
        WaitingForServerFirst first_bare \<Rightarrow>
          if \<not> from_utf8 server_first then (Err ScramUtf8, c)
          else (case parse_server_first cr server_first of
                  Err e \<Rightarrow> (Err e, c)
                | Ok (server_nonce, salt, iterations) \<Rightarrow>
                    if take (length (client_nonce c)) server_nonce \<noteq> client_nonce c
                    then (Err NonceMismatch, c\<lparr>scram_state := ScramFailed\<rparr>)
                    else let salted = pbkdf2 cr (scram_password c) salt iterations;
                             final = client_final_without_proof cr server_nonce;
                             msg = auth_message first_bare server_first final;
                             proof_b64 = b64_encode cr (compute_client_proof cr salted msg)
                         in (Ok (final @ lit '',p='' @ proof_b64),
                             c\<lparr>scram_state := WaitingForServerFinal msg salted\<rparr>))
      | _ \<Rightarrow> (Err UnexpectedState, c\<lparr>scram_state := ScramFailed\<rparr>))"

definition verify_server_final ::
  "pg_crypto \<Rightarrow> bytes \<Rightarrow> scram_client \<Rightarrow> (unit, scram_error) result \<times> scram_client" where
  "verify_server_final cr server_final c =
     (case scram_state c of
        WaitingForServerFinal msg salted \<Rightarrow>
          if \<not> from_utf8 server_final then (Err ScramUtf8, c)
          else (case strip_prefix (lit ''e='') server_final of
                  Some e \<Rightarrow> (Err (ServerError e), c\<lparr>scram_state := ScramFailed\<rparr>)
                | None \<Rightarrow>
                    (case strip_prefix (lit ''v='') server_final of
                       None \<Rightarrow> (Err FinalFormat, c\<lparr>scram_state := ScramFailed\<rparr>)
                     | Some v \<Rightarrow>
                         (case b64_decode cr v of
                            None \<Rightarrow> (Err SignatureBase64, c)
                          | Some received \<Rightarrow>
                              if received = compute_server_signature cr salted msg
                              then (Ok (), c\<lparr>scram_state := ScramComplete\<rparr>)
                              else (Err SignatureMismatch, c\<lparr>scram_state := ScramFailed\<rparr>))))
      | _ \<Rightarrow> (Err UnexpectedState, c\<lparr>scram_state := ScramFailed\<rparr>))"

definition is_complete :: "scram_client \<Rightarrow> bool" where
  "is_complete c \<longleftrightarrow> scram_state c = ScramComplete"

section \<open>An honest exchange\<close>

lemma split_byte_append: "sep \<notin> set x \<Longrightarrow> split_byte sep (x @ sep # y) = x # split_byte sep y"
  by (induction x) auto

lemma split_byte_single: "sep \<notin> set x \<Longrightarrow> split_byte sep x = [x]"
  by (induction x) auto

lemma parse_u32_dec: "parse_u32 (dec_bytes (unat i)) = Some i"
proof -
  let ?d = "dec_bytes (unat i)"
  have digits: "list_all is_ascii_digit ?d" using dec_bytes_digits by (auto simp: list_all_iff)
  moreover have "\<not> is_ascii_digit 0x2B" by (simp add: is_ascii_digit_def)
  ultimately have "(case ?d of b # c # cs \<Rightarrow> if b = 0x2B then c # cs else ?d | _ \<Rightarrow> ?d) = ?d"
    by (auto split: list.split)
  then show ?thesis
    using digits unsigned_less [of i] by (simp add: parse_u32_def digits_value_dec_bytes)
qed

lemma dec_bytes_plain: "0x2C \<notin> set (dec_bytes n)" "is_ascii (dec_bytes n)"
proof -
  have "is_ascii_digit b \<Longrightarrow> b \<noteq> 0x2C \<and> unat b < 0x80" for b
    by (auto simp: is_ascii_digit_def word_le_nat_alt)
  then show "0x2C \<notin> set (dec_bytes n)" "is_ascii (dec_bytes n)"
    using dec_bytes_digits [of _ n] by (auto simp: is_ascii_def)
qed

text \<open>The server of RFC 5802, as the client sees it: what it sends and what proof it accepts.\<close>

definition rfc_server_first :: "pg_crypto \<Rightarrow> bytes \<Rightarrow> bytes \<Rightarrow> u32 \<Rightarrow> bytes" where
  "rfc_server_first cr nonce salt i =
     lit ''r='' @ nonce @ lit '',s='' @ b64_encode cr salt @ lit '',i='' @ dec_bytes (unat i)"

definition rfc_accepts :: "pg_crypto \<Rightarrow> bytes \<Rightarrow> bytes \<Rightarrow> bytes \<Rightarrow> bool" where
  "rfc_accepts cr salted msg client_proof \<longleftrightarrow>
     (let stored_key = hash256 cr (hmac256 cr salted (lit ''Client Key''))
      in hash256 cr (xor_zip client_proof (hmac256 cr stored_key msg)) = stored_key)"

definition rfc_server_final :: "pg_crypto \<Rightarrow> bytes \<Rightarrow> bytes \<Rightarrow> bytes" where
  "rfc_server_final cr salted msg =
     lit ''v='' @ b64_encode cr (hmac256 cr (hmac256 cr salted (lit ''Server Key'')) msg)"

text \<open>What the parameters are relied on for.\<close>

definition crypto_ok :: "pg_crypto \<Rightarrow> bool" where
  "crypto_ok cr \<longleftrightarrow>
     (\<forall>x. b64_decode cr (b64_encode cr x) = Some x) \<and>
     (\<forall>x. is_ascii (b64_encode cr x) \<and> 0x2C \<notin> set (b64_encode cr x)) \<and>
     (\<forall>k m. length (hmac256 cr k m) = 32)"

lemma lit_simps:
  "lit ''r='' = [0x72, 0x3D]" "lit '',s='' = [0x2C, 0x73, 0x3D]" "lit '',i='' = [0x2C, 0x69, 0x3D]"
  "lit ''s='' = [0x73, 0x3D]" "lit ''i='' = [0x69, 0x3D]" "lit ''v='' = [0x76, 0x3D]" "lit ''e='' = [0x65, 0x3D]"
  "lit ''n,,'' = [0x6E, 0x2C, 0x2C]"
  by (simp_all add: lit_def char_byte_def)

lemma parse_rfc_first:
  assumes "crypto_ok cr" and "0x2C \<notin> set nonce"
  shows "parse_server_first cr (rfc_server_first cr nonce salt i) = Ok (nonce, salt, i)"
proof -
  have plain: "0x2C \<notin> set (b64_encode cr salt)" and dec: "b64_decode cr (b64_encode cr salt) = Some salt"
    using assms by (simp_all add: crypto_ok_def)
  have "split_byte 0x2C (rfc_server_first cr nonce salt i) =
      [[0x72, 0x3D] @ nonce, [0x73, 0x3D] @ b64_encode cr salt, [0x69, 0x3D] @ dec_bytes (unat i)]"
    using split_byte_append [of "0x2C" "[0x72, 0x3D] @ nonce"] split_byte_append [of "0x2C" "[0x73, 0x3D] @ b64_encode cr salt"]
      split_byte_single [of "0x2C" "[0x69, 0x3D] @ dec_bytes (unat i)"] assms(2) plain dec_bytes_plain
    by (simp add: rfc_server_first_def lit_simps)
  then show ?thesis
    by (simp add: parse_server_first_def first_field_def strip_prefix_def lit_simps dec parse_u32_dec)
qed

lemma from_utf8_rfc_first:
  assumes "crypto_ok cr" and "from_utf8 nonce"
  shows "from_utf8 (rfc_server_first cr nonce salt i)"
  unfolding rfc_server_first_def using assms dec_bytes_plain(2)
  by (intro from_utf8_append) (simp_all add: crypto_ok_def from_utf8_ascii lit_simps is_ascii_def)

lemma xor_zip_cancel: "length xs = length ys \<Longrightarrow> xor_zip (xor_zip xs ys) ys = xs"
  unfolding xor_zip_def by (induction xs ys rule: list_induct2) (simp_all add: xor.assoc)

lemma honest_exchange:
  assumes "crypto_ok cr" and "from_utf8 (cn @ sn)" and "0x2C \<notin> set (cn @ sn)"
    and "first_bare = lit ''n='' @ user @ lit '',r='' @ cn"
    and "server_first = rfc_server_first cr (cn @ sn) salt i"
    and "salted = pbkdf2 cr password salt i"
    and "msg = auth_message first_bare server_first (client_final_without_proof cr (cn @ sn))"
  shows "\<exists>client_proof c1 c2 c3. client_first_message (new_scram user password cn) = (lit ''n,,'' @ first_bare, c1) \<and>
    process_server_first cr server_first c1 =
      (Ok (client_final_without_proof cr (cn @ sn) @ lit '',p='' @ b64_encode cr client_proof), c2) \<and>
    rfc_accepts cr salted msg client_proof \<and>
    verify_server_final cr (rfc_server_final cr salted msg) c2 = (Ok (), c3) \<and> is_complete c3"
proof -
  have nonce: "take (length cn) (cn @ sn) = cn" by simp
  have acc: "rfc_accepts cr salted msg (compute_client_proof cr salted msg)"
    using assms(1) by (simp add: rfc_accepts_def compute_client_proof_def Let_def crypto_ok_def xor_zip_cancel)
  have fin: "from_utf8 (rfc_server_final cr salted msg)"
    using assms(1) by (simp add: rfc_server_final_def crypto_ok_def from_utf8_ascii lit_simps is_ascii_def)
  have dec: "b64_decode cr (b64_encode cr x) = Some x" for x using assms(1) by (simp add: crypto_ok_def)
  let ?c1 = "(new_scram user password cn)\<lparr>scram_state := WaitingForServerFirst first_bare\<rparr>"
  let ?c2 = "?c1\<lparr>scram_state := WaitingForServerFinal msg salted\<rparr>"
  have 1: "client_first_message (new_scram user password cn) = (lit ''n,,'' @ first_bare, ?c1)"
    by (simp add: client_first_message_def new_scram_def saslprep_def assms(4) Let_def)
  have 2: "process_server_first cr server_first ?c1 =
      (Ok (client_final_without_proof cr (cn @ sn) @ lit '',p='' @ b64_encode cr (compute_client_proof cr salted msg)), ?c2)"
    using parse_rfc_first [OF assms(1,3), of salt i] from_utf8_rfc_first [OF assms(1,2), of salt i]
    by (simp add: process_server_first_def new_scram_def assms(5-7) Let_def)
  have 3: "verify_server_final cr (rfc_server_final cr salted msg) ?c2 = (Ok (), ?c2\<lparr>scram_state := ScramComplete\<rparr>)"
    using fin by (simp add: verify_server_final_def)
      (simp add: strip_prefix_def rfc_server_final_def lit_simps dec compute_server_signature_def)
  have 4: "is_complete (?c2\<lparr>scram_state := ScramComplete\<rparr>)" by (simp add: is_complete_def)
  show ?thesis using 1 2 acc 3 4 by blast
qed


section \<open>Completion means verification\<close>

datatype scram_op = SendFirst | ServerFirst bytes | ServerFinal bytes

fun scram_step :: "pg_crypto \<Rightarrow> scram_op \<Rightarrow> scram_client \<Rightarrow> scram_client" where
  "scram_step cr SendFirst c = snd (client_first_message c)"
| "scram_step cr (ServerFirst m) c = snd (process_server_first cr m c)"
| "scram_step cr (ServerFinal m) c = snd (verify_server_final cr m c)"

text \<open>The server's messages that a client with this name, password and nonce may hold verified.\<close>

definition first_ok :: "pg_crypto \<Rightarrow> bytes \<Rightarrow> bytes \<Rightarrow> bytes \<Rightarrow> bytes \<Rightarrow> bytes \<Rightarrow> bytes \<Rightarrow> bool" where
  "first_ok cr user password cn sf msg salted \<longleftrightarrow>
     (\<exists>nonce salt i. parse_server_first cr sf = Ok (nonce, salt, i) \<and> take (length cn) nonce = cn \<and>
        salted = pbkdf2 cr password salt i \<and>
        msg = auth_message (lit ''n='' @ user @ lit '',r='' @ cn) sf (client_final_without_proof cr nonce))"

definition scram_inv :: "pg_crypto \<Rightarrow> bytes \<Rightarrow> bytes \<Rightarrow> bytes \<Rightarrow> scram_op list \<Rightarrow> scram_client \<Rightarrow> bool" where
  "scram_inv cr user password cn ops c \<longleftrightarrow>
     scram_username c = user \<and> scram_password c = password \<and> client_nonce c = cn \<and>
     (case scram_state c of
        ScramInitial \<Rightarrow> True
      | WaitingForServerFirst bare \<Rightarrow> bare = lit ''n='' @ user @ lit '',r='' @ cn
      | WaitingForServerFinal msg salted \<Rightarrow>
          (\<exists>sf. ServerFirst sf \<in> set ops \<and> first_ok cr user password cn sf msg salted)
      | ScramComplete \<Rightarrow>
          (\<exists>sf v msg salted. ServerFirst sf \<in> set ops \<and> first_ok cr user password cn sf msg salted \<and>
             ServerFinal (lit ''v='' @ v) \<in> set ops \<and>
             b64_decode cr v = Some (compute_server_signature cr salted msg))
      | ScramFailed \<Rightarrow> True)"

lemma scram_inv_step:
  assumes "scram_inv cr user password cn ops c"
  shows "scram_inv cr user password cn (ops @ [op]) (scram_step cr op c)"
proof (cases op)
  case SendFirst
  then show ?thesis
    using assms by (simp add: scram_inv_def client_first_message_def saslprep_def Let_def)
next
  case (ServerFirst m)
  show ?thesis
  proof (cases "scram_state c")
    case (WaitingForServerFirst bare)
    then show ?thesis
      using assms ServerFirst
      by (auto simp: scram_inv_def process_server_first_def first_ok_def Let_def split: result.split)
  qed (use assms ServerFirst in \<open>auto simp: scram_inv_def process_server_first_def\<close>)
next
  case (ServerFinal m)
  show ?thesis
  proof (cases "scram_state c")
    case (WaitingForServerFinal msg salted)
    have v: "m = lit ''v='' @ v" if "strip_prefix (lit ''v='') m = Some v" for v
      using that by (auto simp: strip_prefix_def split: if_splits, metis append_take_drop_id)
    show ?thesis
      using assms ServerFinal WaitingForServerFinal
      by (auto simp: scram_inv_def verify_server_final_def split: option.split dest!: v)
  qed (use assms ServerFinal in \<open>auto simp: scram_inv_def verify_server_final_def\<close>)
qed

text \<open>
  C3 (safety). However the client is driven, it is complete only after the server has shown the
  signature of this very exchange: over this client's name and nonce, a server message whose nonce extends
  it, and the key derived from the password.
\<close>

theorem scram_complete_verified:
  assumes "is_complete (fold (scram_step cr) ops (new_scram user password cn))"
  shows "\<exists>sf v msg salted. ServerFirst sf \<in> set ops \<and> first_ok cr user password cn sf msg salted \<and>
    ServerFinal (lit ''v='' @ v) \<in> set ops \<and> b64_decode cr v = Some (compute_server_signature cr salted msg)"
proof -
  have "scram_inv cr user password cn ops (fold (scram_step cr) ops (new_scram user password cn))"
  proof (induction ops rule: rev_induct)
    case Nil
    show ?case by (simp add: scram_inv_def new_scram_def)
  next
    case (snoc op ops)
    then show ?case by (simp add: scram_inv_step)
  qed
  then show ?thesis using assms by (simp add: scram_inv_def is_complete_def)
qed

section \<open>A sample exchange\<close>

definition nibbles :: "bytes \<Rightarrow> bytes" where
  "nibbles bs = concat (map (\<lambda>b. [of_nat (65 + unat b div 16), of_nat (65 + unat b mod 16)]) bs)"

fun of_nibbles :: "bytes \<Rightarrow> bytes option" where
  "of_nibbles (a # b # r) = map_option ((#) (of_nat (16 * (unat a - 65) + (unat b - 65)))) (of_nibbles r)"
| "of_nibbles [] = Some []"
| "of_nibbles [a] = None"

definition sample_pg_crypto :: pg_crypto where
  "sample_pg_crypto = \<lparr>md5 = (\<lambda>x. take 16 (x @ replicate 16 7)), hash256 = (\<lambda>x. take 32 (x @ replicate 32 7)),
     hmac256 = (\<lambda>k m. take 32 (m @ k @ replicate 32 7)), pbkdf2 = (\<lambda>p s i. take 32 (p @ s @ replicate 32 7)),
     b64_encode = nibbles, b64_decode = of_nibbles\<rparr>"

lemma nibble: "k < 16 \<Longrightarrow> unat (of_nat (65 + k) :: u8) = 65 + k"
  by (rule unat_of_nat_small(1)) simp

lemma nibble_facts:
  "(of_nat (16 * (unat (of_nat (65 + unat b div 16) :: u8) - 65) + (unat (of_nat (65 + unat b mod 16) :: u8) - 65)) :: u8) = b"
  "unat (of_nat (65 + unat (b :: u8) div 16) :: u8) < 0x80" "unat (of_nat (65 + unat b mod 16) :: u8) < 0x80"
  "(of_nat (65 + unat (b :: u8) div 16) :: u8) \<noteq> 0x2C" "(of_nat (65 + unat b mod 16) :: u8) \<noteq> 0x2C"
proof -
  have hi: "unat b div 16 < 16" using unsigned_less [of b, where ?'a = nat] by simp
  have lo: "unat b mod 16 < 16" by simp
  note n = nibble [OF hi] nibble [OF lo]
  show "(of_nat (16 * (unat (of_nat (65 + unat b div 16) :: u8) - 65) + (unat (of_nat (65 + unat b mod 16) :: u8) - 65)) :: u8) = b"
    unfolding n by (simp del: of_nat_add of_nat_mult)
  show "unat (of_nat (65 + unat b div 16) :: u8) < 0x80" "unat (of_nat (65 + unat b mod 16) :: u8) < 0x80"
    unfolding n using hi lo by simp_all
  show "(of_nat (65 + unat b div 16) :: u8) \<noteq> 0x2C" "(of_nat (65 + unat b mod 16) :: u8) \<noteq> 0x2C"
    unfolding word_unat_eq_iff n by simp_all
qed

lemma sample_pg_crypto_ok: "crypto_ok sample_pg_crypto"
proof -
  have "of_nibbles (nibbles x) = Some x" for x
    by (induction x) (simp_all add: nibbles_def nibble_facts del: of_nat_add)
  moreover have "is_ascii (nibbles x) \<and> 0x2C \<notin> set (nibbles x)" for x
    using nibble_facts(2-5) by (auto simp: nibbles_def is_ascii_def simp del: of_nat_add)
  ultimately show ?thesis by (auto simp: crypto_ok_def sample_pg_crypto_def)
qed

definition sample_first :: bytes where
  "sample_first = rfc_server_first sample_pg_crypto [0x61, 0x62] [9] 4096"

definition sample_msg :: bytes where
  "sample_msg = auth_message (lit ''n='' @ [0x75] @ lit '',r='' @ [0x61]) sample_first
     (client_final_without_proof sample_pg_crypto [0x61, 0x62])"


theorem scram_complete_verified_witness:
  "\<exists>sf v msg salted. ServerFirst sf \<in> set [SendFirst, ServerFirst sample_first,
       ServerFinal (rfc_server_final sample_pg_crypto (pbkdf2 sample_pg_crypto [0x70] [9] 4096) sample_msg)] \<and>
    first_ok sample_pg_crypto [0x75] [0x70] [0x61] sf msg salted \<and>
    ServerFinal (lit ''v='' @ v) \<in> set [SendFirst, ServerFirst sample_first,
       ServerFinal (rfc_server_final sample_pg_crypto (pbkdf2 sample_pg_crypto [0x70] [9] 4096) sample_msg)] \<and>
    b64_decode sample_pg_crypto v = Some (compute_server_signature sample_pg_crypto salted msg)"
  using honest_exchange [OF sample_pg_crypto_ok, of "[0x61]" "[0x62]" "lit ''n='' @ [0x75] @ lit '',r='' @ [0x61]" "[0x75]"
      sample_first "[9]" 4096 "pbkdf2 sample_pg_crypto [0x70] [9] 4096" "[0x70]" sample_msg]
  by (intro scram_complete_verified) (auto simp: sample_first_def sample_msg_def from_utf8_ascii is_ascii_def)

end
