(* ===== verification/Postgres_Handler.thy ===== *)
theory Postgres_Handler
  imports Proxy_Handler Postgres_Auth
begin

text \<open>
  The PostgreSQL connection handler of the database proxy, \<open>keeperdb-proxy/src/server/handlers/postgres.rs\<close>:
  the client's startup with its TLS request, the connect with the TLS offer to the server, the server's
  authentication rounds, registration, and the forwarding of the server's parameters up to its first
  \<open>ReadyForQuery\<close>.

  Beside the parameters of \<open>Proxy_Handler\<close> there are the hash functions, the client's nonce, the TLS
  handshake with the server and the order in which two maps yield their entries. The state also says
  whether the link to the server is encrypted. The handler's \<open>state\<close> field is never read and is left out.
\<close>

section \<open>State and steps\<close>

record pg_env = proxy_env +
  pg_crypt :: pg_crypto
  scram_nonce :: bytes
  server_tls :: "bytes option option"
  param_order :: "params \<Rightarrow> (ustring \<times> ustring) list"
  field_order :: "error_fields \<Rightarrow> (u8 \<times> ustring) list"

record pg_conn = peers +
  server_secure :: bool

type_synonym 'a pg_handler = "(pg_conn, pg_error, 'a) handler"

definition read_server_message :: "(u8 \<times> bytes) pg_handler" where
  "read_server_message = (\<lambda>s. case read_message (server_in s) of
     Err e \<Rightarrow> (Some (Err (ProtocolError e)), s\<lparr>server_in := []\<rparr>)
   | Ok (m, rest) \<Rightarrow> (Some (Ok m), s\<lparr>server_in := rest\<rparr>))"

text \<open>A read from the client is under a timeout.\<close>

definition read_client_startup :: "bool \<Rightarrow> startup_type pg_handler" where
  "read_client_startup stalls = (\<lambda>s. case read_startup_message (client_in s) of
     None \<Rightarrow> (None, s)
   | Some (Err e) \<Rightarrow>
       (Some (Err (if stalls \<and> e = EndOfStream then TimedOut else ProtocolError e)), s\<lparr>client_in := []\<rparr>)
   | Some (Ok (m, rest)) \<Rightarrow> (Some (Ok m), s\<lparr>client_in := rest\<rparr>))"

definition expect_startup :: "startup_type \<Rightarrow> startup_message pg_handler" where
  "expect_startup m = (case m of Startup msg \<Rightarrow> return_h msg | _ \<Rightarrow> fail_h (ProtocolError UnexpectedStartup))"

definition receive_client_startup :: "pg_env \<Rightarrow> startup_message pg_handler" where
  "receive_client_startup env =
     bind_h (read_client_startup (client_stalls env)) (\<lambda>m.
     case m of
       SSLRequest \<Rightarrow>
         (case tls_accept env of
            Some plain \<Rightarrow>
              bind_h (put_client (lit ''S'')) (\<lambda>_.
              bind_h (accept_tls plain) (\<lambda>_.
              bind_h (read_client_startup (client_stalls env)) expect_startup))
          | None \<Rightarrow>
              bind_h (put_client (lit ''N'')) (\<lambda>_.
              bind_h (read_client_startup (client_stalls env)) expect_startup))
     | Startup msg \<Rightarrow> return_h msg
     | CancelRequest r \<Rightarrow> fail_h (ProtocolError CancelUnsupported))"

text \<open>The connect, and the TLS offer where a connector is configured.\<close>

definition connect_tls :: "bytes option \<Rightarrow> unit pg_handler" where
  "connect_tls plain = (\<lambda>s. case plain of
     None \<Rightarrow> (Some (Err TlsFailed), s)
   | Some p \<Rightarrow> (Some (Ok ()), s\<lparr>server_in := p, server_secure := True\<rparr>))"

definition read_ssl_answer :: "u8 pg_handler" where
  "read_ssl_answer = (\<lambda>s. case server_in s of
     [] \<Rightarrow> (Some (Err Eof), s)
   | b # rest \<Rightarrow> (Some (Ok b), s\<lparr>server_in := rest\<rparr>))"

definition connect_to_server :: "pg_env \<Rightarrow> unit pg_handler" where
  "connect_to_server env =
     (if \<not> connects env then fail_h ConnectFailed
      else case server_tls env of
             None \<Rightarrow> return_h ()
           | Some plain \<Rightarrow>
               bind_h (put_server write_ssl_request) (\<lambda>_.
               bind_h read_ssl_answer (\<lambda>b.
               if b = char_byte CHR ''S'' then connect_tls plain
               else if b = char_byte CHR ''N'' then return_h ()
               else fail_h (ProtocolError (UnexpectedSslAnswer b)))))"

section \<open>The server's authentication\<close>

definition send_password :: "bytes \<Rightarrow> unit pg_handler" where
  "send_password password = put_server (write_message MSG_PASSWORD (password @ [0]))"

definition SQLSTATE_INVALID_AUTHORIZATION :: ustring where
  "SQLSTATE_INVALID_AUTHORIZATION = ustr ''28000''"

definition pg_client_error :: "(error_fields \<Rightarrow> (u8 \<times> ustring) list) \<Rightarrow> ustring \<Rightarrow> unit pg_handler" where
  "pg_client_error order msg =
     put_client (write_message MSG_ERROR_RESPONSE
       (build_error_response (order (error_notice (ustr ''ERROR'') SQLSTATE_INVALID_AUTHORIZATION msg))))"

text \<open>The type of the next authentication request and its data; a payload below 4 bytes panics.\<close>

definition next_auth_request :: "(u32 \<times> bytes) pg_handler" where
  "next_auth_request =
     bind_h read_server_message (\<lambda>(t, payload).
     if t \<noteq> MSG_AUTH_REQUEST then fail_h (ProtocolError ExpectedAuth)
     else if length payload < 4 then (\<lambda>s. (None, s))
     else return_h (get_u32 payload, drop 4 payload))"

definition scram_h :: "('a, scram_error) result \<Rightarrow> 'a pg_handler" where
  "scram_h r = (case r of Ok a \<Rightarrow> return_h a | Err e \<Rightarrow> fail_h (ProtocolError PgScram))"

definition sasl_initial :: "bytes \<Rightarrow> bytes" where
  "sasl_initial dat = lit ''SCRAM-SHA-256'' @ [0] @ be32 (of_nat (length dat)) @ dat"

definition handle_scram_auth :: "pg_crypto \<Rightarrow> bytes \<Rightarrow> bytes \<Rightarrow> bytes \<Rightarrow> bytes \<Rightarrow> unit pg_handler" where
  "handle_scram_auth cr nonce payload user password =
     (if \<not> from_utf8 (drop 4 payload) then fail_h (ProtocolError InvalidUtf8)
      else if lit ''SCRAM-SHA-256'' \<notin> set (split_byte 0 (drop 4 payload)) then fail_h (ProtocolError NoScramSha256)
      else case client_first_message (new_scram user password nonce) of (first, c1) \<Rightarrow>
        bind_h (put_server (write_message MSG_PASSWORD (sasl_initial first))) (\<lambda>_.
        bind_h next_auth_request (\<lambda>(t, server_first).
        if t \<noteq> AUTH_SASL_CONTINUE then fail_h (ProtocolError UnexpectedSasl)
        else case process_server_first cr server_first c1 of (r, c2) \<Rightarrow>
          bind_h (scram_h r) (\<lambda>final.
          bind_h (put_server (write_message MSG_PASSWORD final)) (\<lambda>_.
          bind_h next_auth_request (\<lambda>(t', server_final).
          if t' \<noteq> AUTH_SASL_FINAL
          then (if t' = AUTH_OK then return_h () else fail_h (ProtocolError UnexpectedSasl))
          else bind_h (scram_h (fst (verify_server_final cr server_final c2))) (\<lambda>_.
               bind_h next_auth_request (\<lambda>(t'', _).
               if t'' \<noteq> AUTH_OK then fail_h (ProtocolError AuthIncomplete) else return_h ()))))))))"

text \<open>Whether the authentication is complete.\<close>

definition handle_auth_message :: "pg_crypto \<Rightarrow> bytes \<Rightarrow> bytes \<Rightarrow> bytes \<Rightarrow> bytes \<Rightarrow> bool pg_handler" where
  "handle_auth_message cr nonce payload user password =
     (if length payload < 4 then fail_h (ProtocolError MessageTooShort)
      else let t = get_u32 payload
           in if t = AUTH_OK then return_h True
              else if t = AUTH_CLEARTEXT_PASSWORD
              then bind_h (send_password password) (\<lambda>_. return_h False)
              else if t = AUTH_MD5_PASSWORD
              then (if length payload < 8 then fail_h (ProtocolError MissingSalt)
                    else bind_h (send_password (compute_md5_password cr user password (take 4 (drop 4 payload))))
                           (\<lambda>_. return_h False))
              else if t = AUTH_SASL
              then bind_h (handle_scram_auth cr nonce payload user password) (\<lambda>_. return_h True)
              else if t = AUTH_SASL_CONTINUE \<or> t = AUTH_SASL_FINAL then fail_h (ProtocolError UnexpectedSasl)
              else fail_h (ProtocolError (UnsupportedAuth t)))"

definition error_text :: "bytes \<Rightarrow> ustring" where
  "error_text payload =
     (case parse_error_notice payload of
        Some (Ok e) \<Rightarrow> (case notice_message e of Some m \<Rightarrow> m | None \<Rightarrow> ustr ''Unknown error'')
      | _ \<Rightarrow> ustr ''Unknown error'')"

text \<open>What a handler consumes of the server's stream.\<close>

definition consumes :: "'a pg_handler \<Rightarrow> bool" where
  "consumes m \<longleftrightarrow> (\<forall>s. length (server_in (snd (m s))) \<le> length (server_in s))"

named_theorems consuming

lemma consumes_bind [consuming]: "consumes m \<Longrightarrow> (\<And>a. consumes (k a)) \<Longrightarrow> consumes (bind_h m k)"
  unfolding consumes_def
proof
  fix s :: pg_conn
  assume m: "\<forall>s. length (server_in (snd (m s))) \<le> length (server_in s)"
    and k: "\<And>a. \<forall>s. length (server_in (snd (k a s))) \<le> length (server_in s)"
  obtain r s' where r: "m s = (r, s')" by fastforce
  have "length (server_in s') \<le> length (server_in s)" using m [rule_format, of s] by (simp add: r)
  then show "length (server_in (snd (bind_h m k s))) \<le> length (server_in s)"
    using k by (auto simp: bind_h_def r split: option.split result.split intro: order_trans)
qed

lemma consumes_steps [consuming, simp]:
  "consumes (return_h a)" "consumes (fail_h e)" "consumes (put_server b)" "consumes (put_client b)"
  "consumes (\<lambda>s. (None, s))" "consumes (scram_h r)"
  by (auto simp: consumes_def return_h_def fail_h_def put_server_def put_client_def scram_h_def split: result.split)

lemma consumes_read [consuming, simp]: "consumes read_server_message"
  by (auto simp: consumes_def read_server_message_def split: result.split dest: read_message_shrinks)

lemma consumes_next [consuming]: "consumes next_auth_request"
  unfolding next_auth_request_def by (auto intro!: consuming)

lemma consumes_scram [consuming]: "consumes (handle_scram_auth cr nonce payload user password)"
  unfolding handle_scram_auth_def by (auto intro!: consuming split: prod.split)

lemma consumes_auth: "consumes (handle_auth_message cr nonce payload user password)"
  by (auto simp: handle_auth_message_def send_password_def Let_def intro!: consuming)

lemma handle_auth_shrinks:
  "handle_auth_message cr nonce payload user password s = (r, s') \<Longrightarrow> length (server_in s') \<le> length (server_in s)"
  using consumes_auth [of cr nonce payload user password] by (metis consumes_def snd_conv)

function authenticate_with_server ::
  "(error_fields \<Rightarrow> (u8 \<times> ustring) list) \<Rightarrow> pg_crypto \<Rightarrow> bytes \<Rightarrow> bytes \<Rightarrow> bytes \<Rightarrow> unit pg_handler" where
  "authenticate_with_server order cr nonce user password s =
     (case read_message (server_in s) of
        Err e \<Rightarrow> (Some (Err (ProtocolError e)), s\<lparr>server_in := []\<rparr>)
      | Ok ((t, payload), rest) \<Rightarrow>
          let s1 = s\<lparr>server_in := rest\<rparr>
          in if t = MSG_AUTH_REQUEST
             then (case handle_auth_message cr nonce payload user password s1 of
                     (Some (Ok complete), s2) \<Rightarrow>
                       if complete then (Some (Ok ()), s2)
                       else authenticate_with_server order cr nonce user password s2
                   | (Some (Err e), s2) \<Rightarrow> (Some (Err e), s2)
                   | (None, s2) \<Rightarrow> (None, s2))
             else if t = MSG_ERROR_RESPONSE
             then bind_h (pg_client_error order (error_text payload))
                    (\<lambda>_. fail_h (ServerRejected (error_text payload))) s1
             else authenticate_with_server order cr nonce user password s1)"
  by pat_completeness auto
termination
  by (relation "measure (\<lambda>(order, cr, nonce, user, password, s). length (server_in s))")
    (auto dest!: read_message_shrinks handle_auth_shrinks [OF sym])

declare authenticate_with_server.simps [simp del]

section \<open>The end of the handshake\<close>

definition send_client_auth_ok :: "unit pg_handler" where
  "send_client_auth_ok = put_client (write_message MSG_AUTH_REQUEST (be32 AUTH_OK))"

definition passed_on :: "u8 \<Rightarrow> bool" where
  "passed_on t \<longleftrightarrow> t \<in> {MSG_PARAMETER_STATUS, MSG_BACKEND_KEY_DATA, MSG_NOTICE_RESPONSE}"

function forward_server_ready :: "unit pg_handler" where
  "forward_server_ready s =
     (case read_message (server_in s) of
        Err e \<Rightarrow> (Some (Err (ProtocolError e)), s\<lparr>server_in := []\<rparr>)
      | Ok ((t, payload), rest) \<Rightarrow>
          let s1 = s\<lparr>server_in := rest\<rparr>; s2 = s1\<lparr>client_out := client_out s1 @ write_message t payload\<rparr>
          in if t = MSG_READY_FOR_QUERY then put_client (write_message t payload) s1
             else if t = MSG_ERROR_RESPONSE
             then bind_h (put_client (write_message t payload))
                    (\<lambda>_. fail_h (ProtocolError (ServerSetup (error_text payload)))) s1
             else if passed_on t
             then (if client_ok s1 then forward_server_ready s2 else (Some (Err WriteError), s1))
             else forward_server_ready s1)"
  by pat_completeness auto
termination
  by (relation "measure (\<lambda>s. length (server_in s))") (auto dest: read_message_shrinks)

declare forward_server_ready.simps [simp del]

definition pg_tunnel :: "pg_env \<Rightarrow> ustring" where
  "pg_tunnel env =
     (case env_session_uid env of
        Some uid \<Rightarrow> from_record_uid uid
      | None \<Rightarrow> from_connection (client_addr env) (target_host env) (target_port env))"

definition pg_refuse :: "pg_env \<Rightarrow> tracker_error \<Rightarrow> unit pg_handler" where
  "pg_refuse env e = pg_client_error (field_order env) (limit_text env e)"

definition pg_report :: "unit pg_handler" where
  "pg_report = bind_h send_client_auth_ok (\<lambda>_. forward_server_ready)"

definition server_startup :: "ustring \<Rightarrow> startup_message \<Rightarrow> startup_message" where
  "server_startup user st =
     (case startup_database st of Some db \<Rightarrow> startup_with_database user db | None \<Rightarrow> new_startup user)"

text \<open>The login on the server, and the whole handler.\<close>

definition pg_login :: "pg_env \<Rightarrow> ustring \<Rightarrow> ustring \<Rightarrow> startup_message \<Rightarrow> unit pg_handler" where
  "pg_login env user password st =
     bind_h (connect_to_server env) (\<lambda>_.
     bind_h (put_server (write_startup_message PROTOCOL_VERSION_3_0
               (param_order env (parameters (server_startup user st))))) (\<lambda>_.
     authenticate_with_server (field_order env) (pg_crypt env) (scram_nonce env) (utf8 user) (utf8 password)))"

definition pg_serve :: "pg_env \<Rightarrow> startup_message \<Rightarrow> proxy_session pg_handler" where
  "pg_serve env st =
     (case get_session_config env of
        None \<Rightarrow> fail_h ConfigError
      | Some cfg \<Rightarrow>
          (case get_auth env of
             None \<Rightarrow> fail_h CredentialRetrieval
           | Some creds \<Rightarrow>
               (case cred_password creds of
                  None \<Rightarrow> fail_h NoPassword
                | Some password \<Rightarrow>
                    bind_h (pg_login env (cred_username creds) password st) (\<lambda>_.
                    bind_h (register_and_report env cfg (pg_tunnel env) (pg_client_fingerprint st)
                              (pg_refuse env) pg_report) (\<lambda>g.
                    return_h (ready_session env cfg g))))))"

definition pg_handle :: "pg_env \<Rightarrow> proxy_session pg_handler" where
  "pg_handle env = bind_h (receive_client_startup env) (pg_serve env)"

section \<open>What the steps leave alone\<close>

lemma keeps_pg [keeping, simp]:
  "keeps conn_tracker read_server_message" "keeps conn_tracker (read_client_startup b)"
  "keeps server_out (read_client_startup b)" "keeps conn_tracker (connect_tls t)" "keeps conn_tracker read_ssl_answer"
  "keeps conn_tracker (pg_client_error order msg)" "keeps conn_tracker (scram_h r)" "keeps conn_tracker (\<lambda>s. (None, s))"
  "keeps conn_tracker (send_password p)" "keeps conn_tracker send_client_auth_ok"
  "keeps server_out send_client_auth_ok" "keeps server_out (pg_client_error order msg)"
  by (auto simp: keeps_def read_server_message_def read_client_startup_def connect_tls_def read_ssl_answer_def
      pg_client_error_def scram_h_def return_h_def fail_h_def send_password_def send_client_auth_ok_def
      put_client_def put_server_def split: result.split option.split list.split)

lemma keeps_startup [keeping]:
  "keeps conn_tracker (receive_client_startup env)" "keeps server_out (receive_client_startup env)"
  by (auto simp: receive_client_startup_def expect_startup_def intro!: keeping split: startup_type.split option.split)

lemma keeps_connect [keeping]: "keeps conn_tracker (connect_to_server env)"
  by (auto simp: connect_to_server_def intro!: keeping split: option.split)

lemma keeps_next [keeping]: "keeps conn_tracker next_auth_request"
  unfolding next_auth_request_def by (auto intro!: keeping)

lemma keeps_scram [keeping]: "keeps conn_tracker (handle_scram_auth cr nonce payload user password)"
  unfolding handle_scram_auth_def by (auto intro!: keeping split: prod.split)

lemma keeps_auth_message [keeping]: "keeps conn_tracker (handle_auth_message cr nonce payload user password)"
  by (auto simp: handle_auth_message_def Let_def intro!: keeping)

lemma keeps_authenticate [keeping]: "keeps conn_tracker (authenticate_with_server order cr nonce user password)"
  unfolding keeps_def
proof
  fix s
  show "conn_tracker (snd (authenticate_with_server order cr nonce user password s)) = conn_tracker s"
  proof (induction order cr nonce user password s rule: authenticate_with_server.induct)
    case (1 order cr nonce user password s)
    have refused: "conn_tracker (snd (bind_h (pg_client_error order m) (\<lambda>_. fail_h e :: unit pg_handler) t)) = conn_tracker t"
      for m e t
      by (simp add: bind_h_def fail_h_def pg_client_error_def put_client_def)
    have step: "conn_tracker t' = conn_tracker t" if "handle_auth_message cr nonce p user password t = (r, t')"
      for p t r t' using keeps_result [OF keeps_auth_message that] .
    show ?case
    proof (cases "read_message (server_in s)")
      case (Ok m)
      then obtain t p rest where m: "read_message (server_in s) = Ok ((t, p), rest)" by (cases m) auto
      let ?s1 = "s\<lparr>server_in := rest\<rparr>"
      obtain x s2 where x: "handle_auth_message cr nonce p user password ?s1 = (x, s2)" by fastforce
      have s2: "conn_tracker s2 = conn_tracker s" using step [OF x] by simp
      have ih1: "conn_tracker (snd (authenticate_with_server order cr nonce user password s2)) = conn_tracker s2"
        if "x = Some (Ok False)" "t = MSG_AUTH_REQUEST"
        using 1(1) [OF m refl refl refl that(2) x [symmetric] that(1)] by blast
      have ih2: "conn_tracker (snd (authenticate_with_server order cr nonce user password ?s1)) = conn_tracker s"
        if "t \<noteq> MSG_AUTH_REQUEST" "t \<noteq> MSG_ERROR_RESPONSE"
        using 1(2) [OF m refl refl refl that] by simp
      show ?thesis
        using ih1 ih2 s2
        by (subst authenticate_with_server.simps)
          (auto simp: m Let_def x refused split: option.split result.split)
    qed (subst authenticate_with_server.simps; simp)
  qed
qed

lemma keeps_forward [keeping]: "keeps conn_tracker forward_server_ready" "keeps server_out forward_server_ready"
proof -
  have "conn_tracker (snd (forward_server_ready s)) = conn_tracker s \<and> server_out (snd (forward_server_ready s)) = server_out s"
    for s
  proof (induction s rule: forward_server_ready.induct)
    case (1 s)
    then show ?case
      by (subst (1 2) forward_server_ready.simps)
        (auto simp: Let_def bind_h_def fail_h_def put_client_def split: result.split prod.split)
  qed
  then show "keeps conn_tracker forward_server_ready" "keeps server_out forward_server_ready"
    by (simp_all add: keeps_def)
qed

lemma keeps_login [keeping]: "keeps conn_tracker (pg_login env user password st)"
  unfolding pg_login_def by (auto intro!: keeping)

text \<open>The three ways a message is handled while the server gets ready.\<close>

lemma forward_cases:
  assumes "read_message (server_in s) = Ok ((t, p), rest)"
  shows "t = MSG_READY_FOR_QUERY \<Longrightarrow> forward_server_ready s = put_client (write_message t p) (s\<lparr>server_in := rest\<rparr>)"
    "t = MSG_ERROR_RESPONSE \<Longrightarrow> \<exists>e. fst (forward_server_ready s) = Some (Err e)"
    "t \<noteq> MSG_READY_FOR_QUERY \<Longrightarrow> t \<noteq> MSG_ERROR_RESPONSE \<Longrightarrow>
       forward_server_ready s =
         (if passed_on t
          then if client_ok s
               then forward_server_ready (s\<lparr>server_in := rest, client_out := client_out s @ write_message t p\<rparr>)
               else (Some (Err WriteError), s\<lparr>server_in := rest\<rparr>)
          else forward_server_ready (s\<lparr>server_in := rest\<rparr>))"
  using assms
  by (subst forward_server_ready.simps; simp add: Let_def bind_h_def fail_h_def put_client_def msg_codes)+

lemma forward_ready_outcome:
  "fst (forward_server_ready s) \<noteq> None \<and>
   (fst (forward_server_ready s) = Some (Ok ()) \<longrightarrow>
     (\<exists>out p. client_out (snd (forward_server_ready s)) = out @ write_message MSG_READY_FOR_QUERY p))"
proof (induction "length (server_in s)" arbitrary: s rule: less_induct)
  case less
  show ?case
  proof (cases "read_message (server_in s)")
    case (Ok m)
    then obtain t p rest where m: "read_message (server_in s) = Ok ((t, p), rest)" by (cases m) auto
    have short: "length rest < length (server_in s)" using read_message_shrinks [OF m] .
    note outcome = forward_cases [OF m]
    consider "t = MSG_READY_FOR_QUERY" | "t = MSG_ERROR_RESPONSE"
      | "t \<noteq> MSG_READY_FOR_QUERY" "t \<noteq> MSG_ERROR_RESPONSE" by blast
    then show ?thesis
    proof cases
      case 1
      then show ?thesis using outcome(1) by (auto simp: put_client_def)
    next
      case 2
      then show ?thesis using outcome(2) by auto
    next
      case 3
      then show ?thesis
        using outcome(3) short less [of "s\<lparr>server_in := rest\<rparr>"]
          less [of "s\<lparr>server_in := rest, client_out := client_out s @ write_message t p\<rparr>"] by simp
    qed
  next
    case (Err e)
    then show ?thesis by (subst (1 2 3) forward_server_ready.simps) simp
  qed
qed

section \<open>A session is registered, or nothing is\<close>

definition ready_sent :: "pg_conn \<Rightarrow> bool" where
  "ready_sent s \<longleftrightarrow> (\<exists>out p. client_out s = out @ write_message MSG_READY_FOR_QUERY p)"

lemma pg_refuse_keeps [keeping]: "keeps conn_tracker (pg_refuse env e)" "keeps server_out (pg_refuse env e)"
  by (simp_all add: pg_refuse_def)

lemma pg_report_keeps [keeping]: "keeps conn_tracker pg_report" "keeps server_out pg_report"
  by (auto simp: pg_report_def intro!: keeping)

interpretation pg_ready: reporting "pg_refuse env" pg_report ready_sent
  for env :: pg_env
proof unfold_locales
  have sent: "send_client_auth_ok s =
      (if client_ok s then (Some (Ok ()), s\<lparr>client_out := client_out s @ write_message MSG_AUTH_REQUEST (be32 AUTH_OK)\<rparr>)
       else (Some (Err WriteError), s))" for s
    by (simp add: send_client_auth_ok_def put_client_def)
  show "keeps conn_tracker (pg_refuse env e)" for e by (rule keeping)
  show "keeps conn_tracker pg_report" by (rule keeping)
  show "fst (pg_report s) \<noteq> None" for s
    using forward_ready_outcome by (auto simp: pg_report_def bind_h_def sent)
  show "ready_sent s'" if "pg_report s = (Some (Ok ()), s')" for s s'
  proof -
    have "client_ok s" "forward_server_ready (s\<lparr>client_out := client_out s @ write_message MSG_AUTH_REQUEST (be32 AUTH_OK)\<rparr>) =
        (Some (Ok ()), s')"
      using that by (auto simp: pg_report_def bind_h_def sent split: if_splits)
    then show ?thesis
      using forward_ready_outcome [of "s\<lparr>client_out := client_out s @ write_message MSG_AUTH_REQUEST (be32 AUTH_OK)\<rparr>"]
      by (simp add: ready_sent_def)
  qed
qed

lemma pg_handle_spec:
  "handler_spec (\<lambda>s. \<not> has_session (session_id env) (conn_tracker s)) (pg_handle env)
     (\<lambda>sess s. registered env (session_guard sess) (conn_tracker s) \<and> ready_sent s)
     (\<lambda>s. \<not> has_session (session_id env) (conn_tracker s))"
proof -
  let ?F = "\<lambda>s. \<not> has_session (session_id env) (conn_tracker s)"
  let ?Q = "\<lambda>sess s. registered env (session_guard sess) (conn_tracker s) \<and> ready_sent s"
  note pure = spec_keeps [where G = "\<lambda>tr. \<not> has_session (session_id env) tr"]
  have fails: "handler_spec ?F (fail_h e :: proxy_session pg_handler) ?Q ?F" for e
    by (simp add: handler_spec_def fail_h_def)
  have tail: "handler_spec ?F (bind_h (register_and_report env cfg (pg_tunnel env) app (pg_refuse env) pg_report)
      (\<lambda>g. return_h (ready_session env cfg g))) ?Q ?F" for cfg app
    by (rule spec_bind [OF pg_ready.established_or_nothing])
      (auto simp: handler_spec_def return_h_def ready_session_def)
  have serve: "handler_spec ?F (pg_serve env st) ?Q ?F" for st
    using fails tail
    by (auto simp: pg_serve_def intro!: spec_bind [OF pure [OF keeps_login]] split: option.split)
  show ?thesis
    unfolding pg_handle_def by (rule spec_bind [OF pure [OF keeps_startup(1)] serve])
qed

text \<open>
  C17 (invariant). When the handler hands a session to the relay, its connection is registered and the client
  has the server's \<open>ReadyForQuery\<close> behind the proxy's \<open>AuthenticationOk\<close>; every failure or panic before,
  a server that fails after the login included, leaves the tracker without the session.
\<close>

theorem pg_session_registered_or_nothing:
  assumes "\<not> has_session (session_id env) (conn_tracker s)"
  shows "case pg_handle env s of
      (Some (Ok sess), s') \<Rightarrow> registered env (session_guard sess) (conn_tracker s') \<and> ready_sent s'
    | (_, s') \<Rightarrow> \<not> has_session (session_id env) (conn_tracker s')"
  using pg_handle_spec [of env] assms
  by (auto simp: handler_spec_def split: prod.split option.split result.split)

section \<open>What reaches the server\<close>

lemma pg_serve_server_out:
  "server_out (snd (pg_serve env st s)) =
     (case (get_session_config env, get_auth env) of
        (Some cfg, Some creds) \<Rightarrow>
          (case cred_password creds of
             Some password \<Rightarrow> server_out (snd (pg_login env (cred_username creds) password st s)) | None \<Rightarrow> server_out s)
      | _ \<Rightarrow> server_out s)"
proof -
  have "keeps server_out (bind_h (register_and_report env cfg (pg_tunnel env) app (pg_refuse env) pg_report)
      (\<lambda>g. return_h (ready_session env cfg g)))" for cfg app
    by (intro keeping)
  then show ?thesis
    by (simp add: pg_serve_def fail_h_def bind_h_keeps split: option.split)
qed

text \<open>
  The server learns of the client only the database it asks for: two startup messages with
  the same database - whatever user, application name, options or encoding they carry - make the proxy
  write the same bytes to the server.
\<close>

lemma pg_credentials_injected:
  assumes "startup_database st = startup_database st'"
  shows "server_out (snd (pg_serve env st s)) = server_out (snd (pg_serve env st' s))"
proof -
  have "server_startup user st = server_startup user st'" for user
    using assms by (simp add: server_startup_def)
  then have "pg_login env user pw st = pg_login env user pw st'" for user pw
    by (simp add: pg_login_def)
  then show ?thesis by (simp add: pg_serve_server_out split: option.split)
qed

text \<open>
  The token a session may require is never asked for on this path: with \<open>require_token\<close> set
  or not, the handler writes the same bytes to both peers, leaves the same tracker and succeeds alike.
\<close>

lemma pg_token_never_required:
  assumes "get_session_config env = Some cfg"
  shows "snd (pg_handle (env\<lparr>get_session_config := Some (cfg\<lparr>require_token := b\<rparr>)\<rparr>) s) = snd (pg_handle env s) \<and>
    ((\<exists>x. fst (pg_handle (env\<lparr>get_session_config := Some (cfg\<lparr>require_token := b\<rparr>)\<rparr>) s) = Some (Ok x)) \<longleftrightarrow>
     (\<exists>x. fst (pg_handle env s) = Some (Ok x)))"
proof -
  let ?env = "env\<lparr>get_session_config := Some (cfg\<lparr>require_token := b\<rparr>)\<rparr>"
  have sel: "client_stalls ?env = client_stalls env" "tls_accept ?env = tls_accept env"
    "connects ?env = connects env" "server_tls ?env = server_tls env" "param_order ?env = param_order env"
    "field_order ?env = field_order env" "pg_crypt ?env = pg_crypt env" "scram_nonce ?env = scram_nonce env"
    by simp_all
  have sel2: "session_id ?env = session_id env" "env_session_uid ?env = env_session_uid env"
    "has_tracker ?env = has_tracker env" "time_now ?env = time_now env" "target_host ?env = target_host env"
    "target_port ?env = target_port env" "client_addr ?env = client_addr env"
    "max_connections_per_session (cfg\<lparr>require_token := b\<rparr>) = max_connections_per_session cfg"
    "application_lock_timeout (cfg\<lparr>require_token := b\<rparr>) = application_lock_timeout cfg"
    by simp_all
  have start: "receive_client_startup ?env = receive_client_startup env"
    unfolding receive_client_startup_def sel ..
  have login: "pg_login ?env user pw st = pg_login env user pw st" for user pw st
    unfolding pg_login_def connect_to_server_def sel ..
  have refuse: "pg_refuse ?env = pg_refuse env" by (simp add: pg_refuse_def fun_eq_iff)
  have reg: "register_and_report ?env (cfg\<lparr>require_token := b\<rparr>) (pg_tunnel ?env) app (pg_refuse ?env) pg_report =
      register_and_report env cfg (pg_tunnel env) app (pg_refuse env) pg_report" for app
    unfolding refuse register_and_report_def register_connection_def releasing_def pg_tunnel_def
      effective_max_connections_def sel2 ..
  have lift: "snd (bind_h m k t) = snd (bind_h m k' t) \<and>
      ((\<exists>x. fst (bind_h m k t) = Some (Ok x)) \<longleftrightarrow> (\<exists>x. fst (bind_h m k' t) = Some (Ok x)))"
    if "\<And>a t. snd (k a t) = snd (k' a t) \<and> ((\<exists>x. fst (k a t) = Some (Ok x)) \<longleftrightarrow> (\<exists>x. fst (k' a t) = Some (Ok x)))"
    for m :: "'m pg_handler" and k k' :: "'m \<Rightarrow> proxy_session pg_handler" and t
    using that by (auto simp: bind_h_def split: prod.split option.split result.split)
  have serve: "snd (pg_serve ?env st t) = snd (pg_serve env st t) \<and>
      ((\<exists>x. fst (pg_serve ?env st t) = Some (Ok x)) \<longleftrightarrow> (\<exists>x. fst (pg_serve env st t) = Some (Ok x)))" for st t
    using assms by (auto simp: pg_serve_def login reg intro!: lift split: option.split) (simp_all add: return_h_def)
  show ?thesis
    unfolding pg_handle_def start by (rule lift) (rule serve)
qed

section \<open>A login over a plain link\<close>

lemma read_auth_request:
  "read_message (write_message MSG_AUTH_REQUEST (be32 t) @ rest) = Ok ((MSG_AUTH_REQUEST, be32 t), rest)"
  by (rule read_write_message) simp

lemma get_be32_only: "get_u32 (be32 w) = w"
  using get_be32 [of w "[]"] by simp

text \<open>
  C4 (safety). TLS to the server is only an offer: whoever answers \<open>N\<close> on the wire gets the login over the
  plain link, and, by asking for it, the injected password in clear - although a connector is configured.
\<close>

theorem tls_downgrade_leaks_password:
  assumes "get_session_config env = Some cfg" and "get_auth env = Some creds" and "cred_password creds = Some pw"
    and "connects env" and "server_tls env = Some t" and "server_ok s" and "\<not> server_secure s"
    and "server_in s = lit ''N'' @ write_message MSG_AUTH_REQUEST (be32 AUTH_CLEARTEXT_PASSWORD)"
  shows "\<exists>pre. server_out (snd (pg_serve env st s)) = pre @ write_message MSG_PASSWORD (utf8 pw @ [0]) \<and>
    \<not> server_secure (snd (pg_login env (cred_username creds) pw st s))"
proof -
  let ?ask = "write_message MSG_AUTH_REQUEST (be32 AUTH_CLEARTEXT_PASSWORD)"
  let ?start = "write_startup_message PROTOCOL_VERSION_3_0
      (param_order env (parameters (server_startup (cred_username creds) st)))"
  let ?s1 = "s\<lparr>server_in := ?ask, server_out := server_out s @ write_ssl_request @ ?start\<rparr>"
  have conn: "pg_login env (cred_username creds) pw st s =
      authenticate_with_server (field_order env) (pg_crypt env) (scram_nonce env) (utf8 (cred_username creds)) (utf8 pw) ?s1"
    using assms(4-6,8)
    by (simp add: pg_login_def connect_to_server_def bind_h_def put_server_def read_ssl_answer_def return_h_def
        lit_def char_byte_def)
  have types: "AUTH_CLEARTEXT_PASSWORD \<noteq> AUTH_OK" by (simp add: auth_types)
  have msg: "handle_auth_message cr n (be32 AUTH_CLEARTEXT_PASSWORD) u p t =
      (Some (Ok False), t\<lparr>server_out := server_out t @ write_message MSG_PASSWORD (p @ [0])\<rparr>)"
    if "server_ok t" for cr n u p t
    using that types
    by (simp add: handle_auth_message_def get_be32_only send_password_def put_server_def bind_h_def return_h_def)
  let ?s2 = "?s1\<lparr>server_in := [], server_out := server_out ?s1 @ write_message MSG_PASSWORD (utf8 pw @ [0])\<rparr>"
  have "authenticate_with_server (field_order env) (pg_crypt env) (scram_nonce env) (utf8 (cred_username creds))
      (utf8 pw) ?s2 = (Some (Err (ProtocolError EndOfStream)), ?s2)"
    by (subst authenticate_with_server.simps) (simp add: read_message_Nil)
  then have "pg_login env (cred_username creds) pw st s = (Some (Err (ProtocolError EndOfStream)), ?s2)"
    unfolding conn using assms(6) read_auth_request [of AUTH_CLEARTEXT_PASSWORD "[]"]
    by (subst authenticate_with_server.simps) (simp add: Let_def msg)
  then show ?thesis
    using assms(1-3,7) by (simp add: pg_serve_server_out)
qed

text \<open>
  Mutual authentication can be skipped: a server that answers the client's proof with
  \<open>AuthenticationOk\<close> instead of its signature is taken as authenticated, whatever it knows of the password.
\<close>

lemma scram_verification_skipped:
  assumes "server_ok s" and "length server_first < 1000"
    and "from_utf8 server_first" and "parse_server_first cr server_first = Ok (server_nonce, salt, i)"
    and "take (length nonce) server_nonce = nonce"
    and "server_in s =
      write_message MSG_AUTH_REQUEST (be32 AUTH_SASL @ lit ''SCRAM-SHA-256'' @ [0, 0]) @
      write_message MSG_AUTH_REQUEST (be32 AUTH_SASL_CONTINUE @ server_first) @
      write_message MSG_AUTH_REQUEST (be32 AUTH_OK) @ rest"
  shows "\<exists>s'. authenticate_with_server order cr nonce user password s = (Some (Ok ()), s') \<and> server_in s' = rest"
proof -
  let ?sasl = "be32 AUTH_SASL @ lit ''SCRAM-SHA-256'' @ [0, 0]"
  let ?more = "write_message MSG_AUTH_REQUEST (be32 AUTH_SASL_CONTINUE @ server_first) @
      write_message MSG_AUTH_REQUEST (be32 AUTH_OK) @ rest"
  have r1: "read_message (server_in s) = Ok ((MSG_AUTH_REQUEST, ?sasl), ?more)"
    unfolding assms(6) by (rule read_write_message) (simp add: lit_def)
  have r2: "read_message ?more = Ok ((MSG_AUTH_REQUEST, be32 AUTH_SASL_CONTINUE @ server_first),
      write_message MSG_AUTH_REQUEST (be32 AUTH_OK) @ rest)"
    by (rule read_write_message) (use assms(2) in simp)
  have n2: "next_auth_request t = (Some (Ok (AUTH_SASL_CONTINUE, server_first)),
      t\<lparr>server_in := write_message MSG_AUTH_REQUEST (be32 AUTH_OK) @ rest\<rparr>)" if "server_in t = ?more" for t
    using that r2 by (simp add: next_auth_request_def read_server_message_def bind_h_def return_h_def get_be32)
  have n3: "next_auth_request t = (Some (Ok (AUTH_OK, [])), t\<lparr>server_in := rest\<rparr>)"
    if "server_in t = write_message MSG_AUTH_REQUEST (be32 AUTH_OK) @ rest" for t
    using that read_auth_request [of AUTH_OK rest]
    by (simp add: next_auth_request_def read_server_message_def bind_h_def return_h_def get_be32_only)
  obtain first c1 where c1: "client_first_message (new_scram user password nonce) = (first, c1)" by fastforce
  obtain final c2 where c2: "process_server_first cr server_first c1 = (Ok final, c2)"
    using c1 assms(3-5) by (auto simp: client_first_message_def new_scram_def process_server_first_def Let_def)
  have mech: "from_utf8 (lit ''SCRAM-SHA-256'' @ [0, 0])" "lit ''SCRAM-SHA-256'' \<in> set (split_byte 0 (lit ''SCRAM-SHA-256'' @ [0, 0]))"
    using split_byte_append [of 0 "lit ''SCRAM-SHA-256''" "[0]"]
    by (simp_all add: from_utf8_ascii is_ascii_def lit_def char_byte_def)
  have types: "AUTH_SASL \<noteq> AUTH_OK" "AUTH_SASL \<noteq> AUTH_CLEARTEXT_PASSWORD" "AUTH_SASL \<noteq> AUTH_MD5_PASSWORD"
    "AUTH_OK \<noteq> AUTH_SASL_FINAL"
    by (simp_all add: auth_types)
  have scram: "\<exists>s'. handle_scram_auth cr nonce ?sasl user password t = (Some (Ok ()), s') \<and> server_in s' = rest"
    if "server_ok t" "server_in t = ?more" for t
    using that mech types n2 n3
    by (simp add: handle_scram_auth_def c1 c2 bind_h_def put_server_def scram_h_def return_h_def)
  obtain s' where s': "handle_scram_auth cr nonce ?sasl user password (s\<lparr>server_in := ?more\<rparr>) = (Some (Ok ()), s')"
      "server_in s' = rest"
    using scram [of "s\<lparr>server_in := ?more\<rparr>"] assms(1) by auto
  have "handle_auth_message cr nonce ?sasl user password (s\<lparr>server_in := ?more\<rparr>) = (Some (Ok True), s')"
    using s' types by (simp add: handle_auth_message_def get_be32 Let_def bind_h_def return_h_def)
  then show ?thesis
    using r1 s'(2) by (subst authenticate_with_server.simps) (simp add: Let_def)
qed

section \<open>The relay's command bytes\<close>

text \<open>
  The managed relay reads MySQL commands in PostgreSQL traffic: the fifth byte of a query message
  is the low byte of its length, so a query whose length is 1 modulo 256 is taken for COM_QUIT and ends the
  session.
\<close>

lemma pg_query_ends_session:
  assumes "(length (build_query sql) + 4) mod 256 = 1" and "length (build_query sql) < 1000000"
  shows "ended (relay_run idle [ClientRead (write_message MSG_QUERY (build_query sql)) Written] (start_relay m)) =
    Some ClientDisconnect"
proof -
  let ?n = "length (build_query sql) + 4"
  have low: "(ucast (of_nat k :: u32) :: u8) = of_nat (k mod 256)" for k
  proof -
    have "k mod 4294967296 mod 256 = k mod 256" by (rule mod_mod_cancel) simp
    then show ?thesis by (simp add: word_unat_eq_iff unsigned_ucast_eq unat_of_nat take_bit_eq_mod)
  qed
  have "ucast (ucast w :: u16) = (ucast w :: u8)" for w :: u32
    by (rule bit_word_eqI) (auto simp: bit_simps)
  then have "be32 w ! 3 = ucast w" for w by (simp add: be32_def be16_def)
  then have "be32 (of_nat ?n) ! 3 = of_nat (?n mod 256)" by (simp only: low)
  also have "\<dots> = COM_QUIT" using assms(1) by (simp add: com_codes)
  finally have "(write_message MSG_QUERY (build_query sql)) ! 4 = COM_QUIT"
    by (simp add: write_message_def nth_append)
  then have "chunk_command (write_message MSG_QUERY (build_query sql)) = Some COM_QUIT"
    by (simp add: chunk_command_def write_message_def)
  then show ?thesis
    by (simp add: start_relay_def relay_step_def client_chunk_def)
qed

section \<open>A sample connection\<close>

definition sample_pg_env :: pg_env where
  "sample_pg_env = \<lparr>connects = True, client_addr = [0x61], target_host = [0x62], target_port = 5432,
     target_database = None, tls_accept = None, client_stalls = False, get_session_config = Some unlimited,
     get_auth = Some \<lparr>cred_username = [0x75], cred_password = Some [0x70]\<rparr>, has_tracker = True,
     session_id = 1, env_session_uid = Some [0x67], logs_queries = False, time_now = 0,
     limit_text = (\<lambda>_. []), pg_crypt = sample_pg_crypto, scram_nonce = [0x61], server_tls = Some None,
     param_order = (\<lambda>ps. List.map_filter (\<lambda>k. map_option (Pair k) (ps k)) [ustr ''user'', ustr ''database'']),
     field_order = (\<lambda>e. List.map_filter (\<lambda>k. map_option (Pair k) (e k))
       [ERROR_FIELD_SEVERITY, ERROR_FIELD_CODE, ERROR_FIELD_MESSAGE])\<rparr>"

definition sample_pg_conn :: "bytes \<Rightarrow> bytes \<Rightarrow> pg_conn" where
  "sample_pg_conn from_client from_server = \<lparr>client_in = from_client, client_out = [], client_ok = True,
     server_in = from_server, server_out = [], server_ok = True, conn_tracker = new_tracker, server_secure = False\<rparr>"

text \<open>A server without TLS that asks for nothing, and a client that logs in.\<close>

definition sample_pg_login :: pg_conn where
  "sample_pg_login = sample_pg_conn
     (write_startup_message PROTOCOL_VERSION_3_0 [(ustr ''user'', [0x6D]), (ustr ''application_name'', [0x78])])
     (lit ''N'' @ write_message MSG_AUTH_REQUEST (be32 AUTH_OK) @
        write_message MSG_READY_FOR_QUERY (build_ready_for_query Idle))"

theorem pg_session_registered_or_nothing_witness:
  "case pg_handle sample_pg_env sample_pg_login of
      (Some (Ok sess), s') \<Rightarrow> registered sample_pg_env (session_guard sess) (conn_tracker s') \<and> ready_sent s'
    | (_, s') \<Rightarrow> \<not> has_session (session_id sample_pg_env) (conn_tracker s')"
  by (rule pg_session_registered_or_nothing)
    (simp add: sample_pg_login_def sample_pg_conn_def has_session_def in_tunnel_def new_tracker_def)

theorem tls_downgrade_leaks_password_witness:
  "\<exists>pre. server_out (snd (pg_serve sample_pg_env (new_startup [0x6D]) (sample_pg_conn []
       (lit ''N'' @ write_message MSG_AUTH_REQUEST (be32 AUTH_CLEARTEXT_PASSWORD))))) =
     pre @ write_message MSG_PASSWORD (utf8 [0x70] @ [0])"
  using tls_downgrade_leaks_password [of sample_pg_env unlimited "\<lparr>cred_username = [0x75], cred_password = Some [0x70]\<rparr>"
      "[0x70]" None "sample_pg_conn [] (lit ''N'' @ write_message MSG_AUTH_REQUEST (be32 AUTH_CLEARTEXT_PASSWORD))"
      "new_startup [0x6D]"]
  by (simp add: sample_pg_env_def sample_pg_conn_def)

end
