(* ===== verification/Gateway_Handshake.thy ===== *)
theory Gateway_Handshake
  imports Mysql_Handler Postgres_Auth
begin

text \<open>
  How a connection of the database proxy starts: protocol detection (\<open>protocol/detection.rs\<close>), the gateway
  handshake (\<open>handshake/instruction.rs\<close>, \<open>handler.rs\<close>) that delivers target and credentials, the
  store they wait in (\<open>store.rs\<close>), the provider that hands them to the database handler
  (\<open>provider.rs\<close>), and the routing of \<open>server/connection.rs\<close>. Strings are their UTF-8 bytes. The names
  compared after \<open>to_lowercase\<close> are ASCII and contain no letter that is the lower case of a
  character outside ASCII, so lowering ASCII letters decides the same.
\<close>

section \<open>Instructions\<close>

definition HS_INST_TERM :: u8 where "HS_INST_TERM = 0x3B"
definition HS_ARG_SEP :: u8 where "HS_ARG_SEP = 0x2C"
definition HS_ELEM_SEP :: u8 where "HS_ELEM_SEP = 0x2E"

record instruction =
  opcode :: bytes
  args :: "bytes list"

datatype inst_error =
  EmptyBuffer | Incomplete | MissingLengthSeparator | InvalidLengthEncoding | InvalidLengthValue bytes
| ElementTooLong | InvalidUtf8 | ExpectedSeparator | NoOpcode

definition find_byte :: "u8 \<Rightarrow> bytes \<Rightarrow> nat option" where
  "find_byte b bs = (if b \<in> set bs then Some (length (takeWhile (\<lambda>c. c \<noteq> b) bs)) else None)"

text \<open>
  The elements from position \<open>pos\<close> of an instruction. The end of an element is a sum of \<open>usize\<close>, which wraps;
  a slice that would end before it starts panics.
\<close>

function parse_elements :: "bytes \<Rightarrow> nat \<Rightarrow> (bytes list, inst_error) presult" where
  "parse_elements dat pos =
     (if length dat \<le> pos then Some (Ok [])
      else case find_byte HS_ELEM_SEP (drop pos dat) of
             None \<Rightarrow> Some (Err MissingLengthSeparator)
           | Some dot \<Rightarrow>
               (let length_str = take dot (drop pos dat); start = pos + dot + 1
                in if \<not> from_utf8 length_str then Some (Err InvalidLengthEncoding)
                   else case parse_uint 64 length_str of
                          None \<Rightarrow> Some (Err (InvalidLengthValue length_str))
                        | Some n \<Rightarrow>
                            (let stop = usize_add start n; element = take n (drop start dat)
                             in if length dat < stop then Some (Err ElementTooLong)
                                else if stop < start then None
                                else if \<not> from_utf8 element then Some (Err InvalidUtf8)
                                else if stop < length dat
                                then (if dat ! stop \<noteq> HS_ARG_SEP then Some (Err ExpectedSeparator)
                                      else and_then (parse_elements dat (stop + 1)) (\<lambda>es. Some (Ok (element # es))))
                                else Some (Ok [element]))))"
  by pat_completeness auto
termination
  by (relation "measure (\<lambda>(dat, pos). length dat - pos)") auto

declare parse_elements.simps [simp del]

definition parse_instruction :: "bytes \<Rightarrow> (instruction \<times> nat, inst_error) presult" where
  "parse_instruction dat =
     (if dat = [] then Some (Err EmptyBuffer)
      else case find_byte HS_INST_TERM dat of
             None \<Rightarrow> Some (Err Incomplete)
           | Some t \<Rightarrow>
               and_then (parse_elements (take t dat) 0) (\<lambda>es.
                 case es of [] \<Rightarrow> Some (Err NoOpcode)
                          | op # as \<Rightarrow> Some (Ok (\<lparr>opcode = op, args = as\<rparr>, t + 1))))"

definition encode_part :: "bytes \<Rightarrow> bytes" where
  "encode_part s = dec_bytes (length s) @ [HS_ELEM_SEP] @ s"

definition encode_hs_instruction :: "instruction \<Rightarrow> bytes" where
  "encode_hs_instruction i =
     encode_part (opcode i) @ concat (map (\<lambda>a. [HS_ARG_SEP] @ encode_part a) (args i)) @ [HS_INST_TERM]"

definition inst_arg :: "nat \<Rightarrow> instruction \<Rightarrow> bytes option" where
  "inst_arg n i = (if n < length (args i) then Some (args i ! n) else None)"

section \<open>Detection\<close>

datatype detected = DetMySQL | DetPostgreSQL | DetSQLServer | DetOracle | DetGateway | DetUnknown

definition looks_like_gateway_instruction :: "bytes \<Rightarrow> bool" where
  "looks_like_gateway_instruction dat \<longleftrightarrow>
     3 \<le> length dat \<and>
     (case find_byte HS_ELEM_SEP dat of
        Some pos \<Rightarrow> 0 < pos \<and> pos < 5 \<and> list_all is_ascii_digit (take pos dat)
      | None \<Rightarrow> False)"

definition oracle_connect :: "bytes \<Rightarrow> bool" where
  "oracle_connect dat \<longleftrightarrow>
     8 \<le> length dat \<and> dat ! 4 = 1 \<and> 34 \<le> of_be16 (dat ! 0) (dat ! 1) \<and> of_be16 (dat ! 0) (dat ! 1) \<le> 2000"

definition detect_from_first_byte :: "u8 \<Rightarrow> bytes \<Rightarrow> detected" where
  "detect_from_first_byte b dat =
     (if is_ascii_digit b then (if looks_like_gateway_instruction dat then DetGateway else DetUnknown)
      else if b = 0
      then (if 8 \<le> length dat
            then (let code = of_be32 (dat ! 4) (dat ! 5) (dat ! 6) (dat ! 7)
                  in if code = 80877103 \<or> code = 196608 then DetPostgreSQL
                     else if oracle_connect dat then DetOracle
                     else DetPostgreSQL)
            else DetPostgreSQL)
      else if b = 4 then DetPostgreSQL
      else if b = 0x12 then DetSQLServer
      else if oracle_connect dat then DetOracle
      else DetUnknown)"

text \<open>What the peek of at most eight bytes gives; an empty read is a closed connection.\<close>

datatype peeked = PeekTimeout | PeekError | Peek bytes

fun detect :: "peeked \<Rightarrow> detected \<times> bytes" where
  "detect PeekTimeout = (DetMySQL, [])"
| "detect PeekError = (DetUnknown, [])"
| "detect (Peek dat) =
     (if dat = [] then (DetUnknown, []) else (detect_from_first_byte (hd dat) dat, dat))"

section \<open>Credentials and their store\<close>

datatype database_type = MySQL | PostgreSQL | SQLServer | Oracle

datatype tls_verify_mode = Verify | VerifyCa | VerifyNone

record tls_client_config =
  tls_enabled :: bool
  verify_mode :: tls_verify_mode
  ca_path :: "bytes option"

record logging_config =
  query_logging_enabled :: bool
  include_query_text :: bool
  max_query_length :: nat
  pipe_path :: "bytes option"

record handshake_credentials =
  hc_database_type :: database_type
  hc_target_host :: bytes
  hc_target_port :: u16
  hc_username :: bytes
  hc_password :: bytes
  hc_database :: "bytes option"
  hc_tls_config :: tls_client_config
  hc_session_config :: session_config
  hc_session_uid :: "bytes option"
  hc_logging_config :: "logging_config option"
  stored_at :: nat

type_synonym credential_store = "uuid \<rightharpoonup> handshake_credentials"

definition store_credentials :: "uuid \<Rightarrow> handshake_credentials \<Rightarrow> credential_store \<Rightarrow> credential_store" where
  "store_credentials sid creds st = st(sid \<mapsto> creds)"

definition peek_credentials :: "uuid \<Rightarrow> credential_store \<Rightarrow> handshake_credentials option" where
  "peek_credentials sid st = st sid"

definition take_credentials :: "uuid \<Rightarrow> credential_store \<Rightarrow> handshake_credentials option \<times> credential_store" where
  "take_credentials sid st = (st sid, st(sid := None))"

definition cleanup_expired :: "nat \<Rightarrow> nat \<Rightarrow> credential_store \<Rightarrow> credential_store" where
  "cleanup_expired ttl now st =
     (\<lambda>sid. case st sid of Some c \<Rightarrow> if now - stored_at c < ttl then Some c else None | None \<Rightarrow> None)"


section \<open>The connect instruction\<close>

definition REQUIRED_ARGS :: "string list" where
  "REQUIRED_ARGS =
     [''target_host'', ''target_port'', ''username'', ''password'', ''database'', ''tls_enabled'', ''tls_ca_path'',
      ''tls_verify_mode'', ''session_uid'', ''max_duration_secs'', ''idle_timeout_secs'', ''max_queries'',
      ''single_connection'', ''require_token'', ''query_logging_enabled'', ''include_query_text'',
      ''max_query_length'', ''query_log_pipe_path'']"

datatype handshake_error =
  BadInstruction inst_error | ClosedDuringHandshake | ExpectedOpcode string bytes | MissingDatabaseType
| UnsupportedDatabase bytes | MissingParameter string | EmptyParameter string | InvalidPort
| NotInGatewayMode | InvalidSessionId | NoCredentials

definition ascii_lower :: "bytes \<Rightarrow> bytes" where
  "ascii_lower = map (\<lambda>b. if 0x41 \<le> b \<and> b \<le> 0x5A then b + 0x20 else b)"

definition is_true :: "bytes \<Rightarrow> bool" where
  "is_true s \<longleftrightarrow> ascii_lower s = lit ''true''"

text \<open>An argument that is present and not empty.\<close>

definition given :: "nat \<Rightarrow> instruction \<Rightarrow> bytes option" where
  "given n i = (case inst_arg n i of Some s \<Rightarrow> if s = [] then None else Some s | None \<Rightarrow> None)"

definition parse_database_type :: "instruction \<Rightarrow> (database_type, handshake_error) result" where
  "parse_database_type i =
     (case args i of
        [] \<Rightarrow> Err MissingDatabaseType
      | p # ps \<Rightarrow>
          (let name = ascii_lower p
           in if name = lit ''mysql'' then Ok MySQL
              else if name = lit ''postgresql'' \<or> name = lit ''postgres'' then Ok PostgreSQL
              else if name = lit ''sqlserver'' \<or> name = lit ''mssql'' then Ok SQLServer
              else if name = lit ''oracle'' then Ok Oracle
              else Err (UnsupportedDatabase name)))"

definition parse_verify_mode :: "bytes \<Rightarrow> tls_verify_mode" where
  "parse_verify_mode s =
     (let m = ascii_lower s
      in if m = lit ''none'' \<or> m = lit ''disabled'' \<or> m = lit ''false'' then VerifyNone
         else if m = lit ''ca'' \<or> m = lit ''verify_ca'' then VerifyCa
         else Verify)"

definition parse_logging_config :: "instruction \<Rightarrow> logging_config option" where
  "parse_logging_config i =
     (if (case given 14 i of Some s \<Rightarrow> \<not> is_true s | None \<Rightarrow> True) then None
      else case given 17 i of
             None \<Rightarrow> None
           | Some p \<Rightarrow> Some
               \<lparr>query_logging_enabled = True,
                include_query_text = (case given 15 i of Some s \<Rightarrow> is_true s | None \<Rightarrow> True),
                max_query_length =
                  min (case given 16 i of Some s \<Rightarrow> (case parse_uint 64 s of Some n \<Rightarrow> n | None \<Rightarrow> 10000) | None \<Rightarrow> 10000)
                      1048576,
                pipe_path = Some p\<rparr>)"

text \<open>The session settings of the configuration file, which the handshake may override.\<close>

record session_security_config =
  max_duration_secs :: nat
  idle_timeout_secs :: nat
  sc_max_queries :: nat
  sc_max_connections_per_session :: u32
  connection_grace_period_ms :: nat
  sc_require_token :: bool

definition setting :: "nat \<Rightarrow> instruction \<Rightarrow> nat \<Rightarrow> nat" where
  "setting n i fallback =
     (case given n i of Some s \<Rightarrow> (case parse_uint 64 s of Some v \<Rightarrow> v | None \<Rightarrow> fallback) | None \<Rightarrow> fallback)"

definition session_settings :: "session_security_config option \<Rightarrow> instruction \<Rightarrow> session_config" where
  "session_settings defaults i =
     (let duration = setting 9 i (case defaults of Some c \<Rightarrow> max_duration_secs c | None \<Rightarrow> 0);
          idle = setting 10 i (case defaults of Some c \<Rightarrow> idle_timeout_secs c | None \<Rightarrow> 300);
          queries = setting 11 i (case defaults of Some c \<Rightarrow> sc_max_queries c | None \<Rightarrow> 0);
          token = (case given 13 i of
                     Some s \<Rightarrow> is_true s
                   | None \<Rightarrow> (case defaults of Some c \<Rightarrow> sc_require_token c | None \<Rightarrow> False));
          connections = (case defaults of Some c \<Rightarrow> sc_max_connections_per_session c | None \<Rightarrow> 0);
          grace = (case defaults of Some c \<Rightarrow> connection_grace_period_ms c | None \<Rightarrow> 1000)
      in unlimited\<lparr>max_duration := if duration > 0 then Some (duration * 1000) else None,
                   idle_timeout := if idle > 0 then Some (idle * 1000) else None,
                   max_queries := if queries > 0 then Some (of_nat queries) else None,
                   max_connections_per_session := if connections > 0 then Some connections else None,
                   connection_grace_period := if grace > 0 then Some grace else None,
                   require_token := token\<rparr>)"

definition required_arg :: "nat \<Rightarrow> instruction \<Rightarrow> (bytes, handshake_error) result" where
  "required_arg n i = (case inst_arg n i of Some s \<Rightarrow> Ok s | None \<Rightarrow> Err (MissingParameter (REQUIRED_ARGS ! n)))"

definition nonempty_arg :: "nat \<Rightarrow> instruction \<Rightarrow> (bytes, handshake_error) result" where
  "nonempty_arg n i =
     bind_result (required_arg n i) (\<lambda>s. if s = [] then Err (EmptyParameter (REQUIRED_ARGS ! n)) else Ok s)"

definition port_arg :: "instruction \<Rightarrow> (u16, handshake_error) result" where
  "port_arg i =
     bind_result (required_arg 1 i) (\<lambda>s.
       case parse_uint 16 s of Some p \<Rightarrow> Ok (of_nat p) | None \<Rightarrow> Err InvalidPort)"

definition parse_credentials ::
  "session_security_config option \<Rightarrow> nat \<Rightarrow> database_type \<Rightarrow> instruction \<Rightarrow>
     (handshake_credentials, handshake_error) result" where
  "parse_credentials defaults now t i =
     bind_result (nonempty_arg 0 i) (\<lambda>host.
     bind_result (port_arg i) (\<lambda>port.
     bind_result (nonempty_arg 2 i) (\<lambda>user.
     bind_result (required_arg 3 i) (\<lambda>password.
       Ok \<lparr>hc_database_type = t, hc_target_host = host, hc_target_port = port, hc_username = user,
           hc_password = password, hc_database = given 4 i,
           hc_tls_config = \<lparr>tls_enabled = (case inst_arg 5 i of Some s \<Rightarrow> is_true s | None \<Rightarrow> False),
             verify_mode = (case inst_arg 7 i of Some s \<Rightarrow> parse_verify_mode s | None \<Rightarrow> Verify),
             ca_path = given 6 i\<rparr>,
           hc_session_config = session_settings defaults i, hc_session_uid = given 8 i,
           hc_logging_config = parse_logging_config i, stored_at = now\<rparr>))))"

section \<open>The handshake\<close>

text \<open>
  What a read of the socket can give: a chunk (the empty one is the end), thirty seconds of silence or an
  error. A list that is used up is a client that stays silent. Each write succeeds or not.
\<close>

datatype read_outcome = Chunk bytes | Silence | ReadFailure

record handshake_state =
  incoming :: "read_outcome list"
  hs_buffer :: bytes
  hs_out :: bytes
  write_outcomes :: "bool list"
  hs_store :: credential_store

type_synonym 'a handshake_step = "(handshake_state, handshake_error, 'a) handler"

definition READ_BUFFER_SIZE :: nat where "READ_BUFFER_SIZE = 4096"

text \<open>
  The test for the word in the message of a parse error: besides the error it is meant for, the
  message that quotes a length can contain it.
\<close>

fun contains_bytes :: "bytes \<Rightarrow> bytes \<Rightarrow> bool" where
  "contains_bytes p [] = (p = [])"
| "contains_bytes p (x # xs) = (take (length p) (x # xs) = p \<or> contains_bytes p xs)"

definition wants_more :: "inst_error \<Rightarrow> bool" where
  "wants_more e =
     (case e of Incomplete \<Rightarrow> True | InvalidLengthValue s \<Rightarrow> contains_bytes (lit ''Incomplete'') s | _ \<Rightarrow> False)"

definition try_parse_buffer :: "bytes \<Rightarrow> (instruction \<times> nat, inst_error) presult option" where
  "try_parse_buffer buf =
     (if buf = [] then None
      else case parse_instruction buf of
             Some (Err e) \<Rightarrow> if wants_more e then None else Some (Some (Err e))
           | r \<Rightarrow> Some r)"

text \<open>One read of the socket into the room behind the buffer; a full buffer reads nothing, which counts as the end.\<close>

fun read_more :: "read_outcome list \<Rightarrow> bytes \<Rightarrow> (bytes, handshake_error proxy_error) result \<times> read_outcome list" where
  "read_more [] buf =
     (Err (if READ_BUFFER_SIZE \<le> length buf then ProtocolError ClosedDuringHandshake else TimedOut), [])"
| "read_more (Silence # es) buf =
     (if READ_BUFFER_SIZE \<le> length buf then (Err (ProtocolError ClosedDuringHandshake), Silence # es)
      else (Err TimedOut, es))"
| "read_more (ReadFailure # es) buf =
     (if READ_BUFFER_SIZE \<le> length buf then (Err (ProtocolError ClosedDuringHandshake), ReadFailure # es)
      else (Err Eof, es))"
| "read_more (Chunk c # es) buf =
     (let room = READ_BUFFER_SIZE - length buf; got = take room c; rest = drop room c
      in if got = [] then (Err (ProtocolError ClosedDuringHandshake), Chunk c # es)
         else (Ok (buf @ got), if rest = [] then es else Chunk rest # es))"

fun incoming_size :: "read_outcome list \<Rightarrow> nat" where
  "incoming_size [] = 0"
| "incoming_size (Chunk c # es) = length c + 1 + incoming_size es"
| "incoming_size (_ # es) = 1 + incoming_size es"

lemma read_more_shrinks: "read_more es buf = (Ok buf', es') \<Longrightarrow> incoming_size es' < incoming_size es"
  by (cases "(es, buf)" rule: read_more.cases) (auto simp: Let_def split: if_splits)

function read_loop ::
  "read_outcome list \<Rightarrow> bytes \<Rightarrow> (instruction, handshake_error proxy_error) result option \<times> read_outcome list \<times> bytes" where
  "read_loop es buf =
     (case try_parse_buffer buf of
        Some None \<Rightarrow> (None, es, buf)
      | Some (Some (Ok (i, n))) \<Rightarrow> (Some (Ok i), es, drop n buf)
      | Some (Some (Err e)) \<Rightarrow> (Some (Err (ProtocolError (BadInstruction e))), es, buf)
      | None \<Rightarrow>
          (case read_more es buf of
             (Err e, es') \<Rightarrow> (Some (Err e), es', buf)
           | (Ok buf', es') \<Rightarrow> read_loop es' buf'))"
  by pat_completeness auto
termination
  by (relation "measure (\<lambda>(es, buf). incoming_size es)") (auto dest: read_more_shrinks [OF sym])

declare read_loop.simps [simp del]

definition read_instruction :: "instruction handshake_step" where
  "read_instruction s =
     (case read_loop (incoming s) (hs_buffer s) of
        (r, es, buf) \<Rightarrow> (r, s\<lparr>incoming := es, hs_buffer := buf\<rparr>))"

definition write_instruction :: "instruction \<Rightarrow> unit handshake_step" where
  "write_instruction i s =
     (case write_outcomes s of
        False # ws \<Rightarrow> (Some (Err WriteError), s\<lparr>write_outcomes := ws\<rparr>)
      | True # ws \<Rightarrow> (Some (Ok ()), s\<lparr>write_outcomes := ws, hs_out := hs_out s @ encode_hs_instruction i\<rparr>)
      | [] \<Rightarrow> (Some (Ok ()), s\<lparr>hs_out := hs_out s @ encode_hs_instruction i\<rparr>))"

text \<open>The error instruction; its own failure is ignored. The texts of messages are not modelled.\<close>

definition error_instruction :: "string \<Rightarrow> handshake_error \<Rightarrow> (handshake_error \<Rightarrow> bytes) \<Rightarrow> instruction" where
  "error_instruction code e msg = \<lparr>opcode = lit ''error'', args = [lit code, msg e]\<rparr>"

definition fail_with :: "(handshake_error \<Rightarrow> bytes) \<Rightarrow> string \<Rightarrow> handshake_error \<Rightarrow> 'a handshake_step" where
  "fail_with msg code e s =
     (Some (Err (ProtocolError e)), snd (write_instruction (error_instruction code e msg) s))"

definition expect_instruction :: "(handshake_error \<Rightarrow> bytes) \<Rightarrow> string \<Rightarrow> instruction handshake_step" where
  "expect_instruction msg op =
     bind_h read_instruction (\<lambda>i.
       if opcode i = lit op then return_h i else fail_with msg ''PROTOCOL'' (ExpectedOpcode op (opcode i)))"

definition args_instruction :: instruction where
  "args_instruction = \<lparr>opcode = lit ''args'', args = map lit REQUIRED_ARGS\<rparr>"

definition ready_instruction :: "bytes \<Rightarrow> instruction" where
  "ready_instruction sid = \<lparr>opcode = lit ''ready'', args = [sid]\<rparr>"

definition store_step :: "uuid \<Rightarrow> handshake_credentials \<Rightarrow> unit handshake_step" where
  "store_step sid creds = (\<lambda>s. (Some (Ok ()), s\<lparr>hs_store := store_credentials sid creds (hs_store s)\<rparr>))"

text \<open>Parameters: the session's id and its text, the configured defaults, the clock and the error texts.\<close>

record handshake_env =
  hs_session :: uuid
  session_text :: bytes
  session_defaults :: "session_security_config option"
  hs_now :: nat
  error_text :: "handshake_error \<Rightarrow> bytes"

definition hs_handle :: "handshake_env \<Rightarrow> handshake_credentials handshake_step" where
  "hs_handle env =
     bind_h (expect_instruction (error_text env) ''select'') (\<lambda>sel.
     case parse_database_type sel of
       Err e \<Rightarrow> fail_h (ProtocolError e)
     | Ok t \<Rightarrow>
         bind_h (write_instruction args_instruction) (\<lambda>_.
         bind_h (expect_instruction (error_text env) ''connect'') (\<lambda>con.
         case parse_credentials (session_defaults env) (hs_now env) t con of
           Err e \<Rightarrow> fail_with (error_text env) ''INVALID_CREDENTIALS'' e
         | Ok creds \<Rightarrow>
             bind_h (store_step (hs_session env) creds) (\<lambda>_.
             bind_h (write_instruction (ready_instruction (session_text env))) (\<lambda>_.
             return_h creds)))))"


section \<open>Instructions are read back\<close>

lemma find_byte_simps [simp]:
  "find_byte b [] = None"
  "find_byte b (c # bs) = (if c = b then Some 0 else map_option Suc (find_byte b bs))"
  by (auto simp: find_byte_def)

lemma find_byte_append: "b \<notin> set xs \<Longrightarrow> find_byte b (xs @ b # ys) = Some (length xs)"
  by (induction xs) auto

lemma find_byte_None: "b \<notin> set bs \<Longrightarrow> find_byte b bs = None"
  by (simp add: find_byte_def)

lemma find_byte_Some: "find_byte b bs = Some n \<Longrightarrow> n < length bs \<and> b \<notin> set (take n bs)"
  by (induction bs arbitrary: n) (auto split: if_splits)

lemma dec_bytes_no_separator: "b \<in> {HS_INST_TERM, HS_ARG_SEP, HS_ELEM_SEP} \<Longrightarrow> b \<notin> set (dec_bytes n)"
  using dec_bytes_digits [of b n] by (auto simp: is_ascii_digit_def HS_INST_TERM_def HS_ARG_SEP_def HS_ELEM_SEP_def)

lemma dec_bytes_utf8: "from_utf8 (dec_bytes n)"
proof (rule from_utf8_ascii)
  have "is_ascii_digit b \<Longrightarrow> unat b < 0x80" for b by (auto simp: is_ascii_digit_def word_le_nat_alt)
  then show "is_ascii (dec_bytes n)" using dec_bytes_digits [of _ n] by (auto simp: is_ascii_def)
qed

definition later_parts :: "bytes list \<Rightarrow> bytes" where
  "later_parts as = concat (map (\<lambda>a. [HS_ARG_SEP] @ encode_part a) as)"

lemma later_parts_simps [simp]:
  "later_parts [] = []" "later_parts (a # as) = HS_ARG_SEP # encode_part a @ later_parts as"
  by (simp_all add: later_parts_def)

text \<open>One element at position \<open>length pre\<close>.\<close>

lemma parse_elements_part:
  assumes "from_utf8 e" and dat: "dat = pre @ encode_part e @ rest" and "length dat < 2 ^ 64"
  shows "parse_elements dat (length pre) =
     (let stop = length pre + length (encode_part e)
      in if stop < length dat
         then (if dat ! stop \<noteq> HS_ARG_SEP then Some (Err ExpectedSeparator)
               else and_then (parse_elements dat (stop + 1)) (\<lambda>es. Some (Ok (e # es))))
         else Some (Ok [e]))"
proof -
  let ?n = "length e"
  have d: "drop (length pre) dat = dec_bytes ?n @ HS_ELEM_SEP # e @ rest" by (simp add: dat encode_part_def)
  have f: "find_byte HS_ELEM_SEP (drop (length pre) dat) = Some (length (dec_bytes ?n))"
    unfolding d by (rule find_byte_append) (use dec_bytes_no_separator in simp)
  have t: "take (length (dec_bytes ?n)) (drop (length pre) dat) = dec_bytes ?n" by (simp add: d)
  have p: "parse_uint 64 (dec_bytes ?n) = Some ?n" using assms(3) by (intro parse_uint_dec) (simp add: dat encode_part_def)
  have el: "take ?n (drop (Suc (length pre + length (dec_bytes ?n))) dat) = e"
    by (simp add: dat encode_part_def)
  have stop: "usize_add (Suc (length pre + length (dec_bytes ?n))) ?n = Suc (length pre + (length (dec_bytes ?n) + ?n))"
    using assms(3) by (simp add: usize_add_def dat encode_part_def)
  have l: "length pre < length dat" "length pre + length (encode_part e) \<le> length dat"
    by (simp_all add: dat encode_part_def)
  show ?thesis
    by (subst parse_elements.simps)
      (use l assms(1) in \<open>simp add: f t p el stop dec_bytes_utf8 Let_def encode_part_def\<close>)
qed

lemma parse_elements_encoded:
  assumes "from_utf8 e" "\<forall>a \<in> set as. from_utf8 a"
    and "length (pre @ encode_part e @ later_parts as) < 2 ^ 64"
  shows "parse_elements (pre @ encode_part e @ later_parts as) (length pre) = Some (Ok (e # as))"
  using assms
proof (induction as arbitrary: pre e)
  case Nil
  with parse_elements_part [OF Nil.prems(1) refl, of pre "[]"] show ?case by simp
next
  case (Cons a as)
  let ?pre = "pre @ encode_part e @ [HS_ARG_SEP]"
  have "parse_elements (?pre @ encode_part a @ later_parts as) (length ?pre) = Some (Ok (a # as))"
    by (rule Cons.IH) (use Cons.prems in simp_all)
  with parse_elements_part [OF Cons.prems(1) refl Cons.prems(3)] show ?case
    by (simp add: Let_def nth_append)
qed

definition wf_instruction :: "instruction \<Rightarrow> bool" where
  "wf_instruction i \<longleftrightarrow>
     (\<forall>e \<in> set (opcode i # args i). from_utf8 e \<and> HS_INST_TERM \<notin> set e) \<and> length (encode_hs_instruction i) < 2 ^ 64"

lemma encode_instruction_body: "encode_hs_instruction i = (encode_part (opcode i) @ later_parts (args i)) @ [HS_INST_TERM]"
  by (simp add: encode_hs_instruction_def later_parts_def)

lemma body_no_terminator:
  assumes "\<forall>e \<in> set (opcode i # args i). HS_INST_TERM \<notin> set e"
  shows "HS_INST_TERM \<notin> set (encode_part (opcode i) @ later_parts (args i))"
proof -
  have part: "HS_INST_TERM \<notin> set e \<Longrightarrow> HS_INST_TERM \<notin> set (encode_part e)" for e
    using dec_bytes_no_separator [of HS_INST_TERM] by (simp add: encode_part_def HS_ELEM_SEP_def HS_INST_TERM_def)
  have "\<forall>e \<in> set as. HS_INST_TERM \<notin> set e \<Longrightarrow> HS_INST_TERM \<notin> set (later_parts as)" for as
    by (induction as) (simp_all add: part, simp add: HS_ARG_SEP_def HS_INST_TERM_def)
  with part assms show ?thesis by simp
qed

lemma parse_encoded_instruction:
  assumes "wf_instruction i"
  shows "parse_instruction (encode_hs_instruction i @ rest) = Some (Ok (i, length (encode_hs_instruction i)))"
proof -
  let ?b = "encode_part (opcode i) @ later_parts (args i)"
  have b: "HS_INST_TERM \<notin> set ?b" using assms by (intro body_no_terminator) (simp add: wf_instruction_def)
  then have f: "find_byte HS_INST_TERM (encode_hs_instruction i @ rest) = Some (length ?b)"
    using find_byte_append [OF b, of rest] by (simp add: encode_instruction_body)
  have "parse_elements ?b 0 = Some (Ok (opcode i # args i))"
    using assms parse_elements_encoded [of "opcode i" "args i" "[]"]
    by (simp add: wf_instruction_def encode_instruction_body)
  moreover have "take (length ?b) (encode_hs_instruction i @ rest) = ?b" by (simp add: encode_instruction_body)
  moreover have "encode_hs_instruction i @ rest \<noteq> []" by (simp add: encode_instruction_body)
  ultimately show ?thesis unfolding parse_instruction_def f by (simp add: encode_instruction_body)
qed

lemma parse_partial_instruction:
  assumes "wf_instruction i" "encode_hs_instruction i = p @ q" "q \<noteq> []" "p \<noteq> []"
  shows "parse_instruction p = Some (Err Incomplete)"
proof -
  from assms(2,3) have "p = take (length p) (encode_part (opcode i) @ later_parts (args i))"
    unfolding encode_instruction_body by (metis append_eq_conv_conj butlast_append butlast_snoc take_append take_butlast length_append diff_is_0_eq)
  moreover have "HS_INST_TERM \<notin> set (encode_part (opcode i) @ later_parts (args i))"
    using assms(1) by (intro body_no_terminator) (simp add: wf_instruction_def)
  ultimately have "HS_INST_TERM \<notin> set p" by (metis in_set_takeD)
  with assms(4) show ?thesis by (simp add: parse_instruction_def find_byte_def)
qed

definition dec_instruction :: "bytes \<Rightarrow> (instruction \<times> bytes) option" where
  "dec_instruction bs = (case parse_instruction bs of Some (Ok (i, n)) \<Rightarrow> Some (i, drop n bs) | _ \<Rightarrow> None)"

interpretation gateway: frame_codec encode_hs_instruction dec_instruction wf_instruction
proof
  fix i p q rest
  assume i: "wf_instruction i"
  then show "dec_instruction (encode_hs_instruction i @ rest) = Some (i, rest)"
    by (simp add: dec_instruction_def parse_encoded_instruction)
  show "encode_hs_instruction i \<noteq> []" by (simp add: encode_instruction_body)
  assume "encode_hs_instruction i = p @ q" "q \<noteq> []"
  with i parse_partial_instruction [of i p q] show "dec_instruction p = None"
    by (cases "p = []") (simp_all add: dec_instruction_def parse_instruction_def)
qed

text \<open>No instruction that is read contains the terminator in an element.\<close>

lemma set_slice_subset: "set (take n (drop m dat)) \<subseteq> set dat"
  by (meson order_trans set_drop_subset set_take_subset)

lemma parse_elements_Ok:
  assumes "parse_elements dat pos = Some (Ok es)"
  shows "es = [] \<or> (\<exists>h es'. es = h # es' \<and> set h \<subseteq> set dat \<and>
           (es' = [] \<or> (\<exists>pos'. pos < pos' \<and> pos < length dat \<and> parse_elements dat pos' = Some (Ok es'))))"
proof (cases "length dat \<le> pos")
  case True
  with assms show ?thesis by (simp add: parse_elements.simps)
next
  case False
  then obtain dot n where s: "find_byte HS_ELEM_SEP (drop pos dat) = Some dot"
      "parse_uint 64 (take dot (drop pos dat)) = Some n"
    using assms by (subst (asm) parse_elements.simps) (auto simp: Let_def split: option.splits if_splits)
  let ?start = "pos + dot + 1"
  let ?stop = "usize_add ?start n" and ?e = "take n (drop ?start dat)"
  from assms False s have c: "?start \<le> ?stop" "?stop < length dat \<longrightarrow> (\<exists>es'. parse_elements dat (?stop + 1) = Some (Ok es') \<and> es = ?e # es')"
      "\<not> ?stop < length dat \<longrightarrow> es = [?e]"
    by (subst (asm) parse_elements.simps, simp add: Let_def and_then_def split: if_splits option.splits result.splits)+
  have "pos < ?stop + 1" using c(1) by simp
  with c(2,3) set_slice_subset [of n ?start dat] False show ?thesis
    by (cases "?stop < length dat") (blast intro: not_le_imp_less, simp)
qed

lemma elements_inside: "parse_elements dat pos = Some (Ok es) \<Longrightarrow> e \<in> set es \<Longrightarrow> set e \<subseteq> set dat"
proof (induction "length dat - pos" arbitrary: pos es rule: less_induct)
  case less
  from parse_elements_Ok [OF less.prems(1)] less.prems(2) obtain h es' where
    h: "es = h # es'" "set h \<subseteq> set dat" and
    m: "es' = [] \<or> (\<exists>pos'. pos < pos' \<and> pos < length dat \<and> parse_elements dat pos' = Some (Ok es'))" by auto
  show ?case
  proof (cases "e = h")
    case False
    with h less.prems(2) have "e \<in> set es'" by simp
    with m obtain pos' where "pos < pos'" "pos < length dat" "parse_elements dat pos' = Some (Ok es')" by auto
    with less.hyps [of pos' es'] \<open>e \<in> set es'\<close> show ?thesis by simp
  qed (use h in simp)
qed

lemma read_elements_no_terminator:
  assumes "parse_instruction dat = Some (Ok (i, n))"
  shows "\<forall>e \<in> set (opcode i # args i). HS_INST_TERM \<notin> set e"
proof -
  from assms obtain t es where t: "find_byte HS_INST_TERM dat = Some t" "parse_elements (take t dat) 0 = Some (Ok es)"
    and i: "opcode i # args i = es"
    by (auto simp: parse_instruction_def and_then_def split: if_splits option.splits result.splits list.splits)
  have "HS_INST_TERM \<notin> set (take t dat)" using find_byte_Some [OF t(1)] by simp
  with elements_inside [OF t(2)] i show ?thesis by blast
qed


section \<open>The handshake reads what the gateway sends\<close>

lemma try_parse_encoded:
  "wf_instruction i \<Longrightarrow> try_parse_buffer (encode_hs_instruction i @ rest) = Some (Some (Ok (i, length (encode_hs_instruction i))))"
  using parse_encoded_instruction [of i rest] gateway.enc_nonempty [of i]
  by (simp add: try_parse_buffer_def split: list.split)

lemma try_parse_partial:
  assumes "wf_instruction i" "encode_hs_instruction i = p @ q" "q \<noteq> []"
  shows "try_parse_buffer p = None"
  using parse_partial_instruction [OF assms] by (simp add: try_parse_buffer_def wants_more_def)

text \<open>A gateway's bytes cut into chunks, with some of them in the buffer already.\<close>

definition arrives :: "handshake_state \<Rightarrow> bytes \<Rightarrow> bool" where
  "arrives s dat \<longleftrightarrow>
     (\<exists>cs. incoming s = map Chunk cs \<and> [] \<notin> set cs \<and> hs_buffer s @ concat cs = dat \<and>
           length (hs_buffer s) \<le> READ_BUFFER_SIZE)"

lemma read_loop_encoded:
  assumes "wf_instruction i" "length (encode_hs_instruction i) \<le> READ_BUFFER_SIZE"
    and "[] \<notin> set cs" "buf @ concat cs = encode_hs_instruction i @ rest" "length buf \<le> READ_BUFFER_SIZE"
  shows "\<exists>cs' buf'. read_loop (map Chunk cs) buf = (Some (Ok i), map Chunk cs', buf') \<and> [] \<notin> set cs' \<and>
           buf' @ concat cs' = rest \<and> length buf' \<le> READ_BUFFER_SIZE"
  using assms(3-5)
proof (induction "length (concat cs) + length cs" arbitrary: cs buf rule: less_induct)
  case less
  let ?enc = "encode_hs_instruction i"
  show ?case
  proof (cases "length ?enc \<le> length buf")
    case True
    with less.prems(2) obtain r where b: "buf = ?enc @ r" "r @ concat cs = rest"
      by (metis append_eq_append_conv_if append_take_drop_id append_eq_conv_conj)
    then have "read_loop (map Chunk cs) buf = (Some (Ok i), map Chunk cs, r)"
      by (subst read_loop.simps) (simp add: try_parse_encoded [OF assms(1)])
    with b less.prems show ?thesis by (intro exI [of _ cs] exI [of _ r]) simp
  next
    case False
    define q where "q = drop (length buf) ?enc"
    have "buf = take (length buf) (?enc @ rest)" using less.prems(2) by (metis append_eq_conv_conj)
    with False have "buf = take (length buf) ?enc" by simp
    then have q: "?enc = buf @ q" "q \<noteq> []" using False by (metis append_take_drop_id q_def, simp add: q_def)
    with less.prems(2) have "q @ rest = concat cs" by simp
    with q obtain c ds where cs: "cs = c # ds" by (cases cs) auto
    have room: "length buf < READ_BUFFER_SIZE" using q assms(2) by (cases q) auto
    let ?got = "take (READ_BUFFER_SIZE - length buf) c" and ?rest = "drop (READ_BUFFER_SIZE - length buf) c"
    let ?cs = "if ?rest = [] then ds else ?rest # ds"
    have c: "c \<noteq> []" "?got \<noteq> []" using less.prems(1) cs room by auto
    have step: "read_loop (map Chunk cs) buf = read_loop (map Chunk ?cs) (buf @ ?got)"
      by (subst read_loop.simps) (use c cs in \<open>simp add: try_parse_partial [OF assms(1) q(1,2)] Let_def\<close>)
    have stream: "(buf @ ?got) @ concat ?cs = ?enc @ rest"
      using less.prems(2) cs by (cases "?rest = []") (simp_all, metis append_take_drop_id append_assoc)
    have "\<exists>cs' buf'. read_loop (map Chunk ?cs) (buf @ ?got) = (Some (Ok i), map Chunk cs', buf') \<and> [] \<notin> set cs' \<and>
             buf' @ concat cs' = rest \<and> length buf' \<le> READ_BUFFER_SIZE"
      by (rule less.hyps) (use less.prems(1) cs c room stream in \<open>auto simp: min_def\<close>)
    with step show ?thesis by simp
  qed
qed

lemma read_instruction_encoded:
  assumes "wf_instruction i" "length (encode_hs_instruction i) \<le> READ_BUFFER_SIZE"
    and "arrives s (encode_hs_instruction i @ rest)"
  obtains es buf where "read_instruction s = (Some (Ok i), s\<lparr>incoming := es, hs_buffer := buf\<rparr>)"
    "arrives (s\<lparr>incoming := es, hs_buffer := buf\<rparr>) rest"
proof -
  from assms(3) obtain cs where cs: "incoming s = map Chunk cs" "[] \<notin> set cs"
    "hs_buffer s @ concat cs = encode_hs_instruction i @ rest" "length (hs_buffer s) \<le> READ_BUFFER_SIZE"
    by (auto simp: arrives_def)
  from read_loop_encoded [OF assms(1,2) cs(2-4)] obtain cs' buf' where
    "read_loop (map Chunk cs) (hs_buffer s) = (Some (Ok i), map Chunk cs', buf')" "[] \<notin> set cs'"
    "buf' @ concat cs' = rest" "length buf' \<le> READ_BUFFER_SIZE" by blast
  then show thesis
    by (intro that [where es = "map Chunk cs'" and buf = buf']) (auto simp: read_instruction_def cs(1) arrives_def)
qed

text \<open>No buffer is larger than its array, so an instruction is read from at most 4096 bytes.\<close>

lemma read_more_bound: "read_more es buf = (Ok buf', es') \<Longrightarrow> length buf' \<le> READ_BUFFER_SIZE"
  by (cases "(es, buf)" rule: read_more.cases) (auto simp: Let_def split: if_splits)

lemma read_loop_Ok:
  "read_loop es buf = (Some (Ok i), es', buf') \<Longrightarrow>
     \<exists>b n. parse_instruction b = Some (Ok (i, n)) \<and> (length buf \<le> READ_BUFFER_SIZE \<longrightarrow> length b \<le> READ_BUFFER_SIZE)"
proof (induction es buf rule: read_loop.induct)
  case (1 es buf)
  show ?case
  proof (cases "try_parse_buffer buf")
    case None
    with 1(2) obtain b e where r: "read_more es buf = (Ok b, e)" "read_loop e b = (Some (Ok i), es', buf')"
      by (subst (asm) read_loop.simps) (auto split: prod.splits result.splits)
    from 1(1) [OF None r(1) [symmetric] refl r(2)] read_more_bound [OF r(1)] show ?thesis by blast
  next
    case (Some p)
    with 1(2) obtain n where "try_parse_buffer buf = Some (Some (Ok (i, n)))"
      by (subst (asm) read_loop.simps) (auto split: option.splits result.splits)
    then have "parse_instruction buf = Some (Ok (i, n))"
      by (auto simp: try_parse_buffer_def split: if_splits option.splits result.splits)
    then show ?thesis by blast
  qed
qed

lemma expect_encoded:
  assumes "wf_instruction i" "length (encode_hs_instruction i) \<le> READ_BUFFER_SIZE" "opcode i = lit op"
    and "arrives s (encode_hs_instruction i @ rest)"
  obtains es buf where "expect_instruction msg op s = (Some (Ok i), s\<lparr>incoming := es, hs_buffer := buf\<rparr>)"
    "arrives (s\<lparr>incoming := es, hs_buffer := buf\<rparr>) rest"
proof -
  from read_instruction_encoded [OF assms(1,2,4)] obtain es buf where
    "read_instruction s = (Some (Ok i), s\<lparr>incoming := es, hs_buffer := buf\<rparr>)"
    "arrives (s\<lparr>incoming := es, hs_buffer := buf\<rparr>) rest" .
  then show thesis
    by (intro that [where es = es and buf = buf]) (simp_all add: expect_instruction_def bind_h_def assms(3) return_h_def)
qed

text \<open>The result of the whole handshake with a gateway that follows it and a socket that can be written.\<close>

lemma hs_handle_encoded:
  assumes sel: "wf_instruction sel" "length (encode_hs_instruction sel) \<le> READ_BUFFER_SIZE" "opcode sel = lit ''select''"
    and con: "wf_instruction con" "length (encode_hs_instruction con) \<le> READ_BUFFER_SIZE" "opcode con = lit ''connect''"
    and s: "arrives s (encode_hs_instruction sel @ encode_hs_instruction con)" "write_outcomes s = []"
    and t: "parse_database_type sel = Ok t"
    and creds: "parse_credentials (session_defaults env) (hs_now env) t con = Ok creds"
  obtains s' where "hs_handle env s = (Some (Ok creds), s')"
    "hs_store s' = (hs_store s)(hs_session env \<mapsto> creds)"
    "hs_out s' = hs_out s @ encode_hs_instruction args_instruction @ encode_hs_instruction (ready_instruction (session_text env))"
proof -
  from expect_encoded [OF sel s(1)] obtain es buf where
    e1: "expect_instruction (error_text env) ''select'' s = (Some (Ok sel), s\<lparr>incoming := es, hs_buffer := buf\<rparr>)"
    and a1: "arrives (s\<lparr>incoming := es, hs_buffer := buf\<rparr>) (encode_hs_instruction con)" .
  let ?s1 = "s\<lparr>incoming := es, hs_buffer := buf, hs_out := hs_out s @ encode_hs_instruction args_instruction\<rparr>"
  have "arrives ?s1 (encode_hs_instruction con @ [])" using a1 by (simp add: arrives_def)
  from expect_encoded [OF con this] obtain es' buf' where
    e2: "expect_instruction (error_text env) ''connect'' ?s1 = (Some (Ok con), ?s1\<lparr>incoming := es', hs_buffer := buf'\<rparr>)" .
  have "hs_handle env s = (Some (Ok creds),
      ?s1\<lparr>incoming := es', hs_buffer := buf', hs_store := (hs_store s)(hs_session env \<mapsto> creds),
          hs_out := hs_out ?s1 @ encode_hs_instruction (ready_instruction (session_text env))\<rparr>)"
    using e1 e2 s(2) t creds
    by (simp add: hs_handle_def bind_h_def write_instruction_def store_step_def store_credentials_def return_h_def)
  then show thesis by (rule that) simp_all
qed

section \<open>The provider\<close>

datatype auth_method = MysqlNative bytes bytes | PostgresScram bytes bytes | SqlserverAuth bytes bytes

record auth_credentials =
  ac_method :: auth_method
  ac_database :: "bytes option"

text \<open>\<open>None\<close>: the context's session id is not the text of a UUID.\<close>

definition hs_get_auth :: "uuid option \<Rightarrow> credential_store \<Rightarrow> (auth_credentials, handshake_error) result \<times> credential_store" where
  "hs_get_auth sid st =
     (case sid of
        None \<Rightarrow> (Err InvalidSessionId, st)
      | Some u \<Rightarrow>
          (case take_credentials u st of
             (None, st') \<Rightarrow> (Err NoCredentials, st')
           | (Some c, st') \<Rightarrow>
               (Ok \<lparr>ac_method = (case hc_database_type c of
                       MySQL \<Rightarrow> MysqlNative (hc_username c) (hc_password c)
                     | PostgreSQL \<Rightarrow> PostgresScram (hc_username c) (hc_password c)
                     | _ \<Rightarrow> SqlserverAuth (hc_username c) (hc_password c)),
                    ac_database = hc_database c\<rparr>, st')))"

definition from_store :: "(handshake_credentials \<Rightarrow> 'a) \<Rightarrow> uuid option \<Rightarrow> credential_store \<Rightarrow> ('a, handshake_error) result" where
  "from_store f sid st =
     (case sid of
        None \<Rightarrow> Err InvalidSessionId
      | Some u \<Rightarrow> (case peek_credentials u st of Some c \<Rightarrow> Ok (f c) | None \<Rightarrow> Err NoCredentials))"

definition hs_get_tls_config :: "uuid option \<Rightarrow> credential_store \<Rightarrow> (tls_client_config option, handshake_error) result" where
  "hs_get_tls_config = from_store (\<lambda>c. if tls_enabled (hc_tls_config c) then Some (hc_tls_config c) else None)"

definition hs_get_session_config :: "uuid option \<Rightarrow> credential_store \<Rightarrow> (session_config, handshake_error) result" where
  "hs_get_session_config = from_store hc_session_config"

definition hs_get_logging_config :: "uuid option \<Rightarrow> credential_store \<Rightarrow> (logging_config option, handshake_error) result" where
  "hs_get_logging_config = from_store hc_logging_config"

definition hs_validate_token :: "ustring \<Rightarrow> token_validation option" where
  "hs_validate_token tok = Some \<lparr>token_valid = True, token_error = None, token_expired = False, record_uid = None\<rparr>"

fun auth_user :: "auth_method \<Rightarrow> bytes" where
  "auth_user (MysqlNative u p) = u" | "auth_user (PostgresScram u p) = u" | "auth_user (SqlserverAuth u p) = u"

fun auth_password :: "auth_method \<Rightarrow> bytes" where
  "auth_password (MysqlNative u p) = p" | "auth_password (PostgresScram u p) = p" | "auth_password (SqlserverAuth u p) = p"

section \<open>Routing\<close>

datatype route_result = RouteHandler database_type | RouteHandshake | RouteRefused

fun route_detected :: "detected \<Rightarrow> route_result" where
  "route_detected DetGateway = RouteHandshake"
| "route_detected DetMySQL = RouteHandler MySQL"
| "route_detected DetPostgreSQL = RouteHandler PostgreSQL"
| "route_detected DetSQLServer = RouteHandler SQLServer"
| "route_detected DetOracle = RouteHandler Oracle"
| "route_detected DetUnknown = RouteRefused"

text \<open>The handshake of a connection, which needs a credential store; then the handler of its database.\<close>

definition handle_handshake :: "bool \<Rightarrow> handshake_env \<Rightarrow> (database_type \<times> handshake_credentials) handshake_step" where
  "handle_handshake gateway_mode env =
     (if \<not> gateway_mode then fail_h ConfigError
      else bind_h (hs_handle env) (\<lambda>creds. return_h (hc_database_type creds, creds)))"

text \<open>
  What the MySQL handler is given after a handshake (\<open>with_session_id_and_target\<close>): target and session from
  the handshake, the provider's answers from the store; no target database and no TLS towards the server.
\<close>

definition mysql_gateway_env :: "mysql_env \<Rightarrow> uuid \<Rightarrow> handshake_credentials \<Rightarrow> credential_store \<Rightarrow> mysql_env" where
  "mysql_gateway_env env sid creds st =
     env\<lparr>target_host := from_utf8_lossy (hc_target_host creds), target_port := hc_target_port creds,
         target_database := None, session_id := sid,
         env_session_uid := map_option from_utf8_lossy (hc_session_uid creds),
         get_session_config := (case hs_get_session_config (Some sid) st of Ok c \<Rightarrow> Some c | Err e \<Rightarrow> None),
         get_auth := (case fst (hs_get_auth (Some sid) st) of
                        Ok a \<Rightarrow> Some \<lparr>cred_username = from_utf8_lossy (auth_user (ac_method a)),
                                    cred_password = Some (from_utf8_lossy (auth_password (ac_method a)))\<rparr>
                      | Err e \<Rightarrow> None),
         validate_token := hs_validate_token\<rparr>"

lemma bind_result_Ok_iff: "bind_result r f = Ok x \<longleftrightarrow> (\<exists>a. r = Ok a \<and> f a = Ok x)"
  by (cases r) simp_all

lemma parse_credentials_Ok:
  assumes "parse_credentials defaults now t i = Ok creds"
  shows "hc_target_host creds = args i ! 0 \<and> hc_username creds = args i ! 2 \<and> hc_password creds = args i ! 3 \<and>
         hc_database_type creds = t \<and> 3 < length (args i) \<and> args i ! 0 \<noteq> [] \<and> args i ! 2 \<noteq> []"
  using assms
  by (auto simp: parse_credentials_def bind_result_Ok_iff nonempty_arg_def port_arg_def required_arg_def inst_arg_def
      split: if_splits option.splits)


section \<open>What the handshake guarantees\<close>

text \<open>
  C10 (functional). However the network cuts what the gateway sends, the handshake ends with exactly its
  parameters in the store: the client gets the list of arguments and the ready instruction, the
  MySQL handler that follows logs in with the user and the password of the connect instruction, and
  a second request for the same session finds nothing.
\<close>

theorem gateway_credentials_delivered:
  assumes "wf_instruction sel" "length (encode_hs_instruction sel) \<le> READ_BUFFER_SIZE" "opcode sel = lit ''select''"
    and "wf_instruction con" "length (encode_hs_instruction con) \<le> READ_BUFFER_SIZE" "opcode con = lit ''connect''"
    and "arrives s (encode_hs_instruction sel @ encode_hs_instruction con)" "write_outcomes s = []"
    and "parse_database_type sel = Ok t"
    and "parse_credentials (session_defaults env) (hs_now env) t con = Ok creds"
  shows "\<exists>s'. handle_handshake True env s = (Some (Ok (t, creds)), s') \<and>
     hs_out s' = hs_out s @ encode_hs_instruction args_instruction @ encode_hs_instruction (ready_instruction (session_text env)) \<and>
     get_auth (mysql_gateway_env menv (hs_session env) creds (hs_store s')) =
       Some \<lparr>cred_username = from_utf8_lossy (args con ! 2), cred_password = Some (from_utf8_lossy (args con ! 3))\<rparr> \<and>
     fst (hs_get_auth (Some (hs_session env)) (snd (hs_get_auth (Some (hs_session env)) (hs_store s')))) = Err NoCredentials"
proof -
  from hs_handle_encoded [OF assms] obtain s' where s': "hs_handle env s = (Some (Ok creds), s')"
    "hs_store s' = (hs_store s)(hs_session env \<mapsto> creds)"
    "hs_out s' = hs_out s @ encode_hs_instruction args_instruction @ encode_hs_instruction (ready_instruction (session_text env))" .
  note p = parse_credentials_Ok [OF assms(10)]
  have "handle_handshake True env s = (Some (Ok (t, creds)), s')"
    using s'(1) p by (simp add: handle_handshake_def bind_h_def return_h_def)
  moreover have "get_auth (mysql_gateway_env menv (hs_session env) creds (hs_store s')) =
       Some \<lparr>cred_username = from_utf8_lossy (args con ! 2), cred_password = Some (from_utf8_lossy (args con ! 3))\<rparr>"
    using p by (simp add: mysql_gateway_env_def hs_get_auth_def take_credentials_def s'(2) split: database_type.split)
  moreover have "fst (hs_get_auth (Some (hs_session env)) (snd (hs_get_auth (Some (hs_session env)) (hs_store s')))) = Err NoCredentials"
    by (simp add: hs_get_auth_def take_credentials_def s'(2) split: database_type.split)
  ultimately show ?thesis using s'(3) by blast
qed

text \<open>A handshake touches the entry of its own session only, and only when the connect instruction is good.\<close>

lemma write_instruction_store: "hs_store (snd (write_instruction i s)) = hs_store s"
  by (simp add: write_instruction_def split: list.split bool.split)

lemma keeps_hs [keeping, simp]:
  "keeps hs_store read_instruction" "keeps hs_store (write_instruction i)" "keeps hs_store (fail_with msg code e)"
  by (auto simp: keeps_def read_instruction_def fail_with_def write_instruction_store split: prod.split)

lemma keeps_expect [keeping, simp]: "keeps hs_store (expect_instruction msg op)"
  unfolding expect_instruction_def by (intro keeps_bind) (simp_all split: if_split)

lemma spec_keeps_store:
  assumes "keeps hs_store m"
  shows "handler_spec (\<lambda>s. hs_store s = st) m (\<lambda>_ s. hs_store s = st) (\<lambda>s. hs_store s = st \<or> G s)"
  using keeps_result [OF assms] by (auto simp: handler_spec_def split: prod.splits option.splits result.splits)

text \<open>
  The store changes in the entry of the connection's own session and in no other, and
  it holds the credentials a successful handshake returns. (A handshake that fails at its very last step,
  the ready instruction, leaves them in the store, where nothing removes them.)
\<close>

lemma handshake_stores_own_session:
  assumes "hs_handle env s = (r, s')"
  shows "case r of
           Some (Ok creds) \<Rightarrow> hs_store s' = (hs_store s)(hs_session env \<mapsto> creds)
         | _ \<Rightarrow> hs_store s' = hs_store s \<or> (\<exists>creds. hs_store s' = (hs_store s)(hs_session env \<mapsto> creds))"
proof -
  let ?st = "hs_store s" and ?sid = "hs_session env"
  let ?F = "\<lambda>s'. hs_store s' = ?st \<or> (\<exists>creds. hs_store s' = ?st(?sid \<mapsto> creds))"
  let ?done = "\<lambda>creds. bind_h (store_step ?sid creds) (\<lambda>_.
    bind_h (write_instruction (ready_instruction (session_text env))) (\<lambda>_. return_h creds))"
  have stored: "handler_spec (\<lambda>s. hs_store s = ?st) (?done creds) (\<lambda>c s. hs_store s = ?st(?sid \<mapsto> c)) ?F" for creds
    by (auto simp: handler_spec_def bind_h_def store_step_def store_credentials_def write_instruction_def return_h_def
        split: list.split bool.split)
  have failed: "handler_spec (\<lambda>s. hs_store s = ?st) m (\<lambda>c s. hs_store s = ?st(?sid \<mapsto> c)) ?F"
    if k: "keeps hs_store m" and m: "\<And>s. \<exists>e s'. m s = (Some (Err e), s')" for m :: "handshake_credentials handshake_step"
    unfolding handler_spec_def
  proof (intro allI impI)
    fix z :: handshake_state
    assume z: "hs_store z = ?st"
    from m obtain e z' where r: "m z = (Some (Err e), z')" by blast
    from keeps_result [OF k r] z show "case m z of
        (Some (Ok c), s) \<Rightarrow> hs_store s = ?st(?sid \<mapsto> c) | (Some (Err _), s) \<Rightarrow> ?F s | (None, s) \<Rightarrow> ?F s"
      by (simp add: r)
  qed
  have last: "handler_spec (\<lambda>s. hs_store s = ?st)
      (case parse_credentials (session_defaults env) (hs_now env) t con of
         Err e \<Rightarrow> fail_with (error_text env) ''INVALID_CREDENTIALS'' e | Ok creds \<Rightarrow> ?done creds)
      (\<lambda>c s. hs_store s = ?st(?sid \<mapsto> c)) ?F" for t con
    by (cases "parse_credentials (session_defaults env) (hs_now env) t con")
      (simp_all add: stored failed fail_with_def)
  have rest: "handler_spec (\<lambda>s. hs_store s = ?st)
      (case parse_database_type sel of
         Err e \<Rightarrow> fail_h (ProtocolError e)
       | Ok t \<Rightarrow> bind_h (write_instruction args_instruction) (\<lambda>_.
           bind_h (expect_instruction (error_text env) ''connect'') (\<lambda>con.
             case parse_credentials (session_defaults env) (hs_now env) t con of
               Err e \<Rightarrow> fail_with (error_text env) ''INVALID_CREDENTIALS'' e | Ok creds \<Rightarrow> ?done creds)))
      (\<lambda>c s. hs_store s = ?st(?sid \<mapsto> c)) ?F" for sel
  proof (cases "parse_database_type sel")
    case (Ok t)
    show ?thesis unfolding Ok result.case
      by (rule spec_bind [OF spec_keeps_store [OF keeps_hs(2)]])
        (rule spec_bind [OF spec_keeps_store [OF keeps_expect]], rule last)
  qed (simp add: handler_spec_def fail_h_def)
  have "handler_spec (\<lambda>s. hs_store s = ?st) (hs_handle env) (\<lambda>c s. hs_store s = ?st(?sid \<mapsto> c)) ?F"
    unfolding hs_handle_def by (rule spec_bind [OF spec_keeps_store [OF keeps_expect]]) (rule rest)
  from this [unfolded handler_spec_def, rule_format, OF refl] assms
  have "case (r, s') of (Some (Ok c), s) \<Rightarrow> hs_store s = ?st(?sid \<mapsto> c) | (Some (Err _), s) \<Rightarrow> ?F s | (None, s) \<Rightarrow> ?F s"
    by simp
  then show ?thesis by (cases r; cases "the r") simp_all
qed

text \<open>
  C38 (safety). The terminator is not escaped: no handshake delivers a host, a user or a password with a
  semicolon in it, whatever the gateway sends.
\<close>

theorem semicolon_never_delivered:
  assumes "hs_handle env s = (Some (Ok creds), s')"
  shows "HS_INST_TERM \<notin> set (hc_target_host creds) \<union> set (hc_username creds) \<union> set (hc_password creds)"
proof -
  from assms obtain sel con s1 s2 t where con: "expect_instruction (error_text env) ''connect'' s1 = (Some (Ok con), s2)"
    and c: "parse_credentials (session_defaults env) (hs_now env) t con = Ok creds"
    by (auto simp: hs_handle_def bind_h_def store_step_def return_h_def fail_h_def fail_with_def
        split: prod.splits option.splits result.splits)
  from con obtain es b where l: "read_loop (incoming s1) (hs_buffer s1) = (Some (Ok con), es, b)"
    by (auto simp: expect_instruction_def bind_h_def read_instruction_def fail_with_def return_h_def
        split: prod.splits option.splits result.splits if_splits)
  obtain buf n where "parse_instruction buf = Some (Ok (con, n))"
    using read_loop_Ok [OF l] by blast
  from read_elements_no_terminator [OF this]
  have n: "k < length (args con) \<Longrightarrow> HS_INST_TERM \<notin> set (args con ! k)" for k by simp
  note p = parse_credentials_Ok [OF c]
  then have l: "3 < length (args con)" by blast
  then have "0 < length (args con)" "2 < length (args con)" by linarith+
  from this [THEN n] n [OF l] p show ?thesis by simp
qed

section \<open>Detection and oddities\<close>

text \<open>The first eight bytes of every instruction with an opcode of up to 9999 bytes are recognised.\<close>

lemma length_dec_bytes: "n < 10 ^ k \<Longrightarrow> 0 < k \<Longrightarrow> length (dec_bytes n) \<le> k"
proof (induction k arbitrary: n)
  case (Suc k)
  show ?case
  proof (cases "n < 10")
    case True
    then show ?thesis by (subst dec_bytes.simps) simp
  next
    case False
    have "n div 10 < 10 ^ k" using Suc.prems(1) by (simp add: less_mult_imp_div_less mult.commute)
    moreover have "0 < k" using False Suc.prems(1) by (cases k) simp_all
    ultimately have "length (dec_bytes (n div 10)) \<le> k" using Suc.IH by blast
    with False show ?thesis by (subst dec_bytes.simps) simp
  qed
qed simp

lemma gateway_detected:
  assumes "length (opcode i) < 10000"
  shows "fst (detect (Peek (take 8 (encode_hs_instruction i)))) = DetGateway"
proof -
  let ?d = "dec_bytes (length (opcode i))"
  let ?r = "opcode i @ concat (map (\<lambda>a. [HS_ARG_SEP] @ encode_part a) (args i)) @ [HS_INST_TERM]"
  have l: "length ?d \<le> 4" using length_dec_bytes [of "length (opcode i)" 4] assms by simp
  have digits: "list_all is_ascii_digit ?d" using dec_bytes_digits by (auto simp: list_all_iff)
  have t: "take 8 (encode_hs_instruction i) = ?d @ HS_ELEM_SEP # take (7 - length ?d) ?r"
    using l by (simp add: encode_hs_instruction_def encode_part_def take_Cons')
  have "1 \<le> length ?d" "1 \<le> length ?r" by (simp_all add: Suc_le_eq)
  then have "3 \<le> length ?d + Suc (min (length ?r) (7 - length ?d))" using l by linarith
  then have "3 \<le> length (take 8 (encode_hs_instruction i))"
    unfolding t by (simp only: length_append length_Cons length_take add_Suc_right)
  moreover have "find_byte HS_ELEM_SEP (take 8 (encode_hs_instruction i)) = Some (length ?d)"
    unfolding t by (rule find_byte_append) (use dec_bytes_no_separator in simp)
  moreover have "take (length ?d) (take 8 (encode_hs_instruction i)) = ?d" unfolding t by simp
  moreover have "hd (take 8 (encode_hs_instruction i)) = hd ?d" "take 8 (encode_hs_instruction i) \<noteq> []"
    unfolding t by simp_all
  moreover have "is_ascii_digit (hd ?d)" using digits by (simp add: list_all_iff)
  ultimately show ?thesis using l digits by (simp add: detect_from_first_byte_def looks_like_gateway_instruction_def)
qed

text \<open>
  A length near the top of the type wraps past the check and panics; a length that spells the word
  of the test for a partial instruction keeps the handshake waiting; an opcode that arrives in
  pieces of fewer than three bytes is not recognised.
\<close>

lemmas instruction_eval =
  lit_def char_byte_def dec_bytes.simps encode_part_def encode_hs_instruction_def HS_ELEM_SEP_def HS_ARG_SEP_def HS_INST_TERM_def

lemma huge_length_panics: "parse_instruction (lit ''18446744073709551615.x;'') = None"
proof -
  have "parse_uint 64 (lit ''18446744073709551615'') = Some 18446744073709551615"
    by (simp add: instruction_eval parse_uint_def is_ascii_digit_def digit_value_def)
  moreover have "from_utf8 (lit ''18446744073709551615'')"
    by (rule from_utf8_ascii) (simp add: is_ascii_def instruction_eval)
  ultimately show ?thesis
    by (simp add: parse_instruction_def instruction_eval parse_elements.simps [of _ 0] usize_add_def)
qed

lemma incomplete_length_waits: "try_parse_buffer (lit ''Incomplete.x;'') = None"
proof -
  have "parse_uint 64 (lit ''Incomplete'') = None" by (simp add: instruction_eval parse_uint_def is_ascii_digit_def)
  moreover have "from_utf8 (lit ''Incomplete'')" by (rule from_utf8_ascii) (simp add: is_ascii_def instruction_eval)
  ultimately show ?thesis
    by (simp add: try_parse_buffer_def parse_instruction_def wants_more_def instruction_eval parse_elements.simps [of _ 0])
qed

lemma short_segment_unknown: "fst (detect (Peek (lit ''6.''))) = DetUnknown"
  by (simp add: instruction_eval detect_from_first_byte_def is_ascii_digit_def looks_like_gateway_instruction_def)

text \<open>A handshake can lift a limit of the configuration with the value zero.\<close>

lemma handshake_lifts_limit:
  assumes "length (args i) > 11" "args i ! 11 = lit ''0''"
  shows "max_queries (session_settings defaults i) = None"
proof -
  have "parse_uint 64 (lit ''0'') = Some 0" "lit ''0'' \<noteq> []"
    by (simp_all add: instruction_eval parse_uint_def is_ascii_digit_def digit_value_def)
  then show ?thesis using assms by (simp add: session_settings_def setting_def given_def inst_arg_def Let_def)
qed

section \<open>Witnesses\<close>

definition sample_select :: instruction where
  "sample_select = \<lparr>opcode = lit ''select'', args = [lit ''mysql'']\<rparr>"

definition sample_connect :: instruction where
  "sample_connect = \<lparr>opcode = lit ''connect'', args = map lit [''db'', ''3306'', ''root'', ''pw'']\<rparr>"

definition sample_hs_env :: handshake_env where
  "sample_hs_env = \<lparr>hs_session = 7, session_text = lit ''7'', session_defaults = None, hs_now = 0, error_text = \<lambda>_. []\<rparr>"

text \<open>The instructions of the handshake arrive in two pieces, the first of which ends inside the second one.\<close>

definition sample_stream :: bytes where
  "sample_stream = encode_hs_instruction sample_select @ encode_hs_instruction sample_connect"

definition sample_handshake :: handshake_state where
  "sample_handshake =
     \<lparr>incoming = map Chunk [take 20 sample_stream, drop 20 sample_stream], hs_buffer = [], hs_out = [],
      write_outcomes = [], hs_store = Map.empty\<rparr>"

definition sample_creds :: handshake_credentials where
  "sample_creds =
     \<lparr>hc_database_type = MySQL, hc_target_host = lit ''db'', hc_target_port = 3306, hc_username = lit ''root'',
      hc_password = lit ''pw'', hc_database = None,
      hc_tls_config = \<lparr>tls_enabled = False, verify_mode = Verify, ca_path = None\<rparr>,
      hc_session_config = session_settings None sample_connect, hc_session_uid = None, hc_logging_config = None, stored_at = 0\<rparr>"

lemma sample_wf:
  "wf_instruction sample_select" "length (encode_hs_instruction sample_select) \<le> READ_BUFFER_SIZE" "opcode sample_select = lit ''select''"
  "wf_instruction sample_connect" "length (encode_hs_instruction sample_connect) \<le> READ_BUFFER_SIZE" "opcode sample_connect = lit ''connect''"
  by (simp_all add: wf_instruction_def sample_select_def sample_connect_def instruction_eval from_utf8_ascii is_ascii_def
      READ_BUFFER_SIZE_def)

lemma sample_parsed:
  "parse_database_type sample_select = Ok MySQL"
  "parse_credentials (session_defaults sample_hs_env) (hs_now sample_hs_env) MySQL sample_connect = Ok sample_creds"
  by (simp_all add: parse_database_type_def parse_credentials_def sample_select_def sample_connect_def sample_hs_env_def
      sample_creds_def nonempty_arg_def port_arg_def required_arg_def inst_arg_def given_def parse_logging_config_def
      parse_uint_def is_ascii_digit_def digit_value_def ascii_lower_def lit_def char_byte_def)

lemma sample_arrives: "arrives sample_handshake (encode_hs_instruction sample_select @ encode_hs_instruction sample_connect)"
proof -
  have "take 20 sample_stream \<noteq> []" "drop 20 sample_stream \<noteq> []"
    by (simp_all add: sample_stream_def sample_select_def sample_connect_def instruction_eval)
  then show ?thesis
    unfolding arrives_def
    by (intro exI [of _ "[take 20 sample_stream, drop 20 sample_stream]"])
      (simp add: sample_handshake_def sample_stream_def [symmetric])
qed

theorem gateway_credentials_delivered_witness:
  "\<exists>s' :: handshake_state. get_auth (mysql_gateway_env sample_env 7 sample_creds (hs_store s')) =
          Some \<lparr>cred_username = ustr ''root'', cred_password = Some (ustr ''pw'')\<rparr>"
proof -
  have "write_outcomes sample_handshake = []" by (simp add: sample_handshake_def)
  from gateway_credentials_delivered [OF sample_wf sample_arrives this sample_parsed, of sample_env]
  obtain s' :: handshake_state where "get_auth (mysql_gateway_env sample_env 7 sample_creds (hs_store s')) =
      Some \<lparr>cred_username = from_utf8_lossy (args sample_connect ! 2),
            cred_password = Some (from_utf8_lossy (args sample_connect ! 3))\<rparr>"
    by (auto simp: sample_hs_env_def)
  moreover have "from_utf8_lossy (args sample_connect ! 2) = ustr ''root''" "from_utf8_lossy (args sample_connect ! 3) = ustr ''pw''"
    by code_simp+
  ultimately show ?thesis by auto
qed

lemma sample_hs_handle: "\<exists>s'. hs_handle sample_hs_env sample_handshake = (Some (Ok sample_creds), s')"
  by (rule hs_handle_encoded [OF sample_wf sample_arrives _ sample_parsed])
    (auto simp: sample_handshake_def)

theorem semicolon_never_delivered_witness: "HS_INST_TERM \<notin> set (lit ''pw'')"
proof -
  obtain s' where s': "hs_handle sample_hs_env sample_handshake = (Some (Ok sample_creds), s')"
    using sample_hs_handle by blast
  from semicolon_never_delivered [OF s'] show ?thesis by (simp add: sample_creds_def)
qed

end
