(* ===== verification/Handler_Security.thy ===== *)
theory Handler_Security
  imports Prelude
begin

text \<open>
  \<open>guacr-handlers/src/security.rs\<close>: the restrictions of a session - read-only mode, clipboard, transfer and
  navigation limits - as they are parsed from the connection parameters, and the decisions the protocol
  handlers take from them. Strings are their characters. The upper and lower case of a character
  outside ASCII is a parameter, a function that agrees with the usual table on ASCII.
\<close>

section \<open>Strings\<close>

fun split_char :: "uchar \<Rightarrow> ustring \<Rightarrow> ustring list" where
  "split_char sep [] = [[]]"
| "split_char sep (c # cs) =
     (if c = sep then [] # split_char sep cs
      else case split_char sep cs of p # ps \<Rightarrow> (c # p) # ps | [] \<Rightarrow> [[c]])"

fun contains_str :: "ustring \<Rightarrow> ustring \<Rightarrow> bool" where
  "contains_str p [] = (p = [])"
| "contains_str p (c # cs) = (take (length p) (c # cs) = p \<or> contains_str p cs)"

definition starts_with :: "ustring \<Rightarrow> ustring \<Rightarrow> bool" where
  "starts_with p s \<longleftrightarrow> take (length p) s = p"

text \<open>\<open>str::parse\<close> of an unsigned type of \<open>w\<close> bits.\<close>

definition parse_number :: "nat \<Rightarrow> ustring \<Rightarrow> nat option" where
  "parse_number w s = (if list_all (\<lambda>c. c < 128) s then parse_uint w (map of_nat s) else None)"

definition ascii_upper_char :: "uchar \<Rightarrow> uchar" where
  "ascii_upper_char c = (if 97 \<le> c \<and> c \<le> 122 then c - 32 else c)"

text \<open>The mapping \<open>up\<close> gives the characters a character turns into.\<close>

definition to_uppercase :: "(uchar \<Rightarrow> ustring) \<Rightarrow> ustring \<Rightarrow> ustring" where
  "to_uppercase up s = concat (map up s)"

definition upper_ok :: "(uchar \<Rightarrow> ustring) \<Rightarrow> bool" where
  "upper_ok up \<longleftrightarrow> (\<forall>c < 128. up c = [ascii_upper_char c])"

section \<open>Settings\<close>

type_synonym conn_params = "ustring \<Rightarrow> ustring option"

record security_settings =
  read_only :: bool
  disable_copy :: bool
  disable_paste :: bool
  clipboard_buffer_size :: nat
  connection_timeout_secs :: nat
  idle_timeout_secs :: nat
  max_session_duration_secs :: nat
  wol_send_packet :: bool
  wol_mac_addr :: "ustring option"
  wol_broadcast_addr :: ustring
  wol_udp_port :: nat
  wol_wait_time :: nat

definition CLIPBOARD_MIN_SIZE :: nat where "CLIPBOARD_MIN_SIZE = 256 * 1024"
definition CLIPBOARD_MAX_SIZE :: nat where "CLIPBOARD_MAX_SIZE = 50 * 1024 * 1024"
definition CLIPBOARD_DEFAULT_SIZE :: nat where "CLIPBOARD_DEFAULT_SIZE = 1024 * 1024"
definition DEFAULT_CONNECTION_TIMEOUT_SECS :: nat where "DEFAULT_CONNECTION_TIMEOUT_SECS = 15"

definition parse_bool :: "ustring option \<Rightarrow> bool" where
  "parse_bool v = (case v of Some s \<Rightarrow> s = ustr ''true'' \<or> s = ustr ''1'' | None \<Rightarrow> False)"

definition number_param :: "nat \<Rightarrow> ustring option \<Rightarrow> nat \<Rightarrow> nat" where
  "number_param w v fallback =
     (case v of Some s \<Rightarrow> (case parse_number w s of Some n \<Rightarrow> n | None \<Rightarrow> fallback) | None \<Rightarrow> fallback)"

definition security_from_params :: "conn_params \<Rightarrow> security_settings" where
  "security_from_params ps =
     \<lparr>read_only = parse_bool (ps (ustr ''read-only'')),
      disable_copy = parse_bool (ps (ustr ''disable-copy'')),
      disable_paste = parse_bool (ps (ustr ''disable-paste'')),
      clipboard_buffer_size =
        max CLIPBOARD_MIN_SIZE (min CLIPBOARD_MAX_SIZE
          (number_param 64 (ps (ustr ''clipboard-buffer-size'')) CLIPBOARD_DEFAULT_SIZE)),
      connection_timeout_secs =
        number_param 64 (case ps (ustr ''timeout'') of Some s \<Rightarrow> Some s | None \<Rightarrow> ps (ustr ''connection-timeout''))
          DEFAULT_CONNECTION_TIMEOUT_SECS,
      idle_timeout_secs = number_param 64 (ps (ustr ''idle-timeout'')) 0,
      max_session_duration_secs = number_param 64 (ps (ustr ''max-session-duration'')) 0,
      wol_send_packet = parse_bool (ps (ustr ''wol-send-packet'')),
      wol_mac_addr = ps (ustr ''wol-mac-addr''),
      wol_broadcast_addr = (case ps (ustr ''wol-broadcast-addr'') of Some s \<Rightarrow> s | None \<Rightarrow> ustr ''255.255.255.255''),
      wol_udp_port = number_param 16 (ps (ustr ''wol-udp-port'')) 9,
      wol_wait_time = number_param 32 (ps (ustr ''wol-wait-time'')) 0\<rparr>"

definition is_copy_allowed :: "security_settings \<Rightarrow> bool" where
  "is_copy_allowed s \<longleftrightarrow> \<not> disable_copy s"

definition is_paste_allowed :: "security_settings \<Rightarrow> bool" where
  "is_paste_allowed s \<longleftrightarrow> \<not> disable_paste s \<and> \<not> read_only s"

definition is_keyboard_allowed :: "security_settings \<Rightarrow> bool" where
  "is_keyboard_allowed s \<longleftrightarrow> \<not> read_only s"

definition is_mouse_click_allowed :: "security_settings \<Rightarrow> bool" where
  "is_mouse_click_allowed s \<longleftrightarrow> \<not> read_only s"

definition is_upload_allowed :: "security_settings \<Rightarrow> bool" where
  "is_upload_allowed s \<longleftrightarrow> \<not> read_only s"

definition is_file_modification_allowed :: "security_settings \<Rightarrow> bool" where
  "is_file_modification_allowed s \<longleftrightarrow> \<not> read_only s"

section \<open>Input events\<close>

datatype read_only_behavior =
  TerminalReadOnly | GraphicalReadOnly | DatabaseReadOnly | SftpReadOnly | BrowserReadOnly

definition behavior_for_protocol :: "(ustring \<Rightarrow> ustring) \<Rightarrow> ustring \<Rightarrow> read_only_behavior" where
  "behavior_for_protocol lower protocol =
     (let p = lower protocol
      in if p \<in> set (map ustr [''ssh'', ''telnet'']) then TerminalReadOnly
         else if p \<in> set (map ustr [''rdp'', ''vnc'']) then GraphicalReadOnly
         else if p \<in> set (map ustr [''mysql'', ''postgresql'', ''postgres'', ''sqlserver'', ''mssql'', ''oracle'',
                                     ''mongodb'', ''redis'']) then DatabaseReadOnly
         else if p = ustr ''sftp'' then SftpReadOnly
         else if p \<in> set (map ustr [''rbi'', ''http'', ''browser'']) then BrowserReadOnly
         else TerminalReadOnly)"

definition is_keyboard_event_allowed_readonly :: "u32 \<Rightarrow> bool \<Rightarrow> bool" where
  "is_keyboard_event_allowed_readonly keysym ctrl_pressed \<longleftrightarrow>
     ctrl_pressed \<and> (keysym = 0x63 \<or> keysym = 0x43) \<or> keysym = 0x03"

definition is_mouse_event_allowed_readonly :: "u32 \<Rightarrow> bool" where
  "is_mouse_event_allowed_readonly button_mask \<longleftrightarrow> button_mask AND 0x07 = 0"

section \<open>Databases\<close>

record database_security =
  db_base :: security_settings
  disable_csv_export :: bool
  disable_csv_import :: bool

definition database_from_params :: "conn_params \<Rightarrow> database_security" where
  "database_from_params ps =
     \<lparr>db_base = security_from_params ps,
      disable_csv_export = parse_bool (ps (ustr ''disable-csv-export'')),
      disable_csv_import = parse_bool (ps (ustr ''disable-csv-import''))\<rparr>"

definition is_csv_export_allowed :: "database_security \<Rightarrow> bool" where
  "is_csv_export_allowed s \<longleftrightarrow> \<not> disable_csv_export s"

definition is_csv_import_allowed :: "database_security \<Rightarrow> bool" where
  "is_csv_import_allowed s \<longleftrightarrow> \<not> disable_csv_import s \<and> \<not> read_only (db_base s)"

datatype query_type = ReadOnlyQuery | ModifyingQuery | UnknownQuery

definition read_only_words :: "ustring list" where
  "read_only_words =
     map ustr [''SELECT'', ''SHOW'', ''DESCRIBE'', ''DESC'', ''EXPLAIN'', ''HELP'', ''USE''] @
     map (\<lambda>w. 92 # ustr w) [''D'', ''DT'', ''L'', ''C'', ''?'', ''H''] @
     map ustr [''BEGIN'', ''START'', ''COMMIT'', ''ROLLBACK'', ''SAVEPOINT'', ''RELEASE'']"

definition modifying_words :: "ustring list" where
  "modifying_words =
     map ustr [''INSERT'', ''UPDATE'', ''DELETE'', ''DROP'', ''ALTER'', ''CREATE'', ''TRUNCATE'', ''REPLACE'', ''GRANT'',
       ''REVOKE'', ''RENAME'', ''LOAD'', ''CALL'', ''EXEC'', ''EXECUTE'', ''MERGE'', ''UPSERT'', ''SET'', ''RESET'', ''KILL'',
       ''FLUSH'', ''OPTIMIZE'', ''ANALYZE'', ''REPAIR'', ''VACUUM'', ''REINDEX'', ''CLUSTER'']"

definition first_word :: "ustring \<Rightarrow> ustring" where
  "first_word q = takeWhile (\<lambda>c. \<not> (is_whitespace c \<or> c = 40)) q"

definition classify_sql_query :: "(uchar \<Rightarrow> ustring) \<Rightarrow> ustring \<Rightarrow> query_type" where
  "classify_sql_query up query =
     (let q = trim query
      in if q = [] then UnknownQuery
         else let w = to_uppercase up (first_word q)
              in if w \<in> set read_only_words then ReadOnlyQuery
                 else if w \<in> set modifying_words then ModifyingQuery
                 else UnknownQuery)"

datatype query_refusal = ModifyingBlocked | UnrecognizedBlocked

definition check_sql_query_allowed ::
  "(uchar \<Rightarrow> ustring) \<Rightarrow> ustring \<Rightarrow> database_security \<Rightarrow> (unit, query_refusal) result" where
  "check_sql_query_allowed up query s =
     (if \<not> read_only (db_base s) then Ok ()
      else case classify_sql_query up query of
             ReadOnlyQuery \<Rightarrow> Ok ()
           | ModifyingQuery \<Rightarrow> Err ModifyingBlocked
           | UnknownQuery \<Rightarrow> Err UnrecognizedBlocked)"

definition is_mysql_export_query :: "(uchar \<Rightarrow> ustring) \<Rightarrow> ustring \<Rightarrow> bool" where
  "is_mysql_export_query up q \<longleftrightarrow>
     contains_str (ustr ''INTO OUTFILE'') (to_uppercase up q) \<or> contains_str (ustr ''INTO LOCAL OUTFILE'') (to_uppercase up q)"

definition is_mysql_import_query :: "(uchar \<Rightarrow> ustring) \<Rightarrow> ustring \<Rightarrow> bool" where
  "is_mysql_import_query up q \<longleftrightarrow>
     contains_str (ustr ''LOAD DATA'') (to_uppercase up q) \<or> contains_str (ustr ''LOAD LOCAL DATA'') (to_uppercase up q)"

definition is_postgres_copy_out :: "(uchar \<Rightarrow> ustring) \<Rightarrow> ustring \<Rightarrow> bool" where
  "is_postgres_copy_out up q \<longleftrightarrow>
     starts_with (ustr ''COPY'') (to_uppercase up q) \<and> contains_str (ustr ''TO STDOUT'') (to_uppercase up q)"

definition is_postgres_copy_in :: "(uchar \<Rightarrow> ustring) \<Rightarrow> ustring \<Rightarrow> bool" where
  "is_postgres_copy_in up q \<longleftrightarrow>
     starts_with (ustr ''COPY'') (to_uppercase up q) \<and> contains_str (ustr ''FROM STDIN'') (to_uppercase up q)"

section \<open>File transfer\<close>

record sftp_security =
  sftp_base :: security_settings
  root_directory :: "ustring option"
  sftp_disable_download :: bool
  sftp_disable_upload :: bool
  max_upload_size :: nat

definition sftp_from_params :: "conn_params \<Rightarrow> sftp_security" where
  "sftp_from_params ps =
     \<lparr>sftp_base = security_from_params ps,
      root_directory = ps (ustr ''sftp-root-directory''),
      sftp_disable_download =
        (parse_bool (ps (ustr ''sftp-disable-download'')) \<or> parse_bool (ps (ustr ''disable-copy''))),
      sftp_disable_upload = (parse_bool (ps (ustr ''sftp-disable-upload'')) \<or> parse_bool (ps (ustr ''read-only''))),
      max_upload_size = number_param 64 (ps (ustr ''sftp-max-upload-size'')) 0\<rparr>"

datatype sftp_operation =
  SftpRead | SftpList | SftpStat | SftpDownload | SftpUpload | SftpDelete | SftpRename | SftpMkdir | SftpRmdir

fun is_file_operation_allowed :: "sftp_security \<Rightarrow> sftp_operation \<Rightarrow> bool" where
  "is_file_operation_allowed s SftpRead = True"
| "is_file_operation_allowed s SftpList = True"
| "is_file_operation_allowed s SftpStat = True"
| "is_file_operation_allowed s SftpDownload = (\<not> sftp_disable_download s)"
| "is_file_operation_allowed s SftpUpload = (\<not> sftp_disable_upload s \<and> \<not> read_only (sftp_base s))"
| "is_file_operation_allowed s SftpDelete = (\<not> read_only (sftp_base s))"
| "is_file_operation_allowed s SftpRename = (\<not> read_only (sftp_base s))"
| "is_file_operation_allowed s SftpMkdir = (\<not> read_only (sftp_base s))"
| "is_file_operation_allowed s SftpRmdir = (\<not> read_only (sftp_base s))"

section \<open>Browsing\<close>

record rbi_security =
  rbi_base :: security_settings
  rbi_disable_download :: bool
  rbi_disable_upload :: bool
  rbi_disable_print :: bool
  url_allowlist :: "ustring list"
  url_blocklist :: "ustring list"

definition pattern_list :: "ustring option \<Rightarrow> ustring list" where
  "pattern_list v = (case v of Some s \<Rightarrow> map trim (split_char 44 s) | None \<Rightarrow> [])"

definition rbi_from_params :: "conn_params \<Rightarrow> rbi_security" where
  "rbi_from_params ps =
     \<lparr>rbi_base = security_from_params ps,
      rbi_disable_download = parse_bool (ps (ustr ''rbi-disable-download'')),
      rbi_disable_upload = (parse_bool (ps (ustr ''rbi-disable-upload'')) \<or> parse_bool (ps (ustr ''read-only''))),
      rbi_disable_print = parse_bool (ps (ustr ''rbi-disable-print'')),
      url_allowlist = pattern_list (ps (ustr ''rbi-url-allowlist'')),
      url_blocklist = pattern_list (ps (ustr ''rbi-url-blocklist''))\<rparr>"

definition is_url_allowed :: "rbi_security \<Rightarrow> ustring \<Rightarrow> bool" where
  "is_url_allowed s url =
     (if url_allowlist s \<noteq> [] then list_ex (\<lambda>p. contains_str p url) (url_allowlist s)
      else if url_blocklist s \<noteq> [] then \<not> list_ex (\<lambda>p. contains_str p url) (url_blocklist s)
      else True)"

definition is_rbi_upload_allowed :: "rbi_security \<Rightarrow> bool" where
  "is_rbi_upload_allowed s \<longleftrightarrow> \<not> rbi_disable_upload s \<and> \<not> read_only (rbi_base s)"


section \<open>What read-only mode prevents\<close>

lemma ustr_simps [simp]: "ustr [] = []" "ustr (c # cs) = of_char c # ustr cs"
  by (simp_all add: ustr_def)

lemma clipboard_bounds:
  "CLIPBOARD_MIN_SIZE \<le> clipboard_buffer_size (security_from_params ps) \<and>
   clipboard_buffer_size (security_from_params ps) \<le> CLIPBOARD_MAX_SIZE"
  by (simp add: security_from_params_def CLIPBOARD_MIN_SIZE_def CLIPBOARD_MAX_SIZE_def)

text \<open>One parameter switches it on in the settings of every kind of handler.\<close>

lemma read_only_everywhere:
  assumes "ps (ustr ''read-only'') = Some (ustr v)" "v = ''true'' \<or> v = ''1''"
  shows "\<not> is_paste_allowed (security_from_params ps) \<and> \<not> is_keyboard_allowed (security_from_params ps) \<and>
         \<not> is_mouse_click_allowed (security_from_params ps) \<and> \<not> is_upload_allowed (security_from_params ps) \<and>
         \<not> is_file_modification_allowed (security_from_params ps) \<and> \<not> is_csv_import_allowed (database_from_params ps) \<and>
         \<not> is_rbi_upload_allowed (rbi_from_params ps) \<and>
         (is_file_operation_allowed (sftp_from_params ps) op \<longrightarrow> op \<in> {SftpRead, SftpList, SftpStat, SftpDownload})"
proof -
  have ro: "read_only (security_from_params ps)" using assms by (auto simp: security_from_params_def parse_bool_def)
  then show ?thesis
    by (cases op) (simp_all add: is_paste_allowed_def is_keyboard_allowed_def is_mouse_click_allowed_def is_upload_allowed_def is_file_modification_allowed_def
        is_csv_import_allowed_def is_rbi_upload_allowed_def database_from_params_def rbi_from_params_def sftp_from_params_def)
qed

lemma words_disjoint: "\<forall>w \<in> set read_only_words. w \<notin> set modifying_words"
  by code_simp

lemma query_allowed_iff:
  "read_only (db_base s) \<Longrightarrow>
     check_sql_query_allowed up q s = Ok () \<longleftrightarrow>
       trim q \<noteq> [] \<and> to_uppercase up (first_word (trim q)) \<in> set read_only_words"
  by (auto simp: check_sql_query_allowed_def classify_sql_query_def Let_def split: query_type.splits if_splits)

text \<open>Trimming stops at a character that is not white space.\<close>

lemma trim_around:
  assumes "\<not> is_whitespace a" "\<not> is_whitespace b"
  shows "trim (a # xs @ b # q) = a # xs @ b # rev (dropWhile is_whitespace (rev q))"
proof -
  have "dropWhile is_whitespace (rev q @ b # rev xs @ [a]) = dropWhile is_whitespace (rev q) @ b # rev xs @ [a]"
  proof (cases "\<forall>x \<in> set q. is_whitespace x")
    case True
    then have "dropWhile is_whitespace (rev q) = []" by simp
    with True assms(2) show ?thesis by (subst dropWhile_append2) simp_all
  next
    case False
    then obtain x where "x \<in> set (rev q)" "\<not> is_whitespace x" by auto
    then show ?thesis by (rule dropWhile_append1)
  qed
  with assms(1) show ?thesis by (simp add: trim_def)
qed

text \<open>
  Read-only mode looks at the first word of the whole text only: with a harmless statement in
  front, every statement is let through to the server.
\<close>

lemma read_only_smuggled:
  assumes "upper_ok up" "read_only (db_base s)"
  shows "check_sql_query_allowed up (ustr ''SELECT 1;'' @ q) s = Ok ()"
proof -
  let ?q = "rev (dropWhile is_whitespace (rev q))"
  have "trim (83 # map nat [69, 76, 69, 67, 84, 32, 49] @ 59 # q) = 83 # map nat [69, 76, 69, 67, 84, 32, 49] @ 59 # ?q"
    by (rule trim_around) (simp_all add: is_whitespace_def)
  then have t: "trim (ustr ''SELECT 1;'' @ q) = ustr ''SELECT 1;'' @ ?q" by simp
  have "first_word (ustr ''SELECT 1;'' @ ?q) = ustr ''SELECT''" by (simp add: first_word_def is_whitespace_def)
  moreover have "to_uppercase up (ustr ''SELECT'') = ustr ''SELECT''"
    using assms(1) by (simp add: to_uppercase_def upper_ok_def ascii_upper_char_def)
  ultimately show ?thesis
    using assms(2) t by (simp add: query_allowed_iff read_only_words_def)
qed

section \<open>What the lists of addresses decide\<close>

lemma contains_str_around: "contains_str p (xs @ p @ ys)"
proof (induction xs)
  case Nil
  show ?case
  proof (cases "p @ ys")
    case (Cons c cs)
    then have "take (length p) (c # cs) = p" by (metis append_eq_conv_conj)
    with Cons show ?thesis by simp
  qed simp
next
  case (Cons x xs)
  then show ?case by simp
qed

text \<open>
  An allowed pattern is looked for anywhere in an address: whoever puts it into a path or a
  query of an address of his own is let through, and with an allow list the block list is not consulted.
\<close>

lemma url_pattern_anywhere:
  assumes "p \<in> set (url_allowlist s)"
  shows "is_url_allowed (s\<lparr>url_blocklist := bs\<rparr>) (xs @ p @ ys)"
proof -
  have "list_ex (\<lambda>p. contains_str p (xs @ p' @ ys)) (url_allowlist s)" if "p' = p" for p'
    using assms contains_str_around that by (auto simp: list_ex_iff)
  with assms show ?thesis by (auto simp: is_url_allowed_def)
qed

lemma split_char_nonempty [simp]: "split_char sep xs \<noteq> []"
  by (induction xs) (auto split: list.split)

lemma split_char_snoc: "split_char sep (xs @ [sep]) = split_char sep xs @ [[]]"
  by (induction xs) (auto split: list.split)

lemma trim_Nil [simp]: "trim [] = []"
  by (simp add: trim_def)

text \<open>
  A comma at the end of a list, or an empty list that is given, is an empty pattern, which every address
  contains: such an allow list allows everything and such a block list blocks everything.
\<close>

lemma trailing_comma_matches_all:
  assumes "ps (ustr ''rbi-url-allowlist'') = Some (v @ [44])"
  shows "is_url_allowed (rbi_from_params ps) url"
proof -
  have "[] \<in> set (url_allowlist (rbi_from_params ps))"
    using assms by (simp add: rbi_from_params_def pattern_list_def split_char_snoc)
  moreover have "contains_str [] url" by (cases url) simp_all
  ultimately show ?thesis by (auto simp: is_url_allowed_def list_ex_iff)
qed

end
