(* ===== verification/Host_Key.thy ===== *)
theory Host_Key
  imports Handler_Security
begin

text \<open>
  \<open>guacr-handlers/src/host_key.rs\<close>: the verification of SSH host keys against a pinned fingerprint or a
  known-hosts file, and the decision the SSH and SFTP handlers take from it. SHA-256, HMAC-SHA1, base64 and
  the case mapping are parameters. The hash map of host names is a list of its entries in the order in
  which it happens to be iterated; no theorem depends on that order.
\<close>

section \<open>Parameters and configuration\<close>

record host_key_env =
  hk_sha256 :: "bytes \<Rightarrow> bytes"
  hk_hmac_sha1 :: "bytes \<Rightarrow> ustring \<Rightarrow> bytes"
  hk_encode :: "bytes \<Rightarrow> ustring"
  hk_decode :: "ustring \<Rightarrow> bytes option"
  hk_lower :: "ustring \<Rightarrow> ustring"

record host_key_config =
  ignore_host_key :: bool
  known_hosts_path :: "ustring option"
  allow_unknown_hosts :: bool
  host_key_fingerprint :: "ustring option"

definition host_key_from_params :: "conn_params \<Rightarrow> host_key_config" where
  "host_key_from_params ps =
     \<lparr>ignore_host_key = parse_bool (ps (ustr ''ignore-host-key'')),
      known_hosts_path = ps (ustr ''known-hosts''),
      allow_unknown_hosts = parse_bool (ps (ustr ''allow-unknown-hosts'')),
      host_key_fingerprint = ps (ustr ''host-key'')\<rparr>"

definition has_verification :: "host_key_config \<Rightarrow> bool" where
  "has_verification c \<longleftrightarrow>
     \<not> ignore_host_key c \<and> (known_hosts_path c \<noteq> None \<or> host_key_fingerprint c \<noteq> None)"

datatype host_key_result = Verified | Mismatch ustring ustring | UnknownHost | Skipped | NotConfigured

fun is_allowed :: "host_key_result \<Rightarrow> host_key_config \<Rightarrow> bool" where
  "is_allowed Verified c = True"
| "is_allowed Skipped c = True"
| "is_allowed NotConfigured c = True"
| "is_allowed UnknownHost c = allow_unknown_hosts c"
| "is_allowed (Mismatch e a) c = False"

section \<open>The known-hosts file\<close>

record known_host =
  key_type :: ustring
  key_data :: ustring

type_synonym known_hosts = "(ustring \<times> known_host list) list"

record verifier =
  hk_config :: host_key_config
  known_hosts :: known_hosts

text \<open>\<open>entry(host).or_default().push(..)\<close>\<close>

fun add_known_host :: "ustring \<Rightarrow> known_host \<Rightarrow> known_hosts \<Rightarrow> known_hosts" where
  "add_known_host h k [] = [(h, [k])]"
| "add_known_host h k ((h', ks) # m) = (if h' = h then (h', ks @ [k]) # m else (h', ks) # add_known_host h k m)"

definition normalize_hostname :: "ustring \<Rightarrow> ustring" where
  "normalize_hostname host =
     (case host of
        [] \<Rightarrow> host
      | c # rest \<Rightarrow> (if c = 91 \<and> 93 \<in> set rest then takeWhile (\<lambda>c. c \<noteq> 93) rest else host))"

definition parse_known_hosts_line :: "ustring \<Rightarrow> (ustring list \<times> known_host) option" where
  "parse_known_hosts_line line =
     (case split_whitespace line of
        hosts # kt # kd # _ \<Rightarrow>
          Some (if starts_with (ustr ''|1|'') hosts then [hosts] else map normalize_hostname (split_char 44 hosts),
                \<lparr>key_type = kt, key_data = kd\<rparr>)
      | _ \<Rightarrow> None)"

definition load_line :: "ustring \<Rightarrow> known_hosts \<Rightarrow> known_hosts" where
  "load_line l m =
     (let line = trim l
      in if line = [] \<or> starts_with (ustr ''#'') line then m
         else case parse_known_hosts_line line of
                None \<Rightarrow> m
              | Some (hosts, k) \<Rightarrow> fold (\<lambda>h. add_known_host h k) hosts m)"

text \<open>The lines of the file, or \<open>None\<close> when it is missing or cannot be read.\<close>

definition new_verifier :: "(ustring \<Rightarrow> ustring list option) \<Rightarrow> host_key_config \<Rightarrow> verifier" where
  "new_verifier read_file c =
     \<lparr>hk_config = c,
      known_hosts = (case known_hosts_path c of
                       None \<Rightarrow> []
                     | Some path \<Rightarrow> (case read_file path of None \<Rightarrow> [] | Some ls \<Rightarrow> fold load_line ls []))\<rparr>"

section \<open>Verification\<close>

definition trim_end_char :: "uchar \<Rightarrow> ustring \<Rightarrow> ustring" where
  "trim_end_char c s = rev (dropWhile (\<lambda>d. d = c) (rev s))"

definition calculate_fingerprint :: "host_key_env \<Rightarrow> bytes \<Rightarrow> ustring" where
  "calculate_fingerprint env k = trim_end_char 61 (hk_encode env (hk_sha256 env k))"

function trim_start_matches :: "ustring \<Rightarrow> ustring \<Rightarrow> ustring" where
  "trim_start_matches p s =
     (if p \<noteq> [] \<and> starts_with p s then trim_start_matches p (drop (length p) s) else s)"
  by pat_completeness auto
termination
proof (relation "measure (\<lambda>(p, s). length s)")
  fix p s :: ustring
  assume a: "p \<noteq> [] \<and> starts_with p s"
  then have "take (length p) s = p" "p \<noteq> []" by (simp_all add: starts_with_def)
  then have "length p \<le> length s" "0 < length p" by (metis length_take min.cobounded1 min.commute, simp)
  then show "((p, drop (length p) s), p, s) \<in> measure (\<lambda>(p, s). length s)"
    by (simp add: diff_less_mono2 del: length_greater_0_conv)
qed simp

declare trim_start_matches.simps [simp del]

definition normalize_fingerprint :: "ustring \<Rightarrow> ustring" where
  "normalize_fingerprint fp = trim_start_matches (ustr ''sha256:'') (trim_start_matches (ustr ''SHA256:'') fp)"

definition shown :: "ustring \<Rightarrow> ustring" where
  "shown fp = ustr ''SHA256:'' @ fp"

definition hostname_variants :: "host_key_env \<Rightarrow> ustring \<Rightarrow> u16 \<Rightarrow> ustring list" where
  "hostname_variants env hostname port =
     (let bracket = (\<lambda>h. ustr ''['' @ h @ ustr '']:'' @ map unat (dec_bytes (unat port)));
          lower = hk_lower env hostname
      in [hostname] @ (if port \<noteq> 22 then [bracket hostname] else []) @
         (if lower \<noteq> hostname then [lower] @ (if port \<noteq> 22 then [bracket lower] else []) else []))"

text \<open>The first entry of the key's type whose data can be decoded decides.\<close>

fun check_entries :: "host_key_env \<Rightarrow> ustring \<Rightarrow> bytes \<Rightarrow> known_host list \<Rightarrow> host_key_result option" where
  "check_entries env kt k [] = None"
| "check_entries env kt k (e # es) =
     (if key_type e \<noteq> kt then check_entries env kt k es
      else case hk_decode env (key_data e) of
             None \<Rightarrow> check_entries env kt k es
           | Some known \<Rightarrow>
               Some (if known = k then Verified
                     else Mismatch (shown (calculate_fingerprint env known)) (shown (calculate_fingerprint env k))))"

text \<open>\<open>|1|salt|hash\<close> for a host name.\<close>

definition hashed_matches :: "host_key_env \<Rightarrow> ustring \<Rightarrow> ustring \<Rightarrow> bool" where
  "hashed_matches env hostname stored \<longleftrightarrow>
     starts_with (ustr ''|1|'') stored \<and>
     (case split_char 124 stored of
        [_, _, salt, hash] \<Rightarrow>
          (case (hk_decode env salt, hk_decode env hash) of
             (Some s, Some h) \<Rightarrow> hk_hmac_sha1 env s hostname = h
           | _ \<Rightarrow> False)
      | _ \<Rightarrow> False)"

fun check_hashed_entries :: "host_key_env \<Rightarrow> ustring \<Rightarrow> ustring \<Rightarrow> bytes \<Rightarrow> known_hosts \<Rightarrow> host_key_result option" where
  "check_hashed_entries env hostname kt k [] = None"
| "check_hashed_entries env hostname kt k ((stored, es) # m) =
     (case (if hashed_matches env hostname stored then check_entries env kt k es else None) of
        Some r \<Rightarrow> Some r
      | None \<Rightarrow> check_hashed_entries env hostname kt k m)"

fun check_names :: "host_key_env \<Rightarrow> ustring list \<Rightarrow> ustring \<Rightarrow> bytes \<Rightarrow> known_hosts \<Rightarrow> host_key_result" where
  "check_names env [] kt k m = UnknownHost"
| "check_names env (n # ns) kt k m =
     (case (case map_of m n of Some es \<Rightarrow> check_entries env kt k es | None \<Rightarrow> None) of
        Some r \<Rightarrow> r
      | None \<Rightarrow> (case check_hashed_entries env n kt k m of Some r \<Rightarrow> r | None \<Rightarrow> check_names env ns kt k m))"

definition verify_host_key :: "host_key_env \<Rightarrow> verifier \<Rightarrow> ustring \<Rightarrow> u16 \<Rightarrow> ustring \<Rightarrow> bytes \<Rightarrow> host_key_result" where
  "verify_host_key env v hostname port kt k =
     (if ignore_host_key (hk_config v) then Skipped
      else case host_key_fingerprint (hk_config v) of
             Some expected \<Rightarrow>
               (if calculate_fingerprint env k = normalize_fingerprint expected then Verified
                else Mismatch (shown (normalize_fingerprint expected)) (shown (calculate_fingerprint env k)))
           | None \<Rightarrow>
               (if known_hosts v = []
                then (if known_hosts_path (hk_config v) \<noteq> None then UnknownHost else NotConfigured)
                else check_names env (hostname_variants env hostname port) kt k (known_hosts v)))"

text \<open>The handlers' answer to the SSH library.\<close>

definition check_server_key :: "host_key_env \<Rightarrow> verifier \<Rightarrow> ustring \<Rightarrow> u16 \<Rightarrow> ustring \<Rightarrow> bytes \<Rightarrow> bool" where
  "check_server_key env v hostname port kt k = is_allowed (verify_host_key env v hostname port kt k) (hk_config v)"

section \<open>What an accepted key is\<close>

text \<open>The file has this key for one of the names the host is looked up under, plain or hashed.\<close>

definition listed :: "host_key_env \<Rightarrow> known_hosts \<Rightarrow> ustring list \<Rightarrow> ustring \<Rightarrow> bytes \<Rightarrow> bool" where
  "listed env m names kt k \<longleftrightarrow>
     (\<exists>(stored, es) \<in> set m. (stored \<in> set names \<or> (\<exists>n \<in> set names. hashed_matches env n stored)) \<and>
        (\<exists>e \<in> set es. key_type e = kt \<and> hk_decode env (key_data e) = Some k))"

lemma check_entries_Verified:
  "check_entries env kt k es = Some Verified \<Longrightarrow> \<exists>e \<in> set es. key_type e = kt \<and> hk_decode env (key_data e) = Some k"
  by (induction es) (auto split: if_splits option.splits)

lemma check_entries_results:
  "check_entries env kt k es = Some r \<Longrightarrow> r = Verified \<or> (\<exists>e a. r = Mismatch e a)"
  by (induction es) (auto split: if_splits option.splits)

lemma check_hashed_Verified:
  "check_hashed_entries env n kt k m = Some Verified \<Longrightarrow>
     \<exists>(stored, es) \<in> set m. hashed_matches env n stored \<and> (\<exists>e \<in> set es. key_type e = kt \<and> hk_decode env (key_data e) = Some k)"
proof (induction m)
  case (Cons a m)
  obtain stored es where a: "a = (stored, es)" by (cases a)
  with Cons check_entries_Verified [of env kt k es] show ?case
    by (auto split: option.splits if_splits)
qed simp

lemma check_hashed_results:
  "check_hashed_entries env n kt k m = Some r \<Longrightarrow> r = Verified \<or> (\<exists>e a. r = Mismatch e a)"
proof (induction m)
  case (Cons a m)
  obtain stored es where "a = (stored, es)" by (cases a)
  with Cons check_entries_results [of env kt k es r] show ?case by (auto split: option.splits if_splits)
qed simp

lemma check_names_Verified: "check_names env ns kt k m = Verified \<Longrightarrow> listed env m ns kt k"
proof (induction ns)
  case (Cons n ns)
  consider (plain) es where "map_of m n = Some es" "check_entries env kt k es = Some Verified"
    | (hashed) "check_hashed_entries env n kt k m = Some Verified"
    | (later) "check_names env ns kt k m = Verified"
    using Cons.prems by (auto split: option.splits)
  then show ?case
  proof cases
    case plain
    then show ?thesis using check_entries_Verified [OF plain(2)] map_of_SomeD [OF plain(1)]
      unfolding listed_def by force
  next
    case hashed
    from check_hashed_Verified [OF this] show ?thesis unfolding listed_def by fastforce
  next
    case later
    from Cons.IH [OF this] show ?thesis unfolding listed_def by fastforce
  qed
qed simp

lemma check_names_results:
  "check_names env ns kt k m = r \<Longrightarrow> r = Verified \<or> r = UnknownHost \<or> (\<exists>e a. r = Mismatch e a)"
  by (induction ns) (auto split: option.splits dest: check_entries_results check_hashed_results)

text \<open>
  C24 (safety). A host key is accepted only if verification is switched off or not configured at all, or
  its fingerprint is the pinned one, or - without a pin - the known-hosts file lists exactly this key for
  the host, or the host is unknown and unknown hosts are allowed.
\<close>

theorem host_key_accepted:
  assumes "check_server_key env v hostname port kt k"
  shows "ignore_host_key (hk_config v) \<or>
         (case host_key_fingerprint (hk_config v) of
            Some fp \<Rightarrow> calculate_fingerprint env k = normalize_fingerprint fp
          | None \<Rightarrow>
              known_hosts v = [] \<and> known_hosts_path (hk_config v) = None \<or>
              listed env (known_hosts v) (hostname_variants env hostname port) kt k \<or>
              allow_unknown_hosts (hk_config v) \<and> verify_host_key env v hostname port kt k = UnknownHost)"
proof (cases "ignore_host_key (hk_config v)")
  case False
  show ?thesis
  proof (cases "host_key_fingerprint (hk_config v)")
    case None
    show ?thesis
    proof (cases "known_hosts v = []")
      case True
      with False None assms show ?thesis by (auto simp: check_server_key_def verify_host_key_def split: if_splits)
    next
      case ne: False
      let ?r = "check_names env (hostname_variants env hostname port) kt k (known_hosts v)"
      have r: "verify_host_key env v hostname port kt k = ?r" using False None ne by (simp add: verify_host_key_def)
      from check_names_results [of env _ kt k _ ?r] have "?r = Verified \<or> ?r = UnknownHost \<or> (\<exists>e a. ?r = Mismatch e a)"
        by blast
      then show ?thesis
        using assms None r check_names_Verified [of env _ kt k "known_hosts v"] by (auto simp: check_server_key_def)
    qed
  next
    case (Some fp)
    with False assms show ?thesis by (auto simp: check_server_key_def verify_host_key_def split: if_splits)
  qed
qed simp

section \<open>Where the verification is weaker than it looks\<close>

text \<open>A host the file knows under another key type counts as unknown, not as changed.\<close>

lemma check_entries_other_type: "\<forall>e \<in> set es. key_type e \<noteq> kt \<Longrightarrow> check_entries env kt k es = None"
  by (induction es) auto

lemma check_hashed_other_type:
  "\<forall>(h, es) \<in> set m. \<forall>e \<in> set es. key_type e \<noteq> kt \<Longrightarrow> check_hashed_entries env n kt k m = None"
  by (induction m) (auto simp: check_entries_other_type)

text \<open>
  An attacker who offers a key of a type the file does not mention is an unknown host, however
  many keys of other types it lists for that host; where unknown hosts are allowed, that key is accepted.
\<close>

lemma other_key_type_unknown:
  assumes "\<not> ignore_host_key (hk_config v)" "host_key_fingerprint (hk_config v) = None" "known_hosts v \<noteq> []"
    and "\<forall>(h, es) \<in> set (known_hosts v). \<forall>e \<in> set es. key_type e \<noteq> kt"
  shows "check_server_key env v hostname port kt k \<longleftrightarrow> allow_unknown_hosts (hk_config v)"
proof -
  have "check_names env ns kt k (known_hosts v) = UnknownHost" for ns
  proof (induction ns)
    case (Cons n ns)
    have "\<forall>e \<in> set es. key_type e \<noteq> kt" if "map_of (known_hosts v) n = Some es" for es
      using assms(4) map_of_SomeD [OF that] by auto
    with Cons assms(4) show ?case
      by (auto simp: check_entries_other_type check_hashed_other_type split: option.splits)
  qed simp
  with assms(1-3) show ?thesis by (simp add: check_server_key_def verify_host_key_def)
qed

text \<open>Only the first entry of a type counts: a second key of the host, added behind the old one, is refused.\<close>

lemma later_entry_ignored:
  assumes "key_type e = kt" "hk_decode env (key_data e) = Some old" "old \<noteq> k"
    and "\<not> ignore_host_key (hk_config v)" "host_key_fingerprint (hk_config v) = None"
    and "map_of (known_hosts v) hostname = Some (e # es)"
  shows "\<not> check_server_key env v hostname port kt k"
proof -
  have "known_hosts v \<noteq> []" using assms(6) by auto
  then show ?thesis using assms
    by (simp add: check_server_key_def verify_host_key_def hostname_variants_def Let_def)
qed

text \<open>The port of a bracketed name is dropped on loading, so the name with a port is never found.\<close>

lemma port_dropped: "93 \<notin> set h \<Longrightarrow> normalize_hostname (ustr ''['' @ h @ ustr '']:'' @ p) = h"
proof -
  assume "93 \<notin> set h"
  then have "takeWhile (\<lambda>c. c \<noteq> 93) (h @ 93 # 58 # p) = h" by (simp add: takeWhile_append)
  then show ?thesis by (simp add: normalize_hostname_def)
qed

text \<open>A marker in front of the line is taken for the host name: a revoked key is not known as such.\<close>

lemma marker_is_host:
  "parse_known_hosts_line (ustr ''@revoked h ssh-rsa AAAA'') = Some ([ustr ''@revoked''], \<lparr>key_type = ustr ''h'', key_data = ustr ''ssh-rsa''\<rparr>)"
  by (simp add: parse_known_hosts_line_def split_whitespace.simps is_whitespace_def starts_with_def normalize_hostname_def)

section \<open>Witnesses\<close>

definition sample_hk_env :: host_key_env where
  "sample_hk_env = \<lparr>hk_sha256 = id, hk_hmac_sha1 = (\<lambda>s h. s), hk_encode = map unat, hk_decode = (\<lambda>s. Some (map of_nat s)), hk_lower = id\<rparr>"

definition sample_verifier :: verifier where
  "sample_verifier =
     new_verifier (\<lambda>_. Some [ustr ''h ssh-rsa A''])
       (host_key_from_params [ustr ''known-hosts'' \<mapsto> ustr ''f'', ustr ''allow-unknown-hosts'' \<mapsto> ustr ''1''])"

lemma sample_verifier_hosts:
  "known_hosts sample_verifier = [(ustr ''h'', [\<lparr>key_type = ustr ''ssh-rsa'', key_data = ustr ''A''\<rparr>])]"
  by (simp add: sample_verifier_def new_verifier_def host_key_from_params_def load_line_def Let_def trim_def
      is_whitespace_def starts_with_def parse_known_hosts_line_def split_whitespace.simps normalize_hostname_def)

lemma sample_verifier_config:
  "hk_config sample_verifier =
     \<lparr>ignore_host_key = False, known_hosts_path = Some (ustr ''f''), allow_unknown_hosts = True, host_key_fingerprint = None\<rparr>"
  by (simp add: sample_verifier_def new_verifier_def host_key_from_params_def parse_bool_def)

theorem host_key_accepted_witness:
  "listed sample_hk_env (known_hosts sample_verifier) (hostname_variants sample_hk_env (ustr ''h'') 22) (ustr ''ssh-rsa'') [65]"
proof -
  have v: "verify_host_key sample_hk_env sample_verifier (ustr ''h'') 22 (ustr ''ssh-rsa'') [65] = Verified"
    by (simp add: verify_host_key_def sample_verifier_hosts sample_verifier_config hostname_variants_def sample_hk_env_def Let_def)
  then have "check_server_key sample_hk_env sample_verifier (ustr ''h'') 22 (ustr ''ssh-rsa'') [65]"
    by (simp add: check_server_key_def)
  from host_key_accepted [OF this] v show ?thesis by (simp add: sample_verifier_config)
qed

end
