(* ===== verification/Data_Channel.thy ===== *)
theory Data_Channel
  imports Prelude "HOL-Library.Multiset" "HOL-Library.Sublist"
begin

text \<open>
  \<open>webrtc_data_channel.rs\<close>: the wrapper around a WebRTC data channel and its event-driven sender, and the
  message handler of \<open>tube_and_channel_helpers.rs\<close>. The methods are functions on a record of the
  channel's fields; the outcome of each call into the WebRTC library is an argument. The sender is
  lock-free: its callers, the callback for a drained buffer and the tasks that callback starts run
  at the same time, so they are also given as a machine whose steps are the single atomic actions of the
  code. The atomics act on one location each and are read in program order.
\<close>

section \<open>The channel\<close>

record data_channel =
  is_closing :: bool
  is_open :: bool
  buffered_amount_low_threshold :: u64
  wire :: "bytes list"

definition send_failure :: "string \<Rightarrow> string" where
  "send_failure e = ''Failed to send data: '' @ e"

text \<open>\<open>wire\<close> collects what the library has accepted. The library's answer is the first argument.\<close>

definition dc_send :: "(unit, string) result \<Rightarrow> bytes \<Rightarrow> data_channel \<Rightarrow> (unit, string) result \<times> data_channel" where
  "dc_send r dat c =
     (if is_closing c then (Err ''Channel is closing'', c)
      else case r of
             Ok _ \<Rightarrow> (Ok (), c\<lparr>wire := wire c @ [dat]\<rparr>)
           | Err e \<Rightarrow> (Err (send_failure e), c))"

definition buffered_amount :: "u64 \<Rightarrow> data_channel \<Rightarrow> u64" where
  "buffered_amount native c = (if is_closing c then 0 else native)"

definition ready_state :: "string \<Rightarrow> data_channel \<Rightarrow> string" where
  "ready_state native c = (if is_closing c then ''Closed'' else native)"

text \<open>The library's close gives its result, or \<open>None\<close> when the three seconds pass first.\<close>

definition dc_close :: "(unit, string) result option \<Rightarrow> data_channel \<Rightarrow> (unit, string) result \<times> data_channel" where
  "dc_close r c =
     (if is_closing c then (Ok (), c)
      else (case r of
              Some (Ok _) \<Rightarrow> Ok ()
            | Some (Err e) \<Rightarrow> Err (''Failed to close data channel: '' @ e)
            | None \<Rightarrow> Ok (),
            c\<lparr>is_closing := True\<rparr>))"

text \<open>What one turn of the two waiting loops sees. \<open>None\<close>: the loop still runs at the end of the list.\<close>

record sight =
  elapsed :: nat
  seen_closing :: bool
  seen_open :: bool
  native_open :: bool
  native_buffered :: nat

fun dc_drain :: "nat \<Rightarrow> sight list \<Rightarrow> bool option" where
  "dc_drain limit [] = None"
| "dc_drain limit (o' # os) =
     (if \<not> elapsed o' < limit then Some False
      else if seen_closing o' then Some True
      else if native_buffered o' = 0 then Some True
      else dc_drain limit os)"

text \<open>\<open>seen_open\<close>: the \<open>on_open\<close> callback has run since the last turn.\<close>

definition on_open :: "data_channel \<Rightarrow> data_channel" where
  "on_open c = c\<lparr>is_open := True\<rparr>"

fun wait_for_channel_open ::
  "nat option \<Rightarrow> sight list \<Rightarrow> data_channel \<Rightarrow> (bool, string) result option \<times> data_channel" where
  "wait_for_channel_open limit [] c = (None, c)"
| "wait_for_channel_open limit (o' # os) c =
     (let c = (if seen_open o' then on_open c else c)
      in if seen_closing o' then (Some (Err ''Data channel is closing''), c)
         else if is_open c then (Some (Ok True), c)
         else if native_open o' then (Some (Ok True), on_open c)
         else if elapsed o' \<ge> (case limit of Some t \<Rightarrow> t | None \<Rightarrow> 10000) then (Some (Ok False), c)
         else wait_for_channel_open limit os c)"

section \<open>The sender\<close>

record retry_state =
  attempts :: u64
  last_retry_ns :: u64

definition record_retry :: "u64 \<Rightarrow> retry_state \<Rightarrow> retry_state" where
  "record_retry now r = \<lparr>attempts = attempts r + 1, last_retry_ns = now\<rparr>"

definition reset_retry :: "retry_state \<Rightarrow> retry_state" where
  "reset_retry r = \<lparr>attempts = 0, last_retry_ns = 0\<rparr>"

definition get_last_retry_elapsed :: "u64 \<Rightarrow> retry_state \<Rightarrow> u64 option" where
  "get_last_retry_elapsed now r =
     (if last_retry_ns r = 0 then None
      else if now \<ge> last_retry_ns r then Some (now - last_retry_ns r)
      else None)"

text \<open>\<open>batches\<close> are the tasks the callback has started, each with the frames it has still to send.\<close>

record event_sender =
  channel :: data_channel
  pending_frames :: "bytes list"
  can_send :: bool
  threshold :: u64
  queue_size :: u64
  high_queue_start_ns :: u64
  frames_blocked :: u64
  retry :: retry_state
  batches :: "bytes list list"

definition new_sender :: "data_channel \<Rightarrow> u64 \<Rightarrow> event_sender" where
  "new_sender c t =
     \<lparr>channel = c\<lparr>buffered_amount_low_threshold := t\<rparr>, pending_frames = [], can_send = True, threshold = t,
      queue_size = 0, high_queue_start_ns = 0, frames_blocked = 0,
      retry = \<lparr>attempts = 0, last_retry_ns = 0\<rparr>, batches = []\<rparr>"

definition QUEUE_FULL_ERROR :: string where
  "QUEUE_FULL_ERROR = ''Queue full - backpressure required (loss-intolerant protocol)''"

definition DATACHANNEL_CLOSED_ERROR :: string where
  "DATACHANNEL_CLOSED_ERROR = ''DataChannel closed''"

fun contains :: "string \<Rightarrow> string \<Rightarrow> bool" where
  "contains p [] = (p = [])"
| "contains p (x # xs) = (take (length p) (x # xs) = p \<or> contains p xs)"

definition is_permanent :: "string \<Rightarrow> bool" where
  "is_permanent e \<longleftrightarrow>
     contains ''DataChannel is not opened'' e \<or> contains ''Channel is closing'' e \<or> contains ''closed'' e"

text \<open>
  The sender's method in its four parts: the direct send (\<open>None\<close>: fall through to the queue), the check
  of the queue's size with its monitoring, the push and the count.
\<close>

definition send_now ::
  "(unit, string) result \<Rightarrow> u64 \<Rightarrow> bytes \<Rightarrow> event_sender \<Rightarrow> (unit, string) result option \<times> event_sender" where
  "send_now r now frame s =
     (case dc_send r frame (channel s) of
        (Ok _, c) \<Rightarrow> (Some (Ok ()), s\<lparr>channel := c\<rparr>)
      | (Err e, c) \<Rightarrow>
          (if is_permanent e then (Some (Err DATACHANNEL_CLOSED_ERROR), s)
           else (None, s\<lparr>retry := record_retry now (retry s), can_send := False\<rparr>)))"

definition MAX_QUEUE :: u64 where "MAX_QUEUE = 10000"
definition HIGH_QUEUE_THRESHOLD :: u64 where "HIGH_QUEUE_THRESHOLD = 7500"
definition SUSTAINED_PRESSURE_NS :: u64 where "SUSTAINED_PRESSURE_NS = 30000000000"

definition watch_pressure :: "u64 \<Rightarrow> u64 \<Rightarrow> event_sender \<Rightarrow> event_sender" where
  "watch_pressure now n s =
     (if n > HIGH_QUEUE_THRESHOLD
      then (if high_queue_start_ns s = 0 then s\<lparr>high_queue_start_ns := now\<rparr> else s)
      else s\<lparr>high_queue_start_ns := 0\<rparr>)"

definition check_queue :: "u64 \<Rightarrow> event_sender \<Rightarrow> (unit, string) result \<times> event_sender" where
  "check_queue now s =
     (if queue_size s \<ge> MAX_QUEUE
      then (Err QUEUE_FULL_ERROR, s\<lparr>frames_blocked := frames_blocked s + 1\<rparr>)
      else (Ok (), watch_pressure now (queue_size s) s))"

definition push_frame :: "bytes \<Rightarrow> event_sender \<Rightarrow> event_sender" where
  "push_frame frame s = s\<lparr>pending_frames := pending_frames s @ [frame]\<rparr>"

definition count_frame :: "event_sender \<Rightarrow> event_sender" where
  "count_frame s = s\<lparr>queue_size := queue_size s + 1, retry := reset_retry (retry s)\<rparr>"

definition send_with_natural_backpressure ::
  "(unit, string) result \<Rightarrow> u64 \<Rightarrow> bytes \<Rightarrow> event_sender \<Rightarrow> (unit, string) result \<times> event_sender" where
  "send_with_natural_backpressure r now frame s =
     (case (if can_send s then send_now r now frame s else (None, s)) of
        (Some x, s1) \<Rightarrow> (x, s1)
      | (None, s1) \<Rightarrow>
          (case check_queue now s1 of
             (Err e, s2) \<Rightarrow> (Err e, s2)
           | (Ok _, s2) \<Rightarrow> (Ok (), count_frame (push_frame frame s2))))"

definition get_retry_stats :: "u64 \<Rightarrow> event_sender \<Rightarrow> u64 \<times> u64 option" where
  "get_retry_stats now s = (attempts (retry s), get_last_retry_elapsed now (retry s))"

definition is_over_threshold :: "event_sender \<Rightarrow> bool" where
  "is_over_threshold s \<longleftrightarrow> queue_size s > threshold s"

definition has_sustained_pressure :: "u64 \<Rightarrow> event_sender \<Rightarrow> bool" where
  "has_sustained_pressure now s \<longleftrightarrow>
     high_queue_start_ns s \<noteq> 0 \<and> now \<ge> high_queue_start_ns s \<and>
     now - high_queue_start_ns s \<ge> SUSTAINED_PRESSURE_NS"

section \<open>The drain callback and its tasks\<close>

definition BATCH :: nat where "BATCH = 2000"

text \<open>One turn of the popping loop: the frame popped, or the end of the loop.\<close>

definition pop_frame :: "bytes list \<Rightarrow> event_sender \<Rightarrow> (bytes \<times> event_sender) option" where
  "pop_frame to_send s =
     (if length to_send < BATCH
      then (case pending_frames s of
              f # q \<Rightarrow> Some (f, s\<lparr>pending_frames := q\<rparr>)
            | [] \<Rightarrow> None)
      else None)"

text \<open>The counter is lowered whatever it was; the flag says that it had been too small.\<close>

definition lower_count :: "bytes list \<Rightarrow> event_sender \<Rightarrow> bool \<times> event_sender" where
  "lower_count to_send s =
     (queue_size s < of_nat (length to_send), s\<lparr>queue_size := queue_size s - of_nat (length to_send)\<rparr>)"

definition start_batch :: "bytes list \<Rightarrow> event_sender \<Rightarrow> event_sender" where
  "start_batch to_send s = (if to_send = [] then s else s\<lparr>batches := batches s @ [to_send]\<rparr>)"

text \<open>
  One send of the \<open>j\<close>-th task. A failure ends the task with the frames it holds; they are the
  second component.
\<close>

definition batch_send :: "nat \<Rightarrow> (unit, string) result \<Rightarrow> event_sender \<Rightarrow> event_sender \<times> bytes list" where
  "batch_send j r s =
     (if j < length (batches s)
      then (case batches s ! j of
              [] \<Rightarrow> (s, [])
            | f # fs \<Rightarrow>
                (case dc_send r f (channel s) of
                   (Ok _, c) \<Rightarrow> (s\<lparr>channel := c, batches := (batches s)[j := fs]\<rparr>, [])
                 | (Err e, c) \<Rightarrow> (s\<lparr>can_send := False, batches := (batches s)[j := []]\<rparr>, f # fs)))
      else (s, []))"


section \<open>The machine\<close>

text \<open>
  Where a caller of the sender and the callback stand. The callback runs under the lock of the
  channel's callback slot, so there is one of it.
\<close>

datatype caller =
    Returned "(unit, string) result option"
  | AtSend bytes
  | AtCheck bytes
  | AtPush bytes
  | AtCount

datatype drainer = Waiting | Popping "bytes list" | Popped "bytes list" | Underflow "bytes list"

text \<open>\<open>taken\<close> and \<open>dropped\<close> record the frames the sender took over and the frames its tasks gave up.\<close>

record sender_system =
  eds :: event_sender
  callers :: "caller list"
  drainer :: drainer
  taken :: "bytes list"
  dropped :: "bytes list"

datatype micro =
    Call nat bytes
  | SendNow nat "(unit, string) result" u64
  | Check nat u64
  | Push nat
  | Count nat
  | BufferLow
  | Pop
  | Lower
  | ResetCount
  | BatchSend nat "(unit, string) result"
  | CloseChannel

definition caller_at :: "nat \<Rightarrow> sender_system \<Rightarrow> caller option" where
  "caller_at i y = (if i < length (callers y) then Some (callers y ! i) else None)"

definition goes :: "nat \<Rightarrow> caller \<Rightarrow> sender_system \<Rightarrow> sender_system" where
  "goes i p y = y\<lparr>callers := (callers y)[i := p]\<rparr>"

definition send_step :: "nat \<Rightarrow> (unit, string) result \<Rightarrow> u64 \<Rightarrow> bytes \<Rightarrow> sender_system \<Rightarrow> sender_system" where
  "send_step i r now f y =
     (case send_now r now f (eds y) of
        (Some (Ok _), s) \<Rightarrow> goes i (Returned (Some (Ok ()))) (y\<lparr>eds := s, taken := taken y @ [f]\<rparr>)
      | (Some (Err e), s) \<Rightarrow> goes i (Returned (Some (Err e))) (y\<lparr>eds := s\<rparr>)
      | (None, s) \<Rightarrow> goes i (AtCheck f) (y\<lparr>eds := s\<rparr>))"

definition check_step :: "nat \<Rightarrow> u64 \<Rightarrow> bytes \<Rightarrow> sender_system \<Rightarrow> sender_system" where
  "check_step i now f y =
     (case check_queue now (eds y) of
        (Ok _, s) \<Rightarrow> goes i (AtPush f) (y\<lparr>eds := s\<rparr>)
      | (Err e, s) \<Rightarrow> goes i (Returned (Some (Err e))) (y\<lparr>eds := s\<rparr>))"

definition lower_step :: "bytes list \<Rightarrow> sender_system \<Rightarrow> sender_system" where
  "lower_step b y =
     (case lower_count b (eds y) of
        (True, s) \<Rightarrow> y\<lparr>eds := s, drainer := Underflow b\<rparr>
      | (False, s) \<Rightarrow> y\<lparr>eds := start_batch b s, drainer := Waiting\<rparr>)"

text \<open>A step whose actor stands elsewhere leaves the system as it is.\<close>

fun micro_step :: "micro \<Rightarrow> sender_system \<Rightarrow> sender_system" where
  "micro_step (Call i f) y =
     (case caller_at i y of
        Some (Returned _) \<Rightarrow> goes i (if can_send (eds y) then AtSend f else AtCheck f) y
      | _ \<Rightarrow> y)"
| "micro_step (SendNow i r now) y =
     (case caller_at i y of Some (AtSend f) \<Rightarrow> send_step i r now f y | _ \<Rightarrow> y)"
| "micro_step (Check i now) y =
     (case caller_at i y of Some (AtCheck f) \<Rightarrow> check_step i now f y | _ \<Rightarrow> y)"
| "micro_step (Push i) y =
     (case caller_at i y of
        Some (AtPush f) \<Rightarrow> goes i AtCount (y\<lparr>eds := push_frame f (eds y), taken := taken y @ [f]\<rparr>)
      | _ \<Rightarrow> y)"
| "micro_step (Count i) y =
     (case caller_at i y of
        Some AtCount \<Rightarrow> goes i (Returned (Some (Ok ()))) (y\<lparr>eds := count_frame (eds y)\<rparr>)
      | _ \<Rightarrow> y)"
| "micro_step BufferLow y =
     (if drainer y = Waiting then y\<lparr>eds := (eds y)\<lparr>can_send := True\<rparr>, drainer := Popping []\<rparr> else y)"
| "micro_step Pop y =
     (case drainer y of
        Popping b \<Rightarrow>
          (case pop_frame b (eds y) of
             Some (f, s) \<Rightarrow> y\<lparr>eds := s, drainer := Popping (b @ [f])\<rparr>
           | None \<Rightarrow> y\<lparr>drainer := Popped b\<rparr>)
      | _ \<Rightarrow> y)"
| "micro_step Lower y = (case drainer y of Popped b \<Rightarrow> lower_step b y | _ \<Rightarrow> y)"
| "micro_step ResetCount y =
     (case drainer y of
        Underflow b \<Rightarrow> y\<lparr>eds := start_batch b ((eds y)\<lparr>queue_size := 0\<rparr>), drainer := Waiting\<rparr>
      | _ \<Rightarrow> y)"
| "micro_step (BatchSend j r) y =
     (case batch_send j r (eds y) of (s, gone) \<Rightarrow> y\<lparr>eds := s, dropped := dropped y @ gone\<rparr>)"
| "micro_step CloseChannel y =
     y\<lparr>eds := (eds y)\<lparr>channel := snd (dc_close None (channel (eds y)))\<rparr>\<rparr>"

fun run_micro :: "micro list \<Rightarrow> sender_system \<Rightarrow> sender_system" where
  "run_micro [] y = y"
| "run_micro (e # es) y = run_micro es (micro_step e y)"

definition start_system :: "data_channel \<Rightarrow> u64 \<Rightarrow> nat \<Rightarrow> sender_system" where
  "start_system c t n =
     \<lparr>eds = new_sender c t, callers = replicate n (Returned None), drainer = Waiting, taken = [], dropped = []\<rparr>"

text \<open>A call that nothing interrupts is the method.\<close>

definition whole_call :: "nat \<Rightarrow> bytes \<Rightarrow> (unit, string) result \<Rightarrow> u64 \<Rightarrow> micro list" where
  "whole_call i f r now = [Call i f, SendNow i r now, Check i now, Push i, Count i]"

lemma run_append: "run_micro (es @ es') y = run_micro es' (run_micro es y)"
  by (induction es arbitrary: y) simp_all

lemma goes_simps [simp]:
  "eds (goes i p y) = eds y" "drainer (goes i p y) = drainer y"
  "taken (goes i p y) = taken y" "dropped (goes i p y) = dropped y"
  "callers (goes i p y) = (callers y)[i := p]" "length (callers (goes i p y)) = length (callers y)"
  by (simp_all add: goes_def)

lemma caller_at_simps [simp]:
  "i < length (callers y) \<Longrightarrow> caller_at i (goes i p y) = Some p"
  "caller_at i (y\<lparr>eds := s\<rparr>) = caller_at i y" "caller_at i (y\<lparr>taken := l\<rparr>) = caller_at i y"
  by (simp_all add: caller_at_def)

lemma caller_at_Some: "caller_at i y = Some p \<longleftrightarrow> i < length (callers y) \<and> callers y ! i = p"
  by (auto simp: caller_at_def)

lemma send_now_cases:
  obtains (sent) c where "send_now r now f s = (Some (Ok ()), s\<lparr>channel := c\<rparr>)" "dc_send r f (channel s) = (Ok (), c)"
  | (closed) "send_now r now f s = (Some (Err DATACHANNEL_CLOSED_ERROR), s)"
  | (queue) "send_now r now f s = (None, s\<lparr>retry := record_retry now (retry s), can_send := False\<rparr>)"
proof (cases "dc_send r f (channel s)")
  case (Pair a c)
  show ?thesis
  proof (cases a)
    case (Ok u)
    with Pair sent [of c] show ?thesis by (simp add: send_now_def)
  next
    case (Err e)
    with Pair closed queue show ?thesis by (cases "is_permanent e") (simp_all add: send_now_def)
  qed
qed

lemma check_queue_cases:
  obtains (full) "check_queue now s = (Err QUEUE_FULL_ERROR, s\<lparr>frames_blocked := frames_blocked s + 1\<rparr>)"
      "queue_size s \<ge> MAX_QUEUE"
  | (room) "check_queue now s = (Ok (), watch_pressure now (queue_size s) s)" "queue_size s < MAX_QUEUE"
  by (cases "queue_size s \<ge> MAX_QUEUE") (auto simp: check_queue_def)

lemma whole_call_is_method:
  assumes i: "i < length (callers y)" "callers y ! i = Returned z"
    and m: "send_with_natural_backpressure r now f (eds y) = (x, s)"
  shows "eds (run_micro (whole_call i f r now) y) = s \<and>
         callers (run_micro (whole_call i f r now) y) = (callers y)[i := Returned (Some x)]"
proof -
  note d = whole_call_def send_step_def check_step_def send_with_natural_backpressure_def caller_at_def
  show ?thesis
  proof (cases "can_send (eds y)")
    case True
    show ?thesis
    proof (cases rule: send_now_cases [of r now f "eds y"])
      case queue
      show ?thesis
        by (cases rule: check_queue_cases [of now "snd (send_now r now f (eds y))"]) (use True queue i m in \<open>auto simp: d\<close>)
    qed (use True i m in \<open>auto simp: d\<close>)
  next
    case False
    show ?thesis by (cases rule: check_queue_cases [of now "eds y"]) (use False i m in \<open>auto simp: d\<close>)
  qed
qed

section \<open>Frames are conserved\<close>

definition in_hand :: "drainer \<Rightarrow> bytes list" where
  "in_hand d = (case d of Waiting \<Rightarrow> [] | Popping b \<Rightarrow> b | Popped b \<Rightarrow> b | Underflow b \<Rightarrow> b)"

lemma in_hand_simps [simp]:
  "in_hand Waiting = []" "in_hand (Popping b) = b" "in_hand (Popped b) = b" "in_hand (Underflow b) = b"
  by (simp_all add: in_hand_def)

text \<open>Where a frame taken over by the sender can be.\<close>

definition whereabouts :: "sender_system \<Rightarrow> bytes multiset" where
  "whereabouts y =
     mset (wire (channel (eds y))) + mset (concat (batches (eds y))) + mset (in_hand (drainer y)) +
     mset (pending_frames (eds y)) + mset (dropped y)"

lemma dc_send_Ok: "dc_send r f c = (Ok u, c') \<Longrightarrow> c' = c\<lparr>wire := wire c @ [f]\<rparr>"
  by (auto simp: dc_send_def split: if_splits result.splits)

lemma dc_send_Err: "dc_send r f c = (Err e, c') \<Longrightarrow> c' = c"
  by (auto simp: dc_send_def split: if_splits result.splits)

lemma mset_concat_update:
  "j < length bs \<Longrightarrow> mset (concat (bs[j := b])) + mset (bs ! j) = mset (concat bs) + mset b"
proof (induction bs arbitrary: j)
  case (Cons a bs)
  then show ?case by (cases j) (simp_all add: ac_simps)
qed simp

lemma batch_send_cases:
  obtains (idle) "batch_send j r s = (s, [])"
  | (sent) f fs where "j < length (batches s)" "batches s ! j = f # fs"
      "batch_send j r s =
         (s\<lparr>channel := (channel s)\<lparr>wire := wire (channel s) @ [f]\<rparr>, batches := (batches s)[j := fs]\<rparr>, [])"
      "\<not> is_closing (channel s)" "r = Ok ()"
  | (failed) f fs where "j < length (batches s)" "batches s ! j = f # fs"
      "batch_send j r s = (s\<lparr>can_send := False, batches := (batches s)[j := []]\<rparr>, f # fs)"
proof (cases "j < length (batches s)")
  case True
  show ?thesis
  proof (cases "batches s ! j")
    case Nil
    with True idle show ?thesis by (simp add: batch_send_def)
  next
    case (Cons f fs)
    show ?thesis
    proof (cases "is_closing (channel s) \<or> (\<exists>e. r = Err e)")
      case True
      with failed [of f fs] Cons \<open>j < _\<close> show ?thesis by (auto simp: batch_send_def dc_send_def)
    next
      case False
      then have "r = Ok ()" by (cases r) auto
      with False sent [of f fs] Cons \<open>j < _\<close> show ?thesis by (simp add: batch_send_def dc_send_def)
    qed
  qed
next
  case False
  with idle show ?thesis by (simp add: batch_send_def)
qed

lemma batch_send_Err: "j < length (batches s) \<Longrightarrow> snd (batch_send j (Err e) s) = batches s ! j"
  by (cases "is_closing (channel s)") (auto simp: batch_send_def dc_send_def split: list.split)

lemma watch_pressure_keeps [simp]:
  "channel (watch_pressure now n s) = channel s" "pending_frames (watch_pressure now n s) = pending_frames s"
  "batches (watch_pressure now n s) = batches s" "queue_size (watch_pressure now n s) = queue_size s"
  "can_send (watch_pressure now n s) = can_send s"
  by (simp_all add: watch_pressure_def)


lemma concat_snoc_batch [simp]: "concat (batches (start_batch b s)) = concat (batches s) @ b"
  by (simp add: start_batch_def)

lemma start_batch_keeps [simp]:
  "channel (start_batch b s) = channel s" "pending_frames (start_batch b s) = pending_frames s"
  "queue_size (start_batch b s) = queue_size s" "can_send (start_batch b s) = can_send s"
  by (simp_all add: start_batch_def)

lemma dc_close_keeps [simp]: "wire (snd (dc_close r c)) = wire c"
  by (simp add: dc_close_def)

lemma lower_step_cases:
  obtains (short) "queue_size (eds y) < of_nat (length b)"
      "lower_step b y = y\<lparr>eds := (eds y)\<lparr>queue_size := queue_size (eds y) - of_nat (length b)\<rparr>, drainer := Underflow b\<rparr>"
  | (enough) "\<not> queue_size (eds y) < of_nat (length b)"
      "lower_step b y =
         y\<lparr>eds := start_batch b ((eds y)\<lparr>queue_size := queue_size (eds y) - of_nat (length b)\<rparr>), drainer := Waiting\<rparr>"
  by (cases "queue_size (eds y) < of_nat (length b)") (simp_all add: lower_step_def lower_count_def)

lemma conserved_step:
  assumes "mset (taken y) = whereabouts y"
  shows "mset (taken (micro_step e y)) = whereabouts (micro_step e y)"
proof (cases e)
  case (Call i f)
  with assms show ?thesis by (auto simp: whereabouts_def split: option.splits caller.splits)
next
  case (SendNow i r now)
  have "mset (taken (send_step i r now f y)) = whereabouts (send_step i r now f y)" for f
    by (cases rule: send_now_cases [of r now f "eds y"])
      (use assms in \<open>auto simp: send_step_def whereabouts_def dest: dc_send_Ok\<close>)
  with SendNow assms show ?thesis by (auto split: option.splits caller.splits)
next
  case (Check i now)
  have "mset (taken (check_step i now f y)) = whereabouts (check_step i now f y)" for f
    by (cases rule: check_queue_cases [of now "eds y"])
      (use assms in \<open>auto simp: check_step_def whereabouts_def\<close>)
  with Check assms show ?thesis by (auto split: option.splits caller.splits)
next
  case (Push i)
  with assms show ?thesis by (auto simp: whereabouts_def push_frame_def split: option.splits caller.splits)
next
  case (Count i)
  with assms show ?thesis by (auto simp: whereabouts_def count_frame_def split: option.splits caller.splits)
next
  case Pop
  with assms show ?thesis
    by (auto simp: whereabouts_def pop_frame_def split: option.splits drainer.splits list.splits)
next
  case Lower
  have "mset (taken (lower_step b y)) = whereabouts (lower_step b y)" if "drainer y = Popped b" for b
    by (cases rule: lower_step_cases [of y b]) (use assms that in \<open>auto simp: whereabouts_def\<close>)
  with Lower assms show ?thesis by (auto split: drainer.splits)
next
  case (BatchSend j r)
  show ?thesis
  proof (cases rule: batch_send_cases [of j r "eds y"])
    case idle
    with assms BatchSend show ?thesis by (simp add: whereabouts_def)
  next
    case (sent f fs)
    with assms BatchSend mset_concat_update [OF sent(1), of fs] show ?thesis
      by (simp add: whereabouts_def)
  next
    case (failed f fs)
    with assms BatchSend mset_concat_update [OF failed(1), of "[]"] show ?thesis
      by (simp add: whereabouts_def)
  qed
qed (use assms in \<open>auto simp: whereabouts_def split: drainer.splits\<close>)

lemma conserved_run:
  "mset (taken y) = whereabouts y \<Longrightarrow> mset (taken (run_micro es y)) = whereabouts (run_micro es y)"
  by (induction es arbitrary: y) (simp_all add: conserved_step)

lemma start_conserved: "wire c = [] \<Longrightarrow> mset (taken (start_system c t n)) = whereabouts (start_system c t n)"
  by (simp add: start_system_def new_sender_def whereabouts_def)

lemma dropped_step: "\<exists>l. dropped (micro_step e y) = dropped y @ l"
  by (cases e)
    (auto simp: send_step_def check_step_def lower_step_def
      split: prod.splits option.splits result.splits caller.splits drainer.splits bool.splits)

lemma dropped_run: "\<exists>l. dropped (run_micro es y) = dropped y @ l"
proof (induction es arbitrary: y)
  case (Cons e es)
  from dropped_step [of e y] Cons.IH [of "micro_step e y"] show ?case by auto
qed simp


text \<open>
  C35 (error). The frames a background task holds when one of its sends fails are lost: the sender
  had taken them over and answered \<open>Ok\<close>, and whatever happens afterwards they are not sent. (Stated for frames with
  distinct contents, so that a frame can be told from its copies.)
\<close>

theorem failed_batch_lost:
  assumes "wire c = []"
    and "y = run_micro es (start_system c t n)"
    and "j < length (batches (eds y))"
    and "z = run_micro es' (micro_step (BatchSend j (Err e)) y)"
    and "distinct (taken z)"
  shows "set (batches (eds y) ! j) \<inter> set (wire (channel (eds z))) = {}"
proof -
  let ?b = "batches (eds y) ! j" and ?y = "micro_step (BatchSend j (Err e)) y"
  have "dropped ?y = dropped y @ ?b"
    using batch_send_Err [OF assms(3), of e] by (auto split: prod.split)
  with dropped_run [of es' ?y] have d: "set ?b \<subseteq> set (dropped z)" unfolding assms(4) by auto
  have "mset (taken z) = whereabouts z"
    unfolding assms(4) assms(2) by (intro conserved_run conserved_step start_conserved assms(1))
  then have one: "\<forall>f. count (whereabouts z) f \<le> 1"
    using assms(5) by (metis distinct_count_atmost_1 le_numeral_extra(3) le_numeral_extra(4) zero_le)
  moreover have "set (wire (channel (eds z))) \<inter> set (dropped z) = {}"
  proof (intro equals0I)
    fix f
    assume "f \<in> set (wire (channel (eds z))) \<inter> set (dropped z)"
    then have "count (mset (wire (channel (eds z)))) f \<ge> 1" "count (mset (dropped z)) f \<ge> 1"
      by (simp_all add: Suc_leI)
    moreover have "count (whereabouts z) f \<le> 1" by (rule spec [OF one])
    ultimately show False unfolding whereabouts_def count_union by linarith
  qed
  ultimately show ?thesis using d by auto
qed

section \<open>Order\<close>

text \<open>
  Steps that keep the order: a direct send only while nothing waits, the tasks one after the other,
  no failing send of theirs.
\<close>

definition nothing_waits :: "sender_system \<Rightarrow> bool" where
  "nothing_waits y \<longleftrightarrow> pending_frames (eds y) = [] \<and> in_hand (drainer y) = [] \<and> concat (batches (eds y)) = []"

fun calm :: "micro \<Rightarrow> sender_system \<Rightarrow> bool" where
  "calm (SendNow i r now) y \<longleftrightarrow> (case caller_at i y of Some (AtSend f) \<Rightarrow> nothing_waits y | _ \<Rightarrow> True)"
| "calm (BatchSend j r) y \<longleftrightarrow>
     r = Ok () \<and> \<not> is_closing (channel (eds y)) \<and> (\<forall>k < j. batches (eds y) ! k = [])"
| "calm _ y \<longleftrightarrow> True"

fun calm_run :: "micro list \<Rightarrow> sender_system \<Rightarrow> bool" where
  "calm_run [] y \<longleftrightarrow> True"
| "calm_run (e # es) y \<longleftrightarrow> calm e y \<and> calm_run es (micro_step e y)"

definition ordered :: "sender_system \<Rightarrow> bool" where
  "ordered y \<longleftrightarrow>
     taken y = wire (channel (eds y)) @ concat (batches (eds y)) @ in_hand (drainer y) @ pending_frames (eds y)"

lemma concat_first_batch:
  "j < length bs \<Longrightarrow> \<forall>k < j. bs ! k = [] \<Longrightarrow> bs ! j = f # fs \<Longrightarrow> concat bs = f # concat (bs[j := fs])"
proof (induction bs arbitrary: j)
  case (Cons b bs)
  show ?case
  proof (cases j)
    case (Suc i)
    with Cons.prems have "b = []" "\<forall>k < i. bs ! k = []" by (auto simp: nth_Cons split: nat.splits)
    with Cons Suc show ?thesis by simp
  qed (use Cons in simp)
qed simp

lemma ordered_step:
  assumes "ordered y" "calm e y"
  shows "ordered (micro_step e y)"
proof (cases e)
  case (Call i f)
  with assms show ?thesis by (auto simp: ordered_def split: option.splits caller.splits)
next
  case (SendNow i r now)
  have "ordered (send_step i r now f y)" if "caller_at i y = Some (AtSend f)" for f
    by (cases rule: send_now_cases [of r now f "eds y"])
      (use assms SendNow that in \<open>auto simp: send_step_def ordered_def nothing_waits_def dest: dc_send_Ok simp del: concat_eq_Nil_conv\<close>)
  with SendNow assms show ?thesis by (auto split: option.splits caller.splits)
next
  case (Check i now)
  have "ordered (check_step i now f y)" for f
    by (cases rule: check_queue_cases [of now "eds y"]) (use assms in \<open>auto simp: check_step_def ordered_def\<close>)
  with Check assms show ?thesis by (auto split: option.splits caller.splits)
next
  case (Push i)
  with assms show ?thesis by (auto simp: ordered_def push_frame_def split: option.splits caller.splits)
next
  case (Count i)
  with assms show ?thesis by (auto simp: ordered_def count_frame_def split: option.splits caller.splits)
next
  case Pop
  with assms show ?thesis
    by (auto simp: ordered_def pop_frame_def split: option.splits drainer.splits list.splits)
next
  case Lower
  have "ordered (lower_step b y)" if "drainer y = Popped b" for b
    by (cases rule: lower_step_cases [of y b]) (use assms that in \<open>auto simp: ordered_def\<close>)
  with Lower assms show ?thesis by (auto split: drainer.splits)
next
  case (BatchSend j r)
  show ?thesis
  proof (cases rule: batch_send_cases [of j r "eds y"])
    case (sent f fs)
    with assms BatchSend concat_first_batch [of j "batches (eds y)" f fs] show ?thesis
      by (simp add: ordered_def)
  next
    case (failed f fs)
    with assms BatchSend show ?thesis by (auto simp: batch_send_def dc_send_def)
  qed (use assms BatchSend in simp)
qed (use assms in \<open>auto simp: ordered_def split: drainer.splits\<close>)

text \<open>
  C34 (functional). As long as no frame is sent directly while others wait and the background tasks
  run one after the other without a failure, the frames reach the channel in the order in which
  they were taken over, none missing and none twice.
\<close>

theorem frames_in_order:
  assumes "wire c = []" "calm_run es (start_system c t n)" "y = run_micro es (start_system c t n)"
  shows "taken y = wire (channel (eds y)) @ concat (batches (eds y)) @ in_hand (drainer y) @ pending_frames (eds y)"
proof -
  have "ordered y \<Longrightarrow> calm_run es y \<Longrightarrow> ordered (run_micro es y)" for y
    by (induction es arbitrary: y) (simp_all add: ordered_step)
  moreover have "ordered (start_system c t n)"
    using assms(1) by (simp add: ordered_def start_system_def new_sender_def)
  ultimately show ?thesis using assms by (simp add: ordered_def)
qed

text \<open>
  The drained buffer allows direct sends again before the frames that wait in the queue have left: a
  call that comes between the callback and its task's first send puts its frame in front of them.
\<close>

definition drain_once :: "nat \<Rightarrow> micro list" where
  "drain_once k = BufferLow # replicate (Suc k) Pop @ [Lower]"

definition send_batch :: "nat \<Rightarrow> nat \<Rightarrow> micro list" where
  "send_batch j k = replicate k (BatchSend j (Ok ()))"

lemma run_pops:
  "drainer y = Popping b \<Longrightarrow> length b + length (pending_frames (eds y)) \<le> BATCH \<Longrightarrow>
     run_micro (replicate (length (pending_frames (eds y))) Pop) y =
       y\<lparr>eds := (eds y)\<lparr>pending_frames := []\<rparr>, drainer := Popping (b @ pending_frames (eds y))\<rparr>"
proof (induction "pending_frames (eds y)" arbitrary: y b)
  case Nil
  then have "(eds y)\<lparr>pending_frames := []\<rparr> = eds y" by (intro event_sender.equality) simp_all
  with Nil show ?case by (intro sender_system.equality) simp_all
next
  case (Cons f q)
  let ?y = "y\<lparr>eds := (eds y)\<lparr>pending_frames := q\<rparr>, drainer := Popping (b @ [f])\<rparr>"
  have "micro_step Pop y = ?y"
    using Cons.hyps(2) [symmetric] Cons.prems by (simp add: pop_frame_def)
  moreover have "q = pending_frames (eds ?y)" "length (b @ [f]) + length (pending_frames (eds ?y)) \<le> BATCH"
    using Cons.prems Cons.hyps(2) [symmetric] by simp_all
  note Cons.hyps(1) [OF this(1) _ this(2)]
  ultimately show ?case using Cons.hyps(2) [symmetric] by simp
qed

lemma run_batch:
  "j < length (batches (eds y)) \<Longrightarrow> batches (eds y) ! j = fs \<Longrightarrow> \<not> is_closing (channel (eds y)) \<Longrightarrow>
     wire (channel (eds (run_micro (send_batch j (length fs)) y))) = wire (channel (eds y)) @ fs"
proof (induction fs arbitrary: y)
  case Nil
  then show ?case by (simp add: send_batch_def)
next
  case (Cons f fs)
  let ?y = "micro_step (BatchSend j (Ok ())) y"
  have y: "?y = y\<lparr>eds := (eds y)\<lparr>channel := (channel (eds y))\<lparr>wire := wire (channel (eds y)) @ [f]\<rparr>,
                                 batches := (batches (eds y))[j := fs]\<rparr>, dropped := dropped y\<rparr>"
    using Cons.prems by (simp add: batch_send_def dc_send_def)
  have "wire (channel (eds (run_micro (send_batch j (length fs)) ?y))) = wire (channel (eds ?y)) @ fs"
    unfolding y by (rule Cons.IH) (use Cons.prems in simp_all)
  then show ?case by (simp add: send_batch_def y del: micro_step.simps)
qed

lemma run_drain:
  assumes w: "drainer y = Waiting" and q: "length (pending_frames (eds y)) \<le> BATCH" "pending_frames (eds y) \<noteq> []"
    and n: "queue_size (eds y) = of_nat (length (pending_frames (eds y)))"
  shows "run_micro (drain_once (length (pending_frames (eds y)))) y =
           y\<lparr>eds := (eds y)\<lparr>can_send := True, pending_frames := [], queue_size := 0,
                           batches := batches (eds y) @ [pending_frames (eds y)]\<rparr>\<rparr>"
proof -
  let ?q = "pending_frames (eds y)"
  let ?y = "y\<lparr>eds := (eds y)\<lparr>can_send := True\<rparr>, drainer := Popping []\<rparr>"
  have "run_micro (replicate (length ?q) Pop) ?y =
          ?y\<lparr>eds := (eds ?y)\<lparr>pending_frames := []\<rparr>, drainer := Popping ?q\<rparr>"
    using run_pops [of ?y "[]"] q by simp
  moreover have "replicate (Suc (length ?q)) Pop = replicate (length ?q) Pop @ [Pop]"
    by (simp add: replicate_append_same)
  ultimately show ?thesis
    using assms
    by (simp add: drain_once_def run_append pop_frame_def lower_step_def lower_count_def start_batch_def
        del: replicate_Suc)
qed

text \<open>
  The sender reorders: when the channel's buffer has drained while frames wait in the
  queue, a call that comes before the background task has sent them puts its frame on the wire in
  front of them, although they were taken over before it.
\<close>

lemma direct_send_overtakes:
  assumes "drainer y = Waiting" "pending_frames (eds y) = q" "q \<noteq> []" "length q \<le> BATCH"
    and "queue_size (eds y) = of_nat (length q)" "\<not> is_closing (channel (eds y))"
    and "i < length (callers y)" "callers y ! i = Returned x"
    and "y' = run_micro (drain_once (length q) @ whole_call i f (Ok ()) now @
                         send_batch (length (batches (eds y))) (length q)) y"
  shows "wire (channel (eds y')) = wire (channel (eds y)) @ [f] @ q \<and> taken y' = taken y @ [f]"
proof -
  let ?y = "run_micro (drain_once (length q)) y"
  let ?z = "run_micro (whole_call i f (Ok ()) now) ?y"
  have y: "?y = y\<lparr>eds := (eds y)\<lparr>can_send := True, pending_frames := [], queue_size := 0,
                                  batches := batches (eds y) @ [q]\<rparr>\<rparr>"
    using run_drain [of y] assms by simp
  have z: "channel (eds ?z) = (channel (eds y))\<lparr>wire := wire (channel (eds y)) @ [f]\<rparr>"
    "batches (eds ?z) = batches (eds y) @ [q]" "taken ?z = taken y @ [f]"
    using assms(6-8) unfolding y
    by (simp_all add: whole_call_def caller_at_def send_step_def send_now_def dc_send_def)
  have "wire (channel (eds (run_micro (send_batch (length (batches (eds y))) (length q)) ?z))) =
          wire (channel (eds ?z)) @ q"
    by (rule run_batch) (use assms(6) in \<open>simp_all add: z\<close>)
  moreover have "taken (run_micro (send_batch j k) w) = taken w" for j k w
    by (induction k arbitrary: w) (simp_all add: send_batch_def split: prod.split)
  ultimately show ?thesis unfolding assms(9) run_append z by (simp add: z)
qed


section \<open>The bound of the queue\<close>

text \<open>
  Callers that have passed the check, and callers that have pushed and not yet counted. The counter is
  not the length of the queue: it is bounded by it up to the callers in between.
\<close>

definition pushing :: "caller \<Rightarrow> nat" where
  "pushing p = (case p of AtPush _ \<Rightarrow> 1 | _ \<Rightarrow> 0)"

definition counting :: "caller \<Rightarrow> nat" where
  "counting p = (case p of AtCount \<Rightarrow> 1 | _ \<Rightarrow> 0)"

definition total :: "(caller \<Rightarrow> nat) \<Rightarrow> sender_system \<Rightarrow> nat" where
  "total w y = sum_list (map w (callers y))"

lemma pushing_simps [simp]:
  "pushing (Returned x) = 0" "pushing (AtSend f) = 0" "pushing (AtCheck f) = 0" "pushing (AtPush f) = 1" "pushing AtCount = 0"
  by (simp_all add: pushing_def)

lemma counting_simps [simp]:
  "counting (Returned x) = 0" "counting (AtSend f) = 0" "counting (AtCheck f) = 0" "counting (AtPush f) = 0" "counting AtCount = 1"
  by (simp_all add: counting_def)

lemma total_goes:
  "i < length (callers y) \<Longrightarrow> total w (goes i p y) + w (callers y ! i) = total w y + w p"
proof -
  have "i < length ps \<Longrightarrow> sum_list (map w (ps[i := p])) + w (ps ! i) = sum_list (map w ps) + w p" for ps :: "caller list"
  proof (induction ps arbitrary: i)
    case (Cons a ps)
    then show ?case by (cases i) auto
  qed simp
  then show "i < length (callers y) \<Longrightarrow> ?thesis" by (simp add: total_def)
qed

lemma total_keeps [simp]:
  "total w (y\<lparr>eds := s\<rparr>) = total w y" "total w (y\<lparr>drainer := d\<rparr>) = total w y"
  "total w (y\<lparr>taken := l\<rparr>) = total w y" "total w (y\<lparr>dropped := l\<rparr>) = total w y"
  by (simp_all add: total_def)

lemma total_pushing_counting: "total pushing y + total counting y \<le> length (callers y)"
proof -
  have "sum_list (map pushing ps) + sum_list (map counting ps) \<le> length ps" for ps
  proof (induction ps)
    case (Cons p ps)
    then show ?case by (cases p) auto
  qed simp
  then show ?thesis by (simp add: total_def)
qed

definition queued :: "sender_system \<Rightarrow> nat" where
  "queued y = length (pending_frames (eds y))"

definition held :: "sender_system \<Rightarrow> nat" where
  "held y = length (in_hand (drainer y))"

definition counter :: "sender_system \<Rightarrow> nat" where
  "counter y = unat (queue_size (eds y))"

definition queue_inv :: "nat \<Rightarrow> sender_system \<Rightarrow> bool" where
  "queue_inv n y \<longleftrightarrow>
     length (callers y) = n \<and> held y \<le> BATCH \<and> (\<forall>b. drainer y \<noteq> Underflow b) \<and>
     queued y + total pushing y \<le> 9999 + n \<and>
     queued y + held y \<le> counter y + total counting y \<and>
     counter y + total counting y \<le> queued y + held y + n"

text \<open>The reset follows the subtraction that needs it.\<close>

fun paired :: "micro list \<Rightarrow> bool" where
  "paired [] \<longleftrightarrow> True"
| "paired (e # es) \<longleftrightarrow>
     (if e = Lower then (case es of ResetCount # es' \<Rightarrow> paired es' | _ \<Rightarrow> False) else e \<noteq> ResetCount \<and> paired es)"

lemma queue_inv_same:
  assumes "queue_inv n y" "length (callers z) = length (callers y)"
    and "queued z = queued y" "held z = held y" "counter z = counter y" "drainer z = drainer y"
    and "total pushing z = total pushing y" "total counting z = total counting y"
  shows "queue_inv n z"
  using assms by (simp add: queue_inv_def)

lemma count_update [simp]:
  "queued (y\<lparr>eds := s\<rparr>) = length (pending_frames s)" "queued (goes i p y) = queued y"
  "held (goes i p y) = held y" "counter (goes i p y) = counter y" "held (y\<lparr>eds := s\<rparr>) = held y"
  "counter (y\<lparr>eds := s\<rparr>) = unat (queue_size s)" "queued (y\<lparr>taken := l\<rparr>) = queued y" "held (y\<lparr>taken := l\<rparr>) = held y"
  "counter (y\<lparr>taken := l\<rparr>) = counter y" "queued (y\<lparr>dropped := l\<rparr>) = queued y" "held (y\<lparr>dropped := l\<rparr>) = held y"
  "counter (y\<lparr>dropped := l\<rparr>) = counter y" "queued (y\<lparr>drainer := d\<rparr>) = queued y"
  "held (y\<lparr>drainer := d\<rparr>) = length (in_hand d)" "counter (y\<lparr>drainer := d\<rparr>) = counter y"
  by (simp_all add: queued_def held_def counter_def goes_def)

text \<open>A caller that stays out of the critical part changes nothing here.\<close>

lemma queue_inv_goes:
  assumes "queue_inv n y" "i < length (callers y)"
    and "pushing p = pushing (callers y ! i)" "counting p = counting (callers y ! i)"
    and "length (pending_frames s) = queued y" "unat (queue_size s) = counter y"
  shows "queue_inv n (goes i p (y\<lparr>eds := s, taken := l\<rparr>))" "queue_inv n (goes i p (y\<lparr>eds := s\<rparr>))"
  using assms total_goes [of i "y\<lparr>eds := s\<rparr>" pushing p] total_goes [of i "y\<lparr>eds := s\<rparr>" counting p]
    total_goes [of i "y\<lparr>eds := s, taken := l\<rparr>" pushing p] total_goes [of i "y\<lparr>eds := s, taken := l\<rparr>" counting p]
  by (auto intro!: queue_inv_same [OF assms(1)])

lemma queue_inv_send:
  assumes "queue_inv n y" "i < length (callers y)" "callers y ! i = AtSend f"
  shows "queue_inv n (send_step i r now f y)"
proof -
  have "queue_inv n (goes i (Returned x) y)" for x
    using queue_inv_goes(2) [OF assms(1,2), of "Returned x" "eds y"] assms(3) by (simp add: queued_def counter_def)
  then show ?thesis
    by (cases rule: send_now_cases [of r now f "eds y"])
      (use assms in \<open>auto simp: send_step_def queued_def counter_def intro!: queue_inv_goes\<close>)
qed

lemma queue_inv_check:
  assumes y: "queue_inv n y" "i < length (callers y)" "callers y ! i = AtCheck f"
  shows "queue_inv n (check_step i now f y)"
proof (cases rule: check_queue_cases [of now "eds y"])
  case full
  with y show ?thesis by (auto simp: check_step_def queued_def counter_def intro!: queue_inv_goes)
next
  case room
  let ?z = "goes i (AtPush f) (y\<lparr>eds := watch_pressure now (queue_size (eds y)) (eds y)\<rparr>)"
  have t: "total pushing ?z = total pushing y + 1" "total counting ?z = total counting y"
    using total_goes [of i "y\<lparr>eds := watch_pressure now (queue_size (eds y)) (eds y)\<rparr>" pushing "AtPush f"]
      total_goes [of i "y\<lparr>eds := watch_pressure now (queue_size (eds y)) (eds y)\<rparr>" counting "AtPush f"] y by simp_all
  have q: "queued ?z = queued y" "counter ?z = counter y" "held ?z = held y" "length (callers ?z) = length (callers y)"
    by (simp_all add: queued_def counter_def)
  have "total pushing ?z + total counting ?z \<le> n" using total_pushing_counting [of ?z] y by (simp add: queue_inv_def)
  moreover have "counter y \<le> 9999" using room(2) by (simp add: counter_def MAX_QUEUE_def word_less_nat_alt)
  ultimately have "queue_inv n ?z" using y(1) unfolding queue_inv_def t q by simp
  with room show ?thesis by (simp add: check_step_def)
qed

lemma queue_inv_push:
  assumes y: "queue_inv n y" "i < length (callers y)" "callers y ! i = AtPush f"
  shows "queue_inv n (goes i AtCount (y\<lparr>eds := push_frame f (eds y), taken := l\<rparr>))"
proof -
  let ?y = "y\<lparr>eds := push_frame f (eds y), taken := l\<rparr>"
  show ?thesis
    using y total_goes [of i ?y pushing AtCount] total_goes [of i ?y counting AtCount]
    by (simp add: queue_inv_def push_frame_def counter_def queued_def)
qed

lemma queue_inv_count:
  assumes y: "queue_inv n y" "i < length (callers y)" "callers y ! i = AtCount" and n: "n < 2 ^ 32"
  shows "queue_inv n (goes i (Returned x) (y\<lparr>eds := count_frame (eds y)\<rparr>))"
proof -
  let ?y = "y\<lparr>eds := count_frame (eds y)\<rparr>"
  have "counter y + 1 < 2 ^ 64" using y(1) n by (simp add: queue_inv_def BATCH_def)
  then have "unat (queue_size (eds y) + 1) = counter y + 1"
    by (simp add: counter_def unat_word_ariths unat_of_nat)
  then show ?thesis
    using y total_goes [of i ?y pushing "Returned x"] total_goes [of i ?y counting "Returned x"]
    by (simp add: queue_inv_def count_frame_def queued_def)
qed

lemma queue_inv_pop:
  assumes y: "queue_inv n y" "drainer y = Popping b" and p: "pop_frame b (eds y) = Some (f, s)"
  shows "queue_inv n (y\<lparr>eds := s, drainer := Popping (b @ [f])\<rparr>)"
proof -
  from p have s: "pending_frames (eds y) = f # pending_frames s" "length b < BATCH" "queue_size s = queue_size (eds y)"
    by (auto simp: pop_frame_def split: if_splits list.splits)
  with y show ?thesis by (auto simp: queue_inv_def queued_def held_def counter_def)
qed

lemma queue_inv_lower:
  assumes y: "queue_inv n y" "n < 2 ^ 32"
  shows "queue_inv n (micro_step ResetCount (micro_step Lower y))"
proof (cases "drainer y")
  case (Popped b)
  then have k: "held y = length b" "length b \<le> BATCH" using y(1) by (auto simp: queue_inv_def held_def)
  then have u: "unat (of_nat (length b) :: u64) = length b" by (simp add: unat_of_nat BATCH_def)
  show ?thesis
  proof (cases rule: lower_step_cases [of y b])
    case short
    then have "counter y < length b" by (simp add: word_less_nat_alt u counter_def)
    moreover have "total counting y \<le> n" using total_pushing_counting [of y] y(1) by (simp add: queue_inv_def)
    ultimately show ?thesis using short Popped y k by (simp add: queue_inv_def queued_def)
  next
    case enough
    then have "length b \<le> counter y" by (simp add: word_less_nat_alt u counter_def)
    moreover from enough have "unat (queue_size (eds y) - of_nat (length b)) = counter y - length b"
      by (simp add: counter_def unat_sub_if' word_less_nat_alt word_le_nat_alt u)
    ultimately show ?thesis using enough Popped y k by (simp add: queue_inv_def queued_def) arith
  qed
qed (use y in \<open>simp_all add: queue_inv_def\<close>)

lemma batch_send_keeps:
  "pending_frames (fst (batch_send j r s)) = pending_frames s" "queue_size (fst (batch_send j r s)) = queue_size s"
  by (cases rule: batch_send_cases [of j r s]; simp)+

lemma queue_inv_step:
  assumes y: "queue_inv n y" "n < 2 ^ 32" and e: "e \<noteq> Lower" "e \<noteq> ResetCount"
  shows "queue_inv n (micro_step e y)"
proof (cases e)
  case (Call i f)
  have "queue_inv n (goes i (if can_send (eds y) then AtSend f else AtCheck f) y)"
    if "i < length (callers y)" "callers y ! i = Returned x" for x
    using queue_inv_goes(2) [OF y(1) that(1), of "if can_send (eds y) then AtSend f else AtCheck f" "eds y"] that
    by (simp add: queued_def counter_def)
  with Call y show ?thesis by (auto simp: caller_at_Some split: option.splits caller.splits)
next
  case (Pop)
  have "queue_inv n (y\<lparr>drainer := Popped b\<rparr>)" if "drainer y = Popping b" for b
    using y that by (simp add: queue_inv_def held_def)
  with Pop y show ?thesis by (auto split: drainer.splits option.splits intro: queue_inv_pop)
next
  case BufferLow
  with y show ?thesis by (auto simp: queue_inv_def held_def queued_def counter_def)
next
  case (BatchSend j r)
  have "queue_inv n (y\<lparr>eds := fst (batch_send j r (eds y)), dropped := l\<rparr>)" for l
    by (rule queue_inv_same [OF y(1)]) (simp_all add: batch_send_keeps queued_def counter_def)
  with BatchSend show ?thesis by (simp split: prod.split) (metis fst_conv)
next
  case CloseChannel
  with y show ?thesis by (auto intro!: queue_inv_same [OF y(1)] simp: queued_def counter_def)
qed (use y e in \<open>auto simp: caller_at_Some split: option.splits caller.splits
      intro: queue_inv_send queue_inv_check queue_inv_push queue_inv_count\<close>)

lemma queue_inv_run: "queue_inv n y \<Longrightarrow> n < 2 ^ 32 \<Longrightarrow> paired es \<Longrightarrow> queue_inv n (run_micro es y)"
proof (induction es arbitrary: y rule: paired.induct)
  case (2 e es)
  show ?case
  proof (cases "e = Lower")
    case True
    with 2(5) obtain es' where es: "es = ResetCount # es'" "paired es'"
      by (auto split: list.splits micro.splits)
    from 2(1) [OF True es(1) refl queue_inv_lower [OF 2(3,4)] 2(4) es(2)] True es(1)
    show ?thesis by (simp del: micro_step.simps)
  next
    case False
    with 2(5) have "e \<noteq> ResetCount" "paired es" by (auto simp del: micro_step.simps)
    with 2(2) [OF False] queue_inv_step [OF 2(3,4) False] 2(4) show ?thesis by (simp del: micro_step.simps)
  qed
qed simp

lemma start_queue_inv: "queue_inv n (start_system c t n)"
    by (simp add: sum_list_replicate queue_inv_def start_system_def new_sender_def queued_def held_def counter_def total_def)


text \<open>
  The counter can exceed the queue, although the frame is pushed first and counted afterwards:
  the callback takes a frame that is pushed and not yet counted, finds the counter too small and
  sets it to zero, and the caller counts its frame after that.
\<close>

definition late_count :: "nat \<Rightarrow> bytes \<Rightarrow> u64 \<Rightarrow> micro list" where
  "late_count i f now =
     [Call i f, Check i now, Push i, BufferLow, Pop, Pop, Lower, ResetCount, Count i]"

lemma counter_exceeds_queue:
  assumes "drainer y = Waiting" "pending_frames (eds y) = []" "queue_size (eds y) = 0" "\<not> can_send (eds y)"
    and "i < length (callers y)" "callers y ! i = Returned x"
    and z: "z = run_micro (late_count i f now) y"
  shows "pending_frames (eds z) = [] \<and> queue_size (eds z) = 1"
proof -
  let ?s = "(watch_pressure now 0 (eds y))\<lparr>pending_frames := [f]\<rparr>"
  have "run_micro [Call i f, Check i now, Push i] y =
          (y\<lparr>eds := ?s, taken := taken y @ [f], callers := (callers y)[i := AtCount]\<rparr>)"
    using assms(1-6)
    by (simp add: caller_at_def check_step_def check_queue_def MAX_QUEUE_def push_frame_def goes_def)
  moreover have "late_count i f now = [Call i f, Check i now, Push i] @ [BufferLow, Pop, Pop, Lower, ResetCount, Count i]"
    by (simp add: late_count_def)
  ultimately have "z = run_micro [BufferLow, Pop, Pop, Lower, ResetCount, Count i]
      (y\<lparr>eds := ?s, taken := taken y @ [f], callers := (callers y)[i := AtCount]\<rparr>)"
    unfolding z by (simp only: run_append)
  with assms(1-6) show ?thesis
    by (simp add: caller_at_def pop_frame_def BATCH_def lower_step_def lower_count_def start_batch_def count_frame_def)
qed

section \<open>Witnesses\<close>

definition sample_dc :: data_channel where
  "sample_dc = \<lparr>is_closing = False, is_open = True, buffered_amount_low_threshold = 0, wire = []\<rparr>"

text \<open>A refused direct send, two frames in the queue, the callback and its task.\<close>

definition sample_queue :: "micro list" where
  "sample_queue = whole_call 0 [1] (Err ''busy'') 1 @ whole_call 0 [2] (Ok ()) 2"

definition sample_system :: sender_system where
  "sample_system = run_micro sample_queue (start_system sample_dc 8192 1)"

lemma sample_system:
  "sample_system =
     \<lparr>eds = \<lparr>channel = \<lparr>is_closing = False, is_open = True, buffered_amount_low_threshold = 8192, wire = []\<rparr>,
             pending_frames = [[1], [2]],
             can_send = False, threshold = 8192, queue_size = 2, high_queue_start_ns = 0, frames_blocked = 0,
             retry = \<lparr>attempts = 0, last_retry_ns = 0\<rparr>, batches = []\<rparr>,
      callers = [Returned (Some (Ok ()))], drainer = Waiting, taken = [[1], [2]], dropped = []\<rparr>"
  by code_simp

definition sample_overtaken :: sender_system where
  "sample_overtaken =
     run_micro (drain_once (length [[1::u8], [2]]) @ whole_call 0 [3] (Ok ()) 3 @
                send_batch (length (batches (eds sample_system))) (length [[1::u8], [2]])) sample_system"

definition sample_failed :: sender_system where
  "sample_failed =
     run_micro [BatchSend 0 (Ok ())] (micro_step (BatchSend 0 (Err ''busy''))
       (run_micro (sample_queue @ drain_once 2) (start_system sample_dc 8192 1)))"

theorem failed_batch_lost_witness: "set [[1], [2]] \<inter> set (wire (channel (eds sample_failed))) = {}"
proof -
  let ?y = "run_micro (sample_queue @ drain_once 2) (start_system sample_dc 8192 1)"
  have b: "batches (eds ?y) = [[[1], [2]]]" "distinct (taken sample_failed)" "wire sample_dc = []"
    by code_simp+
  then show ?thesis using failed_batch_lost [OF b(3) refl _ sample_failed_def b(2)] by simp
qed


theorem frames_in_order_witness:
  "\<exists>es. es = sample_queue @ drain_once 2 @ send_batch 0 2 \<and>
        taken (run_micro es (start_system sample_dc 8192 1)) =
        wire (channel (eds (run_micro es (start_system sample_dc 8192 1)))) @ []"
proof -
  let ?es = "sample_queue @ drain_once 2 @ send_batch 0 2"
  let ?y = "run_micro ?es (start_system sample_dc 8192 1)"
  have b: "calm_run ?es (start_system sample_dc 8192 1)" "wire sample_dc = []" "concat (batches (eds ?y)) = []"
    "in_hand (drainer ?y) = []" "pending_frames (eds ?y) = []"
    by code_simp+
  show ?thesis using frames_in_order [OF b(2,1) refl] b(3-5) by simp
qed

end
