(* ===== verification/Early_Messages.thy ===== *)
theory Early_Messages
  imports Prelude
begin

text \<open>
  The messages that reach a data channel before its \<open>Channel\<close> exists: the buffering handler of
  \<open>WebRTCDataChannel::new\<close>, \<open>take_early_messages\<close>, and the hand-over to the real handler in
  \<open>setup_channel_for_data_channel\<close> (\<open>tube_and_channel_helpers.rs\<close>). The library calls the
  handler that is set when a message arrives and runs what it returns later, one message after the other;
  the set-up runs on a thread of its own, so its steps and the handlers' are interleaved.
\<close>

section \<open>State\<close>

text \<open>
  A handler's future: the buffering one before it has read its flag and after it, the real one. The set-up:
  before the real handler is set, before the flag is cleared, popping with the messages popped so far, forwarding,
  finished.
\<close>

datatype body = EarlyCheck bytes | EarlyPush bytes | Forward bytes

datatype setup_state = Unset | HandlerSet | Taking "bytes list" | Sending "bytes list" | Finished

record early_channel =
  early_message_buffer :: "bytes list"
  early_message_count :: u64
  early_buffering_active :: bool
  setup_at :: setup_state
  bodies :: "body list"
  to_channel :: "bytes list"
  arrived :: "bytes list"

definition new_early :: early_channel where
  "new_early =
     \<lparr>early_message_buffer = [], early_message_count = 0, early_buffering_active = True, setup_at = Unset,
      bodies = [], to_channel = [], arrived = []\<rparr>"

section \<open>Steps\<close>

definition arrive :: "bytes \<Rightarrow> early_channel \<Rightarrow> early_channel" where
  "arrive m e =
     e\<lparr>arrived := arrived e @ [m],
       bodies := bodies e @ [if setup_at e = Unset then EarlyCheck m else Forward m]\<rparr>"

text \<open>The first future runs up to its next access to shared state.\<close>

definition run_body :: "early_channel \<Rightarrow> early_channel" where
  "run_body e =
     (case bodies e of
        [] \<Rightarrow> e
      | EarlyCheck m # bs \<Rightarrow> e\<lparr>bodies := if early_buffering_active e then EarlyPush m # bs else bs\<rparr>
      | EarlyPush m # bs \<Rightarrow>
          e\<lparr>early_message_count := early_message_count e + 1,
            early_message_buffer := early_message_buffer e @ [m], bodies := bs\<rparr>
      | Forward m # bs \<Rightarrow> e\<lparr>to_channel := to_channel e @ [m], bodies := bs\<rparr>)"

definition setup_step :: "early_channel \<Rightarrow> early_channel" where
  "setup_step e =
     (case setup_at e of
        Unset \<Rightarrow> e\<lparr>setup_at := HandlerSet\<rparr>
      | HandlerSet \<Rightarrow> e\<lparr>early_buffering_active := False, setup_at := Taking []\<rparr>
      | Taking ms \<Rightarrow>
          (case early_message_buffer e of
             m # q \<Rightarrow> e\<lparr>early_message_buffer := q, setup_at := Taking (ms @ [m])\<rparr>
           | [] \<Rightarrow> e\<lparr>setup_at := Sending ms\<rparr>)
      | Sending [] \<Rightarrow> e\<lparr>setup_at := Finished\<rparr>
      | Sending (m # ms) \<Rightarrow> e\<lparr>to_channel := to_channel e @ [m], setup_at := Sending ms\<rparr>
      | Finished \<Rightarrow> e)"

datatype early_event = Arrive bytes | RunBody | SetupStep

fun early_step :: "early_event \<Rightarrow> early_channel \<Rightarrow> early_channel" where
  "early_step (Arrive m) e = arrive m e"
| "early_step RunBody e = run_body e"
| "early_step SetupStep e = setup_step e"

fun early_run :: "early_event list \<Rightarrow> early_channel \<Rightarrow> early_channel" where
  "early_run [] e = e"
| "early_run (v # vs) e = early_run vs (early_step v e)"

lemma early_run_append: "early_run (vs @ ws) e = early_run ws (early_run vs e)"
  by (induction vs arbitrary: e) simp_all

section \<open>When the order is kept\<close>

text \<open>
  The two races the hand-over has to be spared: a future of the buffering handler still under
  way when the flag is cleared, and a message forwarded by the real handler before the set-up has finished.
\<close>

fun is_early :: "body \<Rightarrow> bool" where
  "is_early (EarlyCheck m) = True"
| "is_early (EarlyPush m) = True"
| "is_early (Forward m) = False"

fun undisturbed :: "early_event \<Rightarrow> early_channel \<Rightarrow> bool" where
  "undisturbed (Arrive m) e = True"
| "undisturbed RunBody e = ((case bodies e of Forward m # bs \<Rightarrow> True | _ \<Rightarrow> False) \<longrightarrow> setup_at e = Finished)"
| "undisturbed SetupStep e = (setup_at e = HandlerSet \<longrightarrow> list_all (\<lambda>b. \<not> is_early b) (bodies e))"

fun undisturbed_run :: "early_event list \<Rightarrow> early_channel \<Rightarrow> bool" where
  "undisturbed_run [] e = True"
| "undisturbed_run (v # vs) e = (undisturbed v e \<and> undisturbed_run vs (early_step v e))"

fun message_of :: "body \<Rightarrow> bytes" where
  "message_of (EarlyCheck m) = m"
| "message_of (EarlyPush m) = m"
| "message_of (Forward m) = m"

fun taken_early :: "setup_state \<Rightarrow> bytes list" where
  "taken_early (Taking ms) = ms"
| "taken_early (Sending ms) = ms"
| "taken_early _ = []"

fun past_taking :: "setup_state \<Rightarrow> bool" where
  "past_taking (Sending ms) = True"
| "past_taking Finished = True"
| "past_taking _ = False"

definition early_inv :: "early_channel \<Rightarrow> bool" where
  "early_inv e \<longleftrightarrow>
     arrived e = to_channel e @ taken_early (setup_at e) @ early_message_buffer e @ map message_of (bodies e) \<and>
     (\<not> early_buffering_active e \<longrightarrow> list_all (\<lambda>b. \<not> is_early b) (bodies e)) \<and>
     (setup_at e = Unset \<or> setup_at e = HandlerSet \<longleftrightarrow> early_buffering_active e) \<and>
     (past_taking (setup_at e) \<longrightarrow> early_message_buffer e = []) \<and>
     (\<not> past_taking (setup_at e) \<longrightarrow> to_channel e = [])"

lemma early_inv_arrive: "early_inv e \<Longrightarrow> early_inv (arrive m e)"
  by (auto simp: early_inv_def arrive_def)

lemma early_inv_body:
  assumes "early_inv e" "undisturbed RunBody e"
  shows "early_inv (run_body e)"
proof (cases "bodies e")
  case (Cons b bs)
  with assms show ?thesis
    by (cases b; cases "setup_at e") (auto simp: early_inv_def run_body_def split: if_splits)
qed (use assms in \<open>simp add: run_body_def\<close>)

lemma early_inv_setup:
  assumes "early_inv e" "undisturbed SetupStep e"
  shows "early_inv (setup_step e)"
proof (cases "setup_at e")
  case (Taking ms)
  with assms show ?thesis by (auto simp: early_inv_def setup_step_def split: list.split)
next
  case (Sending ms)
  with assms show ?thesis by (cases ms) (auto simp: early_inv_def setup_step_def)
qed (use assms in \<open>auto simp: early_inv_def setup_step_def\<close>)

lemma early_inv_run: "early_inv e \<Longrightarrow> undisturbed_run vs e \<Longrightarrow> early_inv (early_run vs e)"
proof (induction vs arbitrary: e)
  case (Cons v vs)
  then have "early_inv (early_step v e)"
    using early_inv_arrive early_inv_body [of e] early_inv_setup [of e] by (cases v) auto
  with Cons show ?case by simp
qed simp

text \<open>
  C22 (functional). When the hand-over is spared the two races, every message that has arrived on the
  data channel and whose handler has run reaches the channel, in the order of arrival and once.
\<close>

theorem early_messages_in_order:
  assumes "undisturbed_run vs new_early" "e = early_run vs new_early" "setup_at e = Finished"
  shows "arrived e = to_channel e @ map message_of (bodies e)"
proof -
  have "early_inv new_early" by (simp add: early_inv_def new_early_def)
  from early_inv_run [OF this assms(1)] show ?thesis using assms(2,3) by (simp add: early_inv_def)
qed

theorem early_messages_in_order_witness:
  "arrived (early_run [Arrive [1], RunBody, RunBody, SetupStep, Arrive [2], SetupStep, SetupStep, SetupStep,
                       SetupStep, SetupStep, RunBody] new_early) = [[1], [2]]"
  using early_messages_in_order [of "[Arrive [1], RunBody, RunBody, SetupStep, Arrive [2], SetupStep, SetupStep, SetupStep,
                       SetupStep, SetupStep, RunBody]", OF _ refl]
  by (simp add: new_early_def arrive_def run_body_def setup_step_def)

section \<open>When it is not\<close>

lemma run_setup_taking:
  "setup_at e = Taking ms \<Longrightarrow>
     early_run (replicate (Suc (length (early_message_buffer e))) SetupStep) e =
       e\<lparr>early_message_buffer := [], setup_at := Sending (ms @ early_message_buffer e)\<rparr>"
proof (induction "early_message_buffer e" arbitrary: e ms)
  case Nil
  then show ?case
    by (auto simp: setup_step_def intro!: early_channel.equality)
next
  case (Cons m q)
  let ?e = "e\<lparr>early_message_buffer := q, setup_at := Taking (ms @ [m])\<rparr>"
  have "setup_step e = ?e" using Cons.hyps(2) [symmetric] Cons.prems by (simp add: setup_step_def)
  with Cons.hyps(1) [of ?e "ms @ [m]"] Cons.hyps(2) [symmetric] Cons.prems show ?case by simp
qed

lemma run_setup_sending:
  "setup_at e = Sending ms \<Longrightarrow>
     early_run (replicate (Suc (length ms)) SetupStep) e = e\<lparr>to_channel := to_channel e @ ms, setup_at := Finished\<rparr>"
proof (induction ms arbitrary: e)
  case Nil
  then show ?case by (auto simp: setup_step_def intro!: early_channel.equality)
next
  case (Cons m ms)
  let ?e = "e\<lparr>to_channel := to_channel e @ [m], setup_at := Sending ms\<rparr>"
  have "setup_step e = ?e" using Cons.prems by (simp add: setup_step_def)
  with Cons.IH [of ?e] show ?case by simp
qed

text \<open>
  A message that arrives once the real handler is set, and whose handler runs before the set-up has
  forwarded the buffer, reaches the channel in front of all the early ones.
\<close>

lemma new_message_overtakes:
  assumes e: "setup_at e = Unset" "bodies e = []" "to_channel e = []"
    and k: "k = length (early_message_buffer e)"
  shows "to_channel (early_run ([SetupStep, Arrive m, RunBody, SetupStep] @ replicate (Suc k) SetupStep @
                                replicate (Suc k) SetupStep) e) = m # early_message_buffer e"
proof -
  let ?e = "early_run [SetupStep, Arrive m, RunBody, SetupStep] e"
  have a: "setup_at ?e = Taking []" "early_message_buffer ?e = early_message_buffer e" "to_channel ?e = [m]"
    using e by (simp_all add: setup_step_def arrive_def run_body_def)
  let ?f = "?e\<lparr>early_message_buffer := [], setup_at := Sending (early_message_buffer e)\<rparr>"
  have "early_run (replicate (Suc k) SetupStep) ?e = ?f" using run_setup_taking [OF a(1)] a(2) k by simp
  moreover have "to_channel (early_run (replicate (Suc k) SetupStep) ?f) = [m] @ early_message_buffer e"
    using run_setup_sending [of ?f "early_message_buffer e"] a k by simp
  ultimately show ?thesis by (simp only: early_run_append) simp
qed

text \<open>
  A message whose buffering handler has not run when the flag is cleared is dropped; one whose handler has
  read the flag and not yet pushed stays in the buffer that nobody empties any more.
\<close>

lemma early_message_dropped:
  assumes "setup_at e = Unset" "bodies e = []" "early_message_buffer e = []" "to_channel e = []"
  shows "let e' = early_run (Arrive m # [SetupStep, SetupStep, RunBody, SetupStep, SetupStep]) e
         in setup_at e' = Finished \<and> bodies e' = [] \<and> to_channel e' = [] \<and> early_message_buffer e' = []"
  using assms by (simp add: Let_def setup_step_def arrive_def run_body_def)

lemma early_message_stuck:
  assumes "setup_at e = Unset" "bodies e = []" "early_message_buffer e = []" "to_channel e = []"
    and "early_buffering_active e"
  shows "let e' = early_run [Arrive m, RunBody, SetupStep, SetupStep, SetupStep, RunBody, SetupStep] e
         in setup_at e' = Finished \<and> bodies e' = [] \<and> to_channel e' = [] \<and> early_message_buffer e' = [m]"
  using assms by (simp add: Let_def setup_step_def arrive_def run_body_def)

end
