(* ===== verification/Tube.thy ===== *)
theory Tube
  imports Control_Plane Data_Channel
begin

text \<open>
  \<open>tube.rs\<close>: a tube with its peer connection, its data channels and the channels that run on them, the
  callbacks it posts to the router, the signals it sends to its owner, and its explicit close; with the
  state handlers of \<open>webrtc_core.rs\<close> that move its status. What the WebRTC library, the router and the
  set-up of a channel answer are arguments. A method that awaits between two accesses to shared state
  is given in parts, one function for each; a callback to the router is one step.
\<close>

section \<open>State\<close>

datatype tube_status = New | Initializing | Connecting | Active | Ready | Failed | Closing | Closed | Disconnected

text \<open>The states of the library's connection.\<close>

datatype rtc_state = RtcNew | RtcConnecting | RtcConnected | RtcDisconnected | RtcFailed | RtcClosed

text \<open>
  \<open>monitored\<close>: the handler that watches the connection has replaced the first one. \<open>lib_closes\<close> counts the
  calls of the library's close.
\<close>

record peer =
  trickle_ice :: bool
  monitored :: bool
  pc_is_closing :: bool
  rtc_state :: rtc_state
  lib_closes :: nat

record channel_metadata =
  callback_token :: "ustring option"
  ksm_config :: "ustring option"
  client_version :: ustring
  recordings_enabled :: bool

text \<open>What is posted to the router: the configuration, the token, the version.\<close>

datatype router_post = ConnectionOpen ustring ustring ustring | ConnectionClose ustring ustring ustring

datatype signal_data = ChannelClosedData ustring string "close_reason option" | StateData string

record signal_message =
  sig_tube :: ustring
  sig_kind :: string
  sig_data :: signal_data
  sig_conversation :: ustring
  sig_progress :: int
  sig_text :: string
  sig_ok :: bool

text \<open>
  \<open>notified\<close> are the channels whose notifier has been triggered, \<open>retired\<close> the data channels taken out of
  the map by a close, \<open>old_peers\<close> the connections the tube no longer holds; \<open>posts\<close> and \<open>signals\<close> what has
  gone to the router and the owner.
\<close>

record tube =
  tube_id :: ustring
  is_server_mode_context :: bool
  original_conversation_id :: "ustring option"
  status :: tube_status
  closing :: bool
  peer_connection :: "peer option"
  data_channels :: "(ustring \<times> data_channel) list"
  has_control :: bool
  channel_shutdown_notifiers :: "ustring list"
  channel_close_reasons :: "ustring \<Rightarrow> close_reason option option"
  active_channels :: "(ustring \<times> channel_metadata) list"
  tube_client_version :: "ustring option"
  has_python_tx :: bool
  has_sender :: bool
  notified :: "ustring set"
  retired :: "(ustring \<times> data_channel) list"
  old_peers :: "peer list"
  posts :: "router_post list"
  signals :: "signal_message list"

definition new_tube :: "bool \<Rightarrow> ustring option \<Rightarrow> bool \<Rightarrow> ustring option \<Rightarrow> ustring \<Rightarrow> tube" where
  "new_tube server conv sender custom_id fresh_id =
     \<lparr>tube_id = (case custom_id of Some i \<Rightarrow> i | None \<Rightarrow> fresh_id), is_server_mode_context = server,
      original_conversation_id = conv, status = Initializing, closing = False, peer_connection = None,
      data_channels = [], has_control = False, channel_shutdown_notifiers = [],
      channel_close_reasons = Map.empty, active_channels = [], tube_client_version = None,
      has_python_tx = False, has_sender = sender, notified = {}, retired = [], old_peers = [],
      posts = [], signals = []\<rparr>"

definition get_conversation_id_for_channel :: "ustring \<Rightarrow> tube \<Rightarrow> ustring option" where
  "get_conversation_id_for_channel label t =
     (if label = ustr ''control'' then original_conversation_id t else Some label)"

definition send_signal :: "signal_message \<Rightarrow> tube \<Rightarrow> tube" where
  "send_signal m t = (if has_sender t then t\<lparr>signals := signals t @ [m]\<rparr> else t)"

definition post_router :: "router_post \<Rightarrow> tube \<Rightarrow> tube" where
  "post_router p t = t\<lparr>posts := posts t @ [p]\<rparr>"

section \<open>The peer connection\<close>

text \<open>The result of setting up the library's connection is an argument; \<open>create_peer_connection\<close> in two parts.\<close>

definition note_client_version :: "ustring \<Rightarrow> tube \<Rightarrow> tube" where
  "note_client_version v t = (if tube_client_version t = None then t\<lparr>tube_client_version := Some v\<rparr> else t)"

definition create_peer_connection :: "bool \<Rightarrow> (unit, string) result \<Rightarrow> ustring \<Rightarrow> tube \<Rightarrow> (unit, string) result \<times> tube" where
  "create_peer_connection trickle made v t =
     (case made of
        Err e \<Rightarrow> (Err e, note_client_version v t)
      | Ok _ \<Rightarrow>
          (Ok (), (note_client_version v t)\<lparr>peer_connection := Some \<lparr>trickle_ice = trickle, monitored = False,
                                             pc_is_closing = False, rtc_state = RtcNew, lib_closes = 0\<rparr>,
                                           status := Connecting\<rparr>))"

text \<open>\<open>WebRTCPeerConnection::close\<close>. The library's close gives its result or \<open>None\<close> when the time-out passes first.\<close>

definition pc_close :: "(unit, string) result option \<Rightarrow> peer \<Rightarrow> (unit, string) result \<times> peer" where
  "pc_close r p =
     (if pc_is_closing p then (Ok (), p)
      else (case r of
              Some (Ok _) \<Rightarrow> Ok ()
            | Some (Err e) \<Rightarrow> Err (''Failed to close peer connection: '' @ e)
            | None \<Rightarrow> Err ''Close operation timed out'',
            p\<lparr>pc_is_closing := True, lib_closes := lib_closes p + 1\<rparr>))"

definition is_terminal :: "tube_status \<Rightarrow> bool" where
  "is_terminal s \<longleftrightarrow> s \<in> {Closing, Closed, Failed, Disconnected}"

definition state_signal :: "string \<Rightarrow> tube \<Rightarrow> tube" where
  "state_signal s t =
     send_signal \<lparr>sig_tube = tube_id t, sig_kind = ''connection_state_changed'', sig_data = StateData s,
       sig_conversation = (case original_conversation_id t of Some c \<Rightarrow> c | None \<Rightarrow> tube_id t),
       sig_progress = (case peer_connection t of Some p \<Rightarrow> if trickle_ice p then 2 else 0 | None \<Rightarrow> 0),
       sig_text = ''OK'', sig_ok = True\<rparr> t"

definition set_peer :: "(peer \<Rightarrow> peer) \<Rightarrow> tube \<Rightarrow> tube" where
  "set_peer f t = t\<lparr>peer_connection := map_option f (peer_connection t)\<rparr>"

text \<open>
  A terminal state without trickle ICE: the connection is marked as closing and the tube's status set. The
  result tells whether the handler asks the registry to close the tube, and with which reason.
\<close>

definition peer_ended :: "string option \<Rightarrow> tube_status \<Rightarrow> close_reason \<Rightarrow> tube \<Rightarrow> close_reason option \<times> tube" where
  "peer_ended text st r t =
     (let t1 = (case text of Some s \<Rightarrow> state_signal s t | None \<Rightarrow> t);
          t2 = set_peer (\<lambda>p. p\<lparr>pc_is_closing := True\<rparr>) t1
      in (if is_terminal (status t2) then None else Some r, t2\<lparr>status := st\<rparr>))"

definition connected :: "tube \<Rightarrow> tube" where
  "connected t = state_signal ''connected'' (if status t = Ready then t else t\<lparr>status := Active\<rparr>)"

text \<open>
  The handler for a new state of the library's connection: the first one acts on Connected only and then,
  when the monitoring starts, is replaced by the other. With trickle ICE a lost connection is restarted by
  the network integration, which is outside this model. Keepalives and scans are left out.
\<close>

definition on_state_change :: "bool \<Rightarrow> rtc_state \<Rightarrow> tube \<Rightarrow> close_reason option \<times> tube" where
  "on_state_change monitoring_starts s t =
     (case peer_connection t of
        None \<Rightarrow> (None, t)
      | Some p \<Rightarrow>
          (let t1 = set_peer (\<lambda>p. p\<lparr>rtc_state := s\<rparr>) t
           in if \<not> monitored p
              then (if s = RtcConnected then (None, connected (set_peer (\<lambda>p. p\<lparr>monitored := monitoring_starts\<rparr>) t1))
                    else (None, t1))
              else case s of
                RtcDisconnected \<Rightarrow> (if trickle_ice p then (None, t1) else peer_ended (Some ''disconnected'') Disconnected ConnectionLost t1)
              | RtcFailed \<Rightarrow> (if trickle_ice p then (None, t1) else peer_ended (Some ''failed'') Failed ConnectionFailed t1)
              | RtcClosed \<Rightarrow> peer_ended None Closed Normal t1
              | RtcConnected \<Rightarrow> (None, connected t1)
              | _ \<Rightarrow> (None, t1)))"

definition get_connection_state :: "tube \<Rightarrow> rtc_state option" where
  "get_connection_state t = map_option rtc_state (peer_connection t)"

definition is_inactive_for_duration :: "nat \<Rightarrow> nat \<Rightarrow> tube \<Rightarrow> bool" where
  "is_inactive_for_duration idle_ms duration_ms t \<longleftrightarrow> peer_connection t \<noteq> None \<and> idle_ms > duration_ms"

section \<open>Callbacks to the router\<close>

definition in_test_mode :: "ustring \<Rightarrow> bool" where
  "in_test_mode ksm \<longleftrightarrow> take 21 ksm = ustr ''TEST_MODE_KSM_CONFIG_''"

definition report_connection_open :: "ustring \<Rightarrow> ustring \<Rightarrow> ustring \<Rightarrow> tube \<Rightarrow> tube" where
  "report_connection_open ksm token v t =
     (if is_server_mode_context t \<or> in_test_mode ksm then t else post_router (ConnectionOpen ksm token v) t)"

definition report_connection_close :: "ustring \<Rightarrow> ustring \<Rightarrow> ustring \<Rightarrow> tube \<Rightarrow> tube" where
  "report_connection_close ksm token v t =
     (if is_server_mode_context t \<or> in_test_mode ksm then t else post_router (ConnectionClose ksm token v) t)"

definition post_for :: "(ustring \<Rightarrow> ustring \<Rightarrow> ustring \<Rightarrow> router_post) \<Rightarrow> channel_metadata \<Rightarrow> tube \<Rightarrow> tube" where
  "post_for kind md t =
     (case (ksm_config md, callback_token md) of
        (Some ksm, Some token) \<Rightarrow> (if in_test_mode ksm then t else post_router (kind ksm token (client_version md)) t)
      | _ \<Rightarrow> t)"

definition send_connection_open_callback :: "ustring \<Rightarrow> tube \<Rightarrow> tube" where
  "send_connection_open_callback name t =
     (if is_server_mode_context t then t
      else case map_of (active_channels t) name of
             Some md \<Rightarrow> post_for ConnectionOpen md t
           | None \<Rightarrow> t)"

definition send_connection_close_callback :: "ustring \<Rightarrow> tube \<Rightarrow> tube" where
  "send_connection_close_callback name t =
     (let md = map_of (active_channels t) name
      in if (case md of Some m \<Rightarrow> recordings_enabled m | None \<Rightarrow> False) then t
         else if status t \<in> {Closing, Closed, Failed} then t
         else if is_server_mode_context t then t
         else case md of Some m \<Rightarrow> post_for ConnectionClose m t | None \<Rightarrow> t)"

section \<open>Data channels\<close>

text \<open>An insert into a map, kept as a list of its entries.\<close>

definition put :: "ustring \<Rightarrow> 'a \<Rightarrow> (ustring \<times> 'a) list \<Rightarrow> (ustring \<times> 'a) list" where
  "put k v m = (k, v) # filter (\<lambda>e. fst e \<noteq> k) m"

definition new_data_channel :: data_channel where
  "new_data_channel = \<lparr>is_closing = False, is_open = False, buffered_amount_low_threshold = 0, wire = []\<rparr>"

definition add_data_channel :: "ustring \<Rightarrow> data_channel \<Rightarrow> tube \<Rightarrow> tube" where
  "add_data_channel label dc t =
     t\<lparr>has_control := has_control t \<or> label = ustr ''control'', data_channels := put label dc (data_channels t)\<rparr>"

definition create_data_channel :: "(unit, string) result \<Rightarrow> ustring \<Rightarrow> tube \<Rightarrow> (data_channel, string) result \<times> tube" where
  "create_data_channel made label t =
     (case peer_connection t of
        None \<Rightarrow> (Err ''No peer connection available'', t)
      | Some p \<Rightarrow>
          (case made of
             Err e \<Rightarrow> (Err e, t)
           | Ok _ \<Rightarrow> (Ok new_data_channel, add_data_channel label new_data_channel t)))"

text \<open>The task that waits for a channel to open, once it has opened; the channel's close callback.\<close>

definition channel_opened :: "ustring \<Rightarrow> ustring \<Rightarrow> ustring \<Rightarrow> tube \<Rightarrow> tube" where
  "channel_opened ksm token v t = report_connection_open ksm token v (t\<lparr>status := Ready\<rparr>)"

definition channel_closed :: "ustring \<Rightarrow> ustring \<Rightarrow> ustring \<Rightarrow> tube \<Rightarrow> tube" where
  "channel_closed ksm token v t = report_connection_close ksm token v t"

section \<open>Channels\<close>

text \<open>Settings are JSON values; the parts of a \<open>Channel\<close> the tube looks at.\<close>

datatype json = JNull | JBool bool | JNumber bytes | JString ustring | JArray "json list" | JObject "(ustring \<times> json) list"

type_synonym settings = "ustring \<Rightarrow> json option"

fun as_bool :: "json \<Rightarrow> bool option" where
  "as_bool (JBool b) = Some b"
| "as_bool _ = None"

definition recordings_setting :: "settings \<Rightarrow> bool" where
  "recordings_setting s =
     (case s (ustr ''guacd_params'') of
        Some (JObject ps) \<Rightarrow> (case map_of ps (ustr ''recordingenabled'') of
                                Some v \<Rightarrow> (case as_bool v of Some b \<Rightarrow> b | None \<Rightarrow> False)
                              | None \<Rightarrow> False)
      | _ \<Rightarrow> False)"

record new_channel =
  ch_server_mode :: bool
  ch_listen_addr :: "ustring option"
  ch_protocol :: active_protocol
  ch_callback_token :: "ustring option"
  ch_ksm_config :: "ustring option"
  ch_client_version :: ustring

definition metadata_of :: "settings \<Rightarrow> new_channel \<Rightarrow> channel_metadata" where
  "metadata_of s ch =
     \<lparr>callback_token = ch_callback_token ch, ksm_config = ch_ksm_config ch, client_version = ch_client_version ch,
      recordings_enabled = recordings_setting s\<rparr>"

definition register_channel_metadata :: "ustring \<Rightarrow> channel_metadata \<Rightarrow> tube \<Rightarrow> tube" where
  "register_channel_metadata name md t = t\<lparr>active_channels := put name md (active_channels t)\<rparr>"

definition deregister_channel :: "ustring \<Rightarrow> tube \<Rightarrow> tube" where
  "deregister_channel name t = t\<lparr>active_channels := filter (\<lambda>e. fst e \<noteq> name) (active_channels t)\<rparr>"

definition insert_notifier :: "ustring \<Rightarrow> tube \<Rightarrow> tube" where
  "insert_notifier name t =
     t\<lparr>channel_shutdown_notifiers := name # filter (\<lambda>n. n \<noteq> name) (channel_shutdown_notifiers t)\<rparr>"

definition remove_channel_shutdown_signal :: "ustring \<Rightarrow> tube \<Rightarrow> tube" where
  "remove_channel_shutdown_signal name t =
     t\<lparr>channel_shutdown_notifiers := filter (\<lambda>n. n \<noteq> name) (channel_shutdown_notifiers t)\<rparr>"

definition starts_server :: "new_channel \<Rightarrow> bool" where
  "starts_server ch \<longleftrightarrow>
     ch_server_mode ch \<and> ch_protocol ch \<in> {PortForward, Socks5, Guacd} \<and>
     (case ch_listen_addr ch of Some a \<Rightarrow> a \<noteq> [] | None \<Rightarrow> False)"

definition track_channel :: "ustring \<Rightarrow> channel_metadata \<Rightarrow> tube \<Rightarrow> tube" where
  "track_channel name md t =
     (insert_notifier name (register_channel_metadata name md t))
       \<lparr>channel_close_reasons := (channel_close_reasons t)(name := Some None)\<rparr>"

text \<open>
  \<open>create_channel\<close>, after whose \<open>Ok\<close> the channel's task runs. \<open>built\<close> is the answer of
  \<open>setup_channel_for_data_channel\<close>, \<open>bound\<close> that of \<open>start_server\<close>.
\<close>

definition create_channel ::
  "ustring \<Rightarrow> settings \<Rightarrow> ustring option \<Rightarrow> (new_channel, string) result \<Rightarrow> (u16, string) result \<Rightarrow> tube
     \<Rightarrow> (u16 option, string) result \<times> tube" where
  "create_channel name stt version built bound t =
     (case version of
        None \<Rightarrow> (Err ''client_version is required for channel creation'', t)
      | Some v \<Rightarrow>
          (case peer_connection t of
             None \<Rightarrow> (Err ''No peer connection available for activity tracking'', t)
           | Some p \<Rightarrow>
               (case built of
                  Err e \<Rightarrow> (Err e, t)
                | Ok ch \<Rightarrow>
                    (let t1 = track_channel name (metadata_of stt ch) t
                     in if starts_server ch
                        then (case bound of
                                Ok port \<Rightarrow> (Ok (Some port), t1)
                              | Err e \<Rightarrow> (Err (''Failed to start server for channel'' @ e), remove_channel_shutdown_signal name t1))
                        else (Ok None, t1)))))"

text \<open>
  A data channel the remote side has created: the entry in the map decides which of several callbacks goes
  on; what follows is as in \<open>create_channel\<close>. \<open>True\<close>: the channel's task runs.
\<close>

definition on_data_channel :: "ustring \<Rightarrow> settings \<Rightarrow> (new_channel, string) result \<Rightarrow> (u16, string) result \<Rightarrow> tube \<Rightarrow> bool \<times> tube" where
  "on_data_channel label stt built bound t =
     (if label \<in> fst ` set (data_channels t) then (False, t)
      else let t1 = t\<lparr>data_channels := put label new_data_channel (data_channels t)\<rparr>
           in if tube_client_version t1 = None then (False, t1)
              else let t2 = t1\<lparr>has_control := has_control t1 \<or> label = ustr ''control''\<rparr>
                   in case built of
                        Err e \<Rightarrow> (False, t2)
                      | Ok ch \<Rightarrow>
                          (let t3 = track_channel label (metadata_of stt ch) t2
                           in if starts_server ch
                              then (case bound of
                                      Ok port \<Rightarrow> (True, t3)
                                    | Err e \<Rightarrow> (False, remove_channel_shutdown_signal label t3))
                              else (True, t3)))"

text \<open>The end of a channel's task: \<open>outcome\<close> of its run, \<open>why\<close> as stored by then.\<close>

definition finished_signal :: "ustring \<Rightarrow> string \<Rightarrow> close_reason option \<Rightarrow> tube \<Rightarrow> signal_message" where
  "finished_signal name outcome why t =
     \<lparr>sig_tube = tube_id t, sig_kind = ''channel_closed'', sig_data = ChannelClosedData name outcome why,
      sig_conversation = (case get_conversation_id_for_channel name t of Some c \<Rightarrow> c | None \<Rightarrow> name),
      sig_progress = 0, sig_text = ''Channel closed'', sig_ok = (take 6 outcome = ''normal'')\<rparr>"

definition channel_finished :: "ustring \<Rightarrow> string \<Rightarrow> tube \<Rightarrow> tube" where
  "channel_finished name outcome t =
     (let why = (case channel_close_reasons t name of Some r \<Rightarrow> r | None \<Rightarrow> None);
          t1 = send_connection_close_callback name t;
          t2 = remove_channel_shutdown_signal name (deregister_channel name t1)
      in if peer_connection t2 = None then t2 else send_signal (finished_signal name outcome why t2) t2)"

section \<open>Messages on a data channel\<close>

definition control_bytes :: "(nat \<Rightarrow> nat \<Rightarrow> nat) \<Rightarrow> u64 \<Rightarrow> control_message \<Rightarrow> bytes \<Rightarrow> bytes" where
  "control_bytes grow now m dat =
     (case new_control_with_pool grow now m dat (new_pool [] default_buffer_pool_config) of
        (f, pool) \<Rightarrow> fst (encode_with_pool grow f pool))"

definition data_bytes :: "(nat \<Rightarrow> nat \<Rightarrow> nat) \<Rightarrow> u64 \<Rightarrow> u32 \<Rightarrow> bytes \<Rightarrow> bytes" where
  "data_bytes grow now n dat =
     (case new_data_with_pool grow now n dat (new_pool [] default_buffer_pool_config) of
        (f, pool) \<Rightarrow> fst (encode_with_pool grow f pool))"

definition close_data :: "u32 \<Rightarrow> close_reason \<Rightarrow> bytes" where
  "close_data n r = be32 n @ [ucast (reason_code r)]"

text \<open>One data channel of the map is given a frame; the library's answer is the first argument.\<close>

definition send_on :: "(unit, string) result \<Rightarrow> ustring \<Rightarrow> bytes \<Rightarrow> tube \<Rightarrow> (unit, string) result \<times> tube" where
  "send_on r name f t =
     (case map_of (data_channels t) name of
        None \<Rightarrow> (Err ''Channel not found'', t)
      | Some dc \<Rightarrow>
          (case dc_send r f dc of
             (x, dc') \<Rightarrow> (x, t\<lparr>data_channels := map (\<lambda>(l, d). (l, if l = name then dc' else d)) (data_channels t)\<rparr>)))"

definition send_data_from_handler ::
  "(nat \<Rightarrow> nat \<Rightarrow> nat) \<Rightarrow> u64 \<Rightarrow> (unit, string) result \<Rightarrow> ustring \<Rightarrow> u32 \<Rightarrow> bytes \<Rightarrow> tube \<Rightarrow> (unit, string) result \<times> tube" where
  "send_data_from_handler grow now r name n dat t = send_on r name (data_bytes grow now n dat) t"

definition open_handler_connection ::
  "(nat \<Rightarrow> nat \<Rightarrow> nat) \<Rightarrow> u64 \<Rightarrow> (unit, string) result \<Rightarrow> ustring \<Rightarrow> u32 \<Rightarrow> tube \<Rightarrow> (unit, string) result \<times> tube" where
  "open_handler_connection grow now r name n t = send_on r name (control_bytes grow now OpenConnection (be32 n)) t"

definition close_handler_connection ::
  "(nat \<Rightarrow> nat \<Rightarrow> nat) \<Rightarrow> u64 \<Rightarrow> (unit, string) result \<Rightarrow> ustring \<Rightarrow> u32 \<Rightarrow> close_reason \<Rightarrow> tube \<Rightarrow> (unit, string) result \<times> tube" where
  "close_handler_connection grow now r name n why t =
     send_on r name (control_bytes grow now CloseConnection (close_data n why)) t"

section \<open>Closing\<close>

definition set_channel_reason :: "ustring \<Rightarrow> close_reason \<Rightarrow> tube \<Rightarrow> tube" where
  "set_channel_reason name r t =
     (if channel_close_reasons t name = None then t
      else t\<lparr>channel_close_reasons := (channel_close_reasons t)(name := Some (Some r))\<rparr>)"

definition close_channel ::
  "(nat \<Rightarrow> nat \<Rightarrow> nat) \<Rightarrow> u64 \<Rightarrow> (unit, string) result \<Rightarrow> ustring \<Rightarrow> close_reason option \<Rightarrow> tube \<Rightarrow> (unit, string) result \<times> tube" where
  "close_channel grow now r name why t =
     (let why' = (case why of Some x \<Rightarrow> x | None \<Rightarrow> AdminClosed);
          t1 = set_channel_reason name why' t;
          t2 = snd (send_on r name (control_bytes grow now CloseConnection (close_data 0 why')) t1)
      in (Ok (), if name \<in> set (channel_shutdown_notifiers t2)
                 then (remove_channel_shutdown_signal name t2)\<lparr>notified := insert name (notified t2)\<rparr> else t2))"

text \<open>The parts of \<open>close\<close>, in their order.\<close>

definition notify_channels :: "tube \<Rightarrow> tube" where
  "notify_channels t = t\<lparr>notified := notified t \<union> set (channel_shutdown_notifiers t)\<rparr>"

text \<open>
  The two waits. Each turn of the first sees the number of active channels and the time passed; \<open>limit\<close> is the
  time-out, \<open>turns\<close> the number of turns allowed.
\<close>

datatype wait_end = AllDone | TurnsUsed | TimedOut

fun wait_for_channels :: "nat \<Rightarrow> nat \<Rightarrow> nat \<Rightarrow> (nat \<times> nat) list \<Rightarrow> wait_end option" where
  "wait_for_channels turns limit i [] = None"
| "wait_for_channels turns limit i ((active, spent) # os) =
     (if active = 0 then Some AllDone
      else if i + 1 \<ge> turns then Some TurnsUsed
      else if spent \<ge> limit then Some TimedOut
      else wait_for_channels turns limit (i + 1) os)"

definition wait_turns :: "nat \<Rightarrow> nat" where
  "wait_turns limit_ms = limit_ms div 100 + 1"

datatype task_event = TaskDone nat | NoSender | Quiet nat

text \<open>\<open>TaskDone\<close> and \<open>Quiet\<close> carry the time since the wait began; \<open>Quiet\<close>: nothing came for 100 ms.\<close>

fun wait_for_tasks :: "nat \<Rightarrow> nat \<Rightarrow> nat \<Rightarrow> task_event list \<Rightarrow> nat option" where
  "wait_for_tasks limit n latest [] = None"
| "wait_for_tasks limit n latest (TaskDone now # es) = wait_for_tasks limit (n + 1) now es"
| "wait_for_tasks limit n latest (NoSender # es) = Some n"
| "wait_for_tasks limit n latest (Quiet now # es) =
     (if n > 0 \<and> now - latest \<ge> 200 then Some n
      else if n = 0 \<and> now \<ge> 500 then Some n
      else if now \<ge> limit then Some n
      else wait_for_tasks limit n latest es)"

definition record_close_reasons :: "close_reason \<Rightarrow> tube \<Rightarrow> tube" where
  "record_close_reasons r t = fold (\<lambda>name. set_channel_reason name r) (map fst (data_channels t)) t"

text \<open>\<open>names\<close> are the labels of the data channels as they were when the reasons were stored.\<close>

definition send_close_frames ::
  "(nat \<Rightarrow> nat \<Rightarrow> nat) \<Rightarrow> u64 \<Rightarrow> (ustring \<Rightarrow> (unit, string) result) \<Rightarrow> ustring list \<Rightarrow> close_reason \<Rightarrow> tube \<Rightarrow> tube" where
  "send_close_frames grow now answer names r t =
     t\<lparr>data_channels :=
         map (\<lambda>(l, d). (l, if l \<in> set names
                           then snd (dc_send (answer l) (control_bytes grow now CloseConnection (close_data 0 r)) d) else d))
           (data_channels t)\<rparr>"

definition drain_data_channels :: "(ustring \<Rightarrow> (unit, string) result option) \<Rightarrow> tube \<Rightarrow> tube" where
  "drain_data_channels answer t =
     t\<lparr>retired := retired t @ map (\<lambda>(l, d). (l, snd (dc_close (answer l) d))) (data_channels t), data_channels := []\<rparr>"

definition close_peer :: "(unit, string) result option \<Rightarrow> tube \<Rightarrow> (unit, string) result \<times> tube" where
  "close_peer r t =
     (case peer_connection t of
        None \<Rightarrow> (Ok (), t)
      | Some p \<Rightarrow> (case pc_close r p of (x, p') \<Rightarrow> (x, t\<lparr>peer_connection := None, old_peers := old_peers t @ [p']\<rparr>)))"

text \<open>
  The whole of \<open>close\<close> with nothing in between, and what its environment answers.
\<close>

record close_env =
  grow_to :: "nat \<Rightarrow> nat \<Rightarrow> nat"
  clock_ms :: u64
  frame_answer :: "ustring \<Rightarrow> (unit, string) result"
  channel_answer :: "ustring \<Rightarrow> (unit, string) result option"
  peer_answer :: "(unit, string) result option"

definition close_tube :: "close_env \<Rightarrow> close_reason option \<Rightarrow> tube \<Rightarrow> (unit, string) result \<times> tube" where
  "close_tube env why t =
     (let r = (case why of Some x \<Rightarrow> x | None \<Rightarrow> AdminClosed);
          t1 = notify_channels t;
          t2 = record_close_reasons r t1;
          t3 = send_close_frames (grow_to env) (clock_ms env) (frame_answer env) (map fst (data_channels t)) r t2
      in close_peer (peer_answer env) (drain_data_channels (channel_answer env) t3))"

definition has_active_channels :: "tube \<Rightarrow> bool" where
  "has_active_channels t \<longleftrightarrow> active_channels t \<noteq> []"

definition is_stale :: "tube \<Rightarrow> bool" where
  "is_stale t \<longleftrightarrow> \<not> has_active_channels t \<and> status t \<in> {Failed, Closed, Disconnected}"

definition get_callback_tokens :: "tube \<Rightarrow> ustring list" where
  "get_callback_tokens t = List.map_filter (\<lambda>e. callback_token (snd e)) (active_channels t)"

definition get_ksm_config_from_channels :: "tube \<Rightarrow> ustring option" where
  "get_ksm_config_from_channels t =
     (case List.map_filter (\<lambda>e. ksm_config (snd e)) (active_channels t) of c # _ \<Rightarrow> Some c | [] \<Rightarrow> None)"

section \<open>What a close does\<close>

lemma dc_send_closing [simp]: "is_closing (snd (dc_send r f d)) = is_closing d"
  by (auto simp: dc_send_def split: result.splits)

lemma dc_close_closing [simp]: "is_closing (snd (dc_close r d))"
  by (simp add: dc_close_def split: option.splits result.splits)

lemma set_channel_reason_keeps [simp]:
  "data_channels (set_channel_reason n r t) = data_channels t" "peer_connection (set_channel_reason n r t) = peer_connection t"
  "old_peers (set_channel_reason n r t) = old_peers t" "retired (set_channel_reason n r t) = retired t"
  "posts (set_channel_reason n r t) = posts t" "status (set_channel_reason n r t) = status t"
  by (simp_all add: set_channel_reason_def)

lemma set_channel_reason_at:
  "channel_close_reasons (set_channel_reason n r t) m =
     (if m = n then map_option (\<lambda>_. Some r) (channel_close_reasons t n) else channel_close_reasons t m)"
  by (auto simp: set_channel_reason_def)

lemma record_close_reasons_keeps [simp]:
  "data_channels (record_close_reasons r t) = data_channels t" "peer_connection (record_close_reasons r t) = peer_connection t"
  "old_peers (record_close_reasons r t) = old_peers t" "retired (record_close_reasons r t) = retired t"
  "posts (record_close_reasons r t) = posts t" "status (record_close_reasons r t) = status t"
proof -
  have "data_channels (fold (\<lambda>n. set_channel_reason n r) ns t) = data_channels t \<and>
    peer_connection (fold (\<lambda>n. set_channel_reason n r) ns t) = peer_connection t \<and>
    old_peers (fold (\<lambda>n. set_channel_reason n r) ns t) = old_peers t \<and> retired (fold (\<lambda>n. set_channel_reason n r) ns t) = retired t \<and>
    posts (fold (\<lambda>n. set_channel_reason n r) ns t) = posts t \<and> status (fold (\<lambda>n. set_channel_reason n r) ns t) = status t" for ns
    by (induction ns arbitrary: t) simp_all
  then show "data_channels (record_close_reasons r t) = data_channels t" "peer_connection (record_close_reasons r t) = peer_connection t"
    "old_peers (record_close_reasons r t) = old_peers t" "retired (record_close_reasons r t) = retired t"
    "posts (record_close_reasons r t) = posts t" "status (record_close_reasons r t) = status t"
    by (simp_all add: record_close_reasons_def)
qed

lemma record_close_reasons_at:
  "channel_close_reasons (record_close_reasons r t) m =
     (if m \<in> fst ` set (data_channels t) then map_option (\<lambda>_. Some r) (channel_close_reasons t m)
      else channel_close_reasons t m)"
proof -
  have "channel_close_reasons (fold (\<lambda>n. set_channel_reason n r) ns t) m =
     (if m \<in> set ns then map_option (\<lambda>_. Some r) (channel_close_reasons t m) else channel_close_reasons t m)" for ns
    by (induction ns arbitrary: t) (auto simp: set_channel_reason_at option.map_comp comp_def)
  then show ?thesis by (simp add: record_close_reasons_def)
qed

text \<open>The pools only lend buffers: a control frame is the encoding of its message.\<close>

lemma default_pool_inv: "pool_inv (new_pool [] default_buffer_pool_config)"
  by (rule new_pool_inv) simp_all

lemma control_bytes_eq: "control_bytes grow now m dat = encode_frame (new_control_with_buffer now m dat)"
proof -
  obtain b p where a: "acquire (new_pool [] default_buffer_pool_config) = (b, p)" by fastforce
  have p: "pool_inv p" by (rule pool.acq_inv [OF default_pool_inv a])
  obtain c q where c: "acquire p = (c, q)" by fastforce
  have "fst (encode_with_pool grow f p) = encode_frame f" for f
    using c pool.build_message(1) [OF p c] by (simp add: encode_with_pool_def encode_into_buffer_def)
  with a show ?thesis
    by (simp add: control_bytes_def new_control_with_pool_def new_control_with_buffer_def clear_buf_def put_slice_def Let_def)
qed

lemma close_data_message: "close_data n r = close_message n r None"
  by (simp add: close_data_def close_message_def)

text \<open>The peer reads the close frame of a data channel as a close of connection 0 with the reason.\<close>

lemma close_frames_understood:
  assumes "(l, d) \<in> set (data_channels t)" "\<not> is_closing d" "frame_answer env l = Ok ()"
    and "r = (case why of Some x \<Rightarrow> x | None \<Rightarrow> AdminClosed)"
  shows "\<exists>d' f. (l, d') \<in> set (retired (snd (close_tube env why t))) \<and> is_closing d' \<and>
           (\<exists>b. wire d' = wire d @ [b] \<and> try_parse_frame (b @ rest) = (Some f, rest)) \<and>
           handle_incoming_frame f = HandleControl f \<and> decode_control f = Ok (CloseConnection, close_data 0 r) \<and>
           decode_close (close_data 0 r) = Ok \<lparr>target_connection_no = 0, reason = r, error_message = None\<rparr>"
proof -
  let ?b = "control_bytes (grow_to env) (clock_ms env) CloseConnection (close_data 0 r)"
  let ?d = "snd (dc_close (channel_answer env l) (d\<lparr>wire := wire d @ [?b]\<rparr>))"
  have "snd (dc_send (frame_answer env l) ?b d) = d\<lparr>wire := wire d @ [?b]\<rparr>"
    using assms(2,3) by (simp add: dc_send_def)
  then have "(l, ?d) \<in> set (retired (snd (close_tube env why t)))"
    using assms(1,4) unfolding close_tube_def close_peer_def drain_data_channels_def send_close_frames_def notify_channels_def Let_def
    by (fastforce simp: image_iff split: option.splits prod.splits)
  moreover have "is_closing ?d" "wire ?d = wire d @ [?b]" by simp_all
  moreover from close_message_end_to_end [of "clock_ms env" 0 r None rest] obtain f where
    "try_parse_frame (?b @ rest) = (Some f, rest)" "handle_incoming_frame f = HandleControl f"
    "decode_control f = Ok (CloseConnection, close_data 0 r)"
    "decode_close (close_data 0 r) = Ok \<lparr>target_connection_no = 0, reason = r, error_message = None\<rparr>"
    by (auto simp: control_bytes_eq close_data_message)
  ultimately show ?thesis by blast
qed

text \<open>The wait for the channels ends after the turns it is given, whatever the turns see.\<close>

lemma wait_for_channels_ends:
  "turns \<le> i + length os \<Longrightarrow> os \<noteq> [] \<Longrightarrow> wait_for_channels turns limit i os \<noteq> None"
proof (induction turns limit i os rule: wait_for_channels.induct)
  case (2 turns limit i active spent os)
  then show ?case by (cases os) auto
qed simp

lemma channels_awaited: "length os = wait_turns limit \<Longrightarrow> wait_for_channels (wait_turns limit) limit 0 os \<noteq> None"
  by (rule wait_for_channels_ends) (auto simp: wait_turns_def)

section \<open>What a close leaves undone\<close>

text \<open>
  The registry sets the status before it reports the channels as closed, and a report looks at the status
  first: the router hears nothing of the channels of a tube that is closed explicitly.
\<close>

lemma closed_tube_reports_nothing:
  "status t = Closed \<Longrightarrow> send_connection_close_callback name t = t"
  by (simp add: send_connection_close_callback_def Let_def)

lemma finished_after_close_reports_nothing:
  "status t = Closed \<Longrightarrow> posts (channel_finished name outcome t) = posts t"
  by (simp add: channel_finished_def closed_tube_reports_nothing deregister_channel_def remove_channel_shutdown_signal_def
      send_signal_def Let_def)

text \<open>A channel whose server cannot be started stays registered: its tube is never taken for abandoned.\<close>

lemma failed_server_stays_registered:
  assumes "peer_connection t \<noteq> None" "starts_server ch"
  shows "\<exists>e t'. create_channel name stt (Some v) (Ok ch) (Err x) t = (Err e, t') \<and>
           name \<notin> set (channel_shutdown_notifiers t') \<and> has_active_channels t' \<and> \<not> is_stale t'"
  using assms
  by (auto simp: create_channel_def track_channel_def insert_notifier_def register_channel_metadata_def put_def
      remove_channel_shutdown_signal_def has_active_channels_def is_stale_def Let_def)

text \<open>
  C0 (error). When the monitored connection of a tube ends on its own, the handler marks the connection as
  closing before the tube is closed: the tube's close reports success, drops the connection and never calls
  the library's close.
\<close>

theorem ended_peer_never_closed:
  assumes "peer_connection t = Some p" "monitored p" "s = RtcClosed \<or> \<not> trickle_ice p \<and> s \<in> {RtcDisconnected, RtcFailed}"
    and "on_state_change b s t = (want, t1)" "close_tube env why t1 = (res, t2)"
  shows "res = Ok () \<and> peer_connection t2 = None \<and>
         (\<exists>p'. old_peers t2 = old_peers t @ [p'] \<and> lib_closes p' = lib_closes p)"
proof -
  have t1: "old_peers t1 = old_peers t"
    "\<exists>p'. peer_connection t1 = Some p' \<and> pc_is_closing p' \<and> lib_closes p' = lib_closes p"
    using assms(1-4)
    by (auto simp: on_state_change_def peer_ended_def set_peer_def state_signal_def send_signal_def Let_def split: if_splits)
  then show ?thesis using assms(5)
    by (auto simp: close_tube_def close_peer_def pc_close_def drain_data_channels_def send_close_frames_def notify_channels_def Let_def)
qed

definition sample_tube :: tube where
  "sample_tube =
     snd (create_peer_connection False (Ok ()) (ustr ''17'') (new_tube False (Some (ustr ''c'')) True (Some (ustr ''t'')) []))"

definition sample_close_env :: close_env where
  "sample_close_env = \<lparr>grow_to = max, clock_ms = 7, frame_answer = (\<lambda>_. Ok ()), channel_answer = (\<lambda>_. Some (Ok ())), peer_answer = Some (Ok ())\<rparr>"

theorem ended_peer_never_closed_witness:
  "let t = snd (on_state_change True RtcConnected sample_tube)
   in fst (on_state_change True RtcFailed t) = Some ConnectionFailed \<and>
      map lib_closes (old_peers (snd (close_tube sample_close_env None (snd (on_state_change True RtcFailed t))))) = [0]"
proof -
  let ?t = "snd (on_state_change True RtcConnected sample_tube)"
  let ?p = "\<lparr>trickle_ice = False, monitored = True, pc_is_closing = False, rtc_state = RtcConnected, lib_closes = 0\<rparr>"
  have p: "peer_connection ?t = Some ?p" "old_peers ?t = []" "fst (on_state_change True RtcFailed ?t) = Some ConnectionFailed"
    by code_simp+
  from ended_peer_never_closed [OF p(1) _ _ prod.collapse [symmetric] prod.collapse [symmetric],
      where s = RtcFailed and b = True and env = sample_close_env and why = None]
  show ?thesis using p(2,3) by (auto simp: Let_def)
qed

end
