(* ===== verification/Tube_Registry.thy ===== *)
theory Tube_Registry
  imports Tube
begin

text \<open>
  \<open>tube_registry.rs\<close>: the registry of tubes. An actor takes commands one after the other and creates tubes;
  each close runs as a task of its own; the two maps are shared by both and by every reader. The registry is a
  machine whose steps are the accesses to shared state between two awaits, interleaved at will. What the
  environment answers at a step - the library, the router, the decoding of an offer - comes with the step.
\<close>

section \<open>Requests and connection servers\<close>

record create_request =
  req_conversation :: ustring
  req_settings :: settings
  req_offer :: "ustring option"
  req_trickle :: bool
  req_token :: ustring
  req_krelay :: ustring
  req_ksm :: "ustring option"
  req_version :: ustring
  req_tube_id :: "ustring option"
  req_python_tx :: bool

record ice_server =
  urls :: "ustring list"
  ice_username :: ustring
  ice_credential :: ustring

fun as_str :: "json \<Rightarrow> ustring option" where
  "as_str (JString s) = Some s"
| "as_str _ = None"

definition flag_setting :: "settings \<Rightarrow> string \<Rightarrow> bool \<Rightarrow> bool \<Rightarrow> bool" where
  "flag_setting stt k missing other =
     (case stt (ustr k) of None \<Rightarrow> missing | Some v \<Rightarrow> (case as_bool v of Some b \<Rightarrow> b | None \<Rightarrow> other))"

definition turn_only :: "settings \<Rightarrow> bool" where
  "turn_only stt = flag_setting stt ''turn_only'' False False"

definition str_setting :: "settings \<Rightarrow> string \<Rightarrow> ustring option" where
  "str_setting stt k = (case stt (ustr k) of Some v \<Rightarrow> as_str v | None \<Rightarrow> None)"

definition stun :: "ustring \<Rightarrow> ice_server" where
  "stun u = \<lparr>urls = [u], ice_username = [], ice_credential = []\<rparr>"

definition starts :: "string \<Rightarrow> ustring \<Rightarrow> bool" where
  "starts p s \<longleftrightarrow> take (length p) s = ustr p"

text \<open>
  \<open>pooled\<close> is the answer of the pool of TURN connections, \<open>fetched\<close> that of the router: user name and password
  when it has both.
\<close>

definition turn_servers ::
  "settings \<Rightarrow> ustring \<Rightarrow> ustring option \<Rightarrow> (ustring \<times> ustring) option \<Rightarrow> (ustring \<times> ustring) option \<Rightarrow> ice_server list" where
  "turn_servers stt krelay ksm pooled fetched =
     (case (str_setting stt ''turn_url'', str_setting stt ''turn_username'', str_setting stt ''turn_password'') of
        (Some u, Some n, Some p) \<Rightarrow> [\<lparr>urls = [u], ice_username = n, ice_credential = p\<rparr>]
      | _ \<Rightarrow>
          (case ksm of
             None \<Rightarrow> []
           | Some cfg \<Rightarrow>
               (if cfg = [] \<or> starts ''TEST_MODE'' cfg then []
                else case (case pooled of Some c \<Rightarrow> Some c | None \<Rightarrow> fetched) of
                       Some (n, p) \<Rightarrow> [\<lparr>urls = [ustr ''turn:'' @ krelay], ice_username = n, ice_credential = p\<rparr>]
                     | None \<Rightarrow> [])))"

definition prepare_ice_servers_unlocked ::
  "settings \<Rightarrow> ustring \<Rightarrow> ustring option \<Rightarrow> (ustring \<times> ustring) option \<Rightarrow> (ustring \<times> ustring) option \<Rightarrow> ice_server list" where
  "prepare_ice_servers_unlocked stt krelay ksm pooled fetched =
     (if (case ksm of Some cfg \<Rightarrow> starts ''TEST_MODE_KSM_CONFIG'' cfg | None \<Rightarrow> False)
      then [stun (ustr ''stun:stun.l.google.com:19302?transport=udp&family=ipv4''),
            stun (ustr ''stun:stun1.l.google.com:19302?transport=udp&family=ipv4'')]
      else if krelay = [] then []
      else (if turn_only stt then [] else [stun (ustr ''stun:'' @ krelay @ ustr '':3478'')]) @
           (if flag_setting stt ''use_turn'' True True then turn_servers stt krelay ksm pooled fetched else []))"

datatype ice_policy = RelayOnly | AllCandidates

definition build_rtc_configuration :: "ice_server list \<Rightarrow> settings \<Rightarrow> ice_server list \<times> ice_policy" where
  "build_rtc_configuration servers stt = (servers, if turn_only stt then RelayOnly else AllCandidates)"

section \<open>State\<close>

datatype reg_error =
    Overloaded | TubeNotFound ustring | OfferInvalid | CreationTimedOut | PeerFailed string | DataChannelFailed string
  | ChannelFailed string | DescriptionFailed string

text \<open>The place a close task has reached. \<open>Ended\<close> holds the tube it has closed, if it was the one to close it.\<close>

datatype close_point =
    Lookup | Claim nat | Judge nat | ForceTube nat | ForceConvs nat
  | SetStatus nat | ListChannels nat | Report nat "ustring list" | SignalClosed nat
  | Notify nat | AwaitChannels nat | RecordReasons nat | SendFrames nat "ustring list" | Drain nat | ClosePeer nat | AwaitTasks nat
  | RemoveTube nat | RetainConvs nat
  | Ended "nat option" "(unit, reg_error) result"

record closer =
  target :: ustring
  close_why :: "close_reason option"
  point :: close_point

text \<open>The place the actor has reached in a command.\<close>

datatype actor_point =
    Idle | CheckExisting create_request
  | Associate nat create_request | ExistingData nat create_request | ExistingChannel nat create_request
  | Decode create_request | FetchIce nat create_request | InsertTube nat create_request | InsertConv nat create_request
  | ConnectPeer nat create_request | MakeData nat create_request | MakeChannel nat create_request
  | Describe nat create_request
  | Respond "(ustring, reg_error) result"
  | Stopped

datatype command =
    CreateTube create_request | CloseTube ustring "close_reason option" | SetServerMode bool
  | AssociateConversation ustring ustring | Shutdown

record registry =
  heap :: "tube list"
  tubes :: "ustring \<Rightarrow> nat option"
  conversations :: "ustring \<Rightarrow> ustring option"
  server_mode :: bool
  queue :: "command list"
  actor :: actor_point
  closers :: "closer list"
  active_creates :: nat
  max_concurrent_creates :: nat
  total_creates :: nat
  total_failures :: nat
  stale_tubes_removed :: nat
  close_timeouts :: nat
  created :: "(ustring, reg_error) result list"

definition new_registry :: "nat \<Rightarrow> registry" where
  "new_registry limit =
     \<lparr>heap = [], tubes = Map.empty, conversations = Map.empty, server_mode = False, queue = [], actor = Idle,
      closers = [], active_creates = 0, max_concurrent_creates = limit, total_creates = 0, total_failures = 0,
      stale_tubes_removed = 0, close_timeouts = 0, created = []\<rparr>"

definition on_tube :: "nat \<Rightarrow> (tube \<Rightarrow> tube) \<Rightarrow> registry \<Rightarrow> registry" where
  "on_tube k f w = (if k < length (heap w) then w\<lparr>heap := (heap w)[k := f (heap w ! k)]\<rparr> else w)"

definition retain_other :: "ustring \<Rightarrow> registry \<Rightarrow> registry" where
  "retain_other i w =
     w\<lparr>conversations := (\<lambda>c. case conversations w c of Some j \<Rightarrow> if j = i then None else Some j | None \<Rightarrow> None)\<rparr>"

definition remove_tube :: "ustring \<Rightarrow> registry \<Rightarrow> registry" where
  "remove_tube i w = w\<lparr>tubes := (tubes w)(i := None)\<rparr>"

section \<open>Closing\<close>

text \<open>What a step of a close task is answered, and whether the thirty seconds are over.\<close>

record closer_env =
  cl_env :: close_env
  idle_for :: nat
  time_is_up :: bool

definition why_or_admin :: "closer \<Rightarrow> close_reason" where
  "why_or_admin c = (case close_why c of Some r \<Rightarrow> r | None \<Rightarrow> AdminClosed)"

definition tube_closed_signal :: "ustring \<Rightarrow> close_reason \<Rightarrow> tube \<Rightarrow> signal_message" where
  "tube_closed_signal label r t =
     (let conv = (if label = ustr ''control''
                  then (case original_conversation_id t of Some c \<Rightarrow> c | None \<Rightarrow> tube_id t) else label)
      in \<lparr>sig_tube = tube_id t, sig_kind = ''channel_closed'', sig_data = ChannelClosedData conv ''tube_closed'' (Some r),
          sig_conversation = conv, sig_progress = 0, sig_text = ''Tube closed'', sig_ok = True\<rparr>)"

definition signal_closed :: "close_reason \<Rightarrow> tube \<Rightarrow> tube" where
  "signal_closed r t = fold (\<lambda>l t. send_signal (tube_closed_signal l r t) t) (map fst (data_channels t)) t"

text \<open>The part that is cut short when the thirty seconds are over.\<close>

definition in_time :: "closer_env \<Rightarrow> nat \<Rightarrow> registry \<Rightarrow> close_point \<times> registry \<Rightarrow> close_point \<times> registry" where
  "in_time e k w x = (if time_is_up e then (RemoveTube k, w\<lparr>close_timeouts := close_timeouts w + 1\<rparr>) else x)"

text \<open>One step of \<open>close_tube_async\<close> for the tube \<open>i\<close> with the reason \<open>r\<close>: the point after it and the registry.\<close>

fun close_from :: "closer_env \<Rightarrow> ustring \<Rightarrow> close_reason \<Rightarrow> registry \<Rightarrow> close_point \<Rightarrow> close_point \<times> registry" where
  "close_from e i r w Lookup =
     (case tubes w i of Some k \<Rightarrow> (Claim k, w) | None \<Rightarrow> (Ended None (Err (TubeNotFound i)), w))"
| "close_from e i r w (Claim k) =
     (if closing (heap w ! k) then (Judge k, w) else (SetStatus k, on_tube k (\<lambda>t. t\<lparr>closing := True\<rparr>) w))"
| "close_from e i r w (Judge k) =
     (if get_connection_state (heap w ! k) \<in> {Some RtcFailed, Some RtcClosed} \<and>
         is_inactive_for_duration (idle_for e) 300000 (heap w ! k)
      then (ForceTube k, w) else (Ended None (Ok ()), w))"
| "close_from e i r w (ForceTube k) = (ForceConvs k, remove_tube i w)"
| "close_from e i r w (ForceConvs k) =
     (Ended None (Ok ()), (retain_other i w)\<lparr>stale_tubes_removed := stale_tubes_removed w + 1\<rparr>)"
| "close_from e i r w (SetStatus k) = (ListChannels k, on_tube k (\<lambda>t. t\<lparr>status := Closed\<rparr>) w)"
| "close_from e i r w (ListChannels k) = (Report k (map fst (active_channels (heap w ! k))), w)"
| "close_from e i r w (Report k (n # ns)) = (Report k ns, on_tube k (send_connection_close_callback n) w)"
| "close_from e i r w (Report k []) = (SignalClosed k, w)"
| "close_from e i r w (SignalClosed k) = (Notify k, on_tube k (signal_closed r) w)"
| "close_from e i r w (Notify k) = in_time e k w (AwaitChannels k, on_tube k notify_channels w)"
| "close_from e i r w (AwaitChannels k) = in_time e k w (RecordReasons k, w)"
| "close_from e i r w (RecordReasons k) =
     in_time e k w (SendFrames k (map fst (data_channels (heap w ! k))), on_tube k (record_close_reasons r) w)"
| "close_from e i r w (SendFrames k ns) =
     in_time e k w (Drain k, on_tube k (send_close_frames (grow_to (cl_env e)) (clock_ms (cl_env e)) (frame_answer (cl_env e)) ns r) w)"
| "close_from e i r w (Drain k) =
     in_time e k w (ClosePeer k, on_tube k (drain_data_channels (channel_answer (cl_env e))) w)"
| "close_from e i r w (ClosePeer k) =
     in_time e k w
       (case close_peer (peer_answer (cl_env e)) (heap w ! k) of
          (x, t) \<Rightarrow> (case x of Ok _ \<Rightarrow> AwaitTasks k | Err _ \<Rightarrow> RemoveTube k, on_tube k (\<lambda>_. t) w))"
| "close_from e i r w (AwaitTasks k) = in_time e k w (RemoveTube k, w)"
| "close_from e i r w (RemoveTube k) = (RetainConvs k, remove_tube i w)"
| "close_from e i r w (RetainConvs k) = (Ended (Some k) (Ok ()), retain_other i w)"
| "close_from e i r w (Ended k x) = (Ended k x, w)"

definition closer_step :: "closer_env \<Rightarrow> closer \<Rightarrow> registry \<Rightarrow> close_point \<times> registry" where
  "closer_step e c w = close_from e (target c) (why_or_admin c) w (point c)"

section \<open>Creating\<close>

text \<open>What a step of the actor is answered, and whether the time for the creation is over.\<close>

record actor_env =
  offer_decodes :: bool
  fresh_id :: ustring
  peer_made :: "(unit, string) result"
  data_made :: "(unit, string) result"
  built :: "(new_channel, string) result"
  bound :: "(u16, string) result"
  described :: "(unit, string) result"
  creation_over :: bool

fun awaits :: "actor_point \<Rightarrow> bool" where
  "awaits (ExistingData k q) = True" | "awaits (ExistingChannel k q) = True" | "awaits (FetchIce k q) = True"
| "awaits (ConnectPeer k q) = True" | "awaits (MakeData k q) = True" | "awaits (MakeChannel k q) = True"
| "awaits (Describe k q) = True" | "awaits p = False"

definition take_command :: "command \<Rightarrow> registry \<Rightarrow> registry" where
  "take_command x w =
     (case x of
        CreateTube q \<Rightarrow>
          (if active_creates w \<ge> max_concurrent_creates w
           then w\<lparr>created := created w @ [Err Overloaded], total_failures := total_failures w + 1\<rparr>
           else w\<lparr>active_creates := active_creates w + 1, actor := CheckExisting q\<rparr>)
      | CloseTube i r \<Rightarrow> w\<lparr>closers := closers w @ [\<lparr>target = i, close_why = r, point = Lookup\<rparr>]\<rparr>
      | SetServerMode b \<Rightarrow> w\<lparr>server_mode := b\<rparr>
      | AssociateConversation i c \<Rightarrow> w\<lparr>conversations := (conversations w)(c := Some i)\<rparr>
      | Shutdown \<Rightarrow> w\<lparr>actor := Stopped\<rparr>)"

definition respond :: "(ustring, reg_error) result \<Rightarrow> registry \<Rightarrow> registry" where
  "respond x w =
     w\<lparr>active_creates := active_creates w - 1, total_creates := total_creates w + 1,
       total_failures := total_failures w + (case x of Ok _ \<Rightarrow> 0 | Err _ \<Rightarrow> 1),
       created := created w @ [x], actor := Idle\<rparr>"

definition set_python :: "create_request \<Rightarrow> tube \<Rightarrow> tube" where
  "set_python q t = (if req_python_tx q then t\<lparr>has_python_tx := True\<rparr> else t)"

definition server_request :: "create_request \<Rightarrow> bool" where
  "server_request q \<longleftrightarrow> req_offer q = None"

definition actor_step :: "actor_env \<Rightarrow> registry \<Rightarrow> registry" where
  "actor_step e w =
     (if awaits (actor w) \<and> creation_over e then w\<lparr>actor := Respond (Err CreationTimedOut)\<rparr>
      else case actor w of
        Idle \<Rightarrow> (case queue w of [] \<Rightarrow> w | x # xs \<Rightarrow> take_command x (w\<lparr>queue := xs\<rparr>))
      | Stopped \<Rightarrow> w
      | Respond x \<Rightarrow> respond x w
      | CheckExisting q \<Rightarrow>
          (case (case req_tube_id q of Some i \<Rightarrow> tubes w i | None \<Rightarrow> None) of
             Some k \<Rightarrow> w\<lparr>actor := Associate k q\<rparr>
           | None \<Rightarrow> w\<lparr>actor := Decode q\<rparr>)
      | Associate k q \<Rightarrow>
          w\<lparr>conversations := (conversations w)(req_conversation q := req_tube_id q), actor := ExistingData k q\<rparr>
      | ExistingData k q \<Rightarrow>
          (case create_data_channel (data_made e) (req_conversation q) (heap w ! k) of
             (Ok _, t) \<Rightarrow> (on_tube k (\<lambda>_. set_python q t) w)\<lparr>actor := ExistingChannel k q\<rparr>
           | (Err _, t) \<Rightarrow> (on_tube k (\<lambda>_. t) w)\<lparr>actor := Respond (Ok (the (req_tube_id q)))\<rparr>)
      | ExistingChannel k q \<Rightarrow>
          (on_tube k (\<lambda>t. snd (create_channel (req_conversation q) (req_settings q) (Some (req_version q)) (built e) (bound e) t)) w)
            \<lparr>actor := Respond (Ok (the (req_tube_id q)))\<rparr>
      | Decode q \<Rightarrow>
          (if req_offer q \<noteq> None \<and> \<not> offer_decodes e then w\<lparr>actor := Respond (Err OfferInvalid)\<rparr>
           else w\<lparr>heap := heap w @ [set_python q (new_tube (server_request q) (Some (req_conversation q)) True
                                                    (req_tube_id q) (fresh_id e))],
                  actor := FetchIce (length (heap w)) q\<rparr>)
      | FetchIce k q \<Rightarrow> w\<lparr>actor := InsertTube k q\<rparr>
      | InsertTube k q \<Rightarrow> w\<lparr>tubes := (tubes w)(tube_id (heap w ! k) := Some k), actor := InsertConv k q\<rparr>
      | InsertConv k q \<Rightarrow>
          w\<lparr>conversations := (conversations w)(req_conversation q := Some (tube_id (heap w ! k))),
            server_mode := server_mode w \<or> server_request q, actor := ConnectPeer k q\<rparr>
      | ConnectPeer k q \<Rightarrow>
          (case create_peer_connection (req_trickle q) (peer_made e) (req_version q) (heap w ! k) of
             (Ok _, t) \<Rightarrow> (on_tube k (\<lambda>_. t) w)\<lparr>actor := if server_request q then MakeData k q else Describe k q\<rparr>
           | (Err x, t) \<Rightarrow> (on_tube k (\<lambda>_. t) w)\<lparr>actor := Respond (Err (PeerFailed x))\<rparr>)
      | MakeData k q \<Rightarrow>
          (case create_data_channel (data_made e) (req_conversation q) (heap w ! k) of
             (Ok _, t) \<Rightarrow> (on_tube k (\<lambda>_. t) w)\<lparr>actor := MakeChannel k q\<rparr>
           | (Err x, t) \<Rightarrow> (on_tube k (\<lambda>_. t) w)\<lparr>actor := Respond (Err (DataChannelFailed x))\<rparr>)
      | MakeChannel k q \<Rightarrow>
          (case create_channel (req_conversation q) (req_settings q) (Some (req_version q)) (built e) (bound e) (heap w ! k) of
             (Ok _, t) \<Rightarrow> (on_tube k (\<lambda>_. t) w)\<lparr>actor := Describe k q\<rparr>
           | (Err x, t) \<Rightarrow> (on_tube k (\<lambda>_. t) w)\<lparr>actor := Respond (Err (ChannelFailed x))\<rparr>)
      | Describe k q \<Rightarrow>
          w\<lparr>actor := Respond (if peer_connection (heap w ! k) = None then Err (DescriptionFailed ''No peer connection available'')
                             else case described e of
                                    Ok _ \<Rightarrow> Ok (tube_id (heap w ! k))
                                  | Err x \<Rightarrow> Err (DescriptionFailed x))\<rparr>)"

section \<open>The machine\<close>

text \<open>What happens to a tube outside the registry.\<close>

datatype tube_op =
    StateChange bool rtc_state
  | Opened ustring ustring ustring
  | DataChannelGone ustring ustring ustring
  | RemoteChannel ustring settings "(new_channel, string) result" "(u16, string) result"
  | ChannelStarted ustring
  | ChannelEnded ustring string
  | CloseChannel "nat \<Rightarrow> nat \<Rightarrow> nat" u64 "(unit, string) result" ustring "close_reason option"
  | SendData "nat \<Rightarrow> nat \<Rightarrow> nat" u64 "(unit, string) result" ustring u32 bytes
  | OpenHandler "nat \<Rightarrow> nat \<Rightarrow> nat" u64 "(unit, string) result" ustring u32
  | CloseHandler "nat \<Rightarrow> nat \<Rightarrow> nat" u64 "(unit, string) result" ustring u32 close_reason

fun apply_op :: "tube_op \<Rightarrow> tube \<Rightarrow> close_reason option \<times> tube" where
  "apply_op (StateChange b s) t = on_state_change b s t"
| "apply_op (Opened k i v) t = (None, channel_opened k i v t)"
| "apply_op (DataChannelGone k i v) t = (None, channel_closed k i v t)"
| "apply_op (RemoteChannel l s c p) t = (None, snd (on_data_channel l s c p t))"
| "apply_op (ChannelStarted n) t = (None, send_connection_open_callback n t)"
| "apply_op (ChannelEnded n x) t = (None, channel_finished n x t)"
| "apply_op (CloseChannel g c x n r) t = (None, snd (close_channel g c x n r t))"
| "apply_op (SendData g c x n i d) t = (None, snd (send_data_from_handler g c x n i d t))"
| "apply_op (OpenHandler g c x n i) t = (None, snd (open_handler_connection g c x n i t))"
| "apply_op (CloseHandler g c x n i r) t = (None, snd (close_handler_connection g c x n i r t))"

datatype event = Submit command | ActorStep actor_env | CloserStep nat closer_env | TubeEvent nat tube_op

definition run_closer :: "nat \<Rightarrow> closer_env \<Rightarrow> registry \<Rightarrow> registry" where
  "run_closer i e w =
     (if i < length (closers w)
      then case closer_step e (closers w ! i) w of
             (p, w') \<Rightarrow> w'\<lparr>closers := (closers w')[i := (closers w ! i)\<lparr>point := p\<rparr>]\<rparr>
      else w)"

definition tube_event :: "nat \<Rightarrow> tube_op \<Rightarrow> registry \<Rightarrow> registry" where
  "tube_event k x w =
     (if k < length (heap w)
      then case apply_op x (heap w ! k) of
             (want, t) \<Rightarrow> (on_tube k (\<lambda>_. t) w)
                          \<lparr>queue := queue w @ (case want of Some r \<Rightarrow> [CloseTube (tube_id t) (Some r)] | None \<Rightarrow> [])\<rparr>
      else w)"

fun registry_step :: "event \<Rightarrow> registry \<Rightarrow> registry" where
  "registry_step (Submit x) w = w\<lparr>queue := queue w @ [x]\<rparr>"
| "registry_step (ActorStep e) w = actor_step e w"
| "registry_step (CloserStep i e) w = run_closer i e w"
| "registry_step (TubeEvent k x) w = tube_event k x w"

inductive reachable :: "nat \<Rightarrow> registry \<Rightarrow> bool" for limit where
  start: "reachable limit (new_registry limit)"
| step: "reachable limit w \<Longrightarrow> reachable limit (registry_step v w)"

fun run_registry :: "event list \<Rightarrow> registry \<Rightarrow> registry" where
  "run_registry [] w = w"
| "run_registry (v # vs) w = run_registry vs (registry_step v w)"

lemma reachable_run: "reachable limit w \<Longrightarrow> reachable limit (run_registry vs w)"
  by (induction vs arbitrary: w) (simp_all add: reachable.step)

section \<open>Readers\<close>

definition get_tube_fast :: "ustring \<Rightarrow> registry \<Rightarrow> nat option" where
  "get_tube_fast i w = tubes w i"

definition get_by_conversation_fast :: "ustring \<Rightarrow> registry \<Rightarrow> nat option" where
  "get_by_conversation_fast c w = (case conversations w c of Some i \<Rightarrow> tubes w i | None \<Rightarrow> None)"

definition get_tube_status :: "ustring \<Rightarrow> registry \<Rightarrow> (tube_status, reg_error) result" where
  "get_tube_status i w = (case tubes w i of Some k \<Rightarrow> Ok (status (heap w ! k)) | None \<Rightarrow> Err (TubeNotFound i))"

text \<open>\<open>first\<close> is the label the iteration over the hash map of data channels gives first.\<close>

definition handler_channel :: "ustring \<Rightarrow> (ustring \<times> data_channel) list \<Rightarrow> ustring option" where
  "handler_channel conv dcs =
     (if conv \<in> fst ` set dcs then Some conv
      else if ustr ''control'' \<in> fst ` set dcs then Some (ustr ''control'')
      else case dcs of (l, d) # _ \<Rightarrow> Some l | [] \<Rightarrow> None)"

definition send_handler_data ::
  "(nat \<Rightarrow> nat \<Rightarrow> nat) \<Rightarrow> u64 \<Rightarrow> (unit, string) result \<Rightarrow> ustring \<Rightarrow> u32 \<Rightarrow> bytes \<Rightarrow> registry \<Rightarrow> (unit, reg_error) result \<times> registry" where
  "send_handler_data grow now x conv n dat w =
     (case get_by_conversation_fast conv w of
        None \<Rightarrow> (Err (TubeNotFound conv), w)
      | Some k \<Rightarrow>
          (case handler_channel conv (data_channels (heap w ! k)) of
             None \<Rightarrow> (Err (ChannelFailed ''Channel not found''), w)
           | Some l \<Rightarrow>
               (case send_on x l (data_bytes grow now n dat) (heap w ! k) of
                  (Ok _, t) \<Rightarrow> (Ok (), on_tube k (\<lambda>_. t) w)
                | (Err y, t) \<Rightarrow> (Err (ChannelFailed y), on_tube k (\<lambda>_. t) w))))"

definition stale_ids :: "ustring list \<Rightarrow> registry \<Rightarrow> ustring list" where
  "stale_ids ids w = filter (\<lambda>i. case tubes w i of Some k \<Rightarrow> is_stale (heap w ! k) | None \<Rightarrow> False) ids"

section \<open>What no operation on a tube changes\<close>

definition same_identity :: "tube \<Rightarrow> tube \<Rightarrow> bool" where
  "same_identity t t' \<longleftrightarrow> tube_id t' = tube_id t \<and> closing t' = closing t"

lemma same_identity_refl [simp]: "same_identity t t"
  by (simp add: same_identity_def)

lemma same_identity_trans: "same_identity t u \<Longrightarrow> same_identity u v \<Longrightarrow> same_identity t v"
  by (simp add: same_identity_def)

lemma update_identity [simp]:
  "same_identity t (t'\<lparr>status := s\<rparr>) = same_identity t t'" "same_identity t (t'\<lparr>data_channels := ds\<rparr>) = same_identity t t'"
  "same_identity t (t'\<lparr>channel_close_reasons := cr\<rparr>) = same_identity t t'" "same_identity t (t'\<lparr>has_control := b\<rparr>) = same_identity t t'"
  "same_identity t (t'\<lparr>notified := ns\<rparr>) = same_identity t t'" "same_identity t (t'\<lparr>peer_connection := po\<rparr>) = same_identity t t'"
  "same_identity t (t'\<lparr>old_peers := ps\<rparr>) = same_identity t t'" "same_identity t (t'\<lparr>posts := qs\<rparr>) = same_identity t t'"
  "same_identity t (t'\<lparr>signals := ss\<rparr>) = same_identity t t'" "same_identity t (t'\<lparr>tube_client_version := v\<rparr>) = same_identity t t'"
  "same_identity t (t'\<lparr>active_channels := ac\<rparr>) = same_identity t t'" "same_identity t (t'\<lparr>channel_shutdown_notifiers := cn\<rparr>) = same_identity t t'"
  "same_identity t (t'\<lparr>retired := rs\<rparr>) = same_identity t t'" "same_identity t (t'\<lparr>has_python_tx := b\<rparr>) = same_identity t t'"
  by (simp_all add: same_identity_def)

lemma basic_identity [simp]:
  "same_identity t (send_signal m t') = same_identity t t'" "same_identity t (post_router p t') = same_identity t t'"
  "same_identity t (set_peer f t') = same_identity t t'" "same_identity t (note_client_version v t') = same_identity t t'"
  "same_identity t (register_channel_metadata n md t') = same_identity t t'" "same_identity t (deregister_channel n t') = same_identity t t'"
  "same_identity t (insert_notifier n t') = same_identity t t'"
  "same_identity t (remove_channel_shutdown_signal n t') = same_identity t t'"
  "same_identity t (add_data_channel l d t') = same_identity t t'" "same_identity t (set_channel_reason n r t') = same_identity t t'"
  "same_identity t (notify_channels t') = same_identity t t'" "same_identity t (send_close_frames g c a ns r t') = same_identity t t'"
  "same_identity t (drain_data_channels b t') = same_identity t t'" "same_identity t (set_python q t') = same_identity t t'"
  by (simp_all add: send_signal_def post_router_def set_peer_def note_client_version_def
      register_channel_metadata_def deregister_channel_def insert_notifier_def remove_channel_shutdown_signal_def
      add_data_channel_def set_channel_reason_def notify_channels_def send_close_frames_def drain_data_channels_def set_python_def)

lemma callback_identity [simp]:
  "same_identity t (post_for kd md t') = same_identity t t'"
  "same_identity t (report_connection_open k i v t') = same_identity t t'"
  "same_identity t (report_connection_close k i v t') = same_identity t t'"
  "same_identity t (send_connection_open_callback n t') = same_identity t t'"
  "same_identity t (send_connection_close_callback n t') = same_identity t t'"
  "same_identity t (state_signal s t') = same_identity t t'" "same_identity t (connected t') = same_identity t t'"
  "same_identity t (track_channel n md t') = same_identity t t'"
  by (auto simp: report_connection_open_def report_connection_close_def send_connection_open_callback_def state_signal_def
      connected_def track_channel_def send_connection_close_callback_def post_for_def Let_def split: option.splits)

lemma fold_identity: "(\<And>x t. same_identity t (f x t)) \<Longrightarrow> same_identity t (fold f xs t)"
  by (induction xs arbitrary: t) (simp, metis fold_simps(2) same_identity_trans)

lemma closing_identity [simp]:
  "same_identity t (record_close_reasons r t)" "same_identity t (signal_closed r t)"
  by (auto simp: record_close_reasons_def signal_closed_def intro!: fold_identity)

lemma op_identity:
  "same_identity t (snd (create_peer_connection b m v t))" "same_identity t (snd (create_data_channel m l t))"
  "same_identity t (snd (create_channel n s vo c p t))" "same_identity t (snd (close_peer a t))"
  "same_identity t (snd (on_state_change b st t))" "same_identity t (snd (on_data_channel l s c p t))"
  "same_identity t (channel_finished n x t)"
  by (auto simp: create_peer_connection_def create_data_channel_def create_channel_def close_peer_def on_state_change_def
      peer_ended_def on_data_channel_def channel_finished_def Let_def
      split: result.splits option.splits prod.splits rtc_state.splits)

lemma send_on_identity [simp]: "same_identity t (snd (send_on y n f t')) = same_identity t t'"
  by (simp add: send_on_def split: option.split prod.split)

lemma apply_op_identity: "same_identity t (snd (apply_op x t))"
  using op_identity
  by (cases x) (auto simp: channel_opened_def channel_closed_def close_channel_def send_data_from_handler_def open_handler_connection_def
      close_handler_connection_def Let_def intro: same_identity_trans)

section \<open>Invariants\<close>

lemma on_tube_fields [simp]:
  "tubes (on_tube k f w) = tubes w" "conversations (on_tube k f w) = conversations w" "queue (on_tube k f w) = queue w"
  "actor (on_tube k f w) = actor w" "closers (on_tube k f w) = closers w" "active_creates (on_tube k f w) = active_creates w"
  "max_concurrent_creates (on_tube k f w) = max_concurrent_creates w" "created (on_tube k f w) = created w"
  "length (heap (on_tube k f w)) = length (heap w)"
  by (simp_all add: on_tube_def)

lemma heap_on_tube: "j < length (heap w) \<Longrightarrow> heap (on_tube k f w) ! j = (if j = k then f (heap w ! k) else heap w ! j)"
  by (auto simp: on_tube_def)

text \<open>The tube a close task refers to, the tube it is the one to close, and the tube it has removed.\<close>

fun refers :: "close_point \<Rightarrow> nat option" where
  "refers Lookup = None"
| "refers (Claim k) = Some k" | "refers (Judge k) = Some k" | "refers (ForceTube k) = Some k" | "refers (ForceConvs k) = Some k"
| "refers (SetStatus k) = Some k" | "refers (ListChannels k) = Some k" | "refers (Report k ns) = Some k"
| "refers (SignalClosed k) = Some k" | "refers (Notify k) = Some k" | "refers (AwaitChannels k) = Some k"
| "refers (RecordReasons k) = Some k" | "refers (SendFrames k ns) = Some k" | "refers (Drain k) = Some k"
| "refers (ClosePeer k) = Some k" | "refers (AwaitTasks k) = Some k" | "refers (RemoveTube k) = Some k"
| "refers (RetainConvs k) = Some k" | "refers (Ended k x) = k"

fun owned :: "close_point \<Rightarrow> nat option" where
  "owned (Claim k) = None" | "owned (Judge k) = None" | "owned (ForceTube k) = None" | "owned (ForceConvs k) = None"
| "owned p = refers p"

fun removed :: "close_point \<Rightarrow> nat option" where
  "removed (RetainConvs k) = Some k" | "removed (Ended k x) = k" | "removed p = None"

definition owners :: "nat \<Rightarrow> closer list \<Rightarrow> nat" where
  "owners k cs = length (filter (\<lambda>c. owned (point c) = Some k) cs)"

text \<open>A new tube nobody else knows yet.\<close>

fun hidden :: "actor_point \<Rightarrow> nat option" where
  "hidden (FetchIce k q) = Some k" | "hidden (InsertTube k q) = Some k" | "hidden p = None"

definition maps_ok :: "registry \<Rightarrow> bool" where
  "maps_ok w \<longleftrightarrow> (\<forall>i k. tubes w i = Some k \<longrightarrow> k < length (heap w) \<and> tube_id (heap w ! k) = i)"

definition refs_ok :: "registry \<Rightarrow> bool" where
  "refs_ok w \<longleftrightarrow>
     (\<forall>c \<in> set (closers w). \<forall>k. refers (point c) = Some k \<longrightarrow> k < length (heap w) \<and> tube_id (heap w ! k) = target c)"

definition hidden_ok :: "registry \<Rightarrow> bool" where
  "hidden_ok w \<longleftrightarrow>
     (\<forall>k. hidden (actor w) = Some k \<longrightarrow>
        k < length (heap w) \<and> k \<notin> ran (tubes w) \<and> (\<forall>c \<in> set (closers w). refers (point c) \<noteq> Some k))"

definition one_owner :: "registry \<Rightarrow> bool" where
  "one_owner w \<longleftrightarrow> (\<forall>k < length (heap w). owners k (closers w) \<le> (if closing (heap w ! k) then 1 else 0))"

definition removed_ok :: "registry \<Rightarrow> bool" where
  "removed_ok w \<longleftrightarrow> (\<forall>c \<in> set (closers w). \<forall>k. removed (point c) = Some k \<longrightarrow> k \<notin> ran (tubes w))"

definition registry_inv :: "registry \<Rightarrow> bool" where
  "registry_inv w \<longleftrightarrow> maps_ok w \<and> refs_ok w \<and> hidden_ok w \<and> one_owner w \<and> removed_ok w"

text \<open>Two registries with the same tubes, up to what can happen to a tube.\<close>

definition same_tubes :: "registry \<Rightarrow> registry \<Rightarrow> bool" where
  "same_tubes w w' \<longleftrightarrow>
     length (heap w') = length (heap w) \<and> (\<forall>k < length (heap w). same_identity (heap w ! k) (heap w' ! k)) \<and>
     tubes w' = tubes w \<and> actor w' = actor w \<and> closers w' = closers w"

lemma same_tubes_refl [simp]: "same_tubes w w"
  by (simp add: same_tubes_def)

lemma same_tubes_on_tube [simp]: "(\<And>t. same_identity t (f t)) \<Longrightarrow> same_tubes w (on_tube k f w)"
  by (simp add: same_tubes_def heap_on_tube)

lemma same_tubes_const [simp]: "same_identity (heap w ! k) t \<Longrightarrow> same_tubes w (on_tube k (\<lambda>_. t) w)"
  by (simp add: same_tubes_def heap_on_tube)

lemma same_tubes_other [simp]:
  "same_tubes w (w'\<lparr>close_timeouts := n\<rparr>) = same_tubes w w'" "same_tubes w (w'\<lparr>stale_tubes_removed := n\<rparr>) = same_tubes w w'"
  "same_tubes w (w'\<lparr>queue := q\<rparr>) = same_tubes w w'" "same_tubes w (retain_other i w') = same_tubes w w'"
  by (simp_all add: same_tubes_def retain_other_def)

lemma same_tubes_inv:
  assumes "same_tubes w w'" "registry_inv w"
  shows "registry_inv w'"
proof -
  note a = assms(1) [unfolded same_tubes_def same_identity_def] assms(2) [unfolded registry_inv_def]
  have "maps_ok w'" using a by (auto simp: maps_ok_def)
  moreover have "refs_ok w'" using a by (auto simp: refs_ok_def)
  moreover have "hidden_ok w'" using a by (auto simp: hidden_ok_def)
  moreover have "one_owner w'" using a by (auto simp: one_owner_def)
  moreover have "removed_ok w'" using a by (auto simp: removed_ok_def)
  ultimately show ?thesis by (simp add: registry_inv_def)
qed

text \<open>The five things a step of a close task can do.\<close>

lemma close_from_cases:
  assumes "close_from e i r w p = (p', w')"
  obtains (found) k where "p = Lookup" "tubes w i = Some k" "p' = Claim k" "w' = w"
    | (claimed) k where "p = Claim k" "\<not> closing (heap w ! k)" "p' = SetStatus k" "w' = on_tube k (\<lambda>t. t\<lparr>closing := True\<rparr>) w"
    | (gone) k where "p = RemoveTube k" "p' = RetainConvs k" "w' = remove_tube i w"
    | (forced) k where "p = ForceTube k" "p' = ForceConvs k" "w' = remove_tube i w"
    | (other) "same_tubes w w'" "owned p' = owned p" "refers p' = refers p \<or> refers p' = None" "removed p' = removed p"
proof -
  have cp: "same_tubes w (on_tube k (\<lambda>_. snd (close_peer (peer_answer (cl_env e)) (heap w ! k))) w)" for k
    by (rule same_tubes_const) (rule op_identity)
  show thesis
  proof (cases p)
    case (ClosePeer k)
    with assms cp [of k] show ?thesis
      by (intro other) (auto simp: in_time_def split: if_splits prod.splits result.splits)
  next
    case (Report k ns)
    with assms show ?thesis by (cases ns) (auto intro: other)
  next
    case Lookup
    with assms show ?thesis by (cases "tubes w i") (auto intro: other found)
  next
    case (Claim k)
    with assms show ?thesis by (cases "closing (heap w ! k)") (auto intro: other claimed)
  next
    case (RemoveTube k)
    with assms show ?thesis by (auto intro: gone)
  next
    case (ForceTube k)
    with assms show ?thesis by (auto intro: forced)
  qed (use assms in \<open>auto simp: in_time_def split: if_splits intro!: other\<close>)
qed

lemma removed_refers: "removed p = Some k \<Longrightarrow> refers p = Some k"
  by (cases p) auto

lemma owned_refers: "owned p = Some k \<Longrightarrow> refers p = Some k"
  by (cases p) auto

lemma owners_update:
  "i < length cs \<Longrightarrow>
     owners k (cs[i := c]) + (if owned (point (cs ! i)) = Some k then 1 else 0) =
     owners k cs + (if owned (point c) = Some k then 1 else 0)"
proof (induction cs arbitrary: i)
  case (Cons d cs)
  then show ?case by (cases i) (auto simp: owners_def)
qed simp

lemma ran_remove: "k \<in> ran (m(i := None)) \<Longrightarrow> k \<in> ran m"
  by (auto simp: ran_def split: if_splits)

lemma in_set_update: "c \<in> set (cs[i := d]) \<Longrightarrow> c \<in> set cs \<or> c = d"
  using set_update_subset_insert by fastforce

lemma run_closer_inv:
  assumes inv: "registry_inv w"
  shows "registry_inv (run_closer i e w)"
proof (cases "i < length (closers w)")
  case True
  let ?c = "closers w ! i"
  obtain p' w' where st: "closer_step e ?c w = (p', w')" by fastforce
  let ?d = "?c\<lparr>point := p'\<rparr>"
  let ?w = "w'\<lparr>closers := (closers w')[i := ?d]\<rparr>"
  have run: "run_closer i e w = ?w" using True st by (simp add: run_closer_def)
  have c: "?c \<in> set (closers w)" using True by simp
  note inv' = inv [unfolded registry_inv_def]
  have hid: "hidden (actor w) \<noteq> Some k" if "refers (point ?c) = Some k" for k
    using inv' c that unfolding hidden_ok_def by blast
  from st have "close_from e (target ?c) (why_or_admin ?c) w (point ?c) = (p', w')" by (simp add: closer_step_def)
  then show ?thesis unfolding run
  proof (cases rule: close_from_cases)
    case (found k)
    have k: "k < length (heap w)" "tube_id (heap w ! k) = target ?c" "k \<in> ran (tubes w)"
      using found(2) inv' by (auto simp: maps_ok_def intro: ranI)
    have "maps_ok ?w" using inv' found by (simp add: maps_ok_def)
    moreover have "refs_ok ?w" using inv' found k by (auto simp: refs_ok_def dest!: in_set_update)
    moreover have "hidden_ok ?w" using inv' found k by (auto simp: hidden_ok_def dest!: in_set_update)
    moreover have "one_owner ?w" using inv' found owners_update [OF True, of _ ?d] by (auto simp: one_owner_def)
    moreover have "removed_ok ?w" using inv' found by (auto simp: removed_ok_def dest!: in_set_update)
    ultimately show "registry_inv ?w" by (simp add: registry_inv_def)
  next
    case (claimed k)
    have k: "k < length (heap w)" "tube_id (heap w ! k) = target ?c" using inv' c claimed(1) by (auto simp: refs_ok_def)
    then have no: "owners k (closers w) = 0" using inv' claimed(2) by (auto simp: one_owner_def)
    have heap': "heap w' ! j = (if j = k then (heap w ! k)\<lparr>closing := True\<rparr> else heap w ! j)" if "j < length (heap w)" for j
      using that claimed(4) by (simp add: heap_on_tube)
    have "maps_ok ?w" using inv' claimed heap' by (auto simp: maps_ok_def)
    moreover have "refs_ok ?w" using inv' claimed heap' k by (auto simp: refs_ok_def dest!: in_set_update)
    moreover have "hidden_ok ?w" using inv' claimed hid [of k] by (auto simp: hidden_ok_def dest!: in_set_update)
    moreover have "one_owner ?w" unfolding one_owner_def
    proof (intro allI impI)
      fix j assume "j < length (heap ?w)"
      then have j: "j < length (heap w)" using claimed(4) by simp
      show "owners j (closers ?w) \<le> (if closing (heap ?w ! j) then 1 else 0)"
        using owners_update [OF True, of j ?d] claimed no inv' j heap' [OF j] by (auto simp: one_owner_def)
    qed
    moreover have "removed_ok ?w" using inv' claimed by (auto simp: removed_ok_def dest!: in_set_update)
    ultimately show "registry_inv ?w" by (simp add: registry_inv_def)
  next
    case (gone k)
    have k: "k < length (heap w)" "tube_id (heap w ! k) = target ?c" using inv' c gone(1) by (auto simp: refs_ok_def)
    then have notin: "k \<notin> ran ((tubes w)(target ?c := None))" using inv' by (auto simp: maps_ok_def ran_def split: if_splits)
    have "maps_ok ?w" using inv' gone by (auto simp: maps_ok_def remove_tube_def)
    moreover have "refs_ok ?w" using inv' gone k by (auto simp: refs_ok_def remove_tube_def dest!: in_set_update)
    moreover have "hidden_ok ?w" using inv' gone hid [of k] by (auto simp: hidden_ok_def remove_tube_def dest!: in_set_update ran_remove)
    moreover have "one_owner ?w" using inv' gone owners_update [OF True, of _ ?d] by (auto simp: one_owner_def remove_tube_def)
    moreover have "removed_ok ?w" using inv' gone notin by (auto simp: removed_ok_def remove_tube_def dest!: in_set_update dest: ran_remove)
    ultimately show "registry_inv ?w" by (simp add: registry_inv_def)
  next
    case (forced k)
    have k: "k < length (heap w)" "tube_id (heap w ! k) = target ?c" using inv' c forced(1) by (auto simp: refs_ok_def)
    have "maps_ok ?w" using inv' forced by (auto simp: maps_ok_def remove_tube_def)
    moreover have "refs_ok ?w" using inv' forced k by (auto simp: refs_ok_def remove_tube_def dest!: in_set_update)
    moreover have "hidden_ok ?w" using inv' forced hid [of k] by (auto simp: hidden_ok_def remove_tube_def dest!: in_set_update ran_remove)
    moreover have "one_owner ?w" using inv' forced owners_update [OF True, of _ ?d] by (auto simp: one_owner_def remove_tube_def)
    moreover have "removed_ok ?w" using inv' forced by (auto simp: removed_ok_def remove_tube_def dest!: in_set_update ran_remove)
    ultimately show "registry_inv ?w" by (simp add: registry_inv_def)
  next
    case other
    have inv1: "registry_inv w'" using same_tubes_inv [OF other(1) inv] .
    note i = inv1 [unfolded registry_inv_def]
    have cl: "closers w' = closers w" using other(1) by (simp add: same_tubes_def)
    have c': "?c \<in> set (closers w')" using c cl by simp
    have "maps_ok ?w" using i by (simp add: maps_ok_def)
    moreover have "refs_ok ?w" using i other(3) c' by (fastforce simp: refs_ok_def dest!: in_set_update)
    moreover have "hidden_ok ?w" using i other(3) c' by (fastforce simp: hidden_ok_def dest!: in_set_update)
    moreover have "one_owner ?w" using i other(2) owners_update [OF True, of _ ?d] cl by (fastforce simp: one_owner_def)
    moreover have "removed_ok ?w" using i other(4) c' by (fastforce simp: removed_ok_def dest!: in_set_update)
    ultimately show "registry_inv ?w" by (simp add: registry_inv_def)
  qed
qed (simp add: run_closer_def inv)

text \<open>The actor.\<close>

lemma inv_fields [simp]:
  "registry_inv (w\<lparr>conversations := cs\<rparr>) = registry_inv w" "registry_inv (w\<lparr>queue := q\<rparr>) = registry_inv w"
  "registry_inv (w\<lparr>server_mode := b\<rparr>) = registry_inv w" "registry_inv (w\<lparr>active_creates := n\<rparr>) = registry_inv w"
  "registry_inv (w\<lparr>total_creates := n\<rparr>) = registry_inv w" "registry_inv (w\<lparr>total_failures := n\<rparr>) = registry_inv w"
  "registry_inv (w\<lparr>created := xs\<rparr>) = registry_inv w"
  by (simp_all add: registry_inv_def maps_ok_def refs_ok_def hidden_ok_def one_owner_def removed_ok_def)

lemma inv_actor: "registry_inv w \<Longrightarrow> hidden p = None \<or> hidden p = hidden (actor w) \<Longrightarrow> registry_inv (w\<lparr>actor := p\<rparr>)"
  by (auto simp: registry_inv_def maps_ok_def refs_ok_def hidden_ok_def one_owner_def removed_ok_def)

lemma inv_tube: "registry_inv w \<Longrightarrow> same_identity (heap w ! k) t \<Longrightarrow> registry_inv (on_tube k (\<lambda>_. t) w)"
  using same_tubes_inv same_tubes_const by blast

lemma inv_spawn: "registry_inv w \<Longrightarrow> registry_inv (w\<lparr>closers := closers w @ [\<lparr>target = i, close_why = r, point = Lookup\<rparr>]\<rparr>)"
  by (auto simp: registry_inv_def maps_ok_def refs_ok_def hidden_ok_def one_owner_def removed_ok_def owners_def)

lemma inv_new_tube:
  assumes inv: "registry_inv w" and t: "\<not> closing t"
  shows "registry_inv (w\<lparr>heap := heap w @ [t], actor := FetchIce (length (heap w)) q\<rparr>)" (is "registry_inv ?w")
proof -
  note i = inv [unfolded registry_inv_def]
  let ?n = "length (heap w)"
  have fresh: "?n \<notin> ran (tubes w)" "\<forall>c \<in> set (closers w). refers (point c) \<noteq> Some ?n"
    using i by (auto simp: maps_ok_def refs_ok_def ran_def)
  then have "owners ?n (closers w) = 0" by (auto simp: owners_def filter_empty_conv dest: owned_refers)
  moreover have "maps_ok ?w" using i by (fastforce simp: maps_ok_def nth_append)
  moreover have "refs_ok ?w" using i by (fastforce simp: refs_ok_def nth_append)
  moreover have "hidden_ok ?w" using fresh by (simp add: hidden_ok_def)
  moreover have "removed_ok ?w" using i by (simp add: removed_ok_def)
  ultimately show ?thesis using i t by (auto simp: registry_inv_def one_owner_def nth_append less_Suc_eq)
qed

lemma inv_insert_tube:
  assumes inv: "registry_inv w" and a: "actor w = InsertTube k q"
  shows "registry_inv (w\<lparr>tubes := (tubes w)(tube_id (heap w ! k) := Some k), actor := InsertConv k q\<rparr>)" (is "registry_inv ?w")
proof -
  note i = inv [unfolded registry_inv_def]
  have k: "k < length (heap w)" "\<forall>c \<in> set (closers w). refers (point c) \<noteq> Some k" using i a by (auto simp: hidden_ok_def)
  have "maps_ok ?w" using i k by (auto simp: maps_ok_def)
  moreover have "refs_ok ?w" "one_owner ?w" using i by (simp_all add: refs_ok_def one_owner_def)
  moreover have "hidden_ok ?w" by (simp add: hidden_ok_def)
  moreover have "removed_ok ?w" using i k removed_refers by (fastforce simp: removed_ok_def ran_def split: if_splits)
  ultimately show ?thesis by (simp add: registry_inv_def)
qed

lemma take_command_inv: "registry_inv w \<Longrightarrow> actor w = Idle \<Longrightarrow> registry_inv (take_command x w)"
  by (cases x) (auto simp: take_command_def intro: inv_actor inv_spawn)

lemma actor_step_inv:
  assumes inv: "registry_inv w"
  shows "registry_inv (actor_step e w)"
proof (cases "awaits (actor w) \<and> creation_over e")
  case True
  then show ?thesis using inv by (simp add: actor_step_def inv_actor)
next
  case False
  note op = op_identity [THEN inv_tube [OF inv]]
  show ?thesis
  proof (cases "actor w")
    case Idle
    then show ?thesis using False inv by (simp add: actor_step_def take_command_inv split: list.split)
  next
    case (CheckExisting q)
    then show ?thesis using False inv by (auto simp: actor_step_def inv_actor split: option.splits)
  next
    case (Associate k q)
    then show ?thesis using False inv by (simp add: actor_step_def inv_actor)
  next
    case (ExistingData k q)
    have "registry_inv (on_tube k (\<lambda>_. set_python q t) w)" "registry_inv (on_tube k (\<lambda>_. t) w)"
      if "create_data_channel (data_made e) (req_conversation q) (heap w ! k) = (x, t)" for x t
      using op_identity(2) [of "heap w ! k" "data_made e" "req_conversation q"] that inv by (auto intro!: inv_tube)
    then show ?thesis using False ExistingData by (auto simp: actor_step_def inv_actor split: prod.splits result.splits)
  next
    case (ExistingChannel k q)
    have "registry_inv (on_tube k (\<lambda>t. snd (create_channel (req_conversation q) (req_settings q) (Some (req_version q)) (built e) (bound e) t)) w)"
      by (rule same_tubes_inv [OF same_tubes_on_tube inv]) (rule op_identity)
    then show ?thesis using False ExistingChannel by (simp add: actor_step_def inv_actor)
  next
    case (Decode q)
    have "\<not> closing (set_python q (new_tube b c d i f))" for b c d i f by (simp add: set_python_def new_tube_def)
    then show ?thesis using False Decode inv by (simp add: actor_step_def inv_actor inv_new_tube)
  next
    case (FetchIce k q)
    then show ?thesis using False inv by (simp add: actor_step_def inv_actor)
  next
    case (InsertTube k q)
    then show ?thesis using False inv inv_insert_tube [OF inv] by (simp add: actor_step_def)
  next
    case (InsertConv k q)
    have "registry_inv (w\<lparr>conversations := c, server_mode := b, actor := ConnectPeer k q\<rparr>)" for c b
      using inv_actor [of "w\<lparr>conversations := c, server_mode := b\<rparr>" "ConnectPeer k q"] inv by simp
    then show ?thesis using False InsertConv by (simp add: actor_step_def)
  next
    case (ConnectPeer k q)
    then show ?thesis using False op(1) [of k]
      by (auto simp: actor_step_def split: prod.splits result.splits intro!: inv_actor) (metis snd_conv)+
  next
    case (MakeData k q)
    then show ?thesis using False op(2) [of k]
      by (auto simp: actor_step_def split: prod.splits result.splits intro!: inv_actor) (metis snd_conv)+
  next
    case (MakeChannel k q)
    then show ?thesis using False op(3) [of k]
      by (auto simp: actor_step_def split: prod.splits result.splits intro!: inv_actor) (metis snd_conv)+
  next
    case (Describe k q)
    then show ?thesis using False inv by (simp add: actor_step_def inv_actor)
  next
    case (Respond x)
    have "registry_inv (respond x w)" unfolding respond_def
      using inv_actor [of "w\<lparr>active_creates := a, total_creates := b, total_failures := c, created := d\<rparr>" Idle for a b c d] inv by simp
    then show ?thesis using False Respond by (simp add: actor_step_def)
  next
    case Stopped
    then show ?thesis using False inv by (simp add: actor_step_def)
  qed
qed

lemma tube_event_inv: "registry_inv w \<Longrightarrow> registry_inv (tube_event k x w)"
  using apply_op_identity [of "heap w ! k" x] by (auto simp: tube_event_def split: prod.split intro!: inv_tube)

lemma registry_step_inv: "registry_inv w \<Longrightarrow> registry_inv (registry_step v w)"
  by (cases v) (simp_all add: actor_step_inv run_closer_inv tube_event_inv)

lemma new_registry_inv: "registry_inv (new_registry limit)"
  by (simp add: registry_inv_def maps_ok_def refs_ok_def hidden_ok_def one_owner_def removed_ok_def new_registry_def)

lemma reachable_inv: "reachable limit w \<Longrightarrow> registry_inv w"
  by (induction rule: reachable.induct) (simp_all add: new_registry_inv registry_step_inv)

section \<open>A tube is closed once\<close>

lemma owners_two:
  assumes "i < j" "j < length cs" "owned (point (cs ! i)) = Some k" "owned (point (cs ! j)) = Some k"
  shows "2 \<le> owners k cs"
proof -
  have "cs = take j cs @ cs ! j # drop (Suc j) cs" using assms(2) by (rule id_take_nth_drop)
  then have "owners k cs = owners k (take j cs) + owners k (cs ! j # drop (Suc j) cs)"
    unfolding owners_def by (metis filter_append length_append)
  moreover have "cs ! i \<in> set (take j cs)" using assms(1,2) by (auto simp: set_conv_nth intro!: exI [of _ i])
  then have "owners k (take j cs) \<noteq> 0" using assms(3) by (auto simp: owners_def filter_empty_conv)
  moreover have "owners k (cs ! j # drop (Suc j) cs) \<noteq> 0" using assms(4) by (simp add: owners_def)
  ultimately show ?thesis by linarith
qed

text \<open>
  C0 (safety). However many closes of a tube are asked for, from outside or by its failing connection, and
  however they are interleaved with each other, with creations and with the tube's own events, at most one
  task carries out the close; the others end at once. When that task has ended no identifier leads to
  the tube any more.
\<close>

theorem tube_closed_once:
  assumes "reachable limit w" "i < length (closers w)" "j < length (closers w)"
    and "owned (point (closers w ! i)) = Some k" "owned (point (closers w ! j)) = Some k"
  shows "i = j \<and> (\<forall>x. point (closers w ! i) = Ended (Some k) x \<longrightarrow> (\<forall>n. get_tube_fast n w \<noteq> Some k))"
proof -
  from reachable_inv [OF assms(1)] have inv: "refs_ok w" "one_owner w" "removed_ok w" by (simp_all add: registry_inv_def)
  from assms(2,4) inv(1) have "k < length (heap w)" using owned_refers unfolding refs_ok_def by (meson nth_mem)
  with inv(2) have "owners k (closers w) \<le> 1" by (auto simp: one_owner_def split: if_splits)
  then have "\<not> i < j" "\<not> j < i" using owners_two [of i j "closers w" k] owners_two [of j i "closers w" k] assms(2-5) by auto
  moreover have "\<forall>x. point (closers w ! i) = Ended (Some k) x \<longrightarrow> k \<notin> ran (tubes w)"
    using inv(3) assms(2) unfolding removed_ok_def by (metis nth_mem removed.simps(2))
  ultimately show ?thesis by (auto simp: get_tube_fast_def ran_def)
qed

section \<open>A close ends\<close>

text \<open>The steps a close task has left once it has listed the channels.\<close>

fun steps_left :: "close_point \<Rightarrow> nat" where
  "steps_left (Report k ns) = length ns + 11" | "steps_left (SignalClosed k) = 10" | "steps_left (Notify k) = 9"
| "steps_left (AwaitChannels k) = 8" | "steps_left (RecordReasons k) = 7" | "steps_left (SendFrames k ns) = 6"
| "steps_left (Drain k) = 5" | "steps_left (ClosePeer k) = 4" | "steps_left (AwaitTasks k) = 3"
| "steps_left (RemoveTube k) = 2" | "steps_left (RetainConvs k) = 1" | "steps_left p = 0"

fun finishing :: "nat \<Rightarrow> close_point \<Rightarrow> bool" where
  "finishing k (Ended j x) = (j = Some k \<and> x = Ok ())"
| "finishing k p = (steps_left p > 0 \<and> refers p = Some k)"

lemma close_from_finishing:
  assumes "finishing k p"
  shows "finishing k (fst (close_from e i r w p)) \<and> steps_left (fst (close_from e i r w p)) \<le> steps_left p - 1"
proof (cases p)
  case (Report j ns)
  with assms show ?thesis by (cases ns) auto
qed (use assms in \<open>auto simp: in_time_def split: result.splits prod.splits\<close>)

lemma close_from_closers: "closers (snd (close_from e i r w p)) = closers w"
proof -
  obtain p' w' where st: "close_from e i r w p = (p', w')" by fastforce
  then have "closers w' = closers w" by (cases rule: close_from_cases) (simp_all add: remove_tube_def same_tubes_def)
  with st show ?thesis by simp
qed

lemma run_closer_eq:
  "i < length (closers w) \<Longrightarrow>
     closers (run_closer i e w) =
       (closers w)[i := (closers w ! i)\<lparr>point := fst (closer_step e (closers w ! i) w)\<rparr>]"
  by (simp add: run_closer_def closer_step_def case_prod_beta close_from_closers)

lemma actor_step_closers: "\<exists>cs. closers (actor_step e w) = closers w @ cs"
proof -
  have "\<exists>cs. closers (take_command x w') = closers w' @ cs" for x w' by (cases x) (simp_all add: take_command_def)
  from this [of _ "w\<lparr>queue := xs\<rparr>" for xs] have "\<exists>cs. closers (take_command x (w\<lparr>queue := xs\<rparr>)) = closers w @ cs" for x xs
    by simp
  then show ?thesis
    by (cases "actor w") (auto simp: actor_step_def respond_def split: list.splits option.splits prod.splits result.splits)
qed

lemma closers_kept:
  assumes "i < length (closers w)" "\<forall>e. v \<noteq> CloserStep i e"
  shows "i < length (closers (registry_step v w)) \<and> closers (registry_step v w) ! i = closers w ! i"
proof (cases v)
  case (ActorStep e)
  from actor_step_closers [of e w] show ?thesis using ActorStep assms(1) by (auto simp: nth_append)
next
  case (CloserStep j e)
  then show ?thesis using assms by (cases "j < length (closers w)") (auto simp: run_closer_eq, auto simp: run_closer_def)
qed (use assms(1) in \<open>simp_all add: tube_event_def split: prod.split\<close>)

fun steps_of :: "nat \<Rightarrow> event list \<Rightarrow> nat" where
  "steps_of i [] = 0"
| "steps_of i (v # vs) = (case v of CloserStep j e \<Rightarrow> (if j = i then 1 else 0) | _ \<Rightarrow> 0) + steps_of i vs"

lemma closer_kept_step:
  assumes "i < length (closers w)"
  shows "i < length (closers (registry_step (CloserStep i e) w)) \<and>
         point (closers (registry_step (CloserStep i e) w) ! i) =
           fst (close_from e (target (closers w ! i)) (why_or_admin (closers w ! i)) w (point (closers w ! i)))"
  using assms by (simp add: run_closer_eq closer_step_def)

lemma finishing_run:
  assumes "i < length (closers w)" "finishing k (point (closers w ! i))"
  shows "i < length (closers (run_registry vs w)) \<and> finishing k (point (closers (run_registry vs w) ! i)) \<and>
         steps_left (point (closers (run_registry vs w) ! i)) \<le> steps_left (point (closers w ! i)) - steps_of i vs"
  using assms
proof (induction vs arbitrary: w)
  case (Cons v vs)
  let ?w = "registry_step v w"
  have "i < length (closers ?w) \<and> finishing k (point (closers ?w ! i)) \<and>
        steps_left (point (closers ?w ! i)) \<le> steps_left (point (closers w ! i)) - steps_of i [v]"
  proof (cases "\<exists>e. v = CloserStep i e")
    case True
    then obtain e where "v = CloserStep i e" by blast
    with closer_kept_step [OF Cons.prems(1)] close_from_finishing [OF Cons.prems(2)] show ?thesis by simp
  next
    case False
    then have "steps_of i [v] = 0" by (auto split: event.split)
    with False closers_kept [OF Cons.prems(1), of v] Cons.prems show ?thesis by auto
  qed
  with Cons.IH [of ?w] show ?case by (cases v) auto
qed simp

text \<open>
  C0 (liveness). Once a close task has listed the \<open>n\<close> channels it reports, its next \<open>n + 11\<close> steps finish it with
  success, whatever happens in between and whatever router, library and time-outs answer; then the registry
  no longer leads to the tube.
\<close>

theorem close_always_ends:
  assumes "reachable limit w" "i < length (closers w)" "point (closers w ! i) = Report k ns"
    and "length ns + 11 \<le> steps_of i vs" "w' = run_registry vs w"
  shows "point (closers w' ! i) = Ended (Some k) (Ok ()) \<and> (\<forall>n. get_tube_fast n w' \<noteq> Some k)"
proof -
  from finishing_run [OF assms(2), of k vs] assms(3-5)
  have f: "i < length (closers w')" "finishing k (point (closers w' ! i))" "steps_left (point (closers w' ! i)) = 0" by auto
  then have e: "point (closers w' ! i) = Ended (Some k) (Ok ())" by (cases "point (closers w' ! i)") auto
  have "removed_ok w'" using reachable_inv [OF reachable_run [OF assms(1)]] assms(5) by (simp add: registry_inv_def)
  then have "k \<notin> ran (tubes w')" using e f(1) unfolding removed_ok_def by (metis nth_mem removed.simps(2))
  with e show ?thesis by (auto simp: get_tube_fast_def ran_def)
qed

section \<open>Admission\<close>

definition admission_inv :: "nat \<Rightarrow> registry \<Rightarrow> bool" where
  "admission_inv limit w \<longleftrightarrow>
     max_concurrent_creates w = limit \<and> active_creates w = (if actor w \<in> {Idle, Stopped} then 0 else 1) \<and>
     Err Overloaded \<notin> set (created w) \<and> actor w \<noteq> Respond (Err Overloaded)"

lemma close_from_admission:
  "max_concurrent_creates (snd (close_from e i r w p)) = max_concurrent_creates w \<and>
   active_creates (snd (close_from e i r w p)) = active_creates w \<and>
   created (snd (close_from e i r w p)) = created w \<and> actor (snd (close_from e i r w p)) = actor w"
proof (cases p)
  case (Report k ns)
  then show ?thesis by (cases ns) auto
qed (auto simp: in_time_def remove_tube_def retain_other_def split: if_splits option.splits prod.splits result.splits)

lemma admission_step: "0 < limit \<Longrightarrow> admission_inv limit w \<Longrightarrow> admission_inv limit (registry_step v w)"
proof (cases v)
  case (CloserStep i e)
  assume "admission_inv limit w"
  with CloserStep show ?thesis
    by (simp add: admission_inv_def run_closer_def closer_step_def case_prod_beta close_from_admission)
next
  case (ActorStep e)
  assume l: "0 < limit" and i: "admission_inv limit w"
  have "admission_inv limit (actor_step e w)"
  proof (cases "awaits (actor w) \<and> creation_over e")
    case True
    then have "actor w \<noteq> Idle" "actor w \<noteq> Stopped" by auto
    with True i show ?thesis by (simp add: actor_step_def admission_inv_def)
  next
    case False
    show ?thesis
    proof (cases "actor w")
      case Idle
      with l i False show ?thesis
        by (auto simp: actor_step_def admission_inv_def take_command_def split: list.splits command.splits)
    next
      case (Respond x)
      with l i False show ?thesis by (auto simp: actor_step_def admission_inv_def respond_def)
    qed (use i False in \<open>auto simp: actor_step_def admission_inv_def split: option.splits prod.splits result.splits\<close>)
  qed
  with ActorStep show ?thesis by simp
qed (auto simp: admission_inv_def tube_event_def split: prod.splits)

text \<open>
  C0 (bounds). The actor awaits each creation before it takes the next command, so at most one creation is
  under way whenever the limit is looked at: unless the limit is 0 no request is ever refused as
  one too many, however many are waiting.
\<close>

theorem never_overloaded:
  assumes "reachable limit w" "0 < limit"
  shows "active_creates w \<le> 1 \<and> Err Overloaded \<notin> set (created w)"
proof -
  have "admission_inv limit w" using assms(1)
  proof (induction rule: reachable.induct)
    case start
    then show ?case by (simp add: admission_inv_def new_registry_def)
  qed (simp add: admission_step assms(2))
  then show ?thesis by (simp add: admission_inv_def)
qed

section \<open>Conversations\<close>

text \<open>
  What the map of conversations relies on: a conversation is only entered for a tube that is registered at
  that moment. The code does not see to it.
\<close>

definition for_registered :: "registry \<Rightarrow> bool" where
  "for_registered w \<longleftrightarrow>
     (case actor w of
        Associate k q \<Rightarrow> (\<forall>i. req_tube_id q = Some i \<longrightarrow> tubes w i \<noteq> None)
      | InsertConv k q \<Rightarrow> tubes w (tube_id (heap w ! k)) \<noteq> None
      | Idle \<Rightarrow> (case queue w of AssociateConversation i c # _ \<Rightarrow> tubes w i \<noteq> None | _ \<Rightarrow> True)
      | _ \<Rightarrow> True)"

fun orderly :: "event list \<Rightarrow> registry \<Rightarrow> bool" where
  "orderly [] w = True"
| "orderly (v # vs) w = ((case v of ActorStep e \<Rightarrow> for_registered w | _ \<Rightarrow> True) \<and> orderly vs (registry_step v w))"

definition retaining :: "ustring \<Rightarrow> registry \<Rightarrow> bool" where
  "retaining i w \<longleftrightarrow> (\<exists>c \<in> set (closers w). target c = i \<and> (\<exists>k. point c = RetainConvs k \<or> point c = ForceConvs k))"

definition conv_inv :: "registry \<Rightarrow> bool" where
  "conv_inv w \<longleftrightarrow> (\<forall>c i. conversations w c = Some i \<longrightarrow> tubes w i \<noteq> None \<or> retaining i w)"

lemma retaining_update:
  assumes "j < length cs" "c \<in> set cs" "target c = i" "point c = RetainConvs k \<or> point c = ForceConvs k"
    and "\<not> (\<exists>k. point (cs ! j) = RetainConvs k \<or> point (cs ! j) = ForceConvs k) \<or> target (cs ! j) \<noteq> i"
  shows "c \<in> set (cs[j := d])"
proof -
  from assms(2) obtain n where n: "n < length cs" "cs ! n = c" by (auto simp: in_set_conv_nth)
  with assms(3-5) have "n \<noteq> j" by auto
  with n have "cs[j := d] ! n = c" "n < length (cs[j := d])" by auto
  then show ?thesis by (metis nth_mem)
qed

lemma close_from_plain:
  "\<forall>k. p \<noteq> RemoveTube k \<and> p \<noteq> ForceTube k \<and> p \<noteq> RetainConvs k \<and> p \<noteq> ForceConvs k \<Longrightarrow>
     tubes (snd (close_from e i r w p)) = tubes w \<and> conversations (snd (close_from e i r w p)) = conversations w"
proof (cases p)
  case (Report k ns)
  then show ?thesis by (cases ns) auto
qed (auto simp: in_time_def split: option.splits prod.splits)

lemma close_from_maps:
  obtains (unchanged) "tubes (snd (close_from e i r w p)) = tubes w" "conversations (snd (close_from e i r w p)) = conversations w"
      "\<not> (\<exists>k. p = RetainConvs k \<or> p = ForceConvs k)"
    | (removing) k where "tubes (snd (close_from e i r w p)) = (tubes w)(i := None)" "conversations (snd (close_from e i r w p)) = conversations w"
      "fst (close_from e i r w p) = RetainConvs k \<or> fst (close_from e i r w p) = ForceConvs k" "\<not> (\<exists>k. p = RetainConvs k \<or> p = ForceConvs k)"
    | (retained) "tubes (snd (close_from e i r w p)) = tubes w" "\<And>c. conversations (snd (close_from e i r w p)) c \<noteq> Some i"
      "\<And>c j. conversations (snd (close_from e i r w p)) c = Some j \<Longrightarrow> conversations w c = Some j"
proof -
  consider (remove) k where "p = RemoveTube k \<or> p = ForceTube k" | (retain) k where "p = RetainConvs k \<or> p = ForceConvs k"
    | (plain) "\<forall>k. p \<noteq> RemoveTube k \<and> p \<noteq> ForceTube k \<and> p \<noteq> RetainConvs k \<and> p \<noteq> ForceConvs k" by blast
  then show thesis
  proof cases
    case (remove k)
    then show thesis by (intro removing [of k]) (auto simp: remove_tube_def)
  next
    case (retain k)
    then show thesis by (intro retained) (auto simp: retain_other_def split: option.splits if_splits)
  next
    case plain
    with close_from_plain show thesis by (intro unchanged) auto
  qed
qed

lemma run_closer_conv:
  assumes inv: "conv_inv w"
  shows "conv_inv (run_closer j e w)"
proof (cases "j < length (closers w)")
  case True
  let ?c = "closers w ! j"
  let ?x = "close_from e (target ?c) (why_or_admin ?c) w (point ?c)"
  let ?w = "run_closer j e w"
  have w: "tubes ?w = tubes (snd ?x)" "conversations ?w = conversations (snd ?x)" "closers ?w = (closers w)[j := ?c\<lparr>point := fst ?x\<rparr>]"
    using True by (simp_all add: run_closer_eq closer_step_def) (simp_all add: run_closer_def closer_step_def case_prod_beta)
  have keep: "retaining i ?w"
    if "retaining i w" "\<not> (\<exists>k. point ?c = RetainConvs k \<or> point ?c = ForceConvs k) \<or> target ?c \<noteq> i" for i
    using that retaining_update [OF True] unfolding retaining_def w(3) by metis
  have self: "retaining (target ?c) ?w" if "fst ?x = RetainConvs k \<or> fst ?x = ForceConvs k" for k
    unfolding retaining_def w(3) using True that by (intro bexI [of _ "?c\<lparr>point := fst ?x\<rparr>"]) (auto simp: set_update_memI)
  show ?thesis unfolding conv_inv_def
  proof (intro allI impI)
    fix c i assume ci: "conversations ?w c = Some i"
    show "tubes ?w i \<noteq> None \<or> retaining i ?w"
    proof (cases rule: close_from_maps [of e "target ?c" "why_or_admin ?c" w "point ?c"])
      case unchanged
      with ci inv keep w show ?thesis by (auto simp: conv_inv_def)
    next
      case (removing k)
      with ci inv keep self w show ?thesis by (fastforce simp: conv_inv_def)
    next
      case retained
      then have "i \<noteq> target ?c" "conversations w c = Some i" using ci w by auto
      then have "tubes w i \<noteq> None \<or> retaining i w" "i \<noteq> target ?c" using inv by (auto simp: conv_inv_def)
      then show ?thesis using keep [of i] retained(1) w(1) by metis
    qed
  qed
qed (use inv in \<open>simp add: run_closer_def\<close>)

lemma actor_step_conv:
  assumes inv: "conv_inv w" and reg: "for_registered w"
  shows "conv_inv (actor_step e w)"
proof -
  have more: "retaining i (actor_step e w)" if "retaining i w" for i
    using that actor_step_closers [of e w] by (auto simp: retaining_def)
  have t: "tubes w i \<noteq> None \<Longrightarrow> tubes (actor_step e w) i \<noteq> None" for i
    by (cases "actor w") (auto simp: actor_step_def take_command_def respond_def split: list.splits command.splits option.splits prod.splits result.splits)
  have c: "conversations (actor_step e w) c = Some i \<Longrightarrow> conversations w c = Some i \<or> tubes w i \<noteq> None" for c i
    using reg
    by (cases "actor w") (auto simp: actor_step_def take_command_def respond_def for_registered_def
        split: list.splits command.splits option.splits prod.splits result.splits if_splits)
  show ?thesis unfolding conv_inv_def
  proof (intro allI impI)
    fix c' i assume "conversations (actor_step e w) c' = Some i"
    from c [OF this] have "tubes w i \<noteq> None \<or> retaining i w" using inv by (auto simp: conv_inv_def)
    then show "tubes (actor_step e w) i \<noteq> None \<or> retaining i (actor_step e w)" using more t by blast
  qed
qed

lemma conv_inv_run: "orderly vs w \<Longrightarrow> conv_inv w \<Longrightarrow> conv_inv (run_registry vs w)"
proof (induction vs arbitrary: w)
  case (Cons v vs)
  have "conv_inv (registry_step v w)"
  proof (cases v)
    case (ActorStep e)
    with Cons.prems show ?thesis by (simp add: actor_step_conv)
  next
    case (CloserStep j e)
    with Cons.prems show ?thesis by (simp add: run_closer_conv)
  qed (use Cons.prems(2) in \<open>auto simp: conv_inv_def retaining_def tube_event_def split: prod.split\<close>)
  with Cons show ?case by simp
qed simp

text \<open>
  C0 (invariant). If conversations are only entered for tubes registered at that moment, every conversation
  leads to a registered tube, except while a close task stands between its removals from the two maps.
\<close>

theorem conversations_registered:
  assumes "orderly vs (new_registry limit)" "w = run_registry vs (new_registry limit)" "conversations w c = Some i"
  shows "get_by_conversation_fast c w \<noteq> None \<or> retaining i w"
proof -
  have "conv_inv (new_registry limit)" by (simp add: conv_inv_def new_registry_def)
  from conv_inv_run [OF assms(1) this] assms(2,3) show ?thesis by (auto simp: conv_inv_def get_by_conversation_fast_def)
qed

section \<open>What goes wrong\<close>

text \<open>A creation that fails once the tube is registered leaves the tube and its conversation in the maps, and closes nothing.\<close>

lemma failed_creation_stays:
  assumes "reachable limit w" "actor w = ConnectPeer k q" "tubes w i = Some k" "peer_made e = Err x" "\<not> creation_over e"
    and "w' = actor_step e' (actor_step e w)"
  shows "actor w' = Idle \<and> last (created w') = Err (PeerFailed x) \<and> tubes w' i = Some k \<and>
         conversations w' = conversations w \<and> closers w' = closers w \<and> queue w' = queue w"
  using assms by (simp add: actor_step_def create_peer_connection_def respond_def)

text \<open>A creation for a tube that exists is answered with success although the data channel could not be made.\<close>

lemma existing_tube_always_ok:
  assumes "actor w = ExistingData k q" "req_tube_id q = Some i" "k < length (heap w)" "data_made e = Err x" "\<not> creation_over e"
  shows "actor (actor_step e w) = Respond (Ok i)"
  using assms by (simp add: actor_step_def create_data_channel_def split: option.split)

text \<open>A channel that opens late, or a connection that comes late, takes a tube that is being closed back to an open state.\<close>

lemma closed_not_final:
  "status (channel_opened ksm token v t) = Ready" "status t = Closed \<Longrightarrow> status (connected t) = Active"
  by (simp_all add: channel_opened_def report_connection_open_def post_router_def connected_def state_signal_def send_signal_def)

text \<open>Data of a conversation without a channel of its own goes out on another one's.\<close>

lemma handler_data_elsewhere:
  "conv \<notin> fst ` set dcs \<Longrightarrow> dcs = (l, d) # ds \<Longrightarrow> ustr ''control'' \<notin> fst ` set dcs \<Longrightarrow> handler_channel conv dcs = Some l"
  by (simp add: handler_channel_def)

text \<open>With \<open>turn_only\<close> no server but a TURN server is used, outside the test mode.\<close>

lemma turn_only_relays:
  assumes "turn_only stt" "\<not> (case ksm of Some cfg \<Rightarrow> starts ''TEST_MODE_KSM_CONFIG'' cfg | None \<Rightarrow> False)"
  shows "snd (build_rtc_configuration servers stt) = RelayOnly \<and>
         set (prepare_ice_servers_unlocked stt krelay ksm pooled fetched) \<subseteq> set (turn_servers stt krelay ksm pooled fetched)"
  using assms by (auto simp: build_rtc_configuration_def prepare_ice_servers_unlocked_def split: if_splits)

section \<open>Sample runs\<close>

definition sample_channel :: new_channel where
  "sample_channel =
     \<lparr>ch_server_mode = False, ch_listen_addr = None, ch_protocol = Guacd, ch_callback_token = Some (ustr ''k''),
      ch_ksm_config = Some (ustr ''m''), ch_client_version = ustr ''17''\<rparr>"

definition sample_request :: create_request where
  "sample_request =
     \<lparr>req_conversation = ustr ''c'', req_settings = Map.empty, req_offer = Some [], req_trickle = False, req_token = ustr ''k'',
      req_krelay = ustr ''r'', req_ksm = Some (ustr ''m''), req_version = ustr ''17'', req_tube_id = Some (ustr ''t''),
      req_python_tx = False\<rparr>"

definition sample_actor_env :: actor_env where
  "sample_actor_env =
     \<lparr>offer_decodes = True, fresh_id = [], peer_made = Ok (), data_made = Ok (), built = Ok sample_channel, bound = Ok 1,
      described = Ok (), creation_over = False\<rparr>"

definition sample_closer_env :: "nat \<Rightarrow> bool \<Rightarrow> closer_env" where
  "sample_closer_env idle up = \<lparr>cl_env = sample_close_env, idle_for = idle, time_is_up = up\<rparr>"

text \<open>A tube is created, its data channel arrives, it is connected, its close is asked for and comes to the list of channels.\<close>

definition sample_create :: "event list" where
  "sample_create = Submit (CreateTube sample_request) # replicate 9 (ActorStep sample_actor_env)"

definition sample_close :: "nat \<Rightarrow> nat \<Rightarrow> event list" where
  "sample_close i n =
     Submit (CloseTube (ustr ''t'') None) # ActorStep sample_actor_env # replicate n (CloserStep i (sample_closer_env 0 True))"

definition sample_registry :: registry where
  "sample_registry =
     run_registry (sample_create @
         [TubeEvent 0 (RemoteChannel (ustr ''c'') Map.empty (Ok sample_channel) (Ok 1)), TubeEvent 0 (StateChange True RtcConnected)] @
         sample_close 0 4) (new_registry 5)"

lemma sample_reachable: "reachable 5 sample_registry"
  unfolding sample_registry_def by (rule reachable_run [OF reachable.start])

lemma sample_point:
  "map point (closers sample_registry) = [Report 0 [ustr ''c'']]" "created sample_registry = [Ok (ustr ''t'')]"
  "tubes sample_registry (ustr ''t'') = Some 0" "conversations sample_registry (ustr ''c'') = Some (ustr ''t'')"
  by code_simp+

text \<open>
  The first close hangs in its report; the connection fails, and five minutes later a second close removes the
  tube by force; the identifier is used again for a new tube; then the first close goes on.
\<close>

definition sample_stuck :: registry where
  "sample_stuck =
     run_registry (TubeEvent 0 (StateChange True RtcFailed) # sample_close 1 2) sample_registry"

definition sample_judged :: registry where
  "sample_judged =
     sample_stuck\<lparr>closers := (closers sample_stuck)[1 := \<lparr>target = ustr ''t'', close_why = None, point = ForceTube 0\<rparr>]\<rparr>"

definition sample_rest :: "event list" where
  "sample_rest =
     replicate 2 (CloserStep 1 (sample_closer_env 0 True)) @ sample_create @ replicate 6 (CloserStep 0 (sample_closer_env 0 True))"

lemma sample_judge: "run_registry [CloserStep 1 (sample_closer_env 400000 False)] sample_stuck = sample_judged"
proof -
  have s: "closers sample_stuck = [closers sample_stuck ! 0, \<lparr>target = ustr ''t'', close_why = None, point = Judge 0\<rparr>]"
    "get_connection_state (heap sample_stuck ! 0) = Some RtcFailed" "peer_connection (heap sample_stuck ! 0) \<noteq> None"
    by code_simp+
  then have c: "closers sample_stuck ! 1 = \<lparr>target = ustr ''t'', close_why = None, point = Judge 0\<rparr>" "length (closers sample_stuck) = 2"
    by (metis One_nat_def nth_Cons_0 nth_Cons_Suc, metis length_Cons list.size(3) numeral_2_eq_2)
  show ?thesis using s(2,3) c
    by (simp add: run_closer_def closer_step_def is_inactive_for_duration_def sample_closer_env_def sample_judged_def)
qed

text \<open>
  The first close takes the new tube out of the map: it stays open, and nothing leads to it.
\<close>

lemma late_close_removes_new_tube:
  "\<exists>w k. reachable 5 w \<and> k < length (heap w) \<and> last (created w) = Ok (tube_id (heap w ! k)) \<and> \<not> closing (heap w ! k) \<and>
         (\<forall>c \<in> set (closers w). refers (point c) \<noteq> Some k) \<and> get_tube_fast (tube_id (heap w ! k)) w = None"
proof (intro exI conjI)
  let ?w = "run_registry sample_rest sample_judged"
  have "reachable 5 sample_stuck" unfolding sample_stuck_def by (rule reachable_run [OF sample_reachable])
  then show "reachable 5 ?w" using sample_judge reachable_run by metis
  show "1 < length (heap ?w)" "last (created ?w) = Ok (tube_id (heap ?w ! 1))" "\<not> closing (heap ?w ! 1)"
    "\<forall>c \<in> set (closers ?w). refers (point c) \<noteq> Some 1" "get_tube_fast (tube_id (heap ?w ! 1)) ?w = None"
    by code_simp+
qed

text \<open>A conversation that is associated after its tube has gone stays in the map.\<close>

lemma late_conversation_dangles:
  "\<exists>w. reachable 5 w \<and> conversations w (ustr ''d'') = Some (ustr ''t'') \<and> get_by_conversation_fast (ustr ''d'') w = None \<and>
       \<not> retaining (ustr ''t'') w"
proof (intro exI conjI)
  let ?w = "run_registry [Submit (AssociateConversation (ustr ''t'') (ustr ''d'')), ActorStep sample_actor_env] (new_registry 5)"
  show "reachable 5 ?w" by (rule reachable_run [OF reachable.start])
  show "conversations ?w (ustr ''d'') = Some (ustr ''t'')" "get_by_conversation_fast (ustr ''d'') ?w = None" by code_simp+
  show "\<not> retaining (ustr ''t'') ?w"
    by (simp add: retaining_def new_registry_def actor_step_def take_command_def)
qed

section \<open>Witnesses\<close>

theorem tube_closed_once_witness:
  "\<exists>w. point (closers w ! 0) = Ended (Some 0) (Ok ()) \<and> get_tube_fast (ustr ''t'') w \<noteq> Some 0"
proof (intro exI)
  let ?w = "run_registry (replicate 6 (CloserStep 0 (sample_closer_env 0 True))) sample_registry"
  have r: "reachable 5 ?w" by (rule reachable_run [OF sample_reachable])
  have p: "0 < length (closers ?w)" "point (closers ?w ! 0) = Ended (Some 0) (Ok ())" by code_simp+
  then have "owned (point (closers ?w ! 0)) = Some 0" by simp
  from tube_closed_once [OF r p(1) p(1) this this] p(2)
  show "point (closers ?w ! 0) = Ended (Some 0) (Ok ()) \<and> get_tube_fast (ustr ''t'') ?w \<noteq> Some 0" by blast
qed

theorem close_always_ends_witness:
  "point (closers (run_registry (replicate 12 (CloserStep 0 (sample_closer_env 0 False))) sample_registry) ! 0) = Ended (Some 0) (Ok ())"
proof -
  let ?vs = "replicate 12 (CloserStep 0 (sample_closer_env 0 False))"
  have "length (closers sample_registry) = 1" using arg_cong [OF sample_point(1), of length] by simp
  moreover from this have "point (closers sample_registry ! 0) = Report 0 [ustr ''c'']"
    using arg_cong [OF sample_point(1), of "\<lambda>xs. xs ! 0"] by simp
  moreover have "steps_of 0 ?vs = 12" by (simp add: numeral_eq_Suc)
  ultimately show ?thesis
    using close_always_ends [OF sample_reachable, of 0 0 "[ustr ''c'']" ?vs] by simp
qed

theorem never_overloaded_witness: "Err Overloaded \<notin> set (created sample_registry)"
  using never_overloaded [OF sample_reachable] by simp

theorem conversations_registered_witness:
  "get_by_conversation_fast (ustr ''c'') (run_registry sample_create (new_registry 5)) \<noteq> None"
proof -
  let ?w = "run_registry sample_create (new_registry 5)"
  have o: "orderly sample_create (new_registry 5)"
    by (simp add: sample_create_def sample_request_def sample_actor_env_def new_registry_def for_registered_def numeral_eq_Suc
        actor_step_def take_command_def on_tube_def new_tube_def set_python_def server_request_def create_peer_connection_def
        note_client_version_def respond_def)
  have c: "conversations ?w (ustr ''c'') = Some (ustr ''t'')" "closers ?w = []" by code_simp+
  from conversations_registered [OF o refl c(1)] c(2) show ?thesis by (simp add: retaining_def)
qed

end
