(* ===== verification/Utf16.thy ===== *)
theory Utf16
  imports Utf8_Lossy
begin

text \<open>
  UTF-16: \<open>str::encode_utf16\<close> and \<open>String::from_utf16\<close> of the Rust standard library, and the little-endian
  byte strings of \<open>keeperdb-proxy/src/protocol/sqlserver/auth.rs\<close> with its reversible password encoding.
\<close>

section \<open>Code units\<close>

definition utf16_units :: "uchar \<Rightarrow> u16 list" where
  "utf16_units c =
     (if c < 0x10000 then [of_nat c]
      else [of_nat (0xD800 + (c - 0x10000) div 0x400), of_nat (0xDC00 + (c - 0x10000) mod 0x400)])"

definition encode_utf16 :: "ustring \<Rightarrow> u16 list" where
  "encode_utf16 s = concat (map utf16_units s)"

text \<open>A surrogate that is not part of a pair makes the whole string invalid.\<close>

fun from_utf16 :: "u16 list \<Rightarrow> ustring option" where
  "from_utf16 [] = Some []"
| "from_utf16 (u # us) =
     (if unat u < 0xD800 \<or> 0xDFFF < unat u then map_option (Cons (unat u)) (from_utf16 us)
      else if 0xDC00 \<le> unat u then None
      else case us of
             [] \<Rightarrow> None
           | v # vs \<Rightarrow>
               if 0xDC00 \<le> unat v \<and> unat v \<le> 0xDFFF
               then map_option (Cons (0x10000 + (unat u - 0xD800) * 0x400 + (unat v - 0xDC00))) (from_utf16 vs)
               else None)"

lemma encode_utf16_simps [simp]:
  "encode_utf16 [] = []" "encode_utf16 (c # s) = utf16_units c @ encode_utf16 s"
  by (simp_all add: encode_utf16_def)

lemma utf16_units_nonempty [simp]: "utf16_units c \<noteq> []"
  by (simp add: utf16_units_def)

lemma encode_utf16_eq_Nil [simp]: "encode_utf16 s = [] \<longleftrightarrow> s = []"
  by (cases s) simp_all

lemma from_utf16_units:
  assumes "is_scalar c"
  shows "from_utf16 (utf16_units c @ us) = map_option (Cons c) (from_utf16 us)"
proof (cases "c < 0x10000")
  case True
  then have "unat (of_nat c :: u16) = c" by (simp add: unat_of_nat)
  with True assms show ?thesis by (auto simp: utf16_units_def is_scalar_def)
next
  case False
  let ?d = "c - 0x10000"
  have c: "c < 0x110000" using assms by (auto simp: is_scalar_def)
  then have d: "?d div 0x400 < 0x400" using False by (simp add: div_less_iff_less_mult)
  then have hi: "unat (of_nat (0xD800 + ?d div 0x400) :: u16) = 0xD800 + ?d div 0x400"
    by (subst unat_of_nat) simp
  have m: "?d mod 0x400 < 0x400" "?d mod 0x400 \<le> 0x3FF" by simp_all
  then have lo: "unat (of_nat (0xDC00 + ?d mod 0x400) :: u16) = 0xDC00 + ?d mod 0x400"
    by (subst unat_of_nat) (simp add: mod_less)
  have "c = 0x10000 + (?d div 0x400) * 0x400 + ?d mod 0x400" using False by simp
  then show ?thesis
    using False d m by (simp add: utf16_units_def hi lo del: of_nat_add)
qed

lemma from_encode_utf16 [simp]: "proper_string s \<Longrightarrow> from_utf16 (encode_utf16 s) = Some s"
  by (induction s) (simp_all add: from_utf16_units)

section \<open>Little-endian byte strings\<close>

definition string_to_utf16le :: "ustring \<Rightarrow> bytes" where
  "string_to_utf16le s = concat (map le16 (encode_utf16 s))"

fun le_units :: "bytes \<Rightarrow> u16 list" where
  "le_units (a # b # r) = of_be16 b a # le_units r"
| "le_units _ = []"

definition utf16le_to_string :: "bytes \<Rightarrow> ustring option" where
  "utf16le_to_string bs = (if odd (length bs) then None else from_utf16 (le_units bs))"

lemma length_le16s [simp]: "length (concat (map le16 us)) = 2 * length us"
  by (induction us) simp_all

lemma length_utf16le: "length (string_to_utf16le s) = 2 * length (encode_utf16 s)"
  by (simp add: string_to_utf16le_def)

lemma string_to_utf16le_eq_Nil [simp]: "string_to_utf16le s = [] \<longleftrightarrow> s = []"
  by (metis encode_utf16_eq_Nil length_0_conv length_utf16le mult_eq_0_iff zero_neq_numeral)

lemma le_units_le16s [simp]: "le_units (concat (map le16 us)) = us"
  by (induction us) (simp_all add: le16_def be16_def of_be16_def join_split)

lemma utf16le_roundtrip [simp]: "proper_string s \<Longrightarrow> utf16le_to_string (string_to_utf16le s) = Some s"
  by (simp add: utf16le_to_string_def string_to_utf16le_def)

section \<open>Passwords\<close>

definition obfuscate :: "u8 \<Rightarrow> u8" where
  "obfuscate b = ((push_bit 4 b AND 0xF0) OR (drop_bit 4 b AND 0x0F)) XOR 0xA5"

definition encode_password :: "ustring \<Rightarrow> bytes" where
  "encode_password password = concat (map (\<lambda>c. map obfuscate (le16 c)) (encode_utf16 password))"

text \<open>What the server does to read it.\<close>

definition deobfuscate :: "u8 \<Rightarrow> u8" where
  "deobfuscate b = (let x = b XOR 0xA5 in (push_bit 4 x AND 0xF0) OR (drop_bit 4 x AND 0x0F))"

lemma deobfuscate_obfuscate [simp]: "deobfuscate (obfuscate b) = b"
proof -
  have "list_all (\<lambda>k. deobfuscate (obfuscate (word_of_int k)) = word_of_int k) [0..255]" by code_simp
  then show ?thesis by (rule byte_by_cases)
qed

lemma encode_password_bytes: "encode_password p = map obfuscate (string_to_utf16le p)"
  by (simp add: encode_password_def string_to_utf16le_def map_concat comp_def)

lemma password_recovered: "map deobfuscate (encode_password p) = string_to_utf16le p"
  by (simp add: encode_password_bytes comp_def)

lemma length_encode_password: "length (encode_password p) = 2 * length (encode_utf16 p)"
  by (simp add: encode_password_bytes length_utf16le)

lemma encode_password_eq_Nil [simp]: "encode_password p = [] \<longleftrightarrow> p = []"
  by (simp add: encode_password_bytes)

end
