(* ===== verification/Tds_Protocol.thy ===== *)
theory Tds_Protocol
  imports Utf16
begin

text \<open>
  The TDS protocol of SQL Server as the database proxy speaks it: \<open>constants.rs\<close>, \<open>packets.rs\<close> and
  \<open>parser.rs\<close> of \<open>keeperdb-proxy/src/protocol/sqlserver\<close>. PRELOGIN options and LOGIN7 fields are addressed by
  offsets into the packet; every offset comes from a peer and is checked before it is used, so the parsers are
  functions without a panic. A UTF-16 string is a list of characters, the time zone an unsigned 32-bit pattern.
\<close>

section \<open>Constants\<close>

definition PKT_TABULAR_RESULT :: u8 where "PKT_TABULAR_RESULT = 0x04"
definition PKT_LOGIN7 :: u8 where "PKT_LOGIN7 = 0x10"
definition PKT_PRELOGIN :: u8 where "PKT_PRELOGIN = 0x12"

definition STATUS_EOM :: u8 where "STATUS_EOM = 0x01"

definition TDS_7_4 :: u32 where "TDS_7_4 = 0x74000004"

definition PL_VERSION :: u8 where "PL_VERSION = 0x00"
definition PL_ENCRYPTION :: u8 where "PL_ENCRYPTION = 0x01"
definition PL_INSTOPT :: u8 where "PL_INSTOPT = 0x02"
definition PL_THREADID :: u8 where "PL_THREADID = 0x03"
definition PL_MARS :: u8 where "PL_MARS = 0x04"
definition PL_TRACEID :: u8 where "PL_TRACEID = 0x05"
definition PL_TERMINATOR :: u8 where "PL_TERMINATOR = 0xFF"

lemmas pl_tokens = PL_VERSION_def PL_ENCRYPTION_def PL_INSTOPT_def PL_THREADID_def PL_MARS_def PL_TRACEID_def
  PL_TERMINATOR_def

definition TOKEN_ERROR :: u8 where "TOKEN_ERROR = 0xAA"
definition TOKEN_LOGINACK :: u8 where "TOKEN_LOGINACK = 0xAD"
definition TOKEN_DONE :: u8 where "TOKEN_DONE = 0xFD"

definition TDS_HEADER_SIZE :: nat where "TDS_HEADER_SIZE = 8"
definition DEFAULT_PACKET_SIZE :: u32 where "DEFAULT_PACKET_SIZE = 4096"
definition LOGIN7_HEADER_SIZE :: nat where "LOGIN7_HEADER_SIZE = 94"

datatype encryption_mode = EncOff | EncOn | EncNotSupported | EncRequired

definition mode_from_byte :: "u8 \<Rightarrow> encryption_mode option" where
  "mode_from_byte b =
     (if b = 0x00 then Some EncOff else if b = 0x01 then Some EncOn
      else if b = 0x02 then Some EncNotSupported else if b = 0x03 then Some EncRequired else None)"

fun mode_to_byte :: "encryption_mode \<Rightarrow> u8" where
  "mode_to_byte EncOff = 0x00"
| "mode_to_byte EncOn = 0x01"
| "mode_to_byte EncNotSupported = 0x02"
| "mode_to_byte EncRequired = 0x03"

lemma mode_roundtrip [simp]: "mode_from_byte (mode_to_byte m) = Some m"
  by (cases m) (simp_all add: mode_from_byte_def)

section \<open>Packet headers\<close>

record tds_header =
  th_type :: u8
  th_status :: u8
  th_length :: u16
  th_spid :: u16
  th_packet_id :: u8
  th_window :: u8

definition new_tds_header :: "u8 \<Rightarrow> u8 \<Rightarrow> u16 \<Rightarrow> tds_header" where
  "new_tds_header t st len =
     \<lparr>th_type = t, th_status = st, th_length = len, th_spid = 0, th_packet_id = 1, th_window = 0\<rparr>"

definition parse_tds_header :: "bytes \<Rightarrow> tds_header option" where
  "parse_tds_header d =
     (if length d < TDS_HEADER_SIZE then None
      else Some \<lparr>th_type = d ! 0, th_status = d ! 1, th_length = of_be16 (d ! 2) (d ! 3),
                 th_spid = of_be16 (d ! 4) (d ! 5), th_packet_id = d ! 6, th_window = d ! 7\<rparr>)"

definition serialize_tds_header :: "tds_header \<Rightarrow> bytes" where
  "serialize_tds_header h =
     [th_type h, th_status h] @ be16 (th_length h) @ be16 (th_spid h) @ [th_packet_id h, th_window h]"

definition payload_length :: "tds_header \<Rightarrow> nat" where
  "payload_length h = unat (th_length h) - TDS_HEADER_SIZE"

definition is_end_of_message :: "tds_header \<Rightarrow> bool" where
  "is_end_of_message h \<longleftrightarrow> th_status h AND STATUS_EOM \<noteq> 0"

lemma length_serialize_tds_header [simp]: "length (serialize_tds_header h) = TDS_HEADER_SIZE"
  by (simp add: serialize_tds_header_def TDS_HEADER_SIZE_def)

lemma parse_serialize_header: "parse_tds_header (serialize_tds_header h @ rest) = Some h"
  by (simp add: parse_tds_header_def serialize_tds_header_def TDS_HEADER_SIZE_def be16_def of_be16_def join_split)

lemma serialize_parse_header:
  assumes "parse_tds_header d = Some h"
  shows "serialize_tds_header h = take TDS_HEADER_SIZE d"
proof -
  have len: "8 \<le> length d" using assms by (auto simp: parse_tds_header_def TDS_HEADER_SIZE_def split: if_splits)
  then have "take 8 d = [d ! 0, d ! 1, d ! 2, d ! 3, d ! 4, d ! 5, d ! 6, d ! 7]"
    by (intro nth_equalityI) (auto simp: numeral_eq_Suc less_Suc_eq)
  with len assms show ?thesis
    by (auto simp: parse_tds_header_def serialize_tds_header_def TDS_HEADER_SIZE_def be16_of_be16)
qed

section \<open>PRELOGIN\<close>

datatype tds_error = TdsTooShort | TdsInvalidString | TdsOffsetOutOfBounds

record prelogin_version =
  pv_major :: u8
  pv_minor :: u8
  pv_build :: u16
  pv_sub_build :: u16

record prelogin =
  pl_version :: prelogin_version
  pl_encryption :: encryption_mode
  pl_instance :: "ustring option"
  pl_thread_id :: "u32 option"
  pl_mars :: "bool option"
  pl_trace_id :: "bytes option"

definition default_prelogin :: prelogin where
  "default_prelogin = \<lparr>pl_version = \<lparr>pv_major = 0, pv_minor = 0, pv_build = 0, pv_sub_build = 0\<rparr>,
     pl_encryption = EncOff, pl_instance = None, pl_thread_id = None, pl_mars = None, pl_trace_id = None\<rparr>"

text \<open>The option table: five bytes per option up to the terminator or the end of the packet.\<close>

fun prelogin_tokens :: "bytes \<Rightarrow> ((u8 \<times> u16 \<times> u16) list, tds_error) result" where
  "prelogin_tokens [] = Ok []"
| "prelogin_tokens (t # r) =
     (if t = PL_TERMINATOR then Ok []
      else case r of
             a # b # c # d # r' \<Rightarrow>
               bind_result (prelogin_tokens r') (\<lambda>ts. Ok ((t, of_be16 a b, of_be16 c d) # ts))
           | _ \<Rightarrow> Err TdsTooShort)"

definition set_option :: "u8 \<Rightarrow> bytes \<Rightarrow> prelogin \<Rightarrow> prelogin" where
  "set_option t d p =
     (if t = PL_VERSION
      then (if 6 \<le> length d
            then p\<lparr>pl_version := \<lparr>pv_major = d ! 0, pv_minor = d ! 1, pv_build = of_be16 (d ! 2) (d ! 3),
                                  pv_sub_build = of_be16 (d ! 4) (d ! 5)\<rparr>\<rparr>
            else p)
      else if t = PL_ENCRYPTION
      then (if d \<noteq> []
            then p\<lparr>pl_encryption := (case mode_from_byte (d ! 0) of Some m \<Rightarrow> m | None \<Rightarrow> EncOff)\<rparr>
            else p)
      else if t = PL_INSTOPT
      then (if 0 \<in> set d then p\<lparr>pl_instance := Some (from_utf8_lossy (takeWhile (\<lambda>b. b \<noteq> 0) d))\<rparr> else p)
      else if t = PL_THREADID
      then (if 4 \<le> length d then p\<lparr>pl_thread_id := Some (get_u32 d)\<rparr> else p)
      else if t = PL_MARS then (if d \<noteq> [] then p\<lparr>pl_mars := Some (d ! 0 \<noteq> 0)\<rparr> else p)
      else if t = PL_TRACEID then p\<lparr>pl_trace_id := Some d\<rparr>
      else p)"

fun read_options :: "bytes \<Rightarrow> (u8 \<times> u16 \<times> u16) list \<Rightarrow> prelogin \<Rightarrow> (prelogin, tds_error) result" where
  "read_options dat [] p = Ok p"
| "read_options dat ((t, off, len) # ts) p =
     (if unat off + unat len > length dat then Err TdsOffsetOutOfBounds
      else read_options dat ts (set_option t (take (unat len) (drop (unat off) dat)) p))"

definition parse_prelogin :: "bytes \<Rightarrow> (prelogin, tds_error) result" where
  "parse_prelogin dat = bind_result (prelogin_tokens dat) (\<lambda>ts. read_options dat ts default_prelogin)"

definition prelogin_options :: "prelogin \<Rightarrow> (u8 \<times> bytes) list" where
  "prelogin_options p =
     [(PL_VERSION, [pv_major (pl_version p), pv_minor (pl_version p)] @
         be16 (pv_build (pl_version p)) @ be16 (pv_sub_build (pl_version p))),
      (PL_ENCRYPTION, [mode_to_byte (pl_encryption p)]),
      (PL_INSTOPT, (case pl_instance p of Some i \<Rightarrow> utf8 i @ [0] | None \<Rightarrow> [0])),
      (PL_THREADID, be32 (case pl_thread_id p of Some n \<Rightarrow> n | None \<Rightarrow> 0))] @
     (case pl_mars p of Some m \<Rightarrow> [(PL_MARS, [if m then 1 else 0])] | None \<Rightarrow> [])"

fun option_table :: "nat \<Rightarrow> (u8 \<times> bytes) list \<Rightarrow> bytes" where
  "option_table off [] = []"
| "option_table off ((t, d) # os) =
     t # be16 (of_nat off) @ be16 (of_nat (length d)) @ option_table (off + length d) os"

definition prelogin_payload :: "prelogin \<Rightarrow> bytes" where
  "prelogin_payload p =
     (let os = prelogin_options p
      in option_table (length os * 5 + 1) os @ [PL_TERMINATOR] @ concat (map snd os))"

definition serialize_prelogin_with_type :: "prelogin \<Rightarrow> u8 \<Rightarrow> bytes" where
  "serialize_prelogin_with_type p t =
     serialize_tds_header (new_tds_header t STATUS_EOM (of_nat (TDS_HEADER_SIZE + length (prelogin_payload p)))) @
     prelogin_payload p"

definition serialize_prelogin :: "prelogin \<Rightarrow> bytes" where
  "serialize_prelogin p = serialize_prelogin_with_type p PKT_PRELOGIN"

definition serialize_prelogin_response :: "prelogin \<Rightarrow> bytes" where
  "serialize_prelogin_response p = serialize_prelogin_with_type p PKT_TABULAR_RESULT"

section \<open>LOGIN7\<close>

record login7 =
  l7_length :: u32
  l7_tds_version :: u32
  l7_packet_size :: u32
  l7_client_prog_ver :: u32
  l7_client_pid :: u32
  l7_connection_id :: u32
  l7_option_flags1 :: u8
  l7_option_flags2 :: u8
  l7_type_flags :: u8
  l7_option_flags3 :: u8
  l7_client_timezone :: u32
  l7_client_lcid :: u32
  l7_hostname :: ustring
  l7_username :: ustring
  l7_password :: bytes
  l7_app_name :: ustring
  l7_server_name :: ustring
  l7_extension :: bytes
  l7_library_name :: ustring
  l7_language :: ustring
  l7_database :: ustring
  l7_client_id :: bytes
  l7_sspi :: bytes
  l7_attach_db_file :: ustring
  l7_new_password :: bytes

definition default_login7 :: login7 where
  "default_login7 =
     \<lparr>l7_length = 0, l7_tds_version = TDS_7_4, l7_packet_size = DEFAULT_PACKET_SIZE,
      l7_client_prog_ver = 0x07000000, l7_client_pid = 0, l7_connection_id = 0, l7_option_flags1 = 0x00,
      l7_option_flags2 = 0x01, l7_type_flags = 0x01, l7_option_flags3 = 0x00, l7_client_timezone = 0,
      l7_client_lcid = 0x0409, l7_hostname = [], l7_username = [], l7_password = [],
      l7_app_name = ustr ''keeperdb-proxy'', l7_server_name = [], l7_extension = [],
      l7_library_name = ustr ''Rust TDS'', l7_language = [], l7_database = [], l7_client_id = replicate 6 0,
      l7_sspi = [], l7_attach_db_file = [], l7_new_password = []\<rparr>"

text \<open>
  The bytes of the field whose offset and length stand at \<open>k\<close>, \<open>w\<close> bytes per unit; an empty field has none.
\<close>

definition field_bytes :: "nat \<Rightarrow> bytes \<Rightarrow> nat \<Rightarrow> (bytes option, tds_error) result" where
  "field_bytes w dat k =
     (let off = get_le16 (drop k dat); len = get_le16 (drop (k + 2) dat)
      in if len = 0 then Ok None
         else if unat off + unat len * w > length dat then Err TdsOffsetOutOfBounds
         else Ok (Some (take (unat len * w) (drop (unat off) dat))))"

definition read_string :: "bytes \<Rightarrow> nat \<Rightarrow> ustring \<Rightarrow> (ustring, tds_error) result" where
  "read_string dat k unset =
     bind_result (field_bytes 2 dat k) (\<lambda>b. case b of
       None \<Rightarrow> Ok unset
     | Some bs \<Rightarrow> (case utf16le_to_string bs of None \<Rightarrow> Err TdsInvalidString | Some s \<Rightarrow> Ok s))"

definition read_raw :: "nat \<Rightarrow> bytes \<Rightarrow> nat \<Rightarrow> (bytes, tds_error) result" where
  "read_raw w dat k =
     bind_result (field_bytes w dat k) (\<lambda>b. case b of None \<Rightarrow> Ok [] | Some bs \<Rightarrow> Ok bs)"

definition parse_login7 :: "bytes \<Rightarrow> (login7, tds_error) result" where
  "parse_login7 dat =
     (if length dat < LOGIN7_HEADER_SIZE then Err TdsTooShort
      else bind_result (read_string dat 36 (l7_hostname default_login7)) (\<lambda>host.
           bind_result (read_string dat 40 (l7_username default_login7)) (\<lambda>user.
           bind_result (read_raw 2 dat 44) (\<lambda>password.
           bind_result (read_string dat 48 (l7_app_name default_login7)) (\<lambda>app.
           bind_result (read_string dat 52 (l7_server_name default_login7)) (\<lambda>server.
           bind_result (read_string dat 60 (l7_library_name default_login7)) (\<lambda>library.
           bind_result (read_string dat 64 (l7_language default_login7)) (\<lambda>language.
           bind_result (read_string dat 68 (l7_database default_login7)) (\<lambda>database.
           bind_result (read_raw 1 dat 78) (\<lambda>sspi.
           bind_result (read_string dat 82 (l7_attach_db_file default_login7)) (\<lambda>attach.
           Ok (default_login7
             \<lparr>l7_length := get_le32 dat, l7_tds_version := get_le32 (drop 4 dat),
              l7_packet_size := get_le32 (drop 8 dat), l7_client_prog_ver := get_le32 (drop 12 dat),
              l7_client_pid := get_le32 (drop 16 dat), l7_connection_id := get_le32 (drop 20 dat),
              l7_option_flags1 := dat ! 24, l7_option_flags2 := dat ! 25, l7_type_flags := dat ! 26,
              l7_option_flags3 := dat ! 27, l7_client_timezone := get_le32 (drop 28 dat),
              l7_client_lcid := get_le32 (drop 32 dat), l7_hostname := host, l7_username := user,
              l7_password := password, l7_app_name := app, l7_server_name := server,
              l7_library_name := library, l7_language := language, l7_database := database,
              l7_client_id := take 6 (drop 72 dat), l7_sspi := sspi, l7_attach_db_file := attach\<rparr>))))))))))))"

text \<open>
  Fields are laid out behind the fixed part in the order they are added. An entry of the table is the offset
  and the length in characters; the entry of an empty field is zero, and offsets wrap at 16 bits.
\<close>

fun add_fields :: "bytes list \<Rightarrow> u16 \<Rightarrow> (u16 \<times> u16) list" where
  "add_fields [] current = []"
| "add_fields (d # ds) current =
     (if d = [] then (0, 0) # add_fields ds current
      else (current, of_nat (length d div 2)) # add_fields ds (current + of_nat (length d)))"

definition entry :: "u16 \<times> u16 \<Rightarrow> bytes" where
  "entry e = le16 (fst e) @ le16 (snd e)"

text \<open>
  The table of a LOGIN7: host name, user name, password, application and server, no extension, library,
  language and database, the client's identifier, no SSPI, the attached file, no new password, no long SSPI.
\<close>

definition field_table :: "(u16 \<times> u16) list \<Rightarrow> bytes \<Rightarrow> u16 \<times> u16 \<Rightarrow> bytes" where
  "field_table es client attach =
     concat (map entry (take 5 es)) @ entry (0, 0) @ concat (map entry (drop 5 es)) @ client @
     entry (0, 0) @ entry attach @ entry (0, 0) @ le32 0"

definition serialize_login7 :: "login7 \<Rightarrow> bytes" where
  "serialize_login7 l =
     (let vfields = map string_to_utf16le [l7_hostname l, l7_username l] @
            [encode_password (from_utf8_lossy (l7_password l))] @
            map string_to_utf16le [l7_app_name l, l7_server_name l, l7_library_name l, l7_language l,
              l7_database l, l7_attach_db_file l];
          es = add_fields vfields (of_nat LOGIN7_HEADER_SIZE);
          var_data = concat vfields;
          payload = le32 (of_nat (LOGIN7_HEADER_SIZE + length var_data)) @ le32 (l7_tds_version l) @
            le32 (l7_packet_size l) @ le32 (l7_client_prog_ver l) @ le32 (l7_client_pid l) @
            le32 (l7_connection_id l) @
            [l7_option_flags1 l, l7_option_flags2 l, l7_type_flags l, l7_option_flags3 l] @
            le32 (l7_client_timezone l) @ le32 (l7_client_lcid l) @
            field_table (take 8 es) (l7_client_id l) (es ! 8) @ var_data
      in serialize_tds_header
           (new_tds_header PKT_LOGIN7 STATUS_EOM (of_nat (TDS_HEADER_SIZE + length payload))) @ payload)"

definition create_login7_with_credentials ::
  "ustring \<Rightarrow> ustring \<Rightarrow> ustring option \<Rightarrow> ustring \<Rightarrow> ustring \<Rightarrow> bytes" where
  "create_login7_with_credentials user password database app host =
     serialize_login7 (default_login7\<lparr>l7_username := user, l7_password := utf8 password, l7_app_name := app,
       l7_hostname := host, l7_database := (case database of Some d \<Rightarrow> d | None \<Rightarrow> []), l7_tds_version := TDS_7_4\<rparr>)"

text \<open>The credentials are replaced in the client's own packet; a field out of bounds counts as empty.\<close>

definition extract_string :: "bytes \<Rightarrow> nat \<Rightarrow> bytes" where
  "extract_string dat k = (case field_bytes 2 dat k of Ok (Some bs) \<Rightarrow> bs | _ \<Rightarrow> [])"

definition modified_payload :: "bytes \<Rightarrow> bytes list \<Rightarrow> bytes" where
  "modified_payload dat vfields =
     le32 (of_nat (LOGIN7_HEADER_SIZE + length (concat vfields))) @ take 20 (drop 4 dat) @
     [dat ! 24, dat ! 25, dat ! 26, dat ! 27 AND NOT 0x10] @ take 8 (drop 28 dat) @
     field_table (add_fields vfields (of_nat LOGIN7_HEADER_SIZE)) (take 6 (drop 72 dat)) (0, 0) @
     concat vfields"

definition login7_fields :: "bytes \<Rightarrow> ustring \<Rightarrow> ustring \<Rightarrow> ustring option \<Rightarrow> bytes list" where
  "login7_fields dat user password database =
     [extract_string dat 36, string_to_utf16le user, encode_password password, extract_string dat 48,
      extract_string dat 52, extract_string dat 60, extract_string dat 64,
      (case database of
         Some db \<Rightarrow> if db \<noteq> [] then string_to_utf16le db else extract_string dat 68
       | None \<Rightarrow> extract_string dat 68)]"

definition modify_login7_credentials ::
  "bytes \<Rightarrow> ustring \<Rightarrow> ustring \<Rightarrow> ustring option \<Rightarrow> (bytes, tds_error) result" where
  "modify_login7_credentials packet user password database =
     (if length packet < TDS_HEADER_SIZE + LOGIN7_HEADER_SIZE then Err TdsTooShort
      else let dat = drop TDS_HEADER_SIZE packet;
               payload = modified_payload dat (login7_fields dat user password database)
           in Ok ([packet ! 0, packet ! 1] @ be16 (of_nat (TDS_HEADER_SIZE + length payload)) @
                  take 4 (drop 4 packet) @ payload))"

section \<open>Server tokens\<close>

record login_ack =
  la_interface :: u8
  la_tds_version :: u32
  la_prog_name :: ustring
  la_prog_version :: bytes

definition parse_loginack :: "bytes \<Rightarrow> (login_ack, tds_error) result" where
  "parse_loginack dat =
     (if length dat < 10 then Err TdsTooShort
      else if length dat < unat (get_le16 dat) + 2 then Err TdsTooShort
      else let name_end = 8 + unat (dat ! 7) * 2
           in if name_end + 4 > length dat then Err TdsTooShort
              else case utf16le_to_string (take (unat (dat ! 7) * 2) (drop 8 dat)) of
                     None \<Rightarrow> Err TdsInvalidString
                   | Some name \<Rightarrow>
                       Ok \<lparr>la_interface = dat ! 2, la_tds_version = get_le32 (drop 3 dat),
                           la_prog_name = name, la_prog_version = take 4 (drop name_end dat)\<rparr>)"

definition build_error_packet :: "u32 \<Rightarrow> ustring \<Rightarrow> ustring \<Rightarrow> u8 \<Rightarrow> bytes" where
  "build_error_packet number msg server severity =
     (let text = string_to_utf16le msg; name = string_to_utf16le server;
          token_len = 4 + 1 + 1 + 2 + length text + 1 + length name + 1 + 0 + 4;
          payload = [TOKEN_ERROR] @ le16 (of_nat token_len) @ le32 number @ [1, severity] @
            le16 (of_nat (length text div 2)) @ text @ [of_nat (length name div 2)] @ name @ [0] @ le32 0 @
            [TOKEN_DONE] @ le16 0x0002 @ le16 0 @ le64 0
      in serialize_tds_header
           (new_tds_header PKT_TABULAR_RESULT STATUS_EOM (of_nat (TDS_HEADER_SIZE + length payload))) @ payload)"

section \<open>What is written is read back\<close>

text \<open>Reading the options one after the other from where the table says they are.\<close>

lemma read_table:
  assumes "\<forall>(t, d) \<in> set os. t \<noteq> PL_TERMINATOR" and "off + length (concat (map snd os)) < 2 ^ 16"
    and "length pre = off"
  shows "\<exists>ts. prelogin_tokens (option_table off os @ PL_TERMINATOR # r) = Ok ts \<and>
    read_options (pre @ concat (map snd os)) ts p = Ok (fold (\<lambda>(t, d). set_option t d) os p)"
  using assms
proof (induction os arbitrary: off pre p)
  case (Cons o' os)
  obtain t d where o': "o' = (t, d)" by fastforce
  from Cons.prems have t: "t \<noteq> PL_TERMINATOR" and os: "\<forall>(t, d) \<in> set os. t \<noteq> PL_TERMINATOR"
    and fits: "off + length d + length (concat (map snd os)) < 2 ^ 16" and pre: "length (pre @ d) = off + length d"
    by (auto simp: o')
  obtain ts where ts: "prelogin_tokens (option_table (off + length d) os @ PL_TERMINATOR # r) = Ok ts"
      "read_options ((pre @ d) @ concat (map snd os)) ts (set_option t d p) =
        Ok (fold (\<lambda>(t, d). set_option t d) os (set_option t d p))"
    using Cons.IH [OF os fits pre] by blast
  have nat: "unat (of_nat off :: u16) = off" "unat (of_nat (length d) :: u16) = length d"
    using fits by (simp_all add: unat_of_nat)
  have eq: "prelogin_tokens (option_table off (o' # os) @ PL_TERMINATOR # r) =
      Ok ((t, of_nat off, of_nat (length d)) # ts)"
    using t ts(1) by (simp add: o' be16_def of_be16_def join_split)
  show ?case
    unfolding eq using ts(2) nat Cons.prems(3) by (simp add: o')
qed simp

text \<open>What a written PRELOGIN says: the instance name and the thread always, never a trace identifier.\<close>

definition prelogin_on_wire :: "prelogin \<Rightarrow> prelogin" where
  "prelogin_on_wire p = p\<lparr>
     pl_instance := Some (case pl_instance p of Some i \<Rightarrow> i | None \<Rightarrow> []),
     pl_thread_id := Some (case pl_thread_id p of Some n \<Rightarrow> n | None \<Rightarrow> 0), pl_trace_id := None\<rparr>"

definition prelogin_ok :: "prelogin \<Rightarrow> bool" where
  "prelogin_ok p \<longleftrightarrow> (case pl_instance p of
     Some i \<Rightarrow> proper_string i \<and> 0 \<notin> set i \<and> length (utf8 i) < 60000 | None \<Rightarrow> True)"

lemma takeWhile_nul: "0 \<notin> set d \<Longrightarrow> takeWhile (\<lambda>b. b \<noteq> 0) (d @ 0 # r) = (d :: bytes)"
  by (subst takeWhile_append2) auto

lemma length_option_table [simp]: "length (option_table off os) = 5 * length os"
  by (induction os arbitrary: off) auto

lemma prelogin_roundtrip:
  assumes "prelogin_ok p"
  shows "parse_prelogin (drop TDS_HEADER_SIZE (serialize_prelogin_with_type p t)) = Ok (prelogin_on_wire p)"
proof -
  let ?os = "prelogin_options p" and ?n = "length (prelogin_options p) * 5 + 1"
  let ?pre = "option_table ?n ?os @ [PL_TERMINATOR]"
  have ok: "\<forall>(t, d) \<in> set ?os. t \<noteq> PL_TERMINATOR"
    by (simp add: prelogin_options_def pl_tokens split: option.split)
  have fits: "?n + length (concat (map snd ?os)) < 2 ^ 16"
    using assms by (simp add: prelogin_options_def prelogin_ok_def split: option.splits)
  obtain ts where ts: "prelogin_tokens (option_table ?n ?os @ PL_TERMINATOR # concat (map snd ?os)) = Ok ts"
      "read_options (?pre @ concat (map snd ?os)) ts default_prelogin =
        Ok (fold (\<lambda>(t, d). set_option t d) ?os default_prelogin)"
    using read_table [OF ok fits, of ?pre "concat (map snd ?os)" default_prelogin] by auto
  have "drop TDS_HEADER_SIZE (serialize_prelogin_with_type p t) = ?pre @ concat (map snd ?os)"
    by (simp add: serialize_prelogin_with_type_def prelogin_payload_def Let_def)
  moreover have "fold (\<lambda>(t, d). set_option t d) ?os default_prelogin = prelogin_on_wire p"
    using assms
    by (auto simp: prelogin_options_def set_option_def pl_tokens default_prelogin_def prelogin_on_wire_def prelogin_ok_def
        be16_def of_be16_def join_split takeWhile_nul utf8_nonzero get_be32 [of _ "[]", simplified] split: option.splits)
  ultimately show ?thesis using ts by (simp add: parse_prelogin_def)
qed

section \<open>The modified login\<close>

lemma length_add_fields [simp]: "length (add_fields ds current) = length ds"
  by (induction ds arbitrary: current) simp_all

lemma add_fields_nth:
  "i < length ds \<Longrightarrow> add_fields ds current ! i =
    (if ds ! i = [] then (0, 0)
     else (current + of_nat (length (concat (take i ds))), of_nat (length (ds ! i) div 2)))"
proof (induction ds arbitrary: i current)
  case (Cons d ds)
  show ?case
  proof (cases i)
    case (Suc j)
    with Cons.prems have "j < length ds" by simp
    from Cons.IH [OF this] show ?thesis by (simp add: Suc)
  qed simp
qed simp

lemma concat_slice:
  "i < length ds \<Longrightarrow> take (length (ds ! i)) (drop (length (concat (take i ds))) (concat ds)) = ds ! i"
proof -
  assume "i < length ds"
  then have "concat ds = concat (take i ds) @ ds ! i @ concat (drop (Suc i) ds)"
    using id_take_nth_drop [of i ds] by (metis concat.simps(2) concat_append)
  then show ?thesis by simp
qed

lemma length_concat_take: "i < length ds \<Longrightarrow> length (concat (take i ds)) + length (ds ! i) \<le> length (concat ds)"
proof -
  assume "i < length ds"
  then have "concat ds = concat (take i ds) @ ds ! i @ concat (drop (Suc i) ds)"
    using id_take_nth_drop [of i ds] by (metis concat.simps(2) concat_append)
  then have "length (concat ds) = length (concat (take i ds) @ ds ! i @ concat (drop (Suc i) ds))" by (rule arg_cong)
  then show ?thesis by simp
qed

lemma length_entry [simp]: "length (entry e) = 4"
  by (simp add: entry_def)

lemma entry_read:
  assumes "take 4 (drop k dat) = entry e"
  shows "get_le16 (drop k dat) = fst e" "get_le16 (drop (k + 2) dat) = snd e"
proof -
  obtain r where r: "drop k dat = entry e @ r" using assms by (metis append_take_drop_id)
  have "drop (k + 2) dat = drop 2 (drop k dat)" by (simp add: add.commute)
  then have "drop (k + 2) dat = le16 (snd e) @ r" by (simp add: r entry_def)
  then show "get_le16 (drop k dat) = fst e" "get_le16 (drop (k + 2) dat) = snd e"
    by (simp_all add: r entry_def get_le)
qed

lemma field_placed:
  assumes "length pre = LOGIN7_HEADER_SIZE" and "LOGIN7_HEADER_SIZE + length (concat ds) < 2 ^ 16"
    and "i < length ds" and "even (length (ds ! i))"
    and "take 4 (drop k (pre @ concat ds)) = entry (add_fields ds (of_nat LOGIN7_HEADER_SIZE) ! i)"
  shows "field_bytes 2 (pre @ concat ds) k = Ok (if ds ! i = [] then None else Some (ds ! i))"
proof (cases "ds ! i = []")
  case True
  then show ?thesis
    using entry_read [OF assms(5)] assms(3) by (simp add: field_bytes_def add_fields_nth)
next
  case False
  let ?off = "LOGIN7_HEADER_SIZE + length (concat (take i ds))" and ?n = "length (ds ! i) div 2"
  have sizes: "length (concat (take i ds)) + length (ds ! i) \<le> length (concat ds)"
    using length_concat_take [OF assms(3)] .
  have e: "get_le16 (drop k (pre @ concat ds)) = of_nat ?off" "get_le16 (drop (k + 2) (pre @ concat ds)) = of_nat ?n"
    using entry_read [OF assms(5)] assms(3) False by (simp_all add: add_fields_nth)
  have n: "unat (of_nat ?n :: u16) = ?n" and off: "unat (of_nat ?off :: u16) = ?off"
    using assms(2) sizes by (simp_all add: unat_of_nat del: of_nat_add)
  have n2: "?n * 2 = length (ds ! i)" using assms(4) by simp
  have "?n \<noteq> 0" using False by (metis length_0_conv mult_is_0 n2)
  then have "(of_nat ?n :: u16) \<noteq> 0" using n by (metis unat_0)
  then show ?thesis
    unfolding field_bytes_def Let_def e n off n2
    using False sizes assms(1) concat_slice [OF assms(3)] by simp
qed

lemma read_string_extract:
  assumes "read_string dat k unset = Ok s"
  shows "even (length (extract_string dat k))"
    and "if extract_string dat k = [] then s = unset else utf16le_to_string (extract_string dat k) = Some s"
proof -
  obtain b where b: "field_bytes 2 dat k = Ok b"
    using assms by (cases "field_bytes 2 dat k") (simp_all add: read_string_def)
  have "bs \<noteq> [] \<and> even (length bs)" if "b = Some bs" for bs
  proof -
    let ?len = "get_le16 (drop (k + 2) dat)"
    from b that have len: "?len \<noteq> 0" and bs: "unat (get_le16 (drop k dat)) + unat ?len * 2 \<le> length dat"
        "bs = take (unat ?len * 2) (drop (unat (get_le16 (drop k dat))) dat)"
      by (auto simp: field_bytes_def Let_def split: if_splits)
    then have "length bs = unat ?len * 2" by simp
    moreover have "0 < unat ?len" using len by (simp add: unat_gt_0)
    ultimately show ?thesis by auto
  qed
  then show "even (length (extract_string dat k))"
    and "if extract_string dat k = [] then s = unset else utf16le_to_string (extract_string dat k) = Some s"
    using assms b by (auto simp: read_string_def extract_string_def split: option.splits)
qed

lemma read_string_placed:
  assumes "field_bytes 2 dat k = Ok (if x = [] then None else Some x)"
    and "if x = [] then s = unset else utf16le_to_string x = Some s"
  shows "read_string dat k unset = Ok s"
  using assms by (cases "x = []") (simp_all add: read_string_def)

lemma table_entries:
  assumes "length head = 36" and "length es = 8" and "length client = 6"
  shows "take 4 (drop 36 (head @ field_table es client a @ var)) = entry (es ! 0)"
    "take 4 (drop 40 (head @ field_table es client a @ var)) = entry (es ! 1)"
    "take 4 (drop 44 (head @ field_table es client a @ var)) = entry (es ! 2)"
    "take 4 (drop 48 (head @ field_table es client a @ var)) = entry (es ! 3)"
    "take 4 (drop 52 (head @ field_table es client a @ var)) = entry (es ! 4)"
    "take 4 (drop 60 (head @ field_table es client a @ var)) = entry (es ! 5)"
    "take 4 (drop 64 (head @ field_table es client a @ var)) = entry (es ! 6)"
    "take 4 (drop 68 (head @ field_table es client a @ var)) = entry (es ! 7)"
    "take 4 (drop 78 (head @ field_table es client a @ var)) = entry (0, 0)"
    "take 4 (drop 82 (head @ field_table es client a @ var)) = entry a"
    "take 6 (drop 72 (head @ field_table es client a @ var)) = client"
    "length (field_table es client a) = 58"
proof -
  from assms(2) obtain e0 e1 e2 e3 e4 e5 e6 e7 where es: "es = [e0, e1, e2, e3, e4, e5, e6, e7]"
    by (auto simp: length_Suc_conv numeral_eq_Suc)
  show "take 4 (drop 36 (head @ field_table es client a @ var)) = entry (es ! 0)"
    "take 4 (drop 40 (head @ field_table es client a @ var)) = entry (es ! 1)"
    "take 4 (drop 44 (head @ field_table es client a @ var)) = entry (es ! 2)"
    "take 4 (drop 48 (head @ field_table es client a @ var)) = entry (es ! 3)"
    "take 4 (drop 52 (head @ field_table es client a @ var)) = entry (es ! 4)"
    "take 4 (drop 60 (head @ field_table es client a @ var)) = entry (es ! 5)"
    "take 4 (drop 64 (head @ field_table es client a @ var)) = entry (es ! 6)"
    "take 4 (drop 68 (head @ field_table es client a @ var)) = entry (es ! 7)"
    "take 4 (drop 78 (head @ field_table es client a @ var)) = entry (0, 0)"
    "take 4 (drop 82 (head @ field_table es client a @ var)) = entry a"
    "take 6 (drop 72 (head @ field_table es client a @ var)) = client"
    "length (field_table es client a) = 58"
    using assms(1,3) by (simp_all add: es field_table_def)
qed

text \<open>Every field of the table leads to its bytes.\<close>

lemma layout_placed:
  assumes "length head = 36" and "length client = 6" and "length ds = 8" and "\<forall>d \<in> set ds. even (length d)"
    and "LOGIN7_HEADER_SIZE + length (concat ds) < 2 ^ 16"
    and "new = head @ field_table (add_fields ds (of_nat LOGIN7_HEADER_SIZE)) client (0, 0) @ concat ds"
  shows "field_bytes 2 new 36 = Ok (if ds ! 0 = [] then None else Some (ds ! 0))"
    and "field_bytes 2 new 40 = Ok (if ds ! 1 = [] then None else Some (ds ! 1))"
    and "field_bytes 2 new 44 = Ok (if ds ! 2 = [] then None else Some (ds ! 2))"
    and "field_bytes 2 new 48 = Ok (if ds ! 3 = [] then None else Some (ds ! 3))"
    and "field_bytes 2 new 52 = Ok (if ds ! 4 = [] then None else Some (ds ! 4))"
    and "field_bytes 2 new 60 = Ok (if ds ! 5 = [] then None else Some (ds ! 5))"
    and "field_bytes 2 new 64 = Ok (if ds ! 6 = [] then None else Some (ds ! 6))"
    and "field_bytes 2 new 68 = Ok (if ds ! 7 = [] then None else Some (ds ! 7))"
    and "field_bytes w new 78 = Ok None" and "field_bytes w new 82 = Ok None"
    and "take 6 (drop 72 new) = client"
proof -
  let ?es = "add_fields ds (of_nat LOGIN7_HEADER_SIZE)"
  let ?pre = "head @ field_table ?es client (0, 0)"
  have es: "length ?es = 8" by (simp add: assms(3))
  note table = table_entries(1-11) [OF assms(1) es assms(2), where a = "(0, 0)" and var = "concat ds", folded assms(6)]
  have pre: "length ?pre = LOGIN7_HEADER_SIZE"
    using assms(1) table_entries(12) [OF assms(1) es assms(2)] by (simp add: LOGIN7_HEADER_SIZE_def)
  have new: "new = ?pre @ concat ds" by (simp add: assms(6))
  have placed: "field_bytes 2 new k = Ok (if ds ! i = [] then None else Some (ds ! i))"
    if "i < 8" "take 4 (drop k new) = entry (?es ! i)" for i k
    using field_placed [OF pre assms(5), of i k] that assms(3,4) by (simp only: new) simp
  show "field_bytes 2 new 36 = Ok (if ds ! 0 = [] then None else Some (ds ! 0))"
    "field_bytes 2 new 40 = Ok (if ds ! 1 = [] then None else Some (ds ! 1))"
    "field_bytes 2 new 44 = Ok (if ds ! 2 = [] then None else Some (ds ! 2))"
    "field_bytes 2 new 48 = Ok (if ds ! 3 = [] then None else Some (ds ! 3))"
    "field_bytes 2 new 52 = Ok (if ds ! 4 = [] then None else Some (ds ! 4))"
    "field_bytes 2 new 60 = Ok (if ds ! 5 = [] then None else Some (ds ! 5))"
    "field_bytes 2 new 64 = Ok (if ds ! 6 = [] then None else Some (ds ! 6))"
    "field_bytes 2 new 68 = Ok (if ds ! 7 = [] then None else Some (ds ! 7))"
    by (rule placed; simp add: table)+
  show "field_bytes w new 78 = Ok None" "field_bytes w new 82 = Ok None"
    using entry_read [OF table(9)] entry_read [OF table(10)] by (simp_all add: field_bytes_def)
  show "take 6 (drop 72 new) = client" by (rule table(11))
qed

lemma even_extract [simp]: "even (length (extract_string dat k))"
  by (auto simp: extract_string_def field_bytes_def Let_def split: option.split result.split)

lemma extract_string_le: "length (extract_string dat k) \<le> length dat"
  by (auto simp: extract_string_def field_bytes_def Let_def split: option.split result.split)

lemma parse_login7_iff:
  "parse_login7 dat = Ok l \<longleftrightarrow> LOGIN7_HEADER_SIZE \<le> length dat \<and>
     read_string dat 36 [] = Ok (l7_hostname l) \<and> read_string dat 40 [] = Ok (l7_username l) \<and>
     read_raw 2 dat 44 = Ok (l7_password l) \<and> read_string dat 48 (ustr ''keeperdb-proxy'') = Ok (l7_app_name l) \<and>
     read_string dat 52 [] = Ok (l7_server_name l) \<and> read_string dat 60 (ustr ''Rust TDS'') = Ok (l7_library_name l) \<and>
     read_string dat 64 [] = Ok (l7_language l) \<and> read_string dat 68 [] = Ok (l7_database l) \<and>
     read_raw 1 dat 78 = Ok (l7_sspi l) \<and> read_string dat 82 [] = Ok (l7_attach_db_file l) \<and>
     l7_length l = get_le32 dat \<and> l7_tds_version l = get_le32 (drop 4 dat) \<and>
     l7_packet_size l = get_le32 (drop 8 dat) \<and> l7_client_prog_ver l = get_le32 (drop 12 dat) \<and>
     l7_client_pid l = get_le32 (drop 16 dat) \<and> l7_connection_id l = get_le32 (drop 20 dat) \<and>
     l7_option_flags1 l = dat ! 24 \<and> l7_option_flags2 l = dat ! 25 \<and> l7_type_flags l = dat ! 26 \<and>
     l7_option_flags3 l = dat ! 27 \<and> l7_client_timezone l = get_le32 (drop 28 dat) \<and>
     l7_client_lcid l = get_le32 (drop 32 dat) \<and> l7_client_id l = take 6 (drop 72 dat) \<and>
     l7_extension l = [] \<and> l7_new_password l = []"
  by (cases l) (auto simp: parse_login7_def default_login7_def)

lemma parse_login7_head:
  assumes "LOGIN7_HEADER_SIZE \<le> length dat" and "length a = 4"
  shows "get_le32 (drop 4 (a @ take 20 (drop 4 dat) @ r)) = get_le32 (drop 4 dat)"
    "get_le32 (drop 8 (a @ take 20 (drop 4 dat) @ r)) = get_le32 (drop 8 dat)"
    "get_le32 (drop 12 (a @ take 20 (drop 4 dat) @ r)) = get_le32 (drop 12 dat)"
    "get_le32 (drop 16 (a @ take 20 (drop 4 dat) @ r)) = get_le32 (drop 16 dat)"
    "get_le32 (drop 20 (a @ take 20 (drop 4 dat) @ r)) = get_le32 (drop 20 dat)"
    "get_le32 (drop 28 (a @ take 20 (drop 4 dat) @ [x, y, z, w] @ take 8 (drop 28 dat) @ q)) = get_le32 (drop 28 dat)"
    "get_le32 (drop 32 (a @ take 20 (drop 4 dat) @ [x, y, z, w] @ take 8 (drop 28 dat) @ q)) = get_le32 (drop 32 dat)"
    "(a @ take 20 (drop 4 dat) @ [x, y, z, w] @ q) ! 24 = x"
    "(a @ take 20 (drop 4 dat) @ [x, y, z, w] @ q) ! 25 = y"
    "(a @ take 20 (drop 4 dat) @ [x, y, z, w] @ q) ! 26 = z"
    "(a @ take 20 (drop 4 dat) @ [x, y, z, w] @ q) ! 27 = w"
  using assms by (simp_all add: get_le32_def nth_append LOGIN7_HEADER_SIZE_def)

lemma read_string_kept:
  assumes "read_string dat k unset = Ok s"
    and "field_bytes 2 dat' k' = Ok (if x = [] then None else Some x)" and "x = extract_string dat k"
  shows "read_string dat' k' unset = Ok s"
  using read_string_placed [OF assms(2)] read_string_extract(2) [OF assms(1)] assms(3) by simp

definition chosen_database :: "ustring option \<Rightarrow> ustring \<Rightarrow> ustring" where
  "chosen_database database original =
     (case database of Some db \<Rightarrow> if db \<noteq> [] then db else original | None \<Rightarrow> original)"

lemma replaced_login7:
  assumes parsed: "parse_login7 dat = Ok l"
    and new: "new = modified_payload dat (login7_fields dat user password database)"
    and fits: "length new < 2 ^ 16"
    and proper: "proper_string user" "\<forall>db. database = Some db \<longrightarrow> proper_string db"
  shows "parse_login7 new =
      Ok (l\<lparr>l7_length := of_nat (length new), l7_username := user,
           l7_password := encode_password password, l7_option_flags3 := l7_option_flags3 l AND NOT 0x10,
           l7_database := chosen_database database (l7_database l), l7_sspi := [], l7_attach_db_file := []\<rparr>)"
proof -
  define fs where "fs = login7_fields dat user password database"
  define len where "len = le32 (of_nat (LOGIN7_HEADER_SIZE + length (concat fs)))"
  define tail where "tail = take 8 (drop 28 dat) @
    field_table (add_fields fs (of_nat LOGIN7_HEADER_SIZE)) (take 6 (drop 72 dat)) (0, 0) @ concat fs"
  note rd = parsed [unfolded parse_login7_iff]
  have long: "LOGIN7_HEADER_SIZE \<le> length dat" using rd by simp
  have new1: "new = len @ take 20 (drop 4 dat) @ [dat ! 24, dat ! 25, dat ! 26, dat ! 27 AND NOT 0x10] @ tail"
    by (simp add: new modified_payload_def fs_def len_def tail_def)
  note head = parse_login7_head [OF long, of len]
  have len4: "length len = 4" by (simp add: len_def)
  define hd36 where "hd36 = len @ take 20 (drop 4 dat) @ [dat ! 24, dat ! 25, dat ! 26, dat ! 27 AND NOT 0x10] @ take 8 (drop 28 dat)"
  have new2: "new = hd36 @ field_table (add_fields fs (of_nat LOGIN7_HEADER_SIZE)) (take 6 (drop 72 dat)) (0, 0) @ concat fs"
    by (simp add: new1 hd36_def tail_def)
  have len36: "length hd36 = 36" using long len4 by (simp add: hd36_def LOGIN7_HEADER_SIZE_def)
  have client: "length (take 6 (drop 72 dat)) = 6" using long by (simp add: LOGIN7_HEADER_SIZE_def)
  have fs8: "length fs = 8" by (simp add: fs_def login7_fields_def)
  have even: "\<forall>d \<in> set fs. even (length d)"
    by (simp add: fs_def login7_fields_def length_utf16le length_encode_password split: option.split)
  have size: "length new = LOGIN7_HEADER_SIZE + length (concat fs)"
    using table_entries(12) [OF len36 _ client, of "add_fields fs (of_nat LOGIN7_HEADER_SIZE)"] fs8 len36
    by (simp add: new2 LOGIN7_HEADER_SIZE_def)
  note layout = layout_placed [OF len36 client fs8 even fits [unfolded size] new2]
  have nth: "fs ! 0 = extract_string dat 36" "fs ! 1 = string_to_utf16le user" "fs ! 2 = encode_password password"
    "fs ! 3 = extract_string dat 48" "fs ! 4 = extract_string dat 52" "fs ! 5 = extract_string dat 60"
    "fs ! 6 = extract_string dat 64"
    "fs ! 7 = (case database of Some db \<Rightarrow> if db \<noteq> [] then string_to_utf16le db else extract_string dat 68
       | None \<Rightarrow> extract_string dat 68)"
    by (simp_all add: fs_def login7_fields_def)
  have user: "read_string new 40 [] = Ok user"
    by (rule read_string_placed [OF layout(2)]) (use proper in \<open>simp add: nth(2) [simplified]\<close>)
  have pw: "read_raw 2 new 44 = Ok (encode_password password)"
    unfolding read_raw_def layout(3) nth by (simp add: encode_password_def)
  have db: "read_string new 68 [] = Ok (chosen_database database (l7_database l))"
  proof (cases "\<exists>db. database = Some db \<and> db \<noteq> []")
    case True
    then obtain db where db: "database = Some db" "db \<noteq> []" by blast
    then have fs7: "fs ! 7 = string_to_utf16le db" by (simp add: nth(8))
    show ?thesis
      using read_string_placed [OF layout(8) [unfolded fs7], of db "[]"] proper(2) db by (simp add: chosen_database_def)
  next
    case False
    then have "fs ! 7 = extract_string dat 68" "chosen_database database (l7_database l) = l7_database l"
      by (auto simp: nth chosen_database_def split: option.split)
    then show ?thesis using read_string_kept [OF _ layout(8)] rd by metis
  qed
  have rest: "read_raw 1 new 78 = Ok []" "read_string new 82 [] = Ok []"
    unfolding read_raw_def read_string_def layout(9,10) by simp_all
  have kept: "read_string new 36 [] = Ok (l7_hostname l)" "read_string new 48 (ustr ''keeperdb-proxy'') = Ok (l7_app_name l)"
    "read_string new 52 [] = Ok (l7_server_name l)" "read_string new 60 (ustr ''Rust TDS'') = Ok (l7_library_name l)"
    "read_string new 64 [] = Ok (l7_language l)"
    using read_string_kept [OF _ layout(1) nth(1)] read_string_kept [OF _ layout(4) nth(4)]
      read_string_kept [OF _ layout(5) nth(5)] read_string_kept [OF _ layout(6) nth(6)]
      read_string_kept [OF _ layout(7) nth(7)] rd by blast+
  have fixed: "get_le32 new = of_nat (length new)" "get_le32 (drop 4 new) = get_le32 (drop 4 dat)"
    "get_le32 (drop 8 new) = get_le32 (drop 8 dat)" "get_le32 (drop 12 new) = get_le32 (drop 12 dat)"
    "get_le32 (drop 16 new) = get_le32 (drop 16 dat)" "get_le32 (drop 20 new) = get_le32 (drop 20 dat)"
    "get_le32 (drop 28 new) = get_le32 (drop 28 dat)" "get_le32 (drop 32 new) = get_le32 (drop 32 dat)"
    "new ! 24 = dat ! 24" "new ! 25 = dat ! 25" "new ! 26 = dat ! 26" "new ! 27 = dat ! 27 AND NOT 0x10"
  proof -
    show "get_le32 new = of_nat (length new)" unfolding size by (simp add: new1 len_def get_le del: of_nat_add)
    show "get_le32 (drop 28 new) = get_le32 (drop 28 dat)" "get_le32 (drop 32 new) = get_le32 (drop 32 dat)"
      unfolding new1 tail_def by (rule head(6,7) [OF len4])+
  qed (unfold new1, (rule head(1-5,8-11) [OF len4])+)
  show ?thesis
    unfolding parse_login7_iff
    using user pw db rest kept fixed layout(11) rd size by simp
qed


section \<open>A sample login\<close>

text \<open>A login of the user \<open>m\<close> that leaves everything else empty.\<close>

definition sample_login7 :: bytes where
  "sample_login7 = serialize_tds_header (new_tds_header PKT_LOGIN7 STATUS_EOM 104) @
     replicate 40 0 @ [94, 0, 1, 0] @ replicate 50 0 @ [0x6D, 0]"

lemma sample_login7_parsed: "\<exists>l. parse_login7 (drop TDS_HEADER_SIZE sample_login7) = Ok l \<and> l7_username l = [0x6D]"
proof -
  have "drop TDS_HEADER_SIZE sample_login7 = replicate 40 0 @ [94, 0, 1, 0] @ replicate 50 0 @ [0x6D, 0]"
    by (simp add: sample_login7_def)
  then show ?thesis
    by (simp add: parse_login7_def read_string_def read_raw_def field_bytes_def get_le16_def of_be16_def nth_append
        LOGIN7_HEADER_SIZE_def utf16le_to_string_def default_login7_def nth_Cons')
qed


end
