(* ===== verification/Tds_Tls_Stream.thy ===== *)
theory Tds_Tls_Stream
  imports Tds_Protocol
begin

text \<open>
  The stream under the TLS handshake of SQL Server, \<open>keeperdb-proxy/src/protocol/sqlserver/tds_tls_stream.rs\<close>:
  TLS records travel inside TDS packets until the handshake is over. The two streams of the code differ in the
  type of the packets they write and share the definitions here.

  The socket under a stream is a list of what it will do: bytes that have arrived, moments when there is nothing
  to do, failures; no more events mean the end of the stream to a reader and unlimited room to a writer. A
  pending poll says whether the task will be woken: by the code itself, by the socket, or not at all.
\<close>

section \<open>The stream and its socket\<close>

record tds_tls_stream =
  read_buf :: bytes
  header_buf :: bytes
  payload_remaining :: nat
  pending_tls_data :: bytes
  passthrough :: bool

definition new_tds_tls :: tds_tls_stream where
  "new_tds_tls = \<lparr>read_buf = [], header_buf = [], payload_remaining = 0, pending_tls_data = [], passthrough = False\<rparr>"

definition set_passthrough :: "bool \<Rightarrow> tds_tls_stream \<Rightarrow> tds_tls_stream" where
  "set_passthrough enabled st = st\<lparr>passthrough := enabled\<rparr>"

datatype tls_io_error = UnexpectedEof | InvalidHeader | WriteZero | SocketError

datatype waker = WokenNow | BySocket | NotWoken

datatype 'a poll = Ready 'a | Pending waker

datatype read_event = Arrives bytes | NotReady | ReadFails

text \<open>One read of at most \<open>n\<close> bytes.\<close>

fun socket_read :: "nat \<Rightarrow> read_event list \<Rightarrow> (bytes, tls_io_error) result poll \<times> read_event list" where
  "socket_read n [] = (Ready (Ok []), [])"
| "socket_read n (NotReady # evs) = (Pending BySocket, evs)"
| "socket_read n (ReadFails # evs) = (Ready (Err SocketError), evs)"
| "socket_read n (Arrives d # evs) =
     (Ready (Ok (take n d)), if drop n d = [] then evs else Arrives (drop n d) # evs)"

definition parse_tls_header :: "bytes \<Rightarrow> nat option" where
  "parse_tls_header h =
     (if length h < TDS_HEADER_SIZE then None
      else let len = unat (of_be16 (h ! 2) (h ! 3))
           in if len < TDS_HEADER_SIZE then None else Some (len - TDS_HEADER_SIZE))"

definition create_tls_header :: "u8 \<Rightarrow> nat \<Rightarrow> bool \<Rightarrow> bytes" where
  "create_tls_header t payload_len is_last =
     [t, if is_last then 0x01 else 0x00] @ be16 (of_nat (TDS_HEADER_SIZE + payload_len)) @ [0, 0, 0, 0]"

section \<open>Reading\<close>

text \<open>The loop that fills the header; \<open>None\<close> is a complete header.\<close>

function fill_header ::
  "tds_tls_stream \<Rightarrow> read_event list \<Rightarrow>
     (bytes, tls_io_error) result poll option \<times> tds_tls_stream \<times> read_event list" where
  "fill_header st evs =
     (if TDS_HEADER_SIZE \<le> length (header_buf st) then (None, st, evs)
      else case socket_read (TDS_HEADER_SIZE - length (header_buf st)) evs of
             (Pending w, evs') \<Rightarrow> (Some (Pending w), st, evs')
           | (Ready (Err e), evs') \<Rightarrow> (Some (Ready (Err e)), st, evs')
           | (Ready (Ok d), evs') \<Rightarrow>
               if d = []
               then (Some (Ready (if header_buf st = [] then Ok [] else Err UnexpectedEof)), st, evs')
               else fill_header (st\<lparr>header_buf := header_buf st @ d\<rparr>) evs')"
  by pat_completeness auto
termination
proof (relation "measure (\<lambda>(st, evs). TDS_HEADER_SIZE - length (header_buf st))", goal_cases)
  case 1
  then show ?case by simp
next
  case (2 st evs x evs' p d)
  then show ?case by (cases d) auto
qed

declare fill_header.simps [simp del]

definition poll_read ::
  "nat \<Rightarrow> tds_tls_stream \<Rightarrow> read_event list \<Rightarrow>
     (bytes, tls_io_error) result poll \<times> tds_tls_stream \<times> read_event list" where
  "poll_read room st evs =
     (if passthrough st then (case socket_read room evs of (r, evs') \<Rightarrow> (r, st, evs'))
      else if read_buf st \<noteq> []
      then (Ready (Ok (take room (read_buf st))), st\<lparr>read_buf := drop room (read_buf st)\<rparr>, evs)
      else if 0 < payload_remaining st
      then (case socket_read (min (payload_remaining st) 4096) evs of
              (Pending w, evs') \<Rightarrow> (Pending w, st, evs')
            | (Ready (Err e), evs') \<Rightarrow> (Ready (Err e), st, evs')
            | (Ready (Ok d), evs') \<Rightarrow>
                if d = [] then (Ready (Err UnexpectedEof), st, evs')
                else (Ready (Ok (take room d)),
                      st\<lparr>payload_remaining := payload_remaining st - length d, read_buf := drop room d\<rparr>, evs'))
      else case fill_header st evs of
             (Some r, st', evs') \<Rightarrow> (r, st', evs')
           | (None, st', evs') \<Rightarrow>
               (case parse_tls_header (header_buf st') of
                  None \<Rightarrow> (Ready (Err InvalidHeader), st', evs')
                | Some n \<Rightarrow>
                    (Pending (if 0 < n then WokenNow else NotWoken),
                     st'\<lparr>header_buf := [], payload_remaining := n\<rparr>, evs')))"

text \<open>The server-side stream reads in the same way.\<close>

definition server_poll_read ::
  "nat \<Rightarrow> tds_tls_stream \<Rightarrow> read_event list \<Rightarrow>
     (bytes, tls_io_error) result poll \<times> tds_tls_stream \<times> read_event list" where
  "server_poll_read = poll_read"

section \<open>Writing\<close>

datatype write_event = Takes nat | NoRoom | WriteFails

definition MAX_TDS_PACKET_SIZE :: nat where "MAX_TDS_PACKET_SIZE = 4096"

text \<open>Writes are only collected; in passthrough mode they go to the socket, which says how many bytes it took.\<close>

definition poll_write :: "bytes \<Rightarrow> tds_tls_stream \<Rightarrow> tds_tls_stream" where
  "poll_write d st = (if passthrough st then st else st\<lparr>pending_tls_data := pending_tls_data st @ d\<rparr>)"

text \<open>The packets of the pending data, the last of them marked.\<close>

function tls_packets :: "u8 \<Rightarrow> bytes \<Rightarrow> bytes" where
  "tls_packets t d =
     (if d = [] then []
      else let n = min (length d) (MAX_TDS_PACKET_SIZE - TDS_HEADER_SIZE)
           in create_tls_header t n (length d \<le> n) @ take n d @ tls_packets t (drop n d))"
  by pat_completeness auto
termination
  by (relation "measure (\<lambda>(t, d). length d)") (auto simp: MAX_TDS_PACKET_SIZE_def TDS_HEADER_SIZE_def)

declare tls_packets.simps [simp del]

text \<open>
  The loop that writes the packets: its outcome and what the socket took. When it has to wait after it has
  written something, it wakes itself.
\<close>

fun write_packets :: "bytes \<Rightarrow> write_event list \<Rightarrow> (unit, tls_io_error) result poll \<times> bytes \<times> write_event list" where
  "write_packets out [] = (Ready (Ok ()), out, [])"
| "write_packets out (ev # evs) =
     (if out = [] then (Ready (Ok ()), [], ev # evs)
      else case ev of
             NoRoom \<Rightarrow> (Pending BySocket, [], evs)
           | WriteFails \<Rightarrow> (Ready (Err SocketError), [], evs)
           | Takes n \<Rightarrow>
               if n = 0 then (Ready (Err WriteZero), [], evs)
               else (case write_packets (drop n out) evs of
                       (Pending w, sent, evs') \<Rightarrow> (Pending WokenNow, take n out @ sent, evs')
                     | (r, sent, evs') \<Rightarrow> (r, take n out @ sent, evs')))"

definition poll_flush ::
  "u8 \<Rightarrow> tds_tls_stream \<Rightarrow> write_event list \<Rightarrow>
     (unit, tls_io_error) result poll \<times> bytes \<times> tds_tls_stream \<times> write_event list" where
  "poll_flush t st evs =
     (if passthrough st \<or> pending_tls_data st = [] then (Ready (Ok ()), [], st, evs)
      else case write_packets (tls_packets t (pending_tls_data st)) evs of
             (r, sent, evs') \<Rightarrow>
               (r, sent, if r = Ready (Ok ()) then st\<lparr>pending_tls_data := []\<rparr> else st, evs'))"

definition client_poll_flush ::
  "tds_tls_stream \<Rightarrow> write_event list \<Rightarrow>
     (unit, tls_io_error) result poll \<times> bytes \<times> tds_tls_stream \<times> write_event list" where
  "client_poll_flush = poll_flush PKT_TABULAR_RESULT"

definition server_poll_flush ::
  "tds_tls_stream \<Rightarrow> write_event list \<Rightarrow>
     (unit, tls_io_error) result poll \<times> bytes \<times> tds_tls_stream \<times> write_event list" where
  "server_poll_flush = poll_flush PKT_PRELOGIN"

section \<open>What is still to come\<close>

fun arriving :: "read_event list \<Rightarrow> bytes" where
  "arriving [] = []"
| "arriving (Arrives d # evs) = d @ arriving evs"
| "arriving (NotReady # evs) = arriving evs"
| "arriving (ReadFails # evs) = []"

definition healthy :: "read_event list \<Rightarrow> bool" where
  "healthy evs \<longleftrightarrow> ReadFails \<notin> set evs \<and> Arrives [] \<notin> set evs"

text \<open>The payload in raw bytes, \<open>r\<close> bytes of the current packet missing, and whether the packets are whole.\<close>

function unwrap :: "nat \<Rightarrow> bytes \<Rightarrow> bytes" where
  "unwrap r raw =
     (if 0 < r then take r raw @ (if length raw \<le> r then [] else unwrap 0 (drop r raw))
      else case parse_tls_header raw of None \<Rightarrow> [] | Some n \<Rightarrow> unwrap n (drop TDS_HEADER_SIZE raw))"
  by pat_completeness auto
termination
  by (relation "measure (\<lambda>(r, raw). length raw)") (auto simp: parse_tls_header_def TDS_HEADER_SIZE_def split: if_splits)

function whole :: "nat \<Rightarrow> bytes \<Rightarrow> bool" where
  "whole r raw \<longleftrightarrow>
     (if 0 < r then (if raw = [] then False else r \<le> length raw \<and> whole 0 (drop r raw))
      else raw = [] \<or> (case parse_tls_header raw of
             None \<Rightarrow> False | Some n \<Rightarrow> 0 < n \<and> whole n (drop TDS_HEADER_SIZE raw)))"
  by pat_completeness auto
termination
  by (relation "measure (\<lambda>(r, raw). length raw)") (auto simp: parse_tls_header_def TDS_HEADER_SIZE_def split: if_splits)

declare unwrap.simps [simp del] whole.simps [simp del]

lemma unwrap_empty [simp]: "unwrap r [] = []"
  by (subst unwrap.simps) (simp add: parse_tls_header_def TDS_HEADER_SIZE_def)

lemma whole_Nil [simp]: "whole 0 []"
  by (subst whole.simps) simp

lemma unwrap_payload: "0 < r \<Longrightarrow> unwrap r raw = take r raw @ unwrap 0 (drop r raw)"
  by (subst unwrap.simps) simp

lemma whole_payload: "0 < r \<Longrightarrow> whole r raw \<longleftrightarrow> r \<le> length raw \<and> whole 0 (drop r raw)"
  by (subst whole.simps) auto

text \<open>Part of the payload is delivered.\<close>

lemma unwrap_part:
  assumes "length d \<le> r"
  shows "unwrap r (d @ raw) = d @ unwrap (r - length d) raw"
proof (cases "length d = r")
  case True
  then show ?thesis by (cases "r = 0") (simp_all add: unwrap_payload)
next
  case False
  with assms show ?thesis by (simp add: unwrap_payload)
qed

lemma whole_part: "length d \<le> r \<Longrightarrow> 0 < r \<Longrightarrow> whole r (d @ raw) \<longleftrightarrow> whole (r - length d) raw"
  by (cases "length d = r") (auto simp: whole_payload)

lemma parse_tls_header_append:
  "length h = TDS_HEADER_SIZE \<Longrightarrow> parse_tls_header (h @ raw) = parse_tls_header h"
  by (simp add: parse_tls_header_def nth_append TDS_HEADER_SIZE_def)

lemma socket_read_Ok:
  assumes "socket_read n evs = (Ready (Ok d), evs')"
  shows "arriving evs = d @ arriving evs'" "length d \<le> n" "healthy evs \<Longrightarrow> healthy evs'"
    "healthy evs \<Longrightarrow> 0 < n \<Longrightarrow> d = [] \<Longrightarrow> evs = []"
  using assms by (cases "(n, evs)" rule: socket_read.cases; auto simp: healthy_def split: if_splits)+

lemma socket_read_Pending:
  "socket_read n evs = (Pending w, evs') \<Longrightarrow>
     arriving evs = arriving evs' \<and> (healthy evs \<longrightarrow> healthy evs') \<and> w = BySocket \<and> evs = NotReady # evs'"
  by (cases "(n, evs)" rule: socket_read.cases) (auto simp: healthy_def)

lemma socket_read_healthy: "healthy evs \<Longrightarrow> socket_read n evs \<noteq> (Ready (Err e), evs')"
  by (cases "(n, evs)" rule: socket_read.cases) (auto simp: healthy_def)

text \<open>How much is left to do.\<close>

fun weight :: "read_event list \<Rightarrow> nat" where
  "weight [] = 0"
| "weight (Arrives d # evs) = Suc (length d) + weight evs"
| "weight (_ # evs) = Suc (weight evs)"

lemma socket_read_weight:
  "socket_read n evs = (Ready (Ok d), evs') \<Longrightarrow> weight evs' + length d \<le> weight evs"
  "socket_read n evs = (Pending w, evs') \<Longrightarrow> weight evs' < weight evs"
  by (cases "(n, evs)" rule: socket_read.cases; auto split: if_splits)+

section \<open>A poll delivers a prefix of what is to come\<close>

definition stream_inv :: "tds_tls_stream \<Rightarrow> bool" where
  "stream_inv st \<longleftrightarrow> \<not> passthrough st \<and> (0 < payload_remaining st \<longrightarrow> header_buf st = []) \<and>
     (length (header_buf st) < TDS_HEADER_SIZE \<or>
      length (header_buf st) = TDS_HEADER_SIZE \<and> parse_tls_header (header_buf st) = None)"

definition unread :: "tds_tls_stream \<Rightarrow> read_event list \<Rightarrow> bytes" where
  "unread st evs = read_buf st @ unwrap (payload_remaining st) (header_buf st @ arriving evs)"

definition uncut :: "tds_tls_stream \<Rightarrow> read_event list \<Rightarrow> bool" where
  "uncut st evs \<longleftrightarrow> healthy evs \<and> whole (payload_remaining st) (header_buf st @ arriving evs)"

lemma fill_header_induct [consumes 1, case_names Full Wait Fail Eof More]:
  assumes "fill_header st evs = (r, st', evs')"
    and Full: "\<And>st evs. TDS_HEADER_SIZE \<le> length (header_buf st) \<Longrightarrow> P st evs None st evs"
    and Wait: "\<And>st evs w evs'. length (header_buf st) < TDS_HEADER_SIZE \<Longrightarrow>
      socket_read (TDS_HEADER_SIZE - length (header_buf st)) evs = (Pending w, evs') \<Longrightarrow>
      P st evs (Some (Pending w)) st evs'"
    and Fail: "\<And>st evs e evs'. length (header_buf st) < TDS_HEADER_SIZE \<Longrightarrow>
      socket_read (TDS_HEADER_SIZE - length (header_buf st)) evs = (Ready (Err e), evs') \<Longrightarrow>
      P st evs (Some (Ready (Err e))) st evs'"
    and Eof: "\<And>st evs evs'. length (header_buf st) < TDS_HEADER_SIZE \<Longrightarrow>
      socket_read (TDS_HEADER_SIZE - length (header_buf st)) evs = (Ready (Ok []), evs') \<Longrightarrow>
      P st evs (Some (Ready (if header_buf st = [] then Ok [] else Err UnexpectedEof))) st evs'"
    and More: "\<And>st evs d e' r st' evs'. length (header_buf st) < TDS_HEADER_SIZE \<Longrightarrow>
      socket_read (TDS_HEADER_SIZE - length (header_buf st)) evs = (Ready (Ok d), e') \<Longrightarrow> d \<noteq> [] \<Longrightarrow>
      P (st\<lparr>header_buf := header_buf st @ d\<rparr>) e' r st' evs' \<Longrightarrow> P st evs r st' evs'"
  shows "P st evs r st' evs'"
  using assms(1)
proof (induction st evs arbitrary: r st' evs' rule: fill_header.induct)
  case (1 st evs)
  show ?case
  proof (cases "TDS_HEADER_SIZE \<le> length (header_buf st)")
    case True
    with "1.prems" Full show ?thesis by (subst (asm) fill_header.simps) auto
  next
    case less: False
    obtain q e' where q: "socket_read (TDS_HEADER_SIZE - length (header_buf st)) evs = (q, e')" by fastforce
    note unf = "1.prems" [unfolded fill_header.simps [of st evs] q, simplified less if_False prod.case]
    consider w where "q = Pending w" | e where "q = Ready (Err e)" | "q = Ready (Ok [])"
      | d where "q = Ready (Ok d)" "d \<noteq> []"
      by (metis poll.exhaust result.exhaust)
    then show ?thesis
    proof cases
      case 1
      with unf Wait less q show ?thesis by auto
    next
      case 2
      with unf Fail less q show ?thesis by auto
    next
      case 3
      with unf Eof less q show ?thesis by auto
    next
      case 4
      with unf have rec: "fill_header (st\<lparr>header_buf := header_buf st @ d\<rparr>) e' = (r, st', evs')" by simp
      show ?thesis
        using More [OF _ _ 4(2) "1.IH" [OF less q [symmetric] _ _ 4(2) rec]] less q 4 by simp
    qed
  qed
qed

lemma fill_header_frame:
  assumes "fill_header st evs = (r, st', evs')"
  shows "read_buf st' = read_buf st \<and> payload_remaining st' = payload_remaining st \<and> passthrough st' = passthrough st"
  using assms by (induction rule: fill_header_induct) auto

lemma fill_header_length:
  assumes "fill_header st evs = (r, st', evs')" and "length (header_buf st) \<le> TDS_HEADER_SIZE"
  shows "length (header_buf st') \<le> TDS_HEADER_SIZE \<and> (r = None \<longrightarrow> length (header_buf st') = TDS_HEADER_SIZE)"
  using assms by (induction rule: fill_header_induct) (auto dest: socket_read_Ok(2))

lemma fill_header_bytes:
  assumes "fill_header st evs = (r, st', evs')" and "\<forall>e. r \<noteq> Some (Ready (Err e))"
  shows "header_buf st' @ arriving evs' = header_buf st @ arriving evs"
  using assms
  by (induction rule: fill_header_induct) (auto dest: socket_read_Ok(1) socket_read_Pending split: if_splits)

lemma fill_header_Ok:
  assumes "fill_header st evs = (r, st', evs')" and "r = Some (Ready (Ok d))"
  shows "d = [] \<and> header_buf st = []"
  using assms by (induction rule: fill_header_induct) (auto split: if_splits)

lemma fill_header_healthy:
  assumes "fill_header st evs = (r, st', evs')" and "healthy evs"
  shows "healthy evs'"
  using assms
  by (induction rule: fill_header_induct) (auto dest: socket_read_Ok(3) socket_read_Pending simp: socket_read_healthy)

text \<open>On a healthy stream only an end inside a header is an error, and no data means the end.\<close>

lemma fill_header_end:
  assumes "fill_header st evs = (r, st', evs')" and "healthy evs" and "r = Some (Ready x)"
  shows "evs' = [] \<and> length (header_buf st @ arriving evs) < TDS_HEADER_SIZE \<and>
    (header_buf st @ arriving evs = [] \<longleftrightarrow> x = Ok [])"
  using assms
proof (induction rule: fill_header_induct)
  case (More st evs d e' r st' evs')
  then show ?case using socket_read_Ok(1,3) [OF More(2)] by auto
next
  case (Eof st evs evs')
  then show ?case using socket_read_Ok(4) [OF Eof(2)] by (auto split: if_splits)
qed (auto simp: socket_read_healthy)

lemma fill_header_weight:
  assumes "fill_header st evs = (r, st', evs')"
  shows "weight evs' \<le> weight evs \<and> (\<forall>w. r = Some (Pending w) \<longrightarrow> weight evs' < weight evs) \<and>
    (r = None \<longrightarrow> length (header_buf st) < TDS_HEADER_SIZE \<longrightarrow> weight evs' < weight evs)"
  using assms
proof (induction rule: fill_header_induct)
  case (Fail st evs e evs')
  then show ?case
    by (cases "(TDS_HEADER_SIZE - length (header_buf st), evs)" rule: socket_read.cases) auto
next
  case (More st evs d e' r st' evs')
  then have "weight e' < weight evs" using socket_read_weight(1) [OF More(2)] by (cases d) auto
  with More show ?case by auto
qed (auto dest: socket_read_weight)

lemma fill_header_short:
  assumes "fill_header st evs = (Some r, st', evs')"
  shows "length (header_buf st') < TDS_HEADER_SIZE"
proof -
  obtain q where "q = Some r" by blast
  with assms have "fill_header st evs = (q, st', evs')" "q \<noteq> None" by auto
  then show ?thesis by (induction rule: fill_header_induct) auto
qed

lemma fill_header_wakes:
  assumes "fill_header st evs = (r, st', evs')" and "r = Some (Pending w)"
  shows "w = BySocket"
  using assms by (induction rule: fill_header_induct) (auto dest: socket_read_Pending)

lemma whole_short: "whole 0 raw \<Longrightarrow> length raw < TDS_HEADER_SIZE \<Longrightarrow> raw = []"
  by (subst (asm) whole.simps) (auto simp: parse_tls_header_def)

definition backlog :: "tds_tls_stream \<Rightarrow> read_event list \<Rightarrow> nat" where
  "backlog st evs = length (read_buf st) + 2 * weight evs"

lemma poll_read_payload:
  assumes "stream_inv st" and "read_buf st = []" and "0 < payload_remaining st"
    and "socket_read (min (payload_remaining st) 4096) evs = (Ready (Ok d), evs')" and "0 < room"
    and "st' = st\<lparr>payload_remaining := payload_remaining st - length d, read_buf := drop room d\<rparr>" and "d \<noteq> []"
  shows "unread st evs = take room d @ unread st' evs'" "uncut st evs \<Longrightarrow> uncut st' evs'" "stream_inv st'"
    "backlog st' evs' < backlog st evs"
proof -
  note rd = socket_read_Ok [OF assms(4)] and w = socket_read_weight(1) [OF assms(4)]
  have h: "header_buf st = []" using assms(1,3) by (simp add: stream_inv_def)
  have le: "length d \<le> payload_remaining st" using rd(2) by simp
  show "unread st evs = take room d @ unread st' evs'"
    using unwrap_part [OF le] assms(2) h rd(1) by (simp add: unread_def assms(6))
  show "uncut st' evs'" if "uncut st evs"
    using that whole_part [OF le assms(3)] h rd(1,3) by (simp add: uncut_def assms(6))
  show "stream_inv st'" using assms(1) h by (simp add: stream_inv_def assms(6))
  have "length (drop room d) < length d" using assms(5,7) by (cases d) auto
  then show "backlog st' evs' < backlog st evs" using w assms(2) by (simp add: backlog_def assms(6))
qed

lemma poll_read_spec:
  assumes "poll_read room st evs = (r, st', evs')" and inv: "stream_inv st" and room: "0 < room"
  shows "stream_inv st'"
    and "case r of Ready (Ok d) \<Rightarrow> unread st evs = d @ unread st' evs'
      | Pending w \<Rightarrow> unread st evs = unread st' evs' | Ready (Err e) \<Rightarrow> True"
    and "uncut st evs \<Longrightarrow> uncut st' evs' \<and> (\<forall>e. r \<noteq> Ready (Err e)) \<and> r \<noteq> Pending NotWoken \<and>
      (backlog st' evs' < backlog st evs \<or> evs' = [] \<and> unread st evs = [])"
proof -
  consider (buffered) "read_buf st \<noteq> []" | (payload) "read_buf st = []" "0 < payload_remaining st"
    | (header) "read_buf st = []" "payload_remaining st = 0" by auto
  then have "stream_inv st' \<and> (case r of Ready (Ok d) \<Rightarrow> unread st evs = d @ unread st' evs'
      | Pending w \<Rightarrow> unread st evs = unread st' evs' | Ready (Err e) \<Rightarrow> True) \<and>
    (uncut st evs \<longrightarrow> uncut st' evs' \<and> (\<forall>e. r \<noteq> Ready (Err e)) \<and> r \<noteq> Pending NotWoken \<and>
      (backlog st' evs' < backlog st evs \<or> evs' = [] \<and> unread st evs = []))"
  proof cases
    case buffered
    moreover have "length (drop room (read_buf st)) < length (read_buf st)"
      using buffered room by (cases "read_buf st") auto
    ultimately show ?thesis
      using assms(1) inv by (auto simp: poll_read_def stream_inv_def unread_def uncut_def backlog_def)
  next
    case payload
    obtain q e' where q: "socket_read (min (payload_remaining st) 4096) evs = (q, e')" by fastforce
    have nf: "\<not> passthrough st" using inv by (simp add: stream_inv_def)
    consider w where "q = Pending w" | e where "q = Ready (Err e)" | "q = Ready (Ok [])"
      | d where "q = Ready (Ok d)" "d \<noteq> []"
      by (metis poll.exhaust result.exhaust)
    then show ?thesis
    proof cases
      case 1
      with assms(1) payload nf q socket_read_Pending [OF q [unfolded 1]] socket_read_weight(2) [OF q [unfolded 1]] inv
      show ?thesis by (auto simp: poll_read_def unread_def uncut_def backlog_def)
    next
      case 2
      with assms(1) payload nf q inv socket_read_healthy [of evs] show ?thesis
        by (auto simp: poll_read_def uncut_def)
    next
      case 3
      note rd = socket_read_Ok [OF q [unfolded 3]]
      have "\<not> uncut st evs"
      proof
        assume "uncut st evs"
        moreover from this have "evs = []" using rd(4) payload(2) by (simp add: uncut_def)
        moreover have "header_buf st = []" using inv payload(2) by (simp add: stream_inv_def)
        ultimately show False using payload(2) by (simp add: uncut_def whole_payload)
      qed
      with assms(1) payload nf q 3 inv show ?thesis by (auto simp: poll_read_def)
    next
      case 4
      from assms(1) payload nf q 4 have r: "r = Ready (Ok (take room d))" "evs' = e'"
          "st' = st\<lparr>payload_remaining := payload_remaining st - length d, read_buf := drop room d\<rparr>"
        by (auto simp: poll_read_def)
      show ?thesis
        using poll_read_payload [OF inv payload q [unfolded 4(1)] room r(3) 4(2)] r by auto
    qed
  next
    case header
    obtain q s1 e1 where q: "fill_header st evs = (q, s1, e1)" by (metis prod_cases3)
    have nf: "\<not> passthrough st" and hl: "length (header_buf st) \<le> TDS_HEADER_SIZE"
      using inv by (auto simp: stream_inv_def)
    note fr = fill_header_frame [OF q] and len = fill_header_length [OF q hl] and hb = fill_header_bytes [OF q]
      and hy = fill_header_healthy [OF q] and wt = fill_header_weight [OF q]
    show ?thesis
    proof (cases q)
      case (Some x)
      have res: "r = x" "st' = s1" "evs' = e1" using assms(1) header nf q Some by (auto simp: poll_read_def)
      have inv': "stream_inv s1"
        using fill_header_short [OF q [unfolded Some]] inv fr by (auto simp: stream_inv_def header)
      show ?thesis
      proof (cases x)
        case (Ready y)
        have ok: "uncut st evs \<Longrightarrow> y = Ok [] \<and> e1 = [] \<and> header_buf st @ arriving evs = []"
          using fill_header_end [OF q _ Some [unfolded Ready]] header whole_short [of "header_buf st @ arriving evs"]
          by (auto simp: uncut_def)
        show ?thesis
        proof (cases y)
          case (Ok d)
          have "d = []" "header_buf st = []" using fill_header_Ok [OF q] Some Ready Ok by auto
          moreover have "header_buf s1 @ arriving e1 = header_buf st @ arriving evs" using hb Some Ready Ok by simp
          ultimately show ?thesis
            using res Ready Ok inv' fr header ok hy by (auto simp: unread_def uncut_def)
        next
          case (Err e)
          with res Ready inv' ok show ?thesis by auto
        qed
      next
        case (Pending w)
        have "header_buf s1 @ arriving e1 = header_buf st @ arriving evs" using hb Some Pending by simp
        moreover have "w = BySocket" using fill_header_wakes [OF q] Some Pending by simp
        ultimately show ?thesis
          using res Pending inv' fr header hy wt Some by (auto simp: unread_def uncut_def backlog_def)
      qed
    next
      case None
      have bytes: "header_buf s1 @ arriving e1 = header_buf st @ arriving evs" using hb None by simp
      have h8: "length (header_buf s1) = TDS_HEADER_SIZE" using len None by simp
      have raw: "parse_tls_header (header_buf st @ arriving evs) = parse_tls_header (header_buf s1)"
        using parse_tls_header_append [OF h8, of "arriving e1"] bytes by simp
      have drop: "drop TDS_HEADER_SIZE (header_buf st @ arriving evs) = arriving e1"
        using bytes h8 by (metis append_eq_conv_conj)
      show ?thesis
      proof (cases "parse_tls_header (header_buf s1)")
        case p: None
        have "\<not> uncut st evs"
        proof
          assume "uncut st evs"
          then have "header_buf st @ arriving evs = []"
            using header raw p by (simp add: uncut_def whole.simps [of 0])
          with bytes h8 show False by (simp add: TDS_HEADER_SIZE_def)
        qed
        with assms(1) header nf q None p inv fr h8 show ?thesis by (auto simp: poll_read_def stream_inv_def)
      next
        case p: (Some n)
        have res: "r = Pending (if 0 < n then WokenNow else NotWoken)" "st' = s1\<lparr>header_buf := [], payload_remaining := n\<rparr>"
            "evs' = e1"
          using assms(1) header nf q None p by (auto simp: poll_read_def)
        have "length (header_buf st) < TDS_HEADER_SIZE"
        proof (rule ccontr)
          assume full: "\<not> length (header_buf st) < TDS_HEADER_SIZE"
          then have "s1 = st" using q by (subst (asm) fill_header.simps) simp
          with full inv p show False by (simp add: stream_inv_def)
        qed
        then have "weight e1 < weight evs" using wt None by simp
        moreover have "unwrap 0 (header_buf st @ arriving evs) = unwrap n (arriving e1)"
          using drop by (subst unwrap.simps) (simp add: raw p)
        moreover have "whole 0 (header_buf st @ arriving evs) \<Longrightarrow> 0 < n \<and> whole n (arriving e1)"
          using bytes h8 drop by (subst (asm) whole.simps) (auto simp: raw p TDS_HEADER_SIZE_def)
        ultimately show ?thesis
          using res fr header nf hy by (auto simp: stream_inv_def unread_def uncut_def backlog_def TDS_HEADER_SIZE_def)
      qed
    qed
  qed
  then show "stream_inv st'"
    and "case r of Ready (Ok d) \<Rightarrow> unread st evs = d @ unread st' evs'
      | Pending w \<Rightarrow> unread st evs = unread st' evs' | Ready (Err e) \<Rightarrow> True"
    and "uncut st evs \<Longrightarrow> uncut st' evs' \<and> (\<forall>e. r \<noteq> Ready (Err e)) \<and> r \<noteq> Pending NotWoken \<and>
      (backlog st' evs' < backlog st evs \<or> evs' = [] \<and> unread st evs = [])"
    by auto
qed

section \<open>From one side to the other\<close>

text \<open>A reader that polls with room for so many bytes each time, up to its first error.\<close>

fun polls :: "nat list \<Rightarrow> tds_tls_stream \<Rightarrow> read_event list \<Rightarrow> bytes \<times> tds_tls_stream \<times> read_event list" where
  "polls [] st evs = ([], st, evs)"
| "polls (n # ns) st evs =
     (case poll_read n st evs of
        (Ready (Ok d), st', evs') \<Rightarrow> (case polls ns st' evs' of (out, r) \<Rightarrow> (d @ out, r))
      | (Pending w, st', evs') \<Rightarrow> polls ns st' evs'
      | (Ready (Err e), st', evs') \<Rightarrow> ([], st', evs'))"

lemma polls_empty:
  assumes "stream_inv st" and "uncut st evs" and "\<forall>n \<in> set ns. 0 < n" and "unread st evs = []"
  shows "fst (polls ns st evs) = []"
  using assms
proof (induction ns arbitrary: st evs)
  case (Cons n ns)
  obtain r st' evs' where p: "poll_read n st evs = (r, st', evs')" by (metis prod_cases3)
  note spec = poll_read_spec [OF p Cons.prems(1)] and IH = Cons.IH [of st' evs']
  show ?case
    using spec Cons.prems IH by (cases r) (auto simp: p split: result.splits prod.split)
qed simp

lemma drained:
  assumes "stream_inv st" and "uncut st []" and "read_buf st = []"
  shows "unread st [] = []"
proof (cases "0 < payload_remaining st")
  case True
  with assms show ?thesis by (auto simp: stream_inv_def uncut_def whole_payload)
next
  case False
  then have w: "whole 0 (header_buf st)" using assms(2) by (simp add: uncut_def)
  have "header_buf st = []"
  proof (rule ccontr)
    assume "header_buf st \<noteq> []"
    with w whole_short [OF w] have "parse_tls_header (header_buf st) \<noteq> None" "length (header_buf st) \<ge> TDS_HEADER_SIZE"
      by (auto simp: whole.simps [of 0 "header_buf st"] not_less [symmetric] split: option.splits)
    with assms(1) show False by (auto simp: stream_inv_def)
  qed
  with False assms(3) show ?thesis by (simp add: unread_def)
qed

lemma polls_deliver:
  assumes "stream_inv st" and "uncut st evs" and "\<forall>n \<in> set ns. 0 < n" and "backlog st evs \<le> length ns"
  shows "fst (polls ns st evs) = unread st evs"
  using assms
proof (induction ns arbitrary: st evs)
  case Nil
  have "weight evs = 0 \<Longrightarrow> evs = []" by (cases evs rule: weight.cases) auto
  with Nil have "evs = []" "read_buf st = []" by (simp_all add: backlog_def)
  with Nil drained [of st] show ?case by simp
next
  case (Cons n ns)
  show ?case
  proof (cases "unread st evs = []")
    case True
    with polls_empty [OF Cons.prems(1-3)] show ?thesis by simp
  next
    case False
    obtain r st' evs' where p: "poll_read n st evs = (r, st', evs')" by (metis prod_cases3)
    have n: "0 < n" using Cons.prems(3) by simp
    note spec = poll_read_spec [OF p Cons.prems(1) n]
    have step: "uncut st' evs'" "\<forall>e. r \<noteq> Ready (Err e)" "backlog st' evs' < backlog st evs"
      using spec(3) [OF Cons.prems(2)] False by auto
    have "fst (polls ns st' evs') = unread st' evs'"
      using Cons.IH [OF spec(1) step(1)] Cons.prems(3,4) step(3) by simp
    then show ?thesis
      using spec(2) step(2) by (cases r) (auto simp: p split: result.splits prod.split)
  qed
qed

lemma parse_create_header:
  "n \<le> MAX_TDS_PACKET_SIZE - TDS_HEADER_SIZE \<Longrightarrow> parse_tls_header (create_tls_header t n l @ raw) = Some n"
  by (simp add: parse_tls_header_def create_tls_header_def be16_def of_be16_def join_split unat_of_nat Let_def
      TDS_HEADER_SIZE_def MAX_TDS_PACKET_SIZE_def del: of_nat_add)

lemma length_create_header [simp]: "length (create_tls_header t n l) = TDS_HEADER_SIZE"
  by (simp add: create_tls_header_def TDS_HEADER_SIZE_def)

lemma packets_unwrapped: "unwrap 0 (tls_packets t d) = d \<and> whole 0 (tls_packets t d)"
proof (induction t d rule: tls_packets.induct)
  case (1 t d)
  show ?case
  proof (cases "d = []")
    case True
    then show ?thesis by (simp add: tls_packets.simps)
  next
    case False
    let ?n = "min (length d) (MAX_TDS_PACKET_SIZE - TDS_HEADER_SIZE)"
    let ?h = "create_tls_header t ?n (length d \<le> ?n)"
    have n: "0 < ?n" "?n \<le> MAX_TDS_PACKET_SIZE - TDS_HEADER_SIZE" "?n \<le> length d"
      using False by (auto simp: MAX_TDS_PACKET_SIZE_def TDS_HEADER_SIZE_def)
    note IH = "1.IH" [OF False refl]
    have p: "tls_packets t d = ?h @ take ?n d @ tls_packets t (drop ?n d)"
      using False by (subst tls_packets.simps) (simp add: Let_def)
    have parsed: "parse_tls_header (tls_packets t d) = Some ?n"
      unfolding p by (rule parse_create_header [OF n(2)])
    have rest: "drop TDS_HEADER_SIZE (tls_packets t d) = take ?n d @ tls_packets t (drop ?n d)"
      unfolding p by simp
    have len: "length (take ?n d) = ?n" using n(3) by simp
    have "unwrap 0 (tls_packets t d) = unwrap ?n (take ?n d @ tls_packets t (drop ?n d))"
      by (subst unwrap.simps) (simp add: parsed rest)
    also have "\<dots> = take ?n d @ drop ?n d"
      using unwrap_part [of "take ?n d" ?n] len IH by simp
    finally have a: "unwrap 0 (tls_packets t d) = d" by simp
    have "whole 0 (tls_packets t d) \<longleftrightarrow> whole ?n (take ?n d @ tls_packets t (drop ?n d))"
      using n(1) parsed rest by (subst whole.simps) (auto simp: parse_tls_header_def TDS_HEADER_SIZE_def)
    also have "\<dots> \<longleftrightarrow> whole 0 (tls_packets t (drop ?n d))"
      using whole_part [of "take ?n d" ?n] len n(1) by simp
    finally show ?thesis using a IH by simp
  qed
qed

lemma write_packets_Ok: "write_packets out evs = (Ready (Ok ()), sent, evs') \<Longrightarrow> sent = out"
proof (induction out evs arbitrary: sent rule: write_packets.induct)
  case (2 out ev evs)
  show ?case
  proof (cases "\<exists>n. out \<noteq> [] \<and> ev = Takes n \<and> n \<noteq> 0")
    case True
    then obtain n where n: "out \<noteq> []" "ev = Takes n" "n \<noteq> 0" by blast
    obtain r s e where w: "write_packets (drop n out) evs = (r, s, e)" by (metis prod_cases3)
    with "2.prems" n have sent: "sent = take n out @ s" and w': "write_packets (drop n out) evs = (Ready (Ok ()), s, evs')"
      by (auto split: poll.splits)
    have "s = drop n out" using w' by (rule "2.IH" [OF n])
    then show ?thesis by (simp add: sent)
  next
    case False
    with "2.prems" show ?thesis by (cases ev) (auto split: if_splits)
  qed
qed simp


section \<open>What is lost or repeated\<close>

text \<open>
  A flush that has to wait in the middle starts over: the packets it had begun are on the wire
  twice, the first time cut off.
\<close>

lemma flush_starts_over:
  assumes "\<not> passthrough w" and "0 < n" and "n < length (tls_packets t (pending_tls_data w))"
  shows "\<exists>w1 w2. poll_flush t w [Takes n, NoRoom] = (Pending WokenNow, take n (tls_packets t (pending_tls_data w)), w1, []) \<and>
    poll_flush t w1 [] = (Ready (Ok ()), tls_packets t (pending_tls_data w), w2, [])"
proof -
  have "pending_tls_data w \<noteq> []" using assms(3) by (auto simp: tls_packets.simps)
  moreover have "tls_packets t (pending_tls_data w) \<noteq> []" "drop n (tls_packets t (pending_tls_data w)) \<noteq> []"
    using assms(3) by auto
  ultimately show ?thesis using assms(1,2) by (simp add: poll_flush_def)
qed

text \<open>Bytes that were unwrapped ahead are out of reach once the handshake is declared over.\<close>

lemma passthrough_skips_buffer:
  "poll_read room (set_passthrough True st) evs = (case socket_read room evs of (r, evs') \<Rightarrow> (r, set_passthrough True st, evs'))"
  by (simp add: poll_read_def set_passthrough_def)

text \<open>A packet without a payload leaves the reader waiting for a wake-up that nobody will send.\<close>

lemma empty_packet_not_woken:
  assumes "stream_inv st" and "read_buf st = []" and "payload_remaining st = 0" and "header_buf st = []"
  shows "fst (poll_read room st (Arrives (create_tls_header t 0 l) # evs)) = Pending NotWoken"
proof -
  have h: "length (create_tls_header t 0 l) = TDS_HEADER_SIZE" by simp
  then have "create_tls_header t 0 l \<noteq> []" by (metis TDS_HEADER_SIZE_def list.size(3) zero_neq_numeral)
  then have "fill_header st (Arrives (create_tls_header t 0 l) # evs) =
      (None, st\<lparr>header_buf := create_tls_header t 0 l\<rparr>, evs)"
    using assms(4) h by (subst fill_header.simps) (simp add: fill_header.simps [of "st\<lparr>header_buf := create_tls_header t 0 l\<rparr>"] TDS_HEADER_SIZE_def)
  moreover have "parse_tls_header (create_tls_header t 0 l) = Some 0"
    using parse_create_header [of 0 t l "[]"] by simp
  moreover have "\<not> passthrough st" using assms(1) by (simp add: stream_inv_def)
  ultimately show ?thesis using assms by (simp add: poll_read_def)
qed

section \<open>A sample handshake record\<close>

definition sample_writer :: tds_tls_stream where
  "sample_writer = poll_write [0x16, 0x03, 0x01] new_tds_tls"

lemma sample_packets: "tls_packets t [0x16, 0x03, 0x01] = [t, 1, 0, 11, 0, 0, 0, 0, 0x16, 0x03, 0x01]"
  by (subst tls_packets.simps)
    (simp add: MAX_TDS_PACKET_SIZE_def TDS_HEADER_SIZE_def create_tls_header_def be16_def tls_packets.simps)


end
