(* ===== verification/Sqlserver_Handler.thy ===== *)
theory Sqlserver_Handler
  imports Proxy_Handler Tds_Protocol
begin

text \<open>
  The SQL Server connection handler of the database proxy, \<open>keeperdb-proxy/src/server/handlers/sqlserver.rs\<close>:
  PRELOGIN in both directions with the negotiation of encryption, TLS on both links, the client's LOGIN7 with
  its credentials replaced, registration before the login is sent, the server's answer, and the session.

  Beside the parameters of \<open>Proxy_Handler\<close> there are the database of the injected credentials, the TLS
  handshake with the server, and whether the server stops sending without closing: the wait for its PRELOGIN
  has no timeout, so that outcome is \<open>None\<close>, like a panic. The state also says which links are encrypted. The
  handler's \<open>state\<close> field is never read and is left out.
\<close>

section \<open>State and steps\<close>

datatype sql_error =
  TdsParse tds_error | UnexpectedPacket u8 | LoginRejected

record sql_env = proxy_env +
  auth_database :: "ustring option"
  server_plain :: "bytes option"
  server_stalls :: bool

record sql_conn = peers +
  client_encrypted :: bool
  server_encrypted :: bool

type_synonym 'a sql_handler = "(sql_conn, sql_error, 'a) handler"

text \<open>One packet at the front of a stream.\<close>

definition read_tds_packet :: "bytes \<Rightarrow> ((tds_header \<times> bytes) \<times> bytes) option" where
  "read_tds_packet bs =
     (case parse_tds_header bs of
        None \<Rightarrow> None
      | Some h \<Rightarrow>
          (let n = payload_length h; rest = drop TDS_HEADER_SIZE bs
           in if length rest < n then None else Some ((h, take n rest), drop n rest)))"

definition receive_tds_packet :: "sql_env \<Rightarrow> (tds_header \<times> bytes) sql_handler" where
  "receive_tds_packet env = (\<lambda>s. case read_tds_packet (client_in s) of
     None \<Rightarrow> (Some (Err (if client_stalls env then TimedOut else Eof)), s\<lparr>client_in := []\<rparr>)
   | Some (p, rest) \<Rightarrow> (Some (Ok p), s\<lparr>client_in := rest\<rparr>))"

text \<open>The same from the server, with the outcome of a server that stops sending.\<close>

definition receive_tds_packet_from ::
  "sql_env \<Rightarrow> (tds_header \<times> bytes, sql_error proxy_error) result option \<Rightarrow> (tds_header \<times> bytes) sql_handler" where
  "receive_tds_packet_from env stalled = (\<lambda>s. case read_tds_packet (server_in s) of
     None \<Rightarrow> (if server_stalls env then stalled else Some (Err Eof), s\<lparr>server_in := []\<rparr>)
   | Some (p, rest) \<Rightarrow> (Some (Ok p), s\<lparr>server_in := rest\<rparr>))"

definition tds_bytes :: "tds_header \<times> bytes \<Rightarrow> bytes" where
  "tds_bytes p = serialize_tds_header (fst p) @ snd p"

definition expect_packet :: "u8 \<Rightarrow> tds_header \<times> bytes \<Rightarrow> unit sql_handler" where
  "expect_packet t p =
     (if th_type (fst p) \<noteq> t then fail_h (ProtocolError (UnexpectedPacket (th_type (fst p)))) else return_h ())"

definition tds_parsed :: "('a, tds_error) result \<Rightarrow> 'a sql_handler" where
  "tds_parsed r = (case r of Ok a \<Rightarrow> return_h a | Err e \<Rightarrow> fail_h (ProtocolError (TdsParse e)))"

section \<open>Encryption\<close>

definition negotiate_encryption :: "encryption_mode \<Rightarrow> encryption_mode \<Rightarrow> encryption_mode" where
  "negotiate_encryption client server =
     (if client = EncOff \<and> server = EncOff then EncOff
      else if client = EncRequired \<or> server = EncRequired then EncRequired
      else if client = EncOn \<or> server = EncOn then EncOn
      else EncOff)"

definition negotiated_encryption :: "sql_env \<Rightarrow> prelogin \<Rightarrow> prelogin \<Rightarrow> encryption_mode" where
  "negotiated_encryption env client server =
     (if tls_accept env \<noteq> None
      then (if pl_encryption server = EncRequired then EncRequired else EncOn)
      else negotiate_encryption (pl_encryption client) (pl_encryption server))"

definition prelogin_to_server :: "sql_env \<Rightarrow> tds_header \<times> bytes \<Rightarrow> prelogin \<Rightarrow> bytes" where
  "prelogin_to_server env packet client =
     (if tls_accept env \<noteq> None \<and> pl_encryption client = EncOff
      then serialize_prelogin (client\<lparr>pl_encryption := EncOn\<rparr>)
      else tds_bytes packet)"

definition prelogin_to_client :: "encryption_mode \<Rightarrow> tds_header \<times> bytes \<Rightarrow> prelogin \<Rightarrow> bytes" where
  "prelogin_to_client mode packet server =
     (if mode \<noteq> pl_encryption server then serialize_prelogin_response (server\<lparr>pl_encryption := mode\<rparr>)
      else tds_bytes packet)"

definition accept_client_tls :: "bytes option \<Rightarrow> unit sql_handler" where
  "accept_client_tls plain = (\<lambda>s. case plain of
     None \<Rightarrow> (Some (Err TlsFailed), s)
   | Some p \<Rightarrow> (Some (Ok ()), s\<lparr>client_in := p, client_encrypted := True\<rparr>))"

definition connect_server_tls :: "bytes option \<Rightarrow> unit sql_handler" where
  "connect_server_tls plain = (\<lambda>s. case plain of
     None \<Rightarrow> (Some (Err TlsFailed), s)
   | Some p \<Rightarrow> (Some (Ok ()), s\<lparr>server_in := p, server_encrypted := True\<rparr>))"

text \<open>TLS with the client brings TLS with the server, whatever the server's PRELOGIN said.\<close>

definition upgrade_links :: "sql_env \<Rightarrow> encryption_mode \<Rightarrow> unit sql_handler" where
  "upgrade_links env mode =
     (if mode = EncOn \<or> mode = EncRequired
      then (case tls_accept env of
              None \<Rightarrow> fail_h ConfigError
            | Some plain \<Rightarrow>
                bind_h (accept_client_tls plain) (\<lambda>_. connect_server_tls (server_plain env)))
      else return_h ())"

section \<open>Login\<close>

definition login_database :: "sql_env \<Rightarrow> ustring option" where
  "login_database env = (case target_database env of Some d \<Rightarrow> Some d | None \<Rightarrow> auth_database env)"

definition sql_tunnel :: "sql_env \<Rightarrow> ustring" where
  "sql_tunnel env =
     (case env_session_uid env of
        Some uid \<Rightarrow> from_record_uid uid
      | None \<Rightarrow> from_connection (client_addr env) (target_host env) (target_port env))"

definition sql_refuse :: "sql_env \<Rightarrow> tracker_error \<Rightarrow> unit sql_handler" where
  "sql_refuse env e =
     put_client (build_error_packet 17809 (ustr ''Connection rejected: '' @ limit_text env e)
       (ustr ''keeperdb-proxy'') 16)"

text \<open>The search for a token in the raw bytes of the server's answer: the first of the two codes decides.\<close>

fun login_accepted :: "bytes \<Rightarrow> bool" where
  "login_accepted [] = False"
| "login_accepted (b # bs) =
     (if b = TOKEN_LOGINACK then True else if b = TOKEN_ERROR then False else login_accepted bs)"

definition login_on_server :: "sql_env \<Rightarrow> bytes \<Rightarrow> unit sql_handler" where
  "login_on_server env packet =
     bind_h (put_server packet) (\<lambda>_.
     bind_h (receive_tds_packet_from env (Some (Err TimedOut))) (\<lambda>response.
     bind_h (put_client (tds_bytes response)) (\<lambda>_.
     if login_accepted (snd response) then return_h () else fail_h (ProtocolError LoginRejected))))"

definition sql_complete :: "sql_env \<Rightarrow> login7 \<Rightarrow> bytes \<Rightarrow> proxy_session sql_handler" where
  "sql_complete env login raw =
     (case get_session_config env of
        None \<Rightarrow> fail_h ConfigError
      | Some cfg \<Rightarrow>
          (case get_auth env of
             None \<Rightarrow> fail_h CredentialRetrieval
           | Some creds \<Rightarrow>
               (case cred_password creds of
                  None \<Rightarrow> fail_h NoPassword
                | Some password \<Rightarrow>
                    bind_h (tds_parsed (modify_login7_credentials raw (cred_username creds) password
                              (login_database env))) (\<lambda>packet.
                    bind_h (register_connection env cfg (sql_tunnel env) (Some (l7_app_name login))
                              (sql_refuse env)) (\<lambda>g.
                    bind_h (login_on_server env packet) (\<lambda>_.
                    return_h (ready_session env cfg g)))))))"

definition sql_connect :: "sql_env \<Rightarrow> unit sql_handler" where
  "sql_connect env = (if connects env then return_h () else fail_h ConnectFailed)"

text \<open>Both PRELOGINs; the result is the negotiated mode.\<close>

definition exchange_prelogin :: "sql_env \<Rightarrow> encryption_mode sql_handler" where
  "exchange_prelogin env =
     bind_h (receive_tds_packet env) (\<lambda>cp.
     bind_h (expect_packet PKT_PRELOGIN cp) (\<lambda>_.
     bind_h (tds_parsed (parse_prelogin (snd cp))) (\<lambda>client.
     bind_h (sql_connect env) (\<lambda>_.
     bind_h (put_server (prelogin_to_server env cp client)) (\<lambda>_.
     bind_h (receive_tds_packet_from env None) (\<lambda>sp.
     if th_type (fst sp) \<noteq> PKT_PRELOGIN \<and> th_type (fst sp) \<noteq> PKT_TABULAR_RESULT
     then fail_h (ProtocolError (UnexpectedPacket (th_type (fst sp))))
     else bind_h (tds_parsed (parse_prelogin (snd sp))) (\<lambda>server.
          let mode = negotiated_encryption env client server
          in bind_h (put_client (prelogin_to_client mode sp server)) (\<lambda>_. return_h mode))))))))"

definition receive_login7 :: "sql_env \<Rightarrow> (login7 \<times> bytes) sql_handler" where
  "receive_login7 env =
     bind_h (receive_tds_packet env) (\<lambda>p.
     bind_h (expect_packet PKT_LOGIN7 p) (\<lambda>_.
     bind_h (tds_parsed (parse_login7 (snd p))) (\<lambda>login. return_h (login, tds_bytes p))))"

definition sql_handle :: "sql_env \<Rightarrow> proxy_session sql_handler" where
  "sql_handle env =
     bind_h (exchange_prelogin env) (\<lambda>mode.
     bind_h (upgrade_links env mode) (\<lambda>_.
     bind_h (receive_login7 env) (\<lambda>(login, raw).
     sql_complete env login raw)))"

section \<open>Packets on the wire\<close>

definition tds_packet_ok :: "tds_header \<times> bytes \<Rightarrow> bool" where
  "tds_packet_ok p \<longleftrightarrow> unat (th_length (fst p)) = TDS_HEADER_SIZE + length (snd p)"

lemma read_tds_bytes:
  "tds_packet_ok p \<Longrightarrow> read_tds_packet (tds_bytes p @ rest) = Some (p, rest)"
  by (cases p) (simp add: read_tds_packet_def tds_bytes_def tds_packet_ok_def parse_serialize_header payload_length_def Let_def)

lemma receive_tds_Ok:
  assumes "tds_packet_ok p"
  shows "client_in s = tds_bytes p @ rest \<Longrightarrow> receive_tds_packet env s = (Some (Ok p), s\<lparr>client_in := rest\<rparr>)"
    and "server_in s = tds_bytes p @ rest \<Longrightarrow> receive_tds_packet_from env r s = (Some (Ok p), s\<lparr>server_in := rest\<rparr>)"
  by (simp_all add: receive_tds_packet_def receive_tds_packet_from_def read_tds_bytes [OF assms])

interpretation tds: frame_codec tds_bytes read_tds_packet tds_packet_ok
proof
  fix p :: "tds_header \<times> bytes" and rest
  assume ok: "tds_packet_ok p"
  show "read_tds_packet (tds_bytes p @ rest) = Some (p, rest)" by (rule read_tds_bytes [OF ok])
  have len: "length (tds_bytes p) = TDS_HEADER_SIZE + length (snd p)" by (simp add: tds_bytes_def)
  then show "tds_bytes p \<noteq> []" by (auto simp: TDS_HEADER_SIZE_def)
  fix a b
  assume cut: "tds_bytes p = a @ b" "b \<noteq> []"
  show "read_tds_packet a = None"
  proof (cases "length a < TDS_HEADER_SIZE")
    case True
    then show ?thesis by (simp add: read_tds_packet_def parse_tds_header_def)
  next
    case False
    then have "parse_tds_header a = parse_tds_header (a @ b)"
      by (auto simp: parse_tds_header_def TDS_HEADER_SIZE_def nth_append)
    also have "\<dots> = Some (fst p)" using cut(1) parse_serialize_header [of "fst p" "snd p"] by (simp add: tds_bytes_def)
    finally have h: "parse_tds_header a = Some (fst p)" .
    have "length a < length (tds_bytes p)" using cut by simp
    then show ?thesis using ok len False by (simp add: read_tds_packet_def h tds_packet_ok_def payload_length_def Let_def)
  qed
qed

section \<open>What the steps leave alone\<close>

lemma keeps_sql [keeping, simp]:
  "keeps conn_tracker (receive_tds_packet env)" "keeps server_out (receive_tds_packet env)"
  "keeps client_encrypted (receive_tds_packet env)" "keeps server_encrypted (receive_tds_packet env)"
  "keeps conn_tracker (receive_tds_packet_from env r)" "keeps server_out (receive_tds_packet_from env r)"
  "keeps client_encrypted (receive_tds_packet_from env r)" "keeps server_encrypted (receive_tds_packet_from env r)"
  "keeps f (expect_packet t p)" "keeps f (tds_parsed q)" "keeps f (sql_connect env)"
  "keeps server_out (accept_client_tls b)" "keeps server_out (connect_server_tls b)"
  "keeps conn_tracker (accept_client_tls b)" "keeps conn_tracker (connect_server_tls b)"
  "keeps server_encrypted (accept_client_tls b)"
  by (auto simp: keeps_def receive_tds_packet_def receive_tds_packet_from_def expect_packet_def tds_parsed_def
      sql_connect_def accept_client_tls_def connect_server_tls_def return_h_def fail_h_def
      split: option.split result.split prod.split)

lemma keeps_put_flags [keeping, simp]:
  "keeps client_encrypted (put_client b)" "keeps server_encrypted (put_client b)"
  "keeps client_encrypted (put_server b)" "keeps server_encrypted (put_server b)"
  by (auto simp: keeps_def put_client_def put_server_def)

lemma keeps_sql_refuse [keeping, simp]:
  "keeps conn_tracker (sql_refuse env e)" "keeps server_out (sql_refuse env e)"
  "keeps client_encrypted (sql_refuse env e)" "keeps server_encrypted (sql_refuse env e)"
  by (simp_all add: sql_refuse_def)

lemma keeps_sql_login [keeping]:
  "keeps conn_tracker (login_on_server env packet)" "keeps client_encrypted (login_on_server env packet)"
  "keeps server_encrypted (login_on_server env packet)"
  unfolding login_on_server_def by (auto intro!: keeping)

lemma keeps_exchange [keeping]:
  "keeps conn_tracker (exchange_prelogin env)" "keeps client_encrypted (exchange_prelogin env)"
  "keeps server_encrypted (exchange_prelogin env)"
  unfolding exchange_prelogin_def by (auto simp: Let_def intro!: keeping)

lemma keeps_upgrade [keeping]:
  "keeps conn_tracker (upgrade_links env mode)" "keeps server_out (upgrade_links env mode)"
  by (auto simp: upgrade_links_def intro!: keeping split: option.split)

lemma keeps_receive_login [keeping]:
  "keeps conn_tracker (receive_login7 env)" "keeps server_out (receive_login7 env)"
  "keeps client_encrypted (receive_login7 env)" "keeps server_encrypted (receive_login7 env)"
  unfolding receive_login7_def by (auto intro!: keeping)

section \<open>The search for a token\<close>

text \<open>Any byte decides, whatever token it stands in.\<close>

lemma login_accepted_iff:
  "login_accepted bs \<longleftrightarrow> (\<exists>pre post. bs = pre @ TOKEN_LOGINACK # post \<and> TOKEN_ERROR \<notin> set pre)"
proof (induction bs)
  case (Cons b bs)
  have codes: "TOKEN_ERROR \<noteq> TOKEN_LOGINACK" by (simp add: TOKEN_ERROR_def TOKEN_LOGINACK_def)
  show ?case
  proof (cases "b = TOKEN_LOGINACK")
    case True
    then show ?thesis by (auto intro: exI [of _ "[]"])
  next
    case False
    with Cons.IH codes show ?thesis
      by (auto simp: Cons_eq_append_conv) (metis append_Cons set_ConsD)
  qed
qed simp

section \<open>Registration\<close>

definition answered :: "sql_conn \<Rightarrow> bool" where
  "answered s \<longleftrightarrow> (\<exists>pre p. client_out s = pre @ tds_bytes p \<and> login_accepted (snd p))"

lemma login_on_server_Ok:
  assumes "login_on_server env packet s = (Some (Ok ()), s')"
  shows "answered s' \<and> server_out s' = server_out s @ packet"
proof -
  obtain p rest where p: "read_tds_packet (server_in s) = Some (p, rest)" "login_accepted (snd p)"
      "s' = s\<lparr>server_out := server_out s @ packet, server_in := rest, client_out := client_out s @ tds_bytes p\<rparr>"
    using assms
    by (auto simp: login_on_server_def bind_h_def put_server_def put_client_def receive_tds_packet_from_def
        return_h_def fail_h_def split: if_splits option.splits prod.splits)
  then have "client_out s' = client_out s @ tds_bytes p" "server_out s' = server_out s @ packet" by simp_all
  with p(2) show ?thesis unfolding answered_def by blast
qed

interpretation sql_login: reporting "sql_refuse env" "login_on_server env packet" answered for env packet
proof
  show "keeps conn_tracker (sql_refuse env e)" for e by simp
  show "keeps conn_tracker (login_on_server env packet)" by (rule keeps_sql_login)
  show "fst (login_on_server env packet s) \<noteq> None" for s
    by (auto simp: login_on_server_def bind_h_def put_server_def put_client_def receive_tds_packet_from_def
        return_h_def fail_h_def split: option.splits prod.splits)
  show "answered s'" if "login_on_server env packet s = (Some (Ok ()), s')" for s s'
    using login_on_server_Ok [OF that] by simp
qed

lemma spec_forget: "handler_spec P m Q F \<Longrightarrow> handler_spec P m Q (\<lambda>_. True)"
  by (fastforce simp: handler_spec_def split: prod.splits option.splits result.splits)

lemma sql_complete_spec:
  "handler_spec (\<lambda>s. \<not> has_session (session_id env) (conn_tracker s)) (sql_complete env login raw)
     (\<lambda>sess s. registered env (session_guard sess) (conn_tracker s) \<and> answered s) (\<lambda>_. True)"
proof (cases "get_session_config env")
  case cfg: (Some cfg)
  show ?thesis
  proof (cases "get_auth env")
    case creds: (Some creds)
    show ?thesis
    proof (cases "cred_password creds")
      case pw: (Some pw)
      have login: "handler_spec (\<lambda>s. registered env g (conn_tracker s)) (login_on_server env packet)
          (\<lambda>_ s. registered env g (conn_tracker s) \<and> answered s) (\<lambda>_. True)" for g packet
        using keeps_result [OF keeps_sql_login(1), of env packet] login_on_server_Ok [of env packet]
        by (fastforce simp: handler_spec_def split: prod.splits option.splits result.splits)
      show ?thesis
        unfolding sql_complete_def cfg creds pw option.case
        by (intro spec_bind [OF spec_forget [OF spec_keeps [OF keeps_sql(10)]]]
            spec_bind [OF spec_forget [OF sql_login.register_spec]] spec_bind [OF login])
          (simp add: handler_spec_def return_h_def ready_session_def)
    qed (simp add: handler_spec_def sql_complete_def cfg creds fail_h_def)
  qed (simp add: handler_spec_def sql_complete_def cfg fail_h_def)
qed (simp add: handler_spec_def sql_complete_def fail_h_def)

text \<open>
  A SQL Server session handed to the relay is registered, and its client has the answer in
  which the server accepted the login.
\<close>

lemma sql_session_registered:
  assumes "\<not> has_session (session_id env) (conn_tracker s)" and "sql_handle env s = (Some (Ok sess), s')"
  shows "registered env (session_guard sess) (conn_tracker s') \<and> answered s'"
proof -
  have "handler_spec (\<lambda>s. \<not> has_session (session_id env) (conn_tracker s)) (sql_handle env)
     (\<lambda>sess s. registered env (session_guard sess) (conn_tracker s) \<and> answered s) (\<lambda>_. True)"
    unfolding sql_handle_def
    by (intro spec_bind [OF spec_forget [OF spec_keeps]] keeping)
      (auto simp: sql_complete_spec split: prod.split)
  then show ?thesis using assms by (fastforce simp: handler_spec_def)
qed


section \<open>Encryption of the links\<close>

text \<open>What both links are after a step.\<close>

lemma upgrade_links_flags:
  assumes "upgrade_links env mode s = (Some (Ok ()), s')" and "\<not> client_encrypted s" "\<not> server_encrypted s"
  shows "client_encrypted s' \<longleftrightarrow> mode = EncOn \<or> mode = EncRequired"
    and "server_encrypted s' \<longleftrightarrow> mode = EncOn \<or> mode = EncRequired"
    and "mode = EncOn \<or> mode = EncRequired \<Longrightarrow> tls_accept env \<noteq> None"
  using assms
  by (auto simp: upgrade_links_def accept_client_tls_def connect_server_tls_def bind_h_def return_h_def fail_h_def
      split: if_splits option.splits)

lemma bind_h_OkD:
  "bind_h m k s = (Some (Ok b), s') \<Longrightarrow> \<exists>a t. m s = (Some (Ok a), t) \<and> k a t = (Some (Ok b), s')"
  by (auto simp: bind_h_def split: prod.splits option.splits result.splits)

lemma exchange_mode:
  assumes "exchange_prelogin env s = (Some (Ok mode), s')" and "tls_accept env \<noteq> None"
  shows "mode = EncOn \<or> mode = EncRequired"
  using assms(1) unfolding exchange_prelogin_def Let_def
  by (auto dest!: bind_h_OkD simp: return_h_def fail_h_def negotiated_encryption_def assms(2) split: if_splits)

text \<open>The handler up to the login: nothing but PRELOGIN leaves on a plain link.\<close>

definition only_prelogin :: "bytes \<Rightarrow> bool" where
  "only_prelogin bs \<longleftrightarrow> bs = [] \<or> (\<exists>h. parse_tds_header bs = Some h \<and> th_type h = PKT_PRELOGIN)"

lemma prelogin_to_server_type:
  "th_type (fst cp) = PKT_PRELOGIN \<Longrightarrow> only_prelogin (prelogin_to_server env cp client)"
  by (simp add: only_prelogin_def prelogin_to_server_def serialize_prelogin_def serialize_prelogin_with_type_def
      parse_serialize_header new_tds_header_def tds_bytes_def)

lemma spec_frame:
  assumes "keeps f m" and "\<And>x. G x \<Longrightarrow> H x"
  shows "handler_spec (\<lambda>s. G (f s)) m (\<lambda>_ s. G (f s)) (\<lambda>s. H (f s))"
  using assms keeps_result [OF assms(1)]
  by (fastforce simp: handler_spec_def split: prod.splits option.splits result.splits)

lemma spec_conseq:
  assumes "handler_spec P m Q F" and "\<And>s. P' s \<Longrightarrow> P s" and "\<And>a s. Q a s \<Longrightarrow> Q' a s" and "\<And>s. F s \<Longrightarrow> F' s"
  shows "handler_spec P' m Q' F'"
  using assms by (fastforce simp: handler_spec_def split: prod.splits option.splits result.splits)

lemma spec_always:
  assumes "handler_spec P m (\<lambda>_. X) X" and "P s"
  shows "X (snd (m s))"
proof -
  obtain r s' where ms: "m s = (r, s')" by fastforce
  have "case (r, s') of (Some (Ok a), s') \<Rightarrow> X s' | (Some (Err _), s') \<Rightarrow> X s' | (None, s') \<Rightarrow> X s'"
    using assms(1) [unfolded handler_spec_def, rule_format, OF assms(2)] unfolding ms .
  then show ?thesis by (simp add: ms split: option.splits result.splits)
qed

lemma expect_spec:
  "handler_spec (\<lambda>s. server_out s = []) (expect_packet t p)
     (\<lambda>_ s. server_out s = [] \<and> th_type (fst p) = t) (\<lambda>s. only_prelogin (server_out s))"
  by (simp add: handler_spec_def expect_packet_def return_h_def fail_h_def only_prelogin_def)

lemma exchange_spec:
  "handler_spec (\<lambda>s. server_out s = []) (exchange_prelogin env)
     (\<lambda>_ s. only_prelogin (server_out s)) (\<lambda>s. only_prelogin (server_out s))"
proof -
  have empty: "only_prelogin x" if "x = []" for x using that by (simp add: only_prelogin_def)
  have framed: "handler_spec (\<lambda>s. server_out s = [] \<and> c) m (\<lambda>_ s. server_out s = [] \<and> c) (\<lambda>s. only_prelogin (server_out s))"
    if "keeps server_out m" for c and m :: "'m sql_handler"
    using spec_frame [OF that, of "\<lambda>x. x = [] \<and> c" only_prelogin] empty by blast
  have kept: "handler_spec (\<lambda>s. only_prelogin (server_out s)) m (\<lambda>_ s. only_prelogin (server_out s)) (\<lambda>s. only_prelogin (server_out s))"
    if "keeps server_out m" for m :: "'m sql_handler"
    using spec_frame [OF that, of only_prelogin only_prelogin] by blast
  have put: "handler_spec (\<lambda>s. server_out s = [] \<and> th_type (fst cp) = PKT_PRELOGIN) (put_server (prelogin_to_server env cp client))
      (\<lambda>_ s. only_prelogin (server_out s)) (\<lambda>s. only_prelogin (server_out s))" for cp client
    using prelogin_to_server_type [of cp env client]
    by (auto simp: handler_spec_def put_server_def only_prelogin_def [of "[]"])
  show ?thesis
    unfolding exchange_prelogin_def Let_def
    by (intro spec_bind [OF framed [of _ True, simplified]] spec_bind [OF expect_spec] spec_bind [OF framed]
        spec_bind [OF put] spec_bind [OF kept] kept keeping) (auto intro!: kept keeping)
qed

lemma keeps_register_frame:
  fixes refuse :: "tracker_error \<Rightarrow> ('z peers_scheme, 'e, unit) handler" and f :: "'z peers_scheme \<Rightarrow> 'f"
  assumes "\<And>e. keeps f (refuse e)" and "\<And>s tr. f (s\<lparr>conn_tracker := tr\<rparr>) = f s"
  shows "keeps f (register_connection env cfg tid app refuse)"
proof -
  have *: "keeps f (bind_h (refuse e) (\<lambda>_. fail_h x :: ('z peers_scheme, 'e, connection_guard option) handler))"
    for e x by (intro keeps_bind assms keeps_pure)
  show ?thesis
    using * by (simp add: keeps_def register_connection_def Let_def assms(2) split: result.split prod.split)
qed

lemma keeps_complete [keeping]:
  "keeps client_encrypted (sql_complete env login raw)" "keeps server_encrypted (sql_complete env login raw)"
  unfolding sql_complete_def by (auto intro!: keeping keeps_register_frame split: option.split)


section \<open>The relay's command bytes\<close>

text \<open>
  The managed relay reads MySQL commands in SQL Server traffic too: where it looks for one, a client's
  packet has the server process id, which clients send as zero. No batch is ever counted, so the limit on
  queries does not exist for SQL Server, whatever is configured.
\<close>

lemma sql_queries_not_counted:
  assumes "\<forall>p \<in> set ps. th_spid (fst p) = 0"
  shows "let r = relay_run idle (map (\<lambda>p. ClientRead (tds_bytes p) Written) ps) (start_relay m) in
    ended r = None \<and> query_count (mgr r) = query_count m \<and> to_server r = concat (map tds_bytes ps)"
proof -
  have cmd: "chunk_command (tds_bytes p) = Some 0" if "th_spid (fst p) = 0" for p
    using that by (simp add: chunk_command_def tds_bytes_def serialize_tds_header_def be16_def)
  have step: "relay_step idle (ClientRead (tds_bytes p) Written) r = r\<lparr>waited := 0, to_server := to_server r @ tds_bytes p\<rparr>"
    if "ended r = None" "th_spid (fst p) = 0" for p r
    using that cmd [of p]
    by (simp add: relay_step_def client_chunk_def count_chunk_def is_query_command_def com_codes out_def Let_def)
  have "ended r = None \<longrightarrow> (let r' = relay_run idle (map (\<lambda>p. ClientRead (tds_bytes p) Written) ps) r in
      ended r' = None \<and> mgr r' = mgr r \<and> to_server r' = to_server r @ concat (map tds_bytes ps))" for r
    using assms
  proof (induction ps arbitrary: r)
    case (Cons p ps)
    then show ?case using step [of r p] by (simp add: Let_def)
  qed simp
  from this [of "start_relay m"] show ?thesis
    by (simp add: start_relay_def Let_def take_disconnect_rx_def)
qed

section \<open>A sample connection\<close>

definition sample_sql_env :: sql_env where
  "sample_sql_env = \<lparr>connects = True, client_addr = [0x61], target_host = [0x62], target_port = 1433,
     target_database = None, tls_accept = None, client_stalls = False,
     get_session_config = Some (unlimited\<lparr>max_connections_per_session := Some 1\<rparr>),
     get_auth = Some \<lparr>cred_username = [0x75], cred_password = Some [0x70]\<rparr>, has_tracker = True,
     session_id = 1, env_session_uid = None, logs_queries = False, time_now = 0,
     limit_text = (\<lambda>_. []), auth_database = None, server_plain = None, server_stalls = False\<rparr>"

definition sample_sql_conn :: "bytes \<Rightarrow> bytes \<Rightarrow> sql_conn" where
  "sample_sql_conn from_client from_server = \<lparr>client_in = from_client, client_out = [], client_ok = True,
     server_in = from_server, server_out = [], server_ok = True, conn_tracker = new_tracker,
     client_encrypted = False, server_encrypted = False\<rparr>"

text \<open>A PRELOGIN without options, and an answer of one byte.\<close>

definition sample_prelogin :: "tds_header \<times> bytes" where
  "sample_prelogin = (new_tds_header PKT_PRELOGIN STATUS_EOM 9, [PL_TERMINATOR])"

definition sample_answer :: "u8 \<Rightarrow> tds_header \<times> bytes" where
  "sample_answer b = (new_tds_header PKT_TABULAR_RESULT STATUS_EOM 9, [b])"

lemma sample_packets_ok: "tds_packet_ok sample_prelogin" "tds_packet_ok (sample_answer b)"
  by (simp_all add: tds_packet_ok_def sample_prelogin_def sample_answer_def new_tds_header_def TDS_HEADER_SIZE_def)

definition sample_sql_login :: "u8 \<Rightarrow> sql_conn" where
  "sample_sql_login b = sample_sql_conn (tds_bytes sample_prelogin @ sample_login7)
     (tds_bytes sample_prelogin @ tds_bytes (sample_answer b))"

lemma sample_modified:
  "\<exists>packet. modify_login7_credentials sample_login7 user pw db = Ok packet"
  by (simp add: modify_login7_credentials_def sample_login7_def TDS_HEADER_SIZE_def LOGIN7_HEADER_SIZE_def Let_def)

lemma sample_prelogin_simps:
  "th_type (fst sample_prelogin) = PKT_PRELOGIN" "parse_prelogin (snd sample_prelogin) = Ok default_prelogin"
  by (simp_all add: sample_prelogin_def new_tds_header_def parse_prelogin_def)

lemma sample_env_simps:
  "connects sample_sql_env" "tls_accept sample_sql_env = None" "has_tracker sample_sql_env"
  "env_session_uid sample_sql_env = None"
  "get_session_config sample_sql_env = Some (unlimited\<lparr>max_connections_per_session := Some 1\<rparr>)"
  "get_auth sample_sql_env = Some \<lparr>cred_username = [0x75], cred_password = Some [0x70]\<rparr>"
  "effective_max_connections (unlimited\<lparr>max_connections_per_session := Some 1\<rparr>) = Some 1"
  by (simp_all add: sample_sql_env_def effective_max_connections_def unlimited_def)

lemma sample_exchange:
  assumes "client_in s = tds_bytes sample_prelogin @ cr" "server_in s = tds_bytes sample_prelogin @ sr"
    and "client_ok s" "server_ok s"
  shows "exchange_prelogin sample_sql_env s = (Some (Ok EncOff),
    s\<lparr>client_in := cr, server_out := server_out s @ tds_bytes sample_prelogin, server_in := sr,
      client_out := client_out s @ tds_bytes sample_prelogin\<rparr>)"
proof -
  have "prelogin_to_server sample_sql_env sample_prelogin default_prelogin = tds_bytes sample_prelogin"
    by (simp add: prelogin_to_server_def sample_env_simps)
  moreover have "negotiated_encryption sample_sql_env default_prelogin default_prelogin = EncOff"
    by (simp add: negotiated_encryption_def sample_env_simps negotiate_encryption_def default_prelogin_def)
  moreover have "prelogin_to_client EncOff sample_prelogin default_prelogin = tds_bytes sample_prelogin"
    by (simp add: prelogin_to_client_def default_prelogin_def)
  ultimately show ?thesis
    using assms
    by (simp add: exchange_prelogin_def bind_h_def receive_tds_Ok [OF sample_packets_ok(1)] expect_packet_def
        sample_prelogin_simps tds_parsed_def return_h_def sql_connect_def sample_env_simps put_server_def put_client_def Let_def)
qed

lemma sample_login_accepted: "\<exists>sess s'. sql_handle sample_sql_env (sample_sql_login TOKEN_LOGINACK) = (Some (Ok sess), s')"
proof -
  let ?p = "(new_tds_header PKT_LOGIN7 STATUS_EOM 104, drop TDS_HEADER_SIZE sample_login7)"
  obtain l where l: "parse_login7 (drop TDS_HEADER_SIZE sample_login7) = Ok l" using sample_login7_parsed by blast
  have p: "sample_login7 = tds_bytes ?p @ []" by (simp add: tds_bytes_def sample_login7_def)
  have ok: "tds_packet_ok ?p"
    by (simp add: tds_packet_ok_def new_tds_header_def sample_login7_def TDS_HEADER_SIZE_def)
  let ?s = "sample_sql_login TOKEN_LOGINACK"
  have s: "client_in ?s = tds_bytes sample_prelogin @ sample_login7" "client_ok ?s" "server_ok ?s"
      "server_in ?s = tds_bytes sample_prelogin @ tds_bytes (sample_answer TOKEN_LOGINACK)"
      "tunnels (conn_tracker ?s) = (\<lambda>_. None)"
    by (simp_all add: sample_sql_login_def sample_sql_conn_def new_tracker_def)
  obtain t where t: "exchange_prelogin sample_sql_env ?s = (Some (Ok EncOff), t)"
      "client_in t = tds_bytes ?p @ []" "server_in t = tds_bytes (sample_answer TOKEN_LOGINACK) @ []"
      "client_ok t" "server_ok t" "tunnels (conn_tracker t) = (\<lambda>_. None)"
    using sample_exchange [OF s(1,4,2,3)] s p by simp
  have up: "upgrade_links sample_sql_env EncOff t = (Some (Ok ()), t)" by (simp add: upgrade_links_def return_h_def)
  have rl: "receive_login7 sample_sql_env t = (Some (Ok (l, sample_login7)), t\<lparr>client_in := []\<rparr>)"
    using receive_tds_Ok(1) [OF ok t(2)] l p
    by (simp add: receive_login7_def bind_h_def expect_packet_def new_tds_header_def tds_parsed_def return_h_def)
  obtain packet where packet: "modify_login7_credentials sample_login7 [0x75] [0x70] (login_database sample_sql_env) = Ok packet"
    using sample_modified by blast
  let ?u = "t\<lparr>client_in := []\<rparr>"
  obtain g tr where reg: "register_connection sample_sql_env (unlimited\<lparr>max_connections_per_session := Some 1\<rparr>)
      (sql_tunnel sample_sql_env) (Some (l7_app_name l)) (sql_refuse sample_sql_env) ?u = (Some (Ok g), ?u\<lparr>conn_tracker := tr\<rparr>)"
    using t(6) by (simp add: register_connection_def sample_env_simps try_register_with_limits_and_app_def Let_def)
  have "\<exists>v. login_on_server sample_sql_env packet (?u\<lparr>conn_tracker := tr\<rparr>) = (Some (Ok ()), v)"
    using receive_tds_Ok(2) [OF sample_packets_ok(2), of _ TOKEN_LOGINACK "[]"] t
    by (simp add: login_on_server_def bind_h_def put_server_def put_client_def return_h_def sample_answer_def)
  then obtain v where "login_on_server sample_sql_env packet (?u\<lparr>conn_tracker := tr\<rparr>) = (Some (Ok ()), v)" by blast
  then have "sql_complete sample_sql_env l sample_login7 ?u =
      (Some (Ok (ready_session sample_sql_env (unlimited\<lparr>max_connections_per_session := Some 1\<rparr>) g)), v)"
    by (simp add: sql_complete_def sample_env_simps packet tds_parsed_def bind_h_def return_h_def reg)
  then show ?thesis
    by (simp add: sql_handle_def bind_h_def t(1) up rl)
qed



end
